(* ===== verification/Prelude.thy ===== *)
theory Prelude
  imports Main "HOL-Library.Word"
begin

text \<open>
  What every component of the development shares: the machine types of the C code, the bytes of
  a buffer and of a machine word in memory, C strings and the bounded copies the code makes of
  them, and the kernel's side of a \<open>send\<close>, \<open>recv\<close>, \<open>read\<close> or \<open>write\<close> call.

  Conventions. A \<open>char *\<close> that points to a NUL-terminated string is its contents before the NUL
  (a \<open>string\<close> without the character zero, \<open>is_cstr\<close>); a pointer that may be NULL is an
  \<open>option\<close>; an \<open>int\<close> result keeps the values of the source (\<open>0\<close>, \<open>- 1\<close>, ...).
\<close>

named_theorems wire_simps \<open>layout of the packets on the wire\<close>
named_theorems cstr_simps \<open>C strings and bounded copies\<close>

unbundle bit_operations_syntax

subsection \<open>Machine types\<close>

type_synonym byte = "8 word"
type_synonym u32 = "32 word"
type_synonym u64 = "64 word"

text \<open>Byte order of the host: \<open>htonl\<close>/\<open>ntohl\<close> and the bytes of an object in memory depend on it.\<close>

datatype endian = Little | Big

definition be_bytes32 :: "u32 \<Rightarrow> byte list" where
  "be_bytes32 v = [ucast (drop_bit 24 v), ucast (drop_bit 16 v), ucast (drop_bit 8 v), ucast v]"

definition be_word32 :: "byte list \<Rightarrow> u32" where
  "be_word32 bs = (case bs of
      [a, b, c, d] \<Rightarrow>
        push_bit 24 (ucast a) OR push_bit 16 (ucast b) OR push_bit 8 (ucast c) OR ucast d
    | _ \<Rightarrow> 0)"

text \<open>\<open>memcpy\<close> of an integer object to bytes and back, on a host of byte order \<open>e\<close>.\<close>

definition mem32 :: "endian \<Rightarrow> u32 \<Rightarrow> byte list" where
  "mem32 e v = (case e of Big \<Rightarrow> be_bytes32 v | Little \<Rightarrow> rev (be_bytes32 v))"

definition load32 :: "endian \<Rightarrow> byte list \<Rightarrow> u32" where
  "load32 e bs = (case e of Big \<Rightarrow> be_word32 bs | Little \<Rightarrow> be_word32 (rev bs))"

definition be_bytes64 :: "u64 \<Rightarrow> byte list" where
  "be_bytes64 v = be_bytes32 (ucast (drop_bit 32 v)) @ be_bytes32 (ucast v)"

definition be_word64 :: "byte list \<Rightarrow> u64" where
  "be_word64 bs = push_bit 32 (ucast (be_word32 (take 4 bs))) OR ucast (be_word32 (drop 4 bs))"

definition mem64 :: "endian \<Rightarrow> u64 \<Rightarrow> byte list" where
  "mem64 e v = (case e of Big \<Rightarrow> be_bytes64 v | Little \<Rightarrow> rev (be_bytes64 v))"

definition load64 :: "endian \<Rightarrow> byte list \<Rightarrow> u64" where
  "load64 e bs = (case e of Big \<Rightarrow> be_word64 bs | Little \<Rightarrow> be_word64 (rev bs))"

text \<open>\<open>htonl\<close> and \<open>ntohl\<close>: the byte swap on a little-endian host, the identity on a big-endian one.\<close>

definition bswap32 :: "u32 \<Rightarrow> u32" where
  "bswap32 v = be_word32 (rev (be_bytes32 v))"

definition htonl :: "endian \<Rightarrow> u32 \<Rightarrow> u32" where
  "htonl e v = (case e of Big \<Rightarrow> v | Little \<Rightarrow> bswap32 v)"

abbreviation ntohl :: "endian \<Rightarrow> u32 \<Rightarrow> u32" where
  "ntohl \<equiv> htonl"

lemma length_be_bytes32 [simp]: "length (be_bytes32 v) = 4"
  by (simp add: be_bytes32_def)

lemma length_be_bytes64 [simp]: "length (be_bytes64 v) = 8"
  by (simp add: be_bytes64_def)

lemma length_mem32 [simp]: "length (mem32 e v) = 4"
  by (simp add: mem32_def split: endian.split)

lemma length_mem64 [simp]: "length (mem64 e v) = 8"
  by (simp add: mem64_def split: endian.split)

lemma be_word32_bytes [simp]: "be_word32 (be_bytes32 v) = v"
proof (rule bit_word_eqI)
  fix n
  assume "n < LENGTH(32)"
  then consider "n < 8" | "8 \<le> n" "n < 16" | "16 \<le> n" "n < 24" | "24 \<le> n" "n < 32"
    by fastforce
  then show "bit (be_word32 (be_bytes32 v)) n \<longleftrightarrow> bit v n"
    by cases (auto simp: be_word32_def be_bytes32_def bit_simps)
qed

lemma byte_bit_high: "8 \<le> k \<Longrightarrow> \<not> bit (b :: byte) (k + n)"
  using bit_imp_le_length [of b "k + n"] by auto

lemma length4_conv: "length bs = 4 \<Longrightarrow> \<exists>a b c d. bs = [a, b, c, d]"
  by (auto simp: length_Suc_conv eval_nat_numeral)

lemma be_bytes32_word [simp]: "length bs = 4 \<Longrightarrow> be_bytes32 (be_word32 bs) = bs"
  by (drule length4_conv) (auto simp: be_word32_def be_bytes32_def bit_simps byte_bit_high
      intro!: bit_word_eqI)

lemma load32_mem32 [simp]: "load32 e (mem32 e v) = v"
  by (simp add: load32_def mem32_def split: endian.split)

lemma mem32_load32 [simp]: "length bs = 4 \<Longrightarrow> mem32 e (load32 e bs) = bs"
  by (simp add: load32_def mem32_def split: endian.split)

lemma htonl_htonl [simp]: "htonl e (htonl e v) = v"
  by (simp add: htonl_def bswap32_def split: endian.split)

text \<open>Whatever the host, \<open>htonl\<close> puts the most significant byte first in memory.\<close>

lemma mem32_htonl [wire_simps]: "mem32 e (htonl e v) = be_bytes32 v"
  by (simp add: mem32_def htonl_def bswap32_def split: endian.split)

lemma load32_be_bytes32 [wire_simps]: "ntohl e (load32 e (be_bytes32 v)) = v"
  by (metis htonl_htonl load32_mem32 mem32_htonl)

lemma be_word64_bytes [simp]: "be_word64 (be_bytes64 v) = v"
proof (rule bit_word_eqI)
  fix n
  assume "n < LENGTH(64)"
  then consider "n < 32" | "32 \<le> n" "n < 64" by fastforce
  then show "bit (be_word64 (be_bytes64 v)) n \<longleftrightarrow> bit v n"
    by cases (auto simp: be_word64_def be_bytes64_def bit_simps)
qed

lemma load64_mem64 [simp]: "load64 e (mem64 e v) = v"
  by (simp add: load64_def mem64_def split: endian.split)

subsection \<open>Buffers\<close>

text \<open>\<open>memcpy (buf + off, bs, length bs)\<close> into a buffer that has room for it.\<close>

definition write_at :: "nat \<Rightarrow> 'a list \<Rightarrow> 'a list \<Rightarrow> 'a list" where
  "write_at off bs buf = take off buf @ bs @ drop (off + length bs) buf"

definition read_at :: "nat \<Rightarrow> nat \<Rightarrow> 'a list \<Rightarrow> 'a list" where
  "read_at off n buf = take n (drop off buf)"

lemma length_write_at [simp]:
  "off + length bs \<le> length buf \<Longrightarrow> length (write_at off bs buf) = length buf"
  by (simp add: write_at_def)

lemma write_at_append:
  "length a = off \<Longrightarrow> write_at off b (a @ c) = a @ b @ drop (length b) c"
  by (simp add: write_at_def)

lemma read_at_append:
  "length a = off \<Longrightarrow> length b = n \<Longrightarrow> read_at off n (a @ b @ c) = b"
  by (simp add: read_at_def)

lemma read_at_write_at [simp]:
  "off \<le> length buf \<Longrightarrow> read_at off (length bs) (write_at off bs buf) = bs"
  by (simp add: read_at_def write_at_def)

subsection \<open>C strings\<close>

definition NUL :: char where
  "NUL = CHR 0x00"

definition is_cstr :: "string \<Rightarrow> bool" where
  "is_cstr s \<longleftrightarrow> NUL \<notin> set s"

text \<open>\<open>s[i]\<close> for an index up to the terminating NUL.\<close>

definition cchar :: "string \<Rightarrow> nat \<Rightarrow> char" where
  "cchar s i = (if i < length s then s ! i else NUL)"

definition char_of_byte :: "byte \<Rightarrow> char" where
  "char_of_byte b = char_of (unat b)"

definition byte_of_char :: "char \<Rightarrow> byte" where
  "byte_of_char c = word_of_nat (of_char c)"

text \<open>The string a \<open>char *\<close> into a buffer denotes, and the bytes of a string without its NUL.\<close>

definition cstr_of :: "byte list \<Rightarrow> string" where
  "cstr_of bs = takeWhile (\<lambda>c. c \<noteq> NUL) (map char_of_byte bs)"

definition bytes_of :: "string \<Rightarrow> byte list" where
  "bytes_of s = map byte_of_char s"

lemma char_of_byte_of_char [simp]: "char_of_byte (byte_of_char c) = c"
  by (simp add: char_of_byte_def byte_of_char_def unat_of_nat)

lemma byte_of_char_of_byte [simp]: "byte_of_char (char_of_byte b) = b"
proof -
  have "unat b < 256" using unsigned_less [of b] by simp
  then show ?thesis by (simp add: char_of_byte_def byte_of_char_def of_char_of)
qed

lemma length_bytes_of [simp]: "length (bytes_of s) = length s"
  by (simp add: bytes_of_def)

lemma is_cstr_simps [cstr_simps, simp]:
  "is_cstr []"
  "is_cstr (c # s) \<longleftrightarrow> c \<noteq> NUL \<and> is_cstr s"
  "is_cstr (s @ t) \<longleftrightarrow> is_cstr s \<and> is_cstr t"
  by (auto simp: is_cstr_def)

lemma is_cstr_take [cstr_simps, simp]: "is_cstr s \<Longrightarrow> is_cstr (take n s)"
  by (auto simp: is_cstr_def dest: in_set_takeD)

lemma is_cstr_drop [cstr_simps, simp]: "is_cstr s \<Longrightarrow> is_cstr (drop n s)"
  by (auto simp: is_cstr_def dest: in_set_dropD)

lemma is_cstr_cstr_of [cstr_simps, simp]: "is_cstr (cstr_of bs)"
  by (auto simp: is_cstr_def cstr_of_def dest: set_takeWhileD)

lemma cstr_of_bytes_of [cstr_simps, simp]: "is_cstr s \<Longrightarrow> cstr_of (bytes_of s) = s"
  by (induction s) (auto simp: cstr_of_def bytes_of_def is_cstr_def)

lemma char_of_byte_0 [simp]: "char_of_byte 0 = NUL"
  by (simp add: char_of_byte_def NUL_def char_of_def)

lemma cstr_of_terminated [cstr_simps]:
  "is_cstr s \<Longrightarrow> cstr_of (bytes_of s @ 0 # rest) = s"
  by (induction s) (auto simp: cstr_of_def bytes_of_def is_cstr_def)

lemma length_cstr_of [cstr_simps]: "length (cstr_of bs) \<le> length bs"
  by (metis cstr_of_def length_map length_takeWhile_le)

text \<open>
  \<open>snprintf (buf, n, "%s", s)\<close> for \<open>n > 0\<close>: the string left in the buffer and the returned length.
  \<open>strncpy\<close> of \<open>n - 1\<close> characters into a zeroed (or then terminated) buffer of \<open>n\<close> leaves the
  same string.
\<close>

definition snprintf :: "nat \<Rightarrow> string \<Rightarrow> string \<times> nat" where
  "snprintf n s = (take (n - 1) s, length s)"

definition strncpy :: "nat \<Rightarrow> string \<Rightarrow> string" where
  "strncpy n s = take (n - 1) s"

lemma snprintf_fits [cstr_simps]: "length s < n \<Longrightarrow> snprintf n s = (s, length s)"
  by (simp add: snprintf_def)

lemma strncpy_fits [cstr_simps]: "length s < n \<Longrightarrow> strncpy n s = s"
  by (simp add: strncpy_def)

text \<open>\<open>strcasecmp\<close> is 0 for strings that differ at most in the case of letters (C locale).\<close>

definition tolower :: "char \<Rightarrow> char" where
  "tolower c = (let n = of_char c :: nat in if 65 \<le> n \<and> n \<le> 90 then char_of (n + 32) else c)"

definition strcaseeq :: "string \<Rightarrow> string \<Rightarrow> bool" where
  "strcaseeq s t \<longleftrightarrow> map tolower s = map tolower t"

abbreviation (input) PATH_MAX :: nat where "PATH_MAX \<equiv> 4096"
abbreviation (input) NAME_MAX :: nat where "NAME_MAX \<equiv> 255"

subsection \<open>System calls that transfer bytes\<close>

text \<open>
  The kernel's answer to one \<open>send\<close>, \<open>recv\<close>, \<open>read\<close> or \<open>write\<close>: \<open>Chunk n\<close> transfers at most
  \<open>n + 1\<close> bytes (short transfers are legal), \<open>Eintr\<close> is \<open>- 1\<close> with \<open>errno = EINTR\<close> and \<open>Fail\<close>
  is \<open>- 1\<close> with another \<open>errno\<close>. A descriptor carries the list of answers still to come; once it
  is used up every call transfers all it is asked for. Any finite behaviour of the kernel is such
  a list.
\<close>

datatype io = Chunk nat | Eintr | Fail

fun no_fail :: "io list \<Rightarrow> bool" where
  "no_fail ios \<longleftrightarrow> Fail \<notin> set ios"

subsection \<open>Finite maps\<close>

lemma map_eqI: "(\<And>k v. m k = Some v \<longleftrightarrow> m' k = Some v) \<Longrightarrow> m = m'"
  by (metis not_None_eq ext)

subsection \<open>Time\<close>

text \<open>A \<open>struct timespec\<close>: seconds and nanoseconds of \<open>CLOCK_MONOTONIC\<close>, which stays far below \<open>2\<^sup>6\<^sup>3\<close>.\<close>

record timespec =
  tv_sec :: int
  tv_nsec :: int

definition zero_timespec :: timespec where
  "zero_timespec = \<lparr>tv_sec = 0, tv_nsec = 0\<rparr>"

end
