(* ===== verification/Chains.thy ===== *)
theory Chains
  imports Prelude "HOL-Library.Monad_Syntax"
begin

text \<open>
  Linked structures in memory, as the session table, the timer wheel and the thread pool build
  them: nodes allocated one by one, chained through a pointer field, and bucket arrays whose
  entries head the chains.

  A heap maps the addresses of live nodes to their contents; a pointer is an address or NULL
  (\<open>None\<close>). Every access is checked: reading or writing through NULL or a dangling pointer, an
  index out of range and a second \<open>free\<close> give \<open>None\<close>, and so does a walk that never ends. That
  an operation returns \<open>Some\<close> is therefore its memory safety together with its termination.

  The locale \<open>chained_index\<close> is the contract of a bucket array with chaining over nodes that
  carry a key: what a lookup finds after an insertion and after a removal. It is interpreted for
  the session index and the descriptor index of the session table and for the descriptor index
  of the timer wheel, each in its own theory.
\<close>

subsection \<open>Checked memory accesses\<close>

type_synonym ptr = "nat option"
type_synonym 'n heap = "nat \<Rightarrow> 'n option"

definition heap_read :: "'n heap \<Rightarrow> ptr \<Rightarrow> 'n option" where
  "heap_read h p = (case p of None \<Rightarrow> None | Some a \<Rightarrow> h a)"

definition heap_write :: "'n heap \<Rightarrow> ptr \<Rightarrow> ('n \<Rightarrow> 'n) \<Rightarrow> 'n heap option" where
  "heap_write h p f =
     (case p of None \<Rightarrow> None
      | Some a \<Rightarrow> (case h a of None \<Rightarrow> None | Some n \<Rightarrow> Some (h(a \<mapsto> f n))))"

definition heap_free :: "'n heap \<Rightarrow> ptr \<Rightarrow> 'n heap option" where
  "heap_free h p =
     (case p of None \<Rightarrow> Some h
      | Some a \<Rightarrow> (case h a of None \<Rightarrow> None | Some n \<Rightarrow> Some (h(a := None))))"

definition arr_get :: "'a list \<Rightarrow> nat \<Rightarrow> 'a option" where
  "arr_get xs i = (if i < length xs then Some (xs ! i) else None)"

definition arr_set :: "'a list \<Rightarrow> nat \<Rightarrow> 'a \<Rightarrow> 'a list option" where
  "arr_set xs i v = (if i < length xs then Some (xs[i := v]) else None)"

text \<open>
  \<open>calloc\<close> answers a fresh address or NULL; the answer is an input of the operation that
  allocates. Storing the zeroed node at that address:
\<close>

definition heap_calloc :: "'n heap \<Rightarrow> ptr \<Rightarrow> 'n \<Rightarrow> 'n heap" where
  "heap_calloc h p z = (case p of None \<Rightarrow> h | Some a \<Rightarrow> h(a \<mapsto> z))"

definition fresh_ptr :: "'n heap \<Rightarrow> ptr \<Rightarrow> bool" where
  "fresh_ptr h p = (case p of None \<Rightarrow> True | Some a \<Rightarrow> h a = None)"

named_theorems mem_simps \<open>checked memory accesses\<close>

lemma heap_read_simps [mem_simps]:
  "heap_read h None = None" "heap_read h (Some a) = h a"
  by (simp_all add: heap_read_def)

lemma heap_write_simps [mem_simps]:
  "heap_write h None f = None"
  "h a = Some n \<Longrightarrow> heap_write h (Some a) f = Some (h(a \<mapsto> f n))"
  by (simp_all add: heap_write_def)

lemma heap_free_simps [mem_simps]:
  "heap_free h None = Some h"
  "h a = Some n \<Longrightarrow> heap_free h (Some a) = Some (h(a := None))"
  by (simp_all add: heap_free_def)

lemma arr_simps [mem_simps]:
  "i < length xs \<Longrightarrow> arr_get xs i = Some (xs ! i)"
  "i < length xs \<Longrightarrow> arr_set xs i v = Some (xs[i := v])"
  by (simp_all add: arr_get_def arr_set_def)

lemma heap_calloc_simps [mem_simps]:
  "heap_calloc h None z = h" "heap_calloc h (Some a) z = h(a \<mapsto> z)"
  by (simp_all add: heap_calloc_def)

lemma fresh_ptr_simps [mem_simps]:
  "fresh_ptr h None" "fresh_ptr h (Some a) \<longleftrightarrow> h a = None"
  by (simp_all add: fresh_ptr_def)

subsection \<open>Walks along a chain\<close>

text \<open>\<open>while (p != NULL) { if (P(p)) return p; p = p->next; } return NULL;\<close>\<close>

partial_function (option) chain_find ::
  "('n \<Rightarrow> ptr) \<Rightarrow> ('n \<Rightarrow> bool) \<Rightarrow> 'n heap \<Rightarrow> ptr \<Rightarrow> ptr option" where
  [code]: "chain_find nxt P h p =
     (case p of None \<Rightarrow> Some None
      | Some a \<Rightarrow> (case h a of None \<Rightarrow> None
          | Some n \<Rightarrow> if P n then Some (Some a) else chain_find nxt P h (nxt n)))"

text \<open>
  \<open>while (*link != NULL && !stop(*link)) link = &(*link)->next;\<close> A link is the cell that holds
  a pointer: the head of the chain (\<open>None\<close>) or the next field of a node (\<open>Some\<close>). The result is
  the link together with \<open>*link\<close>.
\<close>

partial_function (option) chain_seek ::
  "('n \<Rightarrow> ptr) \<Rightarrow> (nat \<Rightarrow> 'n \<Rightarrow> bool) \<Rightarrow> 'n heap \<Rightarrow> ptr \<Rightarrow> ptr \<Rightarrow> (ptr \<times> ptr) option" where
  [code]: "chain_seek nxt stop h link p =
     (case p of None \<Rightarrow> Some (link, None)
      | Some a \<Rightarrow> (case h a of None \<Rightarrow> None
          | Some n \<Rightarrow> if stop a n then Some (link, Some a)
              else chain_seek nxt stop h (Some a) (nxt n)))"

text \<open>\<open>while (p != NULL) { next = p->next; free(p); p = next; }\<close>\<close>

partial_function (option) chain_free ::
  "('n \<Rightarrow> ptr) \<Rightarrow> 'n heap \<Rightarrow> ptr \<Rightarrow> 'n heap option" where
  [code]: "chain_free nxt h p =
     (case p of None \<Rightarrow> Some h
      | Some a \<Rightarrow> (case h a of None \<Rightarrow> None
          | Some n \<Rightarrow> chain_free nxt (h(a := None)) (nxt n)))"

text \<open>\<open>*link = v\<close>, where the link is a bucket of an array or the next field of a node.\<close>

definition link_store ::
  "('n \<Rightarrow> ptr \<Rightarrow> 'n) \<Rightarrow> 'n heap \<Rightarrow> ptr list \<Rightarrow> nat \<Rightarrow> ptr \<Rightarrow> ptr \<Rightarrow> ('n heap \<times> ptr list) option" where
  "link_store set_nxt h bs i link v =
     (case link of
        None \<Rightarrow> do { bs' \<leftarrow> arr_set bs i v; Some (h, bs') }
      | Some b \<Rightarrow> do { h' \<leftarrow> heap_write h (Some b) (\<lambda>n. set_nxt n v); Some (h', bs) })"

subsection \<open>Chains as lists of addresses\<close>

primrec chain :: "('n \<Rightarrow> ptr) \<Rightarrow> 'n heap \<Rightarrow> ptr \<Rightarrow> nat list \<Rightarrow> bool" where
  "chain nxt h p [] \<longleftrightarrow> p = None"
| "chain nxt h p (a # as) \<longleftrightarrow>
     p = Some a \<and> (case h a of None \<Rightarrow> False | Some n \<Rightarrow> chain nxt h (nxt n) as)"

lemma chain_Cons [simp]:
  "chain nxt h p (a # as) \<longleftrightarrow> p = Some a \<and> (\<exists>n. h a = Some n \<and> chain nxt h (nxt n) as)"
  by (simp split: option.splits)

declare chain.simps(2) [simp del]

lemma chain_Cons_E:
  assumes "chain nxt h p (a # as)"
  obtains n where "p = Some a" "h a = Some n" "chain nxt h (nxt n) as"
  using assms by auto

lemma chain_None [simp]: "chain nxt h None as \<longleftrightarrow> as = []"
  by (cases as) auto

lemma chain_live: "chain nxt h p as \<Longrightarrow> a \<in> set as \<Longrightarrow> \<exists>n. h a = Some n"
  by (induction as arbitrary: p) auto

lemma chain_unique: "chain nxt h p as \<Longrightarrow> chain nxt h p bs \<Longrightarrow> as = bs"
proof (induction as arbitrary: p bs)
  case (Cons a as)
  then show ?case by (cases bs) auto
qed simp

lemma chain_suffix: "chain nxt h p (xs @ a # ys) \<Longrightarrow> chain nxt h (Some a) (a # ys)"
  by (induction xs arbitrary: p) auto

lemma chain_distinct: "chain nxt h p as \<Longrightarrow> distinct as"
proof (induction as arbitrary: p)
  case (Cons a as)
  have "a \<notin> set as"
  proof
    assume "a \<in> set as"
    then obtain ys zs where as: "as = ys @ a # zs" by (meson split_list)
    have "chain nxt h (Some a) (a # as)" using Cons.prems by auto
    moreover have "chain nxt h (Some a) (a # zs)"
      using Cons.prems chain_suffix [of nxt h p "a # ys" a zs] by (simp add: as)
    ultimately have "as = zs" using chain_unique by blast
    then show False by (simp add: as)
  qed
  moreover have "distinct as" using Cons by auto
  ultimately show ?case by simp
qed simp

lemma chain_frame:
  "chain nxt h p as \<Longrightarrow> (\<And>a. a \<in> set as \<Longrightarrow> map_option nxt (h' a) = map_option nxt (h a)) \<Longrightarrow>
    chain nxt h' p as"
proof (induction as arbitrary: p)
  case (Cons a as)
  obtain n where n: "p = Some a" "h a = Some n" "chain nxt h (nxt n) as"
    using Cons.prems(1) by (rule chain_Cons_E)
  obtain n' where n': "h' a = Some n'" "nxt n' = nxt n"
    using Cons.prems(2) [of a] n(2) by auto
  have "chain nxt h' (nxt n) as" by (rule Cons.IH [OF n(3)]) (simp add: Cons.prems(2))
  then show ?case using n n' by simp
qed simp

lemma chain_find_chain:
  "chain nxt h p as \<Longrightarrow> chain_find nxt P h p = Some (find (\<lambda>a. P (the (h a))) as)"
proof (induction as arbitrary: p)
  case (Cons a as)
  obtain n where n: "p = Some a" "h a = Some n" "chain nxt h (nxt n) as"
    using Cons.prems by (rule chain_Cons_E)
  then show ?case using Cons.IH [OF n(3)] by (simp add: chain_find.simps [of _ _ _ "Some a"])
qed (simp add: chain_find.simps)

text \<open>The link of the node after the prefix \<open>xs\<close>, when the walk entered at \<open>link\<close>.\<close>

definition link_after :: "ptr \<Rightarrow> nat list \<Rightarrow> ptr" where
  "link_after link xs = (if xs = [] then link else Some (last xs))"

lemma chain_seek_found:
  "chain nxt h p (xs @ a # ys) \<Longrightarrow> (\<And>b. b \<in> set xs \<Longrightarrow> \<not> stop b (the (h b))) \<Longrightarrow>
    stop a (the (h a)) \<Longrightarrow> chain_seek nxt stop h link p = Some (link_after link xs, Some a)"
proof (induction xs arbitrary: p link)
  case Nil
  then show ?case
    by (auto simp: chain_seek.simps [of _ _ _ _ "Some a"] link_after_def split: option.splits)
next
  case (Cons b xs)
  obtain n where n: "p = Some b" "h b = Some n" "chain nxt h (nxt n) (xs @ a # ys)"
    using Cons.prems(1) by auto
  have "chain_seek nxt stop h (Some b) (nxt n) = Some (link_after (Some b) xs, Some a)"
    by (rule Cons.IH [OF n(3)]) (simp_all add: Cons.prems)
  moreover have "\<not> stop b n" using Cons.prems(2) [of b] n(2) by simp
  ultimately show ?case
    by (simp add: n chain_seek.simps [of _ _ _ _ "Some b"] link_after_def)
qed

lemma chain_seek_none:
  "chain nxt h p as \<Longrightarrow> (\<And>b. b \<in> set as \<Longrightarrow> \<not> stop b (the (h b))) \<Longrightarrow>
    chain_seek nxt stop h link p = Some (link_after link as, None)"
proof (induction as arbitrary: p link)
  case Nil
  then show ?case by (simp add: chain_seek.simps link_after_def)
next
  case (Cons b as)
  obtain n where n: "p = Some b" "h b = Some n" "chain nxt h (nxt n) as"
    using Cons.prems(1) by (rule chain_Cons_E)
  have "chain_seek nxt stop h (Some b) (nxt n) = Some (link_after (Some b) as, None)"
    by (rule Cons.IH [OF n(3)]) (simp add: Cons.prems)
  moreover have "\<not> stop b n" using Cons.prems(2) [of b] n(2) by simp
  ultimately show ?case
    by (simp add: n chain_seek.simps [of _ _ _ _ "Some b"] link_after_def)
qed

lemma chain_free_chain:
  "chain nxt h p as \<Longrightarrow> chain_free nxt h p = Some (\<lambda>a. if a \<in> set as then None else h a)"
proof (induction as arbitrary: p h)
  case Nil
  then show ?case by (simp add: chain_free.simps)
next
  case (Cons a as)
  obtain n where n: "p = Some a" "h a = Some n" "chain nxt h (nxt n) as"
    using Cons.prems by (rule chain_Cons_E)
  have "a \<notin> set as" using chain_distinct [OF Cons.prems] by simp
  then have "chain nxt (h(a := None)) (nxt n) as" by (intro chain_frame [OF n(3)]) auto
  then show ?case by (auto simp: n chain_free.simps [of _ _ "Some a"] Cons.IH [OF \<open>chain nxt (h(a := None)) (nxt n) as\<close>])
qed

text \<open>Unlinking the node after a non-empty prefix rewrites the last node of the prefix.\<close>

lemma chain_unlink_inner:
  assumes "chain nxt h p (xs @ a # ys)" "xs \<noteq> []" "h a = Some n" "h (last xs) = Some l"
    and "\<And>n v. nxt (set_nxt n v) = v"
  shows "chain nxt (h(last xs \<mapsto> set_nxt l (nxt n))) p (xs @ ys)"
  using assms(1,2,4)
proof (induction xs arbitrary: p)
  case (Cons b xs)
  obtain m where m: "p = Some b" "h b = Some m" "chain nxt h (nxt m) (xs @ a # ys)"
    using Cons.prems(1) by auto
  let ?h = "h(last (b # xs) \<mapsto> set_nxt l (nxt n))"
  have dist: "distinct (b # xs @ a # ys)" using chain_distinct [OF Cons.prems(1)] by simp
  show ?case
  proof (cases "xs = []")
    case True
    have "chain nxt h (nxt n) ys" using m(3) assms(3) True by auto
    then have "chain nxt ?h (nxt n) ys" using dist True by (intro chain_frame [OF \<open>chain nxt h (nxt n) ys\<close>]) auto
    then show ?thesis using m True assms(5) Cons.prems(3) by (simp add: fun_upd_def)
  next
    case False
    have "chain nxt ?h (nxt m) (xs @ ys)"
      using Cons.IH [OF m(3) False] Cons.prems(3) False by (simp add: fun_upd_def)
    moreover have "last (b # xs) \<noteq> b" using dist False by auto
    ultimately show ?thesis using m by (simp add: fun_upd_def)
  qed
qed simp

subsection \<open>Bucket arrays with chaining\<close>

text \<open>
  The nodes of \<open>S\<close> are exactly those on the chains of the \<open>cnt\<close> buckets, each on the chain of
  the bucket its key hashes to, and no two of them have the same key.
\<close>

definition indexed ::
  "('n \<Rightarrow> 'k) \<Rightarrow> ('n \<Rightarrow> ptr) \<Rightarrow> ('k \<Rightarrow> nat) \<Rightarrow> nat \<Rightarrow> 'n heap \<Rightarrow> ptr list \<Rightarrow> nat set \<Rightarrow> bool" where
  "indexed key nxt hash cnt h bs S \<longleftrightarrow>
     length bs = cnt \<and> inj_on (\<lambda>a. key (the (h a))) S \<and>
     (\<exists>L. S = (\<Union>i<cnt. set (L i)) \<and>
       (\<forall>i<cnt. chain nxt h (bs ! i) (L i) \<and> (\<forall>a\<in>set (L i). hash (key (the (h a))) = i)))"

lemma find_unique: "a \<in> set xs \<Longrightarrow> (\<And>b. b \<in> set xs \<Longrightarrow> P b \<longleftrightarrow> b = a) \<Longrightarrow> find P xs = Some a"
  by (induction xs) auto

lemma UN_upd:
  "i \<in> I \<Longrightarrow> (\<Union>m\<in>I. set ((L(i := zs)) m)) = (\<Union>m\<in>I - {i}. set (L m)) \<union> set zs"
  by (auto split: if_splits)

text \<open>Two heaps that differ at most in the field \<open>set_nxt\<close> of their nodes.\<close>

definition differ_in :: "('n \<Rightarrow> ptr \<Rightarrow> 'n) \<Rightarrow> 'n heap \<Rightarrow> 'n heap \<Rightarrow> bool" where
  "differ_in set_nxt h h' \<longleftrightarrow>
     (\<forall>a. h' a = h a \<or> (\<exists>n v. h a = Some n \<and> h' a = Some (set_nxt n v)))"

lemma differ_in_refl [simp]: "differ_in set_nxt h h"
  by (simp add: differ_in_def)

lemma differ_in_upd: "h b = Some n \<Longrightarrow> differ_in set_nxt h (h(b \<mapsto> set_nxt n v))"
  by (auto simp: differ_in_def)

lemma differ_in_field:
  "differ_in set_nxt h h' \<Longrightarrow> (\<And>n v. f (set_nxt n v) = f n) \<Longrightarrow>
    map_option f (h' a) = map_option f (h a)"
  unfolding differ_in_def by (metis option.simps(9))

lemma differ_in_dom: "differ_in set_nxt h h' \<Longrightarrow> dom h' = dom h"
  unfolding differ_in_def dom_def by (metis option.distinct(1))

text \<open>
  The contract of an index: the nodes' key, the chaining field and its update, the hash function
  and the number of buckets. The operations that use it are those of the source, on the bucket
  \<open>bs ! hash k\<close>.
\<close>

locale chained_index =
  fixes key :: "'n \<Rightarrow> 'k" and nxt :: "'n \<Rightarrow> ptr" and set_nxt :: "'n \<Rightarrow> ptr \<Rightarrow> 'n"
    and hash :: "'k \<Rightarrow> nat" and cnt :: nat
  assumes nxt_set_nxt: "nxt (set_nxt n v) = v"
    and key_set_nxt: "key (set_nxt n v) = key n"
    and hash_bound: "hash k < cnt"
begin

abbreviation ix :: "'n heap \<Rightarrow> ptr list \<Rightarrow> nat set \<Rightarrow> bool" where
  "ix \<equiv> indexed key nxt hash cnt"

lemma ix_E:
  assumes "ix h bs S"
  obtains L where "length bs = cnt" "inj_on (\<lambda>a. key (the (h a))) S" "S = (\<Union>i<cnt. set (L i))"
    "\<And>i. i < cnt \<Longrightarrow> chain nxt h (bs ! i) (L i)"
    "\<And>i a. i < cnt \<Longrightarrow> a \<in> set (L i) \<Longrightarrow> hash (key (the (h a))) = i"
  using assms by (auto simp: indexed_def)

lemma ix_I:
  assumes "length bs = cnt" "inj_on (\<lambda>a. key (the (h a))) S" "S = (\<Union>i<cnt. set (L i))"
    "\<And>i. i < cnt \<Longrightarrow> chain nxt h (bs ! i) (L i)"
    "\<And>i a. i < cnt \<Longrightarrow> a \<in> set (L i) \<Longrightarrow> hash (key (the (h a))) = i"
  shows "ix h bs S"
  using assms by (auto simp: indexed_def)

lemma ix_length: "ix h bs S \<Longrightarrow> length bs = cnt"
  by (simp add: indexed_def)

lemma ix_bucket: "ix h bs S \<Longrightarrow> hash k < length bs"
  by (simp add: indexed_def hash_bound)

lemma ix_live: "ix h bs S \<Longrightarrow> a \<in> S \<Longrightarrow> \<exists>n. h a = Some n"
  by (auto elim!: ix_E dest: chain_live)

lemma ix_finite: "ix h bs S \<Longrightarrow> finite S"
  by (auto elim!: ix_E)

lemma ix_inj: "ix h bs S \<Longrightarrow> a \<in> S \<Longrightarrow> b \<in> S \<Longrightarrow> key (the (h a)) = key (the (h b)) \<Longrightarrow> a = b"
  by (auto simp: indexed_def dest: inj_onD)

lemma ix_empty: "ix h (replicate cnt None) {}"
  by (rule ix_I [of _ _ _ "\<lambda>_. []"]) auto

lemma ix_frame:
  assumes "ix h bs S"
    and "\<And>a. a \<in> S \<Longrightarrow> map_option nxt (h' a) = map_option nxt (h a)"
    and "\<And>a. a \<in> S \<Longrightarrow> map_option key (h' a) = map_option key (h a)"
  shows "ix h' bs S"
proof -
  from assms(1) obtain L where L: "length bs = cnt" "inj_on (\<lambda>a. key (the (h a))) S"
    "S = (\<Union>i<cnt. set (L i))" "\<And>i. i < cnt \<Longrightarrow> chain nxt h (bs ! i) (L i)"
    "\<And>i a. i < cnt \<Longrightarrow> a \<in> set (L i) \<Longrightarrow> hash (key (the (h a))) = i" by (rule ix_E) blast
  have key: "key (the (h' a)) = key (the (h a))" if "a \<in> S" for a
    using assms(3) [OF that] ix_live [OF assms(1) that] by (auto simp: map_option_case split: option.splits)
  show ?thesis
  proof (rule ix_I [of _ _ _ L])
    show "inj_on (\<lambda>a. key (the (h' a))) S" using L(2) key by (simp add: inj_on_def)
    show "chain nxt h' (bs ! i) (L i)" if "i < cnt" for i
      by (rule chain_frame [OF L(4) [OF that]]) (use that in \<open>auto simp: L(3) intro!: assms(2)\<close>)
    show "hash (key (the (h' a))) = i" if "i < cnt" "a \<in> set (L i)" for i a
    proof -
      have "a \<in> S" using that by (auto simp: L(3))
      then show ?thesis using L(5) [OF that] by (simp add: key)
    qed
  qed (use L in auto)
qed

lemma find_some:
  assumes "ix h bs S" "a \<in> S" "key (the (h a)) = k"
    and "\<And>b. b \<in> S \<Longrightarrow> P (the (h b)) \<longleftrightarrow> key (the (h b)) = k"
  shows "chain_find nxt P h (bs ! hash k) = Some (Some a)"
proof -
  from assms(1) obtain L where L: "S = (\<Union>i<cnt. set (L i))"
    "\<And>i. i < cnt \<Longrightarrow> chain nxt h (bs ! i) (L i)"
    "\<And>i a. i < cnt \<Longrightarrow> a \<in> set (L i) \<Longrightarrow> hash (key (the (h a))) = i" by (rule ix_E) blast
  obtain j where "j < cnt" "a \<in> set (L j)" using assms(2) L(1) by auto
  then have a: "a \<in> set (L (hash k))" using L(3) [of j a] assms(3) by simp
  have "find (\<lambda>b. P (the (h b))) (L (hash k)) = Some a"
  proof (rule find_unique [OF a])
    fix b assume "b \<in> set (L (hash k))"
    then have "b \<in> S" using hash_bound L(1) by auto
    then show "P (the (h b)) \<longleftrightarrow> b = a" using assms ix_inj [OF assms(1)] by metis
  qed
  then show ?thesis using chain_find_chain [OF L(2) [OF hash_bound [of k]]] by simp
qed


lemma find_none:
  assumes "ix h bs S" "\<And>b. b \<in> S \<Longrightarrow> \<not> P (the (h b))"
  shows "chain_find nxt P h (bs ! hash k) = Some None"
proof -
  from assms(1) obtain L where L: "S = (\<Union>i<cnt. set (L i))"
    "\<And>i. i < cnt \<Longrightarrow> chain nxt h (bs ! i) (L i)" by (rule ix_E) blast
  have "find (\<lambda>b. P (the (h b))) (L (hash k)) = None"
    using assms(2) L(1) hash_bound [of k] by (auto simp: find_None_iff)
  then show ?thesis using chain_find_chain [OF L(2) [OF hash_bound [of k]]] by simp
qed

lemma push:
  assumes ix: "ix h bs S" and a: "a \<notin> S" "h' a = Some n" "key n = k" "nxt n = bs ! hash k"
    and fresh: "\<And>b. b \<in> S \<Longrightarrow> key (the (h b)) \<noteq> k"
    and frame: "\<And>b. b \<in> S \<Longrightarrow> map_option nxt (h' b) = map_option nxt (h b)"
      "\<And>b. b \<in> S \<Longrightarrow> map_option key (h' b) = map_option key (h b)"
  shows "ix h' (bs[hash k := Some a]) (insert a S)"
proof -
  have ix': "ix h' bs S" by (rule ix_frame [OF ix frame])
  then obtain L where L: "length bs = cnt" "inj_on (\<lambda>a. key (the (h' a))) S"
    "S = (\<Union>i<cnt. set (L i))" "\<And>i. i < cnt \<Longrightarrow> chain nxt h' (bs ! i) (L i)"
    "\<And>i a. i < cnt \<Longrightarrow> a \<in> set (L i) \<Longrightarrow> hash (key (the (h' a))) = i" by (rule ix_E) blast
  have key': "key (the (h' b)) \<noteq> k" if "b \<in> S" for b
    using fresh [OF that] frame(2) [OF that] ix_live [OF ix that]
    by (auto simp: map_option_case split: option.splits)
  let ?L = "L(hash k := a # L (hash k))"
  show ?thesis
  proof (rule ix_I [of _ _ _ ?L])
    have "key (the (h' a)) \<notin> (\<lambda>a. key (the (h' a))) ` (S - {a})" using key' a(2,3) by fastforce
    then show "inj_on (\<lambda>a. key (the (h' a))) (insert a S)" using L(2) by simp
    show "insert a S = (\<Union>i<cnt. set (?L i))"
      using hash_bound [of k] by (auto simp: L(3) split: if_splits)
    show "chain nxt h' (bs[hash k := Some a] ! i) (?L i)" if "i < cnt" for i
      using L(1) L(4) [OF that] a that by (cases "i = hash k") auto
    show "hash (key (the (h' b))) = i" if "i < cnt" "b \<in> set (?L i)" for i b
      using that L(5) [of i b] a by (auto split: if_splits)
  qed (use L in auto)
qed

text \<open>
  Unlinking: the walk along the chain of the node's bucket ends at the link that holds the node,
  and storing the node's successor there leaves an index of the other nodes.
\<close>

lemma unlink:
  assumes ix: "ix h bs S" and a: "a \<in> S" "h a = Some n" "key n = k"
    and stop: "\<And>b. b \<in> S \<Longrightarrow> stop b (the (h b)) \<longleftrightarrow> b = a"
  obtains link h' bs' where "chain_seek nxt stop h None (bs ! hash k) = Some (link, Some a)"
    "link_store set_nxt h bs (hash k) link (nxt n) = Some (h', bs')"
    "ix h' bs' (S - {a})" "differ_in set_nxt h h'" "h' a = Some n"
proof -
  from ix obtain L where L: "length bs = cnt" "inj_on (\<lambda>a. key (the (h a))) S"
    "S = (\<Union>i<cnt. set (L i))" "\<And>i. i < cnt \<Longrightarrow> chain nxt h (bs ! i) (L i)"
    "\<And>i a. i < cnt \<Longrightarrow> a \<in> set (L i) \<Longrightarrow> hash (key (the (h a))) = i" by (rule ix_E) blast
  obtain j where "j < cnt" "a \<in> set (L j)" using a(1) L(3) by auto
  then have "a \<in> set (L (hash k))" using L(5) [of j a] a by simp
  then obtain xs ys where xs: "L (hash k) = xs @ a # ys" by (meson split_list)
  let ?i = "hash k"
  have i: "?i < cnt" by (rule hash_bound)
  have ch: "chain nxt h (bs ! ?i) (xs @ a # ys)" using L(4) [OF i] by (simp add: xs)
  have dist: "distinct (xs @ a # ys)" by (rule chain_distinct [OF ch])
  have sub: "set (xs @ a # ys) \<subseteq> S" using i by (auto simp: L(3) simp flip: xs)
  have "stop a n" using stop [OF a(1)] a(2) by simp
  have seek: "chain_seek nxt stop h None (bs ! ?i) = Some (link_after None xs, Some a)"
    by (rule chain_seek_found [OF ch]) (use sub dist stop a(2) \<open>stop a n\<close> in auto)
  let ?L = "L(?i := xs @ ys)"
  have S': "S - {a} = (\<Union>i<cnt. set (?L i))"
  proof -
    have "a \<notin> set (L m)" if "m < cnt" "m \<noteq> ?i" for m using L(5) [OF that(1), of a] that(2) a by auto
    then have "a \<notin> (\<Union>m\<in>{..<cnt} - {?i}. set (L m))" by auto
    moreover have "S = (\<Union>m\<in>{..<cnt} - {?i}. set (L m)) \<union> set (L ?i)"
      using i by (auto simp: L(3))
    ultimately show ?thesis using dist i by (subst UN_upd) (auto simp: xs)
  qed
  have other: "last xs \<notin> set (L m)" if "m < cnt" "m \<noteq> ?i" "xs \<noteq> []" for m
    using L(5) [OF that(1), of "last xs"] L(5) [OF i, of "last xs"] that xs by auto
  show thesis
  proof (cases "xs = []")
    case True
    have "ix h (bs[?i := nxt n]) (S - {a})"
    proof (rule ix_I [of _ _ _ ?L])
      show "chain nxt h (bs[?i := nxt n] ! m) (?L m)" if "m < cnt" for m
        using L(1) L(4) [OF that] ch True a that by (cases "m = ?i") auto
      show "hash (key (the (h b))) = m" if "m < cnt" "b \<in> set (?L m)" for m b
        using that L(5) [of m b] by (auto simp: xs split: if_splits)
      show "inj_on (\<lambda>a. key (the (h a))) (S - {a})" using L(2) by (rule inj_on_subset) auto
    qed (use L S' in auto)
    moreover have "link_store set_nxt h bs ?i None (nxt n) = Some (h, bs[?i := nxt n])"
      using i L(1) by (simp add: link_store_def mem_simps)
    ultimately show thesis using that seek a True by (simp add: link_after_def)
  next
    case False
    then obtain l where l: "h (last xs) = Some l" using chain_live [OF ch, of "last xs"] by auto
    let ?h = "h(last xs \<mapsto> set_nxt l (nxt n))"
    have la: "last xs \<noteq> a" using dist False by auto
    have key: "key (the (?h b)) = key (the (h b))" for b using l by (simp add: key_set_nxt)
    have "ix ?h bs (S - {a})"
    proof (rule ix_I [of _ _ _ ?L])
      show "chain nxt ?h (bs ! m) (?L m)" if "m < cnt" for m
      proof (cases "m = ?i")
        case True
        then show ?thesis
          using chain_unlink_inner [OF ch False a(2) l, of set_nxt] nxt_set_nxt by simp
      next
        case False
        then show ?thesis using other [OF that False] \<open>xs \<noteq> []\<close>
          by (auto intro!: chain_frame [OF L(4) [OF that]])
      qed
      show "hash (key (the (?h b))) = m" if "m < cnt" "b \<in> set (?L m)" for m b
        using that L(5) [of m b] by (subst key) (auto simp: xs split: if_splits)
      have "inj_on (\<lambda>a. key (the (h a))) (S - {a})" using L(2) by (rule inj_on_subset) auto
      then show "inj_on (\<lambda>a. key (the (?h a))) (S - {a})" by (simp only: key)
    qed (use L S' in auto)
    moreover have "link_store set_nxt h bs ?i (Some (last xs)) (nxt n) = Some (?h, bs)"
      using l by (simp add: link_store_def mem_simps)
    ultimately show thesis using that seek a False la differ_in_upd [of h "last xs" l set_nxt, OF l]
      by (simp add: link_after_def)
  qed
qed

lemma seek_none:
  assumes "ix h bs S" "\<And>b. b \<in> S \<Longrightarrow> \<not> stop b (the (h b))"
  shows "\<exists>link. chain_seek nxt stop h None (bs ! hash k) = Some (link, None)"
proof -
  from assms(1) obtain L where L: "S = (\<Union>i<cnt. set (L i))"
    "\<And>i. i < cnt \<Longrightarrow> chain nxt h (bs ! i) (L i)" by (rule ix_E) blast
  show ?thesis
    using chain_seek_none [OF L(2) [OF hash_bound [of k]], of stop None] assms(2) L(1) hash_bound [of k]
    by auto
qed

end

end
