(* ===== verification/Database_Pool.thy ===== *)
theory Database_Pool
  imports Chains "HOL-Library.Multiset"
begin

text \<open>
  The connection pool of \<open>src/server/database_pool.c\<close>. The MySQL client library is not part of the
  program: its functions are the fields of \<open>mysql\<close>, on a world \<open>'w\<close> that stands for the library, the
  network and the server. A connection is a number; a result set is its list of rows, a NULL column
  is \<open>None\<close>.

  \<open>None\<close> as a result of a function means that it does not return normally: it waits on the condition
  variable because every connection is in use, or it writes outside the array.
\<close>

type_synonym conn = nat
type_synonym rows = "string option list list"

record 'w mysql =
  mysql_query :: "conn \<Rightarrow> string \<Rightarrow> 'w \<Rightarrow> int \<times> 'w"
  mysql_store_result :: "conn \<Rightarrow> 'w \<Rightarrow> rows option \<times> 'w"
  mysql_insert_id :: "conn \<Rightarrow> 'w \<Rightarrow> u64"
  mysql_errno :: "conn \<Rightarrow> 'w \<Rightarrow> nat"
  mysql_real_escape_string :: "conn \<Rightarrow> string \<Rightarrow> string"

definition ER_DUP_ENTRY :: nat where "ER_DUP_ENTRY = 1062"

record database_pool_t =
  db_connections :: "conn option list"
  db_size :: nat
  db_available :: nat

text \<open>Acquire takes the last available connection, release puts one back behind the others.\<close>

definition database_pool_acquire :: "database_pool_t option \<Rightarrow> (conn option \<times> database_pool_t option) option" where
  "database_pool_acquire pool =
     (case pool of
        None \<Rightarrow> Some (None, None)
      | Some p \<Rightarrow>
          if db_available p = 0 then None
          else do {
            let i = db_available p - 1;
            c \<leftarrow> arr_get (db_connections p) i;
            cs \<leftarrow> arr_set (db_connections p) i None;
            Some (c, Some (p\<lparr>db_connections := cs, db_available := i\<rparr>)) })"

definition database_pool_release :: "database_pool_t option \<Rightarrow> conn option \<Rightarrow> database_pool_t option option" where
  "database_pool_release pool conn =
     (case (pool, conn) of
        (Some p, Some c) \<Rightarrow> do {
          cs \<leftarrow> arr_set (db_connections p) (db_available p) (Some c);
          Some (Some (p\<lparr>db_connections := cs, db_available := db_available p + 1\<rparr>)) }
      | _ \<Rightarrow> Some pool)"

text \<open>
  Connecting: \<open>inits\<close> and \<open>connects\<close> answer \<open>mysql_init\<close> (the new handle or NULL) and
  \<open>mysql_real_connect\<close>. The second result lists the handles closed again.
\<close>

definition mysql_connect_one :: "conn option \<Rightarrow> bool \<Rightarrow> conn option \<times> conn list" where
  "mysql_connect_one init connected =
     (case init of
        None \<Rightarrow> (None, [])
      | Some c \<Rightarrow> if connected then (Some c, []) else (None, [c]))"

primrec connect_loop :: "nat \<Rightarrow> (conn option \<times> bool) list \<Rightarrow> conn option list \<Rightarrow> conn option list option \<times> conn list" where
  "connect_loop 0 answers got = (Some got, [])"
| "connect_loop (Suc n) answers got =
     (case answers of
        [] \<Rightarrow> (None, map the got)
      | (init, connected) # rest \<Rightarrow>
          (case mysql_connect_one init connected of
             (Some c, closed) \<Rightarrow> connect_loop n rest (got @ [Some c])
           | (None, closed) \<Rightarrow> (None, closed @ map the got)))"

definition database_pool_create ::
  "int \<Rightarrow> bool \<Rightarrow> bool \<Rightarrow> bool \<Rightarrow> bool \<Rightarrow> (conn option \<times> bool) list \<Rightarrow> database_pool_t option \<times> conn list" where
  "database_pool_create pool_size got_pool got_array mutex_ok cond_ok answers =
     (if \<not> got_pool \<or> pool_size < 0 \<or> \<not> got_array then (None, [])
      else if \<not> mutex_ok \<or> \<not> cond_ok then (None, [])
      else
        (case connect_loop (nat pool_size) answers [] of
           (None, closed) \<Rightarrow> (None, closed)
         | (Some cs, closed) \<Rightarrow> (Some \<lparr>db_connections = cs, db_size = nat pool_size, db_available = nat pool_size\<rparr>, closed)))"

text \<open>The connections that \<open>database_pool_destroy\<close> closes.\<close>

definition database_pool_destroy :: "database_pool_t option \<Rightarrow> conn option list" where
  "database_pool_destroy pool = (case pool of None \<Rightarrow> [] | Some p \<Rightarrow> take (db_available p) (db_connections p))"

text \<open>
  \<open>database_pool_execute\<close> returns 0, 1 (duplicate key) or -1. It reads \<open>mysql_errno\<close> of the connection
  after it has released it.
\<close>

definition database_pool_execute ::
  "'w mysql \<Rightarrow> string \<Rightarrow> database_pool_t option \<Rightarrow> 'w \<Rightarrow> (int \<times> database_pool_t option \<times> 'w) option" where
  "database_pool_execute M sql pool w = do {
     (conn, pool1) \<leftarrow> database_pool_acquire pool;
     case conn of
       None \<Rightarrow> Some (- 1, pool1, w)
     | Some c \<Rightarrow> do {
         let (ret, w1) = mysql_query M c sql w;
         pool2 \<leftarrow> database_pool_release pool1 conn;
         if ret \<noteq> 0 then
           (if mysql_errno M c w1 = ER_DUP_ENTRY then Some (1, pool2, w1) else Some (- 1, pool2, w1))
         else Some (0, pool2, w1) } }"

text \<open>\<open>database_pool_query\<close>: on success also what \<open>mysql_store_result\<close> returned, possibly NULL.\<close>

definition database_pool_query ::
  "'w mysql \<Rightarrow> string \<Rightarrow> database_pool_t option \<Rightarrow> 'w \<Rightarrow> (int \<times> rows option \<times> database_pool_t option \<times> 'w) option" where
  "database_pool_query M sql pool w = do {
     (conn, pool1) \<leftarrow> database_pool_acquire pool;
     case conn of
       None \<Rightarrow> Some (- 1, None, pool1, w)
     | Some c \<Rightarrow> do {
         let (ret, w1) = mysql_query M c sql w;
         if ret \<noteq> 0 then do {
           pool2 \<leftarrow> database_pool_release pool1 conn;
           Some (- 1, None, pool2, w1) }
         else do {
           let (res, w2) = mysql_store_result M c w1;
           pool2 \<leftarrow> database_pool_release pool1 conn;
           Some (0, res, pool2, w2) } } }"

subsection \<open>Sharing the pool\<close>

text \<open>
  Threads acquire and release under the mutex, in any order; \<open>held\<close> are the connections that threads
  hold. A thread releases only what it holds.
\<close>

inductive pool_share :: "database_pool_t \<times> conn multiset \<Rightarrow> database_pool_t \<times> conn multiset \<Rightarrow> bool" where
  acquire: "database_pool_acquire (Some p) = Some (Some c, Some p') \<Longrightarrow> pool_share (p, held) (p', add_mset c held)"
| release: "database_pool_release (Some p) (Some c) = Some (Some p') \<Longrightarrow> pool_share (p, add_mset c held) (p', held)"

text \<open>The idle connections fill the front of the array, NULLs the rest.\<close>

definition idle :: "database_pool_t \<Rightarrow> conn list \<Rightarrow> bool" where
  "idle p cs \<longleftrightarrow> db_available p = length cs \<and> length cs \<le> db_size p \<and>
     db_connections p = map Some cs @ replicate (db_size p - length cs) None"

lemma acquire_idle:
  assumes "idle p (cs @ [c])"
  obtains p' where "database_pool_acquire (Some p) = Some (Some c, Some p')" "idle p' cs" "db_size p' = db_size p"
proof -
  let ?n = "db_size p - Suc (length cs)"
  have p: "db_available p = Suc (length cs)" "Suc (length cs) \<le> db_size p"
    "db_connections p = map Some cs @ Some c # replicate ?n None"
    using assms by (auto simp: idle_def)
  let ?p = "p\<lparr>db_connections := map Some cs @ None # replicate ?n None, db_available := length cs\<rparr>"
  have "database_pool_acquire (Some p) = Some (Some c, Some ?p)"
    using p by (simp add: database_pool_acquire_def Let_def mem_simps nth_append list_update_append)
  moreover have "idle ?p cs" using p by (auto simp: idle_def simp flip: replicate_Suc intro: arg_cong2 [where f = replicate])
  ultimately show thesis using that by simp
qed

lemma release_idle:
  assumes "idle p cs" "length cs < db_size p"
  obtains p' where "database_pool_release (Some p) (Some c) = Some (Some p')" "idle p' (cs @ [c])" "db_size p' = db_size p"
proof -
  obtain n where n: "db_size p - length cs = Suc n" "n = db_size p - Suc (length cs)" using assms(2) by (cases "db_size p - length cs") auto
  have p: "db_available p = length cs" "db_connections p = map Some cs @ None # replicate n None"
    using assms(1) n(1) by (auto simp: idle_def)
  let ?p = "p\<lparr>db_connections := map Some cs @ Some c # replicate n None, db_available := Suc (length cs)\<rparr>"
  have "database_pool_release (Some p) (Some c) = Some (Some ?p)"
    using p by (simp add: database_pool_release_def mem_simps list_update_append)
  moreover have "idle ?p (cs @ [c])" using assms(2) n(2) by (simp add: idle_def)
  ultimately show thesis using that by simp
qed

lemma acquire_empty: "idle p [] \<Longrightarrow> database_pool_acquire (Some p) = None"
  by (simp add: idle_def database_pool_acquire_def)

text \<open>Taking a connection and giving it back restores the pool.\<close>

lemma release_acquire:
  assumes "idle p (cs @ [c])" "database_pool_acquire (Some p) = Some (Some c, Some p')"
  shows "database_pool_release (Some p') (Some c) = Some (Some p)"
proof -
  let ?n = "db_size p - Suc (length cs)"
  have p: "db_available p = Suc (length cs)" "db_connections p = map Some cs @ Some c # replicate ?n None"
    using assms(1) by (auto simp: idle_def)
  have "p' = p\<lparr>db_connections := map Some cs @ None # replicate ?n None, db_available := length cs\<rparr>"
    using assms(2) p by (simp add: database_pool_acquire_def Let_def mem_simps nth_append list_update_append)
  then show ?thesis using p by (simp add: database_pool_release_def mem_simps list_update_append)
qed

definition share_inv :: "conn list \<Rightarrow> database_pool_t \<times> conn multiset \<Rightarrow> bool" where
  "share_inv all s \<longleftrightarrow> (case s of (p, held) \<Rightarrow>
     \<exists>cs. idle p cs \<and> mset cs + held = mset all \<and> db_size p = length all)"

lemma share_inv_step: "pool_share s s' \<Longrightarrow> share_inv all s \<Longrightarrow> share_inv all s'"
proof (induction rule: pool_share.induct)
  case (acquire p c p' held)
  then obtain cs where cs: "idle p cs" "mset cs + held = mset all" "db_size p = length all" by (auto simp: share_inv_def)
  have "cs \<noteq> []" using acquire(1) cs(1) acquire_empty by auto
  then obtain ds d where d: "cs = ds @ [d]" by (cases cs rule: rev_cases) auto
  obtain q where "database_pool_acquire (Some p) = Some (Some d, Some q)" "idle q ds" "db_size q = db_size p"
    using acquire_idle cs(1) d by metis
  then show ?case using acquire(1) cs d by (auto simp: share_inv_def intro!: exI [of _ ds])
next
  case (release p c p' held)
  then obtain cs where cs: "idle p cs" "mset cs + add_mset c held = mset all" "db_size p = length all"
    by (auto simp: share_inv_def)
  have "length cs < db_size p" using cs(2,3) by (metis add_mset_add_single size_add_mset size_mset size_union less_add_Suc1 add_Suc_right)
  then obtain q where "database_pool_release (Some p) (Some c) = Some (Some q)" "idle q (cs @ [c])" "db_size q = db_size p"
    using release_idle [OF cs(1)] by metis
  then show ?case using release(1) cs by (auto simp: share_inv_def intro!: exI [of _ "cs @ [c]"])
qed

lemma connect_loop_ok:
  "connect_loop n answers got = (Some cs, closed) \<Longrightarrow> list_all (\<lambda>c. c \<noteq> None) got \<Longrightarrow>
    closed = [] \<and> length cs = length got + n \<and> list_all (\<lambda>c. c \<noteq> None) cs"
proof (induction n arbitrary: answers got)
  case (Suc n)
  then show ?case by (auto split: list.splits prod.splits option.splits simp: mysql_connect_one_def split: if_splits)
qed simp

lemma share_inv_run: "rtranclp pool_share s s' \<Longrightarrow> share_inv all s \<Longrightarrow> share_inv all s'"
  by (induction rule: rtranclp_induct) (auto intro: share_inv_step)

lemma create_idle:
  assumes "database_pool_create n a b c d answers = (Some p, closed)"
  obtains cs where "idle p cs" "db_size p = length cs" "length cs = nat n" "closed = []"
proof -
  obtain os where os: "connect_loop (nat n) answers [] = (Some os, closed)"
    "p = \<lparr>db_connections = os, db_size = nat n, db_available = nat n\<rparr>"
    using assms by (auto simp: database_pool_create_def split: if_splits prod.splits option.splits)
  note c = connect_loop_ok [OF os(1)]
  have "map Some (map the os) = os" using c by (auto simp: list_all_iff intro!: map_idI)
  then have "idle p (map the os)" using c os(2) by (simp add: idle_def)
  then show thesis using that [of "map the os"] c os(2) by simp
qed

text \<open>
  C37. A database connection belongs to one thread at a time: from a newly created pool on distinct
  connections, in every interleaving of threads that acquire and release, no connection is held twice or
  held while it is idle, every connection is either held or idle, a release never writes outside the array,
  and an acquire waits only when all connections are held.
\<close>

theorem db_pool_exclusive:
  assumes "database_pool_create n True True True True answers = (Some p, closed)"
    "mset (map the (db_connections p)) = mset all" "distinct all"
    "rtranclp pool_share (p, {#}) (p', held)"
  shows "\<exists>cs. idle p' cs \<and> distinct cs \<and> (\<forall>c. count held c \<le> 1) \<and> set cs \<inter> set_mset held = {} \<and>
    set cs \<union> set_mset held = set all \<and>
    (\<forall>c \<in> set_mset held. database_pool_release (Some p') (Some c) \<noteq> None) \<and>
    (database_pool_acquire (Some p') = None \<longleftrightarrow> held = mset all)"
proof -
  obtain cs0 where c0: "idle p cs0" "db_size p = length cs0" by (rule create_idle [OF assms(1)])
  then have "mset cs0 = mset all" using assms(2) by (simp add: idle_def comp_def)
  then have "share_inv all (p, {#})" using c0 by (auto simp: share_inv_def dest: mset_eq_length)
  then have "share_inv all (p', held)" by (rule share_inv_run [OF assms(4)])
  then obtain cs where cs: "idle p' cs" "mset cs + held = mset all" "db_size p' = length all" by (auto simp: share_inv_def)
  obtain hs where hs: "mset hs = held" by (metis ex_mset)
  then have perm: "mset (cs @ hs) = mset all" using cs(2) by simp
  then have dist: "distinct (cs @ hs)" using assms(3) mset_eq_imp_distinct_iff by blast
  have "set_mset held = set hs" using hs by auto
  then have "distinct cs" "set cs \<inter> set_mset held = {}" "set cs \<union> set_mset held = set all"
    using dist mset_eq_setD [OF perm] by auto
  moreover have "distinct hs" using dist by simp
  then have "\<forall>c. count held c \<le> 1" using hs by (auto simp: distinct_count_atmost_1)
  moreover have "database_pool_release (Some p') (Some c) \<noteq> None" if "c \<in># held" for c
  proof -
    have "size (mset cs) < size (mset all)" using cs(2) that by (metis size_union less_add_same_cancel1 nonempty_has_size empty_iff set_mset_empty)
    then show ?thesis using release_idle [OF cs(1), of c] cs(3) by (metis option.distinct(1) size_mset)
  qed
  moreover have "database_pool_acquire (Some p') = None \<longleftrightarrow> held = mset all"
  proof (cases cs rule: rev_cases)
    case Nil
    then show ?thesis using acquire_empty cs by auto
  next
    case (snoc ds d)
    then have "held \<noteq> mset all" using cs(2) by auto
    moreover have "database_pool_acquire (Some p') \<noteq> None" using acquire_idle cs(1) snoc by (metis option.distinct(1))
    ultimately show ?thesis by simp
  qed
  ultimately show ?thesis using cs(1) by (intro exI [of _ cs]) blast
qed

theorem db_pool_exclusive_witness:
  "\<exists>cs. idle \<lparr>db_connections = [Some 4, Some 5], db_size = 2, db_available = 2\<rparr> cs \<and> set cs \<union> set_mset {#} = set [4, 5]"
proof -
  let ?p = "\<lparr>db_connections = [Some 4, Some 5], db_size = 2, db_available = 2\<rparr>"
  have "database_pool_create 2 True True True True [(Some 4, True), (Some 5, True)] = (Some ?p, [])"
    by (simp add: database_pool_create_def mysql_connect_one_def numeral_2_eq_2)
  from db_pool_exclusive [OF this, of "[4, 5]" ?p "{#}"] show ?thesis by auto
qed

end
