(* ===== verification/Sql.thy ===== *)
theory Sql
  imports Prelude
begin

text \<open>
  The SQL text that the data access functions build with \<open>snprintf\<close>: literal text, unsigned numbers
  (\<open>%lu\<close>, \<open>%llu\<close>) and quoted strings (\<open>'%s'\<close>). A lexer reads such a text back; it inverts the printing
  whenever the quoted strings contain no quote and no backslash, so that such a statement means what its
  arguments say. Also the C library's decimal conversions.
\<close>

datatype sql = L string | N nat | S string

definition Q :: char where "Q = CHR 0x27"

definition digit :: "nat \<Rightarrow> char" where
  "digit n = char_of (48 + n)"

definition is_digit :: "char \<Rightarrow> bool" where
  "is_digit c \<longleftrightarrow> 48 \<le> (of_char c :: nat) \<and> (of_char c :: nat) \<le> 57"

definition digit_val :: "char \<Rightarrow> nat" where
  "digit_val c = of_char c - 48"

fun dec :: "nat \<Rightarrow> string" where
  "dec n = (if n < 10 then [digit n] else dec (n div 10) @ [digit (n mod 10)])"

declare dec.simps [simp del]

definition undec :: "string \<Rightarrow> nat" where
  "undec s = foldl (\<lambda>a c. 10 * a + digit_val c) 0 s"

text \<open>The text of a statement.\<close>

primrec piece :: "sql \<Rightarrow> string" where
  "piece (L s) = s"
| "piece (N n) = dec n"
| "piece (S s) = Q # s @ [Q]"

definition render :: "sql list \<Rightarrow> string" where
  "render ts = concat (map piece ts)"

subsection \<open>Reading it back\<close>

definition is_lit :: "char \<Rightarrow> bool" where
  "is_lit c \<longleftrightarrow> \<not> is_digit c \<and> c \<noteq> Q"

function lex :: "string \<Rightarrow> sql list option" where
  "lex [] = Some []"
| "lex (c # cs) =
     (if is_digit c then map_option ((#) (N (undec (takeWhile is_digit (c # cs))))) (lex (dropWhile is_digit cs))
      else if c = Q then
        (case dropWhile (\<lambda>c. c \<noteq> Q) cs of
           [] \<Rightarrow> None
         | q # rest \<Rightarrow> map_option ((#) (S (takeWhile (\<lambda>c. c \<noteq> Q) cs))) (lex rest))
      else map_option ((#) (L (takeWhile is_lit (c # cs)))) (lex (dropWhile is_lit cs)))"
  by pat_completeness auto
termination
proof (relation "measure length", goal_cases)
  case (3 c cs q rest)
  then have "length (q # rest) \<le> length cs" by (metis length_dropWhile_le)
  then show ?case by simp
qed (auto simp: less_Suc_eq_le length_dropWhile_le)

declare lex.simps [simp del]

text \<open>Strings that need no escaping, and statements in which text and arguments alternate.\<close>

definition plain :: "string \<Rightarrow> bool" where
  "plain s \<longleftrightarrow> Q \<notin> set s \<and> CHR 0x5C \<notin> set s \<and> NUL \<notin> set s"

fun lexable :: "sql list \<Rightarrow> bool" where
  "lexable [] \<longleftrightarrow> True"
| "lexable [L s] \<longleftrightarrow> s \<noteq> [] \<and> list_all is_lit s"
| "lexable (L s # N n # ts) \<longleftrightarrow> s \<noteq> [] \<and> list_all is_lit s \<and> lexable (N n # ts)"
| "lexable (L s # S t # ts) \<longleftrightarrow> s \<noteq> [] \<and> list_all is_lit s \<and> lexable (S t # ts)"
| "lexable [N n] \<longleftrightarrow> True"
| "lexable (N n # L s # ts) \<longleftrightarrow> lexable (L s # ts)"
| "lexable [S s] \<longleftrightarrow> plain s"
| "lexable (S s # L t # ts) \<longleftrightarrow> plain s \<and> lexable (L t # ts)"
| "lexable _ \<longleftrightarrow> False"

lemma digit_digit: "n < 10 \<Longrightarrow> is_digit (digit n) \<and> digit_val (digit n) = n"
  by (simp add: is_digit_def digit_def digit_val_def of_char_of)

lemma dec_digits: "list_all is_digit (dec n)" and dec_nonempty [simp]: "dec n \<noteq> []"
proof (induction n rule: dec.induct)
  case (1 n)
  case 1
  show ?case using "1.IH"(1) by (subst dec.simps) (auto simp: digit_digit)
  case 2
  show ?case by (subst dec.simps) auto
qed

lemma undec_dec [simp]: "undec (dec n) = n"
proof (induction n rule: dec.induct)
  case (1 n)
  show ?case
  proof (cases "n < 10")
    case True
    then show ?thesis by (subst dec.simps) (simp add: undec_def digit_digit)
  next
    case False
    then have "undec (dec n) = 10 * undec (dec (n div 10)) + n mod 10"
      by (subst dec.simps) (simp add: undec_def digit_digit)
    then show ?thesis using 1 False by simp
  qed
qed

lemma span_all:
  assumes "list_all P xs" "ys = [] \<or> \<not> P (hd ys)"
  shows "takeWhile P (xs @ ys) = xs" "dropWhile P (xs @ ys) = ys"
  using assms by (induction xs; cases ys; auto)+

lemma lex_number:
  assumes "rest = [] \<or> \<not> is_digit (hd rest)"
  shows "lex (dec n @ rest) = map_option ((#) (N n)) (lex rest)"
proof -
  obtain c cs where c: "dec n = c # cs" by (cases "dec n") auto
  have "is_digit c" "list_all is_digit cs" using dec_digits [of n] c by auto
  moreover have "takeWhile is_digit (c # cs @ rest) = c # cs" "dropWhile is_digit (cs @ rest) = rest"
    using span_all(1) [of is_digit "c # cs" rest] span_all(2) [of is_digit cs rest] assms calculation by auto
  ultimately have "lex (dec n @ rest) = map_option ((#) (N (undec (c # cs)))) (lex rest)"
    using c by (simp add: lex.simps)
  then show ?thesis using c undec_dec [of n] by simp
qed

lemma lex_literal:
  assumes "s \<noteq> []" "list_all is_lit s" "rest = [] \<or> \<not> is_lit (hd rest)"
  shows "lex (s @ rest) = map_option ((#) (L s)) (lex rest)"
proof -
  obtain c cs where c: "s = c # cs" using assms(1) by (cases s) auto
  have "\<not> is_digit c" "c \<noteq> Q" "is_lit c" "list_all is_lit cs" using assms(2) c by (auto simp: is_lit_def)
  moreover have "takeWhile is_lit (c # cs @ rest) = c # cs" "dropWhile is_lit (cs @ rest) = rest"
    using span_all(1) [of is_lit "c # cs" rest] span_all(2) [of is_lit cs rest] assms c by auto
  ultimately show ?thesis using c by (simp add: lex.simps)
qed

lemma lex_quoted:
  assumes "plain s"
  shows "lex (Q # s @ Q # rest) = map_option ((#) (S s)) (lex rest)"
proof -
  have s: "list_all (\<lambda>c. c \<noteq> Q) s" using assms by (auto simp: plain_def list_all_iff)
  have "takeWhile (\<lambda>c. c \<noteq> Q) (s @ Q # rest) = s" "dropWhile (\<lambda>c. c \<noteq> Q) (s @ Q # rest) = Q # rest"
    by (rule span_all [OF s], simp)+
  moreover have "\<not> is_digit Q" by (simp add: is_digit_def Q_def)
  ultimately show ?thesis by (simp add: lex.simps)
qed

text \<open>After an argument comes literal text, after literal text an argument.\<close>

lemma lex_render: "lexable ts \<Longrightarrow> lex (render ts) = Some ts"
proof (induction ts rule: lexable.induct)
  case (2 s)
  then show ?case using lex_literal [of s "[]"] by (simp add: render_def lex.simps(1))
next
  case (3 s n ts)
  have "render (N n # ts) \<noteq> []" "\<not> is_lit (hd (render (N n # ts)))"
    using dec_digits [of n] by (auto simp: render_def is_lit_def hd_append list_all_iff)
  then show ?case using 3 lex_literal [of s "render (N n # ts)"] by (simp add: render_def)
next
  case (4 s t ts)
  have "\<not> is_lit (hd (render (S t # ts)))" by (simp add: render_def is_lit_def)
  then show ?case using 4 lex_literal [of s "render (S t # ts)"] by (simp add: render_def)
next
  case (5 n)
  then show ?case using lex_number [of "[]" n] by (simp add: render_def lex.simps(1))
next
  case (6 n s ts)
  have s: "s \<noteq> []" "list_all is_lit s" using 6(2) by (cases ts rule: lexable.cases; auto)+
  then have "\<not> is_digit (hd (render (L s # ts)))" by (cases s) (auto simp: render_def is_lit_def)
  then show ?case using 6 lex_number [of "render (L s # ts)" n] by (simp add: render_def)
next
  case (7 s)
  then show ?case using lex_quoted [of s "[]"] by (simp add: render_def lex.simps(1))
next
  case (8 s t ts)
  then show ?case using lex_quoted [of s "render (L t # ts)"] by (simp add: render_def)
qed (simp_all add: render_def lex.simps)

subsection \<open>\<open>strtoull\<close> and \<open>strtol\<close>\<close>

definition is_space :: "char \<Rightarrow> bool" where
  "is_space c \<longleftrightarrow> c = CHR '' '' \<or> 9 \<le> (of_char c :: nat) \<and> (of_char c :: nat) \<le> 13"

definition strto_parts :: "string \<Rightarrow> bool \<times> nat" where
  "strto_parts s =
     (let t = dropWhile is_space s;
          neg = (t \<noteq> [] \<and> hd t = CHR ''-'');
          u = (if t \<noteq> [] \<and> (hd t = CHR ''-'' \<or> hd t = CHR ''+'') then tl t else t)
      in (neg, undec (takeWhile is_digit u)))"

definition strtoull :: "string \<Rightarrow> u64" where
  "strtoull s =
     (case strto_parts s of
        (neg, n) \<Rightarrow> if n \<ge> 2 ^ 64 then - 1 else if neg then - word_of_nat n else word_of_nat n)"

definition strtol :: "string \<Rightarrow> int" where
  "strtol s =
     (case strto_parts s of
        (neg, n) \<Rightarrow> if neg then max (- (2 ^ 63)) (- int n) else min (2 ^ 63 - 1) (int n))"

lemma strto_parts_dec: "strto_parts (dec n) = (False, n)"
proof -
  obtain c cs where c: "dec n = c # cs" by (cases "dec n") auto
  then have d: "is_digit c" using dec_digits [of n] by simp
  then have "\<not> is_space c" "c \<noteq> CHR ''-''" "c \<noteq> CHR ''+''" by (auto simp: is_space_def is_digit_def)
  moreover have "takeWhile is_digit (dec n) = dec n" using dec_digits by (simp add: takeWhile_eq_all_conv list_all_iff)
  ultimately show ?thesis using c undec_dec [of n] by (simp add: strto_parts_def Let_def)
qed

lemma strtoull_dec: "n < 2 ^ 64 \<Longrightarrow> strtoull (dec n) = word_of_nat n"
  by (simp add: strtoull_def strto_parts_dec)

lemma strtol_dec: "n < 2 ^ 63 \<Longrightarrow> strtol (dec n) = int n"
  by (simp add: strtol_def strto_parts_dec min_def)

end
