(* ===== verification/Dao.thy ===== *)
theory Dao
  imports Database_Pool Sql "HOL-Library.Monad_Syntax"
begin

text \<open>
  The data access functions of \<open>src/server/dao_auth.c\<close>, \<open>dao_basic.c\<close> and \<open>dao_transfer.c\<close>: the SQL text of
  every statement, the transactions, the rows read back and the status returned, over an arbitrary
  MySQL library \<open>M\<close>. Results are the return value, the out parameters (\<open>None\<close> while not written), the
  pool and the world. \<open>None\<close> as a whole is what \<open>Database_Pool\<close> says, or a NULL pointer passed on to
  a function that reads through it.
\<close>

subsection \<open>Status codes and rows\<close>

abbreviation (input) DAO_OK :: int where "DAO_OK \<equiv> 0"
abbreviation (input) DAO_NOT_FOUND :: int where "DAO_NOT_FOUND \<equiv> 1"
abbreviation (input) DAO_ALREADY_EXISTS :: int where "DAO_ALREADY_EXISTS \<equiv> 2"
abbreviation (input) DAO_TYPE_MISMATCH :: int where "DAO_TYPE_MISMATCH \<equiv> 3"
abbreviation (input) DAO_SHOULD_DELETE_PHYSICAL :: int where "DAO_SHOULD_DELETE_PHYSICAL \<equiv> 4"
abbreviation (input) DAO_DB_ERROR :: int where "DAO_DB_ERROR \<equiv> - 2"

abbreviation (input) DAO_PATH_IS_FILE :: int where "DAO_PATH_IS_FILE \<equiv> 0"
abbreviation (input) DAO_PATH_IS_DIR :: int where "DAO_PATH_IS_DIR \<equiv> 1"
abbreviation (input) DAO_PATH_NOT_FOUND :: int where "DAO_PATH_NOT_FOUND \<equiv> 2"
abbreviation (input) DAO_PATH_DB_ERROR :: int where "DAO_PATH_DB_ERROR \<equiv> - 1"

record login_info_t =
  li_user_id :: u64
  li_password_hash :: string
  li_root_path_id :: u64

record file_meta_t =
  fm_path_id :: u64
  fm_file_id :: u64
  fm_file_name :: string
  fm_size :: u64
  fm_sha256_hex :: string

definition CRYPT_OUTPUT_SIZE :: nat where "CRYPT_OUTPUT_SIZE = 384"

text \<open>\<open>row[i]\<close>: reading beyond the columns of the result is undefined. \<open>text_col\<close> also needs it not NULL.\<close>

definition col :: "string option list \<Rightarrow> nat \<Rightarrow> string option option" where
  "col row i = (if i < length row then Some (row ! i) else None)"

definition text_col :: "string option list \<Rightarrow> nat \<Rightarrow> string option" where
  "text_col row i = do { c \<leftarrow> col row i; c }"

text \<open>The conversion of a \<open>long\<close> to \<open>int\<close>.\<close>

definition to_int :: "int \<Rightarrow> int" where
  "to_int x = (x + 2 ^ 31) mod 2 ^ 32 - 2 ^ 31"

definition sql_text :: "nat \<Rightarrow> sql list \<Rightarrow> string" where
  "sql_text n ts = fst (snprintf n (render ts))"

text \<open>\<open>mysql_query (conn, "ROLLBACK"); database_pool_release (db_pool, conn); return ret;\<close>\<close>

definition txn_fail :: "'w mysql \<Rightarrow> conn \<Rightarrow> 'a \<Rightarrow> database_pool_t option \<Rightarrow> 'w \<Rightarrow> ('a \<times> database_pool_t option \<times> 'w) option" where
  "txn_fail M c ret pool w = do {
     let (r, w1) = mysql_query M c ''ROLLBACK'' w;
     pool1 \<leftarrow> database_pool_release pool (Some c);
     Some (ret, pool1, w1) }"

text \<open>The end of a transaction: \<open>COMMIT\<close>, with a rollback when it fails.\<close>

definition txn_commit :: "'w mysql \<Rightarrow> conn \<Rightarrow> 'a \<Rightarrow> 'a \<Rightarrow> database_pool_t option \<Rightarrow> 'w \<Rightarrow> ('a \<times> database_pool_t option \<times> 'w) option" where
  "txn_commit M c ok err pool w = do {
     let (r, w1) = mysql_query M c ''COMMIT'' w;
     if r \<noteq> 0 then txn_fail M c err pool w1
     else do { pool1 \<leftarrow> database_pool_release pool (Some c); Some (ok, pool1, w1) } }"

subsection \<open>\<open>dao_auth.c\<close>\<close>

definition dao_auth_register ::
  "'w mysql \<Rightarrow> string \<Rightarrow> string \<Rightarrow> database_pool_t option \<Rightarrow> 'w \<Rightarrow> (int \<times> database_pool_t option \<times> 'w) option" where
  "dao_auth_register M username password_hash pool w = do {
     (conn, pool1) \<leftarrow> database_pool_acquire pool;
     case conn of
       None \<Rightarrow> Some (- 1, pool1, w)
     | Some c \<Rightarrow> do {
         let (r, w1) = mysql_query M c ''START TRANSACTION'' w;
         if r \<noteq> 0 then do { pool2 \<leftarrow> database_pool_release pool1 conn; Some (- 1, pool2, w1) }
         else do {
           let (r, w2) = mysql_query M c (sql_text 1024
                 [L ''INSERT INTO users(username, password_hash) VALUES('', S username, L '', '', S password_hash, L '')'']) w1;
           if r \<noteq> 0 then txn_fail M c (- 1) pool1 w2
           else do {
             let user_id = mysql_insert_id M c w2;
             let (r, w3) = mysql_query M c (sql_text 1024
                   [L ''INSERT INTO paths(user_id, path, file_id, parent_id, file_name, type) VALUES('', N (unat user_id),
                    L '', '', S ''/'', L '', NULL, NULL, '', S ''/'', L '', '', N 1, L '')'']) w2;
             if r \<noteq> 0 then txn_fail M c (- 1) pool1 w3
             else txn_commit M c 0 (- 1) pool1 w3 } } } }"

definition dao_auth_get_login_info ::
  "'w mysql \<Rightarrow> string option \<Rightarrow> database_pool_t option \<Rightarrow> 'w \<Rightarrow> (int \<times> login_info_t \<times> database_pool_t option \<times> 'w) option" where
  "dao_auth_get_login_info M username pool w = (
     let out = \<lparr>li_user_id = 0, li_password_hash = [], li_root_path_id = 0\<rparr> in
     case username of
       None \<Rightarrow> Some (- 1, out, pool, w)
     | Some name \<Rightarrow> do {
         (ret, res, pool1, w1) \<leftarrow> database_pool_query M (sql_text 1024
            [L ''SELECT u.id, u.password_hash, p.id FROM users u JOIN paths p ON p.user_id = u.id WHERE u.username = '',
             S name, L '' AND p.path = '', S ''/'', L '' LIMIT '', N 1]) pool w;
         if ret \<noteq> 0 then Some (- 1, out, pool1, w1)
         else do {
           rows \<leftarrow> res;
           (case rows of
              [] \<Rightarrow> Some (1, out, pool1, w1)
            | row # _ \<Rightarrow> do {
                c0 \<leftarrow> col row 0; c1 \<leftarrow> col row 1; c2 \<leftarrow> col row 2;
                (case (c0, c1, c2) of
                   (Some user, Some hash, Some root) \<Rightarrow>
                     (let out1 = out\<lparr>li_user_id := strtoull user, li_root_path_id := strtoull root\<rparr>
                      in if length hash \<ge> CRYPT_OUTPUT_SIZE then Some (- 1, out1, pool1, w1)
                         else Some (0, out1\<lparr>li_password_hash := strncpy CRYPT_OUTPUT_SIZE hash\<rparr>, pool1, w1))
                 | _ \<Rightarrow> Some (- 1, out, pool1, w1)) }) } })"

subsection \<open>\<open>dao_basic.c\<close>\<close>

definition dao_path_get_node_id ::
  "'w mysql \<Rightarrow> u64 \<Rightarrow> string \<Rightarrow> database_pool_t option \<Rightarrow> 'w \<Rightarrow> (int \<times> u64 option \<times> database_pool_t option \<times> 'w) option" where
  "dao_path_get_node_id M user_id virtual_path pool w = do {
     (ret, res, pool1, w1) \<leftarrow> database_pool_query M (sql_text 1024
        [L ''SELECT id, type FROM paths WHERE user_id = '', N (unat user_id), L '' AND path = '', S virtual_path]) pool w;
     if ret \<noteq> 0 then Some (DAO_PATH_DB_ERROR, None, pool1, w1)
     else do {
       rows \<leftarrow> res;
       (case rows of
          [] \<Rightarrow> Some (DAO_PATH_NOT_FOUND, None, pool1, w1)
        | row # _ \<Rightarrow> do {
            c0 \<leftarrow> col row 0; c1 \<leftarrow> col row 1;
            (case (c0, c1) of
               (Some node, Some type) \<Rightarrow>
                 (let path_id = strtoull node; file_type = to_int (strtol type)
                  in if file_type = 0 then Some (DAO_PATH_IS_FILE, Some path_id, pool1, w1)
                     else if file_type = 1 then Some (DAO_PATH_IS_DIR, Some path_id, pool1, w1)
                     else Some (DAO_PATH_DB_ERROR, Some path_id, pool1, w1))
             | _ \<Rightarrow> Some (DAO_PATH_DB_ERROR, None, pool1, w1)) }) } }"

definition dao_path_insert_dir ::
  "'w mysql \<Rightarrow> u64 \<Rightarrow> string \<Rightarrow> u64 \<Rightarrow> string \<Rightarrow> database_pool_t option \<Rightarrow> 'w \<Rightarrow> (int \<times> database_pool_t option \<times> 'w) option" where
  "dao_path_insert_dir M user_id target_path parent_id file_name pool w =
     database_pool_execute M (sql_text 1024
       [L ''INSERT INTO paths(user_id, path, file_id, parent_id, file_name, type) VALUES('', N (unat user_id), L '', '',
        S target_path, L '', NULL, '', N (unat parent_id), L '', '', S file_name, L '', '', N 1, L '')'']) pool w"

definition dao_path_dir_has_child ::
  "'w mysql \<Rightarrow> u64 \<Rightarrow> u64 \<Rightarrow> database_pool_t option \<Rightarrow> 'w \<Rightarrow> (int \<times> database_pool_t option \<times> 'w) option" where
  "dao_path_dir_has_child M user_id parent_id pool w = do {
     (ret, res, pool1, w1) \<leftarrow> database_pool_query M (sql_text 1024
        [L ''SELECT * FROM paths WHERE user_id = '', N (unat user_id), L '' AND parent_id = '', N (unat parent_id)]) pool w;
     if ret \<noteq> 0 then Some (- 1, pool1, w1)
     else do { rows \<leftarrow> res; Some (to_int (int (length rows)), pool1, w1) } }"

definition dao_path_rmdir ::
  "'w mysql \<Rightarrow> u64 \<Rightarrow> database_pool_t option \<Rightarrow> 'w \<Rightarrow> (int \<times> database_pool_t option \<times> 'w) option" where
  "dao_path_rmdir M target_dir_id pool w =
     database_pool_execute M (sql_text 1024 [L ''DELETE FROM paths WHERE id = '', N (unat target_dir_id)]) pool w"

text \<open>
  The listing loop: \<open>buf\<close> is the string in \<open>ls_resp\<close> so far, whose length is \<open>used\<close> as long as nothing was
  cut off.
\<close>

primrec ls_loop :: "nat \<Rightarrow> rows \<Rightarrow> nat \<Rightarrow> string \<Rightarrow> string option" where
  "ls_loop sz [] used buf = Some buf"
| "ls_loop sz (row # rows) used buf = do {
     type \<leftarrow> text_col row 1;
     name \<leftarrow> (if strtol type = 1 \<or> strtol type = 0 then text_col row 0 else Some []);
     let entry = (if strtol type = 1 then name @ ''/  '' else if strtol type = 0 then name @ ''  '' else []);
     let used1 = used + length entry;
     let buf1 = buf @ take (sz - used - 1) entry;
     if used1 \<ge> sz then Some (take (sz - 1) buf1) else ls_loop sz rows used1 buf1 }"

definition dao_path_get_ls_dir ::
  "'w mysql \<Rightarrow> u64 \<Rightarrow> u64 \<Rightarrow> nat \<Rightarrow> database_pool_t option \<Rightarrow> 'w \<Rightarrow> (int \<times> string option \<times> database_pool_t option \<times> 'w) option" where
  "dao_path_get_ls_dir M user_id parent_id sz pool w = do {
     (ret, res, pool1, w1) \<leftarrow> database_pool_query M (sql_text 1024
        [L ''SELECT file_name, type FROM paths WHERE user_id = '', N (unat user_id), L '' AND parent_id = '', N (unat parent_id)]) pool w;
     if ret \<noteq> 0 then Some (- 1, None, pool1, w1)
     else do {
       rows \<leftarrow> res;
       ls_resp \<leftarrow> ls_loop sz rows 0 [];
       Some (to_int (int (length rows)), Some ls_resp, pool1, w1) } }"

text \<open>\<open>dao_rm_file\<close> from the second SELECT on; \<open>hash_out\<close> is the second result.\<close>

definition rm_file_release ::
  "'w mysql \<Rightarrow> conn \<Rightarrow> u64 \<Rightarrow> nat \<Rightarrow> database_pool_t option \<Rightarrow> 'w \<Rightarrow> ((int \<times> string) \<times> database_pool_t option \<times> 'w) option" where
  "rm_file_release M c file_id hash_out_size pool w = do {
     let (r, w1) = mysql_query M c (sql_text 1024
           [L ''SELECT refs, LOWER(HEX(hash)) FROM files WHERE id = '', N (unat file_id)]) w;
     if r \<noteq> 0 then txn_fail M c (DAO_DB_ERROR, []) pool w1
     else do {
       let (res, w2) = mysql_store_result M c w1;
       (case res of
          None \<Rightarrow> txn_fail M c (DAO_DB_ERROR, []) pool w2
        | Some [] \<Rightarrow> txn_fail M c (DAO_DB_ERROR, []) pool w2
        | Some (row # _) \<Rightarrow> do {
            c0 \<leftarrow> col row 0; c1 \<leftarrow> col row 1;
            (case (c0, c1) of
               (Some refs, Some hash) \<Rightarrow>
                 if to_int (strtol refs) = 0 then do {
                   let hash_out = strncpy hash_out_size hash;
                   let (r, w3) = mysql_query M c (sql_text 1024
                         [L ''DELETE FROM files WHERE id = '', N (unat file_id), L '' AND refs = '', N 0]) w2;
                   if r \<noteq> 0 then txn_fail M c (DAO_DB_ERROR, hash_out) pool w3
                   else txn_commit M c (DAO_SHOULD_DELETE_PHYSICAL, hash_out) (DAO_DB_ERROR, hash_out) pool w3 }
                 else txn_commit M c (DAO_OK, []) (DAO_DB_ERROR, []) pool w2
             | _ \<Rightarrow> txn_fail M c (DAO_DB_ERROR, []) pool w2) }) } }"

definition dao_rm_file ::
  "'w mysql \<Rightarrow> u64 \<Rightarrow> u64 \<Rightarrow> nat \<Rightarrow> database_pool_t option \<Rightarrow> 'w \<Rightarrow> ((int \<times> string) \<times> database_pool_t option \<times> 'w) option" where
  "dao_rm_file M user_id path_id hash_out_size pool w = do {
     (conn, pool1) \<leftarrow> database_pool_acquire pool;
     case conn of
       None \<Rightarrow> Some ((DAO_DB_ERROR, []), pool1, w)
     | Some c \<Rightarrow> do {
         let (r, w1) = mysql_query M c ''START TRANSACTION'' w;
         if r \<noteq> 0 then do { pool2 \<leftarrow> database_pool_release pool1 conn; Some ((DAO_DB_ERROR, []), pool2, w1) }
         else do {
           let (r, w2) = mysql_query M c (sql_text 1024
                 [L ''SELECT file_id FROM paths WHERE id = '', N (unat path_id), L '' AND user_id = '', N (unat user_id), L '' AND type = '', N 0]) w1;
           if r \<noteq> 0 then txn_fail M c (DAO_DB_ERROR, []) pool1 w2
           else do {
             let (res, w3) = mysql_store_result M c w2;
             (case res of
                None \<Rightarrow> txn_fail M c (DAO_DB_ERROR, []) pool1 w3
              | Some [] \<Rightarrow> txn_fail M c (DAO_NOT_FOUND, []) pool1 w3
              | Some (row # _) \<Rightarrow> do {
                  c0 \<leftarrow> col row 0;
                  (case c0 of
                     None \<Rightarrow> txn_fail M c (DAO_NOT_FOUND, []) pool1 w3
                   | Some fid \<Rightarrow> do {
                       let file_id = strtoull fid;
                       let (r, w4) = mysql_query M c (sql_text 1024
                             [L ''DELETE FROM paths WHERE id = '', N (unat path_id), L '' AND user_id = '', N (unat user_id), L '' AND type = '', N 0]) w3;
                       if r \<noteq> 0 then txn_fail M c (DAO_DB_ERROR, []) pool1 w4
                       else do {
                         let (r, w5) = mysql_query M c (sql_text 1024
                               [L ''UPDATE files SET refs = refs - '', N 1, L '' WHERE id = '', N (unat file_id), L '' AND refs > '', N 0]) w4;
                         if r \<noteq> 0 then txn_fail M c (DAO_DB_ERROR, []) pool1 w5
                         else rm_file_release M c file_id hash_out_size pool1 w5 } }) }) } } } }"

definition dao_file_find_by_hash ::
  "'w mysql \<Rightarrow> string \<Rightarrow> u64 \<Rightarrow> database_pool_t option \<Rightarrow> 'w \<Rightarrow> (int \<times> u64 option \<times> database_pool_t option \<times> 'w) option" where
  "dao_file_find_by_hash M sha256_hex file_size pool w = do {
     (ret, res, pool1, w1) \<leftarrow> database_pool_query M (sql_text 1024
        [L ''SELECT id FROM files WHERE hash = UNHEX('', S sha256_hex, L '') AND size = '', N (unat file_size), L '' LIMIT '', N 1]) pool w;
     if ret \<noteq> 0 then Some (- 1, None, pool1, w1)
     else do {
       rows \<leftarrow> res;
       (case rows of
          [] \<Rightarrow> Some (0, None, pool1, w1)
        | row # _ \<Rightarrow> do {
            c0 \<leftarrow> col row 0;
            (case c0 of
               None \<Rightarrow> Some (- 1, None, pool1, w1)
             | Some fid \<Rightarrow> Some (1, Some (strtoull fid), pool1, w1)) }) } }"

subsection \<open>\<open>dao_transfer.c\<close>\<close>

text \<open>The INSERT of a file's path, common to the next two functions.\<close>

definition insert_file_path ::
  "'w mysql \<Rightarrow> conn \<Rightarrow> u64 \<Rightarrow> string \<Rightarrow> u64 \<Rightarrow> u64 \<Rightarrow> string \<Rightarrow> 'w \<Rightarrow> int \<times> 'w" where
  "insert_file_path M c user_id escaped_path file_id parent_id escaped_name w =
     mysql_query M c (sql_text 10240
       [L ''INSERT INTO paths(user_id, path, file_id, parent_id, file_name, type) VALUES('', N (unat user_id), L '', '',
        S escaped_path, L '', '', N (unat file_id), L '', '', N (unat parent_id), L '', '', S escaped_name, L '', '', N 0, L '')'']) w"

definition dao_link_existing_file ::
  "'w mysql \<Rightarrow> u64 \<Rightarrow> string \<Rightarrow> u64 \<Rightarrow> string \<Rightarrow> u64 \<Rightarrow> database_pool_t option \<Rightarrow> 'w \<Rightarrow> (int \<times> database_pool_t option \<times> 'w) option" where
  "dao_link_existing_file M user_id target_path parent_id file_name file_id pool w = do {
     (conn, pool1) \<leftarrow> database_pool_acquire pool;
     case conn of
       None \<Rightarrow> Some (- 1, pool1, w)
     | Some c \<Rightarrow> do {
         let escaped_path = mysql_real_escape_string M c target_path;
         let escaped_name = mysql_real_escape_string M c file_name;
         let (r, w1) = mysql_query M c ''START TRANSACTION'' w;
         if r \<noteq> 0 then do { pool2 \<leftarrow> database_pool_release pool1 conn; Some (- 1, pool2, w1) }
         else do {
           let (r, w2) = mysql_query M c (sql_text 10240
                 [L ''UPDATE files SET refs = refs + '', N 1, L '' WHERE id = '', N (unat file_id)]) w1;
           if r \<noteq> 0 then txn_fail M c (- 1) pool1 w2
           else do {
             let (r, w3) = insert_file_path M c user_id escaped_path file_id parent_id escaped_name w2;
             if r \<noteq> 0 then txn_fail M c (- 1) pool1 w3
             else txn_commit M c 0 (- 1) pool1 w3 } } } }"

definition dao_create_file_with_path ::
  "'w mysql \<Rightarrow> u64 \<Rightarrow> string \<Rightarrow> u64 \<Rightarrow> string \<Rightarrow> string \<Rightarrow> u64 \<Rightarrow> database_pool_t option \<Rightarrow> 'w \<Rightarrow> (int \<times> database_pool_t option \<times> 'w) option" where
  "dao_create_file_with_path M user_id target_path parent_id file_name sha256_hex file_size pool w = do {
     (conn, pool1) \<leftarrow> database_pool_acquire pool;
     case conn of
       None \<Rightarrow> Some (- 1, pool1, w)
     | Some c \<Rightarrow> do {
         let escaped_path = mysql_real_escape_string M c target_path;
         let escaped_name = mysql_real_escape_string M c file_name;
         let (r, w1) = mysql_query M c ''START TRANSACTION'' w;
         if r \<noteq> 0 then do { pool2 \<leftarrow> database_pool_release pool1 conn; Some (- 1, pool2, w1) }
         else do {
           let (r, w2) = mysql_query M c (sql_text 10240
                 [L ''INSERT INTO files(hash, size, refs) VALUES(UNHEX('', S sha256_hex, L ''), '', N (unat file_size), L '', '', N 1,
                  L '') ON DUPLICATE KEY UPDATE refs = refs + '', N 1, L '', id = LAST_INSERT_ID(id)'']) w1;
           if r \<noteq> 0 then txn_fail M c (- 1) pool1 w2
           else do {
             let file_id = mysql_insert_id M c w2;
             if file_id = 0 then txn_fail M c (- 1) pool1 w2
             else do {
               let (r, w3) = insert_file_path M c user_id escaped_path file_id parent_id escaped_name w2;
               if r \<noteq> 0 then txn_fail M c (- 1) pool1 w3
               else txn_commit M c 0 (- 1) pool1 w3 } } } } }"

text \<open>
  \<open>dao_get_file_meta\<close> reads every column without checking for NULL. It copies at most 64 characters of the
  hash and does not terminate them: the string in \<open>sha256_hex\<close> goes on with whatever \<open>stale\<close> string the
  caller's memory holds from there.
\<close>

definition dao_get_file_meta ::
  "'w mysql \<Rightarrow> u64 \<Rightarrow> string \<Rightarrow> string \<Rightarrow> database_pool_t option \<Rightarrow> 'w \<Rightarrow> (int \<times> file_meta_t option \<times> database_pool_t option \<times> 'w) option" where
  "dao_get_file_meta M user_id target_path stale pool w = do {
     (ret, res, pool1, w1) \<leftarrow> database_pool_query M (sql_text 1024
        [L ''SELECT p.id, p.file_id, p.file_name, p.type, f.size,LOWER(HEX(f.hash)) AS hash_hex FROM paths p LEFT JOIN files f ON p.file_id = f.id WHERE p.user_id = '',
         N (unat user_id), L '' AND p.path = '', S target_path, L '' LIMIT '', N 1]) pool w;
     if ret \<noteq> 0 then Some (DAO_DB_ERROR, None, pool1, w1)
     else do {
       rows \<leftarrow> res;
       (case rows of
          [] \<Rightarrow> Some (DAO_NOT_FOUND, None, pool1, w1)
        | row # _ \<Rightarrow> do {
            path_id \<leftarrow> text_col row 0; file_id \<leftarrow> text_col row 1; name \<leftarrow> text_col row 2;
            type \<leftarrow> text_col row 3; fsize \<leftarrow> text_col row 4; hash \<leftarrow> text_col row 5;
            let meta = \<lparr>fm_path_id = strtoull path_id, fm_file_id = strtoull file_id,
                        fm_file_name = strncpy NAME_MAX name, fm_size = strtoull fsize,
                        fm_sha256_hex = (if length hash < 64 then hash else take 64 hash @ stale)\<rparr>;
            if to_int (strtol type) = 1 then Some (DAO_TYPE_MISMATCH, Some meta, pool1, w1)
            else Some (DAO_OK, Some meta, pool1, w1) }) } }"

end
