(* ===== verification/Protocol.thy ===== *)
theory Protocol
  imports Prelude
begin

text \<open>
  The TLV2 wire protocol (src/src/common/protocol.c, src/include/common/protocol.h): commands,
  status codes, the 36-byte header, the exact send and receive loops over a TCP socket, packets
  and session identifiers.

  A socket is the bytes its peer has sent and will send before it closes (\<open>rx\<close>), the bytes
  handed to the kernel for the peer (\<open>tx\<close>) and the kernel's answers to the coming calls. The
  \<open>type\<close> and \<open>status\<close> fields keep 32 bits because \<open>protocol_recv_packet\<close> casts whatever the peer
  sent to the enumeration types; the enumerators are constants of that width.
\<close>

subsection \<open>Constants of protocol.h\<close>

definition TLV_MAGIC :: u32 where "TLV_MAGIC = 0x544C5632"
definition TLV_VERSION :: u32 where "TLV_VERSION = 2"
definition SESSION_ID_SIZE :: nat where "SESSION_ID_SIZE = 16"
definition TLV_WIRE_HEADER_SIZE :: nat where "TLV_WIRE_HEADER_SIZE = 20 + SESSION_ID_SIZE"
definition MAX_PACKET_PAYLOAD :: u32 where "MAX_PACKET_PAYLOAD = 64 * 1024"
definition MAX_COMMAND_INPUT :: nat where "MAX_COMMAND_INPUT = 512"
definition FILE_CHUNK_SIZE :: u32 where "FILE_CHUNK_SIZE = 4096"

text \<open>\<open>cmd_type_t\<close>.\<close>

abbreviation (input) CMD_INVALID :: u32 where "CMD_INVALID \<equiv> 0"
abbreviation (input) CMD_LOGIN_REQ :: u32 where "CMD_LOGIN_REQ \<equiv> 1"
abbreviation (input) CMD_REGISTER_REQ :: u32 where "CMD_REGISTER_REQ \<equiv> 2"
abbreviation (input) CMD_PWD :: u32 where "CMD_PWD \<equiv> 3"
abbreviation (input) CMD_CD :: u32 where "CMD_CD \<equiv> 4"
abbreviation (input) CMD_LS :: u32 where "CMD_LS \<equiv> 5"
abbreviation (input) CMD_LL :: u32 where "CMD_LL \<equiv> 6"
abbreviation (input) CMD_TREE :: u32 where "CMD_TREE \<equiv> 7"
abbreviation (input) CMD_MKDIR :: u32 where "CMD_MKDIR \<equiv> 8"
abbreviation (input) CMD_RMDIR :: u32 where "CMD_RMDIR \<equiv> 9"
abbreviation (input) CMD_RM :: u32 where "CMD_RM \<equiv> 10"
abbreviation (input) CMD_CAT :: u32 where "CMD_CAT \<equiv> 11"
abbreviation (input) CMD_PUTS_REQ :: u32 where "CMD_PUTS_REQ \<equiv> 12"
abbreviation (input) CMD_PUTS_RESP :: u32 where "CMD_PUTS_RESP \<equiv> 13"
abbreviation (input) CMD_GETS_REQ :: u32 where "CMD_GETS_REQ \<equiv> 14"
abbreviation (input) CMD_GETS_RESP :: u32 where "CMD_GETS_RESP \<equiv> 15"
abbreviation (input) CMD_RESUME_POS :: u32 where "CMD_RESUME_POS \<equiv> 16"
abbreviation (input) CMD_FILE_DATA :: u32 where "CMD_FILE_DATA \<equiv> 17"
abbreviation (input) CMD_FILE_END :: u32 where "CMD_FILE_END \<equiv> 18"
abbreviation (input) CMD_ACK :: u32 where "CMD_ACK \<equiv> 19"
abbreviation (input) CMD_ERROR :: u32 where "CMD_ERROR \<equiv> 20"

text \<open>\<open>status_code_t\<close>: there is no code 1, and counting resumes after \<open>STATUS_PROTOCOL_ERROR = 5\<close>.\<close>

abbreviation (input) STATUS_OK :: u32 where "STATUS_OK \<equiv> 0"
abbreviation (input) STATUS_BAD_REQUEST :: u32 where "STATUS_BAD_REQUEST \<equiv> 2"
abbreviation (input) STATUS_NOT_FOUND :: u32 where "STATUS_NOT_FOUND \<equiv> 3"
abbreviation (input) STATUS_IO_ERROR :: u32 where "STATUS_IO_ERROR \<equiv> 4"
abbreviation (input) STATUS_PROTOCOL_ERROR :: u32 where "STATUS_PROTOCOL_ERROR \<equiv> 5"
abbreviation (input) STATUS_USER_NOTEXIST :: u32 where "STATUS_USER_NOTEXIST \<equiv> 6"
abbreviation (input) STATUS_PASSWD_ERROR :: u32 where "STATUS_PASSWD_ERROR \<equiv> 7"
abbreviation (input) STATUS_OTHER_ERROR :: u32 where "STATUS_OTHER_ERROR \<equiv> 8"
abbreviation (input) STATUS_NOT_DIR :: u32 where "STATUS_NOT_DIR \<equiv> 9"
abbreviation (input) STATUS_IS_DIR :: u32 where "STATUS_IS_DIR \<equiv> 10"
abbreviation (input) STATUS_DIR_NOTEXIST :: u32 where "STATUS_DIR_NOTEXIST \<equiv> 11"
abbreviation (input) STATUS_DIR_ALREADY_EXISTS :: u32 where "STATUS_DIR_ALREADY_EXISTS \<equiv> 12"
abbreviation (input) STATUS_DIR_NOTEMPTY :: u32 where "STATUS_DIR_NOTEMPTY \<equiv> 13"
abbreviation (input) STATUS_FILE_NOTEXIST :: u32 where "STATUS_FILE_NOTEXIST \<equiv> 14"
abbreviation (input) STATUS_DB_ERROR :: u32 where "STATUS_DB_ERROR \<equiv> 15"
abbreviation (input) STATUS_UNAUTHORIZED :: u32 where "STATUS_UNAUTHORIZED \<equiv> 16"

text \<open>The designated initialisers of \<open>names\<close>, in the order of the source; the other slots are NULL.\<close>

definition cmd_names :: "(u32 \<times> string) list" where
  "cmd_names = [
     (CMD_LOGIN_REQ, ''login''), (CMD_PWD, ''pwd''), (CMD_CD, ''cd''),
     (CMD_LS, ''ls''), (CMD_LL, ''ll''), (CMD_TREE, ''tree''),
     (CMD_RM, ''rm''), (CMD_CAT, ''cat''), (CMD_MKDIR, ''mkdir''),
     (CMD_RMDIR, ''rmdir''), (CMD_PUTS_REQ, ''puts''),
     (CMD_GETS_REQ, ''gets''), (CMD_PUTS_RESP, ''puts_resp''),
     (CMD_GETS_RESP, ''gets_resp''), (CMD_RESUME_POS, ''resume_pos''),
     (CMD_FILE_DATA, ''file_data''), (CMD_FILE_END, ''file_end''),
     (CMD_ACK, ''ack''), (CMD_ERROR, ''error'')]"

definition cmd_type_to_str :: "u32 \<Rightarrow> string" where
  "cmd_type_to_str type =
     (if type > CMD_INVALID \<and> type \<le> CMD_ERROR \<and> map_of cmd_names type \<noteq> None
      then the (map_of cmd_names type) else ''invalid'')"

subsection \<open>Byte order of 64-bit fields\<close>

definition host_to_net_u64 :: "endian \<Rightarrow> u64 \<Rightarrow> u64" where
  "host_to_net_u64 e value =
     (let high = htonl e (ucast (drop_bit 32 value));
          low = htonl e (ucast (value AND 0xffffffff))
      in push_bit 32 (ucast low) OR ucast high)"

definition net_to_host_u64 :: "endian \<Rightarrow> u64 \<Rightarrow> u64" where
  "net_to_host_u64 e value =
     (let high = ntohl e (ucast (drop_bit 32 value));
          low = ntohl e (ucast (value AND 0xffffffff))
      in push_bit 32 (ucast low) OR ucast high)"

subsection \<open>Sockets and the exact transfer loops\<close>

record sock =
  rx :: "byte list"
  tx :: "byte list"
  rx_io :: "io list"
  tx_io :: "io list"

text \<open>
  The loop of \<open>send_n\<close>: \<open>tot\<close> bytes of \<open>buf\<close> are sent, \<open>out\<close> is what the kernel has taken.
  The result is the return value, the answers left and the bytes taken.
\<close>

primrec send_n_loop :: "io list \<Rightarrow> byte list \<Rightarrow> nat \<Rightarrow> byte list \<Rightarrow> int \<times> io list \<times> byte list" where
  "send_n_loop [] buf tot out = (0, [], out @ drop tot buf)"
| "send_n_loop (s # ss) buf tot out =
     (if tot < length buf
      then (case s of
              Fail \<Rightarrow> (- 1, ss, out)
            | Eintr \<Rightarrow> send_n_loop ss buf tot out
            | Chunk n \<Rightarrow>
                (let sent = min (Suc n) (length buf - tot)
                 in send_n_loop ss buf (tot + sent) (out @ take sent (drop tot buf))))
      else (0, s # ss, out))"

definition send_n :: "byte list \<Rightarrow> sock \<Rightarrow> int \<times> sock" where
  "send_n buf s =
     (let (ret, ios, out) = send_n_loop (tx_io s) buf 0 (tx s)
      in (ret, s\<lparr>tx := out, tx_io := ios\<rparr>))"

text \<open>
  The loop of \<open>recv_n\<close>: \<open>got\<close> is the filled part of the buffer of \<open>len\<close> bytes. A call that
  returns 0 (the peer has closed and nothing is left) ends it with \<open>- 1\<close>.
\<close>

primrec recv_n_loop ::
  "io list \<Rightarrow> byte list \<Rightarrow> nat \<Rightarrow> byte list \<Rightarrow> int \<times> io list \<times> byte list \<times> byte list" where
  "recv_n_loop [] inp len got =
     (let k = len - length got
      in (if k \<le> length inp then 0 else - 1, [], drop k inp, got @ take k inp))"
| "recv_n_loop (s # ss) inp len got =
     (if length got < len
      then (case s of
              Fail \<Rightarrow> (- 1, ss, inp, got)
            | Eintr \<Rightarrow> recv_n_loop ss inp len got
            | Chunk n \<Rightarrow>
                (let recved = min (Suc n) (min (len - length got) (length inp))
                 in if recved = 0 then (- 1, ss, inp, got)
                    else recv_n_loop ss (drop recved inp) len (got @ take recved inp)))
      else (0, s # ss, inp, got))"

definition recv_n :: "nat \<Rightarrow> sock \<Rightarrow> int \<times> byte list \<times> sock" where
  "recv_n len s =
     (let (ret, ios, inp, got) = recv_n_loop (rx_io s) (rx s) len []
      in (ret, got, s\<lparr>rx := inp, rx_io := ios\<rparr>))"

subsection \<open>Packets\<close>

type_synonym session_id_t = "byte list"

record packet_header_t =
  ptype :: u32
  status :: u32
  payload_len :: u32
  session_id :: session_id_t

record packet_t =
  header :: packet_header_t
  payload :: "byte list option"
  owns_payload :: bool

definition empty_session_id :: session_id_t where
  "empty_session_id = replicate SESSION_ID_SIZE 0"

definition zero_packet :: packet_t where
  "zero_packet =
     \<lparr>header = \<lparr>ptype = 0, status = 0, payload_len = 0, session_id = empty_session_id\<rparr>,
      payload = None, owns_payload = False\<rparr>"

abbreviation (input) WIRE_MAGIC_OFFSET :: nat where "WIRE_MAGIC_OFFSET \<equiv> 0"
abbreviation (input) WIRE_VERSION_OFFSET :: nat where "WIRE_VERSION_OFFSET \<equiv> 4"
abbreviation (input) WIRE_TYPE_OFFSET :: nat where "WIRE_TYPE_OFFSET \<equiv> 8"
abbreviation (input) WIRE_STATUS_OFFSET :: nat where "WIRE_STATUS_OFFSET \<equiv> 12"
abbreviation (input) WIRE_PAYLOAD_LEN_OFFSET :: nat where "WIRE_PAYLOAD_LEN_OFFSET \<equiv> 16"
abbreviation (input) WIRE_SESSION_ID_OFFSET :: nat where "WIRE_SESSION_ID_OFFSET \<equiv> 20"

definition write_net_u32 :: "endian \<Rightarrow> nat \<Rightarrow> u32 \<Rightarrow> byte list \<Rightarrow> byte list" where
  "write_net_u32 e off value dst = write_at off (mem32 e (htonl e value)) dst"

definition read_net_u32 :: "endian \<Rightarrow> nat \<Rightarrow> byte list \<Rightarrow> u32" where
  "read_net_u32 e off src = ntohl e (load32 e (read_at off 4 src))"

definition encode_wire_header :: "endian \<Rightarrow> packet_header_t \<Rightarrow> byte list" where
  "encode_wire_header e h =
     (let w = replicate TLV_WIRE_HEADER_SIZE 0;
          w = write_net_u32 e WIRE_MAGIC_OFFSET TLV_MAGIC w;
          w = write_net_u32 e WIRE_VERSION_OFFSET TLV_VERSION w;
          w = write_net_u32 e WIRE_TYPE_OFFSET (ptype h) w;
          w = write_net_u32 e WIRE_STATUS_OFFSET (status h) w;
          w = write_net_u32 e WIRE_PAYLOAD_LEN_OFFSET (payload_len h) w
      in write_at WIRE_SESSION_ID_OFFSET (take SESSION_ID_SIZE (session_id h)) w)"

text \<open>
  \<open>packet_init\<close>: the first argument is the packet object, \<open>None\<close> for a NULL pointer; the result
  is the return value and the object afterwards. A NULL session pointer leaves the ID all zero.
\<close>

definition packet_init ::
  "packet_t option \<Rightarrow> u32 \<Rightarrow> u32 \<Rightarrow> session_id_t option \<Rightarrow> byte list option \<Rightarrow> u32
    \<Rightarrow> int \<times> packet_t option" where
  "packet_init packet type st sid pl plen =
     (if packet = None \<or> plen > MAX_PACKET_PAYLOAD \<or> (plen > 0 \<and> pl = None) then (- 1, packet)
      else (0, Some
        \<lparr>header = \<lparr>ptype = type, status = st, payload_len = plen,
                   session_id = (case sid of None \<Rightarrow> empty_session_id | Some i \<Rightarrow> i)\<rparr>,
         payload = pl, owns_payload = False\<rparr>))"

definition protocol_send_header :: "endian \<Rightarrow> packet_header_t option \<Rightarrow> sock \<Rightarrow> int \<times> sock" where
  "protocol_send_header e hdr s =
     (case hdr of
        None \<Rightarrow> (- 1, s)
      | Some h \<Rightarrow>
          if payload_len h > MAX_PACKET_PAYLOAD then (- 1, s)
          else send_n (encode_wire_header e h) s)"

definition protocol_send_packet :: "endian \<Rightarrow> packet_t option \<Rightarrow> sock \<Rightarrow> int \<times> sock" where
  "protocol_send_packet e pkt s =
     (case pkt of
        None \<Rightarrow> (- 1, s)
      | Some p \<Rightarrow>
          if payload_len (header p) > MAX_PACKET_PAYLOAD
             \<or> (payload_len (header p) > 0 \<and> payload p = None) then (- 1, s)
          else
            (let (ret, s1) = protocol_send_header e (Some (header p)) s
             in if ret \<noteq> 0 then (- 1, s1)
                else if payload_len (header p) > 0 then
                  (let (ret2, s2) =
                         send_n (take (unat (payload_len (header p))) (the (payload p))) s1
                   in if ret2 \<noteq> 0 then (- 1, s2) else (0, s2))
                else (0, s1)))"

definition packet_release :: "packet_t option \<Rightarrow> packet_t option" where
  "packet_release pkt = (case pkt of None \<Rightarrow> None | Some p \<Rightarrow> Some zero_packet)"

text \<open>
  \<open>protocol_recv_packet\<close> into a packet object; \<open>malloc_ok\<close> is whether the allocation of the
  payload succeeds. The result is the return value, the packet as it is left and the socket.
\<close>

definition protocol_recv_packet :: "endian \<Rightarrow> bool \<Rightarrow> sock \<Rightarrow> int \<times> packet_t \<times> sock" where
  "protocol_recv_packet e malloc_ok s =
     (let (ret, w, s1) = recv_n TLV_WIRE_HEADER_SIZE s
      in if ret \<noteq> 0 then (- 1, zero_packet, s1)
         else
           let magic = read_net_u32 e WIRE_MAGIC_OFFSET w;
               version = read_net_u32 e WIRE_VERSION_OFFSET w
           in if magic \<noteq> TLV_MAGIC \<or> version \<noteq> TLV_VERSION then (- 1, zero_packet, s1)
              else
                let h = \<lparr>ptype = read_net_u32 e WIRE_TYPE_OFFSET w,
                         status = read_net_u32 e WIRE_STATUS_OFFSET w,
                         payload_len = read_net_u32 e WIRE_PAYLOAD_LEN_OFFSET w,
                         session_id = read_at WIRE_SESSION_ID_OFFSET SESSION_ID_SIZE w\<rparr>;
                    p = zero_packet\<lparr>header := h\<rparr>
                in if payload_len h > MAX_PACKET_PAYLOAD then (- 1, p, s1)
                   else if payload_len h = 0 then (0, p, s1)
                   else if \<not> malloc_ok then (- 1, p, s1)
                   else
                     let (ret2, body, s2) = recv_n (unat (payload_len h)) s1
                     in if ret2 \<noteq> 0 then (- 1, zero_packet, s2)
                        else (0, p\<lparr>payload := Some body, owns_payload := True\<rparr>, s2))"

definition session_id_equal :: "session_id_t option \<Rightarrow> session_id_t option \<Rightarrow> bool" where
  "session_id_equal left right =
     (case (left, right) of
        (Some l, Some r) \<Rightarrow> take SESSION_ID_SIZE l = take SESSION_ID_SIZE r
      | _ \<Rightarrow> False)"

definition session_id_is_empty :: "session_id_t option \<Rightarrow> bool" where
  "session_id_is_empty sid \<longleftrightarrow> sid = None \<or> session_id_equal sid (Some empty_session_id)"

definition send_puts_resume ::
  "endian \<Rightarrow> session_id_t option \<Rightarrow> u64 \<Rightarrow> sock \<Rightarrow> int \<times> sock" where
  "send_puts_resume e sid offset s =
     (let (ret, p) = packet_init (Some zero_packet) CMD_PUTS_RESP STATUS_OK sid
                       (Some (mem64 e (host_to_net_u64 e offset))) 8
      in if ret \<noteq> 0 then (- 1, s) else protocol_send_packet e p s)"

subsection \<open>The transfer loops\<close>

lemma send_n_loop_spec:
  assumes "send_n_loop ios buf tot out = (ret, ios', out')"
  shows "set ios' \<subseteq> set ios \<and>
    (ret = 0 \<and> out' = out @ drop tot buf \<or>
     ret = - 1 \<and> Fail \<in> set ios \<and> (\<exists>k. out' = out @ take k (drop tot buf)))"
  using assms
proof (induction ios arbitrary: tot out)
  case Nil
  then show ?case by simp
next
  case (Cons s ss)
  show ?case
  proof (cases "tot < length buf")
    case False
    with Cons.prems show ?thesis by auto
  next
    case more: True
    show ?thesis
    proof (cases s)
      case (Chunk n)
      define sent where "sent = min (Suc n) (length buf - tot)"
      have step: "send_n_loop ss buf (tot + sent) (out @ take sent (drop tot buf)) = (ret, ios', out')"
        using Cons.prems more Chunk by (simp add: Let_def sent_def)
      have split: "drop tot buf = take sent (drop tot buf) @ drop (tot + sent) buf"
        by (metis append_take_drop_id drop_drop add.commute)
      have join: "take sent (drop tot buf) @ take k (drop (tot + sent) buf) = take (sent + k) (drop tot buf)" for k
        by (metis add.commute drop_drop take_add)
      from Cons.IH [OF step] consider
          "set ios' \<subseteq> set ss" "ret = 0" "out' = out @ take sent (drop tot buf) @ drop (tot + sent) buf"
        | k where "set ios' \<subseteq> set ss" "ret = - 1" "Fail \<in> set ss"
            "out' = out @ take sent (drop tot buf) @ take k (drop (tot + sent) buf)"
        by auto
      then show ?thesis
        by cases (use join split in auto)
    next
      case Eintr
      with Cons.prems more have "send_n_loop ss buf tot out = (ret, ios', out')" by simp
      from Cons.IH [OF this] show ?thesis by auto
    next
      case Fail
      with Cons.prems more have "ret = - 1" "ios' = ss" "out' = out @ take 0 (drop tot buf)" by auto
      with Fail show ?thesis by (metis list.set_intros(1) set_subset_Cons)
    qed
  qed
qed

lemma send_n_spec:
  assumes "send_n buf s = (ret, s')"
  obtains (sent) "ret = 0" "tx s' = tx s @ buf"
  | (failed) k where "ret = - 1" "Fail \<in> set (tx_io s)" "tx s' = tx s @ take k buf"
  using assms send_n_loop_spec [of "tx_io s" buf 0 "tx s"]
  by (auto simp: send_n_def split: prod.splits)

lemma send_n_frame:
  assumes "send_n buf s = (ret, s')"
  shows "rx s' = rx s" and "rx_io s' = rx_io s" and "set (tx_io s') \<subseteq> set (tx_io s)"
  using assms send_n_loop_spec [of "tx_io s" buf 0 "tx s"]
  by (auto simp: send_n_def split: prod.splits)

text \<open>A kernel that only cuts transfers short or interrupts them lets the loop finish.\<close>

lemma send_n_no_fail:
  assumes "no_fail (tx_io s)"
  shows "\<exists>ios. send_n buf s = (0, s\<lparr>tx := tx s @ buf, tx_io := ios\<rparr>) \<and> no_fail ios"
proof -
  obtain ret ios out where eq: "send_n_loop (tx_io s) buf 0 (tx s) = (ret, ios, out)"
    using prod_cases3 by blast
  from send_n_loop_spec [OF eq] assms eq show ?thesis
    by (auto simp: send_n_def)
qed

lemma recv_n_loop_spec:
  assumes "recv_n_loop ios inp len got = (ret, ios', inp', got')" and "length got \<le> len"
  shows "set ios' \<subseteq> set ios \<and> got' @ inp' = got @ inp \<and>
    (ret = 0 \<and> length got' = len \<or>
     ret = - 1 \<and> length got' < len \<and> (Fail \<in> set ios \<or> inp' = []))"
  using assms
proof (induction ios arbitrary: inp got)
  case Nil
  then show ?case by (auto simp: Let_def split: if_splits)
next
  case (Cons s ss)
  show ?case
  proof (cases "length got < len")
    case False
    with Cons.prems show ?thesis by auto
  next
    case more: True
    show ?thesis
    proof (cases s)
      case (Chunk n)
      define k where "k = min (Suc n) (min (len - length got) (length inp))"
      show ?thesis
      proof (cases "k = 0")
        case True
        then have "inp = []" using more by (auto simp: k_def min_def split: if_splits)
        with Cons.prems more Chunk True show ?thesis by (auto simp: Let_def k_def [symmetric])
      next
        case False
        have step: "recv_n_loop ss (drop k inp) len (got @ take k inp) = (ret, ios', inp', got')"
          using Cons.prems(1) more Chunk False by (simp add: Let_def k_def [symmetric])
        have "length (got @ take k inp) \<le> len" using more by (simp add: k_def)
        from Cons.IH [OF step this] show ?thesis by auto
      qed
    next
      case Eintr
      with Cons.prems more have "recv_n_loop ss inp len got = (ret, ios', inp', got')" by simp
      from Cons.IH [OF this Cons.prems(2)] show ?thesis by auto
    next
      case Fail
      with Cons.prems more show ?thesis by auto
    qed
  qed
qed

lemma recv_n_spec:
  assumes "recv_n len s = (ret, got, s')"
  shows "got @ rx s' = rx s \<and> tx s' = tx s \<and> tx_io s' = tx_io s \<and> set (rx_io s') \<subseteq> set (rx_io s) \<and>
    (ret = 0 \<and> length got = len \<or>
     ret = - 1 \<and> length got < len \<and> (Fail \<in> set (rx_io s) \<or> rx s' = []))"
  using assms recv_n_loop_spec [of "rx_io s" "rx s" len "[]"]
  by (auto simp: recv_n_def split: prod.splits)

text \<open>When the peer delivers what is asked for, the loop returns exactly that prefix.\<close>

lemma recv_n_no_fail:
  assumes "no_fail (rx_io s)" and "rx s = bs @ rest"
  shows "\<exists>ios. recv_n (length bs) s = (0, bs, s\<lparr>rx := rest, rx_io := ios\<rparr>) \<and> no_fail ios"
proof -
  obtain ret ios inp got where eq: "recv_n_loop (rx_io s) (rx s) (length bs) [] = (ret, ios, inp, got)"
    using prod_cases4 by blast
  have spec: "set ios \<subseteq> set (rx_io s) \<and> got @ inp = bs @ rest \<and>
    (ret = 0 \<and> length got = length bs \<or> ret = - 1 \<and> length got < length bs \<and> inp = [])"
    using recv_n_loop_spec [OF eq] assms by auto
  then have "ret = 0 \<and> got = bs \<and> inp = rest"
    by (metis append_Nil2 append_eq_append_conv leD length_append le_add1)
  with eq spec assms show ?thesis
    by (auto simp: recv_n_def)
qed

subsection \<open>Layout of the header\<close>

definition wf_session_id :: "session_id_t \<Rightarrow> bool" where
  "wf_session_id sid \<longleftrightarrow> length sid = SESSION_ID_SIZE"

lemma encode_wire_header_layout [wire_simps]:
  assumes "wf_session_id (session_id h)"
  shows "encode_wire_header e h =
    be_bytes32 TLV_MAGIC @ be_bytes32 TLV_VERSION @ be_bytes32 (ptype h) @
    be_bytes32 (status h) @ be_bytes32 (payload_len h) @ session_id h"
proof -
  have put: "write_net_u32 e off v (a @ replicate n 0) = (a @ be_bytes32 v) @ replicate (n - 4) 0"
    if "length a = off" for off v n a
    using that by (simp add: write_net_u32_def write_at_append wire_simps)
  have "encode_wire_header e h =
    write_at WIRE_SESSION_ID_OFFSET (take SESSION_ID_SIZE (session_id h))
     (((((be_bytes32 TLV_MAGIC @ be_bytes32 TLV_VERSION) @ be_bytes32 (ptype h)) @
        be_bytes32 (status h)) @ be_bytes32 (payload_len h)) @ replicate SESSION_ID_SIZE 0)"
    unfolding encode_wire_header_def Let_def TLV_WIRE_HEADER_SIZE_def SESSION_ID_SIZE_def
    using put [of "[]" 0] by (simp add: put del: append_assoc)
  with assms show ?thesis
    by (simp add: write_at_def wf_session_id_def)
qed

lemma length_encode_wire_header:
  "wf_session_id (session_id h) \<Longrightarrow> length (encode_wire_header e h) = TLV_WIRE_HEADER_SIZE"
  by (simp add: wire_simps wf_session_id_def TLV_WIRE_HEADER_SIZE_def)


lemma read_net_u32_be [wire_simps]:
  "length a = off \<Longrightarrow> read_net_u32 e off (a @ be_bytes32 v @ c) = v"
  by (simp add: read_net_u32_def read_at_append wire_simps)

text \<open>The fields of an encoded header read back, on a host of either byte order.\<close>

lemma decode_wire_header [wire_simps]:
  assumes "wf_session_id (session_id h)"
  shows "read_net_u32 e' WIRE_MAGIC_OFFSET (encode_wire_header e h) = TLV_MAGIC"
    and "read_net_u32 e' WIRE_VERSION_OFFSET (encode_wire_header e h) = TLV_VERSION"
    and "read_net_u32 e' WIRE_TYPE_OFFSET (encode_wire_header e h) = ptype h"
    and "read_net_u32 e' WIRE_STATUS_OFFSET (encode_wire_header e h) = status h"
    and "read_net_u32 e' WIRE_PAYLOAD_LEN_OFFSET (encode_wire_header e h) = payload_len h"
    and "read_at WIRE_SESSION_ID_OFFSET SESSION_ID_SIZE (encode_wire_header e h) = session_id h"
  using assms
  by (simp_all add: encode_wire_header_layout read_net_u32_def read_at_def wire_simps wf_session_id_def)

text \<open>Conversely, a header block is the encoding of the fields read from it.\<close>

lemma encode_decoded_header:
  assumes "length w = TLV_WIRE_HEADER_SIZE"
    and "read_net_u32 e WIRE_MAGIC_OFFSET w = TLV_MAGIC"
    and "read_net_u32 e WIRE_VERSION_OFFSET w = TLV_VERSION"
  shows "encode_wire_header e' \<lparr>ptype = read_net_u32 e WIRE_TYPE_OFFSET w,
      status = read_net_u32 e WIRE_STATUS_OFFSET w,
      payload_len = read_net_u32 e WIRE_PAYLOAD_LEN_OFFSET w,
      session_id = read_at WIRE_SESSION_ID_OFFSET SESSION_ID_SIZE w\<rparr> = w"
proof -
  have read: "be_bytes32 (read_net_u32 e off w) = take 4 (drop off w)" if "off + 4 \<le> 20" for off
  proof -
    have "length (take 4 (drop off w)) = 4"
      using assms(1) that by (simp add: TLV_WIRE_HEADER_SIZE_def)
    then have "mem32 e (load32 e (take 4 (drop off w))) = take 4 (drop off w)"
      by (rule mem32_load32)
    then show ?thesis
      by (metis htonl_htonl mem32_htonl read_at_def read_net_u32_def)
  qed
  have step: "take 4 (drop k w) @ drop (4 + k) w = drop k w" for k
    by (metis append_take_drop_id drop_drop)
  have chunks: "take 4 w @ take 4 (drop 4 w) @ take 4 (drop 8 w) @ take 4 (drop 12 w) @
      take 4 (drop 16 w) @ drop 20 w = w"
    using step [of 0] step [of 4] step [of 8] step [of 12] step [of 16] by simp
  have "wf_session_id (read_at WIRE_SESSION_ID_OFFSET SESSION_ID_SIZE w)"
    using assms(1) by (simp add: wf_session_id_def read_at_def TLV_WIRE_HEADER_SIZE_def)
  then show ?thesis
    using assms chunks read [of 0] read [of 4]
    by (simp add: encode_wire_header_layout read read_at_def TLV_WIRE_HEADER_SIZE_def)
qed

subsection \<open>64-bit fields\<close>

lemma hi_lo_join [simp]:
  fixes hi lo :: u32
  shows "ucast (drop_bit 32 (push_bit 32 (ucast hi) OR ucast lo :: u64)) = hi"
    and "ucast (push_bit 32 (ucast hi) OR ucast lo :: u64) = lo"
proof -
  have high: "\<not> bit lo (32 + n)" for n
    using bit_imp_le_length [of lo "32 + n"] by auto
  show "ucast (drop_bit 32 (push_bit 32 (ucast hi) OR ucast lo :: u64)) = hi"
    and "ucast (push_bit 32 (ucast hi) OR ucast lo :: u64) = lo"
    by (auto intro!: bit_word_eqI simp: bit_simps high)
qed

lemma ucast_low_mask [simp]: "(ucast (v AND 0xffffffff :: u64) :: u32) = ucast v"
proof -
  have m: "(0xffffffff :: u64) = mask 32" by (simp add: mask_eq_exp_minus_1)
  show ?thesis unfolding m by (auto intro!: bit_word_eqI simp: bit_simps)
qed

lemma join_hi_lo [simp]:
  "push_bit 32 (ucast (ucast (drop_bit 32 v) :: u32)) OR ucast (ucast v :: u32) = (v :: u64)"
proof (rule bit_word_eqI)
  fix n
  assume "n < LENGTH(64)"
  then consider "n < 32" | "32 \<le> n" "n < 64" by fastforce
  then show "bit (push_bit 32 (ucast (ucast (drop_bit 32 v) :: u32)) OR ucast (ucast v :: u32) :: u64) n
      \<longleftrightarrow> bit v n"
    by cases (auto simp: bit_simps)
qed

subsection \<open>Frames\<close>

definition wf_packet :: "packet_t \<Rightarrow> bool" where
  "wf_packet p \<longleftrightarrow>
     wf_session_id (session_id (header p)) \<and> payload_len (header p) \<le> MAX_PACKET_PAYLOAD \<and>
     (if payload_len (header p) = 0 then payload p = None
      else map_option length (payload p) = Some (unat (payload_len (header p))))"

definition frame :: "packet_t \<Rightarrow> byte list" where
  "frame p =
     be_bytes32 TLV_MAGIC @ be_bytes32 TLV_VERSION @ be_bytes32 (ptype (header p)) @
     be_bytes32 (status (header p)) @ be_bytes32 (payload_len (header p)) @
     session_id (header p) @ (case payload p of None \<Rightarrow> [] | Some bs \<Rightarrow> bs)"

lemma frame_encode:
  "wf_packet p \<Longrightarrow>
   frame p = encode_wire_header e (header p) @ (case payload p of None \<Rightarrow> [] | Some bs \<Rightarrow> bs)"
  by (simp add: frame_def encode_wire_header_layout wf_packet_def)

lemma protocol_send_packet_frame:
  assumes "wf_packet p" and "no_fail (tx_io s)"
  shows "\<exists>ios. protocol_send_packet e (Some p) s = (0, s\<lparr>tx := tx s @ frame p, tx_io := ios\<rparr>) \<and> no_fail ios"
proof -
  have len: "\<not> payload_len (header p) > MAX_PACKET_PAYLOAD"
    using assms(1) by (simp only: wf_packet_def not_less)
  obtain ios where hd: "send_n (encode_wire_header e (header p)) s =
      (0, s\<lparr>tx := tx s @ encode_wire_header e (header p), tx_io := ios\<rparr>)" and ios: "no_fail ios"
    using send_n_no_fail [OF assms(2)] by blast
  let ?s1 = "s\<lparr>tx := tx s @ encode_wire_header e (header p), tx_io := ios\<rparr>"
  show ?thesis
  proof (cases "payload p")
    case None
    then have "payload_len (header p) = 0"
      using assms(1) by (auto simp: wf_packet_def split: if_splits)
    with None len hd ios show ?thesis
      by (auto simp: protocol_send_packet_def protocol_send_header_def frame_encode [OF assms(1), of e]
          intro!: exI [of _ ios])
  next
    case (Some bs)
    then have bs: "0 < payload_len (header p)" "unat (payload_len (header p)) = length bs"
      using assms(1) by (auto simp: wf_packet_def word_gt_0 split: if_splits)
    obtain ios' where "send_n bs ?s1 = (0, ?s1\<lparr>tx := tx ?s1 @ bs, tx_io := ios'\<rparr>)" "no_fail ios'"
      using send_n_no_fail [of ?s1 bs] ios by auto
    with Some bs len hd show ?thesis
      by (auto simp: protocol_send_packet_def protocol_send_header_def frame_encode [OF assms(1), of e]
          intro!: exI [of _ ios'])
  qed
qed

lemma protocol_recv_packet_frame:
  assumes "wf_packet p" and "no_fail (rx_io s)" and "rx s = frame p @ rest"
  shows "\<exists>ios. protocol_recv_packet e True s =
    (0, p\<lparr>owns_payload := payload_len (header p) \<noteq> 0\<rparr>, s\<lparr>rx := rest, rx_io := ios\<rparr>) \<and> no_fail ios"
proof -
  let ?w = "encode_wire_header e (header p)"
  let ?body = "case payload p of None \<Rightarrow> [] | Some bs \<Rightarrow> bs"
  have sid: "wf_session_id (session_id (header p))" and len: "\<not> payload_len (header p) > MAX_PACKET_PAYLOAD"
    using assms(1) by (simp_all only: wf_packet_def not_less)
  have lw: "length ?w = TLV_WIRE_HEADER_SIZE" using sid by (rule length_encode_wire_header)
  have "rx s = ?w @ (?body @ rest)" using assms(1,3) by (simp add: frame_encode [of p e])
  from recv_n_no_fail [OF assms(2) this] obtain ios where
    hd: "recv_n TLV_WIRE_HEADER_SIZE s = (0, ?w, s\<lparr>rx := ?body @ rest, rx_io := ios\<rparr>)" and ios: "no_fail ios"
    using lw by auto
  let ?s1 = "s\<lparr>rx := ?body @ rest, rx_io := ios\<rparr>"
  show ?thesis
  proof (cases "payload p")
    case None
    then have "payload_len (header p) = 0"
      using assms(1) by (auto simp: wf_packet_def split: if_splits)
    with None hd ios len show ?thesis
      by (auto simp: protocol_recv_packet_def decode_wire_header [OF sid] zero_packet_def
          intro!: exI [of _ ios])
  next
    case (Some bs)
    then have bs: "payload_len (header p) \<noteq> 0" "length bs = unat (payload_len (header p))"
      using assms(1) by (auto simp: wf_packet_def split: if_splits)
    from recv_n_no_fail [of ?s1 bs rest] ios Some obtain ios' where
      "recv_n (unat (payload_len (header p))) ?s1 = (0, bs, s\<lparr>rx := rest, rx_io := ios'\<rparr>)" "no_fail ios'"
      using bs by auto
    with Some bs hd len show ?thesis
      by (auto simp: protocol_recv_packet_def decode_wire_header [OF sid] zero_packet_def
          intro!: exI [of _ ios'])
  qed
qed

lemma protocol_recv_packet_accepts:
  assumes "protocol_recv_packet e malloc_ok s = (0, p, s')"
  shows "wf_packet p \<and> rx s = frame p @ rx s'"
proof -
  obtain ret w s1 where hd: "recv_n TLV_WIRE_HEADER_SIZE s = (ret, w, s1)" using prod_cases3 by blast
  let ?h = "\<lparr>ptype = read_net_u32 e WIRE_TYPE_OFFSET w, status = read_net_u32 e WIRE_STATUS_OFFSET w,
      payload_len = read_net_u32 e WIRE_PAYLOAD_LEN_OFFSET w,
      session_id = read_at WIRE_SESSION_ID_OFFSET SESSION_ID_SIZE w\<rparr>"
  have ok: "ret = 0" "read_net_u32 e WIRE_MAGIC_OFFSET w = TLV_MAGIC"
      "read_net_u32 e WIRE_VERSION_OFFSET w = TLV_VERSION" "payload_len ?h \<le> MAX_PACKET_PAYLOAD"
    using assms hd by (auto simp: protocol_recv_packet_def Let_def split: if_splits)
  have w: "w @ rx s1 = rx s" "length w = TLV_WIRE_HEADER_SIZE"
    using recv_n_spec [OF hd] ok by auto
  have enc: "encode_wire_header e ?h = w" using w ok by (intro encode_decoded_header)
  have sid: "wf_session_id (session_id ?h)"
    using w(2) by (simp add: wf_session_id_def read_at_def TLV_WIRE_HEADER_SIZE_def)
  show ?thesis
  proof (cases "payload_len ?h = 0")
    case True
    with assms hd ok have "p = zero_packet\<lparr>header := ?h\<rparr>" "s' = s1"
      by (auto simp: protocol_recv_packet_def Let_def split: if_splits)
    moreover from this(1) True sid have "wf_packet p" by (simp add: wf_packet_def zero_packet_def)
    ultimately show ?thesis
      using w enc by (simp add: frame_encode [of _ e] zero_packet_def)
  next
    case False
    then obtain body where body: "recv_n (unat (payload_len ?h)) s1 = (0, body, s')"
        "p = zero_packet\<lparr>header := ?h, payload := Some body, owns_payload := True\<rparr>"
      using assms hd ok
      by (auto simp: protocol_recv_packet_def Let_def split: if_splits prod.splits)
    have "body @ rx s' = rx s1" "length body = unat (payload_len ?h)"
      using recv_n_spec [OF body(1)] by auto
    moreover from body(2) this(2) False sid ok have "wf_packet p" by (simp add: wf_packet_def)
    ultimately show ?thesis
      using w enc body(2) by (simp add: frame_encode [of _ e])
  qed
qed

lemma net_to_host_host_to_net [simp]: "net_to_host_u64 e (host_to_net_u64 e v) = v"
  by (simp add: net_to_host_u64_def host_to_net_u64_def Let_def del: drop_bit_or)

lemma mem64_join:
  fixes hi lo :: u32
  shows "mem64 Big (push_bit 32 (ucast hi) OR ucast lo) = be_bytes32 hi @ be_bytes32 lo"
    and "mem64 Little (push_bit 32 (ucast hi) OR ucast lo) = rev (be_bytes32 lo) @ rev (be_bytes32 hi)"
  by (simp_all add: mem64_def be_bytes64_def del: drop_bit_or)

lemma rev_be_bytes32_htonl: "rev (be_bytes32 (htonl Little v)) = be_bytes32 v"
  using mem32_htonl [of Little v] by (simp add: mem32_def)

text \<open>
  C14. Packets survive the wire: a well-formed packet (payload of at most 64 KiB that matches its
  length field) is sent whole, however the kernel cuts or interrupts the transfer, and the
  receiver of those bytes gets the same type, status, length, session ID and payload back, takes
  exactly the bytes of this packet from the stream and leaves what follows, whatever the byte
  orders of the two hosts are.
\<close>

theorem packet_roundtrip:
  assumes "wf_packet p" and "no_fail (tx_io s)" and "no_fail (rx_io r)"
    and "protocol_send_packet e (Some p) s = (ret, s')"
    and "rx r = drop (length (tx s)) (tx s') @ rest"
  shows "ret = 0 \<and>
    (\<exists>r'. protocol_recv_packet e' True r = (0, p\<lparr>owns_payload := payload_len (header p) \<noteq> 0\<rparr>, r')
          \<and> rx r' = rest)"
proof -
  from protocol_send_packet_frame [OF assms(1,2), of e] assms(4)
  have ret: "ret = 0" and "tx s' = tx s @ frame p" by auto
  with assms(5) have "rx r = frame p @ rest" by simp
  from protocol_recv_packet_frame [OF assms(1,3) this, of e'] ret show ?thesis by auto
qed

text \<open>A \<open>ls docs\<close> request cut into single bytes by the sender's kernel, with an interruption.\<close>

definition ls_packet :: packet_t where
  "ls_packet =
     \<lparr>header = \<lparr>ptype = CMD_LS, status = STATUS_OK, payload_len = 4, session_id = replicate 16 7\<rparr>,
      payload = Some [100, 111, 99, 115], owns_payload = False\<rparr>"

definition idle_sock :: sock where
  "idle_sock = \<lparr>rx = [], tx = [], rx_io = [], tx_io = []\<rparr>"

lemma wf_ls_packet: "wf_packet ls_packet"
  by (simp add: wf_packet_def ls_packet_def wf_session_id_def SESSION_ID_SIZE_def MAX_PACKET_PAYLOAD_def)

theorem packet_roundtrip_witness:
  "\<exists>r'. protocol_recv_packet Big True
      (idle_sock\<lparr>rx := tx (snd (protocol_send_packet Little (Some ls_packet)
                                (idle_sock\<lparr>tx_io := [Chunk 0, Eintr, Chunk 2]\<rparr>))) @ [1, 2],
                 rx_io := [Chunk 6, Eintr]\<rparr>)
     = (0, ls_packet\<lparr>owns_payload := True\<rparr>, r') \<and> rx r' = [1, 2]"
  using packet_roundtrip [OF wf_ls_packet, of "idle_sock\<lparr>tx_io := [Chunk 0, Eintr, Chunk 2]\<rparr>"
      "idle_sock\<lparr>rx := tx (snd (protocol_send_packet Little (Some ls_packet)
                                (idle_sock\<lparr>tx_io := [Chunk 0, Eintr, Chunk 2]\<rparr>))) @ [1, 2],
                 rx_io := [Chunk 6, Eintr]\<rparr>"
      Little _ _ "[1, 2]" Big, OF _ _ prod.collapse [symmetric]]
  by (simp add: idle_sock_def ls_packet_def)

text \<open>
  C15. The receiver takes nothing but frames: when \<open>protocol_recv_packet\<close> returns 0, the bytes it
  consumed are exactly the TLV2 frame (magic, version 2, fields in network order, session ID,
  payload) of the packet it returns, whose payload is as long as its length field says and at
  most 64 KiB; it never reads past that frame.
\<close>

theorem recv_only_frames:
  assumes "protocol_recv_packet e malloc_ok s = (0, p, s')"
  shows "rx s = frame p @ rx s' \<and> wf_session_id (session_id (header p)) \<and>
    payload_len (header p) \<le> MAX_PACKET_PAYLOAD \<and>
    length (case payload p of None \<Rightarrow> [] | Some bs \<Rightarrow> bs) = unat (payload_len (header p))"
  using protocol_recv_packet_accepts [OF assms]
  by (auto simp: wf_packet_def split: if_splits)

theorem recv_only_frames_witness:
  "\<exists>p s'. protocol_recv_packet Little True (idle_sock\<lparr>rx := frame ls_packet @ [9]\<rparr>) = (0, p, s') \<and>
     frame ls_packet @ [9] = frame p @ rx s' \<and> payload_len (header p) \<le> MAX_PACKET_PAYLOAD"
proof -
  have "no_fail (rx_io (idle_sock\<lparr>rx := frame ls_packet @ [9]\<rparr>))" by (simp add: idle_sock_def)
  from protocol_recv_packet_frame [OF wf_ls_packet this, of "[9]" Little] obtain p s' where
    run: "protocol_recv_packet Little True (idle_sock\<lparr>rx := frame ls_packet @ [9]\<rparr>) = (0, p, s')" by auto
  with recv_only_frames [OF this] show ?thesis by auto
qed

text \<open>
  C16. 64-bit fields (file sizes, resume offsets): on a host of either byte order
  \<open>net_to_host_u64\<close> undoes \<open>host_to_net_u64\<close>; on a little-endian host the eight bytes that reach
  the wire are the value in network order. On a big-endian host the two 32-bit halves are
  exchanged instead, so such a host does not interoperate with a little-endian one.
\<close>

theorem u64_byte_order:
  "net_to_host_u64 e (host_to_net_u64 e v) = v \<and>
   mem64 Little (host_to_net_u64 Little v) = be_bytes64 v \<and>
   mem64 Big (host_to_net_u64 Big v) = drop 4 (be_bytes64 v) @ take 4 (be_bytes64 v)"
proof (intro conjI)
  show "mem64 Little (host_to_net_u64 Little v) = be_bytes64 v"
    unfolding host_to_net_u64_def Let_def mem64_join rev_be_bytes32_htonl ucast_low_mask
    by (simp add: be_bytes64_def)
  show "mem64 Big (host_to_net_u64 Big v) = drop 4 (be_bytes64 v) @ take 4 (be_bytes64 v)"
    unfolding host_to_net_u64_def Let_def mem64_join
    by (simp add: be_bytes64_def htonl_def)
qed simp

end
