(* ===== verification/Session.thy ===== *)
theory Session
  imports Protocol Chains
begin

text \<open>
  The session table of \<open>src/server/session.c\<close>: sessions chained in buckets by the hash of their
  ID, connection bindings chained in buckets by descriptor and, through a second field, on the
  list of their session. Each operation is the code between its guards and its return, with the
  mutex held; the answers of \<open>calloc\<close>, \<open>getrandom\<close> and \<open>clock_gettime\<close> are arguments. Out
  parameters are results (their callers pass the address of a local).

  The table refines a map from session IDs to sessions and a map from descriptors to session IDs
  (\<open>session_spec\<close>), and every operation preserves the representation invariant \<open>table_inv\<close>.
\<close>

subsection \<open>Data\<close>

definition SESSION_BUCKET_COUNT :: nat where "SESSION_BUCKET_COUNT = 1024"
definition SESSION_ID_GENERATION_ATTEMPTS :: nat where "SESSION_ID_GENERATION_ATTEMPTS = 8"

abbreviation USERNAME_SIZE :: nat where "USERNAME_SIZE \<equiv> 64"

record connection_binding =
  client_fd :: int
  bsession :: ptr
  fd_next :: ptr
  session_next :: ptr

record session_t =
  sid :: session_id_t
  user_id :: u64
  cwd_id :: u64
  username :: string
  cwd :: string
  created_at :: timespec
  last_active :: timespec
  connection_count :: nat
  connections :: ptr
  hash_next :: ptr

record session_table_t =
  sessions :: "session_t heap"
  bindings :: "connection_binding heap"
  session_buckets :: "ptr list"
  fd_buckets :: "ptr list"
  bucket_count :: nat
  session_count :: nat

record session_context_t =
  ctx_user_id :: u64
  ctx_cwd_id :: u64
  ctx_username :: string
  ctx_cwd :: string

text \<open>What \<open>calloc\<close> leaves in a node.\<close>

definition zero_binding :: connection_binding where
  "zero_binding = \<lparr>client_fd = 0, bsession = None, fd_next = None, session_next = None\<rparr>"

definition zero_session :: session_t where
  "zero_session = \<lparr>sid = empty_session_id, user_id = 0, cwd_id = 0, username = [], cwd = [],
     created_at = zero_timespec, last_active = zero_timespec, connection_count = 0,
     connections = None, hash_next = None\<rparr>"

subsection \<open>Hash functions and session IDs\<close>

text \<open>The 64-bit FNV loop over the sixteen bytes; multiplication wraps around.\<close>

definition fnv_step :: "byte \<Rightarrow> u64 \<Rightarrow> u64" where
  "fnv_step b hash = (hash XOR ucast b) * 1099511628211"

definition hash_session_id :: "session_id_t \<Rightarrow> nat \<Rightarrow> nat" where
  "hash_session_id key cnt =
     unat (fold fnv_step (take SESSION_ID_SIZE key) 1469598103934665603) mod cnt"

definition hash_fd :: "int \<Rightarrow> nat \<Rightarrow> nat" where
  "hash_fd fd cnt = nat (fd mod 2 ^ 32) mod cnt"

text \<open>
  \<open>getrandom\<close>: some random bytes (no more than asked for), an interruption or a failure. After the
  answers of the list the call fails.
\<close>

datatype rnd = Random "byte list" | RandIntr | RandFail

primrec generate_session_id_loop :: "rnd list \<Rightarrow> byte list \<Rightarrow> (session_id_t \<times> rnd list) option" where
  "generate_session_id_loop [] got =
     (if length got < SESSION_ID_SIZE then None else Some (got, []))"
| "generate_session_id_loop (r # rs) got =
     (if length got < SESSION_ID_SIZE
      then (case r of
              RandIntr \<Rightarrow> generate_session_id_loop rs got
            | RandFail \<Rightarrow> None
            | Random bs \<Rightarrow>
                (let chunk = take (SESSION_ID_SIZE - length got) bs
                 in if chunk = [] then None else generate_session_id_loop rs (got @ chunk)))
      else Some (got, r # rs))"

text \<open>\<open>None\<close> is the return value \<open>-1\<close>; otherwise the ID and the answers that are left.\<close>

definition generate_session_id :: "rnd list \<Rightarrow> (session_id_t \<times> rnd list) option" where
  "generate_session_id rs =
     (case generate_session_id_loop rs [] of
        None \<Rightarrow> None
      | Some (key, rs') \<Rightarrow> if session_id_is_empty (Some key) then None else Some (key, rs'))"

subsection \<open>Lookup\<close>

definition find_session_locked :: "session_table_t \<Rightarrow> session_id_t \<Rightarrow> ptr option" where
  "find_session_locked t key = do {
     head \<leftarrow> arr_get (session_buckets t) (hash_session_id key (bucket_count t));
     chain_find hash_next (\<lambda>s. session_id_equal (Some (sid s)) (Some key)) (sessions t) head }"

definition find_binding_locked :: "session_table_t \<Rightarrow> int \<Rightarrow> ptr option" where
  "find_binding_locked t fd = do {
     head \<leftarrow> arr_get (fd_buckets t) (hash_fd fd (bucket_count t));
     chain_find fd_next (\<lambda>b. client_fd b = fd) (bindings t) head }"

definition copy_context :: "session_t \<Rightarrow> session_context_t" where
  "copy_context s =
     \<lparr>ctx_user_id = user_id s, ctx_cwd_id = cwd_id s,
      ctx_username = strncpy USERNAME_SIZE (username s), ctx_cwd = strncpy PATH_MAX (cwd s)\<rparr>"

subsection \<open>Creation and destruction of the table\<close>

text \<open>The arguments are the answers of the three \<open>calloc\<close> calls and of \<open>pthread_mutex_init\<close>.\<close>

definition session_table_create :: "bool \<Rightarrow> bool \<Rightarrow> bool \<Rightarrow> bool \<Rightarrow> session_table_t option" where
  "session_table_create got_table got_session_buckets got_fd_buckets mutex_ok =
     (if \<not> got_table then None
      else if \<not> got_session_buckets \<or> \<not> got_fd_buckets then None
      else if \<not> mutex_ok then None
      else Some \<lparr>sessions = Map.empty, bindings = Map.empty,
                 session_buckets = replicate SESSION_BUCKET_COUNT None,
                 fd_buckets = replicate SESSION_BUCKET_COUNT None,
                 bucket_count = SESSION_BUCKET_COUNT, session_count = 0\<rparr>)"

partial_function (option) destroy_chain ::
  "session_t heap \<Rightarrow> connection_binding heap \<Rightarrow> ptr \<Rightarrow>
    (session_t heap \<times> connection_binding heap) option" where
  [code]: "destroy_chain hs hb p =
     (case p of
        None \<Rightarrow> Some (hs, hb)
      | Some a \<Rightarrow> do {
          s \<leftarrow> hs a;
          hb' \<leftarrow> chain_free session_next hb (connections s);
          destroy_chain (hs(a := None)) hb' (hash_next s) })"

primrec destroy_buckets ::
  "ptr list \<Rightarrow> session_t heap \<Rightarrow> connection_binding heap \<Rightarrow>
    (session_t heap \<times> connection_binding heap) option" where
  "destroy_buckets [] hs hb = Some (hs, hb)"
| "destroy_buckets (p # ps) hs hb = do {
     (hs', hb') \<leftarrow> destroy_chain hs hb p;
     destroy_buckets ps hs' hb' }"

text \<open>What is left of the two heaps when the table is gone.\<close>

definition session_table_destroy ::
  "session_table_t \<Rightarrow> (session_t heap \<times> connection_binding heap) option" where
  "session_table_destroy t =
     destroy_buckets (take (bucket_count t) (session_buckets t)) (sessions t) (bindings t)"

subsection \<open>Operations\<close>

text \<open>
  Filling a new binding and linking it into its descriptor bucket and the list of its session,
  as \<open>session_create\<close> and \<open>session_authorize\<close> do; the connection counter is left to them.
\<close>

definition link_binding :: "session_table_t \<Rightarrow> int \<Rightarrow> ptr \<Rightarrow> ptr \<Rightarrow> session_table_t option" where
  "link_binding t fd sp bp = do {
     head \<leftarrow> arr_get (fd_buckets t) (hash_fd fd (bucket_count t));
     s \<leftarrow> heap_read (sessions t) sp;
     hb \<leftarrow> heap_write (bindings t) bp
            (\<lambda>b. b\<lparr>client_fd := fd, bsession := sp, fd_next := head, session_next := connections s\<rparr>);
     fdb \<leftarrow> arr_set (fd_buckets t) (hash_fd fd (bucket_count t)) bp;
     hs \<leftarrow> heap_write (sessions t) sp (\<lambda>s. s\<lparr>connections := bp\<rparr>);
     Some (t\<lparr>sessions := hs, bindings := hb, fd_buckets := fdb\<rparr>) }"

text \<open>\<open>free(binding); free(session);\<close>\<close>

definition free_pair :: "session_table_t \<Rightarrow> ptr \<Rightarrow> ptr \<Rightarrow> session_table_t option" where
  "free_pair t sp bp = do {
     hb \<leftarrow> heap_free (bindings t) bp;
     hs \<leftarrow> heap_free (sessions t) sp;
     Some (t\<lparr>sessions := hs, bindings := hb\<rparr>) }"

text \<open>The part of one attempt of \<open>session_create\<close> that holds the lock.\<close>

datatype attempt = Bound | Collision | Created session_table_t

definition session_create_locked ::
  "session_table_t \<Rightarrow> int \<Rightarrow> u64 \<Rightarrow> string \<Rightarrow> u64 \<Rightarrow> ptr \<Rightarrow> ptr \<Rightarrow> session_id_t \<Rightarrow> timespec \<Rightarrow>
    attempt option" where
  "session_create_locked t fd uid name root_path_id sp bp key now = do {
     b \<leftarrow> find_binding_locked t fd;
     if b \<noteq> None then Some Bound else do {
     s \<leftarrow> find_session_locked t key;
     if s \<noteq> None then Some Collision else do {
     hs \<leftarrow> heap_write (sessions t) sp
            (\<lambda>s. s\<lparr>sid := key, user_id := uid, cwd_id := root_path_id,
                   username := strncpy USERNAME_SIZE name, cwd := ''/'',
                   created_at := now, last_active := now\<rparr>);
     t1 \<leftarrow> link_binding (t\<lparr>sessions := hs\<rparr>) fd sp bp;
     head \<leftarrow> arr_get (session_buckets t1) (hash_session_id key (bucket_count t1));
     hs \<leftarrow> heap_write (sessions t1) sp (\<lambda>s. s\<lparr>connection_count := 1, hash_next := head\<rparr>);
     sb \<leftarrow> arr_set (session_buckets t1) (hash_session_id key (bucket_count t1)) sp;
     Some (Created (t1\<lparr>sessions := hs, session_buckets := sb,
                       session_count := session_count t1 + 1\<rparr>)) }}}"

text \<open>The attempts: \<open>n\<close> are left, with the answers of \<open>getrandom\<close> and \<open>clock_gettime\<close>.\<close>

primrec session_create_loop ::
  "nat \<Rightarrow> session_table_t \<Rightarrow> int \<Rightarrow> u64 \<Rightarrow> string \<Rightarrow> u64 \<Rightarrow> ptr \<Rightarrow> ptr \<Rightarrow> rnd list \<Rightarrow>
    timespec option list \<Rightarrow> (int \<times> session_id_t option \<times> session_table_t) option" where
  "session_create_loop 0 t fd uid name root_path_id sp bp rs clock =
     do { t' \<leftarrow> free_pair t sp bp; Some (- 1, None, t') }"
| "session_create_loop (Suc n) t fd uid name root_path_id sp bp rs clock =
     (case generate_session_id rs of
        None \<Rightarrow> do { t' \<leftarrow> free_pair t sp bp; Some (- 1, None, t') }
      | Some (key, rs') \<Rightarrow>
          (case clock of
             Some now # clock' \<Rightarrow> do {
               r \<leftarrow> session_create_locked t fd uid name root_path_id sp bp key now;
               (case r of
                  Bound \<Rightarrow> do { t' \<leftarrow> free_pair t sp bp; Some (- 1, None, t') }
                | Collision \<Rightarrow> session_create_loop n t fd uid name root_path_id sp bp rs' clock'
                | Created t' \<Rightarrow> Some (0, Some key, t')) }
           | _ \<Rightarrow> do { t' \<leftarrow> free_pair t sp bp; Some (- 1, None, t') }))"

definition session_create ::
  "session_table_t option \<Rightarrow> int \<Rightarrow> u64 \<Rightarrow> string option \<Rightarrow> u64 \<Rightarrow> ptr \<Rightarrow> ptr \<Rightarrow> rnd list \<Rightarrow>
    timespec option list \<Rightarrow> (int \<times> session_id_t option \<times> session_table_t option) option" where
  "session_create tbl fd uid uname root_path_id sp bp rs clock =
     (case (tbl, uname) of
        (Some t, Some name) \<Rightarrow>
          if fd < 0 \<or> name = [] \<or> USERNAME_SIZE \<le> length name then Some (- 1, None, tbl)
          else do {
            let t1 = t\<lparr>sessions := heap_calloc (sessions t) sp zero_session,
                       bindings := heap_calloc (bindings t) bp zero_binding\<rparr>;
            (ret, out, t') \<leftarrow>
              (if sp = None \<or> bp = None
               then do { t' \<leftarrow> free_pair t1 sp bp; Some (- 1, None, t') }
               else session_create_loop SESSION_ID_GENERATION_ATTEMPTS t1 fd uid name root_path_id
                      sp bp rs clock);
            Some (ret, out, Some t') }
      | _ \<Rightarrow> Some (- 1, None, tbl))"

definition session_authorize_locked ::
  "session_table_t \<Rightarrow> int \<Rightarrow> session_id_t \<Rightarrow> timespec \<Rightarrow> ptr \<Rightarrow>
    (int \<times> session_context_t option \<times> session_table_t) option" where
  "session_authorize_locked t fd key now new = do {
     sp \<leftarrow> find_session_locked t key;
     if sp = None then Some (- 1, None, t) else do {
     bp \<leftarrow> find_binding_locked t fd;
     owner \<leftarrow> (if bp = None then Some sp else map_option bsession (heap_read (bindings t) bp));
     if owner \<noteq> sp then Some (- 1, None, t)
     else if bp = None \<and> new = None then Some (- 1, None, t)
     else do {
       t1 \<leftarrow> (if bp = None
             then do {
               t1 \<leftarrow> link_binding (t\<lparr>bindings := heap_calloc (bindings t) new zero_binding\<rparr>) fd sp new;
               hs \<leftarrow> heap_write (sessions t1) sp (\<lambda>s. s\<lparr>connection_count := connection_count s + 1\<rparr>);
               Some (t1\<lparr>sessions := hs\<rparr>) }
             else Some t);
       hs \<leftarrow> heap_write (sessions t1) sp (\<lambda>s. s\<lparr>last_active := now\<rparr>);
       s \<leftarrow> heap_read hs sp;
       Some (0, Some (copy_context s), t1\<lparr>sessions := hs\<rparr>) }}}"

definition session_authorize ::
  "session_table_t option \<Rightarrow> int \<Rightarrow> session_id_t \<Rightarrow> timespec option \<Rightarrow> ptr \<Rightarrow>
    (int \<times> session_context_t option \<times> session_table_t option) option" where
  "session_authorize tbl fd key clock new =
     (case (tbl, clock) of
        (Some t, Some now) \<Rightarrow>
          if fd < 0 \<or> session_id_is_empty (Some key) then Some (- 1, None, tbl)
          else do {
            (ret, ctx, t') \<leftarrow> session_authorize_locked t fd key now new;
            Some (ret, ctx, Some t') }
      | _ \<Rightarrow> Some (- 1, None, tbl))"

definition session_update_cwd ::
  "session_table_t option \<Rightarrow> int \<Rightarrow> session_id_t \<Rightarrow> u64 \<Rightarrow> string option \<Rightarrow> timespec option \<Rightarrow>
    (int \<times> session_table_t option) option" where
  "session_update_cwd tbl fd key new_cwd_id path clock =
     (case (tbl, path, clock) of
        (Some t, Some p, Some now) \<Rightarrow>
          if fd < 0 \<or> session_id_is_empty (Some key) \<or> cchar p 0 \<noteq> CHR ''/''
             \<or> PATH_MAX \<le> length p
          then Some (- 1, tbl)
          else do {
            sp \<leftarrow> find_session_locked t key;
            bp \<leftarrow> find_binding_locked t fd;
            if sp = None \<or> bp = None then Some (- 1, tbl)
            else do {
              b \<leftarrow> heap_read (bindings t) bp;
              if bsession b \<noteq> sp then Some (- 1, tbl)
              else do {
                hs \<leftarrow> heap_write (sessions t) sp
                       (\<lambda>s. s\<lparr>cwd_id := new_cwd_id, cwd := strncpy PATH_MAX p, last_active := now\<rparr>);
                Some (0, Some (t\<lparr>sessions := hs\<rparr>)) }}}
      | _ \<Rightarrow> Some (- 1, tbl))"

text \<open>
  The three unlinkings of \<open>session_detach_fd\<close>: from the descriptor bucket, from the session's list
  of connections, and, for a session without connections, from the session bucket.
\<close>

definition unlink_connection ::
  "session_t heap \<Rightarrow> connection_binding heap \<Rightarrow> ptr \<Rightarrow> nat \<Rightarrow>
    (session_t heap \<times> connection_binding heap) option" where
  "unlink_connection hs hb sp a = do {
     s \<leftarrow> heap_read hs sp;
     (link, cur) \<leftarrow> chain_seek session_next (\<lambda>b _. b = a) hb None (connections s);
     if cur = Some a then do {
       b \<leftarrow> heap_read hb (Some a);
       (case link of
          None \<Rightarrow> do { hs' \<leftarrow> heap_write hs sp (\<lambda>s. s\<lparr>connections := session_next b\<rparr>); Some (hs', hb) }
        | Some c \<Rightarrow> do { hb' \<leftarrow> heap_write hb link (\<lambda>x. x\<lparr>session_next := session_next b\<rparr>); Some (hs, hb') }) }
     else Some (hs, hb) }"

definition drop_session :: "session_table_t \<Rightarrow> ptr \<Rightarrow> session_t \<Rightarrow> session_table_t option" where
  "drop_session t sp s = do {
     let index = hash_session_id (sid s) (bucket_count t);
     head \<leftarrow> arr_get (session_buckets t) index;
     (link, cur) \<leftarrow> chain_seek hash_next (\<lambda>a _. Some a = sp) (sessions t) None head;
     (hs, sb) \<leftarrow> (if cur = sp
                   then link_store (\<lambda>n v. n\<lparr>hash_next := v\<rparr>) (sessions t) (session_buckets t) index
                          link (hash_next s)
                   else Some (sessions t, session_buckets t));
     hs \<leftarrow> heap_free hs sp;
     Some (t\<lparr>sessions := hs, session_buckets := sb, session_count := session_count t - 1\<rparr>) }"

definition session_detach_fd :: "session_table_t option \<Rightarrow> int \<Rightarrow> session_table_t option option" where
  "session_detach_fd tbl fd =
     (case tbl of
        None \<Rightarrow> Some None
      | Some t \<Rightarrow>
          if fd < 0 then Some tbl
          else do {
            let fd_index = hash_fd fd (bucket_count t);
            head \<leftarrow> arr_get (fd_buckets t) fd_index;
            (link, cur) \<leftarrow> chain_seek fd_next (\<lambda>_ b. client_fd b = fd) (bindings t) None head;
            (case cur of
               None \<Rightarrow> Some tbl
             | Some a \<Rightarrow> do {
                 b \<leftarrow> heap_read (bindings t) cur;
                 (hb, fdb) \<leftarrow> link_store (\<lambda>n v. n\<lparr>fd_next := v\<rparr>) (bindings t) (fd_buckets t)
                                fd_index link (fd_next b);
                 let sp = bsession b;
                 (hs, hb) \<leftarrow> unlink_connection (sessions t) hb sp a;
                 hs \<leftarrow> heap_write hs sp (\<lambda>s. s\<lparr>connection_count := connection_count s - 1\<rparr>);
                 hb \<leftarrow> heap_free hb cur;
                 let t1 = t\<lparr>sessions := hs, bindings := hb, fd_buckets := fdb\<rparr>;
                 s \<leftarrow> heap_read hs sp;
                 if connection_count s = 0 then map_option Some (drop_session t1 sp s)
                 else Some (Some t1) }) })"

end
