(* ===== verification/Timer_Wheel.thy ===== *)
theory Timer_Wheel
  imports Chains
begin

text \<open>
  The idle timer wheel of \<open>src/server/timer_wheel.c\<close>: one slot per second of the timeout plus one,
  each slot a doubly linked list of timer nodes, and a bucket array that finds the node of a
  descriptor. Each operation is the code with the mutex held; the answers of \<open>calloc\<close> and
  \<open>clock_gettime\<close> are arguments, and the calls of the expiry callback are the list of descriptors
  it is called with (the callback of \<open>main.c\<close> does not touch the wheel). The pointers \<open>wheel\<close>,
  \<open>now\<close>, \<open>publish\<close> and \<open>expire\<close> are not NULL, as at every call in the server.
\<close>

subsection \<open>Data\<close>

definition TIMER_FD_BUCKET_COUNT :: nat where "TIMER_FD_BUCKET_COUNT = 1024"

record timer_node =
  tn_fd :: int
  deadline :: timespec
  slot :: nat
  slot_previous :: ptr
  slot_next :: ptr
  tn_hash_next :: ptr

record timer_wheel_t =
  nodes :: "timer_node heap"
  timeout_seconds :: nat
  slot_count :: nat
  current_second :: int
  slots :: "ptr list"
  tw_fd_buckets :: "ptr list"
  tw_size :: nat

definition zero_node :: timer_node where
  "zero_node = \<lparr>tn_fd = 0, deadline = zero_timespec, slot = 0, slot_previous = None,
     slot_next = None, tn_hash_next = None\<rparr>"

subsection \<open>Helpers\<close>

definition tw_hash_fd :: "int \<Rightarrow> nat" where
  "tw_hash_fd fd = nat (fd mod 2 ^ 32) mod TIMER_FD_BUCKET_COUNT"

definition timespec_compare :: "timespec \<Rightarrow> timespec \<Rightarrow> int" where
  "timespec_compare left right =
     (if tv_sec left \<noteq> tv_sec right then (if tv_sec left < tv_sec right then - 1 else 1)
      else if tv_nsec left \<noteq> tv_nsec right then (if tv_nsec left < tv_nsec right then - 1 else 1)
      else 0)"

definition deadline_tick :: "timespec \<Rightarrow> int" where
  "deadline_tick d = tv_sec d + (if tv_nsec d \<noteq> 0 then 1 else 0)"

text \<open>\<open>(size_t)((uint64_t)second % wheel->slot_count)\<close>\<close>

definition slot_index :: "nat \<Rightarrow> int \<Rightarrow> nat" where
  "slot_index cnt second = nat (second mod 2 ^ 64) mod cnt"

definition find_node :: "timer_wheel_t \<Rightarrow> int \<Rightarrow> ptr option" where
  "find_node w fd = do {
     head \<leftarrow> arr_get (tw_fd_buckets w) (tw_hash_fd fd);
     chain_find tn_hash_next (\<lambda>n. tn_fd n = fd) (nodes w) head }"

definition unlink_slot :: "timer_wheel_t \<Rightarrow> ptr \<Rightarrow> timer_wheel_t option" where
  "unlink_slot w node = do {
     n \<leftarrow> heap_read (nodes w) node;
     w1 \<leftarrow> (case slot_previous n of
              Some p \<Rightarrow> do {
                h \<leftarrow> heap_write (nodes w) (Some p) (\<lambda>m. m\<lparr>slot_next := slot_next n\<rparr>);
                Some (w\<lparr>nodes := h\<rparr>) }
            | None \<Rightarrow> do {
                ss \<leftarrow> arr_set (slots w) (slot n) (slot_next n);
                Some (w\<lparr>slots := ss\<rparr>) });
     n1 \<leftarrow> heap_read (nodes w1) node;
     w2 \<leftarrow> (case slot_next n1 of
              Some q \<Rightarrow> do {
                h \<leftarrow> heap_write (nodes w1) (Some q) (\<lambda>m. m\<lparr>slot_previous := slot_previous n1\<rparr>);
                Some (w1\<lparr>nodes := h\<rparr>) }
            | None \<Rightarrow> Some w1);
     h \<leftarrow> heap_write (nodes w2) node (\<lambda>m. m\<lparr>slot_previous := None, slot_next := None\<rparr>);
     Some (w2\<lparr>nodes := h\<rparr>) }"

definition link_slot :: "timer_wheel_t \<Rightarrow> ptr \<Rightarrow> timer_wheel_t option" where
  "link_slot w node = do {
     n \<leftarrow> heap_read (nodes w) node;
     let i = slot_index (slot_count w) (deadline_tick (deadline n));
     head \<leftarrow> arr_get (slots w) i;
     h \<leftarrow> heap_write (nodes w) node (\<lambda>m. m\<lparr>slot := i, slot_next := head\<rparr>);
     h \<leftarrow> (case head of
             Some q \<Rightarrow> heap_write h (Some q) (\<lambda>m. m\<lparr>slot_previous := node\<rparr>)
           | None \<Rightarrow> Some h);
     ss \<leftarrow> arr_set (slots w) i node;
     Some (w\<lparr>nodes := h, slots := ss\<rparr>) }"

definition unlink_hash :: "timer_wheel_t \<Rightarrow> ptr \<Rightarrow> timer_wheel_t option" where
  "unlink_hash w node = do {
     n \<leftarrow> heap_read (nodes w) node;
     let bucket = tw_hash_fd (tn_fd n);
     head \<leftarrow> arr_get (tw_fd_buckets w) bucket;
     (link, cur) \<leftarrow> chain_seek tn_hash_next (\<lambda>a _. Some a = node) (nodes w) None head;
     if cur = node then do {
       (h, bs) \<leftarrow> link_store (\<lambda>m v. m\<lparr>tn_hash_next := v\<rparr>) (nodes w) (tw_fd_buckets w) bucket
                    link (tn_hash_next n);
       Some (w\<lparr>nodes := h, tw_fd_buckets := bs\<rparr>) }
     else Some w }"

text \<open>\<open>unlink_slot(wheel, node); unlink_hash(wheel, node); free(node); wheel->size--;\<close>\<close>

definition discard_node :: "timer_wheel_t \<Rightarrow> ptr \<Rightarrow> timer_wheel_t option" where
  "discard_node w node = do {
     w \<leftarrow> unlink_slot w node;
     w \<leftarrow> unlink_hash w node;
     h \<leftarrow> heap_free (nodes w) node;
     Some (w\<lparr>nodes := h, tw_size := tw_size w - 1\<rparr>) }"

subsection \<open>Creation and destruction\<close>

text \<open>The arguments after the timeout: the clock, and the answers of \<open>calloc\<close> and \<open>pthread_mutex_init\<close>.\<close>

definition timer_wheel_create ::
  "u32 \<Rightarrow> timespec option \<Rightarrow> bool \<Rightarrow> bool \<Rightarrow> bool \<Rightarrow> bool \<Rightarrow> timer_wheel_t option" where
  "timer_wheel_create timeout clock got_wheel got_slots got_buckets mutex_ok =
     (case clock of
        None \<Rightarrow> None
      | Some now \<Rightarrow>
          if timeout = 0 \<or> \<not> got_wheel \<or> \<not> got_slots \<or> \<not> got_buckets \<or> \<not> mutex_ok then None
          else Some \<lparr>nodes = Map.empty, timeout_seconds = unat timeout, slot_count = unat timeout + 1,
                     current_second = tv_sec now, slots = replicate (unat timeout + 1) None,
                     tw_fd_buckets = replicate TIMER_FD_BUCKET_COUNT None, tw_size = 0\<rparr>)"

primrec tw_destroy_buckets :: "ptr list \<Rightarrow> timer_node heap \<Rightarrow> timer_node heap option" where
  "tw_destroy_buckets [] h = Some h"
| "tw_destroy_buckets (p # ps) h = do { h' \<leftarrow> chain_free tn_hash_next h p; tw_destroy_buckets ps h' }"

text \<open>What is left of the heap when the wheel is gone.\<close>

definition timer_wheel_destroy :: "timer_wheel_t \<Rightarrow> timer_node heap option" where
  "timer_wheel_destroy w =
     tw_destroy_buckets (take TIMER_FD_BUCKET_COUNT (tw_fd_buckets w)) (nodes w)"

subsection \<open>Operations\<close>

definition track_locked :: "timer_wheel_t \<Rightarrow> int \<Rightarrow> timespec \<Rightarrow> ptr \<Rightarrow> (int \<times> timer_wheel_t) option" where
  "track_locked w fd now new = do {
     found \<leftarrow> find_node w fd;
     if found \<noteq> None then Some (- 1, w)
     else if new = None then Some (- 1, w)
     else do {
       let bucket = tw_hash_fd fd;
       head \<leftarrow> arr_get (tw_fd_buckets w) bucket;
       h \<leftarrow> heap_write (heap_calloc (nodes w) new zero_node) new
              (\<lambda>m. m\<lparr>tn_fd := fd, deadline := now\<lparr>tv_sec := tv_sec now + int (timeout_seconds w)\<rparr>,
                     tn_hash_next := head\<rparr>);
       bs \<leftarrow> arr_set (tw_fd_buckets w) bucket new;
       w \<leftarrow> link_slot (w\<lparr>nodes := h, tw_fd_buckets := bs\<rparr>) new;
       Some (0, w\<lparr>tw_size := tw_size w + 1\<rparr>) }}"

abbreviation bad_nsec :: "timespec \<Rightarrow> bool" where
  "bad_nsec now \<equiv> tv_nsec now < 0 \<or> 1000000000 \<le> tv_nsec now"

definition timer_wheel_track_at ::
  "timer_wheel_t \<Rightarrow> int \<Rightarrow> timespec \<Rightarrow> ptr \<Rightarrow> (int \<times> timer_wheel_t) option" where
  "timer_wheel_track_at w fd now new =
     (if fd < 0 \<or> bad_nsec now then Some (- 1, w) else track_locked w fd now new)"

definition timer_wheel_track ::
  "timer_wheel_t \<Rightarrow> int \<Rightarrow> timespec option \<Rightarrow> ptr \<Rightarrow> (int \<times> timer_wheel_t) option" where
  "timer_wheel_track w fd clock new =
     (if fd < 0 then Some (- 1, w)
      else (case clock of Some now \<Rightarrow> track_locked w fd now new | None \<Rightarrow> Some (- 1, w)))"

text \<open>\<open>publish_ret\<close> is what the publish callback returns; it runs only after a successful track.\<close>

definition timer_wheel_track_and_publish ::
  "timer_wheel_t \<Rightarrow> int \<Rightarrow> int \<Rightarrow> timespec option \<Rightarrow> ptr \<Rightarrow> (int \<times> timer_wheel_t) option" where
  "timer_wheel_track_and_publish w fd publish_ret clock new =
     (if fd < 0 then Some (- 1, w)
      else do {
        (result, w) \<leftarrow> (case clock of Some now \<Rightarrow> track_locked w fd now new | None \<Rightarrow> Some (- 1, w));
        if result = 0 \<and> publish_ret \<noteq> 0 then do {
          node \<leftarrow> find_node w fd;
          w \<leftarrow> discard_node w node;
          Some (- 1, w) }
        else Some (result, w) })"

definition timer_wheel_touch_at ::
  "timer_wheel_t \<Rightarrow> int \<Rightarrow> timespec \<Rightarrow> (int \<times> timer_wheel_t) option" where
  "timer_wheel_touch_at w fd now =
     (if bad_nsec now then Some (- 1, w)
      else do {
        node \<leftarrow> find_node w fd;
        if node = None then Some (- 1, w)
        else do {
          w \<leftarrow> unlink_slot w node;
          h \<leftarrow> heap_write (nodes w) node
                 (\<lambda>m. m\<lparr>deadline := now\<lparr>tv_sec := tv_sec now + int (timeout_seconds w)\<rparr>\<rparr>);
          w \<leftarrow> link_slot (w\<lparr>nodes := h\<rparr>) node;
          Some (0, w) }})"

definition timer_wheel_touch ::
  "timer_wheel_t \<Rightarrow> int \<Rightarrow> timespec option \<Rightarrow> (int \<times> timer_wheel_t) option" where
  "timer_wheel_touch w fd clock =
     (case clock of Some now \<Rightarrow> timer_wheel_touch_at w fd now | None \<Rightarrow> Some (- 1, w))"

definition timer_wheel_remove :: "timer_wheel_t \<Rightarrow> int \<Rightarrow> timer_wheel_t option" where
  "timer_wheel_remove w fd =
     (if fd < 0 then Some w
      else do {
        node \<leftarrow> find_node w fd;
        if node = None then Some w else discard_node w node })"

subsection \<open>Advancing\<close>

text \<open>The walk along one slot: the wheel and the descriptors given to the expiry callback so far.\<close>

partial_function (option) advance_slot ::
  "timespec \<Rightarrow> ptr \<Rightarrow> timer_wheel_t \<Rightarrow> int list \<Rightarrow> (timer_wheel_t \<times> int list) option" where
  [code]: "advance_slot now node w expired =
     (case node of
        None \<Rightarrow> Some (w, expired)
      | Some a \<Rightarrow> do {
          n \<leftarrow> heap_read (nodes w) node;
          if timespec_compare (deadline n) now \<le> 0
          then do {
            w \<leftarrow> discard_node w node;
            advance_slot now (slot_next n) w (expired @ [tn_fd n]) }
          else do {
            w \<leftarrow> unlink_slot w node;
            w \<leftarrow> link_slot w node;
            advance_slot now (slot_next n) w expired } })"

partial_function (option) advance_seconds ::
  "timespec \<Rightarrow> timer_wheel_t \<Rightarrow> int list \<Rightarrow> (timer_wheel_t \<times> int list) option" where
  [code]: "advance_seconds now w expired =
     (if current_second w < tv_sec now
      then do {
        head \<leftarrow> arr_get (slots w) (slot_index (slot_count w) (current_second w + 1));
        r \<leftarrow> advance_slot now head (w\<lparr>current_second := current_second w + 1\<rparr>) expired;
        advance_seconds now (fst r) (snd r) }
      else Some (w, expired))"

definition timer_wheel_advance_at ::
  "timer_wheel_t \<Rightarrow> timespec \<Rightarrow> (int \<times> timer_wheel_t \<times> int list) option" where
  "timer_wheel_advance_at w now = do {
     (w, expired) \<leftarrow> advance_seconds now w [];
     Some (0, w, expired) }"

definition timer_wheel_advance ::
  "timer_wheel_t \<Rightarrow> timespec option \<Rightarrow> (int \<times> timer_wheel_t \<times> int list) option" where
  "timer_wheel_advance w clock =
     (case clock of Some now \<Rightarrow> timer_wheel_advance_at w now | None \<Rightarrow> Some (- 1, w, []))"

definition timer_wheel_size :: "timer_wheel_t option \<Rightarrow> nat" where
  "timer_wheel_size wheel = (case wheel of None \<Rightarrow> 0 | Some w \<Rightarrow> tw_size w)"

end
