(* ===== verification/Kernel.thy ===== *)
theory Kernel
  imports Prelude "HOL-Library.Monad_Syntax"
begin

text \<open>
  The part of the operating system that the file-handling code uses: regular files by path name,
  with the kernel's answers to the coming calls. \<open>kio\<close> answers \<open>read\<close> and \<open>write\<close> (short, interrupted or
  failing transfers), \<open>kok\<close> answers the other calls (\<open>open\<close>, \<open>fstat\<close>, \<open>ftruncate\<close>, \<open>lseek\<close>, \<open>fsync\<close>,
  \<open>rename\<close>, \<open>unlink\<close>, \<open>access\<close>, \<open>malloc\<close>): whether the next one succeeds. When a list is used up the calls succeed.
  An open file is its path and its position.
\<close>

record kernel =
  disk :: "string \<rightharpoonup> byte list"
  kio :: "io list"
  kok :: "bool list"

record file_t =
  fpath :: string
  fpos :: nat

text \<open>Whether the next call succeeds.\<close>

definition sys_ok :: "kernel \<Rightarrow> bool \<times> kernel" where
  "sys_ok k = (case kok k of [] \<Rightarrow> (True, k) | b # bs \<Rightarrow> (b, k\<lparr>kok := bs\<rparr>))"

definition file_data :: "kernel \<Rightarrow> string \<Rightarrow> byte list" where
  "file_data k p = (case disk k p of None \<Rightarrow> [] | Some d \<Rightarrow> d)"

text \<open>\<open>open (path, O_RDONLY)\<close> and \<open>open (path, O_CREAT | O_RDWR)\<close>.\<close>

definition open_read :: "string \<Rightarrow> kernel \<Rightarrow> file_t option \<times> kernel" where
  "open_read p k =
     (let (ok, k1) = sys_ok k
      in if ok \<and> disk k p \<noteq> None then (Some \<lparr>fpath = p, fpos = 0\<rparr>, k1) else (None, k1))"

definition open_create :: "string \<Rightarrow> kernel \<Rightarrow> file_t option \<times> kernel" where
  "open_create p k =
     (let (ok, k1) = sys_ok k
      in if ok then (Some \<lparr>fpath = p, fpos = 0\<rparr>, k1\<lparr>disk := (disk k1)(p \<mapsto> file_data k p)\<rparr>) else (None, k1))"

definition ftruncate :: "file_t \<Rightarrow> nat \<Rightarrow> kernel \<Rightarrow> bool \<times> kernel" where
  "ftruncate f n k =
     (let (ok, k1) = sys_ok k; d = file_data k (fpath f)
      in if ok then (True, k1\<lparr>disk := (disk k1)(fpath f \<mapsto> take n d @ replicate (n - length d) 0)\<rparr>) else (False, k1))"

definition lseek :: "file_t \<Rightarrow> nat \<Rightarrow> kernel \<Rightarrow> file_t option \<times> kernel" where
  "lseek f off k = (let (ok, k1) = sys_ok k in if ok then (Some (f\<lparr>fpos := off\<rparr>), k1) else (None, k1))"

definition unlink :: "string \<Rightarrow> kernel \<Rightarrow> bool \<times> kernel" where
  "unlink p k =
     (let (ok, k1) = sys_ok k
      in if ok \<and> disk k p \<noteq> None then (True, k1\<lparr>disk := (disk k1)(p := None)\<rparr>) else (False, k1))"

definition rename_file :: "string \<Rightarrow> string \<Rightarrow> kernel \<Rightarrow> bool \<times> kernel" where
  "rename_file old new k =
     (let (ok, k1) = sys_ok k
      in case disk k old of
           Some d \<Rightarrow> if ok then (True, k1\<lparr>disk := ((disk k1)(old := None))(new \<mapsto> d)\<rparr>) else (False, k1)
         | None \<Rightarrow> (False, k1))"

text \<open>\<open>access (path, F_OK) == 0\<close>, and whether a failed \<open>rename\<close> set \<open>EEXIST\<close>: both only for a path that exists.\<close>

definition path_exists :: "string \<Rightarrow> kernel \<Rightarrow> bool \<times> kernel" where
  "path_exists p k = (let (ok, k1) = sys_ok k in (ok \<and> disk k p \<noteq> None, k1))"

text \<open>Bytes put at a position of a file; a gap before it reads as zeros.\<close>

definition put_bytes :: "nat \<Rightarrow> byte list \<Rightarrow> byte list \<Rightarrow> byte list" where
  "put_bytes pos bs d = take pos d @ replicate (pos - length d) 0 @ bs @ drop (pos + length bs) d"

text \<open>
  One \<open>read (fd, buffer, n)\<close>: the answer is interrupted, failed, or the bytes read (none at the end
  of the file).
\<close>

datatype read_result = Read_Intr | Read_Error | Read_Bytes "byte list"

definition read_file :: "file_t \<Rightarrow> nat \<Rightarrow> kernel \<Rightarrow> read_result \<times> file_t \<times> kernel" where
  "read_file f n k =
     (let d = drop (fpos f) (file_data k (fpath f))
      in case kio k of
           [] \<Rightarrow> (Read_Bytes (take n d), f\<lparr>fpos := fpos f + min n (length d)\<rparr>, k)
         | Eintr # ios \<Rightarrow> (Read_Intr, f, k\<lparr>kio := ios\<rparr>)
         | Fail # ios \<Rightarrow> (Read_Error, f, k\<lparr>kio := ios\<rparr>)
         | Chunk m # ios \<Rightarrow>
             (let r = min (Suc m) (min n (length d))
              in (Read_Bytes (take r d), f\<lparr>fpos := fpos f + r\<rparr>, k\<lparr>kio := ios\<rparr>)))"

lemma sys_ok_disk [simp]: "disk (snd (sys_ok k)) = disk k" "kio (snd (sys_ok k)) = kio k"
  by (simp_all add: sys_ok_def split: list.split)

lemma sys_ok_pair: "sys_ok k = (ok, k') \<Longrightarrow> disk k' = disk k \<and> kio k' = kio k"
  by (metis snd_conv sys_ok_disk)

lemma put_bytes_end: "pos = length d \<Longrightarrow> put_bytes pos bs d = d @ bs"
  by (simp add: put_bytes_def)

lemma put_bytes_append:
  "put_bytes (pos + length as) bs (put_bytes pos as d) = put_bytes pos (as @ bs) d"
  by (cases "pos \<le> length d") (auto simp: put_bytes_def min_def add.commute add.left_commute)

lemma take_min_drop: "take (min (length d - p) n) (drop p d) = take n (drop p d)"
  by (simp add: min_def)

lemma read_file_bytes:
  assumes "read_file f n k = (Read_Bytes bs, f', k')"
  shows "bs = take (length bs) (drop (fpos f) (file_data k (fpath f)))" "length bs \<le> n"
    "fpath f' = fpath f" "fpos f' = fpos f + length bs" "disk k' = disk k" "kok k' = kok k" "set (kio k') \<subseteq> set (kio k)"
    "0 < n \<Longrightarrow> bs = [] \<longleftrightarrow> length (file_data k (fpath f)) \<le> fpos f"
  using assms by (auto simp: read_file_def Let_def take_min_drop split: list.splits io.splits)

lemma read_file_progress:
  assumes "read_file f n k = (Read_Bytes bs, f', k')" "bs \<noteq> []"
  shows "length (file_data k' (fpath f')) - fpos f' < length (file_data k (fpath f)) - fpos f"
proof -
  note r = read_file_bytes [OF assms(1)]
  have "file_data k' (fpath f') = file_data k (fpath f)" using r(3,5) by (simp add: file_data_def)
  moreover have "fpos f < length (file_data k (fpath f))"
  proof (rule ccontr)
    assume "\<not> fpos f < length (file_data k (fpath f))"
    then have "bs = take (length bs) []" using r(1) by simp
    then show False using assms(2) by simp
  qed
  ultimately show ?thesis using r(4) assms(2) by (cases bs) auto
qed

lemma put_bytes_nil [simp]: "pos \<le> length d \<Longrightarrow> put_bytes pos [] d = d"
  by (simp add: put_bytes_def)

end
