(* ===== verification/Utils.thy ===== *)
theory Utils
  imports Kernel Protocol
begin

text \<open>
  The helpers of \<open>src/common/utils.c\<close>: line input, path names, password entry, the SHA-256 of a file
  and the exact write loop. A stream is the list of characters still to be read. SHA-256 itself
  (OpenSSL) is the parameter \<open>sha256\<close>; the environment, \<open>getcwd\<close>, \<open>readlink\<close>, \<open>realpath\<close> and \<open>mkdir\<close> are
  arguments.
\<close>

subsection \<open>Line input\<close>

definition newline :: char where
  "newline = CHR 0x0A"

text \<open>\<open>fgets\<close>: at most \<open>size - 1\<close> characters, up to and including a newline; NULL at end of input.\<close>

definition fgets :: "int \<Rightarrow> string \<Rightarrow> string option \<times> string" where
  "fgets sz inp =
     (if sz \<le> 0 then (None, inp)
      else if sz = 1 then (Some [], inp)
      else if inp = [] then (None, [])
      else
        (let line = takeWhile (\<lambda>c. c \<noteq> newline) inp;
             whole = (if length line < length inp then line @ [newline] else line);
             got = take (nat sz - 1) whole
         in (Some got, drop (length got) inp)))"

text \<open>The loop \<open>while ((ch = fgetc (fp)) != '\n' && ch != EOF)\<close>.\<close>

primrec skip_line :: "string \<Rightarrow> string" where
  "skip_line [] = []"
| "skip_line (c # cs) = (if c = newline then cs else skip_line cs)"

text \<open>The string a buffer denotes: what precedes its first NUL.\<close>

definition cstr :: "string \<Rightarrow> string" where
  "cstr b = takeWhile (\<lambda>c. c \<noteq> NUL) b"

definition s_fgets :: "int \<Rightarrow> string \<Rightarrow> string option \<times> string" where
  "s_fgets sz fp =
     (case fgets sz fp of
        (None, rest) \<Rightarrow> (None, rest)
      | (Some s, rest) \<Rightarrow>
          if newline \<in> set (cstr s) then (Some (takeWhile (\<lambda>c. c \<noteq> newline) (cstr s)), rest)
          else (Some (cstr s), skip_line rest))"

text \<open>\<open>s_gets\<close> is \<open>s_fgets\<close> on standard input.\<close>

definition s_gets :: "int \<Rightarrow> string \<Rightarrow> string option \<times> string" where
  "s_gets sz stdin =
     (case fgets sz stdin of
        (None, rest) \<Rightarrow> (None, rest)
      | (Some s, rest) \<Rightarrow>
          if newline \<in> set (cstr s) then (Some (takeWhile (\<lambda>c. c \<noteq> newline) (cstr s)), rest)
          else (Some (cstr s), skip_line rest))"

definition is_blank :: "char \<Rightarrow> bool" where
  "is_blank c \<longleftrightarrow> c = CHR '' '' \<or> c = CHR 0x09"

definition is_trailing :: "char \<Rightarrow> bool" where
  "is_trailing c \<longleftrightarrow> is_blank c \<or> c = newline \<or> c = CHR 0x0D"

text \<open>The second loop of \<open>trim\<close> cuts the string at its end while the last character is white space.\<close>

fun trim_end :: "string \<Rightarrow> string" where
  "trim_end s = (if s \<noteq> [] \<and> is_trailing (last s) then trim_end (butlast s) else s)"

declare trim_end.simps [simp del]

definition trim :: "string \<Rightarrow> string" where
  "trim s = trim_end (dropWhile is_blank s)"

subsection \<open>Path names\<close>

text \<open>\<open>strrchr\<close>: the index of the last occurrence.\<close>

fun strrchr :: "string \<Rightarrow> char \<Rightarrow> nat option" where
  "strrchr [] c = None"
| "strrchr (x # xs) c =
     (case strrchr xs c of Some i \<Rightarrow> Some (Suc i) | None \<Rightarrow> if x = c then Some 0 else None)"

text \<open>
  \<open>get_executable_dir\<close>: \<open>link\<close> is the answer of \<open>readlink\<close>, \<open>old\<close> the string the buffer held before,
  which is what the function goes on with when \<open>readlink\<close> fails.
\<close>

definition get_executable_dir :: "string option \<Rightarrow> string \<Rightarrow> nat \<Rightarrow> int \<times> string" where
  "get_executable_dir link old sz =
     (let dir = (case link of Some l \<Rightarrow> take (sz - 1) l | None \<Rightarrow> old)
      in case strrchr dir CHR ''/'' of
           None \<Rightarrow> (- 1, dir)
         | Some i \<Rightarrow> (0, take i dir))"

definition get_parent_dir :: "string option \<Rightarrow> nat \<Rightarrow> int \<times> string option" where
  "get_parent_dir resolved sz =
     (case resolved of
        None \<Rightarrow> (- 1, None)
      | Some r \<Rightarrow>
          (case strrchr r CHR ''/'' of
             None \<Rightarrow> (- 1, None)
           | Some i \<Rightarrow>
               (let r' = (if i = 0 then take 1 r else take i r);
                    (out, n) = snprintf sz r'
                in (if int n \<ge> int sz then - 1 else 0, Some out))))"

definition get_project_dir :: "string option \<Rightarrow> nat \<Rightarrow> int \<times> string option" where
  "get_project_dir cwd sz =
     (case cwd of
        None \<Rightarrow> (- 1, None)
      | Some c \<Rightarrow>
          (let c' = (case strrchr c CHR ''/'' of
                       Some i \<Rightarrow> if drop (Suc i) c = ''bin'' then take i c else c
                     | None \<Rightarrow> c);
               (out, n) = snprintf sz c'
           in (if int n \<ge> int sz then - 1 else 0, Some out)))"

definition join_path :: "nat \<Rightarrow> string \<Rightarrow> string \<Rightarrow> int \<times> string" where
  "join_path dst_size base_dir path =
     (let (dst, n) =
            (if cchar path 0 = CHR ''/'' then snprintf dst_size path
             else if cchar base_dir 0 = NUL then snprintf dst_size path
             else if cchar base_dir (length base_dir - 1) = CHR ''/'' then snprintf dst_size (base_dir @ path)
             else snprintf dst_size (base_dir @ ''/'' @ path))
      in (if int n \<ge> int dst_size then - 1 else 0, dst))"

text \<open>
  \<open>mkdir_p\<close>: \<open>mkdir\<close> is the system call on a world \<open>w\<close>; it answers whether it failed with an error
  other than \<open>EEXIST\<close>. The loop makes a directory of every prefix that ends before a slash.
\<close>

fun mkdir_loop :: "(string \<Rightarrow> nat \<Rightarrow> 'w \<Rightarrow> bool \<times> 'w) \<Rightarrow> nat \<Rightarrow> string \<Rightarrow> string \<Rightarrow> 'w \<Rightarrow> bool \<times> 'w" where
  "mkdir_loop mkdir mode done [] w = (True, w)"
| "mkdir_loop mkdir mode done (c # cs) w =
     (if c = CHR ''/'' then
        (let (ok, w1) = mkdir done mode w
         in if ok then mkdir_loop mkdir mode (done @ [c]) cs w1 else (False, w1))
      else mkdir_loop mkdir mode (done @ [c]) cs w)"

definition mkdir_p :: "(string \<Rightarrow> nat \<Rightarrow> 'w \<Rightarrow> bool \<times> 'w) \<Rightarrow> string option \<Rightarrow> nat \<Rightarrow> 'w \<Rightarrow> int \<times> 'w" where
  "mkdir_p mkdir path mode w =
     (case path of
        None \<Rightarrow> (- 1, w)
      | Some p \<Rightarrow>
          if p = [] then (- 1, w)
          else if length p \<ge> PATH_MAX then (- 1, w)
          else
            (let tmp = (if length p > 1 \<and> last p = CHR ''/'' then butlast p else p);
                 (ok, w1) = mkdir_loop mkdir mode (take 1 tmp) (drop 1 tmp) w
             in if \<not> ok then (- 1, w1)
                else (let (ok2, w2) = mkdir tmp mode w1 in (if ok2 then 0 else - 1, w2))))"

definition ensure_parent_dir :: "(string \<Rightarrow> nat \<Rightarrow> 'w \<Rightarrow> bool \<times> 'w) \<Rightarrow> string option \<Rightarrow> 'w \<Rightarrow> int \<times> 'w" where
  "ensure_parent_dir mkdir path w =
     (case path of
        None \<Rightarrow> (- 1, w)
      | Some p \<Rightarrow>
          if length p \<ge> PATH_MAX then (- 1, w)
          else (case strrchr p CHR ''/'' of
                  None \<Rightarrow> (0, w)
                | Some i \<Rightarrow> mkdir_p mkdir (Some (if i = 0 then take 1 p else take i p)) 0x1ED w))"

text \<open>
  POSIX \<open>basename\<close>: trailing slashes do not count; a path of slashes only is \<open>/\<close>, the empty path is
  \<open>.\<close>.
\<close>

definition posix_basename :: "string \<Rightarrow> string" where
  "posix_basename p =
     (if p = [] then ''.''
      else
        (let q = rev (dropWhile (\<lambda>c. c = CHR ''/'') (rev p))
         in if q = [] then ''/'' else rev (takeWhile (\<lambda>c. c \<noteq> CHR ''/'') (rev q))))"

definition utils_get_base_name :: "string option \<Rightarrow> int \<Rightarrow> int \<times> string option" where
  "utils_get_base_name path len =
     (case path of
        None \<Rightarrow> (- 1, None)
      | Some p \<Rightarrow>
          if len \<le> 0 then (- 1, None)
          else if length p = 0 \<or> length p \<ge> PATH_MAX then (- 1, None)
          else
            (let base = posix_basename p
             in if length base = 0 \<or> int (length base) \<ge> len then (- 1, None)
                else (0, Some base)))"

definition utils_expand_local_path :: "string option \<Rightarrow> string \<Rightarrow> nat \<Rightarrow> int \<times> string option" where
  "utils_expand_local_path HOME path out_size =
     (if cchar path 0 = CHR ''~'' \<and> (cchar path 1 = NUL \<or> cchar path 1 = CHR ''/'') then
        (case HOME of
           None \<Rightarrow> (- 1, None)
         | Some home \<Rightarrow>
             if home = [] then (- 1, None)
             else (let (out, written) = snprintf out_size (home @ drop 1 path)
                   in (if written \<ge> out_size then - 1 else 0, Some out)))
      else
        (let (out, written) = snprintf out_size path
         in (if written \<ge> out_size then - 1 else 0, Some out)))"

text \<open>
  \<open>normalize_cd_path\<close>. \<open>strtok_r\<close> with the delimiter \<open>/\<close>: the next token and what follows its
  delimiter. \<open>parts\<close> are the entries of the array below \<open>depth\<close>; storing beyond its \<open>PATH_MAX / 2\<close>
  entries is undefined behaviour, \<open>None\<close>.
\<close>

definition strtok_r :: "char \<Rightarrow> string \<Rightarrow> (string \<times> string) option" where
  "strtok_r delim s =
     (let s' = dropWhile (\<lambda>c. c = delim) s
      in if s' = [] then None
         else Some (takeWhile (\<lambda>c. c \<noteq> delim) s', drop 1 (dropWhile (\<lambda>c. c \<noteq> delim) s')))"

lemma strtok_r_shorter: "strtok_r d s = Some (t, rest) \<Longrightarrow> length rest < length s"
proof -
  assume a: "strtok_r d s = Some (t, rest)"
  let ?s = "dropWhile (\<lambda>c. c = d) s"
  have "?s \<noteq> []" "rest = drop 1 (dropWhile (\<lambda>c. c \<noteq> d) ?s)"
    using a by (auto simp: strtok_r_def Let_def split: if_splits)
  moreover have "length (dropWhile (\<lambda>c. c \<noteq> d) ?s) \<le> length ?s" "length ?s \<le> length s"
    by (rule length_dropWhile_le)+
  ultimately show ?thesis by (cases ?s) auto
qed

function normalize_parts :: "string list \<Rightarrow> string \<Rightarrow> string list option" where
  "normalize_parts parts s =
     (case strtok_r CHR ''/'' s of
        None \<Rightarrow> Some parts
      | Some (token, rest) \<Rightarrow>
          if token = ''.'' then normalize_parts parts rest
          else if token = ''..'' then normalize_parts (butlast parts) rest
          else if length parts < PATH_MAX div 2 then normalize_parts (parts @ [token]) rest
          else None)"
  by pat_completeness auto
termination
  by (relation "measure (\<lambda>(parts, s). length s)") (auto dest: strtok_r_shorter [OF sym] strtok_r_shorter)

declare normalize_parts.simps [simp del]

primrec normalize_build :: "nat \<Rightarrow> string \<Rightarrow> string list \<Rightarrow> int \<times> string" where
  "normalize_build out_size out [] = (0, out)"
| "normalize_build out_size out (p # ps) =
     (if length out + 1 + length p + 1 > out_size then (- 1, out)
      else normalize_build out_size (out @ ''/'' @ p) ps)"

definition normalize_cd_path ::
  "string option \<Rightarrow> string option \<Rightarrow> string option \<Rightarrow> nat \<Rightarrow> (int \<times> string option) option" where
  "normalize_cd_path cwd cd_arg out out_size =
     (case (cwd, cd_arg, out) of
        (Some c, Some a, Some out0) \<Rightarrow>
          if out_size = 0 then Some (- 1, out)
          else
            (let (path, written) =
                   (if cchar a 0 = CHR ''/'' then snprintf PATH_MAX a
                    else if c = ''/'' then snprintf PATH_MAX (''/'' @ a)
                    else snprintf PATH_MAX (c @ ''/'' @ a))
             in if written \<ge> PATH_MAX then Some (- 1, out)
                else do {
                  parts \<leftarrow> normalize_parts [] path;
                  if parts = [] then
                    (if out_size < 2 then None else Some (0, Some ''/''))
                  else
                    (let (ret, res) = normalize_build out_size [] parts in Some (ret, Some res)) })
      | _ \<Rightarrow> Some (- 1, out))"

subsection \<open>Passwords\<close>

text \<open>
  The loop of \<open>read_password\<close> over the characters typed: \<open>buf\<close> is the filled part of the buffer.
  The result says whether the input ended before a newline.
\<close>

primrec read_password_loop :: "nat \<Rightarrow> string \<Rightarrow> string \<Rightarrow> bool \<times> string \<times> string" where
  "read_password_loop sz buf [] = (True, buf, [])"
| "read_password_loop sz buf (c # cs) =
     (if c = newline then (False, buf, cs)
      else if c = CHR 0x7F \<or> c = CHR 0x08 then read_password_loop sz (butlast buf) cs
      else if length buf + 1 < sz then read_password_loop sz (buf @ [c]) cs
      else read_password_loop sz buf cs)"

text \<open>
  The answers of \<open>tcgetattr\<close> and of the first \<open>tcsetattr\<close> are arguments; the results are the return
  value, the string in the buffer, the input left and whether the terminal echoes afterwards.
\<close>

definition read_password :: "bool \<Rightarrow> nat \<Rightarrow> bool \<Rightarrow> bool \<Rightarrow> string \<Rightarrow> int \<times> string option \<times> string \<times> bool" where
  "read_password buf_null sz get_ok set_ok stdin =
     (if buf_null \<or> sz = 0 then (- 1, None, stdin, True)
      else if \<not> get_ok then (- 1, None, stdin, True)
      else if \<not> set_ok then (- 1, None, stdin, True)
      else
        (let (eof, buf, rest) = read_password_loop sz [] stdin
         in if eof \<and> buf = [] then (- 1, Some (cstr buf), rest, True)
            else (0, Some (cstr buf), rest, True)))"

subsection \<open>Hashes and files\<close>

definition hex_digit :: "nat \<Rightarrow> char" where
  "hex_digit n = (if n < 10 then char_of (48 + n) else char_of (87 + n))"

text \<open>\<open>snprintf ("%02x")\<close> of every byte.\<close>

definition hex_of :: "byte list \<Rightarrow> string" where
  "hex_of bs = concat (map (\<lambda>b. [hex_digit (unat b div 16), hex_digit (unat b mod 16)]) bs)"

text \<open>
  The loop \<open>while ((bytes_read = read (file_fd, buffer, 4096)) > 0)\<close>: an interrupted or failed read
  ends it.
\<close>

function read_all :: "file_t \<Rightarrow> kernel \<Rightarrow> byte list \<Rightarrow> byte list option \<times> file_t \<times> kernel" where
  "read_all f k acc =
     (case read_file f 4096 k of
        (Read_Bytes bs, f1, k1) \<Rightarrow> if bs = [] then (Some acc, f1, k1) else read_all f1 k1 (acc @ bs)
      | (_, f1, k1) \<Rightarrow> (None, f1, k1))"
  by pat_completeness auto
termination
  by (relation "measure (\<lambda>(f, k, acc). length (file_data k (fpath f)) - fpos f)")
    (auto dest: read_file_progress [OF sym] read_file_progress)

declare read_all.simps [simp del]

definition utils_get_file_sha256 ::
  "(byte list \<Rightarrow> byte list) \<Rightarrow> bool \<Rightarrow> file_t option \<Rightarrow> int \<Rightarrow> kernel \<Rightarrow> int \<times> string option \<times> kernel" where
  "utils_get_file_sha256 sha256 evp_ok f sz k =
     (case f of
        None \<Rightarrow> (- 1, None, k)
      | Some fd \<Rightarrow>
          if sz < 65 then (- 1, None, k)
          else if \<not> evp_ok then (- 1, None, k)
          else
            (case read_all fd k [] of
               (Some bs, fd1, k1) \<Rightarrow> (0, Some (hex_of (sha256 bs)), k1)
             | (None, fd1, k1) \<Rightarrow> (- 1, None, k1)))"

definition isxdigit :: "char \<Rightarrow> bool" where
  "isxdigit c \<longleftrightarrow> (let n = of_char c :: nat in 48 \<le> n \<and> n \<le> 57 \<or> 65 \<le> n \<and> n \<le> 70 \<or> 97 \<le> n \<and> n \<le> 102)"

definition utils_is_valid_sha256_hex :: "string option \<Rightarrow> bool" where
  "utils_is_valid_sha256_hex s =
     (case s of None \<Rightarrow> False | Some h \<Rightarrow> length h = 64 \<and> list_all isxdigit h)"

text \<open>
  The loop of \<open>write_n\<close>: \<open>tot\<close> bytes of \<open>buf\<close> are written, \<open>d\<close> is the contents of the file. A \<open>write\<close>
  to a regular file that does not fail takes at least one byte.
\<close>

primrec write_n_loop :: "io list \<Rightarrow> byte list \<Rightarrow> nat \<Rightarrow> nat \<Rightarrow> byte list \<Rightarrow> int \<times> io list \<times> nat \<times> byte list" where
  "write_n_loop [] buf tot pos d =
     (if tot < length buf then (0, [], pos + length (drop tot buf), put_bytes pos (drop tot buf) d)
      else (0, [], pos, d))"
| "write_n_loop (s # ss) buf tot pos d =
     (if tot < length buf
      then (case s of
              Fail \<Rightarrow> (- 1, ss, pos, d)
            | Eintr \<Rightarrow> write_n_loop ss buf tot pos d
            | Chunk n \<Rightarrow>
                (let writed = min (Suc n) (length buf - tot)
                 in write_n_loop ss buf (tot + writed) (pos + writed) (put_bytes pos (take writed (drop tot buf)) d)))
      else (0, s # ss, pos, d))"

definition write_n :: "file_t \<Rightarrow> byte list \<Rightarrow> kernel \<Rightarrow> int \<times> file_t \<times> kernel" where
  "write_n f buf k =
     (let (ret, ios, pos, d) = write_n_loop (kio k) buf 0 (fpos f) (file_data k (fpath f))
      in (ret, f\<lparr>fpos := pos\<rparr>, k\<lparr>disk := (disk k)(fpath f \<mapsto> d), kio := ios\<rparr>))"

end
