(* ===== verification/Handler_Basic.thy ===== *)
theory Handler_Basic
  imports Dao Session Timer_Wheel Utils
begin

text \<open>
  The command handlers of \<open>src/server/handler_basic.c\<close>: one decoded request packet, the answer sent on the
  client's socket, and the effects on the database, the session table, the idle timer and the stored
  files. The handlers run to completion one after the other; the tables they share are changed only
  through operations that hold a lock or a database connection.

  \<open>server_t\<close> is what the threads of the server share, and the kernel's side of it: the sockets of the
  clients, the descriptors that are open, and those in the epoll set. The result \<open>None\<close> means, as in the
  components, a call that does not return or undefined behaviour.
\<close>

subsection \<open>State\<close>

record 'w server_t =
  s_pool :: "database_pool_t option"
  s_world :: 'w
  s_table :: "session_table_t option"
  s_wheel :: timer_wheel_t
  s_kern :: kernel
  s_socks :: "int \<Rightarrow> sock"
  s_epoll :: "int set"
  s_open :: "int set"

record packet_task_t =
  t_fd :: int
  t_packet :: packet_t
  t_session :: session_context_t
  t_storage_root :: string

abbreviation "t_header task \<equiv> header (t_packet task)"

text \<open>
  Answers of the calls that a handler makes outside of the model: the random bytes for a salt (\<open>None\<close> when
  \<open>/dev/urandom\<close> cannot be opened or read), the memory and random numbers for a new session, the clock,
  and at the end the return value of \<open>epoll_ctl\<close> and the memory for a timer node.
\<close>

record basic_env =
  be_salt :: "byte list option"
  be_session :: ptr
  be_binding :: ptr
  be_random :: "rnd list"
  be_clock :: "timespec option list"
  be_now :: "timespec option"
  be_publish :: int
  be_track_clock :: "timespec option"
  be_timer :: ptr

subsection \<open>Responses\<close>

definition send_response_with_session_id ::
  "endian \<Rightarrow> packet_task_t \<Rightarrow> u32 \<Rightarrow> u32 \<Rightarrow> session_id_t \<Rightarrow> byte list option \<Rightarrow> u32 \<Rightarrow> 'w server_t \<Rightarrow> int \<times> 'w server_t" where
  "send_response_with_session_id e task type st key pl plen s =
     (let (ret, response) = packet_init (Some zero_packet) type st (Some key) pl plen
      in if ret \<noteq> 0 then (- 1, s)
         else (let (ret, sock) = protocol_send_packet e response (s_socks s (t_fd task))
               in (ret, s\<lparr>s_socks := (s_socks s)(t_fd task := sock)\<rparr>)))"

definition send_response ::
  "endian \<Rightarrow> packet_task_t \<Rightarrow> u32 \<Rightarrow> u32 \<Rightarrow> byte list option \<Rightarrow> u32 \<Rightarrow> 'w server_t \<Rightarrow> int \<times> 'w server_t" where
  "send_response e task type st pl plen s =
     send_response_with_session_id e task type st (session_id (t_header task)) pl plen s"

text \<open>The two forms in which the handlers call it, ignoring the result: without payload and with a string.\<close>

definition respond :: "endian \<Rightarrow> packet_task_t \<Rightarrow> u32 \<Rightarrow> u32 \<Rightarrow> 'w server_t \<Rightarrow> 'w server_t" where
  "respond e task type st s = snd (send_response e task type st None 0 s)"

definition respond_str :: "endian \<Rightarrow> packet_task_t \<Rightarrow> u32 \<Rightarrow> u32 \<Rightarrow> string \<Rightarrow> 'w server_t \<Rightarrow> 'w server_t" where
  "respond_str e task type st str s = snd (send_response e task type st (Some (bytes_of str)) (word_of_nat (length str)) s)"

text \<open>The string that \<open>copy_payload\<close> leaves in \<open>destination\<close>, or \<open>None\<close> for -1.\<close>

definition copy_payload :: "packet_task_t \<Rightarrow> nat \<Rightarrow> bool \<Rightarrow> string option" where
  "copy_payload task capacity require_nonempty =
     (let len = payload_len (t_header task); pl = payload (t_packet task)
      in if unat len \<ge> capacity \<or> (len > 0 \<and> pl = None) \<or> (require_nonempty \<and> (len = 0 \<or> pl = None)) then None
         else Some (cstr_of (case pl of Some bs \<Rightarrow> take (unat len) bs | None \<Rightarrow> [])))"

subsection \<open>Registration and login\<close>

definition salt_charset :: string where
  "salt_charset = ''abcdefghijklmnopqrstuvwxyzABCDEFGHIJKLMNOPQRSTUVWXYZ0123456789./''"

definition generate_salt :: "byte list option \<Rightarrow> nat \<Rightarrow> string option" where
  "generate_salt random_bytes salt_size =
     (if salt_size < 20 then None
      else (case random_bytes of
              None \<Rightarrow> None
            | Some bs \<Rightarrow>
                if length bs \<noteq> 16 then None
                else Some (''$6$'' @ map (\<lambda>b. salt_charset ! (unat b mod length salt_charset)) bs)))"

text \<open>\<open>strtok_r (payload, "\n")\<close> twice.\<close>

definition credentials :: "string \<Rightarrow> (string \<times> string) option" where
  "credentials str = do {
     (name, rest) \<leftarrow> strtok_r newline str;
     (password, _) \<leftarrow> strtok_r newline rest;
     Some (name, password) }"

text \<open>\<open>crypt\<close> is \<open>crypt_r\<close>: the hash of a password for a setting, or \<open>None\<close> for NULL.\<close>

definition handle_register ::
  "'w mysql \<Rightarrow> (string \<Rightarrow> string \<Rightarrow> string option) \<Rightarrow> endian \<Rightarrow> basic_env \<Rightarrow> packet_task_t \<Rightarrow> 'w server_t \<Rightarrow> 'w server_t option" where
  "handle_register M crypt e env task s =
     (case copy_payload task 128 True of
        None \<Rightarrow> Some (respond e task CMD_ERROR STATUS_BAD_REQUEST s)
      | Some str \<Rightarrow>
     (case credentials str of
        None \<Rightarrow> Some (respond e task CMD_ERROR STATUS_BAD_REQUEST s)
      | Some (name, password) \<Rightarrow>
     (case generate_salt (be_salt env) 20 of
        None \<Rightarrow> Some (respond e task CMD_ERROR STATUS_OTHER_ERROR s)
      | Some salt \<Rightarrow>
     (case crypt password salt of
        None \<Rightarrow> Some (respond e task CMD_ERROR STATUS_OTHER_ERROR s)
      | Some password_hash \<Rightarrow> do {
          (ret, pool, w) \<leftarrow> dao_auth_register M name password_hash (s_pool s) (s_world s);
          let s = s\<lparr>s_pool := pool, s_world := w\<rparr>;
          if ret \<noteq> 0 then Some (respond e task CMD_ERROR STATUS_DB_ERROR s)
          else Some (respond e task CMD_ACK STATUS_OK s) }))))"

text \<open>Steps 2 to 6 of \<open>handle_login\<close>.\<close>

definition login_check ::
  "'w mysql \<Rightarrow> (string \<Rightarrow> string \<Rightarrow> string option) \<Rightarrow> endian \<Rightarrow> basic_env \<Rightarrow> packet_task_t \<Rightarrow> string \<Rightarrow> string \<Rightarrow> 'w server_t \<Rightarrow> 'w server_t option" where
  "login_check M crypt e env task name password s = do {
     (ret, login_info, pool, w) \<leftarrow> dao_auth_get_login_info M (Some name) (s_pool s) (s_world s);
     let s = s\<lparr>s_pool := pool, s_world := w\<rparr>;
     if ret = 1 then Some (respond e task CMD_ERROR STATUS_USER_NOTEXIST s)
     else if ret = - 1 then Some (respond e task CMD_ERROR STATUS_OTHER_ERROR s)
     else
       (case crypt password (li_password_hash login_info) of
          None \<Rightarrow> Some (respond e task CMD_ERROR STATUS_PASSWD_ERROR s)
        | Some encrypted_password \<Rightarrow>
            if li_password_hash login_info \<noteq> encrypted_password
            then Some (respond e task CMD_ERROR STATUS_PASSWD_ERROR s)
            else do {
              (ret, new_id, tbl) \<leftarrow> session_create (s_table s) (t_fd task) (li_user_id login_info) (Some name)
                 (li_root_path_id login_info) (be_session env) (be_binding env) (be_random env) (be_clock env);
              let s = s\<lparr>s_table := tbl\<rparr>;
              if ret \<noteq> 0 then Some (respond e task CMD_ERROR STATUS_OTHER_ERROR s)
              else do {
                key \<leftarrow> new_id;
                Some (snd (send_response_with_session_id e task CMD_ACK STATUS_OK key None 0 s)) } }) }"

definition handle_login ::
  "'w mysql \<Rightarrow> (string \<Rightarrow> string \<Rightarrow> string option) \<Rightarrow> endian \<Rightarrow> basic_env \<Rightarrow> packet_task_t \<Rightarrow> 'w server_t \<Rightarrow> 'w server_t option" where
  "handle_login M crypt e env task s =
     (case copy_payload task 128 True of
        None \<Rightarrow> Some (respond e task CMD_ERROR STATUS_BAD_REQUEST s)
      | Some str \<Rightarrow>
     (case credentials str of
        None \<Rightarrow> Some (respond e task CMD_ERROR STATUS_BAD_REQUEST s)
      | Some (name, password) \<Rightarrow> login_check M crypt e env task name password s))"

subsection \<open>Directories\<close>

definition handle_pwd :: "endian \<Rightarrow> packet_task_t \<Rightarrow> 'w server_t \<Rightarrow> 'w server_t" where
  "handle_pwd e task s = respond_str e task CMD_ACK STATUS_OK (ctx_cwd (t_session task)) s"

text \<open>Steps 4 to 6 of \<open>handle_cd\<close>.\<close>

definition cd_enter ::
  "'w mysql \<Rightarrow> endian \<Rightarrow> basic_env \<Rightarrow> packet_task_t \<Rightarrow> string \<Rightarrow> 'w server_t \<Rightarrow> 'w server_t option" where
  "cd_enter M e env task virtual_path s = do {
     (ret, path_id, pool, w) \<leftarrow> dao_path_get_node_id M (ctx_user_id (t_session task)) virtual_path (s_pool s) (s_world s);
     let s = s\<lparr>s_pool := pool, s_world := w\<rparr>;
     if ret = DAO_PATH_IS_DIR then do {
       new_id \<leftarrow> path_id;
       (ret, tbl) \<leftarrow> session_update_cwd (s_table s) (t_fd task) (session_id (t_header task)) new_id (Some virtual_path) (be_now env);
       let s = s\<lparr>s_table := tbl\<rparr>;
       if ret \<noteq> 0 then Some (respond e task CMD_ERROR STATUS_OTHER_ERROR s)
       else Some (respond_str e task CMD_ACK STATUS_OK virtual_path s) }
     else if ret = DAO_PATH_NOT_FOUND then Some (respond_str e task CMD_ERROR STATUS_DIR_NOTEXIST virtual_path s)
     else if ret = DAO_PATH_IS_FILE then Some (respond_str e task CMD_ERROR STATUS_NOT_DIR virtual_path s)
     else Some (respond e task CMD_ERROR STATUS_OTHER_ERROR s) }"

definition handle_cd ::
  "'w mysql \<Rightarrow> endian \<Rightarrow> basic_env \<Rightarrow> packet_task_t \<Rightarrow> 'w server_t \<Rightarrow> 'w server_t option" where
  "handle_cd M e env task s =
     (case copy_payload task PATH_MAX False of
        None \<Rightarrow> Some (respond e task CMD_ERROR STATUS_BAD_REQUEST s)
      | Some str \<Rightarrow> do {
          (ret, out) \<leftarrow> (if str = [] then Some (0, Some ''/'')
                         else normalize_cd_path (Some (ctx_cwd (t_session task))) (Some str) (Some []) PATH_MAX);
          if ret \<noteq> 0 then Some (respond e task CMD_ERROR STATUS_OTHER_ERROR s)
          else do {
            virtual_path \<leftarrow> out;
            cd_enter M e env task virtual_path s } })"

text \<open>The name after the last slash, as the handlers copy it into \<open>file_name\<close>.\<close>

definition last_name :: "string \<Rightarrow> string option" where
  "last_name target_path =
     (let parent_path = strncpy PATH_MAX target_path
      in case strrchr parent_path CHR ''/'' of
           None \<Rightarrow> None
         | Some slash \<Rightarrow>
             (let file_name = strncpy NAME_MAX (drop (Suc slash) parent_path)
              in if cchar file_name 0 = NUL then None else Some file_name))"

text \<open>\<open>handle_mkdir\<close> and \<open>handle_rmdir\<close> also cut the name off, which leaves the parent.\<close>

definition split_target :: "string \<Rightarrow> (string \<times> string) option" where
  "split_target target_path = do {
     file_name \<leftarrow> last_name target_path;
     slash \<leftarrow> strrchr (strncpy PATH_MAX target_path) CHR ''/'';
     Some (if slash = 0 then take 1 target_path else take slash target_path, file_name) }"

text \<open>Steps 4 to 7 of \<open>handle_ls\<close>.\<close>

definition ls_answer ::
  "'w mysql \<Rightarrow> endian \<Rightarrow> packet_task_t \<Rightarrow> string \<Rightarrow> 'w server_t \<Rightarrow> 'w server_t option" where
  "ls_answer M e task target_path s = do {
     (ret, target_id, pool, w) \<leftarrow> dao_path_get_node_id M (ctx_user_id (t_session task)) target_path (s_pool s) (s_world s);
     let s = s\<lparr>s_pool := pool, s_world := w\<rparr>;
     if ret = DAO_PATH_IS_FILE then
       (case last_name target_path of
          None \<Rightarrow> Some (respond e task CMD_ERROR STATUS_BAD_REQUEST s)
        | Some file_name \<Rightarrow> Some (respond_str e task CMD_ACK STATUS_OK file_name s))
     else if ret = DAO_PATH_IS_DIR then do {
       dir_id \<leftarrow> target_id;
       (ret, resp, pool, w) \<leftarrow> dao_path_get_ls_dir M (ctx_user_id (t_session task)) dir_id (unat MAX_PACKET_PAYLOAD) (s_pool s) (s_world s);
       let s = s\<lparr>s_pool := pool, s_world := w\<rparr>;
       if ret < 0 then Some (respond_str e task CMD_ERROR STATUS_OTHER_ERROR target_path s)
       else do { ls_resp \<leftarrow> resp; Some (respond_str e task CMD_ACK STATUS_OK ls_resp s) } }
     else if ret = DAO_PATH_NOT_FOUND then Some (respond_str e task CMD_ERROR STATUS_DIR_NOTEXIST target_path s)
     else Some (respond_str e task CMD_ERROR STATUS_OTHER_ERROR target_path s) }"

definition handle_ls ::
  "'w mysql \<Rightarrow> endian \<Rightarrow> packet_task_t \<Rightarrow> 'w server_t \<Rightarrow> 'w server_t option" where
  "handle_ls M e task s =
     (case copy_payload task PATH_MAX False of
        None \<Rightarrow> Some (respond e task CMD_ERROR STATUS_BAD_REQUEST s)
      | Some str \<Rightarrow> do {
          (ret, out) \<leftarrow> (if str = [] then Some (0, Some (ctx_cwd (t_session task)))
                         else normalize_cd_path (Some (ctx_cwd (t_session task))) (Some str) (Some []) PATH_MAX);
          if ret \<noteq> 0 then Some (respond e task CMD_ERROR STATUS_BAD_REQUEST s)
          else do {
            target_path \<leftarrow> out;
            ls_answer M e task target_path s } })"

text \<open>Steps 5 to 7 of \<open>handle_mkdir\<close>: the parent must be a directory of the user, then the row is made.\<close>

definition mkdir_insert ::
  "'w mysql \<Rightarrow> endian \<Rightarrow> packet_task_t \<Rightarrow> string \<Rightarrow> string \<Rightarrow> string \<Rightarrow> 'w server_t \<Rightarrow> 'w server_t option" where
  "mkdir_insert M e task target_path parent_path file_name s = do {
     (ret, parent_id, pool, w) \<leftarrow> dao_path_get_node_id M (ctx_user_id (t_session task)) parent_path (s_pool s) (s_world s);
     let s = s\<lparr>s_pool := pool, s_world := w\<rparr>;
     if ret = DAO_PATH_IS_DIR then do {
       parent \<leftarrow> parent_id;
       (ret, pool, w) \<leftarrow> dao_path_insert_dir M (ctx_user_id (t_session task)) target_path parent file_name (s_pool s) (s_world s);
       let s = s\<lparr>s_pool := pool, s_world := w\<rparr>;
       if ret = 1 then Some (respond_str e task CMD_ERROR STATUS_DIR_ALREADY_EXISTS file_name s)
       else if ret < 0 then Some (respond_str e task CMD_ERROR STATUS_OTHER_ERROR file_name s)
       else Some (respond_str e task CMD_ACK STATUS_OK file_name s) }
     else if ret = DAO_PATH_NOT_FOUND then Some (respond_str e task CMD_ERROR STATUS_DIR_NOTEXIST parent_path s)
     else if ret = DAO_PATH_IS_FILE then Some (respond_str e task CMD_ERROR STATUS_NOT_DIR parent_path s)
     else Some (respond_str e task CMD_ERROR STATUS_OTHER_ERROR parent_path s) }"

definition handle_mkdir ::
  "'w mysql \<Rightarrow> endian \<Rightarrow> packet_task_t \<Rightarrow> 'w server_t \<Rightarrow> 'w server_t option" where
  "handle_mkdir M e task s =
     (case copy_payload task NAME_MAX False of
        None \<Rightarrow> Some (respond e task CMD_ERROR STATUS_BAD_REQUEST s)
      | Some str \<Rightarrow> do {
          (ret, out) \<leftarrow> normalize_cd_path (Some (ctx_cwd (t_session task))) (Some str) (Some []) PATH_MAX;
          if ret \<noteq> 0 then Some (respond e task CMD_ERROR STATUS_BAD_REQUEST s)
          else do {
            target_path \<leftarrow> out;
            if target_path = ''/'' then Some (respond e task CMD_ERROR STATUS_BAD_REQUEST s)
            else
              (case split_target target_path of
                 None \<Rightarrow> Some (respond e task CMD_ERROR STATUS_BAD_REQUEST s)
               | Some (parent_path, file_name) \<Rightarrow> mkdir_insert M e task target_path parent_path file_name s) } })"

text \<open>Steps 4 to 7 of \<open>handle_rmdir\<close>: only an empty directory of the user is removed.\<close>

definition rmdir_delete ::
  "'w mysql \<Rightarrow> endian \<Rightarrow> packet_task_t \<Rightarrow> string \<Rightarrow> string \<Rightarrow> 'w server_t \<Rightarrow> 'w server_t option" where
  "rmdir_delete M e task target_path file_name s = do {
     (ret, target_id, pool, w) \<leftarrow> dao_path_get_node_id M (ctx_user_id (t_session task)) target_path (s_pool s) (s_world s);
     let s = s\<lparr>s_pool := pool, s_world := w\<rparr>;
     if ret = DAO_PATH_IS_DIR then do {
       target_dir_id \<leftarrow> target_id;
       (ret, pool, w) \<leftarrow> dao_path_dir_has_child M (ctx_user_id (t_session task)) target_dir_id (s_pool s) (s_world s);
       let s = s\<lparr>s_pool := pool, s_world := w\<rparr>;
       if ret > 0 then Some (respond_str e task CMD_ERROR STATUS_DIR_NOTEMPTY file_name s)
       else if ret < 0 then Some (respond_str e task CMD_ERROR STATUS_OTHER_ERROR file_name s)
       else do {
         (ret, pool, w) \<leftarrow> dao_path_rmdir M target_dir_id (s_pool s) (s_world s);
         let s = s\<lparr>s_pool := pool, s_world := w\<rparr>;
         if ret \<noteq> 0 then Some (respond_str e task CMD_ERROR STATUS_OTHER_ERROR file_name s)
         else Some (respond_str e task CMD_ACK STATUS_OK target_path s) } }
     else if ret = DAO_PATH_NOT_FOUND then Some (respond_str e task CMD_ERROR STATUS_DIR_NOTEXIST file_name s)
     else if ret = DAO_PATH_IS_FILE then Some (respond_str e task CMD_ERROR STATUS_NOT_DIR file_name s)
     else Some (respond_str e task CMD_ERROR STATUS_OTHER_ERROR file_name s) }"

definition handle_rmdir ::
  "'w mysql \<Rightarrow> endian \<Rightarrow> packet_task_t \<Rightarrow> 'w server_t \<Rightarrow> 'w server_t option" where
  "handle_rmdir M e task s =
     (case copy_payload task NAME_MAX False of
        None \<Rightarrow> Some (respond e task CMD_ERROR STATUS_BAD_REQUEST s)
      | Some str \<Rightarrow> do {
          (ret, out) \<leftarrow> normalize_cd_path (Some (ctx_cwd (t_session task))) (Some str) (Some []) PATH_MAX;
          if ret \<noteq> 0 then Some (respond e task CMD_ERROR STATUS_BAD_REQUEST s)
          else do {
            target_path \<leftarrow> out;
            if target_path = ''/'' then Some (respond e task CMD_ERROR STATUS_BAD_REQUEST s)
            else
              (case split_target target_path of
                 None \<Rightarrow> Some (respond e task CMD_ERROR STATUS_BAD_REQUEST s)
               | Some (parent_path, file_name) \<Rightarrow> rmdir_delete M e task target_path file_name s) } })"

subsection \<open>Files\<close>

text \<open>
  Steps 4 to 6 of \<open>handle_rm\<close>: the row goes, and with the last reference the stored file. When that cannot be
  removed, an error is sent and then the acknowledgement all the same.
\<close>

definition rm_delete ::
  "'w mysql \<Rightarrow> endian \<Rightarrow> packet_task_t \<Rightarrow> string \<Rightarrow> string \<Rightarrow> 'w server_t \<Rightarrow> 'w server_t option" where
  "rm_delete M e task target_path base_file_name s = do {
     (ret, target_id, pool, w) \<leftarrow> dao_path_get_node_id M (ctx_user_id (t_session task)) target_path (s_pool s) (s_world s);
     let s = s\<lparr>s_pool := pool, s_world := w\<rparr>;
     if ret = DAO_PATH_IS_FILE then do {
       target_file_id \<leftarrow> target_id;
       ((ret, hashed_filename), pool, w) \<leftarrow> dao_rm_file M (ctx_user_id (t_session task)) target_file_id NAME_MAX (s_pool s) (s_world s);
       let s = s\<lparr>s_pool := pool, s_world := w\<rparr>;
       if ret = DAO_OK then Some (respond_str e task CMD_ACK STATUS_OK base_file_name s)
       else if ret = DAO_NOT_FOUND then Some (respond_str e task CMD_ERROR STATUS_FILE_NOTEXIST base_file_name s)
       else if ret = DAO_SHOULD_DELETE_PHYSICAL then do {
         let physical_file_path = fst (snprintf (PATH_MAX + NAME_MAX + 1) (t_storage_root task @ ''/'' @ hashed_filename));
         let (ok, k) = unlink physical_file_path (s_kern s);
         let s = s\<lparr>s_kern := k\<rparr>;
         let s = (if ok then s else respond_str e task CMD_ERROR STATUS_IO_ERROR base_file_name s);
         Some (respond_str e task CMD_ACK STATUS_OK base_file_name s) }
       else if ret = DAO_DB_ERROR then Some (respond e task CMD_ERROR STATUS_DB_ERROR s)
       else Some (respond_str e task CMD_ERROR STATUS_OTHER_ERROR base_file_name s) }
     else if ret = DAO_PATH_IS_DIR then Some (respond_str e task CMD_ERROR STATUS_IS_DIR base_file_name s)
     else if ret = DAO_PATH_NOT_FOUND then Some (respond_str e task CMD_ERROR STATUS_FILE_NOTEXIST base_file_name s)
     else Some (respond_str e task CMD_ERROR STATUS_OTHER_ERROR base_file_name s) }"

definition handle_rm ::
  "'w mysql \<Rightarrow> endian \<Rightarrow> packet_task_t \<Rightarrow> 'w server_t \<Rightarrow> 'w server_t option" where
  "handle_rm M e task s =
     (case copy_payload task NAME_MAX False of
        None \<Rightarrow> Some (respond e task CMD_ERROR STATUS_BAD_REQUEST s)
      | Some str \<Rightarrow> do {
          (ret, out) \<leftarrow> normalize_cd_path (Some (ctx_cwd (t_session task))) (Some str) (Some []) PATH_MAX;
          if ret \<noteq> 0 then Some (respond e task CMD_ERROR STATUS_BAD_REQUEST s)
          else do {
            target_path \<leftarrow> out;
            rm_delete M e task target_path (posix_basename (strncpy PATH_MAX target_path)) s } })"

subsection \<open>Dispatch\<close>

definition basic_dispatch ::
  "'w mysql \<Rightarrow> (string \<Rightarrow> string \<Rightarrow> string option) \<Rightarrow> endian \<Rightarrow> basic_env \<Rightarrow> packet_task_t \<Rightarrow> 'w server_t \<Rightarrow> 'w server_t option" where
  "basic_dispatch M crypt e env task s =
     (let type = ptype (t_header task)
      in if type = CMD_REGISTER_REQ then handle_register M crypt e env task s
         else if type = CMD_LOGIN_REQ then handle_login M crypt e env task s
         else if type = CMD_PWD then Some (handle_pwd e task s)
         else if type = CMD_CD then handle_cd M e env task s
         else if type = CMD_LS then handle_ls M e task s
         else if type = CMD_MKDIR then handle_mkdir M e task s
         else if type = CMD_RMDIR then handle_rmdir M e task s
         else if type = CMD_RM then handle_rm M e task s
         else Some (respond e task CMD_ERROR STATUS_PROTOCOL_ERROR s))"

text \<open>
  After the request the descriptor is tracked and put back into the epoll set; when that fails the
  connection is closed. \<open>epoll_ctl\<close> is called, by \<open>publish_control_fd\<close>, only when the timer entry could be
  made.
\<close>

definition publish_control_fd :: "int \<Rightarrow> int \<Rightarrow> int set \<Rightarrow> int set" where
  "publish_control_fd ret fd epoll = (if ret = 0 then insert fd epoll else epoll)"

definition handle_basic_task ::
  "'w mysql \<Rightarrow> (string \<Rightarrow> string \<Rightarrow> string option) \<Rightarrow> endian \<Rightarrow> basic_env \<Rightarrow> packet_task_t \<Rightarrow> 'w server_t \<Rightarrow> 'w server_t option" where
  "handle_basic_task M crypt e env task s = do {
     s \<leftarrow> basic_dispatch M crypt e env task s;
     (ret, wheel) \<leftarrow> timer_wheel_track_and_publish (s_wheel s) (t_fd task) (be_publish env) (be_track_clock env) (be_timer env);
     let s = s\<lparr>s_wheel := wheel\<rparr>;
     if ret \<noteq> 0 then do {
       tbl \<leftarrow> session_detach_fd (s_table s) (t_fd task);
       Some (s\<lparr>s_table := tbl, s_open := s_open s - {t_fd task}\<rparr>) }
     else Some (s\<lparr>s_epoll := publish_control_fd (be_publish env) (t_fd task) (s_epoll s)\<rparr>) }"

end
