(* ===== verification/Payloads.thy ===== *)
theory Payloads
  imports Protocol
begin

text \<open>
  The structures that travel as packet payloads, byte by byte as the code copies them from and to memory
  (\<open>include/common/protocol.h\<close>): character arrays, 64-bit numbers at offsets that are multiples of eight, and
  padding up to such a multiple at the end.
\<close>

subsection \<open>Structures\<close>

record upload_request_payload_t =
  ur_remote_path :: "byte list"
  ur_file_size :: u64
  ur_sha256_hex :: "byte list"

record file_info_payload_t =
  fi_file_name :: "byte list"
  fi_file_size :: u64
  fi_sha256_hex :: "byte list"

record resume_payload_t =
  rp_offset :: u64

definition UPLOAD_REQUEST_SIZE :: nat where "UPLOAD_REQUEST_SIZE = 4176"
definition FILE_INFO_SIZE :: nat where "FILE_INFO_SIZE = 336"
definition RESUME_SIZE :: nat where "RESUME_SIZE = 8"

text \<open>The bytes of a structure that was zeroed first, and a structure read from bytes.\<close>

definition store_upload_request :: "endian \<Rightarrow> upload_request_payload_t \<Rightarrow> byte list" where
  "store_upload_request e r = ur_remote_path r @ mem64 e (ur_file_size r) @ ur_sha256_hex r @ replicate 7 0"

definition load_upload_request :: "endian \<Rightarrow> byte list \<Rightarrow> upload_request_payload_t" where
  "load_upload_request e bs =
     \<lparr>ur_remote_path = read_at 0 PATH_MAX bs, ur_file_size = load64 e (read_at PATH_MAX 8 bs),
      ur_sha256_hex = read_at (PATH_MAX + 8) 65 bs\<rparr>"

definition store_file_info :: "endian \<Rightarrow> file_info_payload_t \<Rightarrow> byte list" where
  "store_file_info e r = fi_file_name r @ [0] @ mem64 e (fi_file_size r) @ fi_sha256_hex r @ replicate 7 0"

definition load_file_info :: "endian \<Rightarrow> byte list \<Rightarrow> file_info_payload_t" where
  "load_file_info e bs =
     \<lparr>fi_file_name = read_at 0 NAME_MAX bs, fi_file_size = load64 e (read_at 256 8 bs), fi_sha256_hex = read_at 264 65 bs\<rparr>"

definition load_resume :: "endian \<Rightarrow> byte list \<Rightarrow> resume_payload_t" where
  "load_resume e bs = \<lparr>rp_offset = load64 e (read_at 0 8 bs)\<rparr>"

text \<open>A string copied into a zeroed character array of \<open>n\<close> bytes, cut to leave the last byte zero.\<close>

definition char_array :: "nat \<Rightarrow> string \<Rightarrow> byte list" where
  "char_array n str = bytes_of (strncpy n str) @ replicate (n - length (strncpy n str)) 0"

subsection \<open>Round trips\<close>

lemma length_char_array [simp]: "0 < n \<Longrightarrow> length (char_array n str) = n"
  by (simp add: char_array_def strncpy_def bytes_of_def)

lemma char_array_terminated: "0 < n \<Longrightarrow> 0 \<in> set (char_array n str)"
  by (auto simp: char_array_def strncpy_def)

lemma cstr_of_char_array:
  assumes "0 < n" "is_cstr str"
  shows "cstr_of (char_array n str) = strncpy n str"
proof -
  have "length (strncpy n str) < n" using assms(1) by (simp add: strncpy_def)
  then obtain m where "replicate (n - length (strncpy n str)) (0 :: byte) = 0 # replicate m 0"
    by (metis Suc_diff_Suc replicate_Suc)
  then show ?thesis using assms(2) by (simp add: char_array_def cstr_of_terminated strncpy_def)
qed

lemma load_store_upload_request:
  assumes "length (ur_remote_path r) = PATH_MAX" "length (ur_sha256_hex r) = 65"
  shows "load_upload_request e (store_upload_request e r) = r"
  using assms by (cases r) (simp add: load_upload_request_def store_upload_request_def read_at_def)

lemma load_store_file_info:
  assumes "length (fi_file_name r) = NAME_MAX" "length (fi_sha256_hex r) = 65"
  shows "load_file_info e (store_file_info e r) = r"
  using assms by (cases r) (simp add: load_file_info_def store_file_info_def read_at_def)

lemma length_store [simp]:
  "length (ur_remote_path r) = PATH_MAX \<Longrightarrow> length (ur_sha256_hex r) = 65 \<Longrightarrow> length (store_upload_request e r) = UPLOAD_REQUEST_SIZE"
  "length (fi_file_name i) = NAME_MAX \<Longrightarrow> length (fi_sha256_hex i) = 65 \<Longrightarrow> length (store_file_info e i) = FILE_INFO_SIZE"
  by (simp_all add: store_upload_request_def store_file_info_def UPLOAD_REQUEST_SIZE_def FILE_INFO_SIZE_def)

end
