(* ===== verification/Wire.thy ===== *)
theory Wire
  imports Protocol
begin

text \<open>
  What the packet operations do to a connection on every branch, for the components that talk over one: a
  sender appends a prefix of the packet's bytes, all of them exactly when the call returns 0, and leaves the
  receiving side alone; a receiver takes bytes from the front and leaves the sending side alone.
\<close>

subsection \<open>Sending\<close>

text \<open>The bytes of a packet as the sender lays them out; those of its frame when it is well formed.\<close>

definition wire :: "endian \<Rightarrow> packet_t \<Rightarrow> byte list" where
  "wire e p = encode_wire_header e (header p) @
     take (unat (payload_len (header p))) (case payload p of None \<Rightarrow> [] | Some bs \<Rightarrow> bs)"

lemma wire_frame: "wf_packet p \<Longrightarrow> wire e p = frame p"
  by (auto simp: wire_def frame_encode [of p e] wf_packet_def split: option.splits if_splits)

text \<open>The receiving side is untouched and the answers left are answers of before.\<close>

definition sending :: "sock \<Rightarrow> sock \<Rightarrow> bool" where
  "sending s s' \<longleftrightarrow> rx s' = rx s \<and> rx_io s' = rx_io s \<and> set (tx_io s') \<subseteq> set (tx_io s)"

lemma sending_refl [simp]: "sending s s"
  by (simp add: sending_def)

lemma sending_trans [trans]: "sending s s' \<Longrightarrow> sending s' s'' \<Longrightarrow> sending s s''"
  by (auto simp: sending_def)

lemma sendingD:
  assumes "sending s s'"
  shows "rx s' = rx s" "rx_io s' = rx_io s" "set (tx_io s') \<subseteq> set (tx_io s)" "no_fail (tx_io s) \<Longrightarrow> no_fail (tx_io s')"
    "no_fail (rx_io s) \<Longrightarrow> no_fail (rx_io s')"
  using assms by (auto simp: sending_def)

lemma send_n_sending: "send_n buf s = (ret, s') \<Longrightarrow> sending s s'"
  using send_n_frame [of buf s ret s'] by (simp add: sending_def)

lemma send_header_spec:
  assumes "protocol_send_header e (Some h) s = (ret, s')" "payload_len h \<le> MAX_PACKET_PAYLOAD"
  shows "sending s s'" "ret = 0 \<Longrightarrow> tx s' = tx s @ encode_wire_header e h"
    "ret \<noteq> 0 \<Longrightarrow> Fail \<in> set (tx_io s) \<and> (\<exists>k. tx s' = tx s @ take k (encode_wire_header e h))"
proof -
  have send: "send_n (encode_wire_header e h) s = (ret, s')" using assms by (simp add: protocol_send_header_def leD)
  then show "sending s s'" by (rule send_n_sending)
  from send show "ret = 0 \<Longrightarrow> tx s' = tx s @ encode_wire_header e h"
    "ret \<noteq> 0 \<Longrightarrow> Fail \<in> set (tx_io s) \<and> (\<exists>k. tx s' = tx s @ take k (encode_wire_header e h))"
    by (auto elim: send_n_spec)
qed

text \<open>A packet that can be sent: its payload is there and not too long.\<close>

definition sendable :: "packet_t \<Rightarrow> bool" where
  "sendable p \<longleftrightarrow> payload_len (header p) \<le> MAX_PACKET_PAYLOAD \<and> (payload_len (header p) > 0 \<longrightarrow> payload p \<noteq> None)"

lemma sendable_wf: "wf_packet p \<Longrightarrow> sendable p"
  by (auto simp: sendable_def wf_packet_def split: if_splits)

lemma send_packet_not_sendable: "\<not> sendable p \<Longrightarrow> protocol_send_packet e (Some p) s = (- 1, s)"
  by (auto simp: protocol_send_packet_def sendable_def)

lemma send_packet_spec:
  assumes "protocol_send_packet e (Some p) s = (ret, s')"
  shows "sending s s'" "ret = 0 \<Longrightarrow> sendable p \<and> tx s' = tx s @ wire e p"
    "ret \<noteq> 0 \<Longrightarrow> (\<exists>k. tx s' = tx s @ take k (wire e p))"
    "ret \<noteq> 0 \<Longrightarrow> sendable p \<Longrightarrow> Fail \<in> set (tx_io s)"
proof -
  have all: "sending s s' \<and> (ret = 0 \<longrightarrow> sendable p \<and> tx s' = tx s @ wire e p) \<and>
    (ret \<noteq> 0 \<longrightarrow> (\<exists>k. tx s' = tx s @ take k (wire e p)) \<and> (sendable p \<longrightarrow> Fail \<in> set (tx_io s)))"
  proof (cases "sendable p")
    case False
    with assms have "ret = - 1" "s' = s" by (simp_all add: send_packet_not_sendable)
    moreover have "tx s = tx s @ take 0 (wire e p)" by simp
    ultimately show ?thesis using False by (metis sending_refl zero_neq_neg_one)
  next
    case True
    let ?h = "encode_wire_header e (header p)"
    let ?b = "take (unat (payload_len (header p))) (the (payload p))"
    obtain r1 s1 where h: "protocol_send_header e (Some (header p)) s = (r1, s1)" by (metis prod.collapse)
    have le: "payload_len (header p) \<le> MAX_PACKET_PAYLOAD" using True by (simp add: sendable_def)
    note h' = send_header_spec [OF h le]
    have body: "?b = take (unat (payload_len (header p))) (case payload p of None \<Rightarrow> [] | Some bs \<Rightarrow> bs)"
      using True by (cases "payload_len (header p) = 0") (auto simp: sendable_def word_neq_0_conv)
    have prefix: "\<exists>k. tx s @ take j ?h = tx s @ take k (wire e p)" for j
      by (rule exI [of _ "min j (length ?h)"]) (simp add: wire_def min_def)
    have prefix2: "\<exists>k. tx s @ ?h @ take j ?b = tx s @ take k (wire e p)" for j
      by (rule exI [of _ "length ?h + j"]) (simp add: wire_def body)
    consider "r1 \<noteq> 0" | "r1 = 0" "payload_len (header p) = 0" | "r1 = 0" "payload_len (header p) > 0"
      by (metis word_gt_0)
    then show ?thesis
    proof cases
      case 1
      then have "ret = - 1" "s' = s1" using assms h True by (auto simp: protocol_send_packet_def sendable_def split: if_splits)
      with h'(1) h'(3) [OF 1] prefix True show ?thesis by auto
    next
      case 2
      then have "ret = 0" "s' = s1" using assms h True by (auto simp: protocol_send_packet_def sendable_def split: if_splits)
      with h'(1) h'(2) [OF 2(1)] True 2 show ?thesis by (simp add: wire_def)
    next
      case 3
      obtain r2 s2 where b: "send_n ?b s1 = (r2, s2)" by (metis prod.collapse)
      have r: "ret = (if r2 \<noteq> 0 then - 1 else 0)" "s' = s2"
        using assms h b 3 True by (auto simp: protocol_send_packet_def sendable_def Let_def split: if_splits)
      have "sending s s'" using h'(1) send_n_sending [OF b] r(2) sending_trans by blast
      moreover have "ret = 0 \<Longrightarrow> tx s' = tx s @ wire e p"
        using b r h'(2) [OF 3(1)] by (auto elim!: send_n_spec simp: wire_def body split: if_splits)
      moreover have "ret \<noteq> 0 \<Longrightarrow> \<exists>k. tx s' = tx s @ take k (wire e p)"
        using b r h'(2) [OF 3(1)] prefix2 by (auto elim!: send_n_spec split: if_splits)
      moreover have "ret \<noteq> 0 \<Longrightarrow> Fail \<in> set (tx_io s)"
        using b r sendingD(3) [OF h'(1)] by (auto elim!: send_n_spec split: if_splits)
      ultimately show ?thesis using True by blast
    qed
  qed
  then show "sending s s'" "ret = 0 \<Longrightarrow> sendable p \<and> tx s' = tx s @ wire e p"
    "ret \<noteq> 0 \<Longrightarrow> (\<exists>k. tx s' = tx s @ take k (wire e p))" "ret \<noteq> 0 \<Longrightarrow> sendable p \<Longrightarrow> Fail \<in> set (tx_io s)"
    by blast+
qed

subsection \<open>Receiving\<close>

definition receiving :: "sock \<Rightarrow> sock \<Rightarrow> bool" where
  "receiving s s' \<longleftrightarrow> tx s' = tx s \<and> tx_io s' = tx_io s \<and> set (rx_io s') \<subseteq> set (rx_io s) \<and> (\<exists>bs. rx s = bs @ rx s')"

lemma receiving_refl [simp]: "receiving s s"
  by (simp add: receiving_def)

lemma receiving_trans [trans]: "receiving s s' \<Longrightarrow> receiving s' s'' \<Longrightarrow> receiving s s''"
  by (force simp: receiving_def)

lemma receivingD:
  assumes "receiving s s'"
  shows "tx s' = tx s" "tx_io s' = tx_io s" "set (rx_io s') \<subseteq> set (rx_io s)"
    "no_fail (tx_io s) \<Longrightarrow> no_fail (tx_io s')" "no_fail (rx_io s) \<Longrightarrow> no_fail (rx_io s')"
  using assms by (auto simp: receiving_def)

lemma recv_n_receiving:
  assumes "recv_n n s = (ret, bs, s')"
  shows "receiving s s'"
  using recv_n_spec [OF assms] unfolding receiving_def by metis

lemma recv_packet_receiving:
  assumes "protocol_recv_packet e malloc_ok s = (ret, p, s')"
  shows "receiving s s'"
proof -
  obtain r w s1 where hd: "recv_n TLV_WIRE_HEADER_SIZE s = (r, w, s1)" using prod_cases3 by blast
  have one: "receiving s s1" by (rule recv_n_receiving [OF hd])
  let ?n = "unat (read_net_u32 e WIRE_PAYLOAD_LEN_OFFSET w)"
  obtain r2 b s2 where bd: "recv_n ?n s1 = (r2, b, s2)" using prod_cases3 by blast
  have "s' = s1 \<or> s' = s2"
    using assms hd bd by (auto simp: protocol_recv_packet_def Let_def split: if_splits)
  then show ?thesis using one recv_n_receiving [OF bd] receiving_trans by blast
qed

text \<open>A packet made of fields: well formed when its session ID and payload have their lengths.\<close>

definition mk_packet :: "u32 \<Rightarrow> u32 \<Rightarrow> session_id_t \<Rightarrow> byte list \<Rightarrow> packet_t" where
  "mk_packet type st key bs =
     \<lparr>header = \<lparr>ptype = type, status = st, payload_len = word_of_nat (length bs), session_id = key\<rparr>,
      payload = (if bs = [] then None else Some bs), owns_payload = False\<rparr>"

lemma wf_mk_packet:
  assumes "wf_session_id key" "length bs \<le> 65536"
  shows "wf_packet (mk_packet type st key bs)"
proof -
  have u: "unat (word_of_nat (length bs) :: u32) = length bs" using assms(2) by (simp add: unat_of_nat)
  then have "word_of_nat (length bs) \<le> MAX_PACKET_PAYLOAD"
    using assms(2) by (simp add: word_le_nat_alt MAX_PACKET_PAYLOAD_def)
  moreover have "(word_of_nat (length bs) :: u32) = 0 \<longleftrightarrow> bs = []" using u by (metis length_0_conv unat_0 unat_eq_zero)
  ultimately show ?thesis using assms(1) u by (auto simp: wf_packet_def mk_packet_def)
qed

text \<open>\<open>packet_init\<close> for a payload of its length makes that packet.\<close>

lemma packet_init_mk_packet:
  assumes "length bs \<le> 65536"
  shows "packet_init (Some zero_packet) type st (Some key) (if bs = [] then None else Some bs) (word_of_nat (length bs)) =
    (0, Some (mk_packet type st key bs))"
proof -
  have u: "unat (word_of_nat (length bs) :: u32) = length bs" using assms by (simp add: unat_of_nat)
  then have "\<not> word_of_nat (length bs) > MAX_PACKET_PAYLOAD"
    using assms by (simp add: word_less_nat_alt MAX_PACKET_PAYLOAD_def)
  then show ?thesis by (auto simp: packet_init_def mk_packet_def)
qed

lemma frame_mk_packet:
  "frame (mk_packet type st key bs) =
     be_bytes32 TLV_MAGIC @ be_bytes32 TLV_VERSION @ be_bytes32 type @ be_bytes32 st @ be_bytes32 (word_of_nat (length bs)) @ key @ bs"
  by (simp add: frame_def mk_packet_def)

lemma length_frame: "wf_packet p \<Longrightarrow> 36 \<le> length (frame p)"
  by (simp add: frame_def wf_packet_def wf_session_id_def SESSION_ID_SIZE_def)

text \<open>A stream is read as packets in one way only.\<close>

lemma frame_unique:
  assumes "wf_packet p" "wf_packet q" "frame p @ r = frame q @ r'"
  shows "header p = header q \<and> payload p = payload q \<and> r = r'"
proof -
  let ?s = "\<lparr>rx = frame p @ r, tx = [], rx_io = [], tx_io = []\<rparr>"
  obtain i where "protocol_recv_packet Little True ?s = (0, p\<lparr>owns_payload := payload_len (header p) \<noteq> 0\<rparr>, ?s\<lparr>rx := r, rx_io := i\<rparr>)"
    using protocol_recv_packet_frame [OF assms(1), of ?s r Little] by auto
  moreover obtain j where "protocol_recv_packet Little True ?s = (0, q\<lparr>owns_payload := payload_len (header q) \<noteq> 0\<rparr>, ?s\<lparr>rx := r', rx_io := j\<rparr>)"
    using protocol_recv_packet_frame [OF assms(2), of ?s r' Little] assms(3) by auto
  ultimately have "p\<lparr>owns_payload := payload_len (header p) \<noteq> 0\<rparr> = q\<lparr>owns_payload := payload_len (header q) \<noteq> 0\<rparr>"
    "?s\<lparr>rx := r, rx_io := i\<rparr> = ?s\<lparr>rx := r', rx_io := j\<rparr>" by simp_all
  then show ?thesis by (cases p; cases q) simp
qed

end
