(* ===== verification/Handler_Transfer.thy ===== *)
theory Handler_Transfer
  imports Handler_Basic Payloads Wire
begin

text \<open>
  The upload and download handlers of \<open>src/server/handler_transfer.c\<close>. A worker owns the connection for the
  whole transfer. Every call of the operating system that the handlers check takes its answer from the
  kernel's lists. \<open>sha256\<close> is the hash function of the crypto library.

  The handlers are cut at the steps of the comments in the source: a step returns \<open>Inl\<close> of the state in
  which the handler has returned, or \<open>Inr\<close> of what the next step needs.
\<close>

subsection \<open>Tasks and packets\<close>

record transfer_task_t =
  x_fd :: int
  x_packet :: packet_t
  x_session :: session_context_t
  x_storage_root :: string
  x_temp_dir :: string

abbreviation "x_header task \<equiv> header (x_packet task)"

text \<open>The next answer of the kernel.\<close>

definition sys :: "'w server_t \<Rightarrow> bool \<times> 'w server_t" where
  "sys s = (let (ok, k) = sys_ok (s_kern s) in (ok, s\<lparr>s_kern := k\<rparr>))"

definition send_transfer_packet ::
  "endian \<Rightarrow> transfer_task_t \<Rightarrow> u32 \<Rightarrow> u32 \<Rightarrow> byte list option \<Rightarrow> u32 \<Rightarrow> 'w server_t \<Rightarrow> int \<times> 'w server_t" where
  "send_transfer_packet e task type st pl plen s =
     (let (ret, packet) = packet_init (Some zero_packet) type st (Some (session_id (x_header task))) pl plen
      in if ret \<noteq> 0 then (- 1, s)
         else (let (ret, sock) = protocol_send_packet e packet (s_socks s (x_fd task))
               in (ret, s\<lparr>s_socks := (s_socks s)(x_fd task := sock)\<rparr>)))"

text \<open>An error or an acknowledgement without payload whose result is ignored.\<close>

definition answer :: "endian \<Rightarrow> transfer_task_t \<Rightarrow> u32 \<Rightarrow> u32 \<Rightarrow> 'w server_t \<Rightarrow> 'w server_t" where
  "answer e task type st s = snd (send_transfer_packet e task type st None 0 s)"

definition recv_transfer_packet :: "endian \<Rightarrow> transfer_task_t \<Rightarrow> 'w server_t \<Rightarrow> int \<times> packet_t \<times> 'w server_t" where
  "recv_transfer_packet e task s =
     (let (malloc_ok, s1) = sys s;
          (ret, packet, sock) = protocol_recv_packet e malloc_ok (s_socks s1 (x_fd task));
          s2 = s1\<lparr>s_socks := (s_socks s1)(x_fd task := sock)\<rparr>
      in if ret \<noteq> 0 then (- 1, packet, s2)
         else if \<not> session_id_equal (Some (session_id (header packet))) (Some (session_id (x_header task)))
         then (- 1, zero_packet, answer e task CMD_ERROR STATUS_UNAUTHORIZED s2)
         else (0, packet, s2))"

lemma recv_transfer_packet_ok:
  assumes "recv_transfer_packet e task s = (0, p, s')"
  shows "wf_packet p" "rx (s_socks s (x_fd task)) = frame p @ rx (s_socks s' (x_fd task))"
    "session_id (header p) = take SESSION_ID_SIZE (session_id (x_header task))"
proof -
  obtain ok s1 where s1: "sys s = (ok, s1)" by (metis prod.collapse)
  have socks: "s_socks s1 = s_socks s" using s1 by (auto simp: sys_def split: prod.splits)
  obtain ret q sock where q: "protocol_recv_packet e ok (s_socks s1 (x_fd task)) = (ret, q, sock)" by (metis prod_cases3)
  have r: "ret = 0" "p = q" "s' = s1\<lparr>s_socks := (s_socks s1)(x_fd task := sock)\<rparr>"
    "session_id_equal (Some (session_id (header p))) (Some (session_id (x_header task)))"
    using assms s1 q by (auto simp: recv_transfer_packet_def Let_def split: if_splits)
  note acc = protocol_recv_packet_accepts [OF q [unfolded r(1)]]
  show "wf_packet p" "rx (s_socks s (x_fd task)) = frame p @ rx (s_socks s' (x_fd task))" using acc r socks by auto
  show "session_id (header p) = take SESSION_ID_SIZE (session_id (x_header task))"
    using r(4) acc r(2) by (simp add: session_id_equal_def wf_packet_def wf_session_id_def)
qed

subsection \<open>Upload: the request\<close>

text \<open>Step 1: the fields of the request, or the status of the error that is sent.\<close>

definition puts_request :: "endian \<Rightarrow> transfer_task_t \<Rightarrow> u32 + string \<times> u64 \<times> string" where
  "puts_request e task =
     (case payload (x_packet task) of
        None \<Rightarrow> Inl STATUS_PROTOCOL_ERROR
      | Some bs \<Rightarrow>
          if unat (payload_len (x_header task)) \<noteq> UPLOAD_REQUEST_SIZE then Inl STATUS_PROTOCOL_ERROR
          else
            (let request = load_upload_request e bs
             in if 0 \<notin> set (ur_remote_path request) \<or> 0 \<notin> set (ur_sha256_hex request) \<or>
                   cchar (cstr_of (ur_remote_path request)) 0 \<noteq> CHR ''/'' \<or>
                   \<not> utils_is_valid_sha256_hex (Some (cstr_of (ur_sha256_hex request)))
                then Inl STATUS_BAD_REQUEST
                else Inr (cstr_of (ur_remote_path request), net_to_host_u64 e (ur_file_size request), cstr_of (ur_sha256_hex request))))"

text \<open>Step 2: target path, parent and file name; the inner \<open>None\<close> is a bad request.\<close>

definition puts_target :: "string \<Rightarrow> (string \<times> string \<times> string) option option" where
  "puts_target remote_path = do {
     (ret, out) \<leftarrow> normalize_cd_path (Some ''/'') (Some remote_path) (Some []) PATH_MAX;
     if ret \<noteq> 0 then Some None
     else do {
       target_path \<leftarrow> out;
       if target_path = ''/'' then Some None
       else do {
         base \<leftarrow> strrchr target_path CHR ''/'';
         let file_name = drop (Suc base) target_path;
         if length file_name = 0 \<or> length file_name \<ge> NAME_MAX then Some None
         else Some (Some (target_path, if base = 0 then ''/'' else take base target_path, file_name)) } } }"

text \<open>Steps 3 and 4: the parent must be a directory of the user and the target must not exist.\<close>

definition puts_place ::
  "'w mysql \<Rightarrow> endian \<Rightarrow> transfer_task_t \<Rightarrow> string \<Rightarrow> string \<Rightarrow> 'w server_t \<Rightarrow> ('w server_t + u64 \<times> 'w server_t) option" where
  "puts_place M e task target_path parent_path s = do {
     (parent_ret, pid, pool, w) \<leftarrow> dao_path_get_node_id M (ctx_user_id (x_session task)) parent_path (s_pool s) (s_world s);
     let s = s\<lparr>s_pool := pool, s_world := w\<rparr>;
     if parent_ret = DAO_PATH_NOT_FOUND \<or> parent_ret = DAO_PATH_IS_FILE then Some (Inl (answer e task CMD_ERROR STATUS_BAD_REQUEST s))
     else if parent_ret \<noteq> DAO_PATH_IS_DIR then Some (Inl (answer e task CMD_ERROR STATUS_OTHER_ERROR s))
     else do {
       parent_id \<leftarrow> pid;
       (path_ret, _, pool, w) \<leftarrow> dao_path_get_node_id M (ctx_user_id (x_session task)) target_path (s_pool s) (s_world s);
       let s = s\<lparr>s_pool := pool, s_world := w\<rparr>;
       if path_ret = DAO_PATH_IS_DIR \<or> path_ret = DAO_PATH_IS_FILE then Some (Inl (answer e task CMD_ERROR STATUS_BAD_REQUEST s))
       else if path_ret \<noteq> DAO_PATH_NOT_FOUND then Some (Inl (answer e task CMD_ERROR STATUS_OTHER_ERROR s))
       else Some (Inr (parent_id, s)) } }"

text \<open>Step 6: instant upload of a file that is stored already.\<close>

definition puts_instant ::
  "'w mysql \<Rightarrow> endian \<Rightarrow> transfer_task_t \<Rightarrow> string \<Rightarrow> u64 \<Rightarrow> string \<Rightarrow> u64 \<Rightarrow> u64 \<Rightarrow> 'w server_t \<Rightarrow> 'w server_t option" where
  "puts_instant M e task target_path parent_id file_name file_id file_size s = do {
     (ret, pool, w) \<leftarrow> dao_link_existing_file M (ctx_user_id (x_session task)) target_path parent_id file_name file_id (s_pool s) (s_world s);
     let s = s\<lparr>s_pool := pool, s_world := w\<rparr>;
     if ret \<noteq> 0 then Some (answer e task CMD_ERROR STATUS_OTHER_ERROR s)
     else do {
       let (ret, sock) = send_puts_resume e (Some (session_id (x_header task))) file_size (s_socks s (x_fd task));
       let s = s\<lparr>s_socks := (s_socks s)(x_fd task := sock)\<rparr>;
       if ret \<noteq> 0 then Some s else Some (answer e task CMD_ACK STATUS_OK s) } }"

subsection \<open>Upload: the data\<close>

text \<open>Step 7: the partial file and the position from which the client is to send.\<close>

definition puts_open ::
  "endian \<Rightarrow> transfer_task_t \<Rightarrow> string \<Rightarrow> u64 \<Rightarrow> 'w server_t \<Rightarrow> 'w server_t + file_t \<times> u64 \<times> 'w server_t" where
  "puts_open e task part_path file_size s =
     (let (fd, k) = open_create part_path (s_kern s); s = s\<lparr>s_kern := k\<rparr>
      in case fd of
           None \<Rightarrow> Inl (answer e task CMD_ERROR STATUS_IO_ERROR s)
         | Some f \<Rightarrow>
             (let (fstat_ok, s) = sys s
              in if \<not> fstat_ok then Inl (answer e task CMD_ERROR STATUS_IO_ERROR s)
                 else
                   (let offset = word_of_nat (length (file_data (s_kern s) part_path));
                        (cut, k) = (if offset > file_size then ftruncate f 0 (s_kern s) else (True, s_kern s));
                        s = s\<lparr>s_kern := k\<rparr>
                    in if \<not> cut then Inl (answer e task CMD_ERROR STATUS_IO_ERROR s)
                       else
                         (let offset = (if offset > file_size then 0 else offset);
                              (ret, sock) = send_puts_resume e (Some (session_id (x_header task))) offset (s_socks s (x_fd task));
                              s = s\<lparr>s_socks := (s_socks s)(x_fd task := sock)\<rparr>
                          in if ret \<noteq> 0 then Inl s else Inr (f, offset, s)))))"

text \<open>The loop that receives the missing bytes: how many came, and whether \<open>CMD_FILE_END\<close> came early.\<close>

function puts_receive ::
  "endian \<Rightarrow> transfer_task_t \<Rightarrow> u64 \<Rightarrow> u64 \<Rightarrow> file_t \<Rightarrow> 'w server_t \<Rightarrow> 'w server_t + u64 \<times> bool \<times> file_t \<times> 'w server_t" where
  "puts_receive e task expected received f s =
     (if \<not> received < expected then Inr (received, False, f, s)
      else
        (case recv_transfer_packet e task s of (ret, packet, s1) \<Rightarrow>
           if ret \<noteq> 0 then Inl s1
           else if ptype (header packet) = CMD_FILE_END then Inr (received, True, f, s1)
           else if ptype (header packet) \<noteq> CMD_FILE_DATA \<or> payload_len (header packet) = 0 \<or>
                   payload_len (header packet) > FILE_CHUNK_SIZE \<or> ucast (payload_len (header packet)) > expected - received
           then Inl (answer e task CMD_ERROR STATUS_PROTOCOL_ERROR s1)
           else
             (case write_n f (case payload packet of Some bs \<Rightarrow> take (unat (payload_len (header packet))) bs | None \<Rightarrow> []) (s_kern s1) of
                (ret, f1, k) \<Rightarrow>
                  if ret \<noteq> 0 then Inl (answer e task CMD_ERROR STATUS_IO_ERROR (s1\<lparr>s_kern := k\<rparr>))
                  else puts_receive e task expected (received + ucast (payload_len (header packet))) f1 (s1\<lparr>s_kern := k\<rparr>))))"
  by pat_completeness auto

text \<open>Every packet that keeps the loop going takes its frame from the stream.\<close>

termination
proof (relation "measure (\<lambda>(e, task, expected, received, f, s). length (rx (s_socks s (x_fd task))))", simp, clarsimp)
  fix e :: endian and task and s s1 :: "'w server_t" and packet ka
  assume r: "(0, packet, s1) = recv_transfer_packet e task s"
  note ok = recv_transfer_packet_ok [OF r [symmetric]]
  show "length (rx (s_socks s1 (x_fd task))) < length (rx (s_socks s (x_fd task)))"
    using length_frame [OF ok(1)] ok(2) by auto
qed

declare puts_receive.simps [simp del]

text \<open>The whole of the receiving step, with the closing \<open>CMD_FILE_END\<close>.\<close>

definition puts_data ::
  "endian \<Rightarrow> transfer_task_t \<Rightarrow> u64 \<Rightarrow> u64 \<Rightarrow> file_t \<Rightarrow> 'w server_t \<Rightarrow> 'w server_t + file_t \<times> 'w server_t" where
  "puts_data e task file_size offset f s =
     (if \<not> offset < file_size then Inr (f, s)
      else
        (let (sought, k) = lseek f (unat offset) (s_kern s); s = s\<lparr>s_kern := k\<rparr>
         in case sought of
              None \<Rightarrow> Inl (answer e task CMD_ERROR STATUS_IO_ERROR s)
            | Some f \<Rightarrow>
                (case puts_receive e task (file_size - offset) 0 f s of
                   Inl s \<Rightarrow> Inl s
                 | Inr (received, got_file_end, f, s) \<Rightarrow>
                     if received \<noteq> file_size - offset then Inl (answer e task CMD_ERROR STATUS_PROTOCOL_ERROR s)
                     else if got_file_end then Inr (f, s)
                     else
                       (case recv_transfer_packet e task s of (ret, packet, s) \<Rightarrow>
                          if ret \<noteq> 0 then Inl s
                          else if ptype (header packet) \<noteq> CMD_FILE_END then Inl (answer e task CMD_ERROR STATUS_PROTOCOL_ERROR s)
                          else Inr (f, s)))))"

text \<open>Step 8: flush, rewind and hash; a wrong hash removes the partial file.\<close>

definition puts_verify ::
  "(byte list \<Rightarrow> byte list) \<Rightarrow> endian \<Rightarrow> transfer_task_t \<Rightarrow> string \<Rightarrow> string \<Rightarrow> file_t \<Rightarrow> 'w server_t \<Rightarrow> 'w server_t + 'w server_t" where
  "puts_verify sha256 e task part_path sha256_hex f s =
     (let (fsync_ok, s) = sys s
      in if \<not> fsync_ok then Inl (answer e task CMD_ERROR STATUS_IO_ERROR s)
         else
           (let (sought, k) = lseek f 0 (s_kern s); s = s\<lparr>s_kern := k\<rparr>
            in case sought of
                 None \<Rightarrow> Inl (answer e task CMD_ERROR STATUS_IO_ERROR s)
               | Some f \<Rightarrow>
                   (let (evp_ok, s) = sys s;
                        (ret, actual, k) = utils_get_file_sha256 sha256 evp_ok (Some f) 65 (s_kern s);
                        s = s\<lparr>s_kern := k\<rparr>
                    in if ret \<noteq> 0 then Inl (answer e task CMD_ERROR STATUS_IO_ERROR s)
                       else if actual \<noteq> Some sha256_hex
                       then (let (_, k) = unlink part_path (s_kern s)
                             in Inl (answer e task CMD_ERROR STATUS_BAD_REQUEST (s\<lparr>s_kern := k\<rparr>)))
                       else Inr s)))"

text \<open>Step 9: the verified file gets its final name, then the rows are made.\<close>

definition puts_rename ::
  "endian \<Rightarrow> transfer_task_t \<Rightarrow> string \<Rightarrow> string \<Rightarrow> 'w server_t \<Rightarrow> 'w server_t + 'w server_t" where
  "puts_rename e task part_path final_path s =
     (let (ok, k) = rename_file part_path final_path (s_kern s); s = s\<lparr>s_kern := k\<rparr>
      in if ok then Inr s
         else
           (let (eexist, k) = path_exists final_path (s_kern s);
                (there, k) = (if eexist then (True, k) else path_exists final_path k);
                s = s\<lparr>s_kern := k\<rparr>
            in if there then (let (_, k) = unlink part_path (s_kern s) in Inr (s\<lparr>s_kern := k\<rparr>))
               else Inl (answer e task CMD_ERROR STATUS_IO_ERROR s)))"

definition puts_publish ::
  "'w mysql \<Rightarrow> endian \<Rightarrow> transfer_task_t \<Rightarrow> string \<Rightarrow> u64 \<Rightarrow> string \<Rightarrow> string \<Rightarrow> u64 \<Rightarrow> 'w server_t \<Rightarrow> 'w server_t option" where
  "puts_publish M e task target_path parent_id file_name sha256_hex file_size s = do {
     (ret, pool, w) \<leftarrow> dao_create_file_with_path M (ctx_user_id (x_session task)) target_path parent_id file_name sha256_hex file_size
       (s_pool s) (s_world s);
     let s = s\<lparr>s_pool := pool, s_world := w\<rparr>;
     if ret \<noteq> 0 then Some (answer e task CMD_ERROR STATUS_OTHER_ERROR s)
     else Some (answer e task CMD_ACK STATUS_OK s) }"

text \<open>Steps 7 to 10, for a file that is not stored yet.\<close>

definition puts_upload ::
  "'w mysql \<Rightarrow> (byte list \<Rightarrow> byte list) \<Rightarrow> endian \<Rightarrow> transfer_task_t \<Rightarrow> string \<Rightarrow> u64 \<Rightarrow> string \<Rightarrow> string \<Rightarrow> u64 \<Rightarrow>
    'w server_t \<Rightarrow> 'w server_t option" where
  "puts_upload M sha256 e task target_path parent_id file_name sha256_hex file_size s =
     (let (part_path, n) = snprintf PATH_MAX (x_temp_dir task @ ''/'' @ sha256_hex @ ''.part'');
          (final_path, m) = snprintf PATH_MAX (x_storage_root task @ ''/'' @ sha256_hex)
      in if n \<ge> PATH_MAX \<or> m \<ge> PATH_MAX then Some (answer e task CMD_ERROR STATUS_BAD_REQUEST s)
         else
           (case puts_open e task part_path file_size s of
              Inl s \<Rightarrow> Some s
            | Inr (f, offset, s) \<Rightarrow>
           (case puts_data e task file_size offset f s of
              Inl s \<Rightarrow> Some s
            | Inr (f, s) \<Rightarrow>
           (case puts_verify sha256 e task part_path sha256_hex f s of
              Inl s \<Rightarrow> Some s
            | Inr s \<Rightarrow>
           (case puts_rename e task part_path final_path s of
              Inl s \<Rightarrow> Some s
            | Inr s \<Rightarrow> puts_publish M e task target_path parent_id file_name sha256_hex file_size s)))))"

definition handle_puts ::
  "'w mysql \<Rightarrow> (byte list \<Rightarrow> byte list) \<Rightarrow> endian \<Rightarrow> transfer_task_t \<Rightarrow> 'w server_t \<Rightarrow> 'w server_t option" where
  "handle_puts M sha256 e task s =
     (case puts_request e task of
        Inl st \<Rightarrow> Some (answer e task CMD_ERROR st s)
      | Inr (remote_path, file_size, sha256_hex) \<Rightarrow> do {
          target \<leftarrow> puts_target remote_path;
          (case target of
             None \<Rightarrow> Some (answer e task CMD_ERROR STATUS_BAD_REQUEST s)
           | Some (target_path, parent_path, file_name) \<Rightarrow> do {
               place \<leftarrow> puts_place M e task target_path parent_path s;
               (case place of
                  Inl s \<Rightarrow> Some s
                | Inr (parent_id, s) \<Rightarrow> do {
                    (file_ret, fid, pool, w) \<leftarrow> dao_file_find_by_hash M sha256_hex file_size (s_pool s) (s_world s);
                    let s = s\<lparr>s_pool := pool, s_world := w\<rparr>;
                    if file_ret < 0 then Some (answer e task CMD_ERROR STATUS_OTHER_ERROR s)
                    else if file_ret = 1 then do {
                      file_id \<leftarrow> fid;
                      puts_instant M e task target_path parent_id file_name file_id file_size s }
                    else puts_upload M sha256 e task target_path parent_id file_name sha256_hex file_size s }) }) })"

subsection \<open>Download\<close>

text \<open>
  The loop of \<open>sendfile_exact\<close>: \<open>d\<close> are the bytes of the file from the offset on, \<open>sent\<close> how many have gone.
  A call at the end of the file transfers nothing and ends the loop with -1.
\<close>

primrec sendfile_loop :: "io list \<Rightarrow> byte list \<Rightarrow> nat \<Rightarrow> nat \<Rightarrow> byte list \<Rightarrow> int \<times> io list \<times> nat \<times> byte list" where
  "sendfile_loop [] d remaining sent out =
     (if remaining \<le> length d - sent then (0, [], sent + remaining, out @ take remaining (drop sent d))
      else (- 1, [], sent + (length d - sent), out @ drop sent d))"
| "sendfile_loop (a # as) d remaining sent out =
     (if remaining = 0 then (0, a # as, sent, out)
      else (case a of
              Fail \<Rightarrow> (- 1, as, sent, out)
            | Eintr \<Rightarrow> sendfile_loop as d remaining sent out
            | Chunk n \<Rightarrow>
                (let k = min (Suc n) (min remaining (length d - sent))
                 in if k = 0 then (- 1, as, sent, out)
                    else sendfile_loop as d (remaining - k) (sent + k) (out @ take k (drop sent d)))))"

definition sendfile_exact :: "byte list \<Rightarrow> nat \<Rightarrow> nat \<Rightarrow> sock \<Rightarrow> int \<times> nat \<times> sock" where
  "sendfile_exact d offset n s =
     (let (ret, ios, sent, out) = sendfile_loop (tx_io s) (drop offset d) n 0 (tx s)
      in (ret, offset + sent, s\<lparr>tx := out, tx_io := ios\<rparr>))"

text \<open>Step 6: headers and chunks until nothing remains; \<open>False\<close> is an early return.\<close>

function gets_send :: "endian \<Rightarrow> session_id_t \<Rightarrow> byte list \<Rightarrow> nat \<Rightarrow> nat \<Rightarrow> sock \<Rightarrow> bool \<times> sock" where
  "gets_send e key d offset remaining s =
     (if remaining = 0 then (True, s)
      else
        (let chunk = min remaining (unat FILE_CHUNK_SIZE);
             (ret, s) = protocol_send_header e (Some \<lparr>ptype = CMD_FILE_DATA, status = STATUS_OK, payload_len = word_of_nat chunk, session_id = key\<rparr>) s
         in if ret \<noteq> 0 then (False, s)
            else
              (let (ret, offset, s) = sendfile_exact d offset chunk s
               in if ret \<noteq> 0 then (False, s) else gets_send e key d offset (remaining - chunk) s)))"
  by pat_completeness auto
termination
  by (relation "measure (\<lambda>(e, key, d, offset, remaining, s). remaining)") (auto simp: FILE_CHUNK_SIZE_def)

declare gets_send.simps [simp del]

text \<open>The metadata packet of step 4.\<close>

definition gets_info :: "endian \<Rightarrow> file_meta_t \<Rightarrow> byte list" where
  "gets_info e meta = store_file_info e
     \<lparr>fi_file_name = char_array NAME_MAX (fm_file_name meta), fi_file_size = host_to_net_u64 e (fm_size meta),
      fi_sha256_hex = char_array 65 (fm_sha256_hex meta)\<rparr>"

text \<open>Steps 5 to 7, from the client's resume position on.\<close>

definition gets_stream :: "endian \<Rightarrow> transfer_task_t \<Rightarrow> string \<Rightarrow> 'w server_t \<Rightarrow> 'w server_t" where
  "gets_stream e task physical_path s =
     (case recv_transfer_packet e task s of (ret, packet, s) \<Rightarrow>
        if ret \<noteq> 0 then s
        else if ptype (header packet) \<noteq> CMD_RESUME_POS \<or> payload packet = None \<or> unat (payload_len (header packet)) \<noteq> RESUME_SIZE
        then answer e task CMD_ERROR STATUS_PROTOCOL_ERROR s
        else
          (let resume = load_resume e (the (payload packet));
               (fd, k) = open_read physical_path (s_kern s); s = s\<lparr>s_kern := k\<rparr>
           in case fd of
                None \<Rightarrow> s
              | Some f \<Rightarrow>
                  (let (fstat_ok, s) = sys s; d = file_data (s_kern s) physical_path; start_offset = net_to_host_u64 e (rp_offset resume)
                   in if \<not> fstat_ok then s
                      else if start_offset > word_of_nat (length d) then s
                      else
                        (let (ok, sock) = gets_send e (session_id (x_header task)) d (unat start_offset) (length d - unat start_offset)
                               (s_socks s (x_fd task));
                             s = s\<lparr>s_socks := (s_socks s)(x_fd task := sock)\<rparr>
                         in if \<not> ok then s
                            else
                              (let (ret, s) = send_transfer_packet e task CMD_FILE_END STATUS_OK None 0 s
                               in if ret \<noteq> 0 then s else (case recv_transfer_packet e task s of (_, _, s) \<Rightarrow> s))))))"

text \<open>
  \<open>file_meta\<close> is not initialised: \<open>stale\<close> is what follows the 64 characters of the hash in its memory, as for
  \<open>dao_get_file_meta\<close>.
\<close>

definition handle_gets ::
  "'w mysql \<Rightarrow> endian \<Rightarrow> string \<Rightarrow> transfer_task_t \<Rightarrow> 'w server_t \<Rightarrow> 'w server_t option" where
  "handle_gets M e stale task s =
     (case payload (x_packet task) of
        None \<Rightarrow> Some (answer e task CMD_ERROR STATUS_BAD_REQUEST s)
      | Some bs \<Rightarrow>
          if payload_len (x_header task) = 0 \<or> unat (payload_len (x_header task)) \<ge> PATH_MAX
          then Some (answer e task CMD_ERROR STATUS_BAD_REQUEST s)
          else do {
            let req_path = cstr_of (take (unat (payload_len (x_header task))) bs);
            (ret, out) \<leftarrow> normalize_cd_path (Some (ctx_cwd (x_session task))) (Some req_path) (Some []) PATH_MAX;
            if ret \<noteq> 0 then Some (answer e task CMD_ERROR STATUS_BAD_REQUEST s)
            else do {
              target_path \<leftarrow> out;
              (ret, file_meta, pool, w) \<leftarrow> dao_get_file_meta M (ctx_user_id (x_session task)) target_path stale (s_pool s) (s_world s);
              let s = s\<lparr>s_pool := pool, s_world := w\<rparr>;
              if ret = DAO_NOT_FOUND then Some (answer e task CMD_ERROR STATUS_FILE_NOTEXIST s)
              else if ret = DAO_TYPE_MISMATCH then Some (answer e task CMD_ERROR STATUS_IS_DIR s)
              else if ret = DAO_DB_ERROR then Some (answer e task CMD_ERROR STATUS_DB_ERROR s)
              else do {
                meta \<leftarrow> file_meta;
                let physical_path = fst (snprintf (PATH_MAX + NAME_MAX + 1) (x_storage_root task @ ''/'' @ fm_sha256_hex meta));
                let (ret, s) = send_transfer_packet e task CMD_GETS_RESP STATUS_OK (Some (gets_info e meta)) (word_of_nat FILE_INFO_SIZE) s;
                if ret \<noteq> 0 then Some s else Some (gets_stream e task physical_path s) } } })"

subsection \<open>Dispatch\<close>

definition handle_transfer_task ::
  "'w mysql \<Rightarrow> (byte list \<Rightarrow> byte list) \<Rightarrow> endian \<Rightarrow> string \<Rightarrow> transfer_task_t \<Rightarrow> 'w server_t \<Rightarrow> 'w server_t option" where
  "handle_transfer_task M sha256 e stale task s = do {
     s \<leftarrow> (if ptype (x_header task) = CMD_PUTS_REQ then handle_puts M sha256 e task s
           else if ptype (x_header task) = CMD_GETS_REQ then handle_gets M e stale task s
           else Some (answer e task CMD_ERROR STATUS_PROTOCOL_ERROR s));
     tbl \<leftarrow> session_detach_fd (s_table s) (x_fd task);
     Some (s\<lparr>s_table := tbl, s_open := s_open s - {x_fd task}\<rparr>) }"

end
