(* ===== verification/Utils_Correct.thy ===== *)
theory Utils_Correct
  imports Utils
begin

text \<open>
  Correctness of the helpers: \<open>normalize_cd_path\<close> resolves a path as a walk through the directory
  tree and yields canonical paths only; line input reads whole lines; the write loop and the file
  hash do not depend on how the kernel splits the transfers.
\<close>

subsection \<open>Reference semantics of paths\<close>

primrec splits :: "string \<Rightarrow> string list" where
  "splits [] = [[]]"
| "splits (c # cs) = (if c = CHR ''/'' then [] # splits cs else (c # hd (splits cs)) # tl (splits cs))"

definition components :: "string \<Rightarrow> string list" where
  "components s = filter (\<lambda>t. t \<noteq> []) (splits s)"

text \<open>One step from the directory \<open>ds\<close>: \<open>.\<close> stays, \<open>..\<close> goes up (the root is its own parent).\<close>

definition walk :: "string \<Rightarrow> string list \<Rightarrow> string list" where
  "walk name ds = (if name = ''.'' then ds else if name = ''..'' then butlast ds else ds @ [name])"

definition path_of :: "string list \<Rightarrow> string" where
  "path_of ds = (if ds = [] then ''/'' else concat (map (\<lambda>d. CHR ''/'' # d) ds))"

definition dir_name :: "string \<Rightarrow> bool" where
  "dir_name d \<longleftrightarrow> d \<noteq> [] \<and> d \<noteq> ''.'' \<and> d \<noteq> ''..'' \<and> CHR ''/'' \<notin> set d"

definition canonical :: "string \<Rightarrow> bool" where
  "canonical p \<longleftrightarrow> (\<exists>ds. list_all dir_name ds \<and> p = path_of ds)"

text \<open>The path that \<open>cd_arg\<close> denotes in \<open>cwd\<close>, before it is resolved.\<close>

definition full_path :: "string \<Rightarrow> string \<Rightarrow> string" where
  "full_path cwd arg = (if take 1 arg = ''/'' then arg else if cwd = ''/'' then ''/'' @ arg else cwd @ ''/'' @ arg)"

definition resolve :: "string \<Rightarrow> string \<Rightarrow> string list" where
  "resolve cwd arg = fold walk (components (full_path cwd arg)) []"

lemma splits_nonempty [simp]: "splits s \<noteq> []"
  by (cases s) auto

lemma splits_first:
  "splits s = takeWhile (\<lambda>c. c \<noteq> CHR ''/'') s #
     (if CHR ''/'' \<in> set s then splits (drop 1 (dropWhile (\<lambda>c. c \<noteq> CHR ''/'') s)) else [])"
  by (induction s) auto

lemma components_skip: "components (CHR ''/'' # s) = components s"
  by (simp add: components_def)

lemma components_dropWhile: "components (dropWhile (\<lambda>c. c = CHR ''/'') s) = components s"
  by (induction s) (auto simp: components_skip)

lemma components_nil [simp]: "components [] = []"
  by (simp add: components_def)

lemma components_first:
  assumes "u \<noteq> []" "hd u \<noteq> CHR ''/''"
  shows "components u = takeWhile (\<lambda>c. c \<noteq> CHR ''/'') u # components (drop 1 (dropWhile (\<lambda>c. c \<noteq> CHR ''/'') u))"
proof -
  have ne: "takeWhile (\<lambda>c. c \<noteq> CHR ''/'') u \<noteq> []" using assms by (cases u) auto
  show ?thesis
  proof (cases "CHR ''/'' \<in> set u")
    case True
    then show ?thesis using splits_first [of u] ne by (simp add: components_def)
  next
    case False
    then have "dropWhile (\<lambda>c. c \<noteq> CHR ''/'') u = []" by (induction u) auto
    then have "components (drop 1 (dropWhile (\<lambda>c. c \<noteq> CHR ''/'') u)) = []" by (simp only: drop_Nil components_nil)
    then show ?thesis using splits_first [of u] ne False by (simp add: components_def [of u])
  qed
qed

lemma components_strtok:
  "components s = (case strtok_r CHR ''/'' s of None \<Rightarrow> [] | Some (t, rest) \<Rightarrow> t # components rest)"
proof -
  define u where "u = dropWhile (\<lambda>c. c = CHR ''/'') s"
  have u: "components s = components u" by (simp add: u_def components_dropWhile)
  show ?thesis
  proof (cases "u = []")
    case True
    then show ?thesis using u by (simp add: strtok_r_def u_def [symmetric])
  next
    case False
    then have "hd u \<noteq> CHR ''/''" unfolding u_def by (rule hd_dropWhile)
    then show ?thesis using u components_first [OF False] False by (simp add: strtok_r_def Let_def u_def [symmetric])
  qed
qed

lemma strtok_r_token:
  assumes "strtok_r d s = Some (t, rest)"
  shows "t \<noteq> []" "d \<notin> set t" "rest = [] \<or> length rest + 2 \<le> length s"
proof -
  define u where "u = dropWhile (\<lambda>c. c = d) s"
  define v where "v = dropWhile (\<lambda>c. c \<noteq> d) u"
  have s: "u \<noteq> []" "t = takeWhile (\<lambda>c. c \<noteq> d) u" "rest = drop 1 v"
    using assms by (auto simp: strtok_r_def Let_def u_def [symmetric] v_def [symmetric] split: if_splits)
  have "hd u \<noteq> d" using s(1) unfolding u_def by (rule hd_dropWhile)
  then show t: "t \<noteq> []" using s(1,2) by (cases u) auto
  show "d \<notin> set t" using s(2) by (auto dest: set_takeWhileD)
  have "length t + length v = length u"
    using s(2) v_def by (metis length_append takeWhile_dropWhile_id)
  moreover have "length u \<le> length s" unfolding u_def by (rule length_dropWhile_le)
  moreover have "0 < length t" using t by simp
  ultimately show "rest = [] \<or> length rest + 2 \<le> length s" using s(3) t by (cases v; cases t) auto
qed

lemma components_dir_names: "t \<in> set (components s) \<Longrightarrow> t \<noteq> [] \<and> CHR ''/'' \<notin> set t"
proof (induction s rule: length_induct)
  case (1 s)
  show ?case
  proof (cases "strtok_r CHR ''/'' s")
    case None
    then show ?thesis using "1.prems" components_strtok [of s] by simp
  next
    case (Some p)
    obtain u rest where u: "strtok_r CHR ''/'' s = Some (u, rest)" using Some by (cases p) auto
    have "t = u \<or> t \<in> set (components rest)" using "1.prems" components_strtok [of s] u by simp
    then show ?thesis using "1.IH" strtok_r_shorter [OF u] strtok_r_token(1,2) [OF u] by blast
  qed
qed

lemma walk_dir_name: "list_all dir_name ds \<Longrightarrow> t \<noteq> [] \<Longrightarrow> CHR ''/'' \<notin> set t \<Longrightarrow> list_all dir_name (walk t ds)"
  by (auto simp: walk_def dir_name_def list_all_iff dest: in_set_butlastD)

lemma fold_walk_dir_names:
  "list_all dir_name ds \<Longrightarrow> (\<And>t. t \<in> set ts \<Longrightarrow> t \<noteq> [] \<and> CHR ''/'' \<notin> set t) \<Longrightarrow> list_all dir_name (fold walk ts ds)"
  by (induction ts arbitrary: ds) (simp_all add: walk_dir_name)

lemma resolve_dir_names: "list_all dir_name (resolve cwd arg)"
  unfolding resolve_def by (rule fold_walk_dir_names) (use components_dir_names in auto)

subsection \<open>Normalization\<close>

text \<open>The array of path components never overflows.\<close>

lemma normalize_parts_spec:
  "length parts + (length s + 1) div 2 \<le> PATH_MAX div 2 \<Longrightarrow>
    normalize_parts parts s = Some (fold walk (components s) parts)"
proof (induction parts s rule: normalize_parts.induct)
  case (1 parts s)
  show ?case
  proof (cases "strtok_r CHR ''/'' s")
    case None
    then show ?thesis using components_strtok [of s] by (simp add: normalize_parts.simps)
  next
    case (Some p)
    obtain t rest where t: "strtok_r CHR ''/'' s = Some (t, rest)" using Some by (cases p) auto
    have comps: "components s = t # components rest" using components_strtok [of s] t by simp
    have s: "s \<noteq> []" using t by (auto simp: strtok_r_def)
    then have room: "length parts < PATH_MAX div 2" using "1.prems" by (cases s) auto
    have less: "Suc ((length rest + 1) div 2) \<le> (length s + 1) div 2"
      using strtok_r_token(3) [OF t] s by (cases s) auto
    have bounds: "length parts + (length rest + 1) div 2 \<le> PATH_MAX div 2"
      "length (butlast parts) + (length rest + 1) div 2 \<le> PATH_MAX div 2"
      "length (parts @ [t]) + (length rest + 1) div 2 \<le> PATH_MAX div 2"
      using less "1.prems" by auto
    show ?thesis
      using "1.IH"(1) [OF t refl _ bounds(1)] "1.IH"(2) [OF t refl _ _ bounds(2)] "1.IH"(3) [OF t refl _ _ _ bounds(3)] room
      by (simp add: normalize_parts.simps [of parts s] t comps walk_def)
  qed
qed

lemma normalize_build_spec:
  "normalize_build n out ps = (0, out @ concat (map (\<lambda>d. CHR ''/'' # d) ps)) \<and>
     (ps \<noteq> [] \<longrightarrow> length (out @ concat (map (\<lambda>d. CHR ''/'' # d) ps)) < n) \<or>
   fst (normalize_build n out ps) = - 1 \<and> n \<le> length (out @ concat (map (\<lambda>d. CHR ''/'' # d) ps))"
proof (induction ps arbitrary: out)
  case (Cons p ps)
  show ?case using Cons.IH [of "out @ ''/'' @ p"] by (cases "ps = []") auto
qed simp

lemma full_path_snprintf:
  "(if cchar a 0 = CHR ''/'' then snprintf n a
    else if c = ''/'' then snprintf n (''/'' @ a) else snprintf n (c @ ''/'' @ a)) = snprintf n (full_path c a)"
  by (cases a) (auto simp: full_path_def cchar_def NUL_def)

text \<open>What \<open>normalize_cd_path\<close> computes, for an output buffer of at least two bytes.\<close>

lemma normalize_result:
  assumes "2 \<le> n"
  shows "length (full_path c a) < PATH_MAX \<Longrightarrow> length (path_of (resolve c a)) < n \<Longrightarrow>
      normalize_cd_path (Some c) (Some a) (Some o1) n = Some (0, Some (path_of (resolve c a)))"
    and "\<not> (length (full_path c a) < PATH_MAX \<and> length (path_of (resolve c a)) < n) \<Longrightarrow>
      \<exists>o2. normalize_cd_path (Some c) (Some a) (Some o1) n = Some (- 1, Some o2)"
proof -
  let ?f = "full_path c a"
  have eq: "normalize_cd_path (Some c) (Some a) (Some o1) n =
      (if PATH_MAX \<le> length ?f then Some (- 1, Some o1)
       else do {
         parts \<leftarrow> normalize_parts [] (take (PATH_MAX - 1) ?f);
         if parts = [] then (if n < 2 then None else Some (0, Some ''/''))
         else (let (ret, res) = normalize_build n [] parts in Some (ret, Some res)) })"
    using assms full_path_snprintf [of a PATH_MAX c] by (simp add: normalize_cd_path_def snprintf_def)
  have parts: "normalize_parts [] (take (PATH_MAX - 1) ?f) = Some (resolve c a)" if "length ?f < PATH_MAX"
    using normalize_parts_spec [of "[]" ?f] that by (simp add: resolve_def)
  note build = normalize_build_spec [of n "[]" "resolve c a"]
  show "normalize_cd_path (Some c) (Some a) (Some o1) n = Some (0, Some (path_of (resolve c a)))"
    if "length ?f < PATH_MAX" "length (path_of (resolve c a)) < n"
    using that eq parts assms build by (auto simp: path_of_def split: if_splits)
  show "\<exists>o2. normalize_cd_path (Some c) (Some a) (Some o1) n = Some (- 1, Some o2)"
    if "\<not> (length ?f < PATH_MAX \<and> length (path_of (resolve c a)) < n)"
  proof (cases "PATH_MAX \<le> length ?f")
    case True
    then show ?thesis using eq by simp
  next
    case False
    then have long: "n \<le> length (path_of (resolve c a))" using that by simp
    then have ne: "resolve c a \<noteq> []" using assms by (auto simp: path_of_def)
    then have "fst (normalize_build n [] (resolve c a)) = - 1" using build long by (auto simp: path_of_def)
    then obtain res where "normalize_build n [] (resolve c a) = (- 1, res)" by (metis prod.collapse)
    then show ?thesis using eq parts False ne by simp
  qed
qed

lemma normalize_ok_iff:
  assumes "2 \<le> n" "normalize_cd_path (Some c) (Some a) (Some o1) n = Some (r, res)"
  shows "r = 0 \<longleftrightarrow> length (full_path c a) < PATH_MAX \<and> length (path_of (resolve c a)) < n"
    and "r = 0 \<Longrightarrow> res = Some (path_of (resolve c a))"
    and "r \<noteq> 0 \<Longrightarrow> r = - 1"
  using normalize_result [OF assms(1), of c a o1] assms(2) by fastforce+

text \<open>Canonical paths resolve to themselves.\<close>

lemma splits_append: "CHR ''/'' \<notin> set d \<Longrightarrow> splits (d @ CHR ''/'' # s) = d # splits s"
  by (induction d) auto

lemma splits_single: "CHR ''/'' \<notin> set d \<Longrightarrow> splits d = [d]"
  by (induction d) auto

lemma components_names:
  "list_all dir_name ds \<Longrightarrow> components (concat (map (\<lambda>d. CHR ''/'' # d) ds)) = ds"
proof (induction ds)
  case (Cons d ds)
  note IH = Cons.IH and prems = Cons.prems
  have d: "CHR ''/'' \<notin> set d" "d \<noteq> []" using prems by (auto simp: dir_name_def)
  show ?case
  proof (cases ds)
    case Nil
    then show ?thesis using d by (simp add: components_def splits_single)
  next
    case (Cons e es)
    have "components (concat (map (\<lambda>d. CHR ''/'' # d) (d # ds))) = components (d @ CHR ''/'' # e @ concat (map (\<lambda>d. CHR ''/'' # d) es))"
      using Cons by (simp add: components_skip)
    also have "\<dots> = d # components (e @ concat (map (\<lambda>d. CHR ''/'' # d) es))"
      using d by (simp add: components_def splits_append)
    also have "components (e @ concat (map (\<lambda>d. CHR ''/'' # d) es)) = ds"
      using IH prems Cons by (simp add: components_skip)
    finally show ?thesis .
  qed
qed simp

lemma fold_walk_names: "list_all dir_name ds \<Longrightarrow> fold walk ds es = es @ ds"
  by (induction ds arbitrary: es) (auto simp: walk_def dir_name_def)

lemma components_path_of: "list_all dir_name ds \<Longrightarrow> components (path_of ds) = ds"
  using components_names [of ds] by (cases "ds = []") (simp_all add: path_of_def components_skip)

lemma path_of_absolute: "take (Suc 0) (path_of ds) = ''/''"
  by (cases ds) (simp_all add: path_of_def)

lemma resolve_canonical: "list_all dir_name ds \<Longrightarrow> resolve c (path_of ds) = ds"
  by (simp add: resolve_def full_path_def path_of_absolute components_path_of fold_walk_names)

subsection \<open>Line input\<close>

lemma skip_line_eq: "skip_line s = drop 1 (dropWhile (\<lambda>c. c \<noteq> newline) s)"
  by (induction s) auto

lemma cstr_id: "NUL \<notin> set s \<Longrightarrow> cstr s = s"
  by (induction s) (auto simp: cstr_def)

lemma takeWhile_short: "length (takeWhile P s) < length s \<Longrightarrow> s = takeWhile P s @ drop (length (takeWhile P s)) s \<and> dropWhile P s \<noteq> []"
  by (metis append_take_drop_id append_Nil2 less_irrefl takeWhile_dropWhile_id takeWhile_eq_take)

lemma dropWhile_take:
  "\<forall>c \<in> set (take n s). P c \<Longrightarrow> dropWhile P (drop n s) = dropWhile P s"
  by (metis append_take_drop_id dropWhile_append2)

text \<open>Reading a line: the line without its newline, cut to the buffer, and the rest of the input after it.\<close>

lemma s_gets_line:
  assumes "1 < n" "NUL \<notin> set inp" "inp \<noteq> []"
  shows "s_gets n inp =
    (Some (take (nat n - 1) (takeWhile (\<lambda>c. c \<noteq> newline) inp)), drop 1 (dropWhile (\<lambda>c. c \<noteq> newline) inp))"
proof -
  define line where "line = takeWhile (\<lambda>c. c \<noteq> newline) inp"
  define rest where "rest = dropWhile (\<lambda>c. c \<noteq> newline) inp"
  define m where "m = nat n - 1"
  have m: "0 < m" using assms(1) by (simp add: m_def)
  have inp: "inp = line @ rest" by (simp add: line_def rest_def)
  have nl: "newline \<notin> set line" by (auto simp: line_def dest: set_takeWhileD)
  have rest_hd: "rest = [] \<or> rest = newline # drop 1 rest"
  proof (cases rest)
    case (Cons a list)
    then have "a = newline" using hd_dropWhile [of "\<lambda>c. c \<noteq> newline" inp] by (simp add: rest_def [symmetric])
    then show ?thesis using Cons by simp
  qed simp
  define got where "got = take m (if length line < length inp then line @ [newline] else line)"
  have fg: "fgets n inp = (Some got, drop (length got) inp)"
    using assms(1,3) by (simp add: fgets_def Let_def line_def got_def m_def)
  have sub: "set got \<subseteq> set inp"
    using rest_hd inp by (cases rest) (auto simp: got_def dest!: in_set_takeD)
  then have cs: "cstr got = got" using assms(2) by (intro cstr_id) blast
  show ?thesis
  proof (cases "length line < m \<and> rest \<noteq> []")
    case True
    then have "got = line @ [newline]" using inp by (auto simp: got_def Suc_le_eq)
    moreover have "takeWhile (\<lambda>c. c \<noteq> newline) (line @ [newline]) = line" using nl by (subst takeWhile_append2) auto
    moreover have "drop (Suc (length line)) inp = drop 1 rest" using inp by simp
    ultimately have "s_gets n inp = (Some line, drop 1 rest)" using fg cs by (simp add: s_gets_def)
    moreover have "take m line = line" using True by simp
    ultimately show ?thesis by (simp add: line_def rest_def m_def)
  next
    case False
    then have got: "got = take m line" using inp by (cases "rest = []") (auto simp: got_def)
    have "newline \<notin> set got" using got nl by (auto dest: in_set_takeD)
    moreover have "skip_line (drop (length got) inp) = drop 1 rest"
    proof -
      have "take (length got) inp = got" using got inp by (simp add: min_def)
      then have "\<forall>c \<in> set (take (length got) inp). c \<noteq> newline" using \<open>newline \<notin> set got\<close> by auto
      from dropWhile_take [OF this] show ?thesis by (simp add: skip_line_eq rest_def)
    qed
    ultimately have "s_gets n inp = (Some (take m line), drop 1 rest)" using fg cs got by (simp add: s_gets_def)
    then show ?thesis by (simp add: line_def rest_def m_def)
  qed
qed

subsection \<open>Files\<close>

text \<open>The write loop puts the whole buffer at the position, or a prefix of it when a call fails.\<close>

lemma write_n_loop_spec:
  assumes "write_n_loop ios buf tot pos d = (ret, ios', pos', d')" "pos \<le> length d"
  shows "set ios' \<subseteq> set ios \<and>
    (ret = 0 \<and> d' = put_bytes pos (drop tot buf) d \<and> pos' = pos + length (drop tot buf) \<or>
     ret = - 1 \<and> Fail \<in> set ios \<and> (\<exists>n. d' = put_bytes pos (take n (drop tot buf)) d))"
  using assms
proof (induction ios arbitrary: tot pos d)
  case Nil
  then show ?case by (auto split: if_splits)
next
  case (Cons s ss)
  show ?case
  proof (cases "tot < length buf")
    case False
    with Cons.prems show ?thesis by auto
  next
    case more: True
    show ?thesis
    proof (cases s)
      case (Chunk n)
      define w where "w = min (Suc n) (length buf - tot)"
      let ?d = "put_bytes pos (take w (drop tot buf)) d"
      have step: "write_n_loop ss buf (tot + w) (pos + w) ?d = (ret, ios', pos', d')"
        using Cons.prems more Chunk by (simp add: Let_def w_def)
      have w: "length (take w (drop tot buf)) = w" using w_def by simp
      have le: "pos + w \<le> length ?d" using Cons.prems(2) w by (simp add: put_bytes_def)
      have join: "put_bytes (pos + w) bs ?d = put_bytes pos (take w (drop tot buf) @ bs) d" for bs
        using put_bytes_append [of pos "take w (drop tot buf)" bs d] w by simp
      have split: "take w (drop tot buf) @ drop (tot + w) buf = drop tot buf"
        by (metis append_take_drop_id drop_drop add.commute)
      have part: "take w (drop tot buf) @ take k (drop (tot + w) buf) = take (w + k) (drop tot buf)" for k
        by (metis add.commute drop_drop take_add)
      from Cons.IH [OF step le] show ?thesis
      proof (elim conjE disjE exE, goal_cases)
        case 1
        moreover have "w \<le> length buf - tot" by (simp add: w_def)
        ultimately show ?thesis using join [of "drop (tot + w) buf"] split by auto
      next
        case (2 k)
        then show ?thesis using join [of "take k (drop (tot + w) buf)"] part [of k] by auto
      qed
    next
      case Eintr
      with Cons.prems more have "write_n_loop ss buf tot pos d = (ret, ios', pos', d')" by simp
      from Cons.IH [OF this Cons.prems(2)] show ?thesis by auto
    next
      case Fail
      with Cons.prems more have "ret = - 1" "d' = put_bytes pos (take 0 (drop tot buf)) d" "ios' = ss" by auto
      then show ?thesis using Fail by (auto intro!: exI [of _ 0])
    qed
  qed
qed

lemma write_n_spec:
  assumes "write_n f buf k = (ret, f', k')" "fpos f \<le> length (file_data k (fpath f))"
  shows "set (kio k') \<subseteq> set (kio k)" "kok k' = kok k" "fpath f' = fpath f"
    "ret = 0 \<or> ret = - 1" "ret = - 1 \<Longrightarrow> Fail \<in> set (kio k)"
    "\<exists>n. disk k' = (disk k)(fpath f \<mapsto> put_bytes (fpos f) (take n buf) (file_data k (fpath f)))"
    "ret = 0 \<Longrightarrow> fpos f' = fpos f + length buf \<and>
      disk k' = (disk k)(fpath f \<mapsto> put_bytes (fpos f) buf (file_data k (fpath f)))"
proof -
  obtain ios pos d where l: "write_n_loop (kio k) buf 0 (fpos f) (file_data k (fpath f)) = (ret, ios, pos, d)"
    and k': "k' = k\<lparr>disk := (disk k)(fpath f \<mapsto> d), kio := ios\<rparr>" and f': "f' = f\<lparr>fpos := pos\<rparr>"
    using assms(1) by (auto simp: write_n_def Let_def split: prod.splits)
  note sp = write_n_loop_spec [OF l assms(2)]
  have ex: "\<exists>n. d = put_bytes (fpos f) (take n buf) (file_data k (fpath f))"
    using sp by (metis drop0 take_all order_refl)
  then show "\<exists>n. disk k' = (disk k)(fpath f \<mapsto> put_bytes (fpos f) (take n buf) (file_data k (fpath f)))"
    using k' by auto
  show "set (kio k') \<subseteq> set (kio k)" "kok k' = kok k" "fpath f' = fpath f" "ret = 0 \<or> ret = - 1"
    "ret = - 1 \<Longrightarrow> Fail \<in> set (kio k)"
    "ret = 0 \<Longrightarrow> fpos f' = fpos f + length buf \<and>
      disk k' = (disk k)(fpath f \<mapsto> put_bytes (fpos f) buf (file_data k (fpath f)))"
    using sp k' f' by auto
qed

text \<open>Reading a file to its end, in whatever portions.\<close>

lemma read_all_spec:
  assumes "read_all f k acc = (res, f', k')"
  shows "disk k' = disk k \<and> kok k' = kok k \<and> set (kio k') \<subseteq> set (kio k) \<and>
    (res = None \<and> (Fail \<in> set (kio k) \<or> Eintr \<in> set (kio k)) \<or>
     res = Some (acc @ drop (fpos f) (file_data k (fpath f))))"
  using assms
proof (induction f k acc rule: read_all.induct)
  case (1 f k acc)
  obtain r f1 k1 where r: "read_file f 4096 k = (r, f1, k1)" by (metis prod_cases3)
  show ?case
  proof (cases r)
    case (Read_Bytes bs)
    note b = read_file_bytes [OF r [unfolded Read_Bytes]]
    have same: "file_data k1 (fpath f1) = file_data k (fpath f)" using b(3,5) by (simp add: file_data_def)
    show ?thesis
    proof (cases "bs = []")
      case True
      then have "length (file_data k (fpath f)) \<le> fpos f" using b(8) by simp
      then show ?thesis using "1.prems" r Read_Bytes True b(5-7) by (simp add: read_all.simps [of f k])
    next
      case False
      have step: "read_all f1 k1 (acc @ bs) = (res, f', k')"
        using "1.prems" r Read_Bytes False by (simp add: read_all.simps [of f k])
      have "bs @ drop (fpos f1) (file_data k (fpath f)) = drop (fpos f) (file_data k (fpath f))"
        using b(1,4) by (metis append_take_drop_id drop_drop add.commute)
      then show ?thesis using "1.IH" [OF r [symmetric, unfolded Read_Bytes] refl refl False step] r b(5-7) same Read_Bytes False by auto
    qed
  qed (use "1.prems" r in \<open>auto simp: read_all.simps [of f k] read_file_def Let_def split: list.splits io.splits\<close>)
qed

lemma hex_digit_xdigit: "n < 16 \<Longrightarrow> isxdigit (hex_digit n)"
  by (auto simp: isxdigit_def hex_digit_def Let_def of_char_of)

lemma length_hex_of: "length (hex_of bs) = 2 * length bs"
  by (induction bs) (auto simp: hex_of_def)

lemma hex_of_valid: "length bs = 32 \<Longrightarrow> utils_is_valid_sha256_hex (Some (hex_of bs))"
proof -
  assume "length bs = 32"
  moreover have "list_all isxdigit (hex_of bs)"
  proof (induction bs)
    case (Cons b bs)
    have "unat b < 256" using unsigned_less [of b] by simp
    then show ?case using Cons by (simp add: hex_of_def hex_digit_xdigit)
  qed (simp add: hex_of_def)
  ultimately show ?thesis by (simp add: utils_is_valid_sha256_hex_def length_hex_of)
qed

lemma get_file_sha256_spec:
  assumes "utils_get_file_sha256 sha256 ok (Some f) n k = (ret, out, k')"
  shows "disk k' = disk k" "kok k' = kok k" "set (kio k') \<subseteq> set (kio k)" "ret = 0 \<or> ret = - 1 \<and> out = None"
    "ret = 0 \<Longrightarrow> out = Some (hex_of (sha256 (drop (fpos f) (file_data k (fpath f)))))"
    "65 \<le> n \<Longrightarrow> ok \<Longrightarrow> Fail \<notin> set (kio k) \<Longrightarrow> Eintr \<notin> set (kio k) \<Longrightarrow> ret = 0"
proof -
  obtain res f1 k1 where r: "read_all f k [] = (res, f1, k1)" by (metis prod_cases3)
  note sp = read_all_spec [OF r]
  show "disk k' = disk k" "kok k' = kok k" "set (kio k') \<subseteq> set (kio k)" "ret = 0 \<or> ret = - 1 \<and> out = None"
    "ret = 0 \<Longrightarrow> out = Some (hex_of (sha256 (drop (fpos f) (file_data k (fpath f)))))"
    "65 \<le> n \<Longrightarrow> ok \<Longrightarrow> Fail \<notin> set (kio k) \<Longrightarrow> Eintr \<notin> set (kio k) \<Longrightarrow> ret = 0"
    using sp assms r by (auto simp: utils_get_file_sha256_def split: if_splits option.splits)
qed

subsection \<open>Properties\<close>

text \<open>
  C33. \<open>normalize_cd_path\<close> computes the walk from the directory \<open>cwd\<close> along \<open>cd_arg\<close> (absolute when it
  starts with a slash; \<open>.\<close> stays, \<open>..\<close> goes up and the root is its own parent): for an output buffer of at
  least two bytes it never leaves its arrays, and it returns 0 with the path of the directory reached
  exactly when the combined input and the result fit their buffers, and -1 otherwise.
\<close>

theorem normalize_cd_path_correct:
  assumes "2 \<le> out_size"
  shows "if length (full_path cwd arg) < PATH_MAX \<and> length (path_of (resolve cwd arg)) < out_size
    then normalize_cd_path (Some cwd) (Some arg) (Some out) out_size = Some (0, Some (path_of (resolve cwd arg)))
    else \<exists>out'. normalize_cd_path (Some cwd) (Some arg) (Some out) out_size = Some (- 1, Some out')"
  using normalize_result [OF assms, of cwd arg out] by (simp del: snprintf_def)

theorem normalize_cd_path_correct_witness:
  "normalize_cd_path (Some ''/docs/a'') (Some ''../b/./c//'') (Some []) 4096 = Some (0, Some ''/docs/b/c'')"
proof -
  have "full_path ''/docs/a'' ''../b/./c//'' = ''/docs/a/../b/./c//''" by (simp add: full_path_def)
  moreover have "path_of (resolve ''/docs/a'' ''../b/./c//'') = ''/docs/b/c''"
    by (simp add: resolve_def full_path_def components_def walk_def path_of_def)
  ultimately show ?thesis using normalize_cd_path_correct [of 4096 "''/docs/a''" "''../b/./c//''" "[]"] by simp
qed

text \<open>
  C34. The paths that \<open>normalize_cd_path\<close> returns are canonical (the root, or names separated by single
  slashes, none of them empty, \<open>.\<close> or \<open>..\<close>), fit the buffer, and are fixed points: normalizing one again, from
  any directory, gives it back.
\<close>

theorem normalize_cd_path_canonical:
  assumes "2 \<le> out_size" "normalize_cd_path (Some cwd) (Some arg) (Some out) out_size = Some (0, Some p)"
  shows "canonical p \<and> length p < out_size \<and>
    (length p < PATH_MAX \<longrightarrow> normalize_cd_path (Some cwd') (Some p) (Some out) out_size = Some (0, Some p))"
proof -
  note n = normalize_ok_iff [OF assms]
  have p: "p = path_of (resolve cwd arg)" "length p < out_size" using n by auto
  moreover have "canonical p" using p(1) resolve_dir_names unfolding canonical_def by blast
  moreover have "resolve cwd' p = resolve cwd arg" using p(1) resolve_canonical [OF resolve_dir_names] by simp
  moreover have "full_path cwd' p = p" using p(1) path_of_absolute by (simp add: full_path_def)
  ultimately show ?thesis using normalize_result(1) [OF assms(1), of cwd' p out] by simp
qed

theorem normalize_cd_path_canonical_witness: "canonical ''/a''"
proof -
  have "path_of (resolve ''/'' ''a'') = ''/a''" by (simp add: resolve_def full_path_def components_def walk_def path_of_def)
  moreover have "full_path ''/'' ''a'' = ''/a''" by (simp add: full_path_def)
  ultimately have "normalize_cd_path (Some ''/'') (Some ''a'') (Some []) 4096 = Some (0, Some ''/a'')"
    using normalize_result(1) [of 4096 "''/''" "''a''" "[]"] by simp
  then show ?thesis using normalize_cd_path_canonical [of 4096 "''/''" "''a''" "[]" "''/a''"] by simp
qed

text \<open>
  C35. \<open>s_gets\<close> reads exactly one line: for a buffer of at least two bytes and input without NUL it returns
  NULL only at the end of the input, and otherwise the next line without its newline, cut to the buffer;
  the part of a longer line that does not fit is discarded, so that the next call starts at the next line.
\<close>

theorem s_gets_reads_one_line:
  assumes "1 < n" "NUL \<notin> set inp"
  shows "s_gets n inp =
    (if inp = [] then (None, [])
     else (Some (take (nat n - 1) (takeWhile (\<lambda>c. c \<noteq> newline) inp)), drop 1 (dropWhile (\<lambda>c. c \<noteq> newline) inp)))"
  using s_gets_line [OF assms] assms(1) by (auto simp: s_gets_def fgets_def)

theorem s_gets_reads_one_line_witness:
  "s_gets 3 (''hello'' @ [newline] @ ''x'') = (Some ''he'', ''x'')"
  using s_gets_reads_one_line [of 3 "''hello'' @ [newline] @ ''x''"] by (simp add: newline_def NUL_def)

text \<open>
  C36. The hash of a file depends on its contents only: whatever portions the kernel delivers,
  \<open>utils_get_file_sha256\<close> terminates, leaves the disk unchanged and, when it returns 0, yields the
  hexadecimal SHA-256 of the bytes from the current position to the end, which
  \<open>utils_is_valid_sha256_hex\<close> accepts; it returns 0 unless a call fails or is interrupted.
\<close>

theorem file_sha256_of_contents:
  assumes "\<And>x. length (sha256 x) = 32" "65 \<le> n"
  shows "case utils_get_file_sha256 sha256 ok (Some f) n k of
    (ret, out, k') \<Rightarrow> disk k' = disk k \<and>
      (ret = 0 \<and> out = Some (hex_of (sha256 (drop (fpos f) (file_data k (fpath f))))) \<and> utils_is_valid_sha256_hex out \<or>
       ret = - 1 \<and> (\<not> ok \<or> Fail \<in> set (kio k) \<or> Eintr \<in> set (kio k)))"
proof -
  obtain ret out k' where r: "utils_get_file_sha256 sha256 ok (Some f) n k = (ret, out, k')" by (metis prod_cases3)
  note sp = get_file_sha256_spec [OF r]
  show ?thesis using r sp(1,4) sp(5) sp(6) [OF assms(2)] hex_of_valid [OF assms(1)] by (cases "ret = 0") auto
qed

theorem file_sha256_of_contents_witness:
  "fst (utils_get_file_sha256 (\<lambda>x. replicate 32 0) True (Some \<lparr>fpath = ''f'', fpos = 0\<rparr>) 65
    \<lparr>disk = [''f'' \<mapsto> [1, 2, 3]], kio = [Chunk 0], kok = []\<rparr>) = 0"
  using file_sha256_of_contents [where ?sha256.0 = "\<lambda>x. replicate 32 0" and n = 65 and ok = True and f = "\<lparr>fpath = ''f'', fpos = 0\<rparr>"
      and k = "\<lparr>disk = [''f'' \<mapsto> [1, 2, 3]], kio = [Chunk 0], kok = []\<rparr>"] by (auto split: prod.splits)

end
