(* ===== verification/Streams.thy ===== *)
theory Streams
  imports Wire Payloads Utils_Correct
begin

text \<open>
  File contents on a connection: a sequence of \<open>CMD_FILE_DATA\<close> packets whose payloads, put together, are the bytes of
  the file. Both sides of a transfer are specified by it.
\<close>

subsection \<open>Effects on the disk\<close>

text \<open>Only the given files differ.\<close>

definition changes_only :: "string set \<Rightarrow> kernel \<Rightarrow> kernel \<Rightarrow> bool" where
  "changes_only P k k' \<longleftrightarrow> (\<forall>q. q \<notin> P \<longrightarrow> disk k' q = disk k q)"

lemma changes_only_same: "disk k' = disk k \<Longrightarrow> changes_only P k k'"
  by (simp add: changes_only_def)

lemma changes_only_trans: "changes_only P k k' \<Longrightarrow> changes_only P k' k'' \<Longrightarrow> changes_only P k k''"
  by (simp add: changes_only_def)

lemma open_create_disk:
  assumes "open_create p k = (fd, k')"
  shows "changes_only {p} k k'" "fd = Some f \<Longrightarrow> f = \<lparr>fpath = p, fpos = 0\<rparr> \<and> disk k' p = Some (file_data k p)" "kio k' = kio k"
  using assms by (auto simp: open_create_def changes_only_def split: prod.splits if_splits dest: sys_ok_pair)

lemma ftruncate_disk:
  assumes "ftruncate f n k = (ok, k')"
  shows "changes_only {fpath f} k k'" "ok \<Longrightarrow> disk k' = (disk k)(fpath f \<mapsto> take n (file_data k (fpath f)) @ replicate (n - length (file_data k (fpath f))) 0)"
    "kio k' = kio k"
  using assms by (auto simp: ftruncate_def changes_only_def Let_def split: prod.splits if_splits dest: sys_ok_pair)

lemma open_read_disk:
  assumes "open_read p k = (fd, k')"
  shows "disk k' = disk k" "fd = Some f \<Longrightarrow> f = \<lparr>fpath = p, fpos = 0\<rparr> \<and> disk k p \<noteq> None" "kio k' = kio k"
  using assms by (auto simp: open_read_def split: prod.splits if_splits dest: sys_ok_pair)

lemma rename_file_disk:
  assumes "rename_file a b k = (ok, k')"
  shows "ok \<Longrightarrow> disk k' = ((disk k)(a := None))(b := disk k a) \<and> disk k a \<noteq> None" "\<not> ok \<Longrightarrow> disk k' = disk k" "kio k' = kio k"
  using assms by (auto simp: rename_file_def split: prod.splits option.splits if_splits dest: sys_ok_pair)

lemma lseek_frame:
  assumes "lseek f off k = (r, k')"
  shows "disk k' = disk k" "kio k' = kio k" "r = None \<or> r = Some (f\<lparr>fpos := off\<rparr>)"
  using assms by (auto simp: lseek_def split: prod.splits if_splits dest: sys_ok_pair)

lemma unlink_disk:
  assumes "unlink p k = (ok, k')"
  shows "changes_only {p} k k'" "\<not> ok \<Longrightarrow> disk k' = disk k" "ok \<Longrightarrow> disk k' = (disk k)(p := None)"
  using assms by (auto simp: unlink_def changes_only_def split: prod.splits if_splits dest: sys_ok_pair)

lemma path_exists_disk:
  assumes "path_exists p k = (ok, k')"
  shows "disk k' = disk k" "ok \<Longrightarrow> disk k p \<noteq> None"
  using assms by (auto simp: path_exists_def split: prod.splits dest: sys_ok_pair)

subsection \<open>The request of an upload\<close>

definition upload_offer :: "(byte list \<Rightarrow> byte list) \<Rightarrow> endian \<Rightarrow> string \<Rightarrow> byte list \<Rightarrow> byte list" where
  "upload_offer sha256 e remote d =
     store_upload_request e
       \<lparr>ur_remote_path = char_array PATH_MAX remote, ur_file_size = host_to_net_u64 e (word_of_nat (length d)),
        ur_sha256_hex = char_array 65 (hex_of (sha256 d))\<rparr>"

lemma length_upload_offer [simp]: "length (upload_offer sha256 e remote d) = UPLOAD_REQUEST_SIZE"
  by (simp add: upload_offer_def)

subsection \<open>Data packets\<close>

definition data_packet :: "session_id_t \<Rightarrow> byte list \<Rightarrow> packet_t" where
  "data_packet key c = mk_packet CMD_FILE_DATA STATUS_OK key c"

definition data_stream :: "session_id_t \<Rightarrow> byte list list \<Rightarrow> byte list" where
  "data_stream key cs = concat (map (\<lambda>c. frame (data_packet key c)) cs)"

text \<open>The pieces into which a file may be cut.\<close>

definition ok_chunk :: "byte list \<Rightarrow> bool" where
  "ok_chunk c \<longleftrightarrow> c \<noteq> [] \<and> length c \<le> unat FILE_CHUNK_SIZE"

lemma data_stream_simps [simp]:
  "data_stream key [] = []"
  "data_stream key (c # cs) = frame (data_packet key c) @ data_stream key cs"
  by (simp_all add: data_stream_def)

lemma data_stream_append: "data_stream key (cs @ ds) = data_stream key cs @ data_stream key ds"
  by (simp add: data_stream_def)

lemma ok_chunk_length: "ok_chunk c \<Longrightarrow> 0 < length c \<and> length c \<le> 4096"
  by (cases c) (auto simp: ok_chunk_def FILE_CHUNK_SIZE_def)

lemma data_packet_fields:
  assumes "ok_chunk c"
  shows "ptype (header (data_packet key c)) = CMD_FILE_DATA" "status (header (data_packet key c)) = STATUS_OK"
    "unat (payload_len (header (data_packet key c))) = length c" "payload_len (header (data_packet key c)) \<noteq> 0"
    "payload_len (header (data_packet key c)) \<le> FILE_CHUNK_SIZE" "payload (data_packet key c) = Some c"
    "session_id (header (data_packet key c)) = key"
    "ucast (payload_len (header (data_packet key c))) = (word_of_nat (length c) :: u64)"
proof -
  note l = ok_chunk_length [OF assms]
  then have u: "unat (word_of_nat (length c) :: u32) = length c" by (simp add: unat_of_nat)
  show "ptype (header (data_packet key c)) = CMD_FILE_DATA" "status (header (data_packet key c)) = STATUS_OK"
    "unat (payload_len (header (data_packet key c))) = length c" "payload (data_packet key c) = Some c"
    "session_id (header (data_packet key c)) = key"
    using u assms by (simp_all add: data_packet_def mk_packet_def ok_chunk_def)
  show "payload_len (header (data_packet key c)) \<noteq> 0"
    using u l by (metis \<open>unat (payload_len (header (data_packet key c))) = length c\<close> less_irrefl unat_0)
  show "payload_len (header (data_packet key c)) \<le> FILE_CHUNK_SIZE"
    using u l by (simp add: data_packet_def mk_packet_def word_le_nat_alt FILE_CHUNK_SIZE_def)
  show "ucast (payload_len (header (data_packet key c))) = (word_of_nat (length c) :: u64)"
    using u by (metis \<open>unat (payload_len (header (data_packet key c))) = length c\<close> of_nat_unat)
qed

lemma wf_data_packet: "wf_session_id key \<Longrightarrow> ok_chunk c \<Longrightarrow> wf_packet (data_packet key c)"
  using ok_chunk_length [of c] by (simp add: data_packet_def wf_mk_packet)

text \<open>The only streams read as packets of one kind: what a receiver that accepts a data packet has read.\<close>

lemma data_packet_unique:
  assumes "wf_packet p" "ptype (header p) = CMD_FILE_DATA" "status (header p) = STATUS_OK" "session_id (header p) = key"
    "payload p = Some c" "c \<noteq> []"
  shows "frame p = frame (data_packet key c)"
proof -
  have l: "length c = unat (payload_len (header p))" using assms(1,5,6) by (auto simp: wf_packet_def split: if_splits)
  then show ?thesis using assms by (simp add: frame_def data_packet_def mk_packet_def)
qed

text \<open>Pieces of at most \<open>n\<close> elements, as a sender cuts them that always gets what it asks for.\<close>

function chunks :: "nat \<Rightarrow> 'a list \<Rightarrow> 'a list list" where
  "chunks n xs = (if xs = [] \<or> n = 0 then [] else take n xs # chunks n (drop n xs))"
  by pat_completeness auto
termination
  by (relation "measure (\<lambda>(n, xs). length xs)") auto

declare chunks.simps [simp del]

lemma concat_chunks: "0 < n \<Longrightarrow> concat (chunks n xs) = xs"
proof (induction n xs rule: chunks.induct)
  case (1 n xs)
  then show ?case by (cases "xs = []") (simp_all add: chunks.simps [of n "[]"] chunks.simps [of n xs])
qed

lemma chunks_ok: "n \<le> unat FILE_CHUNK_SIZE \<Longrightarrow> \<forall>c \<in> set (chunks n xs). ok_chunk c"
proof (induction n xs rule: chunks.induct)
  case (1 n xs)
  show ?case
  proof (cases "xs = [] \<or> n = 0")
    case False
    then show ?thesis using 1 by (simp add: chunks.simps [of n xs] ok_chunk_def)
  qed (simp add: chunks.simps [of n xs])
qed

text \<open>
  One step of a receiver: a data packet that is not longer than what is missing is written to the file behind
  what is there. \<open>base\<close> is where the transfer started.
\<close>

lemma data_step:
  fixes missing received :: u64
  assumes "wf_packet p" "payload_len (header p) \<noteq> 0" "payload_len (header p) \<le> FILE_CHUNK_SIZE"
    "ucast (payload_len (header p)) \<le> missing - received" "received \<le> missing"
    "fpos f = base + unat received" "fpos f \<le> length (file_data k (fpath f))" "base + unat missing < 2 ^ 64"
    "write_n f (case payload p of Some bs \<Rightarrow> take (unat (payload_len (header p))) bs | None \<Rightarrow> []) k = (0, f1, k1)"
  obtains c where "payload p = Some c" "ok_chunk c" "fpath f1 = fpath f"
    "unat (received + ucast (payload_len (header p))) = unat received + length c"
    "received + ucast (payload_len (header p)) \<le> missing"
    "fpos f1 = base + unat (received + ucast (payload_len (header p)))"
    "disk k1 = (disk k)(fpath f \<mapsto> put_bytes (fpos f) c (file_data k (fpath f)))"
    "fpos f1 \<le> length (file_data k1 (fpath f1))"
proof -
  define n where "n = unat (payload_len (header p))"
  have len: "0 < n" using assms(2) by (simp add: n_def unat_gt_0)
  obtain c where c: "payload p = Some c" "length c = n"
    using assms(1,2) by (auto simp: wf_packet_def n_def split: if_splits)
  have bs: "(case payload p of Some bs \<Rightarrow> take (unat (payload_len (header p))) bs | None \<Rightarrow> []) = c"
    using c by (simp add: n_def)
  have ch: "ok_chunk c" using c len assms(3) by (auto simp add: ok_chunk_def n_def word_le_nat_alt)
  note ws = write_n_spec [OF assms(9) assms(7), unfolded bs]
  have rest: "unat (missing - received) = unat missing - unat received" using assms(5) by (simp add: unat_sub)
  have "unat (payload_len (header p)) < 2 ^ 64" using unsigned_less [of "payload_len (header p)", where 'a = nat] by simp
  then have uc: "unat (ucast (payload_len (header p)) :: u64) = n"
    by (simp add: n_def unsigned_ucast_eq take_bit_nat_eq_self_iff)
  then have nle: "n \<le> unat missing - unat received" using assms(4) rest by (simp add: word_le_nat_alt)
  have add: "unat (received + ucast (payload_len (header p))) = unat received + n"
    using nle uc assms(5) unsigned_less [of missing, where 'a = nat]
    by (subst unat_add_lem [THEN iffD1]) (auto simp: word_le_nat_alt)
  have le: "received + ucast (payload_len (header p)) \<le> missing" using add nle assms(5) by (simp add: word_le_nat_alt)
  have w0: "fpos f1 = fpos f + n" "disk k1 = (disk k)(fpath f \<mapsto> put_bytes (fpos f) c (file_data k (fpath f)))"
    using ws(7) c(2) by auto
  have "fpos f1 \<le> length (file_data k1 (fpath f1))"
    using w0 ws(3) c(2) assms(7) by (simp add: put_bytes_def file_data_def)
  then show thesis using that c ch ws(3) add le w0 assms(6) by auto
qed

end
