(* ===== verification/Calm.thy ===== *)
theory Calm
  imports Streams
begin

text \<open>
  Calls that succeed: when the kernel refuses nothing that is left to be asked (it may still cut transfers short and
  interrupt them), every call on existing files and on an intact connection does what it is asked for.
\<close>

subsection \<open>Files\<close>

definition kcalm :: "kernel \<Rightarrow> bool" where
  "kcalm k \<longleftrightarrow> False \<notin> set (kok k) \<and> Fail \<notin> set (kio k)"

text \<open>The answers left are answers of before.\<close>

definition kstep :: "kernel \<Rightarrow> kernel \<Rightarrow> bool" where
  "kstep k k' \<longleftrightarrow> set (kok k') \<subseteq> set (kok k) \<and> set (kio k') \<subseteq> set (kio k)"

lemma kstep_refl [simp]: "kstep k k"
  by (simp add: kstep_def)

lemma kstep_trans [trans]: "kstep k k' \<Longrightarrow> kstep k' k'' \<Longrightarrow> kstep k k''"
  by (auto simp: kstep_def)

lemma kstep_calm: "kcalm k \<Longrightarrow> kstep k k' \<Longrightarrow> kcalm k'"
  by (auto simp: kcalm_def kstep_def)

lemma kstep_disk [simp]: "kstep k (k'\<lparr>disk := d\<rparr>) = kstep k k'"
  by (simp add: kstep_def)

lemma sys_ok_step: "sys_ok k = (ok, k') \<Longrightarrow> kstep k k' \<and> (kcalm k \<longrightarrow> ok)"
  by (auto simp: sys_ok_def kstep_def kcalm_def split: list.splits)

lemma open_read_step: "open_read p k = (fd, k') \<Longrightarrow> kstep k k' \<and> (kcalm k \<and> disk k p \<noteq> None \<longrightarrow> fd \<noteq> None)"
  by (auto simp: open_read_def split: prod.splits if_splits dest: sys_ok_step)

lemma open_create_step: "open_create p k = (fd, k') \<Longrightarrow> kstep k k' \<and> (kcalm k \<longrightarrow> fd \<noteq> None)"
  by (auto simp: open_create_def split: prod.splits if_splits dest: sys_ok_step)

lemma ftruncate_step: "ftruncate f n k = (ok, k') \<Longrightarrow> kstep k k' \<and> (kcalm k \<longrightarrow> ok)"
  by (auto simp: ftruncate_def Let_def split: prod.splits if_splits dest: sys_ok_step)

lemma lseek_step: "lseek f n k = (fd, k') \<Longrightarrow> kstep k k' \<and> (kcalm k \<longrightarrow> fd \<noteq> None)"
  by (auto simp: lseek_def split: prod.splits if_splits dest: sys_ok_step)

lemma unlink_step: "unlink p k = (ok, k') \<Longrightarrow> kstep k k' \<and> (kcalm k \<and> disk k p \<noteq> None \<longrightarrow> ok)"
  by (auto simp: unlink_def split: prod.splits if_splits dest: sys_ok_step)

lemma rename_step: "rename_file p q k = (ok, k') \<Longrightarrow> kstep k k' \<and> (kcalm k \<and> disk k p \<noteq> None \<longrightarrow> ok)"
  by (auto simp: rename_file_def split: prod.splits option.splits if_splits dest: sys_ok_step)

lemma read_step: "read_file f n k = (r, f', k') \<Longrightarrow> kstep k k' \<and> (kcalm k \<longrightarrow> r \<noteq> Read_Error)"
  by (auto simp: read_file_def kstep_def kcalm_def Let_def split: list.splits io.splits)

lemma write_step:
  "write_n f buf k = (ret, f', k') \<Longrightarrow> fpos f \<le> length (file_data k (fpath f)) \<Longrightarrow> kstep k k' \<and> (kcalm k \<longrightarrow> ret = 0)"
  using write_n_spec [of f buf k ret f' k'] by (auto simp: kstep_def kcalm_def)

subsection \<open>Connections\<close>

definition scalm :: "sock \<Rightarrow> bool" where
  "scalm s \<longleftrightarrow> Fail \<notin> set (rx_io s) \<and> Fail \<notin> set (tx_io s)"

lemma send_packet_calm:
  assumes "protocol_send_packet e (Some p) s = (ret, s')" "scalm s" "wf_packet p"
  shows "ret = 0" "tx s' = tx s @ frame p" "rx s' = rx s" "scalm s'"
proof -
  note sp = send_packet_spec [OF assms(1)]
  show r: "ret = 0" using sp(4) sendable_wf [OF assms(3)] assms(2) by (auto simp: scalm_def)
  show "tx s' = tx s @ frame p" using sp(2) [OF r] wire_frame [OF assms(3)] by simp
  show "rx s' = rx s" "scalm s'" using sp(1) assms(2) by (auto simp: sending_def scalm_def)
qed

lemma recv_packet_calm:
  assumes "protocol_recv_packet e True s = (ret, q, s')" "scalm s" "wf_packet p" "rx s = frame p @ rest"
  shows "ret = 0" "q = p\<lparr>owns_payload := payload_len (header p) \<noteq> 0\<rparr>" "rx s' = rest" "tx s' = tx s" "scalm s'"
proof -
  have nf: "no_fail (rx_io s)" using assms(2) by (simp add: scalm_def)
  from protocol_recv_packet_frame [OF assms(3) nf assms(4), of e] obtain ios where
    "protocol_recv_packet e True s = (0, p\<lparr>owns_payload := payload_len (header p) \<noteq> 0\<rparr>, s\<lparr>rx := rest, rx_io := ios\<rparr>)" "no_fail ios" by blast
  with assms(1,2) show "ret = 0" "q = p\<lparr>owns_payload := payload_len (header p) \<noteq> 0\<rparr>" "rx s' = rest" "tx s' = tx s" "scalm s'"
    by (auto simp: scalm_def)
qed

end
