(* ===== verification/Handler_Transfer_Correct.thy ===== *)
theory Handler_Transfer_Correct
  imports Handler_Transfer Calm
begin

text \<open>
  Correctness of the transfer handlers on the server: which parts of the server's state a step touches, which bytes an
  upload puts into the partial file, and under which name a verified file is published.
\<close>

subsection \<open>What the steps touch\<close>

text \<open>Only the kernel's answers, the disk and the task's own connection.\<close>

definition own_io :: "transfer_task_t \<Rightarrow> 'w server_t \<Rightarrow> 'w server_t \<Rightarrow> bool" where
  "own_io task s s' \<longleftrightarrow> s_pool s' = s_pool s \<and> s_world s' = s_world s \<and> s_table s' = s_table s \<and> s_wheel s' = s_wheel s \<and>
     s_epoll s' = s_epoll s \<and> s_open s' = s_open s \<and> (\<forall>fd. fd \<noteq> x_fd task \<longrightarrow> s_socks s' fd = s_socks s fd)"

lemma own_io_refl [simp]: "own_io task s s"
  by (simp add: own_io_def)

lemma own_io_kern [simp]: "own_io task s (s'\<lparr>s_kern := k\<rparr>) = own_io task s s'"
  by (simp add: own_io_def)

lemma own_io_sock [simp]:
  "own_io task s (s'\<lparr>s_socks := (s_socks s')(x_fd task := sock)\<rparr>) = own_io task s s'"
  "own_io task s (s'\<lparr>s_kern := k, s_socks := (s_socks s')(x_fd task := sock)\<rparr>) = own_io task s s'"
  by (simp_all add: own_io_def)

lemma own_io_trans [trans]: "own_io task s s' \<Longrightarrow> own_io task s' s'' \<Longrightarrow> own_io task s s''"
  by (simp add: own_io_def)

text \<open>The bytes of the file system that a step leaves alone, together with the state it leaves alone.\<close>

abbreviation "disk_of s \<equiv> disk (s_kern s)"

lemma sys_frame:
  assumes "sys s = (ok, s')"
  shows "own_io task s s'" "disk_of s' = disk_of s" "s_socks s' = s_socks s" "kio (s_kern s') = kio (s_kern s)"
  using assms by (auto simp: sys_def split: prod.splits dest: sys_ok_pair)

lemma send_transfer_packet_frame:
  assumes "send_transfer_packet e task type st pl plen s = (ret, s')"
  shows "own_io task s s'" "s_kern s' = s_kern s" "rx (s_socks s' (x_fd task)) = rx (s_socks s (x_fd task))"
    "rx_io (s_socks s' (x_fd task)) = rx_io (s_socks s (x_fd task))"
proof -
  obtain r p where p: "packet_init (Some zero_packet) type st (Some (session_id (x_header task))) pl plen = (r, p)" by (metis prod.collapse)
  obtain r2 k where k: "protocol_send_packet e p (s_socks s (x_fd task)) = (r2, k)" by (metis prod.collapse)
  show "own_io task s s'" "s_kern s' = s_kern s" using assms p k by (auto simp: send_transfer_packet_def split: if_splits)
  have "sending (s_socks s (x_fd task)) k"
    using k send_packet_spec(1) by (cases p) (auto simp: protocol_send_packet_def)
  then show "rx (s_socks s' (x_fd task)) = rx (s_socks s (x_fd task))" "rx_io (s_socks s' (x_fd task)) = rx_io (s_socks s (x_fd task))"
    using assms p k by (auto simp: send_transfer_packet_def sending_def split: if_splits)
qed

lemma answer_frame:
  "own_io task s (answer e task type st s)" "s_kern (answer e task type st s) = s_kern s"
  using send_transfer_packet_frame [of e task type st None 0 s] by (simp_all add: answer_def) (metis prod.collapse)+

lemma own_io_answer [simp]: "own_io task s (answer e task type st s') = own_io task s s'"
  using answer_frame(1) [of task s' e type st] by (simp add: own_io_def)

lemma disk_answer [simp]: "s_kern (answer e task type st s) = s_kern s"
  by (rule answer_frame)

lemma recv_transfer_packet_frame:
  assumes "recv_transfer_packet e task s = (ret, p, s')"
  shows "own_io task s s'" "disk_of s' = disk_of s" "ret = 0 \<Longrightarrow> tx (s_socks s' (x_fd task)) = tx (s_socks s (x_fd task))"
proof -
  obtain ok s1 where s1: "sys s = (ok, s1)" by (metis prod.collapse)
  obtain r q k where q: "protocol_recv_packet e ok (s_socks s1 (x_fd task)) = (r, q, k)" by (metis prod_cases3)
  note f = sys_frame [OF s1]
  show "own_io task s s'" using assms s1 q f(1) by (auto simp: recv_transfer_packet_def Let_def split: if_splits)
  show "disk_of s' = disk_of s" using assms s1 q f by (auto simp: recv_transfer_packet_def Let_def split: if_splits)
  show "tx (s_socks s' (x_fd task)) = tx (s_socks s (x_fd task))" if "ret = 0"
    using that assms s1 q f recv_packet_receiving [OF q]
    by (auto simp: recv_transfer_packet_def receiving_def Let_def split: if_splits)
qed

text \<open>The packet that tells the client where to start.\<close>

definition resume_packet :: "endian \<Rightarrow> u32 \<Rightarrow> session_id_t \<Rightarrow> u64 \<Rightarrow> packet_t" where
  "resume_packet e type key off = mk_packet type STATUS_OK key (mem64 e (host_to_net_u64 e off))"

lemma length_mem64_8: "length (mem64 e x) = 8" "mem64 e x \<noteq> []"
  by (simp_all, metis length_mem64 list.size(3) zero_neq_numeral)

lemma wf_resume_packet: "wf_session_id key \<Longrightarrow> wf_packet (resume_packet e type key off)"
  by (simp add: resume_packet_def wf_mk_packet)

lemma send_puts_resume_packet:
  "send_puts_resume e (Some key) off s = protocol_send_packet e (Some (resume_packet e CMD_PUTS_RESP key off)) s"
  using packet_init_mk_packet [of "mem64 e (host_to_net_u64 e off)" CMD_PUTS_RESP STATUS_OK key]
  by (simp add: send_puts_resume_def resume_packet_def length_mem64_8)

lemma send_puts_resume_frame:
  assumes "send_puts_resume e (Some key) off s = (ret, s')"
  shows "rx s' = rx s" "rx_io s' = rx_io s" "ret = 0 \<Longrightarrow> wf_session_id key \<Longrightarrow> tx s' = tx s @ frame (resume_packet e CMD_PUTS_RESP key off)"
proof -
  note sp = send_packet_spec [OF assms [unfolded send_puts_resume_packet]]
  show "rx s' = rx s" "rx_io s' = rx_io s" using sp(1) by (simp_all add: sending_def)
  show "tx s' = tx s @ frame (resume_packet e CMD_PUTS_RESP key off)" if "ret = 0" "wf_session_id key"
    using sp(2) that wire_frame [OF wf_resume_packet] by simp
qed

subsection \<open>Uploads: the partial file\<close>

lemma puts_open_spec:
  assumes "length (file_data (s_kern s) part) < 2 ^ 64"
  shows "puts_open e task part sz s = Inl s' \<Longrightarrow> own_io task s s' \<and> changes_only {part} (s_kern s) (s_kern s')"
    "puts_open e task part sz s = Inr (f, off, s') \<Longrightarrow>
      own_io task s s' \<and> changes_only {part} (s_kern s) (s_kern s') \<and> f = \<lparr>fpath = part, fpos = 0\<rparr> \<and> off \<le> sz \<and>
      rx (s_socks s' (x_fd task)) = rx (s_socks s (x_fd task)) \<and>
      unat off = length (file_data (s_kern s') part) \<and>
      (let d = file_data (s_kern s) part in disk_of s' part = Some (if length d \<le> unat sz then d else []))"
proof -
  let ?d = "file_data (s_kern s) part" and ?f = "\<lparr>fpath = part, fpos = 0\<rparr>"
  obtain fd k where o: "open_create part (s_kern s) = (fd, k)" by (metis prod.collapse)
  obtain b s1 where b: "sys (s\<lparr>s_kern := k\<rparr>) = (b, s1)" by (metis prod.collapse)
  let ?off = "word_of_nat (length (file_data (s_kern s1) part)) :: u64"
  obtain cut k2 where c: "(if ?off > sz then ftruncate ?f 0 (s_kern s1) else (True, s_kern s1)) = (cut, k2)" by (metis prod.collapse)
  let ?off2 = "if ?off > sz then 0 else ?off"
  obtain r sock where m: "send_puts_resume e (Some (session_id (x_header task))) ?off2 (s_socks s1 (x_fd task)) = (r, sock)" by (metis prod.collapse)
  note of = open_create_disk [OF o] and bf = sys_frame [OF b]
  have cf: "changes_only {part} (s_kern s1) k2" using c ftruncate_disk(1) [of ?f 0 "s_kern s1"]
    by (auto simp: changes_only_same split: if_splits)
  have own: "own_io task s s1" using bf(1) [of task] by (simp add: own_io_def)
  have ch: "changes_only {part} (s_kern s) k" "changes_only {part} (s_kern s) (s_kern s1)" "changes_only {part} (s_kern s) k2"
    using of(1) bf cf by (auto simp: changes_only_def)
  show "puts_open e task part sz s = Inl s' \<Longrightarrow> own_io task s s' \<and> changes_only {part} (s_kern s) (s_kern s')"
    using o b c m ch own of(2) by (auto simp: puts_open_def Let_def split: option.splits if_splits)
  assume "puts_open e task part sz s = Inr (f, off, s')"
  then have r: "fd = Some ?f" "cut" "f = ?f" "off = ?off2" "s' = s1\<lparr>s_kern := k2, s_socks := (s_socks s1)(x_fd task := sock)\<rparr>"
    using o b c m of(2) by (auto simp: puts_open_def Let_def split: option.splits if_splits)
  have d1: "disk_of s1 part = Some ?d" "file_data (s_kern s1) part = ?d"
    using of(2) [OF r(1)] bf by (simp_all add: file_data_def)
  have u: "unat ?off = length ?d" using assms d1 by (simp add: unat_of_nat)
  have gt: "?off > sz \<longleftrightarrow> \<not> length ?d \<le> unat sz" using u by (simp add: word_less_nat_alt not_le)
  have d2: "disk k2 part = Some (if length ?d \<le> unat sz then ?d else [])"
    using c r(2) d1 gt ftruncate_disk(2) [of ?f 0 "s_kern s1" cut k2] by (auto split: if_splits)
  then have "unat off = length (file_data (s_kern s') part)" using r(4,5) u gt by (auto simp: file_data_def)
  moreover have "off \<le> sz" using r(4) by (auto simp: not_less)
  moreover have "rx sock = rx (s_socks s (x_fd task))" using send_puts_resume_frame(1) [OF m] bf(3) by simp
  ultimately show "own_io task s s' \<and> changes_only {part} (s_kern s) (s_kern s') \<and> f = ?f \<and> off \<le> sz \<and>
      rx (s_socks s' (x_fd task)) = rx (s_socks s (x_fd task)) \<and> unat off = length (file_data (s_kern s') part) \<and>
      (let d = ?d in disk_of s' part = Some (if length d \<le> unat sz then d else []))"
    using ch(3) own r d2 by (simp add: Let_def)
qed

text \<open>
  The packets the loop accepts: the status is not looked at. \<open>contents\<close> are the bytes that a list of them carries.
\<close>

definition file_packet :: "session_id_t \<Rightarrow> packet_t \<Rightarrow> bool" where
  "file_packet key p \<longleftrightarrow> wf_packet p \<and> ptype (header p) = CMD_FILE_DATA \<and> session_id (header p) = key \<and>
     payload p \<noteq> None \<and> ok_chunk (the (payload p))"

definition end_packet :: "session_id_t \<Rightarrow> packet_t \<Rightarrow> bool" where
  "end_packet key p \<longleftrightarrow> wf_packet p \<and> ptype (header p) = CMD_FILE_END \<and> session_id (header p) = key"

definition contents :: "packet_t list \<Rightarrow> byte list" where
  "contents ps = concat (map (\<lambda>p. the (payload p)) ps)"

definition frames :: "packet_t list \<Rightarrow> byte list" where
  "frames ps = concat (map frame ps)"

lemma contents_simps [simp]: "contents [] = []" "contents (p # ps) = the (payload p) @ contents ps"
  by (simp_all add: contents_def)

lemma frames_simps [simp]: "frames [] = []" "frames (p # ps) = frame p @ frames ps"
  by (simp_all add: frames_def)

abbreviation "x_key task \<equiv> session_id (x_header task)"
abbreviation "x_rx task s \<equiv> rx (s_socks s (x_fd task))"
abbreviation "x_tx task s \<equiv> tx (s_socks s (x_fd task))"

text \<open>What the loop has done on every return.\<close>

definition got_data ::
  "transfer_task_t \<Rightarrow> u64 \<Rightarrow> u64 \<Rightarrow> file_t \<Rightarrow> 'w server_t \<Rightarrow> 'w server_t + u64 \<times> bool \<times> file_t \<times> 'w server_t \<Rightarrow> bool" where
  "got_data task expected received f s res \<longleftrightarrow>
     (case res of
        Inl s' \<Rightarrow> own_io task s s' \<and> changes_only {fpath f} (s_kern s) (s_kern s')
      | Inr (received', early, f', s') \<Rightarrow>
          own_io task s s' \<and> fpath f' = fpath f \<and> x_tx task s' = x_tx task s \<and> (\<not> early \<longrightarrow> received' = expected) \<and>
          (\<exists>ps qs. (\<forall>p \<in> set ps. file_packet (x_key task) p) \<and> (if early then \<exists>q. qs = [q] \<and> end_packet (x_key task) q else qs = []) \<and>
             x_rx task s = frames ps @ frames qs @ x_rx task s' \<and> unat received' = unat received + length (contents ps) \<and>
             disk_of s' = (disk_of s)(fpath f \<mapsto> put_bytes (fpos f) (contents ps) (file_data (s_kern s) (fpath f)))))"

lemma got_data_stop:
  assumes "own_io task s s'" "changes_only {fpath f} (s_kern s) (s_kern s')"
  shows "got_data task expected received f s (Inl s')"
  using assms by (simp add: got_data_def)

lemma same_disk: "disk k p = Some d \<Longrightarrow> disk k = (disk k)(p \<mapsto> file_data k p)"
  by (simp add: file_data_def fun_upd_idem)

lemma got_data_end:
  assumes "own_io task s s'" "disk_of s' = disk_of s" "fpos f \<le> length (file_data (s_kern s) (fpath f))" "disk_of s (fpath f) = Some d"
    "x_tx task s' = x_tx task s"
    "\<not> early \<and> received = expected \<and> x_rx task s' = x_rx task s \<or>
     early \<and> (\<exists>q. end_packet (x_key task) q \<and> x_rx task s = frame q @ x_rx task s')"
  shows "got_data task expected received f s (Inr (received, early, f, s'))"
proof -
  have d: "disk_of s' = (disk_of s)(fpath f \<mapsto> put_bytes (fpos f) (contents []) (file_data (s_kern s) (fpath f)))"
    using assms(2,3) same_disk [OF assms(4)] by simp
  obtain qs where "if early then \<exists>q. qs = [q] \<and> end_packet (x_key task) q else qs = []" "x_rx task s = frames qs @ x_rx task s'"
    using assms(6) by (cases early) (auto, force)
  then have "\<exists>ps qs. (\<forall>p \<in> set ps. file_packet (x_key task) p) \<and> (if early then \<exists>q. qs = [q] \<and> end_packet (x_key task) q else qs = []) \<and>
             x_rx task s = frames ps @ frames qs @ x_rx task s' \<and> unat received = unat received + length (contents ps) \<and>
             disk_of s' = (disk_of s)(fpath f \<mapsto> put_bytes (fpos f) (contents ps) (file_data (s_kern s) (fpath f)))"
    using d by (intro exI [of _ "[]"] exI [of _ qs]) simp
  then show ?thesis using assms(1,5,6) unfolding got_data_def by auto
qed

lemma got_data_step:
  assumes res: "got_data task expected received1 f1 s1 res"
    and f: "fpath f1 = fpath f" "fpos f1 = fpos f + length c" and n: "unat received1 = unat received + length c"
    and p: "file_packet (x_key task) p" "payload p = Some c"
    and s: "own_io task s s1" "x_rx task s = frame p @ x_rx task s1" "x_tx task s1 = x_tx task s"
    and d: "disk_of s1 = (disk_of s)(fpath f \<mapsto> put_bytes (fpos f) c (file_data (s_kern s) (fpath f)))"
  shows "got_data task expected received f s res"
proof (cases res)
  case (Inl s')
  then show ?thesis using res f s(1) d by (auto simp: got_data_def changes_only_def intro: own_io_trans)
next
  case (Inr x)
  obtain received' early f' s' where x: "x = (received', early, f', s')" by (metis prod_cases4)
  obtain ps qs where q: "\<forall>p \<in> set ps. file_packet (x_key task) p" "if early then \<exists>q. qs = [q] \<and> end_packet (x_key task) q else qs = []"
      "x_rx task s1 = frames ps @ frames qs @ x_rx task s'" "unat received' = unat received1 + length (contents ps)"
      "disk_of s' = (disk_of s1)(fpath f1 \<mapsto> put_bytes (fpos f1) (contents ps) (file_data (s_kern s1) (fpath f1)))"
    and r: "own_io task s1 s'" "fpath f' = fpath f1" "x_tx task s' = x_tx task s1" "\<not> early \<longrightarrow> received' = expected"
    using res Inr x by (auto simp: got_data_def)
  have "file_data (s_kern s1) (fpath f1) = put_bytes (fpos f) c (file_data (s_kern s) (fpath f))"
    using d f(1) by (simp add: file_data_def)
  then have "disk_of s' = (disk_of s)(fpath f \<mapsto> put_bytes (fpos f) (contents (p # ps)) (file_data (s_kern s) (fpath f)))"
    using q(5) d f p(2) put_bytes_append [of "fpos f" c] by simp
  then have "\<exists>ps qs. (\<forall>p \<in> set ps. file_packet (x_key task) p) \<and> (if early then \<exists>q. qs = [q] \<and> end_packet (x_key task) q else qs = []) \<and>
             x_rx task s = frames ps @ frames qs @ x_rx task s' \<and> unat received' = unat received + length (contents ps) \<and>
             disk_of s' = (disk_of s)(fpath f \<mapsto> put_bytes (fpos f) (contents ps) (file_data (s_kern s) (fpath f)))"
    using q p s(2) n by (intro exI [of _ "p # ps"] exI [of _ qs]) simp
  then show ?thesis using r s f own_io_trans [OF s(1) r(1)] Inr x unfolding got_data_def by auto
qed

lemma recv_transfer_packet_key:
  assumes "recv_transfer_packet e task s = (0, p, s')" "wf_session_id (x_key task)"
  shows "wf_packet p" "x_rx task s = frame p @ x_rx task s'" "session_id (header p) = x_key task"
  using recv_transfer_packet_ok [OF assms(1)] assms(2) by (simp_all add: wf_session_id_def)

lemma puts_receive_spec:
  assumes "wf_session_id (x_key task)" "received \<le> expected" "fpos f \<le> length (file_data (s_kern s) (fpath f))"
    "disk_of s (fpath f) \<noteq> None" "fpos f = base + unat received" "base + unat expected < 2 ^ 64"
  shows "got_data task expected received f s (puts_receive e task expected received f s)"
  using assms
proof (induction e task expected received f s rule: puts_receive.induct)
  case (1 e task expected received f s)
  show ?case
  proof (cases "received < expected")
    case False
    then have eq: "puts_receive e task expected received f s = Inr (received, False, f, s)" "received = expected"
      using "1.prems"(2) by (subst puts_receive.simps, simp, simp)
    show ?thesis unfolding eq(1) using "1.prems"(3,4) eq(2) by (auto intro!: got_data_end)
  next
    case more: True
    obtain r p s1 where r: "recv_transfer_packet e task s = (r, p, s1)" by (metis prod_cases3)
    note fr = recv_transfer_packet_frame [OF r]
    obtain w f1 k where w: "write_n f (case payload p of Some bs \<Rightarrow> take (unat (payload_len (header p))) bs | None \<Rightarrow> []) (s_kern s1) = (w, f1, k)"
      by (metis prod_cases3)
    let ?bad = "ptype (header p) \<noteq> CMD_FILE_DATA \<or> payload_len (header p) = 0 \<or>
                payload_len (header p) > FILE_CHUNK_SIZE \<or> ucast (payload_len (header p)) > expected - received"
    have data: "file_data (s_kern s1) (fpath f) = file_data (s_kern s) (fpath f)" using fr(2) by (simp add: file_data_def)
    have pos: "fpos f \<le> length (file_data (s_kern s1) (fpath f))" using "1.prems"(3) data by simp
    have stop: "changes_only {fpath f} (s_kern s) (s_kern s1)" "changes_only {fpath f} (s_kern s) k"
      using fr write_n_spec(6) [OF w pos] by (auto simp: changes_only_def)
    consider "r \<noteq> 0" | (ended) "r = 0" "ptype (header p) = CMD_FILE_END" | "r = 0" "ptype (header p) \<noteq> CMD_FILE_END" "?bad \<or> w \<noteq> 0" |
      (go) "r = 0" "ptype (header p) \<noteq> CMD_FILE_END" "\<not> ?bad" "w = 0" by blast
    then show ?thesis
    proof cases
      case ended
      note ok = recv_transfer_packet_key [OF r [unfolded ended(1)] "1.prems"(1)]
      have "end_packet (x_key task) p" using ok ended by (simp add: end_packet_def)
      then show ?thesis using more r ended ok "1.prems"(3,4) fr
        by (auto simp: puts_receive.simps [of e task expected received f s] intro!: got_data_end)
    next
      case go
      note ok = recv_transfer_packet_key [OF r [unfolded go(1)] "1.prems"(1)]
      have h: "payload_len (header p) \<noteq> 0" "payload_len (header p) \<le> FILE_CHUNK_SIZE"
          "ucast (payload_len (header p)) \<le> expected - received"
        and w0: "write_n f (case payload p of Some bs \<Rightarrow> take (unat (payload_len (header p))) bs | None \<Rightarrow> []) (s_kern s1) = (0, f1, k)"
        using go w by auto
      obtain c where c: "payload p = Some c" "ok_chunk c" "fpath f1 = fpath f"
          "unat (received + ucast (payload_len (header p))) = unat received + length c"
          "received + ucast (payload_len (header p)) \<le> expected" "fpos f1 = base + unat (received + ucast (payload_len (header p)))"
          "disk k = (disk_of s1)(fpath f \<mapsto> put_bytes (fpos f) c (file_data (s_kern s1) (fpath f)))"
          "fpos f1 \<le> length (file_data k (fpath f1))"
        by (rule data_step [OF ok(1) h "1.prems"(2,5) pos "1.prems"(6) w0])
      have fp: "file_packet (x_key task) p" using ok go(3) c by (simp add: file_packet_def)
      let ?res = "puts_receive e task expected (received + ucast (payload_len (header p))) f1 (s1\<lparr>s_kern := k\<rparr>)"
      have "got_data task expected (received + ucast (payload_len (header p))) f1 (s1\<lparr>s_kern := k\<rparr>) ?res"
        by (rule "1.IH" [OF _ r [symmetric] refl _ _ _ w [symmetric] refl _ "1.prems"(1) c(5) _ _ c(6) "1.prems"(6)])
          (use more go c(3,7,8) in simp_all)
      then have "got_data task expected received f s ?res"
        by (rule got_data_step [OF _ c(3) _ c(4) fp c(1)]) (use fr ok go c data "1.prems"(5) in simp_all)
      then show ?thesis using more r w go by (simp add: puts_receive.simps [of e task expected received f s])
    qed (use more r w stop fr in \<open>auto simp: puts_receive.simps [of e task expected received f s] intro!: got_data_stop\<close>)
  qed
qed

text \<open>The whole of the data: the file is then what it was, followed by what the packets carried.\<close>

lemma puts_data_spec:
  assumes "wf_session_id (x_key task)" "unat off = length (file_data (s_kern s) (fpath f))" "off \<le> sz" "disk_of s (fpath f) \<noteq> None"
  shows "puts_data e task sz off f s = Inl s' \<Longrightarrow> own_io task s s' \<and> changes_only {fpath f} (s_kern s) (s_kern s')"
    "puts_data e task sz off f s = Inr (f', s') \<Longrightarrow>
      own_io task s s' \<and> fpath f' = fpath f \<and> x_tx task s' = x_tx task s \<and>
      (\<exists>ps qs. (\<forall>p \<in> set ps. file_packet (x_key task) p) \<and> x_rx task s = frames ps @ frames qs @ x_rx task s' \<and>
        (if off = sz then ps = [] \<and> qs = [] else \<exists>q. qs = [q] \<and> end_packet (x_key task) q) \<and>
        disk_of s' = (disk_of s)(fpath f \<mapsto> file_data (s_kern s) (fpath f) @ contents ps) \<and>
        length (file_data (s_kern s) (fpath f) @ contents ps) = unat sz)"
proof -
  let ?p = "fpath f" and ?d = "file_data (s_kern s) (fpath f)"
  obtain g k where l: "lseek f (unat off) (s_kern s) = (g, k)" by (metis prod.collapse)
  note lf = lseek_frame [OF l]
  let ?s1 = "s\<lparr>s_kern := k\<rparr>" and ?f1 = "f\<lparr>fpos := unat off\<rparr>"
  have dk: "file_data k ?p = ?d" using lf(1) by (simp add: file_data_def)
  obtain res where res: "puts_receive e task (sz - off) 0 ?f1 ?s1 = res" by simp
  have sub: "unat (sz - off) = unat sz - unat off" using assms(3) by (simp add: unat_sub)
  have le: "unat off \<le> unat sz" using assms(3) by (simp add: word_le_nat_alt)
  have got: "got_data task (sz - off) 0 ?f1 ?s1 res" unfolding res [symmetric]
    by (rule puts_receive_spec [where base = "unat off"])
      (use assms dk lf sub le unsigned_less [of sz, where 'a = nat] in simp_all)
  have own1: "own_io task ?s1 t = own_io task s t" for t by (simp add: own_io_def)
  have dd: "disk k = disk_of s" by (rule lf)
  have pb: "put_bytes (unat off) bs ?d = ?d @ bs" for bs using assms(2) by (simp add: put_bytes_end)
  show "own_io task s s' \<and> changes_only {?p} (s_kern s) (s_kern s')" if "puts_data e task sz off f s = Inl s'"
  proof (cases res)
    case (Inl s1)
    then show ?thesis using that l lf(3) res got own1 dd
      by (auto simp: puts_data_def got_data_def changes_only_def split: if_splits option.splits)
  next
    case (Inr x)
    obtain r early f2 s2 where x: "x = (r, early, f2, s2)" by (metis prod_cases4)
    obtain t p s3 where t: "recv_transfer_packet e task s2 = (t, p, s3)" by (metis prod_cases3)
    note fr = recv_transfer_packet_frame [OF t]
    have g: "own_io task s s2" "changes_only {?p} (s_kern s) (s_kern s2)"
      using got Inr x own1 dd by (auto simp: got_data_def changes_only_def)
    moreover from this fr have "own_io task s s3" "changes_only {?p} (s_kern s) (s_kern s3)"
      by (auto intro: own_io_trans simp: changes_only_def)
    ultimately show ?thesis using that l lf(3) res Inr x t dd
      by (auto simp: puts_data_def changes_only_same split: if_splits option.splits)
  qed
  show "own_io task s s' \<and> fpath f' = fpath f \<and> x_tx task s' = x_tx task s \<and>
      (\<exists>ps qs. (\<forall>p \<in> set ps. file_packet (x_key task) p) \<and> x_rx task s = frames ps @ frames qs @ x_rx task s' \<and>
        (if off = sz then ps = [] \<and> qs = [] else \<exists>q. qs = [q] \<and> end_packet (x_key task) q) \<and>
        disk_of s' = (disk_of s)(fpath f \<mapsto> file_data (s_kern s) (fpath f) @ contents ps) \<and>
        length (file_data (s_kern s) (fpath f) @ contents ps) = unat sz)" if whole: "puts_data e task sz off f s = Inr (f', s')"
  proof (cases "off = sz")
    case True
    then have "f' = f" "s' = s" using whole by (simp_all add: puts_data_def)
    then show ?thesis using True assms(2,4) same_disk by (intro conjI exI [of _ "[]"]) auto
  next
    case False
    then have lt: "off < sz" using assms(3) by simp
    obtain r early f2 s2 where x: "res = Inr (r, early, f2, s2)" and r: "r = sz - off" and f': "f' = f2"
      and fin: "early \<and> s' = s2 \<or> \<not> early \<and> (\<exists>p. recv_transfer_packet e task s2 = (0, p, s') \<and> ptype (header p) = CMD_FILE_END)"
      using whole l lf(3) lt res by (auto simp: puts_data_def split: if_splits option.splits sum.splits prod.splits)
    obtain ps qs where q: "\<forall>p \<in> set ps. file_packet (x_key task) p" "if early then \<exists>q. qs = [q] \<and> end_packet (x_key task) q else qs = []"
        "x_rx task s = frames ps @ frames qs @ x_rx task s2" "unat r = length (contents ps)"
        "disk_of s2 = (disk_of s)(?p \<mapsto> ?d @ contents ps)"
      and o: "own_io task s s2" "fpath f2 = fpath f" "x_tx task s2 = x_tx task s"
      using got x own1 dd dk pb by (auto simp: got_data_def)
    have len: "length (?d @ contents ps) = unat sz" using q(4) r sub le assms(2) by simp
    show ?thesis
    proof (cases early)
      case True
      then show ?thesis using q o f' fin len False by auto
    next
      case late: False
      then obtain p where p: "recv_transfer_packet e task s2 = (0, p, s')" "ptype (header p) = CMD_FILE_END" using fin by auto
      note fr = recv_transfer_packet_frame [OF p(1)] and ok = recv_transfer_packet_key [OF p(1) assms(1)]
      have "end_packet (x_key task) p" using ok p(2) by (simp add: end_packet_def)
      moreover have "own_io task s s'" using own_io_trans [OF o(1) fr(1)] .
      moreover have "x_rx task s = frames ps @ frames [p] @ x_rx task s'" using q(2,3) late ok(2) by simp
      ultimately show ?thesis using q(1,5) o(2,3) f' fr(2,3) len False by (intro conjI exI [of _ ps] exI [of _ "[p]"]) auto
    qed
  qed
qed

subsection \<open>Uploads: verification and publication\<close>

lemma puts_verify_spec:
  assumes "fpath f = part"
  shows "puts_verify sha256 e task part hex f s = Inl s' \<Longrightarrow> own_io task s s' \<and> changes_only {part} (s_kern s) (s_kern s')"
    "puts_verify sha256 e task part hex f s = Inr s' \<Longrightarrow>
      own_io task s s' \<and> disk_of s' = disk_of s \<and> s_socks s' = s_socks s \<and> hex_of (sha256 (file_data (s_kern s) part)) = hex"
proof -
  obtain b s1 where b: "sys s = (b, s1)" by (metis prod.collapse)
  obtain g k where l: "lseek f 0 (s_kern s1) = (g, k)" by (metis prod.collapse)
  obtain c s2 where c: "sys (s1\<lparr>s_kern := k\<rparr>) = (c, s2)" by (metis prod.collapse)
  let ?f = "f\<lparr>fpos := 0\<rparr>"
  obtain r out k2 where h: "utils_get_file_sha256 sha256 c (Some ?f) 65 (s_kern s2) = (r, out, k2)" by (metis prod_cases3)
  obtain u k3 where u: "unlink part k2 = (u, k3)" by (metis prod.collapse)
  note bf = sys_frame [OF b] and cf = sys_frame [OF c] and lf = lseek_frame [OF l] and hf = get_file_sha256_spec [OF h]
  have d: "disk_of s1 = disk_of s" "disk k = disk_of s" "disk_of s2 = disk_of s" "disk k2 = disk_of s" "changes_only {part} (s_kern s) k3"
    using bf(2) cf(2) lf(1) hf(1) unlink_disk(1) [OF u] by (simp_all add: changes_only_def)
  have o: "own_io task s s1" "own_io task s s2" "s_socks s2 = s_socks s"
    using bf(1) [of task] cf(1) [of task] bf(3) cf(3) by (simp_all add: own_io_def)
  show "puts_verify sha256 e task part hex f s = Inl s' \<Longrightarrow> own_io task s s' \<and> changes_only {part} (s_kern s) (s_kern s')"
    using b l c h u d o lf(3) by (auto simp: puts_verify_def Let_def changes_only_same split: if_splits option.splits)
  have "file_data (s_kern s2) part = file_data (s_kern s) part" using d by (simp add: file_data_def)
  then show "puts_verify sha256 e task part hex f s = Inr s' \<Longrightarrow>
      own_io task s s' \<and> disk_of s' = disk_of s \<and> s_socks s' = s_socks s \<and> hex_of (sha256 (file_data (s_kern s) part)) = hex"
    using b l c h u d o lf(3) hf(4,5) assms by (auto simp: puts_verify_def Let_def split: if_splits option.splits)
qed

text \<open>
  After the renaming the verified bytes have the final name, or a file that had it before keeps it.
\<close>

lemma puts_rename_spec:
  assumes "part \<noteq> final" "disk_of s part \<noteq> None"
  shows "puts_rename e task part final s = Inl s' \<Longrightarrow> own_io task s s' \<and> disk_of s' = disk_of s"
    "puts_rename e task part final s = Inr s' \<Longrightarrow>
      own_io task s s' \<and> changes_only {part, final} (s_kern s) (s_kern s') \<and> s_socks s' = s_socks s \<and>
      disk_of s' final \<noteq> None \<and> (disk_of s' final = disk_of s part \<or> disk_of s' final = disk_of s final)"
proof -
  obtain ok k where r: "rename_file part final (s_kern s) = (ok, k)" by (metis prod.collapse)
  obtain x k1 where x: "path_exists final k = (x, k1)" by (metis prod.collapse)
  obtain y k2 where y: "(if x then (True, k1) else path_exists final k1) = (y, k2)" by (metis prod.collapse)
  obtain u k3 where u: "unlink part k2 = (u, k3)" by (metis prod.collapse)
  note rf = rename_file_disk [OF r] and xf = path_exists_disk [OF x]
  have yf: "disk k2 = disk k" "y \<Longrightarrow> disk k final \<noteq> None"
    using y xf path_exists_disk [of final k1 y k2] by (auto split: if_splits)
  have uf: "changes_only {part} k2 k3" using unlink_disk(1) [OF u] .
  show "puts_rename e task part final s = Inl s' \<Longrightarrow> own_io task s s' \<and> disk_of s' = disk_of s"
    using r x y u yf rf(2) by (auto simp: puts_rename_def Let_def split: if_splits)
  assume p: "puts_rename e task part final s = Inr s'"
  show "own_io task s s' \<and> changes_only {part, final} (s_kern s) (s_kern s') \<and> s_socks s' = s_socks s \<and>
      disk_of s' final \<noteq> None \<and> (disk_of s' final = disk_of s part \<or> disk_of s' final = disk_of s final)"
  proof (cases ok)
    case True
    then have "s' = s\<lparr>s_kern := k\<rparr>" using p r by (simp add: puts_rename_def)
    then show ?thesis using rf(1) True assms by (simp add: changes_only_def)
  next
    case False
    then have "s' = s\<lparr>s_kern := k3\<rparr>" "y" using p r x y u by (auto simp: puts_rename_def Let_def split: if_splits)
    then show ?thesis using rf(2) yf False uf assms(1) by (auto simp: changes_only_def)
  qed
qed

text \<open>
  What precedes the rows of an upload. \<open>upload_stored\<close> is the state in which they are made: the bytes that the packets
  completed have the announced size and hash, and they, or an earlier file of that name, are under the final name.
\<close>

definition part_name :: "transfer_task_t \<Rightarrow> string \<Rightarrow> string" where
  "part_name task hex = x_temp_dir task @ ''/'' @ hex @ ''.part''"

definition final_name :: "transfer_task_t \<Rightarrow> string \<Rightarrow> string" where
  "final_name task hex = x_storage_root task @ ''/'' @ hex"

definition upload_stored ::
  "(byte list \<Rightarrow> byte list) \<Rightarrow> transfer_task_t \<Rightarrow> string \<Rightarrow> u64 \<Rightarrow> 'w server_t \<Rightarrow> 'w server_t \<Rightarrow> bool" where
  "upload_stored sha256 task hex sz s s' \<longleftrightarrow>
     own_io task s s' \<and> changes_only {part_name task hex, final_name task hex} (s_kern s) (s_kern s') \<and>
     (\<exists>d. hex_of (sha256 d) = hex \<and> length d = unat sz \<and>
        disk_of s' (final_name task hex) \<noteq> None \<and>
        (disk_of s' (final_name task hex) = Some d \<or> disk_of s' (final_name task hex) = disk_of s (final_name task hex)))"

lemma last_hex_path:
  assumes "utils_is_valid_sha256_hex (Some hex)"
  shows "part_name task hex' \<noteq> a @ ''/'' @ hex"
proof
  assume eq: "part_name task hex' = a @ ''/'' @ hex"
  have "length hex = 64" "list_all isxdigit hex" using assms by (simp_all add: utils_is_valid_sha256_hex_def)
  then have h: "hex \<noteq> []" "list_all isxdigit hex" by auto
  then have x: "isxdigit (last hex)" by (simp add: list_all_iff)
  have "last (part_name task hex') = CHR ''t''" by (simp add: part_name_def)
  moreover have "last (a @ ''/'' @ hex) = last hex" using h by simp
  ultimately have "isxdigit (CHR ''t'')" using eq x by simp
  then show False by (simp add: isxdigit_def)
qed

text \<open>The partial file after the data have come, relative to the state before it was opened.\<close>

definition part_complete :: "transfer_task_t \<Rightarrow> string \<Rightarrow> u64 \<Rightarrow> 'w server_t \<Rightarrow> 'w server_t \<Rightarrow> bool" where
  "part_complete task hex sz s s' \<longleftrightarrow> own_io task s s' \<and> changes_only {part_name task hex} (s_kern s) (s_kern s') \<and>
     (\<exists>d. disk_of s' (part_name task hex) = Some d \<and> length d = unat sz)"

lemma puts_open_data:
  assumes key: "wf_session_id (x_key task)" and part: "length (file_data (s_kern s) (part_name task hex)) < 2 ^ 64"
    and o: "puts_open e task (part_name task hex) sz s = Inr (f, off, s1)"
  shows "puts_data e task sz off f s1 = Inl s' \<Longrightarrow> own_io task s s' \<and> changes_only {part_name task hex} (s_kern s) (s_kern s')"
    "puts_data e task sz off f s1 = Inr (f', s') \<Longrightarrow> fpath f' = part_name task hex \<and> part_complete task hex sz s s'"
proof -
  let ?part = "part_name task hex"
  note o1 = puts_open_spec(2) [OF part o]
  have f: "fpath f = ?part" using o1 by simp
  have "unat off = length (file_data (s_kern s1) (fpath f))" "off \<le> sz" "disk_of s1 (fpath f) \<noteq> None" using o1 f by (auto simp: Let_def)
  note dat = puts_data_spec [OF key this]
  show "own_io task s s' \<and> changes_only {?part} (s_kern s) (s_kern s')" if "puts_data e task sz off f s1 = Inl s'"
    using dat(1) [OF that] o1 f by (auto simp: changes_only_def intro: own_io_trans)
  assume "puts_data e task sz off f s1 = Inr (f', s')"
  from dat(2) [OF this] f obtain ps where "own_io task s1 s'" "fpath f' = ?part"
      "disk_of s' = (disk_of s1)(?part \<mapsto> file_data (s_kern s1) ?part @ contents ps)"
      "length (file_data (s_kern s1) ?part @ contents ps) = unat sz"
    by auto
  then show "fpath f' = ?part \<and> part_complete task hex sz s s'"
    using o1 own_io_trans by (auto simp: changes_only_def part_complete_def)
qed

lemma puts_verify_rename:
  assumes hex: "utils_is_valid_sha256_hex (Some hex)" and c: "part_complete task hex sz s s1" and f: "fpath f = part_name task hex"
    and v: "puts_verify sha256 e task (part_name task hex) hex f s1 = Inr s2"
  shows "puts_rename e task (part_name task hex) (final_name task hex) s2 = Inl s' \<Longrightarrow>
      own_io task s s' \<and> changes_only {part_name task hex} (s_kern s) (s_kern s')"
    "puts_rename e task (part_name task hex) (final_name task hex) s2 = Inr s' \<Longrightarrow> upload_stored sha256 task hex sz s s'"
proof -
  let ?part = "part_name task hex" and ?final = "final_name task hex"
  note w = puts_verify_spec(2) [OF f v]
  obtain d where d: "disk_of s1 ?part = Some d" "length d = unat sz" using c by (auto simp: part_complete_def)
  have ne: "?part \<noteq> ?final" unfolding final_name_def by (rule last_hex_path [OF hex])
  have d2: "disk_of s2 ?part = Some d" "hex_of (sha256 d) = hex" "disk_of s2 ?part \<noteq> None" using w d(1) by (auto simp: file_data_def)
  note ren = puts_rename_spec [OF ne d2(3), of e task]
  show "own_io task s s' \<and> changes_only {?part} (s_kern s) (s_kern s')" if "puts_rename e task ?part ?final s2 = Inl s'"
    using ren(1) [OF that] c w by (auto simp: changes_only_def part_complete_def intro: own_io_trans)
  assume "puts_rename e task ?part ?final s2 = Inr s'"
  note z = ren(2) [OF this]
  have own: "own_io task s s'" using c w z own_io_trans unfolding part_complete_def by blast
  have ch: "changes_only {?part, ?final} (s_kern s) (s_kern s')" using c w z by (auto simp: changes_only_def part_complete_def)
  have same: "disk_of s2 ?final = disk_of s ?final" using c w ne by (auto simp: changes_only_def part_complete_def)
  show "upload_stored sha256 task hex sz s s'"
    unfolding upload_stored_def using own ch z w d(2) d2 same by auto
qed

lemma puts_upload_cases:
  assumes key: "wf_session_id (x_key task)" and hex: "utils_is_valid_sha256_hex (Some hex)"
    and part: "length (file_data (s_kern s) (part_name task hex)) < 2 ^ 64"
  obtains (refused) s' where "puts_upload M sha256 e task target parent name hex sz s = Some s'" "own_io task s s'"
      "changes_only {part_name task hex} (s_kern s) (s_kern s')"
    | (stored) s' where "upload_stored sha256 task hex sz s s'"
      "puts_upload M sha256 e task target parent name hex sz s = puts_publish M e task target parent name hex sz s'"
proof (cases "length (part_name task hex) \<ge> PATH_MAX \<or> length (final_name task hex) \<ge> PATH_MAX")
  case True
  then have "puts_upload M sha256 e task target parent name hex sz s = Some (answer e task CMD_ERROR STATUS_BAD_REQUEST s)"
    by (auto simp: puts_upload_def snprintf_def part_name_def final_name_def)
  then show thesis by (rule refused) (simp_all add: changes_only_same)
next
  case False
  let ?part = "part_name task hex" and ?final = "final_name task hex"
  have sn: "snprintf PATH_MAX ?part = (?part, length ?part)" "snprintf PATH_MAX ?final = (?final, length ?final)"
      "\<not> (length ?part \<ge> PATH_MAX \<or> length ?final \<ge> PATH_MAX)"
    using False by (simp_all add: snprintf_def)
  have up: "puts_upload M sha256 e task target parent name hex sz s =
    (case puts_open e task ?part sz s of
       Inl s \<Rightarrow> Some s
     | Inr (f, offset, s) \<Rightarrow>
       (case puts_data e task sz offset f s of
          Inl s \<Rightarrow> Some s
        | Inr (f, s) \<Rightarrow>
          (case puts_verify sha256 e task ?part hex f s of
             Inl s \<Rightarrow> Some s
           | Inr s \<Rightarrow>
             (case puts_rename e task ?part ?final s of
                Inl s \<Rightarrow> Some s
              | Inr s \<Rightarrow> puts_publish M e task target parent name hex sz s))))"
    unfolding puts_upload_def part_name_def [symmetric] final_name_def [symmetric] using sn by (simp add: Let_def)
  show thesis
  proof (cases "puts_open e task ?part sz s")
    case (Inl s')
    then show thesis using up puts_open_spec(1) [OF part Inl] by (intro refused [of s']) simp_all
  next
    case o: (Inr x)
    obtain f off s1 where x: "x = (f, off, s1)" by (metis prod_cases3)
    note dat = puts_open_data [OF key part o [unfolded x]]
    show thesis
    proof (cases "puts_data e task sz off f s1")
      case (Inl s')
      then show thesis using up o x dat(1) [OF Inl] by (intro refused [of s']) simp_all
    next
      case d: (Inr y)
      obtain f2 s2 where y: "y = (f2, s2)" by (metis prod.collapse)
      have c2: "fpath f2 = ?part" "part_complete task hex sz s s2" using dat(2) [OF d [unfolded y]] by simp_all
      show thesis
      proof (cases "puts_verify sha256 e task ?part hex f2 s2")
        case (Inl s')
        then show thesis using up o x d y puts_verify_spec(1) [OF c2(1) Inl] c2(2)
          by (intro refused [of s']) (auto simp: changes_only_def part_complete_def intro: own_io_trans)
      next
        case v: (Inr s3)
        note ren = puts_verify_rename [OF hex c2(2,1) v]
        show thesis
        proof (cases "puts_rename e task ?part ?final s3")
          case (Inl s')
          then show thesis using up o x d y v ren(1) [OF Inl] by (intro refused [of s']) simp_all
        next
          case r: (Inr s4)
          show thesis by (rule stored [OF ren(2) [OF r]]) (use up o x d y v r in simp)
        qed
      qed
    qed
  qed
qed

end
