(* ===== verification/Tables.thy ===== *)
theory Tables
  imports Dao
begin

text \<open>
  What the data access functions rely on: the documented behaviour of a MySQL server on the three tables
  that \<open>src/server/database.c\<close> creates, for the statements that the functions send, and the predicate
  \<open>mysql_ok\<close> that a library \<open>M\<close> on worlds \<open>'w\<close> behaves so, where \<open>db w\<close> is the database in the world \<open>w\<close>.
  Text columns compare by their collation key \<open>coll\<close>. A reference server, which lexes and executes the
  statement text, shows that \<open>mysql_ok\<close> can hold.
\<close>

subsection \<open>Tables\<close>

record user_row =
  ur_id :: nat
  ur_name :: string
  ur_password :: string

record file_row =
  fr_id :: nat
  fr_hash :: string
  fr_size :: nat
  fr_refs :: nat

record path_row =
  pr_id :: nat
  pr_user :: nat
  pr_path :: string
  pr_file :: "nat option"
  pr_parent :: "nat option"
  pr_name :: string
  pr_type :: nat

record tables =
  users :: "user_row list"
  files :: "file_row list"
  paths :: "path_row list"

text \<open>
  The database as one client sees it: the current rows, the rows at the start of an open transaction,
  and the next values of the AUTO_INCREMENT columns, which a rollback does not reset.
\<close>

record database =
  tabs :: tables
  saved :: "tables option"
  next_user :: nat
  next_file :: nat
  next_path :: nat

datatype stmt =
    Start_Transaction | Commit | Rollback
  | Insert_User string string
  | Insert_Root nat
  | Select_Login string
  | Select_Node nat string
  | Insert_Dir nat string nat string
  | Select_Children nat nat
  | Delete_Path nat
  | Select_Ls nat nat
  | Select_File_Id nat nat
  | Delete_File_Path nat nat
  | Dec_Refs nat
  | Select_Refs nat
  | Delete_File nat
  | Select_By_Hash string nat
  | Inc_Refs nat
  | Insert_File_Path nat string nat nat string
  | Upsert_File string nat
  | Select_Meta nat string

fun toks :: "stmt \<Rightarrow> sql list" where
  "toks Start_Transaction = [L ''START TRANSACTION'']"
| "toks Commit = [L ''COMMIT'']"
| "toks Rollback = [L ''ROLLBACK'']"
| "toks (Insert_User name hash) =
     [L ''INSERT INTO users(username, password_hash) VALUES('', S name, L '', '', S hash, L '')'']"
| "toks (Insert_Root u) =
     [L ''INSERT INTO paths(user_id, path, file_id, parent_id, file_name, type) VALUES('', N u,
      L '', '', S ''/'', L '', NULL, NULL, '', S ''/'', L '', '', N 1, L '')'']"
| "toks (Select_Login name) =
     [L ''SELECT u.id, u.password_hash, p.id FROM users u JOIN paths p ON p.user_id = u.id WHERE u.username = '',
      S name, L '' AND p.path = '', S ''/'', L '' LIMIT '', N 1]"
| "toks (Select_Node u p) = [L ''SELECT id, type FROM paths WHERE user_id = '', N u, L '' AND path = '', S p]"
| "toks (Insert_Dir u p parent name) =
     [L ''INSERT INTO paths(user_id, path, file_id, parent_id, file_name, type) VALUES('', N u, L '', '',
      S p, L '', NULL, '', N parent, L '', '', S name, L '', '', N 1, L '')'']"
| "toks (Select_Children u parent) = [L ''SELECT * FROM paths WHERE user_id = '', N u, L '' AND parent_id = '', N parent]"
| "toks (Delete_Path i) = [L ''DELETE FROM paths WHERE id = '', N i]"
| "toks (Select_Ls u parent) = [L ''SELECT file_name, type FROM paths WHERE user_id = '', N u, L '' AND parent_id = '', N parent]"
| "toks (Select_File_Id i u) =
     [L ''SELECT file_id FROM paths WHERE id = '', N i, L '' AND user_id = '', N u, L '' AND type = '', N 0]"
| "toks (Delete_File_Path i u) =
     [L ''DELETE FROM paths WHERE id = '', N i, L '' AND user_id = '', N u, L '' AND type = '', N 0]"
| "toks (Dec_Refs f) = [L ''UPDATE files SET refs = refs - '', N 1, L '' WHERE id = '', N f, L '' AND refs > '', N 0]"
| "toks (Select_Refs f) = [L ''SELECT refs, LOWER(HEX(hash)) FROM files WHERE id = '', N f]"
| "toks (Delete_File f) = [L ''DELETE FROM files WHERE id = '', N f, L '' AND refs = '', N 0]"
| "toks (Select_By_Hash hex sz) =
     [L ''SELECT id FROM files WHERE hash = UNHEX('', S hex, L '') AND size = '', N sz, L '' LIMIT '', N 1]"
| "toks (Inc_Refs f) = [L ''UPDATE files SET refs = refs + '', N 1, L '' WHERE id = '', N f]"
| "toks (Insert_File_Path u p f parent name) =
     [L ''INSERT INTO paths(user_id, path, file_id, parent_id, file_name, type) VALUES('', N u, L '', '',
      S p, L '', '', N f, L '', '', N parent, L '', '', S name, L '', '', N 0, L '')'']"
| "toks (Upsert_File hex sz) =
     [L ''INSERT INTO files(hash, size, refs) VALUES(UNHEX('', S hex, L ''), '', N sz, L '', '', N 1,
      L '') ON DUPLICATE KEY UPDATE refs = refs + '', N 1, L '', id = LAST_INSERT_ID(id)'']"
| "toks (Select_Meta u p) =
     [L ''SELECT p.id, p.file_id, p.file_name, p.type, f.size,LOWER(HEX(f.hash)) AS hash_hex FROM paths p LEFT JOIN files f ON p.file_id = f.id WHERE p.user_id = '',
      N u, L '' AND p.path = '', S p, L '' LIMIT '', N 1]"

text \<open>Statements whose string arguments need no escaping.\<close>

fun plain_stmt :: "stmt \<Rightarrow> bool" where
  "plain_stmt (Insert_User name hash) \<longleftrightarrow> plain name \<and> plain hash"
| "plain_stmt (Select_Login name) \<longleftrightarrow> plain name"
| "plain_stmt (Select_Node u p) \<longleftrightarrow> plain p"
| "plain_stmt (Insert_Dir u p parent name) \<longleftrightarrow> plain p \<and> plain name"
| "plain_stmt (Select_By_Hash hex sz) \<longleftrightarrow> plain hex"
| "plain_stmt (Insert_File_Path u p f parent name) \<longleftrightarrow> plain p \<and> plain name"
| "plain_stmt (Upsert_File hex sz) \<longleftrightarrow> plain hex"
| "plain_stmt (Select_Meta u p) \<longleftrightarrow> plain p"
| "plain_stmt _ \<longleftrightarrow> True"

subsection \<open>Execution\<close>

text \<open>\<open>LOWER(HEX(UNHEX(hex)))\<close>.\<close>

definition lower :: "char \<Rightarrow> char" where
  "lower c = (let n = of_char c :: nat in if 65 \<le> n \<and> n \<le> 90 then char_of (n + 32) else c)"

definition lower_hex :: "string \<Rightarrow> string" where
  "lower_hex = map lower"

abbreviation num :: "nat \<Rightarrow> string option" where
  "num n \<equiv> Some (dec n)"

definition node_is :: "(string \<Rightarrow> string) \<Rightarrow> nat \<Rightarrow> string \<Rightarrow> path_row \<Rightarrow> bool" where
  "node_is coll u p r \<longleftrightarrow> pr_user r = u \<and> coll (pr_path r) = coll p"

text \<open>An INSERT into \<open>paths\<close>: refused for a duplicate \<open>(user_id, path)\<close> and for texts longer than their columns.\<close>

definition path_fits :: "path_row \<Rightarrow> bool" where
  "path_fits r \<longleftrightarrow> length (pr_path r) \<le> 768 \<and> length (pr_name r) \<le> 255"

definition insert_path :: "(string \<Rightarrow> string) \<Rightarrow> path_row \<Rightarrow> database \<Rightarrow> database option" where
  "insert_path coll r d =
     (if (\<exists>q \<in> set (paths (tabs d)). node_is coll (pr_user r) (pr_path r) q) \<or> \<not> path_fits r then None
      else Some (d\<lparr>tabs := (tabs d)\<lparr>paths := paths (tabs d) @ [r\<lparr>pr_id := next_path d\<rparr>]\<rparr>, next_path := next_path d + 1\<rparr>))"

definition meta_row :: "tables \<Rightarrow> path_row \<Rightarrow> string option list" where
  "meta_row t r =
     (let f = (case pr_file r of None \<Rightarrow> None | Some i \<Rightarrow> find (\<lambda>f. fr_id f = i) (files t))
      in [num (pr_id r), map_option dec (pr_file r), Some (pr_name r), num (pr_type r),
          map_option (\<lambda>f. dec (fr_size f)) f, map_option fr_hash f])"

text \<open>The rows of a SELECT.\<close>

fun select :: "(string \<Rightarrow> string) \<Rightarrow> stmt \<Rightarrow> tables \<Rightarrow> rows" where
  "select coll (Select_Login name) t =
     take 1 [[num (ur_id u), Some (ur_password u), num (pr_id p)].
       u \<leftarrow> users t, p \<leftarrow> paths t, coll (ur_name u) = coll name \<and> node_is coll (ur_id u) ''/'' p]"
| "select coll (Select_Node u p) t = map (\<lambda>r. [num (pr_id r), num (pr_type r)]) (filter (node_is coll u p) (paths t))"
| "select coll (Select_Children u parent) t =
     map (\<lambda>r. [num (pr_id r), num (pr_user r), Some (pr_path r), map_option dec (pr_file r), map_option dec (pr_parent r),
               Some (pr_name r), num (pr_type r)])
       (filter (\<lambda>r. pr_user r = u \<and> pr_parent r = Some parent) (paths t))"
| "select coll (Select_Ls u parent) t =
     map (\<lambda>r. [Some (pr_name r), num (pr_type r)]) (filter (\<lambda>r. pr_user r = u \<and> pr_parent r = Some parent) (paths t))"
| "select coll (Select_File_Id i u) t =
     map (\<lambda>r. [map_option dec (pr_file r)]) (filter (\<lambda>r. pr_id r = i \<and> pr_user r = u \<and> pr_type r = 0) (paths t))"
| "select coll (Select_Refs f) t = map (\<lambda>r. [num (fr_refs r), Some (fr_hash r)]) (filter (\<lambda>r. fr_id r = f) (files t))"
| "select coll (Select_By_Hash hex sz) t =
     take 1 (map (\<lambda>r. [num (fr_id r)]) (filter (\<lambda>r. fr_hash r = lower_hex hex \<and> fr_size r = sz) (files t)))"
| "select coll (Select_Meta u p) t = take 1 (map (meta_row t) (filter (node_is coll u p) (paths t)))"
| "select coll _ t = []"

definition on_paths :: "(path_row list \<Rightarrow> path_row list) \<Rightarrow> database \<Rightarrow> database" where
  "on_paths f d = d\<lparr>tabs := (tabs d)\<lparr>paths := f (paths (tabs d))\<rparr>\<rparr>"

definition on_files :: "(file_row list \<Rightarrow> file_row list) \<Rightarrow> database \<Rightarrow> database" where
  "on_files f d = d\<lparr>tabs := (tabs d)\<lparr>files := f (files (tabs d))\<rparr>\<rparr>"

definition add_refs :: "nat \<Rightarrow> file_row \<Rightarrow> file_row" where
  "add_refs n r = r\<lparr>fr_refs := fr_refs r + n\<rparr>"

text \<open>Executing a statement: \<open>None\<close> when the server refuses it, otherwise the database and the insert ID.\<close>

fun exec :: "(string \<Rightarrow> string) \<Rightarrow> stmt \<Rightarrow> database \<Rightarrow> (database \<times> nat) option" where
  "exec coll Start_Transaction d = Some (d\<lparr>saved := Some (tabs d)\<rparr>, 0)"
| "exec coll Commit d = Some (d\<lparr>saved := None\<rparr>, 0)"
| "exec coll Rollback d =
     Some (case saved d of None \<Rightarrow> d | Some t \<Rightarrow> d\<lparr>tabs := t, saved := None\<rparr>, 0)"
| "exec coll (Insert_User name hash) d =
     (if (\<exists>u \<in> set (users (tabs d)). coll (ur_name u) = coll name) \<or> length name > 64 \<or> length hash > 384 then None
      else Some (d\<lparr>tabs := (tabs d)\<lparr>users := users (tabs d) @ [\<lparr>ur_id = next_user d, ur_name = name, ur_password = hash\<rparr>]\<rparr>,
                   next_user := next_user d + 1\<rparr>, next_user d))"
| "exec coll (Insert_Root u) d =
     map_option (\<lambda>d'. (d', next_path d)) (insert_path coll
       \<lparr>pr_id = 0, pr_user = u, pr_path = ''/'', pr_file = None, pr_parent = None, pr_name = ''/'', pr_type = 1\<rparr> d)"
| "exec coll (Insert_Dir u p parent name) d =
     map_option (\<lambda>d'. (d', next_path d)) (insert_path coll
       \<lparr>pr_id = 0, pr_user = u, pr_path = p, pr_file = None, pr_parent = Some parent, pr_name = name, pr_type = 1\<rparr> d)"
| "exec coll (Insert_File_Path u p f parent name) d =
     map_option (\<lambda>d'. (d', next_path d)) (insert_path coll
       \<lparr>pr_id = 0, pr_user = u, pr_path = p, pr_file = Some f, pr_parent = Some parent, pr_name = name, pr_type = 0\<rparr> d)"
| "exec coll (Delete_Path i) d = Some (on_paths (filter (\<lambda>r. pr_id r \<noteq> i)) d, 0)"
| "exec coll (Delete_File_Path i u) d =
     Some (on_paths (filter (\<lambda>r. \<not> (pr_id r = i \<and> pr_user r = u \<and> pr_type r = 0))) d, 0)"
| "exec coll (Dec_Refs f) d =
     Some (on_files (map (\<lambda>r. if fr_id r = f \<and> fr_refs r > 0 then r\<lparr>fr_refs := fr_refs r - 1\<rparr> else r)) d, 0)"
| "exec coll (Inc_Refs f) d = Some (on_files (map (\<lambda>r. if fr_id r = f then add_refs 1 r else r)) d, 0)"
| "exec coll (Delete_File f) d = Some (on_files (filter (\<lambda>r. \<not> (fr_id r = f \<and> fr_refs r = 0))) d, 0)"
| "exec coll (Upsert_File hex sz) d =
     (case find (\<lambda>r. fr_hash r = lower_hex hex) (files (tabs d)) of
        Some r \<Rightarrow> Some (on_files (map (\<lambda>q. if fr_id q = fr_id r then add_refs 1 q else q)) d, fr_id r)
      | None \<Rightarrow> Some (d\<lparr>tabs := (tabs d)\<lparr>files := files (tabs d) @
                     [\<lparr>fr_id = next_file d, fr_hash = lower_hex hex, fr_size = sz, fr_refs = 1\<rparr>]\<rparr>,
                     next_file := next_file d + 1\<rparr>, next_file d))"
| "exec coll _ d = Some (d, 0)"

text \<open>A refusal because of a unique key.\<close>

fun duplicate :: "(string \<Rightarrow> string) \<Rightarrow> stmt \<Rightarrow> database \<Rightarrow> bool" where
  "duplicate coll (Insert_User name hash) d \<longleftrightarrow> (\<exists>u \<in> set (users (tabs d)). coll (ur_name u) = coll name)"
| "duplicate coll (Insert_Root u) d \<longleftrightarrow> (\<exists>q \<in> set (paths (tabs d)). node_is coll u ''/'' q)"
| "duplicate coll (Insert_Dir u p parent name) d \<longleftrightarrow> (\<exists>q \<in> set (paths (tabs d)). node_is coll u p q)"
| "duplicate coll (Insert_File_Path u p f parent name) d \<longleftrightarrow> (\<exists>q \<in> set (paths (tabs d)). node_is coll u p q)"
| "duplicate coll _ d \<longleftrightarrow> False"

definition undone :: "database \<Rightarrow> database \<Rightarrow> bool" where
  "undone d d' \<longleftrightarrow> (d' = d \<or> d' = (case saved d of None \<Rightarrow> d | Some t \<Rightarrow> d\<lparr>tabs := t, saved := None\<rparr>))"

text \<open>
  The contract. A query that returns 0 has executed the statement. A query that fails (constraint,
  lost connection) has not executed it, and the server may have rolled the transaction back; only for
  a \<open>COMMIT\<close> whose reply is lost the server may have committed. After a \<open>ROLLBACK\<close>, even one that fails
  because the connection is gone, the transaction is undone. The error number tells duplicate keys.
  \<open>mysql_store_result\<close> after a successful query returns its rows or fails.
\<close>

definition query_ok ::
  "'w mysql \<Rightarrow> (string \<Rightarrow> string) \<Rightarrow> ('w \<Rightarrow> database) \<Rightarrow> conn \<Rightarrow> stmt \<Rightarrow> 'w \<Rightarrow> int \<Rightarrow> 'w \<Rightarrow> bool" where
  "query_ok M coll db c st w ret w1 \<longleftrightarrow>
     (if ret = 0 then
        (\<exists>n. exec coll st (db w) = Some (db w1, n) \<and> (n < 2 ^ 64 \<longrightarrow> mysql_insert_id M c w1 = word_of_nat n)) \<and>
        (case mysql_store_result M c w1 of (res, w2) \<Rightarrow>
           db w2 = db w1 \<and> (res = None \<or> res = Some (select coll st (tabs (db w)))))
      else
        (if st = Rollback then exec coll Rollback (db w) = Some (db w1, 0)
         else if st = Commit then undone (db w) (db w1) \<or> exec coll Commit (db w) = Some (db w1, 0)
         else undone (db w) (db w1)) \<and>
        (mysql_errno M c w1 = ER_DUP_ENTRY \<longrightarrow> duplicate coll st (db w)))"

definition mysql_ok :: "'w mysql \<Rightarrow> (string \<Rightarrow> string) \<Rightarrow> ('w \<Rightarrow> database) \<Rightarrow> bool" where
  "mysql_ok M coll db \<longleftrightarrow>
     (\<forall>c st w ret w1. plain_stmt st \<longrightarrow> mysql_query M c (render (toks st)) w = (ret, w1) \<longrightarrow>
        query_ok M coll db c st w ret w1) \<and>
     (\<forall>c s. plain s \<longrightarrow> mysql_real_escape_string M c s = s)"

text \<open>The library never runs out of memory for the result of a SELECT.\<close>

fun is_select :: "stmt \<Rightarrow> bool" where
  "is_select (Select_Login _) \<longleftrightarrow> True"
| "is_select (Select_Node _ _) \<longleftrightarrow> True"
| "is_select (Select_Children _ _) \<longleftrightarrow> True"
| "is_select (Select_Ls _ _) \<longleftrightarrow> True"
| "is_select (Select_File_Id _ _) \<longleftrightarrow> True"
| "is_select (Select_Refs _) \<longleftrightarrow> True"
| "is_select (Select_By_Hash _ _) \<longleftrightarrow> True"
| "is_select (Select_Meta _ _) \<longleftrightarrow> True"
| "is_select _ \<longleftrightarrow> False"

definition results_stored :: "'w mysql \<Rightarrow> bool" where
  "results_stored M \<longleftrightarrow> (\<forall>c st w w1. is_select st \<longrightarrow> plain_stmt st \<longrightarrow>
     mysql_query M c (render (toks st)) w = (0, w1) \<longrightarrow> fst (mysql_store_result M c w1) \<noteq> None)"

subsection \<open>A reference server\<close>

text \<open>The statements that numbers \<open>ns\<close> and strings \<open>ss\<close>, in the order of the text, can form.\<close>

definition nth0 :: "nat list \<Rightarrow> nat \<Rightarrow> nat" where
  "nth0 ns i = (if i < length ns then ns ! i else 0)"

definition nth_str :: "string list \<Rightarrow> nat \<Rightarrow> string" where
  "nth_str ss i = (if i < length ss then ss ! i else [])"

definition candidates :: "nat list \<Rightarrow> string list \<Rightarrow> stmt list" where
  "candidates ns ss = (let n = nth0 ns; s = nth_str ss in
     [Start_Transaction, Commit, Rollback, Insert_User (s 0) (s 1), Insert_Root (n 0), Select_Login (s 0),
      Select_Node (n 0) (s 0), Insert_Dir (n 0) (s 0) (n 1) (s 1), Select_Children (n 0) (n 1), Delete_Path (n 0),
      Select_Ls (n 0) (n 1), Select_File_Id (n 0) (n 1), Delete_File_Path (n 0) (n 1), Dec_Refs (n 1), Select_Refs (n 0),
      Delete_File (n 0), Select_By_Hash (s 0) (n 0), Inc_Refs (n 1), Insert_File_Path (n 0) (s 0) (n 1) (n 2) (s 1),
      Upsert_File (s 0) (n 0), Select_Meta (n 0) (s 0)])"

primrec numbers :: "sql list \<Rightarrow> nat list" where
  "numbers [] = []"
| "numbers (t # ts) = (case t of N n \<Rightarrow> n # numbers ts | _ \<Rightarrow> numbers ts)"

primrec quoted :: "sql list \<Rightarrow> string list" where
  "quoted [] = []"
| "quoted (t # ts) = (case t of S s \<Rightarrow> s # quoted ts | _ \<Rightarrow> quoted ts)"

text \<open>The number of pieces and the length of the literal text tell the statements apart.\<close>

primrec text_length :: "sql list \<Rightarrow> nat" where
  "text_length [] = 0"
| "text_length (t # ts) = (case t of L s \<Rightarrow> length s | _ \<Rightarrow> 0) + text_length ts"

fun shape :: "stmt \<Rightarrow> nat \<times> nat" where
  "shape Start_Transaction = (1, 17)" | "shape Commit = (1, 6)" | "shape Rollback = (1, 8)"
| "shape (Insert_User _ _) = (5, 53)" | "shape (Insert_Root _) = (9, 96)" | "shape (Select_Login _) = (6, 121)"
| "shape (Select_Node _ _) = (4, 55)" | "shape (Insert_Dir _ _ _ _) = (11, 92)" | "shape (Select_Children _ _) = (4, 53)"
| "shape (Delete_Path _) = (2, 29)" | "shape (Select_Ls _ _) = (4, 67)" | "shape (Select_File_Id _ _) = (6, 64)"
| "shape (Delete_File_Path _ _) = (6, 56)" | "shape (Dec_Refs _) = (6, 55)" | "shape (Select_Refs _) = (2, 52)"
| "shape (Delete_File _) = (4, 41)" | "shape (Select_By_Hash _ _) = (6, 60)" | "shape (Inc_Refs _) = (4, 43)"
| "shape (Insert_File_Path _ _ _ _ _) = (13, 88)" | "shape (Upsert_File _ _) = (9, 119)" | "shape (Select_Meta _ _) = (6, 173)"

definition parse :: "string \<Rightarrow> stmt option" where
  "parse txt =
     (case lex txt of
        None \<Rightarrow> None
      | Some ts \<Rightarrow>
          (case map_of (map (\<lambda>st. (shape st, st)) (candidates (numbers ts) (quoted ts))) (length ts, text_length ts) of
             None \<Rightarrow> None
           | Some st \<Rightarrow> if toks st = ts then Some st else None))"

lemma lexable_toks: "plain_stmt st \<Longrightarrow> lexable (toks st)"
  by (cases st) (simp_all add: is_lit_def is_digit_def Q_def plain_def NUL_def)

lemma toks_shape: "(length (toks st), text_length (toks st)) = shape st"
  by (cases st) simp_all

lemma toks_candidate:
  "map_of (map (\<lambda>st. (shape st, st)) (candidates (numbers (toks st)) (quoted (toks st)))) (shape st) = Some st"
  by (cases st) (simp_all add: candidates_def nth0_def nth_str_def Let_def)

text \<open>Every statement text is read back as the statement it was made from.\<close>

lemma parse_render: "plain_stmt st \<Longrightarrow> parse (render (toks st)) = Some st"
  using toks_candidate [of st] toks_shape [of st] by (simp add: parse_def lex_render lexable_toks)

record server =
  srv_db :: database
  srv_rows :: "rows option"
  srv_id :: nat
  srv_errno :: nat

text \<open>The collation of the reference server is binary.\<close>

definition server_query :: "conn \<Rightarrow> string \<Rightarrow> server \<Rightarrow> int \<times> server" where
  "server_query c txt v =
     (case parse txt of
        None \<Rightarrow> (1, v\<lparr>srv_errno := 1064, srv_rows := None\<rparr>)
      | Some st \<Rightarrow>
          (case exec (\<lambda>s. s) st (srv_db v) of
             None \<Rightarrow> (1, v\<lparr>srv_errno := (if duplicate (\<lambda>s. s) st (srv_db v) then ER_DUP_ENTRY else 1406), srv_rows := None\<rparr>)
           | Some (d, n) \<Rightarrow>
               (0, \<lparr>srv_db = d, srv_rows = (if is_select st then Some (select (\<lambda>s. s) st (tabs (srv_db v))) else None),
                    srv_id = n, srv_errno = 0\<rparr>)))"

definition reference_mysql :: "server mysql" where
  "reference_mysql = \<lparr>mysql_query = server_query,
     mysql_store_result = (\<lambda>c v. (srv_rows v, v\<lparr>srv_rows := None\<rparr>)),
     mysql_insert_id = (\<lambda>c v. word_of_nat (srv_id v)),
     mysql_errno = (\<lambda>c v. srv_errno v),
     mysql_real_escape_string = (\<lambda>c s. concat (map (\<lambda>x. if x = Q \<or> x = CHR 0x5C then [CHR 0x5C, x] else [x]) s))\<rparr>"

lemma reference_fields [simp]:
  "mysql_query reference_mysql = server_query"
  "mysql_store_result reference_mysql c v = (srv_rows v, v\<lparr>srv_rows := None\<rparr>)"
  "mysql_insert_id reference_mysql c v = word_of_nat (srv_id v)" "mysql_errno reference_mysql c v = srv_errno v"
  by (simp_all add: reference_mysql_def)

lemma server_query_stmt:
  "plain_stmt st \<Longrightarrow> server_query c (render (toks st)) v =
     (case exec (\<lambda>s. s) st (srv_db v) of
        None \<Rightarrow> (1, v\<lparr>srv_errno := (if duplicate (\<lambda>s. s) st (srv_db v) then ER_DUP_ENTRY else 1406), srv_rows := None\<rparr>)
      | Some (d, n) \<Rightarrow>
          (0, \<lparr>srv_db = d, srv_rows = (if is_select st then Some (select (\<lambda>s. s) st (tabs (srv_db v))) else None),
               srv_id = n, srv_errno = 0\<rparr>))"
  by (simp add: server_query_def parse_render)

lemma escape_plain: "plain s \<Longrightarrow> concat (map (\<lambda>x. if x = Q \<or> x = CHR 0x5C then [CHR 0x5C, x] else [x]) s) = s"
  by (induction s) (auto simp: plain_def)

lemma reference_query_ok:
  assumes "plain_stmt st" "server_query c (render (toks st)) w = (ret, w1)"
  shows "query_ok reference_mysql (\<lambda>s. s) srv_db c st w ret w1"
proof (cases "exec (\<lambda>s. s) st (srv_db w)")
  case None
  then have "st \<noteq> Rollback" "st \<noteq> Commit" by auto
  then show ?thesis using assms(2) None
    by (auto simp: query_ok_def undone_def server_query_stmt [OF assms(1)] ER_DUP_ENTRY_def split: if_splits)
next
  case (Some dn)
  then show ?thesis using assms(2)
    by (cases dn) (auto simp: query_ok_def server_query_stmt [OF assms(1)] simp del: exec.simps)
qed

lemma reference_mysql_ok: "mysql_ok reference_mysql (\<lambda>s. s) srv_db"
  unfolding mysql_ok_def by (simp add: reference_query_ok del: toks.simps) (simp add: escape_plain reference_mysql_def)

lemma reference_results_stored: "results_stored reference_mysql"
  unfolding results_stored_def by (auto simp: server_query_stmt split: option.splits)

end
