(* ===== verification/Dao_Correct.thy ===== *)
theory Dao_Correct
  imports Tables
begin

text \<open>
  The data access functions on a database that behaves as \<open>mysql_ok\<close> says: lookups return what the tables
  hold, transactions take effect as a whole or not at all, connections go back to the pool, and the
  reference counts of stored files stay equal to the number of paths that refer to them.
\<close>

subsection \<open>Statements\<close>

definition sql_fits :: "nat \<Rightarrow> stmt \<Rightarrow> bool" where
  "sql_fits n st \<longleftrightarrow> plain_stmt st \<and> length (render (toks st)) < n"

lemma sql_text_fits: "sql_fits n st \<Longrightarrow> sql_text n (toks st) = render (toks st)"
  by (auto simp: sql_fits_def sql_text_def snprintf_def)

lemma query_stmt:
  assumes "mysql_ok M coll db" "sql_fits n st" "mysql_query M c (sql_text n (toks st)) w = (ret, w1)"
  shows "query_ok M coll db c st w ret w1"
  using assms by (simp add: mysql_ok_def sql_text_fits [OF assms(2)] sql_fits_def del: toks.simps)

lemma query_control:
  assumes "mysql_ok M coll db"
  shows "mysql_query M c ''START TRANSACTION'' w = (ret, w1) \<Longrightarrow> query_ok M coll db c Start_Transaction w ret w1"
    "mysql_query M c ''COMMIT'' w = (ret, w1) \<Longrightarrow> query_ok M coll db c Commit w ret w1"
    "mysql_query M c ''ROLLBACK'' w = (ret, w1) \<Longrightarrow> query_ok M coll db c Rollback w ret w1"
proof -
  have ok: "\<And>st. plain_stmt st \<Longrightarrow> mysql_query M c (render (toks st)) w = (ret, w1) \<Longrightarrow> query_ok M coll db c st w ret w1"
    using assms by (simp add: mysql_ok_def del: toks.simps)
  show "mysql_query M c ''START TRANSACTION'' w = (ret, w1) \<Longrightarrow> query_ok M coll db c Start_Transaction w ret w1"
    using ok [of Start_Transaction] by (simp add: render_def)
  show "mysql_query M c ''COMMIT'' w = (ret, w1) \<Longrightarrow> query_ok M coll db c Commit w ret w1"
    using ok [of Commit] by (simp add: render_def)
  show "mysql_query M c ''ROLLBACK'' w = (ret, w1) \<Longrightarrow> query_ok M coll db c Rollback w ret w1"
    using ok [of Rollback] by (simp add: render_def)
qed

lemma undone_idle: "saved d = None \<Longrightarrow> undone d d' \<Longrightarrow> d' = d"
  by (auto simp: undone_def)

text \<open>A pool from which a connection can be taken.\<close>

definition available :: "database_pool_t option \<Rightarrow> bool" where
  "available pool \<longleftrightarrow> (\<exists>p cs c. pool = Some p \<and> idle p (cs @ [c]))"

lemma available_acquire:
  assumes "available pool"
  obtains c pool1 where "database_pool_acquire pool = Some (Some c, pool1)"
    "database_pool_release pool1 (Some c) = Some pool"
proof -
  obtain p cs c where p: "pool = Some p" "idle p (cs @ [c])" using assms by (auto simp: available_def)
  obtain p' where "database_pool_acquire (Some p) = Some (Some c, Some p')" by (rule acquire_idle [OF p(2)])
  then show thesis using that [of c "Some p'"] p(1) release_acquire [OF p(2)] by simp
qed

text \<open>One SELECT through the pool, outside of a transaction.\<close>

lemma select_exec: "is_select st \<Longrightarrow> exec coll st d = Some (d, 0)"
  by (cases st) auto

lemma pool_select:
  assumes M: "mysql_ok M coll db" "results_stored M" and pool: "available pool"
    and st: "sql_fits n st" "is_select st" and idle: "saved (db w) = None"
  obtains ret res w' where "database_pool_query M (sql_text n (toks st)) pool w = Some (ret, res, pool, w')" "db w' = db w"
    "ret = 0 \<and> res = Some (select coll st (tabs (db w))) \<or> ret = - 1"
proof -
  obtain c pool1 where c: "database_pool_acquire pool = Some (Some c, pool1)" "database_pool_release pool1 (Some c) = Some pool"
    by (rule available_acquire [OF pool])
  obtain r w1 where q: "mysql_query M c (sql_text n (toks st)) w = (r, w1)" by (metis prod.collapse)
  note ok = query_stmt [OF M(1) st(1) q]
  show thesis
  proof (cases "r = 0")
    case True
    obtain res w2 where s: "mysql_store_result M c w1 = (res, w2)" by (metis prod.collapse)
    have "res \<noteq> None" using M(2) st q s True unfolding results_stored_def sql_fits_def
      by (metis fst_conv sql_text_fits st(1))
    then have "res = Some (select coll st (tabs (db w)))" "db w2 = db w"
      using ok True s st(2) by (auto simp: query_ok_def select_exec)
    moreover have "database_pool_query M (sql_text n (toks st)) pool w = Some (0, res, pool, w2)"
      using c q s True by (simp add: database_pool_query_def del: toks.simps)
    ultimately show thesis using that by blast
  next
    case False
    have "st \<noteq> Rollback" "st \<noteq> Commit" using st(2) by auto
    then have "undone (db w) (db w1)" using ok False by (simp add: query_ok_def)
    then have "db w1 = db w" by (rule undone_idle [OF idle])
    moreover have "database_pool_query M (sql_text n (toks st)) pool w = Some (- 1, None, pool, w1)"
      using c q False by (simp add: database_pool_query_def del: toks.simps)
    ultimately show thesis using that by blast
  qed
qed

text \<open>One statement without result through the pool.\<close>

lemma pool_exec:
  assumes M: "mysql_ok M coll db" and pool: "available pool"
    and st: "sql_fits n st" "st \<noteq> Rollback" "st \<noteq> Commit" and idle: "saved (db w) = None"
  obtains ret w' where "database_pool_execute M (sql_text n (toks st)) pool w = Some (ret, pool, w')"
    "ret = 0 \<and> (\<exists>k. exec coll st (db w) = Some (db w', k)) \<or>
     ret = 1 \<and> duplicate coll st (db w) \<and> db w' = db w \<or> ret = - 1 \<and> db w' = db w"
proof -
  obtain c pool1 where c: "database_pool_acquire pool = Some (Some c, pool1)" "database_pool_release pool1 (Some c) = Some pool"
    by (rule available_acquire [OF pool])
  obtain r w1 where q: "mysql_query M c (sql_text n (toks st)) w = (r, w1)" by (metis prod.collapse)
  note ok = query_stmt [OF M(1) st(1) q]
  let ?ret = "if r = 0 then 0 else if mysql_errno M c w1 = ER_DUP_ENTRY then 1 else - 1 :: int"
  have "database_pool_execute M (sql_text n (toks st)) pool w = Some (?ret, pool, w1)"
    using c q by (simp add: database_pool_execute_def del: toks.simps)
  moreover have "?ret = 0 \<and> (\<exists>k. exec coll st (db w) = Some (db w1, k)) \<or>
     ?ret = 1 \<and> duplicate coll st (db w) \<and> db w1 = db w \<or> ?ret = - 1 \<and> db w1 = db w"
    using ok st(2,3) undone_idle [OF idle] by (auto simp: query_ok_def split: if_splits)
  ultimately show thesis by (rule that)
qed

subsection \<open>Lookups\<close>

definition find_node :: "(string \<Rightarrow> string) \<Rightarrow> tables \<Rightarrow> nat \<Rightarrow> string \<Rightarrow> path_row option" where
  "find_node coll t u p = find (node_is coll u p) (paths t)"

text \<open>Numbers that the program can read back.\<close>

definition ids_fit :: "tables \<Rightarrow> bool" where
  "ids_fit t \<longleftrightarrow> (\<forall>r \<in> set (paths t). pr_id r < 2 ^ 64 \<and> pr_type r < 2 \<and> (\<forall>f. pr_file r = Some f \<longrightarrow> f < 2 ^ 64)) \<and>
     (\<forall>f \<in> set (files t). fr_id f < 2 ^ 64 \<and> fr_size f < 2 ^ 64 \<and> fr_refs f < 2 ^ 31) \<and>
     (\<forall>u \<in> set (users t). ur_id u < 2 ^ 64)"

lemma filter_find_None: "find P xs = None \<Longrightarrow> filter P xs = []"
  by (induction xs) (auto split: if_splits)

lemma filter_find_Some: "find P xs = Some x \<Longrightarrow> \<exists>ys. filter P xs = x # ys"
  by (induction xs) (auto split: if_splits)

lemma find_in: "find P xs = Some x \<Longrightarrow> x \<in> set xs \<and> P x"
  by (metis find_Some_iff nth_mem)

lemma to_int_small: "0 \<le> x \<Longrightarrow> x < 2 ^ 31 \<Longrightarrow> to_int x = x"
  by (simp add: to_int_def)

lemma to_int_type: "n < 2 \<Longrightarrow> to_int (strtol (dec n)) = int n"
  by (simp add: strtol_dec to_int_small)

lemma dao_path_get_node_id_spec:
  assumes M: "mysql_ok M coll db" "results_stored M" and pool: "available pool"
    and st: "sql_fits 1024 (Select_Node (unat u) p)" and idle: "saved (db w) = None" and ids: "ids_fit (tabs (db w))"
  obtains ret pid w' where "dao_path_get_node_id M u p pool w = Some (ret, pid, pool, w')" "db w' = db w"
    "ret = - 1 \<or> (case find_node coll (tabs (db w)) (unat u) p of
        None \<Rightarrow> ret = DAO_PATH_NOT_FOUND \<and> pid = None
      | Some r \<Rightarrow> ret = int (pr_type r) \<and> pid = Some (word_of_nat (pr_id r)))"
proof -
  obtain ret res w' where q: "database_pool_query M (sql_text 1024 (toks (Select_Node (unat u) p))) pool w = Some (ret, res, pool, w')"
    "db w' = db w" "ret = 0 \<and> res = Some (select coll (Select_Node (unat u) p) (tabs (db w))) \<or> ret = - 1"
    by (rule pool_select [OF M pool st _ idle]) simp
  show thesis
  proof (cases "ret = - 1")
    case True
    then have "dao_path_get_node_id M u p pool w = Some (- 1, None, pool, w')" using q by (simp add: dao_path_get_node_id_def)
    then show thesis using that q(2) by blast
  next
    case False
    then have ok: "ret = 0" "res = Some (map (\<lambda>r. [num (pr_id r), num (pr_type r)]) (filter (node_is coll (unat u) p) (paths (tabs (db w)))))"
      using q(3) by auto
    show thesis
    proof (cases "find_node coll (tabs (db w)) (unat u) p")
      case None
      then have "filter (node_is coll (unat u) p) (paths (tabs (db w))) = []"
        by (simp add: find_node_def filter_find_None)
      then have "dao_path_get_node_id M u p pool w = Some (DAO_PATH_NOT_FOUND, None, pool, w')"
        using q(1) ok by (simp add: dao_path_get_node_id_def)
      then show thesis using that q(2) None by simp
    next
      case (Some r)
      then have r: "pr_id r < 2 ^ 64" "pr_type r < 2" using find_in ids unfolding find_node_def ids_fit_def by metis+
      obtain ys where "filter (node_is coll (unat u) p) (paths (tabs (db w))) = r # ys"
        using filter_find_Some Some unfolding find_node_def by metis
      then have rows: "\<exists>rs. res = Some ([num (pr_id r), num (pr_type r)] # rs)" using ok(2) by simp
      have "int (pr_type r) = 0 \<or> int (pr_type r) = 1" using r(2) by auto
      then have "dao_path_get_node_id M u p pool w = Some (int (pr_type r), Some (word_of_nat (pr_id r)), pool, w')"
        using q(1) ok(1) rows to_int_type [OF r(2)] strtoull_dec [OF r(1)]
        by (elim exE disjE) (simp_all add: dao_path_get_node_id_def col_def Let_def)
      then show thesis using that q(2) Some by simp
    qed
  qed
qed

subsection \<open>Transactions\<close>

text \<open>The identifiers already given out stay given out.\<close>

definition later :: "database \<Rightarrow> database \<Rightarrow> bool" where
  "later d d' \<longleftrightarrow> next_user d \<le> next_user d' \<and> next_file d \<le> next_file d' \<and> next_path d \<le> next_path d'"

lemma later_refl [simp]: "later d d"
  by (simp add: later_def)

lemma later_trans: "later a b \<Longrightarrow> later b c \<Longrightarrow> later a c"
  by (auto simp: later_def)

text \<open>The identifiers in use have been given out.\<close>

definition ids_below :: "database \<Rightarrow> tables \<Rightarrow> bool" where
  "ids_below d t \<longleftrightarrow> (\<forall>r \<in> set (paths t). pr_id r < next_path d) \<and> (\<forall>f \<in> set (files t). fr_id f < next_file d) \<and>
     (\<forall>u \<in> set (users t). ur_id u < next_user d)"

lemma ids_below_later: "ids_below d t \<Longrightarrow> later d d' \<Longrightarrow> ids_below d' t"
  by (fastforce simp: ids_below_def later_def)

definition evolves :: "database \<Rightarrow> database \<Rightarrow> bool" where
  "evolves d d' \<longleftrightarrow> later d d' \<and> (ids_below d (tabs d) \<longrightarrow> ids_below d' (tabs d'))"

lemma evolves_refl [simp]: "evolves d d"
  by (simp add: evolves_def)

lemma evolves_trans: "evolves a b \<Longrightarrow> evolves b c \<Longrightarrow> evolves a c"
  using later_trans by (auto simp: evolves_def)

lemma evolves_later: "evolves d d' \<Longrightarrow> later d d'"
  by (simp add: evolves_def)

lemma evolves_same: "tabs d' = tabs d \<Longrightarrow> later d d' \<Longrightarrow> evolves d d'"
  using ids_below_later by (auto simp: evolves_def)

text \<open>A transaction begun on \<open>t\<close> is open, or has been undone.\<close>

definition pending :: "tables \<Rightarrow> database \<Rightarrow> bool" where
  "pending t d \<longleftrightarrow> saved d = Some t \<or> saved d = None \<and> tabs d = t"

definition txn_control :: "stmt \<Rightarrow> bool" where
  "txn_control st \<longleftrightarrow> st = Start_Transaction \<or> st = Commit \<or> st = Rollback"

lemma exec_saved:
  "exec coll st d = Some (d', n) \<Longrightarrow> \<not> txn_control st \<Longrightarrow> saved d' = saved d \<and> later d d'"
  by (cases st) (auto simp: txn_control_def on_paths_def on_files_def insert_path_def later_def split: if_splits option.splits)

lemma exec_ids_below:
  "exec coll st d = Some (d', n) \<Longrightarrow> \<not> txn_control st \<Longrightarrow> ids_below d (tabs d) \<Longrightarrow> ids_below d' (tabs d')"
  by (cases st)
     (auto simp: txn_control_def on_paths_def on_files_def insert_path_def ids_below_def add_refs_def less_Suc_eq split: if_splits option.splits, metis)

lemma exec_evolves: "exec coll st d = Some (d', n) \<Longrightarrow> \<not> txn_control st \<Longrightarrow> saved d' = saved d \<and> evolves d d'"
  using exec_saved exec_ids_below unfolding evolves_def by metis

lemma undone_pending:
  assumes "undone d d'" "saved d = Some t"
  shows "pending t d' \<and> later d d'"
  using assms by (auto simp: undone_def pending_def later_def)

text \<open>Inside a transaction a statement takes effect, or fails and leaves it pending.\<close>

lemma txn_stmt:
  assumes M: "mysql_ok M coll db" and st: "sql_fits n st" "\<not> txn_control st" and open1: "saved (db w) = Some t"
    and q: "mysql_query M c (sql_text n (toks st)) w = (r, w1)"
  shows "r = 0 \<and> saved (db w1) = Some t \<and> evolves (db w) (db w1) \<and>
      (\<exists>k. exec coll st (db w) = Some (db w1, k) \<and> (k < 2 ^ 64 \<longrightarrow> mysql_insert_id M c w1 = word_of_nat k)) \<or>
    r \<noteq> 0 \<and> pending t (db w1) \<and> later (db w) (db w1)"
proof -
  note ok = query_stmt [OF M st(1) q]
  show ?thesis
  proof (cases "r = 0")
    case True
    then show ?thesis using ok st(2) open1 exec_evolves by (fastforce simp: query_ok_def)
  next
    case False
    then have "undone (db w) (db w1)" using ok st(2) by (simp add: query_ok_def txn_control_def)
    then show ?thesis using False undone_pending open1 by blast
  qed
qed

lemma txn_start:
  assumes M: "mysql_ok M coll db" and idle: "saved (db w) = None" and q: "mysql_query M c ''START TRANSACTION'' w = (r, w1)"
  shows "r = 0 \<and> db w1 = (db w)\<lparr>saved := Some (tabs (db w))\<rparr> \<or> r \<noteq> 0 \<and> db w1 = db w"
  using query_control(1) [OF M q] undone_idle [OF idle] by (auto simp: query_ok_def split: if_splits)

lemma txn_fail_spec:
  assumes M: "mysql_ok M coll db" and pend: "pending t (db w)" and rel: "database_pool_release pool1 (Some c) = Some pool"
  obtains w' where "txn_fail M c ret pool1 w = Some (ret, pool, w')" "tabs (db w') = t" "saved (db w') = None" "later (db w) (db w')"
proof -
  obtain r w1 where q: "mysql_query M c ''ROLLBACK'' w = (r, w1)" by (metis prod.collapse)
  have "db w1 = (case saved (db w) of None \<Rightarrow> db w | Some t \<Rightarrow> (db w)\<lparr>tabs := t, saved := None\<rparr>)"
    using query_control(3) [OF M q] by (auto simp: query_ok_def split: if_splits)
  then have "tabs (db w1) = t" "saved (db w1) = None" "later (db w) (db w1)"
    using pend by (auto simp: pending_def later_def split: option.splits)
  moreover have "txn_fail M c ret pool1 w = Some (ret, pool, w1)" using q rel by (simp add: txn_fail_def)
  ultimately show thesis using that by blast
qed

lemma txn_commit_spec:
  assumes M: "mysql_ok M coll db" and open1: "saved (db w) = Some t" and rel: "database_pool_release pool1 (Some c) = Some pool"
  obtains ret w' where "txn_commit M c ok err pool1 w = Some (ret, pool, w')" "saved (db w') = None" "later (db w) (db w')"
    "ret = ok \<and> tabs (db w') = tabs (db w) \<or> ret = err \<and> (tabs (db w') = t \<or> tabs (db w') = tabs (db w))"
proof -
  obtain r w1 where q: "mysql_query M c ''COMMIT'' w = (r, w1)" by (metis prod.collapse)
  note qk = query_control(2) [OF M q]
  show thesis
  proof (cases "r = 0")
    case True
    then have "db w1 = (db w)\<lparr>saved := None\<rparr>" using qk by (auto simp: query_ok_def)
    moreover have "txn_commit M c ok err pool1 w = Some (ok, pool, w1)" using q rel True by (simp add: txn_commit_def)
    ultimately show thesis using that by (simp add: later_def)
  next
    case False
    then have "undone (db w) (db w1) \<or> db w1 = (db w)\<lparr>saved := None\<rparr>" using qk by (auto simp: query_ok_def)
    then have "(pending t (db w1) \<or> pending (tabs (db w)) (db w1)) \<and> later (db w) (db w1)"
    proof
      assume "undone (db w) (db w1)"
      then show ?thesis using undone_pending [OF _ open1] by blast
    qed (simp add: pending_def later_def)
    moreover have fail: "txn_commit M c ok err pool1 w = txn_fail M c err pool1 w1" using q False by (simp add: txn_commit_def)
    ultimately obtain w' where "txn_fail M c err pool1 w1 = Some (err, pool, w')" "saved (db w') = None" "later (db w1) (db w')"
      "tabs (db w') = t \<or> tabs (db w') = tabs (db w)"
      using txn_fail_spec [OF M _ rel] by metis
    then show thesis using that fail later_trans \<open>_ \<and> later (db w) (db w1)\<close> by metis
  qed
qed

text \<open>
  What a transaction promises: the connection is back in the pool, no transaction is left open, success
  means that all its statements took effect (\<open>good\<close>), failure that either all or none did.
\<close>

definition txn_outcome :: "('w \<Rightarrow> database) \<Rightarrow> 'w \<Rightarrow> database_pool_t option \<Rightarrow> (tables \<Rightarrow> 'a \<Rightarrow> bool) \<Rightarrow> ('a \<Rightarrow> bool) \<Rightarrow>
    ('a \<times> database_pool_t option \<times> 'w) option \<Rightarrow> bool" where
  "txn_outcome db w pool good failed res \<longleftrightarrow>
     (\<exists>ret w'. res = Some (ret, pool, w') \<and> saved (db w') = None \<and> evolves (db w) (db w') \<and>
        (good (tabs (db w')) ret \<or>
         failed ret \<and> (tabs (db w') = tabs (db w) \<or> (\<exists>ret'. good (tabs (db w')) ret'))))"

lemma txn_outcomeI:
  "res = Some (ret, pool, w') \<Longrightarrow> saved (db w') = None \<Longrightarrow> evolves (db w) (db w') \<Longrightarrow>
    good (tabs (db w')) ret \<or> failed ret \<and> (tabs (db w') = tabs (db w) \<or> (\<exists>ret'. good (tabs (db w')) ret')) \<Longrightarrow>
    txn_outcome db w pool good failed res"
  unfolding txn_outcome_def by blast

lemma txn_fail_outcome:
  assumes M: "mysql_ok M coll db" and v: "pending (tabs (db w)) (db v)" "later (db w) (db v)"
    and rel: "database_pool_release pool1 (Some c) = Some pool" and ret: "failed ret \<or> good (tabs (db w)) ret"
  shows "txn_outcome db w pool good failed (txn_fail M c ret pool1 v)"
proof -
  obtain w' where w': "txn_fail M c ret pool1 v = Some (ret, pool, w')" "tabs (db w') = tabs (db w)" "saved (db w') = None" "later (db v) (db w')"
    by (rule txn_fail_spec [OF M v(1) rel])
  show ?thesis by (rule txn_outcomeI [OF w'(1,3) evolves_same [OF w'(2) later_trans [OF v(2) w'(4)]]]) (use ret w'(2) in auto)
qed

lemma txn_commit_outcome:
  assumes M: "mysql_ok M coll db" and v: "saved (db v) = Some (tabs (db w))" "evolves (db w) (db v)"
    and rel: "database_pool_release pool1 (Some c) = Some pool" and ret: "good (tabs (db v)) ok" "failed err"
  shows "txn_outcome db w pool good failed (txn_commit M c ok err pool1 v)"
proof -
  obtain ret w' where w': "txn_commit M c ok err pool1 v = Some (ret, pool, w')" "saved (db w') = None" "later (db v) (db w')"
    "ret = ok \<and> tabs (db w') = tabs (db v) \<or> ret = err \<and> (tabs (db w') = tabs (db w) \<or> tabs (db w') = tabs (db v))"
    by (rule txn_commit_spec [OF M v(1) rel])
  then have "good (tabs (db w')) ret \<or> failed ret \<and> (tabs (db w') = tabs (db w) \<or> (\<exists>ret'. good (tabs (db w')) ret'))"
    using ret by metis
  moreover have ev: "evolves (db w) (db w')"
    using w'(3,4) v(2) evolves_trans [OF v(2)] evolves_same [of "db w'" "db v"]
      evolves_same [of "db w'" "db w"] later_trans [OF evolves_later [OF v(2)]] by metis
  ultimately show ?thesis by (intro txn_outcomeI [of _ ret pool w' db w, OF w'(1,2) ev])
qed

text \<open>
  Three functions are a transaction of two statements, the second of which may use the insert ID of
  the first.
\<close>

definition two_txn ::
  "'w mysql \<Rightarrow> nat \<Rightarrow> stmt \<Rightarrow> (u64 \<Rightarrow> stmt) \<Rightarrow> bool \<Rightarrow> database_pool_t option \<Rightarrow> 'w \<Rightarrow> (int \<times> database_pool_t option \<times> 'w) option" where
  "two_txn M n st1 st2 check pool w = do {
     (conn, pool1) \<leftarrow> database_pool_acquire pool;
     case conn of
       None \<Rightarrow> Some (- 1, pool1, w)
     | Some c \<Rightarrow> do {
         let (r, w1) = mysql_query M c ''START TRANSACTION'' w;
         if r \<noteq> 0 then do { pool2 \<leftarrow> database_pool_release pool1 conn; Some (- 1, pool2, w1) }
         else do {
           let (r, w2) = mysql_query M c (sql_text n (toks st1)) w1;
           if r \<noteq> 0 then txn_fail M c (- 1) pool1 w2
           else do {
             let k = mysql_insert_id M c w2;
             if check \<and> k = 0 then txn_fail M c (- 1) pool1 w2
             else do {
               let (r, w3) = mysql_query M c (sql_text n (toks (st2 k))) w2;
               if r \<noteq> 0 then txn_fail M c (- 1) pool1 w3
               else txn_commit M c 0 (- 1) pool1 w3 } } } } }"

definition two_effect :: "(string \<Rightarrow> string) \<Rightarrow> database \<Rightarrow> stmt \<Rightarrow> (u64 \<Rightarrow> stmt) \<Rightarrow> tables \<Rightarrow> bool" where
  "two_effect coll d st1 st2 t \<longleftrightarrow>
     (\<exists>d1 k d2 k2. exec coll st1 (d\<lparr>saved := Some (tabs d)\<rparr>) = Some (d1, k) \<and>
        exec coll (st2 (word_of_nat k)) d1 = Some (d2, k2) \<and> t = tabs d2)"

lemma two_txn_outcome:
  assumes M: "mysql_ok M coll db" and pool: "available pool" and idle: "saved (db w) = None"
    and st1: "sql_fits n st1" "\<not> txn_control st1" and st2: "\<And>k. sql_fits n (st2 k)" "\<And>k. \<not> txn_control (st2 k)"
    and small: "\<And>d1 k. exec coll st1 ((db w)\<lparr>saved := Some (tabs (db w))\<rparr>) = Some (d1, k) \<Longrightarrow> k < 2 ^ 64"
  shows "txn_outcome db w pool (\<lambda>t ret. ret = 0 \<and> two_effect coll (db w) st1 st2 t) (\<lambda>ret. ret = - 1) (two_txn M n st1 st2 check pool w)"
proof -
  let ?t = "tabs (db w)" and ?out = "txn_outcome db w pool (\<lambda>t (ret :: int). ret = 0 \<and> two_effect coll (db w) st1 st2 t) (\<lambda>ret. ret = - 1)"
  obtain c pool1 where c: "database_pool_acquire pool = Some (Some c, pool1)" "database_pool_release pool1 (Some c) = Some pool"
    by (rule available_acquire [OF pool])
  have fails: "?out (txn_fail M c (- 1) pool1 v)" if "pending ?t (db v)" "later (db w) (db v)" for v
    by (rule txn_fail_outcome [OF M that c(2)]) simp
  obtain r1 w1 where q1: "mysql_query M c ''START TRANSACTION'' w = (r1, w1)" by (metis prod.collapse)
  note s1 = txn_start [OF M idle q1]
  show ?thesis
  proof (cases "r1 = 0")
    case False
    then have "two_txn M n st1 st2 check pool w = Some (- 1, pool, w1)" using c q1 by (simp add: two_txn_def del: toks.simps)
    then show ?thesis using s1 False idle by (auto simp: txn_outcome_def)
  next
    case True
    then have d1: "db w1 = (db w)\<lparr>saved := Some ?t\<rparr>" using s1 by simp
    have l1: "evolves (db w) (db w1)" by (rule evolves_same) (simp_all add: d1 later_def)
    obtain r2 w2 where q2: "mysql_query M c (sql_text n (toks st1)) w1 = (r2, w2)" by (metis prod.collapse)
    have o1: "saved (db w1) = Some ?t" using d1 by simp
    note s2 = txn_stmt [OF M st1 o1 q2]
    show ?thesis
    proof (cases "r2 = 0")
      case False
      then have "two_txn M n st1 st2 check pool w = txn_fail M c (- 1) pool1 w2"
        using c q1 q2 \<open>r1 = 0\<close> by (simp add: two_txn_def del: toks.simps)
      then show ?thesis using fails [of w2] s2 False later_trans [OF evolves_later [OF l1]] by simp
    next
      case t2: True
      then obtain k where k: "exec coll st1 (db w1) = Some (db w2, k)" "k < 2 ^ 64 \<longrightarrow> mysql_insert_id M c w2 = word_of_nat k"
        "saved (db w2) = Some ?t" "evolves (db w1) (db w2)" using s2 by blast
      have k64: "k < 2 ^ 64" using small k(1) d1 by simp
      obtain r3 w3 where q3: "mysql_query M c (sql_text n (toks (st2 (word_of_nat k)))) w2 = (r3, w3)" by (metis prod.collapse)
      note s3 = txn_stmt [OF M st2(1) st2(2) k(3) q3]
      have l2: "evolves (db w) (db w2)" using evolves_trans [OF l1 k(4)] .
      have eq: "two_txn M n st1 st2 check pool w =
          (if check \<and> (word_of_nat k :: u64) = 0 then txn_fail M c (- 1) pool1 w2
           else if r3 \<noteq> 0 then txn_fail M c (- 1) pool1 w3 else txn_commit M c 0 (- 1) pool1 w3)"
        using c q1 q2 q3 \<open>r1 = 0\<close> t2 k(2) k64 by (simp add: two_txn_def Let_def del: toks.simps)
      have "?out (txn_commit M c 0 (- 1) pool1 w3)" if "r3 = 0"
      proof -
        have o3: "saved (db w3) = Some ?t" "evolves (db w) (db w3)" using s3 that evolves_trans [OF l2] by auto
        have eff: "two_effect coll (db w) st1 st2 (tabs (db w3))" using s3 that k(1) d1 unfolding two_effect_def by auto
        show ?thesis by (rule txn_commit_outcome [OF M o3 c(2)]) (simp_all add: eff)
      qed
      moreover have "?out (txn_fail M c (- 1) pool1 w3)" if "r3 \<noteq> 0" using fails [of w3] s3 that later_trans [OF evolves_later [OF l2]] by simp
      moreover have "?out (txn_fail M c (- 1) pool1 w2)" using fails [of w2] k(3) evolves_later [OF l2] by (simp add: pending_def)
      ultimately show ?thesis using eq by (cases "r3 = 0") auto
    qed
  qed
qed

lemma register_two: "dao_auth_register M name hash = two_txn M 1024 (Insert_User name hash) (\<lambda>k. Insert_Root (unat k)) False"
  unfolding dao_auth_register_def two_txn_def Let_def toks.simps simp_thms if_False by (rule refl)

lemma escape_plain_id: "mysql_ok M coll db \<Longrightarrow> plain s \<Longrightarrow> mysql_real_escape_string M c s = s"
  by (simp add: mysql_ok_def)

lemma link_two:
  assumes "mysql_ok M coll db" "plain p" "plain name"
  shows "dao_link_existing_file M u p parent name f =
    two_txn M 10240 (Inc_Refs (unat f)) (\<lambda>k. Insert_File_Path (unat u) p (unat f) (unat parent) name) False"
  unfolding dao_link_existing_file_def insert_file_path_def two_txn_def Let_def toks.simps simp_thms if_False
    escape_plain_id [OF assms(1,2)] escape_plain_id [OF assms(1,3)] by (rule refl)

lemma create_two:
  assumes "mysql_ok M coll db" "plain p" "plain name"
  shows "dao_create_file_with_path M u p parent name hex sz =
    two_txn M 10240 (Upsert_File hex (unat sz)) (\<lambda>k. Insert_File_Path (unat u) p (unat k) (unat parent) name) True"
  unfolding dao_create_file_with_path_def insert_file_path_def two_txn_def Let_def toks.simps simp_thms
    escape_plain_id [OF assms(1,2)] escape_plain_id [OF assms(1,3)] by (rule refl)

subsection \<open>The invariant of the tables\<close>

text \<open>The number of paths that refer to a stored file.\<close>

definition refs_of :: "path_row list \<Rightarrow> nat \<Rightarrow> nat" where
  "refs_of ps i = length (filter (\<lambda>r. pr_file r = Some i) ps)"

definition paths_ok :: "(string \<Rightarrow> string) \<Rightarrow> path_row list \<Rightarrow> bool" where
  "paths_ok coll ps \<longleftrightarrow> distinct (map pr_id ps) \<and> distinct (map (\<lambda>r. (pr_user r, coll (pr_path r))) ps) \<and>
     (\<forall>r \<in> set ps. pr_type r = (if pr_file r = None then 1 else 0))"

definition files_ok :: "path_row list \<Rightarrow> file_row list \<Rightarrow> bool" where
  "files_ok ps fs \<longleftrightarrow> distinct (map fr_id fs) \<and> distinct (map fr_hash fs) \<and>
     (\<forall>f \<in> set fs. length (fr_hash f) = 64 \<and> 0 < fr_refs f \<and> fr_refs f = refs_of ps (fr_id f)) \<and>
     (\<forall>r \<in> set ps. \<forall>i. pr_file r = Some i \<longrightarrow> i \<in> fr_id ` set fs)"

definition tables_inv :: "(string \<Rightarrow> string) \<Rightarrow> tables \<Rightarrow> bool" where
  "tables_inv coll t \<longleftrightarrow> paths_ok coll (paths t) \<and> files_ok (paths t) (files t)"

lemma refs_of_simps [simp]:
  "refs_of [] i = 0"
  "refs_of (r # ps) i = (if pr_file r = Some i then Suc (refs_of ps i) else refs_of ps i)"
  "refs_of (ps @ qs) i = refs_of ps i + refs_of qs i"
  by (simp_all add: refs_of_def)

lemma refs_of_filter:
  assumes "distinct (map pr_id ps)" "r \<in> set ps"
  shows "refs_of ps i = refs_of (filter (\<lambda>q. pr_id q \<noteq> pr_id r) ps) i + (if pr_file r = Some i then 1 else 0)"
  using assms
proof (induction ps)
  case (Cons q ps)
  show ?case
  proof (cases "q = r")
    case True
    then have "filter (\<lambda>q. pr_id q \<noteq> pr_id r) ps = ps" using Cons.prems(1) by (auto simp: filter_id_conv) (metis imageI)
    then show ?thesis using True by simp
  next
    case False
    then have "r \<in> set ps" using Cons.prems(2) by simp
    then have "pr_id q \<noteq> pr_id r" using Cons.prems(1) by auto
    then show ?thesis using Cons.IH [OF _ \<open>r \<in> set ps\<close>] Cons.prems(1) by simp
  qed
qed simp

text \<open>Adding and removing a path.\<close>

lemma paths_ok_snoc:
  assumes "paths_ok coll ps" "pr_id r \<notin> pr_id ` set ps" "\<not> (\<exists>q \<in> set ps. node_is coll (pr_user r) (pr_path r) q)"
    "pr_type r = (if pr_file r = None then 1 else 0)"
  shows "paths_ok coll (ps @ [r])"
  using assms by (auto simp: paths_ok_def node_is_def)

lemma paths_ok_filter: "paths_ok coll ps \<Longrightarrow> paths_ok coll (filter P ps)"
  by (auto simp: paths_ok_def distinct_map_filter)

lemma tables_inv_add_dir:
  assumes "tables_inv coll t" "paths_ok coll (paths t @ [r])" "pr_file r = None"
  shows "tables_inv coll (t\<lparr>paths := paths t @ [r]\<rparr>)"
  using assms by (auto simp: tables_inv_def files_ok_def)

lemma tables_inv_remove_dir:
  assumes inv: "tables_inv coll t" and r: "r \<in> set (paths t)" "pr_file r = None"
  shows "tables_inv coll (t\<lparr>paths := filter (\<lambda>q. pr_id q \<noteq> pr_id r) (paths t)\<rparr>)"
proof -
  have d: "distinct (map pr_id (paths t))" using inv by (simp add: tables_inv_def paths_ok_def)
  have "refs_of (filter (\<lambda>q. pr_id q \<noteq> pr_id r) (paths t)) i = refs_of (paths t) i" for i
    using refs_of_filter [OF d r(1), of i] r(2) by simp
  then show ?thesis using inv paths_ok_filter by (auto simp: tables_inv_def files_ok_def)
qed

lemma files_okI:
  assumes "distinct (map fr_id fs)" "distinct (map fr_hash fs)"
    "\<And>f. f \<in> set fs \<Longrightarrow> length (fr_hash f) = 64 \<and> 0 < fr_refs f \<and> fr_refs f = refs_of ps (fr_id f)"
    "\<And>r i. r \<in> set ps \<Longrightarrow> pr_file r = Some i \<Longrightarrow> i \<in> fr_id ` set fs"
  shows "files_ok ps fs"
  using assms unfolding files_ok_def by blast

text \<open>Changing reference counts only.\<close>

lemma files_ok_map:
  assumes fs: "files_ok ps fs" and h: "\<And>g. fr_id (h g) = fr_id g" "\<And>g. fr_hash (h g) = fr_hash g"
    and refs: "\<And>g. g \<in> set fs \<Longrightarrow> 0 < fr_refs (h g) \<and> fr_refs (h g) = refs_of ps' (fr_id g)"
    and live: "\<And>r i. r \<in> set ps' \<Longrightarrow> pr_file r = Some i \<Longrightarrow> i \<in> fr_id ` set fs"
  shows "files_ok ps' (map h fs)"
proof -
  have maps: "map fr_id (map h fs) = map fr_id fs" "map fr_hash (map h fs) = map fr_hash fs" using h by auto
  show ?thesis
  proof (rule files_okI)
    show "distinct (map fr_id (map h fs))" "distinct (map fr_hash (map h fs))"
      unfolding maps using fs by (simp_all add: files_ok_def)
    show "length (fr_hash f) = 64 \<and> 0 < fr_refs f \<and> fr_refs f = refs_of ps' (fr_id f)" if "f \<in> set (map h fs)" for f
      using fs refs that h unfolding files_ok_def by auto
    show "i \<in> fr_id ` set (map h fs)" if "r \<in> set ps'" "pr_file r = Some i" for r i
      using live [OF that] maps(1) by (metis list.set_map)
  qed
qed

lemma tables_inv_add_ref:
  assumes inv: "tables_inv coll t" and r: "paths_ok coll (paths t @ [r])" "pr_file r = Some i" "i \<in> fr_id ` set (files t)"
  shows "tables_inv coll (t\<lparr>paths := paths t @ [r], files := map (\<lambda>f. if fr_id f = i then add_refs 1 f else f) (files t)\<rparr>)"
proof -
  have fok: "files_ok (paths t) (files t)" using inv by (simp add: tables_inv_def)
  have live: "j \<in> fr_id ` set (files t)" if "q \<in> set (paths t @ [r])" "pr_file q = Some j" for q j
    using fok r(2,3) that unfolding files_ok_def by (metis Un_iff empty_iff insert_iff list.set(1,2) option.inject set_append)
  have "files_ok (paths t @ [r]) (map (\<lambda>f. if fr_id f = i then add_refs 1 f else f) (files t))"
    by (rule files_ok_map [OF fok]) (use r(2) fok live in \<open>auto simp: add_refs_def files_ok_def\<close>)
  then show ?thesis using r(1) by (simp add: tables_inv_def)
qed

lemma tables_inv_add_file:
  assumes inv: "tables_inv coll t" and r: "paths_ok coll (paths t @ [r])" "pr_file r = Some i"
    and f: "fr_id f = i" "i \<notin> fr_id ` set (files t)" "fr_hash f \<notin> fr_hash ` set (files t)" "length (fr_hash f) = 64" "fr_refs f = 1"
  shows "tables_inv coll (t\<lparr>paths := paths t @ [r], files := files t @ [f]\<rparr>)"
proof -
  have "refs_of (paths t) i = 0"
    using inv f(2) by (auto simp: refs_of_def tables_inv_def files_ok_def filter_empty_conv)
  then show ?thesis using inv r f by (auto simp: tables_inv_def files_ok_def)
qed

text \<open>Removing a reference, and the file with its last one.\<close>

definition drop_ref :: "path_row \<Rightarrow> file_row \<Rightarrow> tables \<Rightarrow> tables" where
  "drop_ref r f t = t\<lparr>paths := filter (\<lambda>q. pr_id q \<noteq> pr_id r) (paths t),
     files := (if fr_refs f = 1 then filter (\<lambda>g. fr_id g \<noteq> fr_id f) (files t)
               else map (\<lambda>g. if fr_id g = fr_id f then g\<lparr>fr_refs := fr_refs g - 1\<rparr> else g) (files t))\<rparr>"

lemma tables_inv_drop_ref:
  assumes inv: "tables_inv coll t" and r: "r \<in> set (paths t)" "pr_file r = Some (fr_id f)" and f: "f \<in> set (files t)"
  shows "tables_inv coll (drop_ref r f t)"
proof -
  let ?ps = "filter (\<lambda>q. pr_id q \<noteq> pr_id r) (paths t)"
  have d: "distinct (map pr_id (paths t))" "distinct (map fr_id (files t))" "distinct (map fr_hash (files t))"
    using inv by (simp_all add: tables_inv_def paths_ok_def files_ok_def)
  have same: "g = f" if "g \<in> set (files t)" "fr_id g = fr_id f" for g
    using d(2) that f by (simp add: distinct_map inj_on_def)
  have refs: "refs_of (paths t) i = refs_of ?ps i + (if fr_id f = i then 1 else 0)" for i
    using refs_of_filter [OF d(1) r(1), of i] r(2) by simp
  have fok: "length (fr_hash g) = 64 \<and> 0 < fr_refs g \<and> fr_refs g = refs_of (paths t) (fr_id g)" if "g \<in> set (files t)" for g
    using inv that unfolding tables_inv_def files_ok_def by blast
  have live: "i \<in> fr_id ` set (files t)" if "q \<in> set (paths t)" "pr_file q = Some i" for q i
    using inv that by (simp add: tables_inv_def files_ok_def)
  have ps: "paths_ok coll ?ps" using inv paths_ok_filter by (simp add: tables_inv_def)
  show ?thesis
  proof (cases "fr_refs f = 1")
    case True
    have zero: "refs_of ?ps (fr_id f) = 0" using refs [of "fr_id f"] fok [OF f] True by simp
    have other: "pr_file q \<noteq> Some (fr_id f)" if "q \<in> set ?ps" for q
      using zero that by (auto simp: refs_of_def filter_empty_conv)
    have live': "i \<in> fr_id ` set (filter (\<lambda>g. fr_id g \<noteq> fr_id f) (files t))" if q: "q \<in> set ?ps" "pr_file q = Some i" for q i
    proof -
      have "i \<in> fr_id ` set (files t)" using live q by auto
      moreover have "i \<noteq> fr_id f" using other [OF q(1)] q(2) by auto
      ultimately show ?thesis by auto
    qed
    have fok': "length (fr_hash g) = 64 \<and> 0 < fr_refs g \<and> fr_refs g = refs_of ?ps (fr_id g)"
      if "g \<in> set (filter (\<lambda>g. fr_id g \<noteq> fr_id f) (files t))" for g
      using that fok [of g] refs [of "fr_id g"] by auto
    have "files_ok ?ps (filter (\<lambda>g. fr_id g \<noteq> fr_id f) (files t))"
      by (rule files_okI [OF _ _ fok' live']) (use d in \<open>simp_all add: distinct_map_filter\<close>)
    then show ?thesis using ps True by (simp add: tables_inv_def drop_ref_def)
  next
    case False
    let ?g = "\<lambda>g. if fr_id g = fr_id f then g\<lparr>fr_refs := fr_refs g - 1\<rparr> else g"
    have refs': "0 < fr_refs (?g h) \<and> fr_refs (?g h) = refs_of ?ps (fr_id h)" if "h \<in> set (files t)" for h
    proof (cases "fr_id h = fr_id f")
      case True
      then have "h = f" by (rule same [OF that])
      then show ?thesis using fok [OF f] refs [of "fr_id f"] \<open>fr_refs f \<noteq> 1\<close> by auto
    next
      case False
      then show ?thesis using fok [OF that] refs [of "fr_id h"] by simp
    qed
    have fs: "files_ok (paths t) (files t)" using inv by (simp add: tables_inv_def)
    have "files_ok ?ps (map ?g (files t))" by (rule files_ok_map [OF fs _ _ refs']) (use live in auto)
    then show ?thesis using ps False by (simp add: tables_inv_def drop_ref_def)
  qed
qed

end
