(* ===== verification/Dao_Effects.thy ===== *)
theory Dao_Effects
  imports Dao_Correct
begin

text \<open>
  What each data access function does to the tables: which rows it adds, removes or changes, on success
  and on failure, and that the invariant of the tables is kept.
\<close>

subsection \<open>Statements with numbers only always fit\<close>

lemma length_dec: "n < 10 ^ Suc k \<Longrightarrow> length (dec n) \<le> Suc k"
proof (induction k arbitrary: n)
  case (Suc k)
  show ?case
  proof (cases "n < 10")
    case False
    have "n div 10 < 10 ^ Suc k" using Suc.prems by (simp add: less_mult_imp_div_less)
    from Suc.IH [OF this] show ?thesis using False by (subst dec.simps) simp
  qed (subst dec.simps, simp)
qed (subst dec.simps, simp)

lemma length_dec64: "length (dec (unat (x :: u64))) \<le> 20"
proof -
  have "unat x < 2 ^ 64" using unsigned_less [of x] by simp
  also have "(2 :: nat) ^ 64 < 10 ^ Suc 19" by simp
  finally show ?thesis using length_dec [of "unat x" 19] by simp
qed

lemma length_dec_small [simp]: "length (dec 0) = 1" "length (dec 1) = 1" "length (dec (Suc 0)) = 1"
  by (simp_all add: dec.simps)

lemma fits_numbers:
  "sql_fits 1024 (Select_Children (unat (a :: u64)) (unat (b :: u64)))"
  "sql_fits 1024 (Delete_Path (unat a))"
  "sql_fits 1024 (Select_Ls (unat a) (unat b))"
  "sql_fits 1024 (Select_File_Id (unat a) (unat b))"
  "sql_fits 1024 (Delete_File_Path (unat a) (unat b))"
  "sql_fits 1024 (Dec_Refs (unat a))"
  "sql_fits 1024 (Select_Refs (unat a))"
  "sql_fits 1024 (Delete_File (unat a))"
  "sql_fits 1024 (Insert_Root (unat a))"
  "sql_fits 10240 (Inc_Refs (unat a))"
  using length_dec64 [of a] length_dec64 [of b]
  by (simp_all add: sql_fits_def render_def plain_def Q_def NUL_def)

text \<open>Statements with path names fit when the names do.\<close>

lemma fits_node: "plain p \<Longrightarrow> length p \<le> 900 \<Longrightarrow> sql_fits 1024 (Select_Node (unat (u :: u64)) p)"
  using length_dec64 [of u] by (simp add: sql_fits_def render_def)

lemma fits_insert_dir:
  "plain p \<Longrightarrow> plain name \<Longrightarrow> length p + length name \<le> 850 \<Longrightarrow> sql_fits 1024 (Insert_Dir (unat (u :: u64)) p (unat (i :: u64)) name)"
  using length_dec64 [of u] length_dec64 [of i] by (simp add: sql_fits_def render_def)

lemma fits_insert_file:
  "plain p \<Longrightarrow> plain name \<Longrightarrow> length p + length name \<le> 9000 \<Longrightarrow>
    sql_fits 10240 (Insert_File_Path (unat (u :: u64)) p (unat (f :: u64)) (unat (i :: u64)) name)"
  using length_dec64 [of u] length_dec64 [of i] length_dec64 [of f] by (simp add: sql_fits_def render_def)

lemma fits_hash:
  "plain h \<Longrightarrow> length h = 64 \<Longrightarrow> sql_fits 1024 (Select_By_Hash h (unat (n :: u64)))"
  "plain h \<Longrightarrow> length h = 64 \<Longrightarrow> sql_fits 10240 (Upsert_File h (unat n))"
  using length_dec64 [of n] by (simp_all add: sql_fits_def render_def)

lemma fits_meta: "plain p \<Longrightarrow> length p \<le> 800 \<Longrightarrow> sql_fits 1024 (Select_Meta (unat (u :: u64)) p)"
  using length_dec64 [of u] by (simp add: sql_fits_def render_def)

lemma fits_user:
  "plain name \<Longrightarrow> length name \<le> 128 \<Longrightarrow> sql_fits 1024 (Select_Login name)"
  "plain name \<Longrightarrow> plain hash \<Longrightarrow> length name + length hash \<le> 900 \<Longrightarrow> sql_fits 1024 (Insert_User name hash)"
  by (simp_all add: sql_fits_def render_def plain_def Q_def NUL_def)

subsection \<open>Removing a file\<close>

text \<open>A SELECT inside a transaction.\<close>

lemma txn_select:
  assumes M: "mysql_ok M coll db" and st: "sql_fits n st" "is_select st" and open1: "saved (db w) = Some t"
    and q: "mysql_query M c (sql_text n (toks st)) w = (0, w1)" and s: "mysql_store_result M c w1 = (res, w2)"
  shows "db w1 = db w" "db w2 = db w" "res = None \<or> res = Some (select coll st (tabs (db w)))"
  using query_stmt [OF M st(1) q] s select_exec [OF st(2)] by (auto simp: query_ok_def)

definition rm_row :: "tables \<Rightarrow> nat \<Rightarrow> nat \<Rightarrow> path_row \<Rightarrow> bool" where
  "rm_row t i u r \<longleftrightarrow> r \<in> set (paths t) \<and> pr_id r = i \<and> pr_user r = u \<and> pr_type r = 0"

definition rm_good :: "tables \<Rightarrow> nat \<Rightarrow> nat \<Rightarrow> tables \<Rightarrow> int \<times> string \<Rightarrow> bool" where
  "rm_good t0 i u t ret \<longleftrightarrow>
     (\<exists>r f. rm_row t0 i u r \<and> f \<in> set (files t0) \<and> pr_file r = Some (fr_id f) \<and> t = drop_ref r f t0 \<and>
        ret = (if fr_refs f = 1 then (DAO_SHOULD_DELETE_PHYSICAL, fr_hash f) else (DAO_OK, []))) \<or>
     (\<nexists>r. rm_row t0 i u r) \<and> t = t0 \<and> ret = (DAO_NOT_FOUND, [])"

lemma distinct_filter_one:
  assumes "distinct (map f xs)" "x \<in> set xs" "P x" "\<And>y. y \<in> set xs \<Longrightarrow> P y \<Longrightarrow> f y = f x"
  shows "filter P xs = [x]"
  using assms
proof (induction xs)
  case (Cons a xs)
  show ?case
  proof (cases "a = x")
    case True
    have "\<not> P y" if "y \<in> set xs" for y
    proof
      assume "P y"
      then have "f y = f x" using Cons.prems(4) that by simp
      then show False using Cons.prems(1) that True by (metis distinct.simps(2) image_eqI list.set_map list.simps(9))
    qed
    then show ?thesis using True Cons.prems(3) by simp
  next
    case False
    then have "x \<in> set xs" using Cons.prems(2) by simp
    moreover have "\<not> P a"
    proof
      assume "P a"
      then have "f a = f x" using Cons.prems(4) by simp
      then show False using Cons.prems(1) \<open>x \<in> set xs\<close> by auto
    qed
    moreover have "filter P xs = [x]"
      by (rule Cons.IH [OF _ \<open>x \<in> set xs\<close> Cons.prems(3)]) (use Cons.prems(1,4) in simp_all)
    ultimately show ?thesis by simp
  qed
qed simp

text \<open>The tables after the DELETE and the UPDATE, and after the last DELETE.\<close>

lemma drop_ref_steps:
  assumes inv: "tables_inv coll t" and r: "rm_row t i u r" "pr_file r = Some (fr_id f)" and f: "f \<in> set (files t)"
  defines "ps \<equiv> filter (\<lambda>r. \<not> (pr_id r = i \<and> pr_user r = u \<and> pr_type r = 0)) (paths t)"
    and "fs \<equiv> map (\<lambda>g. if fr_id g = fr_id f \<and> fr_refs g > 0 then g\<lparr>fr_refs := fr_refs g - 1\<rparr> else g) (files t)"
  shows "filter (\<lambda>g. fr_id g = fr_id f) fs = [f\<lparr>fr_refs := fr_refs f - 1\<rparr>]"
    "fr_refs f \<noteq> 1 \<Longrightarrow> t\<lparr>paths := ps, files := fs\<rparr> = drop_ref r f t"
    "fr_refs f = 1 \<Longrightarrow> t\<lparr>paths := ps, files := filter (\<lambda>g. \<not> (fr_id g = fr_id f \<and> fr_refs g = 0)) fs\<rparr> = drop_ref r f t"
proof -
  have d: "distinct (map pr_id (paths t))" "distinct (map fr_id (files t))"
    using inv by (simp_all add: tables_inv_def paths_ok_def files_ok_def)
  have pos: "0 < fr_refs g" if "g \<in> set (files t)" for g using inv that unfolding tables_inv_def files_ok_def by metis
  have same: "g = f" if "g \<in> set (files t)" "fr_id g = fr_id f" for g
    using d(2) that f by (simp add: distinct_map inj_on_def)
  have "q = r" if "q \<in> set (paths t)" "pr_id q = pr_id r" for q
    using d(1) that r(1) unfolding rm_row_def by (simp add: distinct_map inj_on_def)
  then have ps: "ps = filter (\<lambda>q. pr_id q \<noteq> pr_id r) (paths t)"
    unfolding ps_def using r(1) by (intro filter_cong [OF refl]) (metis rm_row_def)
  have fs: "fs = map (\<lambda>g. if fr_id g = fr_id f then g\<lparr>fr_refs := fr_refs g - 1\<rparr> else g) (files t)"
    unfolding fs_def using pos by (intro map_cong) auto
  show "fr_refs f \<noteq> 1 \<Longrightarrow> t\<lparr>paths := ps, files := fs\<rparr> = drop_ref r f t" by (simp add: drop_ref_def ps fs)
  have "filter (\<lambda>g. \<not> (fr_id g = fr_id f \<and> fr_refs g = 0)) fs = filter (\<lambda>g. fr_id g \<noteq> fr_id f) (files t)" if "fr_refs f = 1"
  proof -
    have "filter (\<lambda>g. \<not> (fr_id g = fr_id f \<and> fr_refs g = 0)) fs =
        map (\<lambda>g. if fr_id g = fr_id f then g\<lparr>fr_refs := fr_refs g - 1\<rparr> else g) (filter (\<lambda>g. fr_id g \<noteq> fr_id f) (files t))"
    proof -
      have "fr_refs (if fr_id g = fr_id f then g\<lparr>fr_refs := fr_refs g - 1\<rparr> else g) = 0" if "g \<in> set (files t)" "fr_id g = fr_id f" for g
        using same [OF that] \<open>fr_refs f = 1\<close> by simp
      then show ?thesis unfolding fs filter_map comp_def by (intro arg_cong [where f = "map _"] filter_cong) auto
    qed
    also have "\<dots> = filter (\<lambda>g. fr_id g \<noteq> fr_id f) (files t)" by (rule map_idI) auto
    finally show ?thesis .
  qed
  then show "fr_refs f = 1 \<Longrightarrow> t\<lparr>paths := ps, files := filter (\<lambda>g. \<not> (fr_id g = fr_id f \<and> fr_refs g = 0)) fs\<rparr> = drop_ref r f t"
    by (simp add: drop_ref_def ps)
  have "filter (\<lambda>g. fr_id g = fr_id f) (files t) = [f]" by (rule distinct_filter_one [OF d(2) f]) auto
  moreover have "filter (\<lambda>g. fr_id g = fr_id f) fs =
      map (\<lambda>g. if fr_id g = fr_id f then g\<lparr>fr_refs := fr_refs g - 1\<rparr> else g) (filter (\<lambda>g. fr_id g = fr_id f) (files t))"
    unfolding fs filter_map comp_def by (intro arg_cong [where f = "map _"] filter_cong) auto
  ultimately show "filter (\<lambda>g. fr_id g = fr_id f) fs = [f\<lparr>fr_refs := fr_refs f - 1\<rparr>]" by simp
qed

lemma unat_of_nat64: "i < 2 ^ 64 \<Longrightarrow> unat (word_of_nat i :: u64) = i"
  by (simp add: unat_of_nat)

text \<open>The second half of \<open>dao_rm_file\<close>, after the path is deleted and the count decremented.\<close>

lemma rm_file_release_outcome:
  assumes M: "mysql_ok M coll db" and inv: "tables_inv coll t" and ids: "ids_fit t"
    and r: "rm_row t i u r" "pr_file r = Some (fr_id f)" and f: "f \<in> set (files t)"
    and d: "saved (db v) = Some t" "tabs (db v) = t\<lparr>paths := filter (\<lambda>r. \<not> (pr_id r = i \<and> pr_user r = u \<and> pr_type r = 0)) (paths t),
      files := map (\<lambda>g. if fr_id g = fr_id f \<and> fr_refs g > 0 then g\<lparr>fr_refs := fr_refs g - 1\<rparr> else g) (files t)\<rparr>"
    and w: "evolves (db w) (db v)" "tabs (db w) = t"
    and rel: "database_pool_release pool1 (Some c) = Some pool" and sz: "64 < n"
  shows "txn_outcome db w pool (rm_good t i u) (\<lambda>ret. fst ret = DAO_DB_ERROR) (rm_file_release M c (word_of_nat (fr_id f)) n pool1 v)"
proof -
  let ?out = "txn_outcome db w pool (rm_good t i u) (\<lambda>ret. fst ret = DAO_DB_ERROR)"
  have fid: "fr_id f < 2 ^ 64" "fr_refs f < 2 ^ 31" using ids f by (auto simp: ids_fit_def)
  then have un: "unat (word_of_nat (fr_id f) :: u64) = fr_id f" by (simp add: unat_of_nat64)
  have len: "length (fr_hash f) = 64" using inv f by (simp add: tables_inv_def files_ok_def)
  note steps = drop_ref_steps [OF inv r f]
  have fails: "?out (txn_fail M c ret pool1 x)" if "pending t (db x)" "later (db v) (db x)" "fst ret = DAO_DB_ERROR" for ret x
    by (rule txn_fail_outcome [OF M _ later_trans [OF evolves_later [OF w(1)] that(2)] rel]) (use that w(2) in auto)
  have commits: "?out (txn_commit M c ok err pool1 x)"
    if "saved (db x) = Some t" "evolves (db v) (db x)" "rm_good t i u (tabs (db x)) ok" "fst err = DAO_DB_ERROR" for ok err x
    by (rule txn_commit_outcome [OF M _ evolves_trans [OF w(1) that(2)] rel]) (use that w(2) in simp_all)
  obtain r1 v1 where q1: "mysql_query M c (sql_text 1024 (toks (Select_Refs (fr_id f)))) v = (r1, v1)" by (metis prod.collapse)
  note ft = fits_numbers(7) [where a = "word_of_nat (fr_id f)", unfolded un]
  note s1 = txn_stmt [OF M ft _ d(1) q1]
  show ?thesis
  proof (cases "r1 = 0")
    case False
    then have "rm_file_release M c (word_of_nat (fr_id f)) n pool1 v = txn_fail M c (DAO_DB_ERROR, []) pool1 v1"
      using q1 by (simp add: rm_file_release_def un)
    then show ?thesis using fails s1 False by (simp add: txn_control_def)
  next
    case True
    obtain res v2 where st: "mysql_store_result M c v1 = (res, v2)" by (metis prod.collapse)
    note sel = txn_select [OF M ft _ d(1) q1 [unfolded True] st]
    have db2: "db v2 = db v" using sel by simp
    have rows: "res = None \<or> res = Some [[num (fr_refs f - 1), Some (fr_hash f)]]"
      using sel(3) d(2) steps(1) by simp
    show ?thesis
    proof (cases "res = None")
      case True
      then have "rm_file_release M c (word_of_nat (fr_id f)) n pool1 v = txn_fail M c (DAO_DB_ERROR, []) pool1 v2"
        using q1 st \<open>r1 = 0\<close> by (simp add: rm_file_release_def un)
      then show ?thesis using fails [of v2] db2 d(1) by (simp add: pending_def)
    next
      case False
      then have res: "res = Some [[num (fr_refs f - 1), Some (fr_hash f)]]" using rows by blast
      have refs: "to_int (strtol (dec (fr_refs f - 1))) = int (fr_refs f - 1)"
        using fid(2) by (simp add: strtol_dec to_int_small)
      have pos: "0 < fr_refs f" using inv f unfolding tables_inv_def files_ok_def by metis
      have hash: "strncpy n (fr_hash f) = fr_hash f" using len sz by (simp add: strncpy_def)
      obtain r3 v3 where q3: "mysql_query M c (sql_text 1024 (toks (Delete_File (fr_id f)))) v2 = (r3, v3)" by (metis prod.collapse)
      have d2: "saved (db v2) = Some t" using db2 d(1) by simp
      note s3 = txn_stmt [OF M fits_numbers(8) [where a = "word_of_nat (fr_id f)", unfolded un] _ d2 q3]
      have eq: "rm_file_release M c (word_of_nat (fr_id f)) n pool1 v =
          (if fr_refs f - 1 = 0
           then (if r3 \<noteq> 0 then txn_fail M c (DAO_DB_ERROR, fr_hash f) pool1 v3
                 else txn_commit M c (DAO_SHOULD_DELETE_PHYSICAL, fr_hash f) (DAO_DB_ERROR, fr_hash f) pool1 v3)
           else txn_commit M c (DAO_OK, []) (DAO_DB_ERROR, []) pool1 v2)"
        using q1 st q3 \<open>r1 = 0\<close> res refs hash by (simp add: rm_file_release_def un col_def Let_def)
      have "?out (txn_commit M c (DAO_OK, []) (DAO_DB_ERROR, []) pool1 v2)" if "fr_refs f \<noteq> 1"
        by (rule commits) (use that d db2 steps(2) r f in \<open>auto simp: rm_good_def\<close>)
      moreover have "?out (txn_fail M c (DAO_DB_ERROR, fr_hash f) pool1 v3)" if "r3 \<noteq> 0"
        using fails [of v3] s3 that db2 by (simp add: txn_control_def)
      moreover have "?out (txn_commit M c (DAO_SHOULD_DELETE_PHYSICAL, fr_hash f) (DAO_DB_ERROR, fr_hash f) pool1 v3)"
        if "r3 = 0" "fr_refs f = 1"
      proof (rule commits)
        have v3: "db v3 = on_files (filter (\<lambda>r. \<not> (fr_id r = fr_id f \<and> fr_refs r = 0))) (db v2)" "saved (db v3) = Some t"
          "evolves (db v2) (db v3)" using s3 that(1) by (auto simp: txn_control_def)
        have "tabs (db v3) = drop_ref r f t" using v3(1) db2 d(2) steps(3) [OF that(2)] by (simp add: on_files_def)
        then show "rm_good t i u (tabs (db v3)) (DAO_SHOULD_DELETE_PHYSICAL, fr_hash f)"
          using r f that(2) by (auto simp: rm_good_def)
        show "saved (db v3) = Some t" "evolves (db v) (db v3)" using v3 db2 by auto
      qed simp
      ultimately show ?thesis using eq pos by (cases "fr_refs f = 1"; cases "r3 = 0") auto
    qed
  qed
qed

lemma rm_row_file:
  assumes "tables_inv coll t" "ids_fit t" "rm_row t i u r"
  obtains f where "pr_file r = Some (fr_id f)" "f \<in> set (files t)" "fr_id f < 2 ^ 64"
proof -
  have "pr_file r \<noteq> None" using assms(1,3) by (auto simp: tables_inv_def paths_ok_def rm_row_def split: if_splits)
  then obtain f where "pr_file r = Some (fr_id f)" "f \<in> set (files t)"
    using assms(1,3) unfolding tables_inv_def files_ok_def rm_row_def by (metis imageE not_None_eq)
  then show thesis using that assms(2) by (simp add: ids_fit_def)
qed

text \<open>The two statements before it.\<close>

lemma rm_file_outcome_found:
  assumes M: "mysql_ok M coll db" and inv: "tables_inv coll t" and ids: "ids_fit t"
    and r: "rm_row t (unat (i :: u64)) (unat (u :: u64)) r" "pr_file r = Some (fr_id f)" and f: "f \<in> set (files t)"
    and d: "saved (db v) = Some t" "tabs (db v) = t" and w: "evolves (db w) (db v)" "tabs (db w) = t"
    and rel: "database_pool_release pool1 (Some c) = Some pool" and sz: "64 < n"
  shows "txn_outcome db w pool (rm_good t (unat i) (unat u)) (\<lambda>ret. fst ret = DAO_DB_ERROR)
    (let (r, w4) = mysql_query M c (sql_text 1024 (toks (Delete_File_Path (unat i) (unat u)))) v in
       if r \<noteq> 0 then txn_fail M c (DAO_DB_ERROR, []) pool1 w4
       else let (r, w5) = mysql_query M c (sql_text 1024 (toks (Dec_Refs (fr_id f)))) w4 in
         if r \<noteq> 0 then txn_fail M c (DAO_DB_ERROR, []) pool1 w5
         else rm_file_release M c (word_of_nat (fr_id f)) n pool1 w5)"
proof -
  have fails: "txn_outcome db w pool (rm_good t (unat i) (unat u)) (\<lambda>ret. fst ret = DAO_DB_ERROR) (txn_fail M c (DAO_DB_ERROR, []) pool1 x)"
    if "pending t (db x)" "later (db w) (db x)" for x
    by (rule txn_fail_outcome [OF M _ that(2) rel]) (use that w(2) in auto)
  have un: "unat (word_of_nat (fr_id f) :: u64) = fr_id f" using ids f by (simp add: ids_fit_def unat_of_nat64)
  obtain r4 w4 where q4: "mysql_query M c (sql_text 1024 (toks (Delete_File_Path (unat i) (unat u)))) v = (r4, w4)" by (metis prod.collapse)
  obtain r5 w5 where q5: "mysql_query M c (sql_text 1024 (toks (Dec_Refs (fr_id f)))) w4 = (r5, w5)" by (metis prod.collapse)
  note s4 = txn_stmt [OF M fits_numbers(5) _ d(1) q4]
  show ?thesis
  proof (cases "r4 = 0")
    case False
    then show ?thesis using q4 fails [of w4] s4 later_trans [OF evolves_later [OF w(1)]] by (simp add: txn_control_def del: toks.simps)
  next
    case r4: True
    then have d4: "saved (db w4) = Some t" "evolves (db v) (db w4)"
      "db w4 = on_paths (filter (\<lambda>r. \<not> (pr_id r = unat i \<and> pr_user r = unat u \<and> pr_type r = 0))) (db v)"
      using s4 by (auto simp: txn_control_def)
    note l4 = evolves_trans [OF w(1) d4(2)]
    note s5 = txn_stmt [OF M fits_numbers(6) [where a = "word_of_nat (fr_id f)", unfolded un] _ d4(1) q5]
    show ?thesis
    proof (cases "r5 = 0")
      case False
      then show ?thesis using q4 q5 r4 fails [of w5] s5 later_trans [OF evolves_later [OF l4]] by (simp add: txn_control_def del: toks.simps)
    next
      case r5: True
      have d5: "saved (db w5) = Some t" "evolves (db w4) (db w5)" "exec coll (Dec_Refs (fr_id f)) (db w4) = Some (db w5, 0)"
        using s5 r5 by (auto simp: txn_control_def)
      moreover have "tabs (db w5) = t\<lparr>paths := filter (\<lambda>r. \<not> (pr_id r = unat i \<and> pr_user r = unat u \<and> pr_type r = 0)) (paths t),
          files := map (\<lambda>g. if fr_id g = fr_id f \<and> fr_refs g > 0 then g\<lparr>fr_refs := fr_refs g - 1\<rparr> else g) (files t)\<rparr>"
        using d5(3) [symmetric] d4(3) d(2) by (simp add: on_files_def on_paths_def)
      ultimately show ?thesis using q4 q5 r4 r5 rm_file_release_outcome [OF M inv ids r f _ _ evolves_trans [OF l4] w(2) rel sz]
        by (simp del: toks.simps)
    qed
  qed
qed

lemma dao_rm_file_outcome:
  assumes M: "mysql_ok M coll db" and pool: "available pool" and idle: "saved (db w) = None"
    and inv: "tables_inv coll (tabs (db w))" and ids: "ids_fit (tabs (db w))" and sz: "64 < n"
  shows "txn_outcome db w pool (rm_good (tabs (db w)) (unat i) (unat u)) (\<lambda>ret. fst ret = DAO_DB_ERROR) (dao_rm_file M u i n pool w)"
proof -
  let ?t = "tabs (db w)" and ?st = "Select_File_Id (unat i) (unat u)"
  let ?out = "txn_outcome db w pool (rm_good ?t (unat i) (unat u)) (\<lambda>ret. fst ret = DAO_DB_ERROR)"
  obtain c pool1 where c: "database_pool_acquire pool = Some (Some c, pool1)" "database_pool_release pool1 (Some c) = Some pool"
    by (rule available_acquire [OF pool])
  have fails: "?out (txn_fail M c (DAO_DB_ERROR, []) pool1 x)" if "pending ?t (db x)" "later (db w) (db x)" for x
    by (rule txn_fail_outcome [OF M that c(2)]) simp
  obtain r1 w1 where q1: "mysql_query M c ''START TRANSACTION'' w = (r1, w1)" by (metis prod.collapse)
  obtain r2 w2 where q2: "mysql_query M c (sql_text 1024 (toks ?st)) w1 = (r2, w2)" by (metis prod.collapse)
  obtain res w3 where st: "mysql_store_result M c w2 = (res, w3)" by (metis prod.collapse)
  note s1 = txn_start [OF M idle q1]
  have l1: "evolves (db w) (db w1)" using s1 by (intro evolves_same) (auto simp: later_def)
  show ?thesis
  proof (cases "r1 = 0")
    case False
    then have "dao_rm_file M u i n pool w = Some ((DAO_DB_ERROR, []), pool, w1)" using c q1 by (simp add: dao_rm_file_def)
    then show ?thesis using s1 False idle by (auto simp: txn_outcome_def)
  next
    case r1: True
    then have o1: "saved (db w1) = Some ?t" "tabs (db w1) = ?t" using s1 by auto
    note s2 = txn_stmt [OF M fits_numbers(4) _ o1(1) q2]
    show ?thesis
    proof (cases "r2 = 0")
      case False
      then have "dao_rm_file M u i n pool w = txn_fail M c (DAO_DB_ERROR, []) pool1 w2"
        using c q1 q2 r1 by (simp add: dao_rm_file_def)
      then show ?thesis using fails [of w2] s2 False later_trans [OF evolves_later [OF l1]] by (simp add: txn_control_def)
    next
      case r2: True
      note sel = txn_select [OF M fits_numbers(4) _ o1(1) q2 [unfolded r2] st]
      have d3: "db w3 = db w1" "saved (db w3) = Some ?t" "tabs (db w3) = ?t" "evolves (db w) (db w3)" using sel o1 l1 by auto
      have rows: "res = None \<or> res = Some (map (\<lambda>r. [map_option dec (pr_file r)])
          (filter (\<lambda>r. pr_id r = unat i \<and> pr_user r = unat u \<and> pr_type r = 0) (paths ?t)))" using sel(3) o1(2) by simp
      have f3: "?out (txn_fail M c (DAO_DB_ERROR, []) pool1 w3)" by (rule fails) (use d3 evolves_later in \<open>auto simp: pending_def\<close>)
      have none: "dao_rm_file M u i n pool w = txn_fail M c (DAO_DB_ERROR, []) pool1 w3" if "res = None"
        using c q1 q2 r1 r2 st that by (simp add: dao_rm_file_def)
      show ?thesis
      proof (cases "\<exists>r. rm_row ?t (unat i) (unat u) r")
        case False
        then have "filter (\<lambda>r. pr_id r = unat i \<and> pr_user r = unat u \<and> pr_type r = 0) (paths ?t) = []"
          by (auto simp: rm_row_def filter_empty_conv)
        then have "dao_rm_file M u i n pool w = txn_fail M c (DAO_NOT_FOUND, []) pool1 w3" if "res \<noteq> None"
          using c q1 q2 r1 r2 st rows that by (auto simp: dao_rm_file_def)
        moreover have "?out (txn_fail M c (DAO_NOT_FOUND, []) pool1 w3)"
          by (rule txn_fail_outcome [OF M _ evolves_later [OF d3(4)] c(2)]) (use d3 False in \<open>auto simp: pending_def rm_good_def\<close>)
        ultimately show ?thesis using none f3 by (cases "res = None") auto
      next
        case True
        then obtain r where r: "rm_row ?t (unat i) (unat u) r" by blast
        have "filter (\<lambda>r. pr_id r = unat i \<and> pr_user r = unat u \<and> pr_type r = 0) (paths ?t) = [r]"
          by (rule distinct_filter_one [where f = pr_id]) (use inv r in \<open>auto simp: tables_inv_def paths_ok_def rm_row_def\<close>)
        moreover obtain f where f: "pr_file r = Some (fr_id f)" "f \<in> set (files ?t)" "fr_id f < 2 ^ 64" by (rule rm_row_file [OF inv ids r])
        ultimately have "res = None \<or> res = Some [[num (fr_id f)]]" using rows by simp
        moreover have "?out (dao_rm_file M u i n pool w)" if "res = Some [[num (fr_id f)]]"
          using rm_file_outcome_found [OF M inv ids r f(1,2) d3(2,3,4) refl c(2) sz, unfolded toks.simps] c q1 q2 r1 r2 st that strtoull_dec [OF f(3)]
          by (simp add: dao_rm_file_def col_def unat_of_nat64 [OF f(3)] Let_def cong del: prod.case_cong_weak if_weak_cong)
        ultimately show ?thesis using none f3 by metis
      qed
    qed
  qed
qed

subsection \<open>The invariant of the database\<close>

definition db_ok :: "(string \<Rightarrow> string) \<Rightarrow> database \<Rightarrow> bool" where
  "db_ok coll d \<longleftrightarrow> saved d = None \<and> tables_inv coll (tabs d) \<and> ids_below d (tabs d) \<and> (\<forall>f \<in> set (files (tabs d)). fr_size f < 2 ^ 64)"

text \<open>There is room for more rows as long as fewer than \<open>2 ^ 31\<close> paths have been created.\<close>

definition room :: "database \<Rightarrow> bool" where
  "room d \<longleftrightarrow> next_user d < 2 ^ 64 \<and> next_file d < 2 ^ 64 \<and> next_path d < 2 ^ 31"

lemma refs_of_le: "refs_of ps i \<le> length ps"
  by (simp add: refs_of_def)

lemma length_below: "distinct (map f xs) \<Longrightarrow> (\<And>x. x \<in> set xs \<Longrightarrow> f x < n) \<Longrightarrow> length xs \<le> n"
proof -
  assume a: "distinct (map f xs)" "\<And>x. x \<in> set xs \<Longrightarrow> f x < n"
  have "length xs = card (f ` set xs)" using distinct_card [OF a(1)] by simp
  also have "\<dots> \<le> card {..<n}" by (rule card_mono) (use a(2) in auto)
  finally show "length xs \<le> n" by simp
qed

lemma ids_fitI:
  assumes "db_ok coll d" "room d"
  shows "ids_fit (tabs d)"
proof -
  have p: "paths_ok coll (paths (tabs d))" and f: "files_ok (paths (tabs d)) (files (tabs d))"
    and b: "ids_below d (tabs d)" and sz: "\<forall>f \<in> set (files (tabs d)). fr_size f < 2 ^ 64"
    using assms(1) by (simp_all add: db_ok_def tables_inv_def)
  have fid: "fr_id g < 2 ^ 64" if "g \<in> set (files (tabs d))" for g
    using b that assms(2) less_trans unfolding ids_below_def room_def by blast
  have "length (paths (tabs d)) \<le> next_path d"
    by (rule length_below [of pr_id]) (use p b in \<open>auto simp: paths_ok_def ids_below_def\<close>)
  then have refs: "fr_refs g < 2 ^ 31" if "g \<in> set (files (tabs d))" for g
    using f that assms(2) refs_of_le [of "paths (tabs d)" "fr_id g"] unfolding files_ok_def room_def
    by (metis (no_types, lifting) le_trans linorder_not_le)
  have row: "pr_id r < 2 ^ 64 \<and> pr_type r < 2 \<and> (\<forall>i. pr_file r = Some i \<longrightarrow> i < 2 ^ 64)" if r: "r \<in> set (paths (tabs d))" for r
  proof (intro conjI allI impI)
    have "pr_id r < next_path d" using b r by (simp add: ids_below_def)
    also have "\<dots> < 2 ^ 31" using assms(2) by (simp add: room_def)
    finally show "pr_id r < 2 ^ 64" by simp
    have "pr_type r = (if pr_file r = None then 1 else 0)" using p r unfolding paths_ok_def by blast
    then show "pr_type r < 2" by (simp split: if_splits)
    show "i < 2 ^ 64" if "pr_file r = Some i" for i using f r that fid unfolding files_ok_def by blast
  qed
  have "ur_id u < 2 ^ 64" if "u \<in> set (users (tabs d))" for u
    using b that assms(2) less_trans unfolding ids_below_def room_def by blast
  then show ?thesis unfolding ids_fit_def using fid refs row sz by blast
qed

lemma db_ok_fresh:
  assumes "db_ok coll d"
  shows "next_path d \<notin> pr_id ` set (paths (tabs d))" "next_file d \<notin> fr_id ` set (files (tabs d))"
  using assms by (auto simp: db_ok_def ids_below_def)

text \<open>What an INSERT into \<open>paths\<close> that succeeds has checked.\<close>

lemma insert_path_Some:
  assumes "insert_path coll r d = Some d'"
  shows "d' = d\<lparr>tabs := (tabs d)\<lparr>paths := paths (tabs d) @ [r\<lparr>pr_id := next_path d\<rparr>]\<rparr>, next_path := next_path d + 1\<rparr>"
    "\<not> (\<exists>q \<in> set (paths (tabs d)). node_is coll (pr_user r) (pr_path r) q)"
  using assms by (auto simp: insert_path_def split: if_splits)

lemma insert_path_paths_ok:
  assumes "insert_path coll r d = Some d'" "paths_ok coll (paths (tabs d))" "next_path d \<notin> pr_id ` set (paths (tabs d))"
    "pr_type r = (if pr_file r = None then 1 else 0)"
  shows "paths_ok coll (paths (tabs d) @ [r\<lparr>pr_id := next_path d\<rparr>])"
  by (rule paths_ok_snoc) (use assms insert_path_Some(2) [OF assms(1)] in auto)

subsection \<open>The tables after each operation\<close>

text \<open>Registration.\<close>

text \<open>A new user, whose name nobody has, with a directory \<open>/\<close> of their own.\<close>

definition user_added :: "(string \<Rightarrow> string) \<Rightarrow> database \<Rightarrow> string \<Rightarrow> string \<Rightarrow> tables \<Rightarrow> bool" where
  "user_added coll d name hash t \<longleftrightarrow> (\<forall>u \<in> set (users (tabs d)). coll (ur_name u) \<noteq> coll name) \<and>
     t = (tabs d)\<lparr>users := users (tabs d) @ [\<lparr>ur_id = next_user d, ur_name = name, ur_password = hash\<rparr>],
       paths := paths (tabs d) @ [\<lparr>pr_id = next_path d, pr_user = next_user d, pr_path = ''/'', pr_file = None, pr_parent = None,
         pr_name = ''/'', pr_type = 1\<rparr>]\<rparr>"

lemma register_user_added:
  assumes room: "room d" and e: "two_effect coll d (Insert_User name hash) (\<lambda>k. Insert_Root (unat k)) t"
  shows "user_added coll d name hash t"
proof -
  obtain d1 k d2 k2 where x: "exec coll (Insert_User name hash) (d\<lparr>saved := Some (tabs d)\<rparr>) = Some (d1, k)"
    "exec coll (Insert_Root (unat (word_of_nat k :: u64))) d1 = Some (d2, k2)" "t = tabs d2"
    using e unfolding two_effect_def by blast
  have k: "k = next_user d" "unat (word_of_nat k :: u64) = next_user d"
    using x(1) room by (auto simp: room_def unat_of_nat split: if_splits)
  show ?thesis using x k by (auto simp: user_added_def insert_path_def split: if_splits)
qed

lemma register_tables_inv:
  assumes ok: "db_ok coll d" and e: "two_effect coll d (Insert_User name hash) (\<lambda>k. Insert_Root (unat k)) t"
  shows "tables_inv coll t" "files t = files (tabs d)"
proof -
  obtain d1 k d2 k2 where x: "exec coll (Insert_User name hash) (d\<lparr>saved := Some (tabs d)\<rparr>) = Some (d1, k)"
    "exec coll (Insert_Root (unat (word_of_nat k :: u64))) d1 = Some (d2, k2)" "t = tabs d2"
    using e unfolding two_effect_def by blast
  have d1: "paths (tabs d1) = paths (tabs d)" "files (tabs d1) = files (tabs d)" "next_path d1 = next_path d"
    using x(1) by (auto split: if_splits)
  define r where "r = \<lparr>pr_id = 0, pr_user = unat (word_of_nat k :: u64), pr_path = ''/'', pr_file = None, pr_parent = None,
    pr_name = ''/'', pr_type = 1\<rparr>"
  have ins: "insert_path coll r d1 = Some d2" using x(2) by (auto simp: r_def)
  have inv1: "tables_inv coll (tabs d1)" using ok d1 by (simp add: db_ok_def tables_inv_def)
  have "t = (tabs d1)\<lparr>paths := paths (tabs d1) @ [r\<lparr>pr_id := next_path d1\<rparr>]\<rparr>" using insert_path_Some(1) [OF ins] x(3) by simp
  moreover have "paths_ok coll (paths (tabs d1) @ [r\<lparr>pr_id := next_path d1\<rparr>])"
    by (rule insert_path_paths_ok [OF ins]) (use inv1 db_ok_fresh [OF ok] d1 in \<open>auto simp: tables_inv_def r_def\<close>)
  ultimately show "tables_inv coll t" "files t = files (tabs d)"
    using tables_inv_add_dir [OF inv1] d1 by (simp_all add: r_def)
qed

text \<open>Another path for a stored file. The two statements commute.\<close>

definition file_path_row :: "nat \<Rightarrow> nat \<Rightarrow> string \<Rightarrow> nat \<Rightarrow> nat \<Rightarrow> string \<Rightarrow> path_row" where
  "file_path_row i u p f parent name =
     \<lparr>pr_id = i, pr_user = u, pr_path = p, pr_file = Some f, pr_parent = Some parent, pr_name = name, pr_type = 0\<rparr>"

definition link_tables :: "database \<Rightarrow> nat \<Rightarrow> string \<Rightarrow> nat \<Rightarrow> string \<Rightarrow> nat \<Rightarrow> tables" where
  "link_tables d u p parent name f = (tabs d)\<lparr>paths := paths (tabs d) @ [file_path_row (next_path d) u p f parent name],
     files := map (\<lambda>g. if fr_id g = f then add_refs 1 g else g) (files (tabs d))\<rparr>"

lemma exec_insert_file_path:
  assumes "exec coll (Insert_File_Path u p f parent name) d = Some (d', k)"
  shows "d' = d\<lparr>tabs := (tabs d)\<lparr>paths := paths (tabs d) @ [file_path_row (next_path d) u p f parent name]\<rparr>, next_path := next_path d + 1\<rparr>"
    "\<not> (\<exists>q \<in> set (paths (tabs d)). node_is coll u p q)"
    "next_path d \<notin> pr_id ` set (paths (tabs d)) \<Longrightarrow> paths_ok coll (paths (tabs d)) \<Longrightarrow>
      paths_ok coll (paths (tabs d) @ [file_path_row (next_path d) u p f parent name])"
proof -
  let ?r = "file_path_row 0 u p f parent name"
  have ins: "insert_path coll ?r d = Some d'" using assms by (auto simp: file_path_row_def)
  show "d' = d\<lparr>tabs := (tabs d)\<lparr>paths := paths (tabs d) @ [file_path_row (next_path d) u p f parent name]\<rparr>, next_path := next_path d + 1\<rparr>"
    "\<not> (\<exists>q \<in> set (paths (tabs d)). node_is coll u p q)"
    using insert_path_Some [OF ins] by (simp_all add: file_path_row_def)
  show "paths_ok coll (paths (tabs d) @ [file_path_row (next_path d) u p f parent name])"
    if "next_path d \<notin> pr_id ` set (paths (tabs d))" "paths_ok coll (paths (tabs d))"
    using insert_path_paths_ok [OF ins that(2,1)] by (simp add: file_path_row_def)
qed

lemma link_effect:
  assumes ok: "db_ok coll d" and e: "two_effect coll d (Inc_Refs f) (\<lambda>k. Insert_File_Path u p f parent name) t"
    and f: "f \<in> fr_id ` set (files (tabs d))"
  shows "t = link_tables d u p parent name f" "tables_inv coll t" "\<not> (\<exists>q \<in> set (paths (tabs d)). node_is coll u p q)"
proof -
  obtain d1 k d2 k2 where x: "exec coll (Inc_Refs f) (d\<lparr>saved := Some (tabs d)\<rparr>) = Some (d1, k)"
    "exec coll (Insert_File_Path u p f parent name) d1 = Some (d2, k2)" "t = tabs d2"
    using e unfolding two_effect_def by blast
  have d1: "d1 = on_files (map (\<lambda>g. if fr_id g = f then add_refs 1 g else g)) (d\<lparr>saved := Some (tabs d)\<rparr>)" using x(1) by simp
  then have p1: "paths (tabs d1) = paths (tabs d)" "next_path d1 = next_path d" by (simp_all add: on_files_def)
  have inv: "tables_inv coll (tabs d)" using ok by (simp add: db_ok_def)
  show t: "t = link_tables d u p parent name f"
    using exec_insert_file_path(1) [OF x(2)] d1 x(3) by (simp add: on_files_def link_tables_def)
  have "paths_ok coll (paths (tabs d) @ [file_path_row (next_path d) u p f parent name])"
    using exec_insert_file_path(3) [OF x(2)] db_ok_fresh(1) [OF ok] inv p1 by (simp add: tables_inv_def)
  from tables_inv_add_ref [OF inv this _ f] show "tables_inv coll t"
    by (simp add: t link_tables_def file_path_row_def)
  show "\<not> (\<exists>q \<in> set (paths (tabs d)). node_is coll u p q)" using exec_insert_file_path(2) [OF x(2)] p1 by simp
qed

text \<open>A path for a file that may not be stored yet.\<close>

definition new_file_tables :: "database \<Rightarrow> nat \<Rightarrow> string \<Rightarrow> nat \<Rightarrow> string \<Rightarrow> string \<Rightarrow> nat \<Rightarrow> tables" where
  "new_file_tables d u p parent name hex sz =
     (tabs d)\<lparr>paths := paths (tabs d) @ [file_path_row (next_path d) u p (next_file d) parent name],
       files := files (tabs d) @ [\<lparr>fr_id = next_file d, fr_hash = lower_hex hex, fr_size = sz, fr_refs = 1\<rparr>]\<rparr>"

definition create_tables :: "database \<Rightarrow> nat \<Rightarrow> string \<Rightarrow> nat \<Rightarrow> string \<Rightarrow> string \<Rightarrow> nat \<Rightarrow> tables" where
  "create_tables d u p parent name hex sz =
     (case find (\<lambda>r. fr_hash r = lower_hex hex) (files (tabs d)) of
        Some r \<Rightarrow> link_tables d u p parent name (fr_id r)
      | None \<Rightarrow> new_file_tables d u p parent name hex sz)"

lemma create_effect:
  assumes ok: "db_ok coll d" and room: "room d" and hex: "length hex = 64"
    and e: "two_effect coll d (Upsert_File hex sz) (\<lambda>k. Insert_File_Path u p (unat k) parent name) t"
  shows "t = create_tables d u p parent name hex sz" "tables_inv coll t" "\<not> (\<exists>q \<in> set (paths (tabs d)). node_is coll u p q)"
proof -
  let ?d = "d\<lparr>saved := Some (tabs d)\<rparr>"
  obtain d1 k d2 k2 where x: "exec coll (Upsert_File hex sz) ?d = Some (d1, k)"
    "exec coll (Insert_File_Path u p (unat (word_of_nat k :: u64)) parent name) d1 = Some (d2, k2)" "t = tabs d2"
    using e unfolding two_effect_def by blast
  have inv: "tables_inv coll (tabs d)" using ok by (simp add: db_ok_def)
  have fit: "ids_fit (tabs d)" by (rule ids_fitI [OF ok room])
  have p1: "paths (tabs d1) = paths (tabs d)" "next_path d1 = next_path d"
    using x(1) by (auto simp: on_files_def split: option.splits)
  show "\<not> (\<exists>q \<in> set (paths (tabs d)). node_is coll u p q)" using exec_insert_file_path(2) [OF x(2)] p1 by simp
  have ps: "paths_ok coll (paths (tabs d) @ [file_path_row (next_path d) u p (unat (word_of_nat k :: u64)) parent name])"
    using exec_insert_file_path(3) [OF x(2)] db_ok_fresh(1) [OF ok] inv p1 by (simp add: tables_inv_def)
  have "t = create_tables d u p parent name hex sz \<and> tables_inv coll t"
  proof (cases "find (\<lambda>r. fr_hash r = lower_hex hex) (files (tabs d))")
    case (Some r)
    then have r: "r \<in> set (files (tabs d))" using find_in by fastforce
    have k: "k = fr_id r" "d1 = on_files (map (\<lambda>q. if fr_id q = fr_id r then add_refs 1 q else q)) ?d" using x(1) Some by auto
    have k64: "unat (word_of_nat k :: u64) = fr_id r" using k(1) r fit by (simp add: ids_fit_def unat_of_nat64)
    have "t = link_tables d u p parent name (fr_id r)"
      using exec_insert_file_path(1) [OF x(2)] k(2) x(3) k64 by (simp add: on_files_def link_tables_def)
    moreover from tables_inv_add_ref [OF inv ps] have "tables_inv coll (link_tables d u p parent name (fr_id r))"
      using k64 r by (simp add: link_tables_def file_path_row_def)
    ultimately show ?thesis using Some by (simp add: create_tables_def)
  next
    case None
    then have k: "k = next_file d" "d1 = ?d\<lparr>tabs := (tabs d)\<lparr>files := files (tabs d) @
        [\<lparr>fr_id = next_file d, fr_hash = lower_hex hex, fr_size = sz, fr_refs = 1\<rparr>]\<rparr>, next_file := next_file d + 1\<rparr>"
      using x(1) by auto
    have k64: "unat (word_of_nat k :: u64) = next_file d" using k(1) room by (simp add: room_def unat_of_nat64)
    have t: "t = new_file_tables d u p parent name hex sz"
      using exec_insert_file_path(1) [OF x(2)] k(2) x(3) k64 by (simp add: new_file_tables_def)
    have new: "lower_hex hex \<notin> fr_hash ` set (files (tabs d))" using None by (auto simp: find_None_iff)
    have "tables_inv coll t"
      using tables_inv_add_file [OF inv ps, where f = "\<lparr>fr_id = next_file d, fr_hash = lower_hex hex, fr_size = sz, fr_refs = 1\<rparr>" and i = "next_file d"]
        db_ok_fresh(2) [OF ok] new hex
      by (simp add: t new_file_tables_def k64 file_path_row_def lower_hex_def)
    then show ?thesis using None t by (simp add: create_tables_def)
  qed
  then show "t = create_tables d u p parent name hex sz" "tables_inv coll t" by auto
qed

text \<open>A directory.\<close>

definition dir_row :: "nat \<Rightarrow> nat \<Rightarrow> string \<Rightarrow> nat \<Rightarrow> string \<Rightarrow> path_row" where
  "dir_row i u p parent name =
     \<lparr>pr_id = i, pr_user = u, pr_path = p, pr_file = None, pr_parent = Some parent, pr_name = name, pr_type = 1\<rparr>"

lemma exec_insert_dir:
  assumes ok: "db_ok coll d" and x: "exec coll (Insert_Dir u p parent name) d = Some (d', k)"
  shows "tabs d' = (tabs d)\<lparr>paths := paths (tabs d) @ [dir_row (next_path d) u p parent name]\<rparr>" "db_ok coll d'"
    "\<not> (\<exists>q \<in> set (paths (tabs d)). node_is coll u p q)"
proof -
  let ?r = "dir_row 0 u p parent name"
  have ins: "insert_path coll ?r d = Some d'" using x by (auto simp: dir_row_def)
  show t: "tabs d' = (tabs d)\<lparr>paths := paths (tabs d) @ [dir_row (next_path d) u p parent name]\<rparr>"
    "\<not> (\<exists>q \<in> set (paths (tabs d)). node_is coll u p q)"
    using insert_path_Some [OF ins] by (simp_all add: dir_row_def)
  have inv: "tables_inv coll (tabs d)" using ok by (simp add: db_ok_def)
  have "paths_ok coll (paths (tabs d) @ [dir_row (next_path d) u p parent name])"
    using insert_path_paths_ok [OF ins _ db_ok_fresh(1) [OF ok]] inv by (simp add: dir_row_def tables_inv_def)
  from tables_inv_add_dir [OF inv this] have "tables_inv coll (tabs d')" using t by (simp add: dir_row_def)
  moreover have "saved d' = saved d \<and> evolves d d'" by (rule exec_evolves [OF x]) (simp add: txn_control_def)
  ultimately show "db_ok coll d'" using ok t by (simp add: db_ok_def evolves_def)
qed

lemma delete_dir:
  assumes ok: "db_ok coll d" and x: "exec coll (Delete_Path i) d = Some (d', k)"
    and dir: "\<And>q. q \<in> set (paths (tabs d)) \<Longrightarrow> pr_id q = i \<Longrightarrow> pr_type q = 1"
  shows "tabs d' = (tabs d)\<lparr>paths := filter (\<lambda>q. pr_id q \<noteq> i) (paths (tabs d))\<rparr>" "db_ok coll d'"
proof -
  show t: "tabs d' = (tabs d)\<lparr>paths := filter (\<lambda>q. pr_id q \<noteq> i) (paths (tabs d))\<rparr>" using x by (auto simp: on_paths_def)
  have inv: "tables_inv coll (tabs d)" using ok by (simp add: db_ok_def)
  have "tables_inv coll (tabs d')"
  proof (cases "\<exists>q \<in> set (paths (tabs d)). pr_id q = i")
    case True
    then obtain q where q: "q \<in> set (paths (tabs d))" "pr_id q = i" by blast
    then have "pr_file q = None" using dir [OF q] inv by (auto simp: tables_inv_def paths_ok_def split: if_splits)
    then show ?thesis using tables_inv_remove_dir [OF inv q(1)] q(2) t by simp
  next
    case False
    then have "filter (\<lambda>q. pr_id q \<noteq> i) (paths (tabs d)) = paths (tabs d)" by (auto simp: filter_id_conv)
    then show ?thesis using inv t by simp
  qed
  moreover have "saved d' = saved d \<and> evolves d d'" by (rule exec_evolves [OF x]) (simp add: txn_control_def)
  ultimately show "db_ok coll d'" using ok t by (simp add: db_ok_def evolves_def)
qed

subsection \<open>Every operation keeps the invariant and gives the connection back\<close>

definition dao_keeps :: "(string \<Rightarrow> string) \<Rightarrow> ('w \<Rightarrow> database) \<Rightarrow> database_pool_t option \<Rightarrow> ('a \<times> database_pool_t option \<times> 'w) option \<Rightarrow> bool" where
  "dao_keeps coll db pool res \<longleftrightarrow> (\<exists>ret w'. res = Some (ret, pool, w') \<and> db_ok coll (db w'))"

lemma outcome_keeps:
  assumes out: "txn_outcome db w pool good failed res" and ok: "db_ok coll (db w)"
    and good: "\<And>t ret. good t ret \<Longrightarrow> tables_inv coll t \<and> (\<forall>f \<in> set (files t). fr_size f < 2 ^ 64)"
  shows "dao_keeps coll db pool res"
proof -
  obtain ret w' where w': "res = Some (ret, pool, w')" "saved (db w') = None" "evolves (db w) (db w')"
    "tabs (db w') = tabs (db w) \<or> (\<exists>ret'. good (tabs (db w')) ret')"
    using out unfolding txn_outcome_def by blast
  have "tables_inv coll (tabs (db w')) \<and> (\<forall>f \<in> set (files (tabs (db w'))). fr_size f < 2 ^ 64)"
    using w'(4)
  proof
    assume "tabs (db w') = tabs (db w)"
    then show ?thesis using ok by (simp add: db_ok_def)
  qed (use good in blast)
  then have "db_ok coll (db w')" using w'(2,3) ok by (simp add: db_ok_def evolves_def)
  then show ?thesis using w'(1) by (auto simp: dao_keeps_def)
qed

lemma files_of_link: "\<forall>f \<in> set (files (tabs d)). fr_size f < b \<Longrightarrow> \<forall>f \<in> set (files (link_tables d u p parent name i)). fr_size f < b"
  by (auto simp: link_tables_def add_refs_def)

lemma files_of_create:
  "\<forall>f \<in> set (files (tabs d)). fr_size f < b \<Longrightarrow> sz < b \<Longrightarrow> \<forall>f \<in> set (files (create_tables d u p parent name hex sz)). fr_size f < b"
  using files_of_link [of d b] by (auto simp: create_tables_def new_file_tables_def split: option.splits)

lemma files_of_drop_ref: "\<forall>f \<in> set (files t). fr_size f < b \<Longrightarrow> \<forall>f \<in> set (files (drop_ref r g t)). fr_size f < b"
  by (auto simp: drop_ref_def)

text \<open>The six operations that change the tables.\<close>

lemma register_outcome:
  assumes M: "mysql_ok M coll db" "available pool" and ok: "db_ok coll (db w)" "room (db w)"
    and st: "plain name" "plain hash" "length name + length hash \<le> 900"
  shows "txn_outcome db w pool (\<lambda>t ret. ret = 0 \<and> two_effect coll (db w) (Insert_User name hash) (\<lambda>k. Insert_Root (unat k)) t)
      (\<lambda>ret. ret = - 1) (dao_auth_register M name hash pool w)"
  unfolding register_two
  by (rule two_txn_outcome [OF M _ fits_user(2) [OF st]])
     (use ok fits_numbers(9) in \<open>auto simp: txn_control_def db_ok_def room_def split: if_splits\<close>)

lemma register_keeps:
  assumes M: "mysql_ok M coll db" "available pool" and ok: "db_ok coll (db w)" "room (db w)"
    and st: "plain name" "plain hash" "length name + length hash \<le> 900"
  shows "dao_keeps coll db pool (dao_auth_register M name hash pool w)"
proof (rule outcome_keeps [where w = w and coll = coll and db = db, OF register_outcome [OF M ok st] ok(1)])
  show "tables_inv coll t \<and> (\<forall>f \<in> set (files t). fr_size f < 2 ^ 64)"
    if "ret = 0 \<and> two_effect coll (db w) (Insert_User name hash) (\<lambda>k. Insert_Root (unat k)) t" for t and ret :: int
    using register_tables_inv [OF ok(1)] that ok(1) by (auto simp: db_ok_def)
qed

lemma link_outcome:
  assumes M: "mysql_ok M coll db" "available pool" and ok: "db_ok coll (db w)"
    and st: "plain p" "plain name" "length p + length name \<le> 9000" and f: "unat f \<in> fr_id ` set (files (tabs (db w)))"
  shows "txn_outcome db w pool (\<lambda>t ret. ret = 0 \<and> t = link_tables (db w) (unat u) p (unat parent) name (unat f) \<and> tables_inv coll t \<and>
       \<not> (\<exists>q \<in> set (paths (tabs (db w))). node_is coll (unat u) p q))
      (\<lambda>ret. ret = - 1) (dao_link_existing_file M u p parent name f pool w)"
proof -
  have "txn_outcome db w pool (\<lambda>t ret. ret = 0 \<and> two_effect coll (db w) (Inc_Refs (unat f)) (\<lambda>k. Insert_File_Path (unat u) p (unat f) (unat parent) name) t)
      (\<lambda>ret. ret = - 1) (dao_link_existing_file M u p parent name f pool w)"
    unfolding link_two [OF M(1) st(1,2)]
    by (rule two_txn_outcome [OF M _ fits_numbers(10) _ fits_insert_file [OF st]]) (use ok in \<open>auto simp: txn_control_def db_ok_def\<close>)
  then show ?thesis using link_effect [OF ok _ f] unfolding txn_outcome_def by metis
qed

lemma create_outcome:
  assumes M: "mysql_ok M coll db" "available pool" and ok: "db_ok coll (db w)" "room (db w)"
    and st: "plain p" "plain name" "length p + length name \<le> 9000" and hex: "plain hex" "length hex = 64"
  shows "txn_outcome db w pool (\<lambda>t ret. ret = 0 \<and> t = create_tables (db w) (unat u) p (unat parent) name hex (unat sz) \<and> tables_inv coll t \<and>
       \<not> (\<exists>q \<in> set (paths (tabs (db w))). node_is coll (unat u) p q))
      (\<lambda>ret. ret = - 1) (dao_create_file_with_path M u p parent name hex sz pool w)"
proof -
  have "fr_id r < 2 ^ 64" if "find P (files (tabs (db w))) = Some r" for P r
    using find_in [OF that] ids_fitI [OF ok] by (simp add: ids_fit_def)
  then have "txn_outcome db w pool (\<lambda>t ret. ret = 0 \<and> two_effect coll (db w) (Upsert_File hex (unat sz)) (\<lambda>k. Insert_File_Path (unat u) p (unat k) (unat parent) name) t)
      (\<lambda>ret. ret = - 1) (dao_create_file_with_path M u p parent name hex sz pool w)"
    unfolding create_two [OF M(1) st(1,2)]
    by (intro two_txn_outcome [OF M _ fits_hash(2) [OF hex] _ fits_insert_file [OF st]])
       (use ok in \<open>auto simp: txn_control_def db_ok_def room_def split: option.splits\<close>)
  then show ?thesis using create_effect [OF ok hex(2)] unfolding txn_outcome_def by metis
qed

end
