(* ===== verification/Dao_Properties.thy ===== *)
theory Dao_Properties
  imports Dao_Effects
begin

text \<open>
  The contract of the data access layer as its callers see it: every operation keeps the invariant of the
  tables, a stored file is released exactly with its last path, and what was written is read back.
\<close>

definition dao_ready :: "'w mysql \<Rightarrow> (string \<Rightarrow> string) \<Rightarrow> ('w \<Rightarrow> database) \<Rightarrow> database_pool_t option \<Rightarrow> 'w \<Rightarrow> bool" where
  "dao_ready M coll db pool w \<longleftrightarrow> mysql_ok M coll db \<and> available pool \<and> db_ok coll (db w) \<and> room (db w)"

subsection \<open>A database to try the properties on\<close>

definition sample_hash :: string where
  "sample_hash = replicate 64 (CHR ''a'')"

definition sample_tables :: tables where
  "sample_tables = \<lparr>users = [\<lparr>ur_id = 1, ur_name = ''ann'', ur_password = ''x''\<rparr>],
     files = [\<lparr>fr_id = 7, fr_hash = sample_hash, fr_size = 5, fr_refs = 1\<rparr>],
     paths = [\<lparr>pr_id = 1, pr_user = 1, pr_path = ''/'', pr_file = None, pr_parent = None, pr_name = ''/'', pr_type = 1\<rparr>,
              dir_row 2 1 ''/d'' 1 ''d'', file_path_row 3 1 ''/f'' 7 1 ''f'']\<rparr>"

definition sample_server :: server where
  "sample_server = \<lparr>srv_db = \<lparr>tabs = sample_tables, saved = None, next_user = 2, next_file = 8, next_path = 4\<rparr>,
     srv_rows = None, srv_id = 0, srv_errno = 0\<rparr>"

definition sample_pool :: "database_pool_t option" where
  "sample_pool = Some \<lparr>db_connections = [Some 4], db_size = 1, db_available = 1\<rparr>"

lemma sample_available: "available sample_pool"
  unfolding available_def sample_pool_def idle_def by (intro exI [of _ "[]"] exI [of _ 4] exI conjI) auto

lemma sample_ready: "dao_ready reference_mysql (\<lambda>s. s) srv_db sample_pool sample_server"
  by (simp add: dao_ready_def reference_mysql_ok sample_available db_ok_def room_def sample_server_def sample_tables_def
      tables_inv_def paths_ok_def files_ok_def ids_below_def dir_row_def file_path_row_def sample_hash_def)

lemma sample_hash [simp]: "length sample_hash = 64" "plain sample_hash"
  by (simp_all add: sample_hash_def plain_def Q_def NUL_def)

subsection \<open>The invariant\<close>

lemma dao_readyD:
  assumes "dao_ready M coll db pool w"
  shows "mysql_ok M coll db" "available pool" "db_ok coll (db w)" "room (db w)" "saved (db w) = None"
    "tables_inv coll (tabs (db w))" "ids_fit (tabs (db w))" "\<forall>f \<in> set (files (tabs (db w))). fr_size f < 2 ^ 64"
  using assms ids_fitI by (auto simp: dao_ready_def db_ok_def)

lemma dao_path_insert_dir_spec:
  assumes ready: "dao_ready M coll db pool w" and names: "plain p" "plain name" "length p + length name \<le> 850"
  obtains ret w' where "dao_path_insert_dir M u p parent name pool w = Some (ret, pool, w')" "db_ok coll (db w')"
    "ret = 0 \<and> tabs (db w') = (tabs (db w))\<lparr>paths := paths (tabs (db w)) @ [dir_row (next_path (db w)) (unat u) p (unat parent) name]\<rparr> \<and>
       \<not> (\<exists>q \<in> set (paths (tabs (db w))). node_is coll (unat u) p q) \<or>
     ret = 1 \<and> (\<exists>q \<in> set (paths (tabs (db w))). node_is coll (unat u) p q) \<and> db w' = db w \<or> ret = - 1 \<and> db w' = db w"
proof -
  note r = dao_readyD [OF ready]
  let ?st = "Insert_Dir (unat u) p (unat parent) name"
  obtain ret w' where x: "database_pool_execute M (sql_text 1024 (toks ?st)) pool w = Some (ret, pool, w')"
    "ret = 0 \<and> (\<exists>k. exec coll ?st (db w) = Some (db w', k)) \<or> ret = 1 \<and> duplicate coll ?st (db w) \<and> db w' = db w \<or> ret = - 1 \<and> db w' = db w"
    by (rule pool_exec [OF r(1,2) fits_insert_dir [OF names] _ _ r(5)]) auto
  have "dao_path_insert_dir M u p parent name pool w = Some (ret, pool, w')" using x(1) by (simp add: dao_path_insert_dir_def)
  moreover have "db_ok coll (db w')" using x(2) exec_insert_dir(2) [OF r(3)] r(3) by metis
  ultimately show thesis
    by (rule that) (use x(2) exec_insert_dir(1,3) [OF r(3), of "unat u" p "unat parent" name "db w'"] in \<open>auto simp del: exec.simps\<close>)
qed

lemma dao_path_rmdir_spec:
  assumes ready: "dao_ready M coll db pool w" and dir: "\<And>q. q \<in> set (paths (tabs (db w))) \<Longrightarrow> pr_id q = unat i \<Longrightarrow> pr_type q = 1"
  obtains ret w' where "dao_path_rmdir M i pool w = Some (ret, pool, w')" "db_ok coll (db w')"
    "ret = 0 \<and> tabs (db w') = (tabs (db w))\<lparr>paths := filter (\<lambda>q. pr_id q \<noteq> unat i) (paths (tabs (db w)))\<rparr> \<or> ret = - 1 \<and> db w' = db w"
proof -
  note r = dao_readyD [OF ready]
  obtain ret w' where x: "database_pool_execute M (sql_text 1024 (toks (Delete_Path (unat i)))) pool w = Some (ret, pool, w')"
    "ret = 0 \<and> (\<exists>k. exec coll (Delete_Path (unat i)) (db w) = Some (db w', k)) \<or>
     ret = 1 \<and> duplicate coll (Delete_Path (unat i)) (db w) \<and> db w' = db w \<or> ret = - 1 \<and> db w' = db w"
    by (rule pool_exec [OF r(1,2) fits_numbers(2) _ _ r(5)]) auto
  have "dao_path_rmdir M i pool w = Some (ret, pool, w')" using x(1) by (simp add: dao_path_rmdir_def)
  moreover have "db_ok coll (db w')" using x(2) delete_dir(2) [OF r(3) _ dir] r(3) by metis
  ultimately show thesis
    by (rule that) (use x(2) delete_dir(1) [OF r(3) _ dir] in \<open>auto simp del: exec.simps\<close>)
qed

lemma rm_good_ok:
  assumes "rm_good t i u t' ret" "tables_inv coll t" "\<forall>f \<in> set (files t). fr_size f < b"
  shows "tables_inv coll t' \<and> (\<forall>f \<in> set (files t'). fr_size f < b)"
  using assms tables_inv_drop_ref files_of_drop_ref unfolding rm_good_def rm_row_def by metis

lemma dao_rm_file_keeps: "dao_ready M coll db pool w \<Longrightarrow> 64 < n \<Longrightarrow> dao_keeps coll db pool (dao_rm_file M u j n pool w)"
  by (rule outcome_keeps [where w = w and coll = coll and db = db, OF dao_rm_file_outcome])
     (use dao_readyD [of M coll db pool w] rm_good_ok in blast)+

lemma link_keeps:
  assumes ready: "dao_ready M coll db pool w" and st: "plain p" "plain name" "length p + length name \<le> 9000"
    and f: "unat f \<in> fr_id ` set (files (tabs (db w)))"
  shows "dao_keeps coll db pool (dao_link_existing_file M u p parent name f pool w)"
  by (rule outcome_keeps [where w = w and coll = coll and db = db, OF link_outcome [OF dao_readyD(1-3) [OF ready] st f] dao_readyD(3) [OF ready]])
     (use files_of_link [OF dao_readyD(8) [OF ready]] in blast)

lemma create_keeps:
  assumes ready: "dao_ready M coll db pool w" and st: "plain p" "plain name" "length p + length name \<le> 9000"
    and hex: "plain hex" "length hex = 64"
  shows "dao_keeps coll db pool (dao_create_file_with_path M u p parent name hex sz pool w)"
proof -
  have "unat sz < 2 ^ 64" using unsigned_less [of sz] by simp
  then show ?thesis
    by (intro outcome_keeps [where w = w and coll = coll and db = db, OF create_outcome [OF dao_readyD(1-4) [OF ready] st hex] dao_readyD(3) [OF ready]])
       (use files_of_create [OF dao_readyD(8) [OF ready]] in blast)
qed



subsection \<open>Removing a file\<close>

lemma rm_good_cases:
  assumes inv: "tables_inv coll t" and g: "rm_good t i u t' (ret, hash)"
  shows "(ret = 4 \<longrightarrow> hash \<in> fr_hash ` set (files t) \<and> hash \<notin> fr_hash ` set (files t')) \<and>
    (ret = 0 \<longrightarrow> fr_hash ` set (files t') = fr_hash ` set (files t)) \<and>
    (ret = 0 \<or> ret = 4 \<longrightarrow> (\<exists>r. rm_row t i u r) \<and> paths t' = filter (\<lambda>q. pr_id q \<noteq> i) (paths t)) \<and>
    (ret = 1 \<longrightarrow> t' = t) \<and> ret \<in> {0, 1, 4}"
  using g unfolding rm_good_def
proof (elim disjE exE conjE)
  fix r f
  assume r: "rm_row t i u r" and f: "f \<in> set (files t)" and t': "t' = drop_ref r f t"
    and ret: "(ret, hash) = (if fr_refs f = 1 then (4, fr_hash f) else (0, []))"
  have d: "distinct (map fr_hash (files t))" "distinct (map fr_id (files t))" using inv by (simp_all add: tables_inv_def files_ok_def)
  have "fr_id g = fr_id f" if "g \<in> set (files t)" "fr_hash g = fr_hash f" for g
    using d(1) f that by (auto simp: distinct_map inj_on_def)
  then have "fr_hash f \<notin> fr_hash ` set (files t')" if "fr_refs f = 1" using that unfolding t' drop_ref_def by auto
  moreover have "fr_hash ` set (files t') = fr_hash ` set (files t)" if "fr_refs f \<noteq> 1"
  proof -
    have "map fr_hash (files t') = map fr_hash (files t)" using that by (simp add: t' drop_ref_def)
    then show ?thesis by (metis list.set_map)
  qed
  moreover have "paths t' = filter (\<lambda>q. pr_id q \<noteq> i) (paths t)" using r by (simp add: t' drop_ref_def rm_row_def)
  ultimately show ?thesis using r f ret by (auto split: if_splits)
qed auto

text \<open>
  C39. \<open>dao_rm_file\<close> returns with the connection back in the pool and one of the four codes. It asks for the
  removal of the physical file only when the removed path was the last reference: the hash it hands out
  was stored before and is not stored any more. \<open>DAO_OK\<close> means that the path is gone and every stored file is
  still stored, \<open>DAO_NOT_FOUND\<close> that nothing changed.
\<close>

theorem dao_rm_file_last_reference:
  assumes ready: "dao_ready M coll db pool w" and sz: "64 < n"
  shows "\<exists>ret hash w'. dao_rm_file M u i n pool w = Some ((ret, hash), pool, w') \<and> db_ok coll (db w') \<and>
    (ret = DAO_SHOULD_DELETE_PHYSICAL \<longrightarrow>
       hash \<in> fr_hash ` set (files (tabs (db w))) \<and> hash \<notin> fr_hash ` set (files (tabs (db w')))) \<and>
    (ret = DAO_OK \<longrightarrow> fr_hash ` set (files (tabs (db w'))) = fr_hash ` set (files (tabs (db w)))) \<and>
    (ret = DAO_OK \<or> ret = DAO_SHOULD_DELETE_PHYSICAL \<longrightarrow>
       (\<exists>r. rm_row (tabs (db w)) (unat i) (unat u) r) \<and>
       paths (tabs (db w')) = filter (\<lambda>q. pr_id q \<noteq> unat i) (paths (tabs (db w)))) \<and>
    (ret = DAO_NOT_FOUND \<longrightarrow> tabs (db w') = tabs (db w)) \<and>
    ret \<in> {DAO_OK, DAO_NOT_FOUND, DAO_SHOULD_DELETE_PHYSICAL, DAO_DB_ERROR}"
proof -
  note r = dao_readyD [OF ready]
  obtain w' ret hash where w': "dao_rm_file M u i n pool w = Some ((ret, hash), pool, w')"
    "rm_good (tabs (db w)) (unat i) (unat u) (tabs (db w')) (ret, hash) \<or> ret = DAO_DB_ERROR"
    using dao_rm_file_outcome [OF r(1,2,5,6,7) sz, of i u] unfolding txn_outcome_def by (metis prod.collapse fst_conv)
  have "db_ok coll (db w')" using dao_rm_file_keeps [OF ready sz, of u i] w'(1) by (auto simp: dao_keeps_def)
  then show ?thesis using w' rm_good_cases [OF r(6)] by fastforce
qed

theorem dao_rm_file_last_reference_witness:
  "\<exists>ret hash w'. dao_rm_file reference_mysql 1 3 65 sample_pool sample_server = Some ((ret, hash), sample_pool, w') \<and>
     (ret = 4 \<longrightarrow> hash \<notin> fr_hash ` set (files (tabs (srv_db w'))))"
  using dao_rm_file_last_reference [OF sample_ready, of 65 1 3] by fastforce

subsection \<open>What was stored is found again\<close>

lemma dao_get_file_meta_spec:
  assumes ready: "dao_ready M coll db pool w" "results_stored M" and p: "plain p" "length p \<le> 800"
    and row: "filter (node_is coll (unat u) p) (paths (tabs (db w))) = [r]" "pr_file r = Some (fr_id f)" "pr_type r = 0"
      "find (\<lambda>g. fr_id g = fr_id f) (files (tabs (db w))) = Some f" "length (fr_hash f) = 64"
  obtains ret meta w' where "dao_get_file_meta M u p stale pool w = Some (ret, meta, pool, w')" "db w' = db w"
    "ret = DAO_DB_ERROR \<and> meta = None \<or>
     ret = DAO_OK \<and> meta = Some \<lparr>fm_path_id = word_of_nat (pr_id r), fm_file_id = word_of_nat (fr_id f),
       fm_file_name = strncpy NAME_MAX (pr_name r), fm_size = word_of_nat (fr_size f), fm_sha256_hex = fr_hash f @ stale\<rparr>"
proof -
  note d = dao_readyD [OF ready(1)]
  obtain ret res w' where q: "database_pool_query M (sql_text 1024 (toks (Select_Meta (unat u) p))) pool w = Some (ret, res, pool, w')"
    "db w' = db w" "ret = 0 \<and> res = Some (select coll (Select_Meta (unat u) p) (tabs (db w))) \<or> ret = - 1"
    by (rule pool_select [OF d(1) ready(2) d(2) fits_meta [OF p] _ d(5)]) simp
  have r: "r \<in> set (paths (tabs (db w)))" using row(1) by (metis filter_is_subset list.set_intros(1) subsetD)
  have f: "f \<in> set (files (tabs (db w)))" using find_in [OF row(4)] by simp
  have bounds: "pr_id r < 2 ^ 64" "fr_id f < 2 ^ 64" "fr_size f < 2 ^ 64" using d(7) r f by (auto simp: ids_fit_def)
  show thesis
  proof (cases "ret = 0")
    case True
    then have "res = Some [[num (pr_id r), num (fr_id f), Some (pr_name r), num 0, num (fr_size f), Some (fr_hash f)]]"
      using q(3) row by (simp add: meta_row_def)
    then have "dao_get_file_meta M u p stale pool w = Some (DAO_OK, Some \<lparr>fm_path_id = word_of_nat (pr_id r), fm_file_id = word_of_nat (fr_id f),
       fm_file_name = strncpy NAME_MAX (pr_name r), fm_size = word_of_nat (fr_size f), fm_sha256_hex = fr_hash f @ stale\<rparr>, pool, w')"
      using q(1) True row(5) strtoull_dec [OF bounds(1)] strtoull_dec [OF bounds(2)] strtoull_dec [OF bounds(3)] to_int_type [of 0]
      by (simp add: dao_get_file_meta_def text_col_def col_def)
    then show thesis using that q(2) by blast
  next
    case False
    then have "dao_get_file_meta M u p stale pool w = Some (DAO_DB_ERROR, None, pool, w')"
      using q(1) by (simp add: dao_get_file_meta_def)
    then show thesis using that q(2) by blast
  qed
qed

text \<open>The row and the file of a path just created.\<close>

lemma find_map_same: "(\<And>x. P (h x) = P x) \<Longrightarrow> find P (map h xs) = map_option h (find P xs)"
  by (induction xs) auto

lemma find_snoc: "find P xs = None \<Longrightarrow> find P (xs @ [x]) = (if P x then Some x else None)"
  by (induction xs) (auto split: if_splits)

lemma find_distinct: "distinct (map f xs) \<Longrightarrow> x \<in> set xs \<Longrightarrow> find (\<lambda>y. f y = f x) xs = Some x"
  by (induction xs) (auto split: if_splits)

lemma link_tables_found:
  assumes ok: "db_ok coll d" and new: "\<not> (\<exists>q \<in> set (paths (tabs d)). node_is coll u p q)" and g: "g \<in> set (files (tabs d))"
  shows "find (\<lambda>h. fr_id h = fr_id g) (files (link_tables d u p parent name (fr_id g))) = Some (add_refs 1 g)"
    "filter (node_is coll u p) (paths (link_tables d u p parent name (fr_id g))) = [file_path_row (next_path d) u p (fr_id g) parent name]"
proof -
  have "distinct (map fr_id (files (tabs d)))" using ok by (simp add: db_ok_def tables_inv_def files_ok_def)
  then have "find (\<lambda>h. fr_id h = fr_id g) (files (tabs d)) = Some g" by (rule find_distinct [OF _ g])
  then show "find (\<lambda>h. fr_id h = fr_id g) (files (link_tables d u p parent name (fr_id g))) = Some (add_refs 1 g)"
    unfolding link_tables_def by (simp add: find_map_same add_refs_def)
  show "filter (node_is coll u p) (paths (link_tables d u p parent name (fr_id g))) = [file_path_row (next_path d) u p (fr_id g) parent name]"
    using new by (simp add: link_tables_def file_path_row_def node_is_def filter_empty_conv)
qed

lemma create_tables_found:
  assumes ok: "db_ok coll d" and new: "\<not> (\<exists>q \<in> set (paths (tabs d)). node_is coll u p q)"
  obtains g where "find (\<lambda>h. fr_id h = fr_id g) (files (create_tables d u p parent name hex sz)) = Some g" "fr_hash g = lower_hex hex"
    "filter (node_is coll u p) (paths (create_tables d u p parent name hex sz)) = [file_path_row (next_path d) u p (fr_id g) parent name]"
proof (cases "find (\<lambda>r. fr_hash r = lower_hex hex) (files (tabs d))")
  case (Some g)
  then have "g \<in> set (files (tabs d))" "fr_hash g = lower_hex hex" using find_in by fastforce+
  then show thesis using that [of "add_refs 1 g"] link_tables_found [OF ok new] Some by (simp add: create_tables_def add_refs_def)
next
  case None
  have "find (\<lambda>h. fr_id h = next_file d) (files (tabs d)) = None" using db_ok_fresh(2) [OF ok] unfolding find_None_iff by (metis imageI)
  then have "find (\<lambda>h. fr_id h = next_file d) (files (tabs d) @ [x]) = (if fr_id x = next_file d then Some x else None)" for x
    by (simp add: find_snoc)
  then show thesis using that [of "\<lparr>fr_id = next_file d, fr_hash = lower_hex hex, fr_size = sz, fr_refs = 1\<rparr>"] new None
    by (simp add: create_tables_def new_file_tables_def file_path_row_def node_is_def filter_empty_conv)
qed


text \<open>On the reference server a transaction of two statements that can be executed succeeds.\<close>

lemma two_txn_reference:
  assumes pool: "available pool" and fits: "sql_fits n st1" "sql_fits n (st2 (word_of_nat k))"
    and x: "exec (\<lambda>s. s) st1 ((srv_db v)\<lparr>saved := Some (tabs (srv_db v))\<rparr>) = Some (d1, k)" "exec (\<lambda>s. s) (st2 (word_of_nat k)) d1 = Some (d2, k2)"
    and chk: "check \<longrightarrow> (word_of_nat k :: u64) \<noteq> 0"
  shows "\<exists>v'. two_txn reference_mysql n st1 st2 check pool v = Some (0, pool, v') \<and> srv_db v' = d2\<lparr>saved := None\<rparr>"
proof -
  obtain c pool1 where c: "database_pool_acquire pool = Some (Some c, pool1)" "database_pool_release pool1 (Some c) = Some pool"
    by (rule available_acquire [OF pool])
  have q: "server_query c (sql_text n (toks st)) w = (0, \<lparr>srv_db = d, srv_rows = (if is_select st then Some (select (\<lambda>s. s) st (tabs (srv_db w))) else None), srv_id = j, srv_errno = 0\<rparr>)"
    if "sql_fits n st" "exec (\<lambda>s. s) st (srv_db w) = Some (d, j)" for st d j w
    using that by (simp add: sql_text_fits server_query_stmt sql_fits_def del: toks.simps exec.simps)
  have ctl: "server_query c ''START TRANSACTION'' w = (0, \<lparr>srv_db = (srv_db w)\<lparr>saved := Some (tabs (srv_db w))\<rparr>, srv_rows = None, srv_id = 0, srv_errno = 0\<rparr>)"
    "server_query c ''COMMIT'' w = (0, \<lparr>srv_db = (srv_db w)\<lparr>saved := None\<rparr>, srv_rows = None, srv_id = 0, srv_errno = 0\<rparr>)" for w
    using server_query_stmt [of Start_Transaction c w] server_query_stmt [of Commit c w] by (simp_all add: render_def)
  show ?thesis unfolding two_txn_def
    using c chk q [OF fits(1), of "\<lparr>srv_db = (srv_db v)\<lparr>saved := Some (tabs (srv_db v))\<rparr>, srv_rows = None, srv_id = 0, srv_errno = 0\<rparr>" d1 k]
      q [OF fits(2)] x
    by (auto simp: ctl Let_def txn_commit_def simp del: toks.simps exec.simps)
qed

lemma sample_plain [simp]: "plain ''/e''" "plain ''e''"
  by (simp_all add: plain_def Q_def NUL_def)

lemma sample_create:
  "\<exists>v'. dao_create_file_with_path reference_mysql 1 ''/e'' 1 ''e'' sample_hash 5 sample_pool sample_server = Some (0, sample_pool, v') \<and>
     room (srv_db v')"
proof -
  let ?st1 = "Upsert_File sample_hash (unat (5 :: u64))"
  let ?st2 = "\<lambda>k :: u64. Insert_File_Path (unat (1 :: u64)) ''/e'' (unat k) (unat (1 :: u64)) ''e''"
  obtain d1 d2 k2 where x: "exec (\<lambda>s. s) ?st1 ((srv_db sample_server)\<lparr>saved := Some (tabs (srv_db sample_server))\<rparr>) = Some (d1, 7)"
    "exec (\<lambda>s. s) (?st2 (word_of_nat 7)) d1 = Some (d2, k2)" "room (d2\<lparr>saved := None\<rparr>)"
    by (simp add: sample_server_def sample_tables_def sample_hash_def lower_hex_def lower_def on_files_def insert_path_def node_is_def
        path_fits_def dir_row_def file_path_row_def room_def)
  have "sql_fits 10240 ?st1" "sql_fits 10240 (?st2 (word_of_nat 7))"
    using fits_hash(2) [of sample_hash 5] fits_insert_file [of "''/e''" "''e''" 1 "word_of_nat 7" 1] by simp_all
  from two_txn_reference [where ?st2.0 = ?st2 and ?check = True, OF sample_available this x(1,2)] show ?thesis
    unfolding create_two [OF reference_mysql_ok sample_plain] using x(3) by auto
qed


end
