(* ===== verification/Dao_Queries.thy ===== *)
theory Dao_Queries
  imports Dao_Properties
begin

text \<open>
  What the reading operations of the data access layer return: the children of a directory, its listing, a file by its
  hash, and the row of a user who logs in. None of them changes the database.
\<close>

definition children :: "tables \<Rightarrow> nat \<Rightarrow> nat \<Rightarrow> path_row list" where
  "children t u i = filter (\<lambda>r. pr_user r = u \<and> pr_parent r = Some i) (paths t)"

lemma few_paths: "db_ok coll d \<Longrightarrow> room d \<Longrightarrow> length (paths (tabs d)) < 2 ^ 31"
proof -
  assume ok: "db_ok coll d" "room d"
  have "length (paths (tabs d)) \<le> next_path d"
    by (rule length_below [of pr_id]) (use ok in \<open>auto simp: db_ok_def tables_inv_def paths_ok_def ids_below_def\<close>)
  then show ?thesis using ok(2) by (simp add: room_def)
qed

lemma few_children: "db_ok coll d \<Longrightarrow> room d \<Longrightarrow> length (children (tabs d) u i) < 2 ^ 31"
  unfolding children_def by (rule le_less_trans [OF length_filter_le few_paths])

lemma dao_path_dir_has_child_spec:
  assumes ready: "dao_ready M coll db pool w" "results_stored M"
  obtains ret w' where "dao_path_dir_has_child M u i pool w = Some (ret, pool, w')" "db w' = db w"
    "ret = - 1 \<or> ret = int (length (children (tabs (db w)) (unat u) (unat i)))"
proof -
  note d = dao_readyD [OF ready(1)]
  obtain ret res w' where q: "database_pool_query M (sql_text 1024 (toks (Select_Children (unat u) (unat i)))) pool w = Some (ret, res, pool, w')"
    "db w' = db w" "ret = 0 \<and> res = Some (select coll (Select_Children (unat u) (unat i)) (tabs (db w))) \<or> ret = - 1"
    by (rule pool_select [OF d(1) ready(2) d(2) fits_numbers(1) _ d(5)]) simp_all
  have "to_int (int (length (children (tabs (db w)) (unat u) (unat i)))) = int (length (children (tabs (db w)) (unat u) (unat i)))"
    using few_children [OF d(3,4)] by (intro to_int_small) simp_all
  then show thesis using q that by (cases "ret = 0") (simp_all add: dao_path_dir_has_child_def children_def)
qed

lemma dao_file_find_by_hash_spec:
  assumes ready: "dao_ready M coll db pool w" "results_stored M" and h: "plain h" "length h = 64"
  obtains ret fid w' where "dao_file_find_by_hash M h sz pool w = Some (ret, fid, pool, w')" "db w' = db w"
    "ret = - 1 \<or> ret = 0 \<or> ret = 1 \<and> (\<exists>f \<in> set (files (tabs (db w))). fr_hash f = lower_hex h \<and> fr_size f = unat sz \<and> fid = Some (word_of_nat (fr_id f)))"
proof -
  note d = dao_readyD [OF ready(1)]
  let ?st = "Select_By_Hash h (unat sz)"
  obtain ret res w' where q: "database_pool_query M (sql_text 1024 (toks ?st)) pool w = Some (ret, res, pool, w')" "db w' = db w"
    "ret = 0 \<and> res = Some (select coll ?st (tabs (db w))) \<or> ret = - 1"
    by (rule pool_select [OF d(1) ready(2) d(2) fits_hash(1) [OF h] _ d(5)]) simp_all
  show thesis
  proof (cases "ret = 0")
    case False
    then show thesis using that q by (simp add: dao_file_find_by_hash_def)
  next
    case True
    show thesis
    proof (cases "filter (\<lambda>r. fr_hash r = lower_hex h \<and> fr_size r = unat sz) (files (tabs (db w)))")
      case Nil
      then show thesis using that q True by (simp add: dao_file_find_by_hash_def)
    next
      case (Cons f fs)
      then have f: "f \<in> set (files (tabs (db w)))" "fr_hash f = lower_hex h" "fr_size f = unat sz" by (auto dest: filter_eq_ConsD)
      then have "fr_id f < 2 ^ 64" using d(7) by (auto simp: ids_fit_def)
      then have "dao_file_find_by_hash M h sz pool w = Some (1, Some (word_of_nat (fr_id f)), pool, w')"
        using q True Cons by (simp add: dao_file_find_by_hash_def col_def strtoull_dec)
      then show thesis using that q(2) f by blast
    qed
  qed
qed

subsection \<open>Listings\<close>

definition ls_entry :: "path_row \<Rightarrow> string" where
  "ls_entry r = (if pr_type r = 1 then pr_name r @ ''/  '' else pr_name r @ ''  '')"

definition listing :: "tables \<Rightarrow> nat \<Rightarrow> nat \<Rightarrow> string" where
  "listing t u i = concat (map ls_entry (children t u i))"

text \<open>The loop fills the buffer with the entries, cut at its end.\<close>

lemma ls_loop_spec:
  assumes "\<forall>r \<in> set rs. pr_type r < 2" "length buf < sz"
  shows "ls_loop sz (map (\<lambda>r. [Some (pr_name r), num (pr_type r)]) rs) (length buf) buf =
    Some (take (sz - 1) (buf @ concat (map ls_entry rs)))"
  using assms
proof (induction rs arbitrary: buf)
  case (Cons r rs)
  have t: "strtol (dec (pr_type r)) = int (pr_type r)" using Cons.prems(1) by (intro strtol_dec) simp
  have ty: "pr_type r = 0 \<or> pr_type r = 1" using Cons.prems(1) by auto
  let ?b = "buf @ take (sz - length buf - 1) (ls_entry r)"
  have step: "ls_loop sz (map (\<lambda>r. [Some (pr_name r), num (pr_type r)]) (r # rs)) (length buf) buf =
    (if sz \<le> length buf + length (ls_entry r) then Some (take (sz - 1) ?b)
     else ls_loop sz (map (\<lambda>r. [Some (pr_name r), num (pr_type r)]) rs) (length buf + length (ls_entry r)) ?b)"
    using t ty by (auto simp: text_col_def col_def ls_entry_def Let_def)
  show ?case
  proof (cases "sz \<le> length buf + length (ls_entry r)")
    case True
    then show ?thesis using step by (simp add: min_def)
  next
    case False
    then have b: "?b = buf @ ls_entry r" by simp
    have "length (buf @ ls_entry r) < sz" using False by simp
    from Cons.IH [OF _ this] Cons.prems(1) show ?thesis using step False b by simp
  qed
qed simp

lemma dao_path_get_ls_dir_spec:
  assumes ready: "dao_ready M coll db pool w" "results_stored M" and sz: "0 < sz"
  obtains ret resp w' where "dao_path_get_ls_dir M u i sz pool w = Some (ret, resp, pool, w')" "db w' = db w"
    "ret = - 1 \<or> ret = int (length (children (tabs (db w)) (unat u) (unat i))) \<and> resp = Some (take (sz - 1) (listing (tabs (db w)) (unat u) (unat i)))"
proof -
  note d = dao_readyD [OF ready(1)]
  let ?cs = "children (tabs (db w)) (unat u) (unat i)"
  obtain ret res w' where q: "database_pool_query M (sql_text 1024 (toks (Select_Ls (unat u) (unat i)))) pool w = Some (ret, res, pool, w')"
    "db w' = db w" "ret = 0 \<and> res = Some (select coll (Select_Ls (unat u) (unat i)) (tabs (db w))) \<or> ret = - 1"
    by (rule pool_select [OF d(1) ready(2) d(2) fits_numbers(3) _ d(5)]) simp_all
  have n: "to_int (int (length ?cs)) = int (length ?cs)" using few_children [OF d(3,4)] by (intro to_int_small) simp_all
  have "\<forall>r \<in> set ?cs. pr_type r < 2" using d(7) by (auto simp: children_def ids_fit_def)
  from ls_loop_spec [OF this, of "[]" sz] sz
  have "ls_loop sz (select coll (Select_Ls (unat u) (unat i)) (tabs (db w))) 0 [] = Some (take (sz - 1) (listing (tabs (db w)) (unat u) (unat i)))"
    by (simp add: listing_def children_def)
  then show thesis using q n that by (cases "ret = 0") (simp_all add: dao_path_get_ls_dir_def children_def)
qed

subsection \<open>Users\<close>

text \<open>The user found for a name, and the directory \<open>/\<close> of that user.\<close>

definition login_row :: "(string \<Rightarrow> string) \<Rightarrow> tables \<Rightarrow> string \<Rightarrow> user_row \<Rightarrow> path_row \<Rightarrow> bool" where
  "login_row coll t name u p \<longleftrightarrow> u \<in> set (users t) \<and> p \<in> set (paths t) \<and> coll (ur_name u) = coll name \<and> node_is coll (ur_id u) ''/'' p"

lemma select_login_cases:
  obtains "select coll (Select_Login name) t = []"
    | u p where "select coll (Select_Login name) t = [[num (ur_id u), Some (ur_password u), num (pr_id p)]]" "login_row coll t name u p"
proof -
  let ?xs = "[[num (ur_id u), Some (ur_password u), num (pr_id p)]. u \<leftarrow> users t, p \<leftarrow> paths t, coll (ur_name u) = coll name \<and> node_is coll (ur_id u) ''/'' p]"
  show thesis
  proof (cases ?xs)
    case Nil
    then show thesis using that(1) by simp
  next
    case (Cons x xs)
    then have "x \<in> set ?xs" by simp
    then obtain u p where "x = [num (ur_id u), Some (ur_password u), num (pr_id p)]" "login_row coll t name u p"
      by (auto simp: login_row_def split: if_splits)
    then show thesis using that(2) Cons by simp
  qed
qed

lemma dao_auth_get_login_info_spec:
  assumes ready: "dao_ready M coll db pool w" "results_stored M" and name: "plain name" "length name \<le> 128"
  obtains ret info w' where "dao_auth_get_login_info M (Some name) pool w = Some (ret, info, pool, w')" "db w' = db w"
    "ret = - 1 \<or> ret = 1 \<or> ret = 0 \<and> (\<exists>u p. login_row coll (tabs (db w)) name u p \<and>
       info = \<lparr>li_user_id = word_of_nat (ur_id u), li_password_hash = ur_password u, li_root_path_id = word_of_nat (pr_id p)\<rparr>)"
proof -
  note d = dao_readyD [OF ready(1)]
  obtain ret res w' where q: "database_pool_query M (sql_text 1024 (toks (Select_Login name))) pool w = Some (ret, res, pool, w')"
    "db w' = db w" "ret = 0 \<and> res = Some (select coll (Select_Login name) (tabs (db w))) \<or> ret = - 1"
    by (rule pool_select [OF d(1) ready(2) d(2) fits_user(1) [OF name] _ d(5)]) simp_all
  show thesis
  proof (cases "ret = 0")
    case False
    then show thesis using that q by (simp add: dao_auth_get_login_info_def)
  next
    case True
    show thesis
    proof (rule select_login_cases [of coll name "tabs (db w)"])
      assume "select coll (Select_Login name) (tabs (db w)) = []"
      then show thesis using that q True by (simp add: dao_auth_get_login_info_def del: select.simps)
    next
      fix u p assume r: "select coll (Select_Login name) (tabs (db w)) = [[num (ur_id u), Some (ur_password u), num (pr_id p)]]"
        "login_row coll (tabs (db w)) name u p"
      have ids: "ur_id u < 2 ^ 64" "pr_id p < 2 ^ 64" using r(2) d(7) by (auto simp: login_row_def ids_fit_def)
      show thesis
      proof (cases "length (ur_password u) \<ge> CRYPT_OUTPUT_SIZE")
        case True
        then show thesis using that q \<open>ret = 0\<close> r(1) by (simp add: dao_auth_get_login_info_def col_def del: select.simps)
      next
        case False
        then have "strncpy CRYPT_OUTPUT_SIZE (ur_password u) = ur_password u" by (simp add: strncpy_def)
        then have "dao_auth_get_login_info M (Some name) pool w = Some (0, \<lparr>li_user_id = word_of_nat (ur_id u),
            li_password_hash = ur_password u, li_root_path_id = word_of_nat (pr_id p)\<rparr>, pool, w')"
          using q \<open>ret = 0\<close> r(1) False ids by (simp add: dao_auth_get_login_info_def col_def strtoull_dec del: select.simps)
        then show thesis using that q(2) r(2) by blast
      qed
    qed
  qed
qed

end
