(* ===== verification/Storage.thy ===== *)
theory Storage
  imports Handler_Transfer_Correct Dao_Queries
begin

text \<open>
  The stored files: every row of the table \<open>files\<close> has its contents on disk under its hash, and every file under such a
  name has the contents that the name promises. Uploads and removals keep this, whatever fails on the way.
\<close>

subsection \<open>The invariant\<close>

definition hashes :: "tables \<Rightarrow> string set" where
  "hashes t = fr_hash ` set (files t)"

abbreviation "valid_hex h \<equiv> utils_is_valid_sha256_hex (Some h)"

definition store_ok :: "(byte list \<Rightarrow> byte list) \<Rightarrow> string \<Rightarrow> string set \<Rightarrow> (string \<Rightarrow> byte list option) \<Rightarrow> bool" where
  "store_ok sha256 root H dsk \<longleftrightarrow>
     (\<forall>h \<in> H. valid_hex h \<and> dsk (root @ ''/'' @ h) \<noteq> None) \<and>
     (\<forall>h d. valid_hex h \<longrightarrow> dsk (root @ ''/'' @ h) = Some d \<longrightarrow> hex_of (sha256 d) = h)"

text \<open>The parent of a path is a directory of the same user, so no path hangs in the air.\<close>

definition is_dir :: "tables \<Rightarrow> nat \<Rightarrow> nat \<Rightarrow> bool" where
  "is_dir t u i \<longleftrightarrow> (\<exists>q \<in> set (paths t). pr_id q = i \<and> pr_type q = 1 \<and> pr_user q = u)"

definition tree_ok :: "tables \<Rightarrow> bool" where
  "tree_ok t \<longleftrightarrow> (\<forall>r \<in> set (paths t). \<forall>i. pr_parent r = Some i \<longrightarrow> is_dir t (pr_user r) i)"

text \<open>What the handlers rely on: the database, a connection to it, the directory tree, and the stored files.\<close>

definition data_ok :: "'w mysql \<Rightarrow> (string \<Rightarrow> string) \<Rightarrow> ('w \<Rightarrow> database) \<Rightarrow> (byte list \<Rightarrow> byte list) \<Rightarrow> string \<Rightarrow> 'w server_t \<Rightarrow> bool" where
  "data_ok M coll db sha256 root s \<longleftrightarrow> mysql_ok M coll db \<and> results_stored M \<and> available (s_pool s) \<and> db_ok coll (db (s_world s)) \<and>
     tree_ok (tabs (db (s_world s))) \<and> store_ok sha256 root (hashes (tabs (db (s_world s)))) (disk_of s)"

lemma tree_ok_add:
  assumes "tree_ok t" "paths t' = paths t @ [r]" "\<And>i. pr_parent r = Some i \<Longrightarrow> is_dir t (pr_user r) i"
  shows "tree_ok t'"
  using assms by (auto simp: tree_ok_def is_dir_def)

lemma store_ok_mono: "store_ok sha256 root H dsk \<Longrightarrow> H' \<subseteq> H \<Longrightarrow> store_ok sha256 root H' dsk"
  by (auto simp: store_ok_def)

lemma store_ok_other:
  assumes "store_ok sha256 root H dsk" "\<And>h. valid_hex h \<Longrightarrow> dsk' (root @ ''/'' @ h) = dsk (root @ ''/'' @ h)"
  shows "store_ok sha256 root H dsk'"
  using assms by (simp add: store_ok_def)

lemma store_ok_remove:
  assumes "store_ok sha256 root H dsk" "h \<notin> H'" "H' \<subseteq> H"
  shows "store_ok sha256 root H' (dsk(root @ ''/'' @ h := None))"
  using assms by (auto simp: store_ok_def)

lemma store_ok_add:
  assumes "store_ok sha256 root H dsk" "valid_hex h" "hex_of (sha256 d) = h"
    "dsk' (root @ ''/'' @ h) = Some d \<or> dsk' (root @ ''/'' @ h) = dsk (root @ ''/'' @ h)" "dsk' (root @ ''/'' @ h) \<noteq> None"
    "\<And>h'. valid_hex h' \<Longrightarrow> h' \<noteq> h \<Longrightarrow> dsk' (root @ ''/'' @ h') = dsk (root @ ''/'' @ h')"
  shows "store_ok sha256 root (insert h H) dsk'"
  unfolding store_ok_def
proof (intro conjI ballI allI impI)
  fix h' assume h': "h' \<in> insert h H"
  have old: "valid_hex h' \<and> dsk (root @ ''/'' @ h') \<noteq> None" if "h' \<noteq> h" using assms(1) h' that unfolding store_ok_def by blast
  then show "valid_hex h'" using assms(2) by blast
  show "dsk' (root @ ''/'' @ h') \<noteq> None" using old assms(5) assms(6) [of h'] by (cases "h' = h") simp_all
next
  fix h' d' assume h': "valid_hex h'" "dsk' (root @ ''/'' @ h') = Some d'"
  show "hex_of (sha256 d') = h'"
  proof (cases "h' = h")
    case True
    then have "d' = d \<or> dsk (root @ ''/'' @ h) = Some d'" using h'(2) assms(4) by auto
    then show ?thesis using True assms(1,2,3) by (auto simp: store_ok_def)
  next
    case False
    then show ?thesis using h' assms(1,6) by (simp add: store_ok_def)
  qed
qed

subsection \<open>What the database operations do to the hashes\<close>

lemma hashes_link: "hashes (link_tables d u p parent name i) = hashes (tabs d)"
proof -
  have "fr_hash (if fr_id g = i then add_refs 1 g else g) = fr_hash g" for g by (simp add: add_refs_def)
  then show ?thesis by (simp add: hashes_def link_tables_def image_image del: if_image_distrib)
qed

lemma hashes_create: "hashes (create_tables d u p parent name hex sz) \<subseteq> insert (lower_hex hex) (hashes (tabs d))"
proof (cases "find (\<lambda>r. fr_hash r = lower_hex hex) (files (tabs d))")
  case None
  then show ?thesis by (auto simp: create_tables_def new_file_tables_def hashes_def)
next
  case (Some r)
  then show ?thesis using hashes_link by (auto simp: create_tables_def)
qed

lemma hashes_rm: "rm_good t i u t' ret \<Longrightarrow> hashes t' \<subseteq> hashes t"
  by (auto simp: rm_good_def hashes_def drop_ref_def add_refs_def image_iff split: if_splits)

lemma outcome_ok:
  assumes out: "txn_outcome db w pool good failed res" and ok: "db_ok coll (db w)"
    and good: "\<And>t ret. good t ret \<Longrightarrow> tables_inv coll t \<and> (\<forall>f \<in> set (files t). fr_size f < 2 ^ 64)"
  obtains ret w' where "res = Some (ret, pool, w')" "db_ok coll (db w')" "tabs (db w') = tabs (db w) \<or> (\<exists>ret. good (tabs (db w')) ret)"
    "good (tabs (db w')) ret \<or> failed ret"
proof -
  obtain ret w' where r: "res = Some (ret, pool, w')" "tabs (db w') = tabs (db w) \<or> (\<exists>ret. good (tabs (db w')) ret)"
    "good (tabs (db w')) ret \<or> failed ret"
    using out by (auto simp: txn_outcome_def)
  moreover have "db_ok coll (db w')" using outcome_keeps [OF out ok good] r(1) by (auto simp: dao_keeps_def)
  ultimately show thesis using that by blast
qed

subsection \<open>Names in requests\<close>

text \<open>
  A path that can be written into the statements as it is: without quotes and backslashes, and short enough for the
  buffers of 1024 bytes. For other paths the statement is a different one.
\<close>

definition good_path :: "string \<Rightarrow> bool" where
  "good_path p \<longleftrightarrow> plain p \<and> length p \<le> 425"

definition names_ok :: "string \<Rightarrow> string \<Rightarrow> bool" where
  "names_ok dir arg \<longleftrightarrow> good_path (path_of (resolve dir arg))"

lemma plain_parts: "plain p \<Longrightarrow> plain (take n p)" "plain p \<Longrightarrow> plain (drop n p)"
  by (auto simp: plain_def dest: in_set_takeD in_set_dropD)

lemma good_path_parts: "good_path p \<Longrightarrow> good_path (take n p)" "good_path p \<Longrightarrow> good_path (drop n p)"
  by (auto simp: good_path_def plain_parts)

lemma good_path_root [simp]: "good_path ''/''"
  by (simp add: good_path_def plain_def Q_def NUL_def)

lemma strrchr_found: "c \<in> set xs \<Longrightarrow> \<exists>i. strrchr xs c = Some i"
  by (induction xs) (auto split: option.split)

lemma path_of_slash: "CHR ''/'' \<in> set (path_of ds)"
  by (cases ds) (simp_all add: path_of_def)

lemma normalize_cases:
  obtains "normalize_cd_path (Some c) (Some a) (Some []) PATH_MAX = Some (0, Some (path_of (resolve c a)))"
      "length (path_of (resolve c a)) < PATH_MAX"
    | out where "normalize_cd_path (Some c) (Some a) (Some []) PATH_MAX = Some (- 1, Some out)"
  using normalize_result [of PATH_MAX c a "[]"] by (cases "length (full_path c a) < PATH_MAX \<and> length (path_of (resolve c a)) < PATH_MAX") auto

lemma puts_target_cases:
  obtains "puts_target remote = Some None"
    | parent name where "puts_target remote = Some (Some (path_of (resolve ''/'' remote), parent, name))"
      "names_ok ''/'' remote \<Longrightarrow> good_path parent \<and> good_path name" "name \<noteq> []" "length name < NAME_MAX"
proof (rule normalize_cases [of "''/''" remote])
  assume n: "normalize_cd_path (Some ''/'') (Some remote) (Some []) PATH_MAX = Some (0, Some (path_of (resolve ''/'' remote)))"
  let ?p = "path_of (resolve ''/'' remote)"
  obtain i where i: "strrchr ?p CHR ''/'' = Some i" using strrchr_found [OF path_of_slash] by blast
  let ?parent = "if i = 0 then ''/'' else take i ?p" and ?name = "drop (Suc i) ?p"
  have g: "names_ok ''/'' remote \<Longrightarrow> good_path ?parent \<and> good_path ?name" by (simp add: names_ok_def good_path_parts)
  show thesis
  proof (cases "?p = ''/'' \<or> ?name = [] \<or> length ?name \<ge> NAME_MAX")
    case True
    then have "puts_target remote = Some None" using n i by (auto simp: puts_target_def Let_def)
    then show thesis by (rule that(1))
  next
    case False
    then have "puts_target remote = Some (Some (?p, ?parent, ?name))" using n i by (simp add: puts_target_def Let_def)
    then show thesis by (rule that(2)) (use g False in auto)
  qed
next
  fix out assume "normalize_cd_path (Some ''/'') (Some remote) (Some []) PATH_MAX = Some (- 1, Some out)"
  then have "puts_target remote = Some None" by (simp add: puts_target_def)
  then show thesis by (rule that(1))
qed

lemma puts_request_hex: "puts_request e task = Inr (remote, sz, hex) \<Longrightarrow> valid_hex hex"
  by (auto simp: puts_request_def Let_def split: option.splits if_splits)

lemma valid_hexD:
  assumes "valid_hex h"
  shows "plain h" "length h = 64"
proof -
  have "isxdigit c \<longrightarrow> c \<noteq> Q \<and> c \<noteq> CHR 0x5C \<and> c \<noteq> NUL" for c by (auto simp: isxdigit_def Q_def NUL_def)
  then show "plain h" "length h = 64" using assms by (auto simp: utils_is_valid_sha256_hex_def list_all_iff plain_def)
qed

lemma lower_hex_of: "lower_hex (hex_of bs) = hex_of bs"
proof -
  have d: "n < 16 \<Longrightarrow> lower (hex_digit n) = hex_digit n" for n by (auto simp: lower_def hex_digit_def of_char_of)
  have "lower (hex_digit (unat b div 16)) = hex_digit (unat b div 16) \<and> lower (hex_digit (unat b mod 16)) = hex_digit (unat b mod 16)" for b :: byte
    using d unsigned_less [of b, where 'a = nat] by (simp add: less_mult_imp_div_less)
  then show ?thesis by (induction bs) (simp_all add: hex_of_def lower_hex_def)
qed

subsection \<open>Uploads\<close>

text \<open>A step that may also use the database.\<close>

definition own_data :: "transfer_task_t \<Rightarrow> 'w server_t \<Rightarrow> 'w server_t \<Rightarrow> bool" where
  "own_data task s s' \<longleftrightarrow> s_pool s' = s_pool s \<and> s_table s' = s_table s \<and> s_wheel s' = s_wheel s \<and>
     s_epoll s' = s_epoll s \<and> s_open s' = s_open s \<and> (\<forall>fd. fd \<noteq> x_fd task \<longrightarrow> s_socks s' fd = s_socks s fd)"

lemma own_io_data: "own_io task s s' \<Longrightarrow> own_data task s s' \<and> s_world s' = s_world s"
  by (simp add: own_io_def own_data_def)

lemma own_data_simps [simp]:
  "own_data task s s" "own_data task s (s'\<lparr>s_world := w\<rparr>) = own_data task s s'"
  "own_data task s (s'\<lparr>s_kern := k\<rparr>) = own_data task s s'"
  "own_data task s (s'\<lparr>s_socks := (s_socks s')(x_fd task := sock)\<rparr>) = own_data task s s'"
  "own_data task s (s'\<lparr>s_world := w, s_socks := (s_socks s')(x_fd task := sock)\<rparr>) = own_data task s s'"
  by (simp_all add: own_data_def)

lemma server_pool_same [simp]: "s\<lparr>s_pool := s_pool s, s_world := w\<rparr> = s\<lparr>s_world := w\<rparr>"
  by simp

lemma own_data_answer [simp]:
  "own_data task s (answer e task type st s') = own_data task s s'" "s_world (answer e task type st s') = s_world s'"
  using answer_frame(1) [of task s' e type st] by (simp_all add: own_io_def own_data_def)

lemma own_data_trans [trans]: "own_data task s s' \<Longrightarrow> own_data task s' s'' \<Longrightarrow> own_data task s s''"
  by (simp add: own_data_def)

text \<open>Nothing but the connection and the answers of the database has changed.\<close>

definition same_data :: "('w \<Rightarrow> database) \<Rightarrow> transfer_task_t \<Rightarrow> 'w server_t \<Rightarrow> 'w server_t \<Rightarrow> bool" where
  "same_data db task s s' \<longleftrightarrow> own_data task s s' \<and> db (s_world s') = db (s_world s) \<and> disk_of s' = disk_of s"

lemma data_okD:
  assumes "data_ok M coll db sha256 root s" "room (db (s_world s))"
  shows "dao_ready M coll db (s_pool s) (s_world s)" "results_stored M" "mysql_ok M coll db" "available (s_pool s)"
    "db_ok coll (db (s_world s))" "store_ok sha256 root (hashes (tabs (db (s_world s)))) (disk_of s)"
    "saved (db (s_world s)) = None" "ids_fit (tabs (db (s_world s)))" "tree_ok (tabs (db (s_world s)))"
proof -
  show r: "dao_ready M coll db (s_pool s) (s_world s)" using assms by (simp add: data_ok_def dao_ready_def)
  show "saved (db (s_world s)) = None" "ids_fit (tabs (db (s_world s)))" by (rule dao_readyD [OF r])+
qed (use assms in \<open>simp_all add: data_ok_def\<close>)

lemma data_ok_same: "data_ok M coll db sha256 root s \<Longrightarrow> same_data db task s s' \<Longrightarrow> data_ok M coll db sha256 root s'"
  by (simp add: data_ok_def same_data_def own_data_def)

lemma good_path_node:
  assumes "data_ok M coll db sha256 root s" "room (db (s_world s))" "good_path p"
  obtains ret pid w' where "dao_path_get_node_id M u p (s_pool s) (s_world s) = Some (ret, pid, s_pool s, w')" "db w' = db (s_world s)"
    "ret = - 1 \<or> (case find_node coll (tabs (db (s_world s))) (unat u) p of
        None \<Rightarrow> ret = DAO_PATH_NOT_FOUND \<and> pid = None
      | Some r \<Rightarrow> ret = int (pr_type r) \<and> pid = Some (word_of_nat (pr_id r)))"
proof -
  note d = data_okD [OF assms(1,2)]
  have "sql_fits 1024 (Select_Node (unat u) p)" using assms(3) by (simp add: good_path_def fits_node)
  from dao_path_get_node_id_spec [OF d(3,2,4) this d(7,8)] that show thesis by blast
qed

lemma find_node_dir:
  assumes "ids_fit t" "find_node coll t u p = Some r"
  shows "pr_user r = u" "pr_id r < 2 ^ 64" "pr_type r < 2" "int (pr_type r) = DAO_PATH_IS_DIR \<Longrightarrow> is_dir t u (unat (word_of_nat (pr_id r) :: u64))"
proof -
  have r: "r \<in> set (paths t)" "node_is coll u p r" using assms(2) by (auto simp: find_node_def find_Some_iff)
  show "pr_user r = u" "pr_id r < 2 ^ 64" "pr_type r < 2" using r assms(1) by (auto simp: node_is_def ids_fit_def)
  then show "int (pr_type r) = DAO_PATH_IS_DIR \<Longrightarrow> is_dir t u (unat (word_of_nat (pr_id r) :: u64))"
    using r by (auto simp: is_dir_def unat_of_nat64)
qed

lemma puts_place_spec:
  assumes ok: "data_ok M coll db sha256 root s" "room (db (s_world s))" and p: "good_path target" "good_path parent"
  obtains s' where "puts_place M e task target parent s = Some (Inl s')" "same_data db task s s'"
    | pid s' where "puts_place M e task target parent s = Some (Inr (pid, s'))" "same_data db task s s'"
      "is_dir (tabs (db (s_world s))) (unat (ctx_user_id (x_session task))) (unat pid)"
proof -
  let ?u = "ctx_user_id (x_session task)"
  obtain r1 pid w1 where n1: "dao_path_get_node_id M ?u parent (s_pool s) (s_world s) = Some (r1, pid, s_pool s, w1)"
      "db w1 = db (s_world s)" "r1 = - 1 \<or> (case find_node coll (tabs (db (s_world s))) (unat ?u) parent of
          None \<Rightarrow> r1 = DAO_PATH_NOT_FOUND \<and> pid = None | Some r \<Rightarrow> r1 = int (pr_type r) \<and> pid = Some (word_of_nat (pr_id r)))"
    by (rule good_path_node [OF ok p(2)])
  let ?s1 = "s\<lparr>s_world := w1\<rparr>"
  have ok1: "data_ok M coll db sha256 root ?s1" "room (db (s_world ?s1))"
    using data_ok_same [OF ok(1), of task ?s1] ok(2) n1(2) by (simp_all add: same_data_def)
  obtain r2 w2 pid2 where n2: "dao_path_get_node_id M ?u target (s_pool s) w1 = Some (r2, pid2, s_pool s, w2)" "db w2 = db (s_world s)"
    by (rule good_path_node [OF ok1 p(1), of ?u]) (use n1(2) in simp)
  have pid: "r1 = DAO_PATH_IS_DIR \<Longrightarrow> pid \<noteq> None \<and> is_dir (tabs (db (s_world s))) (unat ?u) (unat (the pid))"
    using n1(3) find_node_dir [OF data_okD(8) [OF ok], of coll "unat ?u" parent] by (auto split: option.splits)
  let ?s2 = "s\<lparr>s_world := w2\<rparr>"
  have eq: "puts_place M e task target parent s = Some
     (if r1 = DAO_PATH_NOT_FOUND \<or> r1 = DAO_PATH_IS_FILE then Inl (answer e task CMD_ERROR STATUS_BAD_REQUEST ?s1)
      else if r1 \<noteq> DAO_PATH_IS_DIR then Inl (answer e task CMD_ERROR STATUS_OTHER_ERROR ?s1)
      else if r2 = DAO_PATH_IS_DIR \<or> r2 = DAO_PATH_IS_FILE then Inl (answer e task CMD_ERROR STATUS_BAD_REQUEST ?s2)
      else if r2 \<noteq> DAO_PATH_NOT_FOUND then Inl (answer e task CMD_ERROR STATUS_OTHER_ERROR ?s2)
      else Inr (the pid, ?s2))"
    using pid by (auto simp: puts_place_def n1(1) n2(1) Let_def)
  have same: "same_data db task s (answer e task type st ?s1)" "same_data db task s (answer e task type st ?s2)" "same_data db task s ?s2" for type st
    using n1(2) n2(2) by (simp_all add: same_data_def)
  show thesis
    by (cases "r1 = DAO_PATH_IS_DIR \<and> r2 = DAO_PATH_NOT_FOUND")
      (use eq same that pid in \<open>auto split: if_splits\<close>)
qed

text \<open>
  The effect of an upload on the tables: none, or the new path, with a file of the announced hash behind it.
\<close>

definition path_added :: "(string \<Rightarrow> string) \<Rightarrow> database \<Rightarrow> tables \<Rightarrow> nat \<Rightarrow> string \<Rightarrow> string \<Rightarrow> bool" where
  "path_added coll d t u p hex \<longleftrightarrow>
     (\<exists>f \<in> set (files t). \<exists>parent name. fr_hash f = lower_hex hex \<and> is_dir (tabs d) u parent \<and>
        paths t = paths (tabs d) @ [file_path_row (next_path d) u p (fr_id f) parent name]) \<and>
     \<not> (\<exists>q \<in> set (paths (tabs d)). node_is coll u p q)"

lemma path_added_link:
  assumes "f \<in> set (files (tabs d))" "fr_hash f = lower_hex hex" "\<not> (\<exists>q \<in> set (paths (tabs d)). node_is coll u p q)"
    "is_dir (tabs d) u parent"
  shows "path_added coll d (link_tables d u p parent name (fr_id f)) u p hex"
proof -
  have "add_refs 1 f \<in> set (files (link_tables d u p parent name (fr_id f)))" using assms(1) by (auto simp: link_tables_def)
  then show ?thesis unfolding path_added_def using assms(2,3,4)
    by (intro conjI bexI [of _ "add_refs 1 f"] exI [of _ parent] exI [of _ name]) (auto simp: link_tables_def add_refs_def)
qed

lemma path_added_tree:
  assumes "path_added coll d t u p hex" "tree_ok (tabs d)"
  shows "tree_ok t"
proof -
  obtain i parent name where r: "paths t = paths (tabs d) @ [file_path_row (next_path d) u p i parent name]" "is_dir (tabs d) u parent"
    using assms(1) by (auto simp: path_added_def)
  show ?thesis by (rule tree_ok_add [OF assms(2) r(1)]) (use r(2) in \<open>simp add: file_path_row_def\<close>)
qed

lemma path_added_create:
  assumes "\<not> (\<exists>q \<in> set (paths (tabs d)). node_is coll u p q)"
    "is_dir (tabs d) u parent"
  shows "path_added coll d (create_tables d u p parent name hex sz) u p hex"
proof (cases "find (\<lambda>r. fr_hash r = lower_hex hex) (files (tabs d))")
  case None
  then show ?thesis using assms by (auto simp: create_tables_def new_file_tables_def path_added_def)
next
  case (Some r)
  then have "r \<in> set (files (tabs d))" "fr_hash r = lower_hex hex" by (auto simp: find_Some_iff)
  then show ?thesis using path_added_link [OF _ _ assms] Some by (simp add: create_tables_def)
qed

definition upload_done ::
  "'w mysql \<Rightarrow> (string \<Rightarrow> string) \<Rightarrow> ('w \<Rightarrow> database) \<Rightarrow> (byte list \<Rightarrow> byte list) \<Rightarrow> transfer_task_t \<Rightarrow> string \<Rightarrow> string \<Rightarrow>
    'w server_t \<Rightarrow> 'w server_t \<Rightarrow> bool" where
  "upload_done M coll db sha256 task p hex s s' \<longleftrightarrow>
     own_data task s s' \<and> data_ok M coll db sha256 (x_storage_root task) s' \<and>
     (tabs (db (s_world s')) = tabs (db (s_world s)) \<or>
      path_added coll (db (s_world s)) (tabs (db (s_world s'))) (unat (ctx_user_id (x_session task))) p hex)"

lemma upload_done_same:
  "data_ok M coll db sha256 (x_storage_root task) s \<Longrightarrow> same_data db task s s' \<Longrightarrow> upload_done M coll db sha256 task p hex s s'"
  using data_ok_same [of M coll db sha256 "x_storage_root task" s task s'] by (simp add: upload_done_def same_data_def)

lemma upload_done_after:
  "same_data db task s s1 \<Longrightarrow> upload_done M coll db sha256 task p hex s1 s' \<Longrightarrow> upload_done M coll db sha256 task p hex s s'"
  using own_data_trans by (auto simp: upload_done_def same_data_def)

lemma puts_instant_spec:
  assumes ok: "data_ok M coll db sha256 (x_storage_root task) s" "room (db (s_world s))" and p: "good_path p" "good_path name"
    and f: "f \<in> set (files (tabs (db (s_world s))))" "fr_hash f = lower_hex hex"
    and dir: "is_dir (tabs (db (s_world s))) (unat (ctx_user_id (x_session task))) (unat parent)"
  shows "\<exists>s'. puts_instant M e task p parent name (word_of_nat (fr_id f)) sz s = Some s' \<and> upload_done M coll db sha256 task p hex s s'"
proof -
  note d = data_okD [OF ok]
  let ?u = "ctx_user_id (x_session task)" and ?f = "word_of_nat (fr_id f) :: u64"
  have id: "unat ?f = fr_id f" using d(8) f(1) by (auto simp: ids_fit_def unat_of_nat64)
  have st: "plain p" "plain name" "length p + length name \<le> 9000" using p by (auto simp: good_path_def)
  have fid: "unat ?f \<in> fr_id ` set (files (tabs (db (s_world s))))" using id f(1) by simp
  note out = link_outcome [OF d(3,4,5) st fid, of ?u parent]
  have good: "tables_inv coll t \<and> (\<forall>f \<in> set (files t). fr_size f < 2 ^ 64)"
    if "ret = 0 \<and> t = link_tables (db (s_world s)) (unat ?u) p (unat parent) name (unat ?f) \<and> tables_inv coll t \<and>
       \<not> (\<exists>q \<in> set (paths (tabs (db (s_world s)))). node_is coll (unat ?u) p q)" for t and ret :: int
    using that files_of_link [OF dao_readyD(8) [OF d(1)]] by blast
  obtain ret w' where r: "dao_link_existing_file M ?u p parent name ?f (s_pool s) (s_world s) = Some (ret, s_pool s, w')"
      "db_ok coll (db w')" "tabs (db w') = tabs (db (s_world s)) \<or>
        (\<exists>ret. ret = (0 :: int) \<and> tabs (db w') = link_tables (db (s_world s)) (unat ?u) p (unat parent) name (unat ?f) \<and> tables_inv coll (tabs (db w')) \<and>
          \<not> (\<exists>q \<in> set (paths (tabs (db (s_world s)))). node_is coll (unat ?u) p q))"
    by (rule outcome_ok [OF out d(5) good]) blast+
  have h: "hashes (tabs (db w')) = hashes (tabs (db (s_world s)))" using r(3) hashes_link by auto
  have "path_added coll (db (s_world s)) (tabs (db w')) (unat ?u) p hex" if "tabs (db w') \<noteq> tabs (db (s_world s))"
    using r(3) that path_added_link [OF f _ dir] id by auto
  moreover from this have "tree_ok (tabs (db w'))"
    using path_added_tree [OF _ d(9)] d(9) by (cases "tabs (db w') = tabs (db (s_world s))") simp_all
  ultimately have fin: "upload_done M coll db sha256 task p hex s s'" if "own_data task s s'" "s_world s' = w'" "disk_of s' = disk_of s" for s'
    using that ok(1) r(2) h by (auto simp: upload_done_def data_ok_def own_data_def)
  obtain r2 sock where m: "send_puts_resume e (Some (x_key task)) sz (s_socks s (x_fd task)) = (r2, sock)" by (metis prod.collapse)
  show ?thesis unfolding puts_instant_def using r(1) m by (auto simp: Let_def intro!: fin)
qed

lemma puts_publish_spec:
  assumes ok: "data_ok M coll db sha256 (x_storage_root task) s" "room (db (s_world s))" and p: "good_path p" "good_path name"
    and dir: "is_dir (tabs (db (s_world s))) (unat (ctx_user_id (x_session task))) (unat parent)"
    and hex: "valid_hex hex" and up: "upload_stored sha256 task hex sz s s1"
  shows "\<exists>s'. puts_publish M e task p parent name hex sz s1 = Some s' \<and> upload_done M coll db sha256 task p hex s s'"
proof -
  note d = data_okD [OF ok] and h = valid_hexD [OF hex]
  let ?u = "ctx_user_id (x_session task)" and ?root = "x_storage_root task" and ?H = "hashes (tabs (db (s_world s)))"
  have s1: "own_data task s s1" "s_world s1 = s_world s" "s_pool s1 = s_pool s"
    using up own_io_data unfolding upload_stored_def own_io_def by (blast+)
  obtain bs where bs: "hex_of (sha256 bs) = hex" "disk_of s1 (?root @ ''/'' @ hex) \<noteq> None"
      "disk_of s1 (?root @ ''/'' @ hex) = Some bs \<or> disk_of s1 (?root @ ''/'' @ hex) = disk_of s (?root @ ''/'' @ hex)"
    using up by (auto simp: upload_stored_def final_name_def)
  have "disk_of s1 (?root @ ''/'' @ h') = disk_of s (?root @ ''/'' @ h')" if "valid_hex h'" "h' \<noteq> hex" for h'
    using up that last_hex_path [OF that(1), of task hex ?root] unfolding upload_stored_def changes_only_def final_name_def by auto
  then have store: "store_ok sha256 ?root (insert hex ?H) (disk_of s1)" by (intro store_ok_add [where d = bs and dsk = "disk_of s"] d(6) hex bs)
  have low: "lower_hex hex = hex" using bs(1) lower_hex_of by metis
  have st: "plain p" "plain name" "length p + length name \<le> 9000" using p by (auto simp: good_path_def)
  note out = create_outcome [OF d(3,4,5) dao_readyD(4) [OF d(1)] st h, of ?u parent sz]
  let ?t = "create_tables (db (s_world s)) (unat ?u) p (unat parent) name hex (unat sz)"
  have good: "tables_inv coll t \<and> (\<forall>f \<in> set (files t). fr_size f < 2 ^ 64)"
    if "ret = 0 \<and> t = ?t \<and> tables_inv coll t \<and> \<not> (\<exists>q \<in> set (paths (tabs (db (s_world s)))). node_is coll (unat ?u) p q)" for t and ret :: int
    using that files_of_create [OF dao_readyD(8) [OF d(1)], of "unat sz"] unsigned_less [of sz, where 'a = nat] by auto
  obtain ret w' where r: "dao_create_file_with_path M ?u p parent name hex sz (s_pool s) (s_world s) = Some (ret, s_pool s, w')"
      "db_ok coll (db w')" "tabs (db w') = tabs (db (s_world s)) \<or>
        (\<exists>ret. ret = (0 :: int) \<and> tabs (db w') = ?t \<and> tables_inv coll (tabs (db w')) \<and>
          \<not> (\<exists>q \<in> set (paths (tabs (db (s_world s)))). node_is coll (unat ?u) p q))"
    by (rule outcome_ok [OF out d(5) good]) blast+
  have "hashes (tabs (db w')) \<subseteq> insert hex ?H" using r(3) hashes_create [of "db (s_world s)" "unat ?u" p "unat parent" name hex "unat sz"] low by auto
  then have st': "store_ok sha256 ?root (hashes (tabs (db w'))) (disk_of s1)" by (rule store_ok_mono [OF store])
  have "path_added coll (db (s_world s)) (tabs (db w')) (unat ?u) p hex" if "tabs (db w') \<noteq> tabs (db (s_world s))"
    using r(3) that path_added_create [OF _ dir] by auto
  moreover from this have "tree_ok (tabs (db w'))"
    using path_added_tree [OF _ d(9)] d(9) by (cases "tabs (db w') = tabs (db (s_world s))") simp_all
  ultimately have fin: "upload_done M coll db sha256 task p hex s s'" if "own_data task s s'" "s_world s' = w'" "disk_of s' = disk_of s1" for s'
    using that ok(1) r(2) st' by (auto simp: upload_done_def data_ok_def own_data_def)
  have own: "own_data task s (s1\<lparr>s_pool := s_pool s, s_world := w'\<rparr>)" using s1(1) by (simp add: own_data_def)
  show ?thesis unfolding puts_publish_def using r(1) s1(2,3) own by (auto simp: Let_def intro!: fin)
qed

text \<open>An upload that needs the data: they are stored before the rows are made.\<close>

lemma puts_upload_spec:
  assumes ok: "data_ok M coll db sha256 (x_storage_root task) s" "room (db (s_world s))" and p: "good_path p" "good_path name"
    and dir: "is_dir (tabs (db (s_world s))) (unat (ctx_user_id (x_session task))) (unat parent)"
    and hex: "valid_hex hex" and key: "wf_session_id (x_key task)" and part: "length (file_data (s_kern s) (part_name task hex)) < 2 ^ 64"
  shows "\<exists>s'. puts_upload M sha256 e task p parent name hex sz s = Some s' \<and> upload_done M coll db sha256 task p hex s s'"
proof (rule puts_upload_cases [OF key hex part, of M sha256 e p parent name sz])
  fix s' assume r: "puts_upload M sha256 e task p parent name hex sz s = Some s'" "own_io task s s'"
    "changes_only {part_name task hex} (s_kern s) (s_kern s')"
  note d = data_okD [OF ok]
  have "disk_of s' (x_storage_root task @ ''/'' @ h) = disk_of s (x_storage_root task @ ''/'' @ h)" if "valid_hex h" for h
    using r(3) last_hex_path [OF that, of task hex "x_storage_root task"] by (auto simp: changes_only_def)
  then have "store_ok sha256 (x_storage_root task) (hashes (tabs (db (s_world s)))) (disk_of s')" by (rule store_ok_other [OF d(6)])
  then have "upload_done M coll db sha256 task p hex s s'"
    using own_io_data [OF r(2)] ok(1) by (simp add: upload_done_def data_ok_def own_data_def)
  then show ?thesis using r(1) by blast
next
  fix s' assume "upload_stored sha256 task hex sz s s'"
    "puts_upload M sha256 e task p parent name hex sz s = puts_publish M e task p parent name hex sz s'"
  then show ?thesis using puts_publish_spec [OF ok p dir hex] by simp
qed

text \<open>Steps 5 to 10 of \<open>handle_puts\<close>: link to the stored file, or receive it.\<close>

definition puts_store ::
  "'w mysql \<Rightarrow> (byte list \<Rightarrow> byte list) \<Rightarrow> endian \<Rightarrow> transfer_task_t \<Rightarrow> string \<Rightarrow> u64 \<Rightarrow> string \<Rightarrow> string \<Rightarrow> u64 \<Rightarrow>
    'w server_t \<Rightarrow> 'w server_t option" where
  "puts_store M sha256 e task target_path parent_id file_name sha256_hex file_size s = do {
     (file_ret, fid, pool, w) \<leftarrow> dao_file_find_by_hash M sha256_hex file_size (s_pool s) (s_world s);
     let s = s\<lparr>s_pool := pool, s_world := w\<rparr>;
     if file_ret < 0 then Some (answer e task CMD_ERROR STATUS_OTHER_ERROR s)
     else if file_ret = 1 then do {
       file_id \<leftarrow> fid;
       puts_instant M e task target_path parent_id file_name file_id file_size s }
     else puts_upload M sha256 e task target_path parent_id file_name sha256_hex file_size s }"

lemma puts_store_spec:
  assumes ok: "data_ok M coll db sha256 (x_storage_root task) s" "room (db (s_world s))" and p: "good_path p" "good_path name"
    and dir: "is_dir (tabs (db (s_world s))) (unat (ctx_user_id (x_session task))) (unat parent)"
    and hex: "valid_hex hex" and key: "wf_session_id (x_key task)" and part: "length (file_data (s_kern s) (part_name task hex)) < 2 ^ 64"
  shows "\<exists>s'. puts_store M sha256 e task p parent name hex sz s = Some s' \<and> upload_done M coll db sha256 task p hex s s'"
proof -
  note d = data_okD [OF ok]
  obtain ret fid w' where q: "dao_file_find_by_hash M hex sz (s_pool s) (s_world s) = Some (ret, fid, s_pool s, w')" "db w' = db (s_world s)"
    "ret = - 1 \<or> ret = 0 \<or> ret = 1 \<and> (\<exists>f \<in> set (files (tabs (db (s_world s)))). fr_hash f = lower_hex hex \<and> fr_size f = unat sz \<and>
       fid = Some (word_of_nat (fr_id f)))"
    by (rule dao_file_find_by_hash_spec [OF d(1,2) valid_hexD [OF hex]])
  let ?s = "s\<lparr>s_world := w'\<rparr>"
  have same: "same_data db task s ?s" "same_data db task s (answer e task CMD_ERROR STATUS_OTHER_ERROR ?s)" using q(2) by (simp_all add: same_data_def)
  have ok1: "data_ok M coll db sha256 (x_storage_root task) ?s" "room (db (s_world ?s))"
    using data_ok_same [OF ok(1) same(1)] ok(2) q(2) by simp_all
  consider "ret = - 1" | "ret = 0" | f where "ret = 1" "f \<in> set (files (tabs (db (s_world s))))" "fr_hash f = lower_hex hex" "fid = Some (word_of_nat (fr_id f))"
    using q(3) by blast
  then show ?thesis
  proof cases
    case 1
    then show ?thesis using q(1) upload_done_same [OF ok(1) same(2)] by (simp add: puts_store_def)
  next
    case 2
    then show ?thesis using q(1,2) puts_upload_spec [OF ok1 p _ hex key, of parent e sz] part dir upload_done_after [OF same(1)]
      by (auto simp: puts_store_def)
  next
    case 3
    then show ?thesis using q(1,2) dir puts_instant_spec [OF ok1 p, of f hex parent e sz] upload_done_after [OF same(1)]
      by (auto simp: puts_store_def)
  qed
qed

text \<open>The request that a client's offer becomes.\<close>

lemma puts_request_offer:
  assumes "x_packet task = mk_packet CMD_PUTS_REQ STATUS_OK key (upload_offer sha256 e remote d)" "is_cstr remote" "length remote < PATH_MAX"
    "cchar remote 0 = CHR ''/''" "length (sha256 d) = 32"
  shows "puts_request e task = Inr (remote, word_of_nat (length d), hex_of (sha256 d))"
proof -
  let ?r = "\<lparr>ur_remote_path = char_array PATH_MAX remote, ur_file_size = host_to_net_u64 e (word_of_nat (length d)),
    ur_sha256_hex = char_array 65 (hex_of (sha256 d))\<rparr>"
  have load: "load_upload_request e (upload_offer sha256 e remote d) = ?r"
    unfolding upload_offer_def by (rule load_store_upload_request) simp_all
  have v: "valid_hex (hex_of (sha256 d))" by (rule hex_of_valid [OF assms(5)])
  then have c: "is_cstr (hex_of (sha256 d))" using valid_hexD(1) [OF v] by (auto simp: plain_def is_cstr_def)
  have str: "cstr_of (char_array PATH_MAX remote) = remote" "cstr_of (char_array 65 (hex_of (sha256 d))) = hex_of (sha256 d)"
    using cstr_of_char_array [OF _ assms(2), of PATH_MAX] cstr_of_char_array [OF _ c, of 65] assms(3) valid_hexD(2) [OF v] by (simp_all add: strncpy_def)
  have ne: "upload_offer sha256 e remote d \<noteq> []" by (metis length_upload_offer list.size(3) UPLOAD_REQUEST_SIZE_def zero_neq_numeral)
  show ?thesis unfolding puts_request_def
    using assms(1,4) ne load str v char_array_terminated [of PATH_MAX remote] char_array_terminated [of 65 "hex_of (sha256 d)"]
    by (simp add: mk_packet_def UPLOAD_REQUEST_SIZE_def unat_of_nat)
qed

subsection \<open>A server to try the properties on\<close>

definition sample_sha256 :: "byte list \<Rightarrow> byte list" where
  "sample_sha256 d = replicate 32 0xAA"

definition sample_key :: session_id_t where
  "sample_key = replicate 16 7"

definition sample_sock :: "byte list \<Rightarrow> sock" where
  "sample_sock input = \<lparr>rx = input, tx = [], rx_io = [Eintr, Chunk 3], tx_io = [Chunk 1]\<rparr>"

definition sample_wheel :: timer_wheel_t where
  "sample_wheel = \<lparr>nodes = Map.empty, timeout_seconds = 60, slot_count = 61, current_second = 0, slots = replicate 61 None,
     tw_fd_buckets = replicate 1024 None, tw_size = 0\<rparr>"

definition sample_state :: "session_table_t option \<Rightarrow> timer_wheel_t \<Rightarrow> byte list \<Rightarrow> server server_t" where
  "sample_state tbl wheel input =
     \<lparr>s_pool = sample_pool, s_world = sample_server, s_table = tbl, s_wheel = wheel,
      s_kern = \<lparr>disk = [''/s/'' @ sample_hash \<mapsto> [1, 2, 3, 4, 5]], kio = [], kok = []\<rparr>,
      s_socks = (\<lambda>fd. sample_sock input), s_epoll = {}, s_open = {5}\<rparr>"

definition sample_upload :: transfer_task_t where
  "sample_upload = \<lparr>x_fd = 5, x_packet = mk_packet CMD_PUTS_REQ STATUS_OK sample_key (upload_offer sample_sha256 Little ''/g'' [9, 9]),
     x_session = \<lparr>ctx_user_id = 1, ctx_cwd_id = 1, ctx_username = ''ann'', ctx_cwd = ''/''\<rparr>,
     x_storage_root = ''/s'', x_temp_dir = ''/t''\<rparr>"

lemma sample_sha256_hash: "hex_of (sample_sha256 d) = sample_hash"
proof -
  have "concat (replicate n [c, c]) = replicate (2 * n) c" for n :: nat and c :: char by (induction n) simp_all
  moreover have "hex_digit 10 = CHR ''a''" by code_simp
  ultimately show ?thesis by (simp add: hex_of_def sample_sha256_def sample_hash_def)
qed

lemma sample_data_ok: "data_ok reference_mysql (\<lambda>s. s) srv_db sample_sha256 ''/s'' (sample_state tbl wheel input)"
proof -
  have v: "valid_hex sample_hash"
    by (simp add: utils_is_valid_sha256_hex_def sample_hash_def isxdigit_def list_all_iff)
  have "hashes (tabs (srv_db sample_server)) = {sample_hash}" by (simp add: hashes_def sample_server_def sample_tables_def)
  moreover have "tree_ok (tabs (srv_db sample_server))"
    by (simp add: tree_ok_def is_dir_def sample_server_def sample_tables_def dir_row_def file_path_row_def)
  ultimately show ?thesis using sample_ready v
    by (auto simp: data_ok_def dao_ready_def sample_state_def store_ok_def reference_results_stored sample_sha256_hash split: if_splits)
qed

lemma sample_room: "room (srv_db (s_world (sample_state tbl wheel input)))"
  using sample_ready by (simp add: dao_ready_def sample_state_def)

lemma sample_upload_request:
  "puts_request Little sample_upload = Inr (''/g'', 2, sample_hash)" "names_ok ''/'' ''/g''" "wf_session_id sample_key"
proof -
  show "puts_request Little sample_upload = Inr (''/g'', 2, sample_hash)"
    using puts_request_offer [of sample_upload sample_key sample_sha256 Little "''/g''" "[9, 9]"]
    by (simp add: sample_upload_def cchar_def sample_sha256_hash is_cstr_def NUL_def) (simp add: sample_sha256_def)
  show "names_ok ''/'' ''/g''"
    by (simp add: names_ok_def resolve_def full_path_def components_def walk_def path_of_def good_path_def plain_def Q_def NUL_def)
  show "wf_session_id sample_key" by (simp add: wf_session_id_def sample_key_def SESSION_ID_SIZE_def)
qed



end
