(* ===== verification/Session_Correct.thy ===== *)
theory Session_Correct
  imports Session
begin

text \<open>
  Correctness of the session table: both hash indexes satisfy the contract \<open>chained_index\<close>; the
  representation invariant \<open>table_inv\<close> is kept by every operation, none of which touches memory it
  must not touch; and the table refines \<open>session_spec\<close>, two finite maps.
\<close>

subsection \<open>The two indexes\<close>

lemma hash_session_id_bound: "0 < cnt \<Longrightarrow> hash_session_id key cnt < cnt"
  by (simp add: hash_session_id_def)

lemma hash_fd_bound: "0 < cnt \<Longrightarrow> hash_fd fd cnt < cnt"
  by (simp add: hash_fd_def)

lemma bucket_count_pos: "0 < SESSION_BUCKET_COUNT"
  by (simp add: SESSION_BUCKET_COUNT_def)

interpretation session_ix: chained_index sid hash_next "\<lambda>n v. n\<lparr>hash_next := v\<rparr>"
  "\<lambda>key. hash_session_id key SESSION_BUCKET_COUNT" SESSION_BUCKET_COUNT
  by unfold_locales (simp_all add: hash_session_id_bound bucket_count_pos)

interpretation fd_ix: chained_index client_fd fd_next "\<lambda>n v. n\<lparr>fd_next := v\<rparr>"
  "\<lambda>fd. hash_fd fd SESSION_BUCKET_COUNT" SESSION_BUCKET_COUNT
  by unfold_locales (simp_all add: hash_fd_bound bucket_count_pos)

subsection \<open>Representation invariant\<close>

definition conns :: "connection_binding heap \<Rightarrow> nat set \<Rightarrow> nat \<Rightarrow> nat set" where
  "conns hb B a = {b \<in> B. bsession (the (hb b)) = Some a}"

definition session_data_ok :: "session_t \<Rightarrow> bool" where
  "session_data_ok s \<longleftrightarrow> wf_session_id (sid s) \<and> \<not> session_id_is_empty (Some (sid s)) \<and>
     length (username s) < USERNAME_SIZE \<and> length (cwd s) < PATH_MAX \<and> cchar (cwd s) 0 = CHR ''/''"

definition session_ok :: "connection_binding heap \<Rightarrow> nat set \<Rightarrow> nat \<Rightarrow> session_t \<Rightarrow> bool" where
  "session_ok hb B a s \<longleftrightarrow> session_data_ok s \<and>
     (\<exists>bs. chain session_next hb (connections s) bs \<and> set bs = conns hb B a \<and>
       connection_count s = length bs)"

definition binding_ok :: "nat set \<Rightarrow> connection_binding \<Rightarrow> bool" where
  "binding_ok S b \<longleftrightarrow> 0 \<le> client_fd b \<and> (\<exists>a\<in>S. bsession b = Some a)"

text \<open>The table represents the sessions at \<open>S\<close> and the bindings at \<open>B\<close>.\<close>

definition table_rep :: "session_table_t \<Rightarrow> nat set \<Rightarrow> nat set \<Rightarrow> bool" where
  "table_rep t S B \<longleftrightarrow>
     bucket_count t = SESSION_BUCKET_COUNT \<and>
     session_ix.ix (sessions t) (session_buckets t) S \<and>
     fd_ix.ix (bindings t) (fd_buckets t) B \<and>
     (\<forall>a\<in>S. session_ok (bindings t) B a (the (sessions t a))) \<and>
     (\<forall>b\<in>B. binding_ok S (the (bindings t b))) \<and>
     session_count t = card S"

text \<open>All allocated nodes are in the table, and every session has a connection.\<close>

definition table_inv :: "session_table_t \<Rightarrow> bool" where
  "table_inv t \<longleftrightarrow> table_rep t (dom (sessions t)) (dom (bindings t)) \<and>
     (\<forall>a \<in> dom (sessions t). conns (bindings t) (dom (bindings t)) a \<noteq> {})"

lemma session_id_equal_wf:
  "wf_session_id k \<Longrightarrow> wf_session_id k' \<Longrightarrow> session_id_equal (Some k) (Some k') \<longleftrightarrow> k = k'"
  by (simp add: wf_session_id_def session_id_equal_def)

lemma rep_session_live: "table_rep t S B \<Longrightarrow> a \<in> S \<Longrightarrow> \<exists>s. sessions t a = Some s"
  by (auto simp: table_rep_def dest: session_ix.ix_live)

lemma rep_binding_live: "table_rep t S B \<Longrightarrow> b \<in> B \<Longrightarrow> \<exists>n. bindings t b = Some n"
  by (auto simp: table_rep_def dest: fd_ix.ix_live)

lemma rep_wf: "table_rep t S B \<Longrightarrow> a \<in> S \<Longrightarrow> wf_session_id (sid (the (sessions t a)))"
  by (auto simp: table_rep_def session_ok_def session_data_ok_def)

lemma rep_finite: "table_rep t S B \<Longrightarrow> finite S \<and> finite B"
  by (auto simp: table_rep_def dest: session_ix.ix_finite fd_ix.ix_finite)

lemma find_session_some:
  assumes "table_rep t S B" "a \<in> S" "sid (the (sessions t a)) = key" "wf_session_id key"
  shows "find_session_locked t key = Some (Some a)"
proof -
  have "chain_find hash_next (\<lambda>s. session_id_equal (Some (sid s)) (Some key)) (sessions t)
      (session_buckets t ! hash_session_id key SESSION_BUCKET_COUNT) = Some (Some a)"
    by (rule session_ix.find_some [where S = S])
      (use assms rep_wf [OF assms(1)] in \<open>auto simp: table_rep_def session_id_equal_wf\<close>)
  moreover have "hash_session_id key SESSION_BUCKET_COUNT < length (session_buckets t)"
    using assms(1) session_ix.ix_bucket by (auto simp: table_rep_def)
  ultimately show ?thesis
    using assms(1) by (simp add: find_session_locked_def table_rep_def mem_simps)
qed

lemma find_session_none:
  assumes "table_rep t S B" "\<And>a. a \<in> S \<Longrightarrow> sid (the (sessions t a)) \<noteq> key" "wf_session_id key"
  shows "find_session_locked t key = Some None"
proof -
  have "chain_find hash_next (\<lambda>s. session_id_equal (Some (sid s)) (Some key)) (sessions t)
      (session_buckets t ! hash_session_id key SESSION_BUCKET_COUNT) = Some None"
    by (rule session_ix.find_none [where S = S])
      (use assms rep_wf [OF assms(1)] in \<open>auto simp: table_rep_def session_id_equal_wf\<close>)
  moreover have "hash_session_id key SESSION_BUCKET_COUNT < length (session_buckets t)"
    using assms(1) session_ix.ix_bucket by (auto simp: table_rep_def)
  ultimately show ?thesis
    using assms(1) by (simp add: find_session_locked_def table_rep_def mem_simps)
qed

lemma find_binding_some:
  assumes "table_rep t S B" "b \<in> B" "client_fd (the (bindings t b)) = fd"
  shows "find_binding_locked t fd = Some (Some b)"
proof -
  have "chain_find fd_next (\<lambda>b. client_fd b = fd) (bindings t)
      (fd_buckets t ! hash_fd fd SESSION_BUCKET_COUNT) = Some (Some b)"
    by (rule fd_ix.find_some [where S = B]) (use assms in \<open>auto simp: table_rep_def\<close>)
  moreover have "hash_fd fd SESSION_BUCKET_COUNT < length (fd_buckets t)"
    using assms(1) fd_ix.ix_bucket by (auto simp: table_rep_def)
  ultimately show ?thesis
    using assms(1) by (simp add: find_binding_locked_def table_rep_def mem_simps)
qed

lemma find_binding_none:
  assumes "table_rep t S B" "\<And>b. b \<in> B \<Longrightarrow> client_fd (the (bindings t b)) \<noteq> fd"
  shows "find_binding_locked t fd = Some None"
proof -
  have "chain_find fd_next (\<lambda>b. client_fd b = fd) (bindings t)
      (fd_buckets t ! hash_fd fd SESSION_BUCKET_COUNT) = Some None"
    by (rule fd_ix.find_none [where S = B]) (use assms in \<open>auto simp: table_rep_def\<close>)
  moreover have "hash_fd fd SESSION_BUCKET_COUNT < length (fd_buckets t)"
    using assms(1) fd_ix.ix_bucket by (auto simp: table_rep_def)
  ultimately show ?thesis
    using assms(1) by (simp add: find_binding_locked_def table_rep_def mem_simps)
qed

lemma find_session_cases:
  assumes "table_rep t S B" "wf_session_id key"
  obtains (found) a s where "a \<in> S" "sessions t a = Some s" "sid s = key"
      "find_session_locked t key = Some (Some a)"
  | (absent) "\<And>a. a \<in> S \<Longrightarrow> sid (the (sessions t a)) \<noteq> key" "find_session_locked t key = Some None"
proof (cases "\<exists>a\<in>S. sid (the (sessions t a)) = key")
  case True
  then obtain a where a: "a \<in> S" "sid (the (sessions t a)) = key" by blast
  obtain s where "sessions t a = Some s" using rep_session_live [OF assms(1) a(1)] by blast
  then show ?thesis using found a find_session_some [OF assms(1) a assms(2)] by simp
next
  case False
  then have "sid (the (sessions t a)) \<noteq> key" if "a \<in> S" for a using that by blast
  then show ?thesis using absent find_session_none [OF assms(1) _ assms(2)] by blast
qed

lemma find_binding_cases:
  assumes "table_rep t S B"
  obtains (found) b n where "b \<in> B" "bindings t b = Some n" "client_fd n = fd"
      "find_binding_locked t fd = Some (Some b)"
  | (absent) "\<And>b. b \<in> B \<Longrightarrow> client_fd (the (bindings t b)) \<noteq> fd" "find_binding_locked t fd = Some None"
proof (cases "\<exists>b\<in>B. client_fd (the (bindings t b)) = fd")
  case True
  then obtain b where b: "b \<in> B" "client_fd (the (bindings t b)) = fd" by blast
  obtain n where "bindings t b = Some n" using rep_binding_live [OF assms(1) b(1)] by blast
  then show ?thesis using found b find_binding_some [OF assms(1) b] by simp
next
  case False
  then have "client_fd (the (bindings t b)) \<noteq> fd" if "b \<in> B" for b using that by blast
  then show ?thesis using absent find_binding_none [OF assms(1)] by blast
qed

subsection \<open>The abstract table\<close>

record session_info =
  i_user_id :: u64
  i_cwd_id :: u64
  i_username :: string
  i_cwd :: string
  i_created_at :: timespec
  i_last_active :: timespec

record session_spec =
  live :: "session_id_t \<Rightarrow> session_info option"
  bound :: "int \<Rightarrow> session_id_t option"

definition info_of :: "session_t \<Rightarrow> session_info" where
  "info_of s = \<lparr>i_user_id = user_id s, i_cwd_id = cwd_id s, i_username = username s,
     i_cwd = cwd s, i_created_at = created_at s, i_last_active = last_active s\<rparr>"

definition abs_table :: "session_table_t \<Rightarrow> session_spec" where
  "abs_table t =
     \<lparr>live = (\<lambda>key. if wf_session_id key
               then (case find_session_locked t key of
                       Some (Some a) \<Rightarrow> map_option info_of (sessions t a) | _ \<Rightarrow> None)
               else None),
      bound = (\<lambda>fd. case find_binding_locked t fd of
                 Some (Some b) \<Rightarrow> do {
                   n \<leftarrow> bindings t b; s \<leftarrow> heap_read (sessions t) (bsession n); Some (sid s) }
               | _ \<Rightarrow> None)\<rparr>"

text \<open>What the operations do to the maps.\<close>

definition spec_context :: "session_info \<Rightarrow> session_context_t" where
  "spec_context i = \<lparr>ctx_user_id = i_user_id i, ctx_cwd_id = i_cwd_id i,
     ctx_username = i_username i, ctx_cwd = i_cwd i\<rparr>"

definition spec_create ::
  "session_spec \<Rightarrow> int \<Rightarrow> u64 \<Rightarrow> string \<Rightarrow> u64 \<Rightarrow> session_id_t \<Rightarrow> timespec \<Rightarrow> session_spec" where
  "spec_create \<sigma> fd uid name root_path_id key now =
     \<lparr>live = (live \<sigma>)(key \<mapsto> \<lparr>i_user_id = uid, i_cwd_id = root_path_id, i_username = name,
               i_cwd = ''/'', i_created_at = now, i_last_active = now\<rparr>),
      bound = (bound \<sigma>)(fd \<mapsto> key)\<rparr>"

definition spec_authorize ::
  "session_spec \<Rightarrow> int \<Rightarrow> session_id_t \<Rightarrow> timespec \<Rightarrow> (session_context_t \<times> session_spec) option" where
  "spec_authorize \<sigma> fd key now =
     (case live \<sigma> key of
        None \<Rightarrow> None
      | Some i \<Rightarrow>
          if bound \<sigma> fd = None \<or> bound \<sigma> fd = Some key
          then Some (spec_context i,
                 \<lparr>live = (live \<sigma>)(key \<mapsto> i\<lparr>i_last_active := now\<rparr>), bound = (bound \<sigma>)(fd \<mapsto> key)\<rparr>)
          else None)"

definition spec_update_cwd ::
  "session_spec \<Rightarrow> int \<Rightarrow> session_id_t \<Rightarrow> u64 \<Rightarrow> string \<Rightarrow> timespec \<Rightarrow> session_spec option" where
  "spec_update_cwd \<sigma> fd key new_cwd_id path now =
     (case live \<sigma> key of
        None \<Rightarrow> None
      | Some i \<Rightarrow>
          if bound \<sigma> fd = Some key
          then Some (\<sigma>\<lparr>live := (live \<sigma>)(key \<mapsto>
                 i\<lparr>i_cwd_id := new_cwd_id, i_cwd := path, i_last_active := now\<rparr>)\<rparr>)
          else None)"

definition spec_detach :: "session_spec \<Rightarrow> int \<Rightarrow> session_spec" where
  "spec_detach \<sigma> fd =
     (case bound \<sigma> fd of
        None \<Rightarrow> \<sigma>
      | Some key \<Rightarrow>
          (let b = (bound \<sigma>)(fd := None)
           in \<lparr>live = (if key \<in> ran b then live \<sigma> else (live \<sigma>)(key := None)), bound = b\<rparr>))"

lemma abs_live_iff:
  assumes "table_rep t S B"
  shows "live (abs_table t) key = Some i \<longleftrightarrow>
    (\<exists>a\<in>S. \<exists>s. sessions t a = Some s \<and> sid s = key \<and> i = info_of s)"
proof (cases "wf_session_id key")
  case True
  from assms True show ?thesis
  proof (cases rule: find_session_cases)
    case (found a s)
    have "b = a" if "b \<in> S" "sessions t b = Some s'" "sid s' = key" for b s'
      using assms found(1-3) that session_ix.ix_inj [of "sessions t" "session_buckets t" S b a]
      by (simp add: table_rep_def)
    then have "(\<exists>b\<in>S. \<exists>s'. sessions t b = Some s' \<and> sid s' = key \<and> i = info_of s') \<longleftrightarrow> i = info_of s"
      using found(1-3) by (metis option.sel)
    then show ?thesis using True found(2,4) by (auto simp: abs_table_def)
  next
    case absent
    have "\<not> (\<exists>a\<in>S. \<exists>s. sessions t a = Some s \<and> sid s = key \<and> i = info_of s)"
      using absent(1) by (metis option.sel)
    then show ?thesis using True absent(2) by (simp add: abs_table_def)
  qed
next
  case False
  then have "\<not> (\<exists>a\<in>S. \<exists>s. sessions t a = Some s \<and> sid s = key \<and> i = info_of s)"
    using rep_wf [OF assms] by (metis option.sel)
  then show ?thesis using False by (simp add: abs_table_def)
qed

lemma abs_bound_iff:
  assumes "table_rep t S B"
  shows "bound (abs_table t) fd = Some key \<longleftrightarrow>
    (\<exists>b\<in>B. \<exists>n a s. bindings t b = Some n \<and> client_fd n = fd \<and> bsession n = Some a \<and>
       sessions t a = Some s \<and> sid s = key)"
  using assms
proof (cases rule: find_binding_cases [where fd = fd])
  case (found b n)
  have "c = b" if "c \<in> B" "bindings t c = Some n'" "client_fd n' = fd" for c n'
    using assms found(1-3) that fd_ix.ix_inj [of "bindings t" "fd_buckets t" B c b]
    by (simp add: table_rep_def)
  then have "(\<exists>c\<in>B. \<exists>n' a s. bindings t c = Some n' \<and> client_fd n' = fd \<and> bsession n' = Some a \<and>
       sessions t a = Some s \<and> sid s = key) \<longleftrightarrow>
     (\<exists>a s. bsession n = Some a \<and> sessions t a = Some s \<and> sid s = key)"
    using found(1-3) by (metis option.sel)
  then show ?thesis using found(2,4)
    by (auto simp: abs_table_def heap_read_def bind_eq_Some_conv split: option.splits)
next
  case absent
  have "\<not> (\<exists>b\<in>B. \<exists>n a s. bindings t b = Some n \<and> client_fd n = fd \<and> bsession n = Some a \<and>
      sessions t a = Some s \<and> sid s = key)"
    using absent(1) by (metis option.sel)
  then show ?thesis using absent(2) by (simp add: abs_table_def)
qed

lemma abs_bound_None:
  assumes "table_rep t S B"
  shows "bound (abs_table t) fd = None \<longleftrightarrow> (\<forall>b\<in>B. client_fd (the (bindings t b)) \<noteq> fd)"
proof -
  have "\<exists>key. bound (abs_table t) fd = Some key" if b: "b \<in> B" "client_fd (the (bindings t b)) = fd" for b
  proof -
    obtain n where n: "bindings t b = Some n" using rep_binding_live [OF assms b(1)] by blast
    then obtain a where a: "a \<in> S" "bsession n = Some a"
      using assms b(1) by (force simp: table_rep_def binding_ok_def)
    obtain s where "sessions t a = Some s" using rep_session_live [OF assms a(1)] by blast
    then have "bound (abs_table t) fd = Some (sid s)"
      unfolding abs_bound_iff [OF assms] using a b n by (metis option.sel)
    then show ?thesis by blast
  qed
  moreover have "bound (abs_table t) fd = Some key \<Longrightarrow> \<exists>b\<in>B. client_fd (the (bindings t b)) = fd" for key
    using abs_bound_iff [OF assms] by force
  ultimately show ?thesis by (metis not_None_eq)
qed

lemma abs_live_None:
  assumes "table_rep t S B"
  shows "live (abs_table t) key = None \<longleftrightarrow> (\<forall>a\<in>S. sid (the (sessions t a)) \<noteq> key)"
  using abs_live_iff [OF assms, of key] rep_session_live [OF assms] by (metis not_None_eq option.sel)

subsection \<open>Frame conditions\<close>

lemma rep_sid_inj:
  "table_rep t S B \<Longrightarrow> a \<in> S \<Longrightarrow> b \<in> S \<Longrightarrow> sessions t a = Some s \<Longrightarrow> sessions t b = Some s' \<Longrightarrow>
    sid s = sid s' \<Longrightarrow> a = b"
  using session_ix.ix_inj [of "sessions t" "session_buckets t" S a b] by (simp add: table_rep_def)

lemma rep_fd_inj:
  "table_rep t S B \<Longrightarrow> a \<in> B \<Longrightarrow> b \<in> B \<Longrightarrow> bindings t a = Some n \<Longrightarrow> bindings t b = Some n' \<Longrightarrow>
    client_fd n = client_fd n' \<Longrightarrow> a = b"
  using fd_ix.ix_inj [of "bindings t" "fd_buckets t" B a b] by (simp add: table_rep_def)

lemma conns_frame:
  "(\<And>b. b \<in> B \<Longrightarrow> map_option bsession (hb' b) = map_option bsession (hb b)) \<Longrightarrow>
    (\<And>b. b \<in> B \<Longrightarrow> hb b \<noteq> None) \<Longrightarrow> conns hb' B a = conns hb B a"
  unfolding conns_def by (rule Collect_cong) (metis option.map_sel option.map_disc_iff)

lemma session_ok_frame:
  assumes "session_ok hb B a s"
    "\<And>b. b \<in> B \<Longrightarrow> map_option session_next (hb' b) = map_option session_next (hb b)"
    "conns hb' B' a = conns hb B a"
  shows "session_ok hb' B' a s"
proof -
  from assms(1) obtain bs where bs: "session_data_ok s" "chain session_next hb (connections s) bs"
    "set bs = conns hb B a" "connection_count s = length bs" by (auto simp: session_ok_def)
  have "chain session_next hb' (connections s) bs"
    by (rule chain_frame [OF bs(2)]) (use bs(3) assms(2) in \<open>auto simp: conns_def\<close>)
  then show ?thesis using bs assms(3) by (auto simp: session_ok_def)
qed

lemma session_ok_cong:
  "session_ok hb B a s \<Longrightarrow> session_data_ok s' \<Longrightarrow> connections s' = connections s \<Longrightarrow>
    connection_count s' = connection_count s \<Longrightarrow> session_ok hb B a s'"
  by (auto simp: session_ok_def)

lemma abs_live_upd:
  assumes rep: "table_rep t S B" and rep': "table_rep t' S B'" and a: "a \<in> S" "sessions t a = Some s"
    and t': "sessions t' = (sessions t)(a \<mapsto> s')" "sid s' = sid s"
  shows "live (abs_table t') = (live (abs_table t))(sid s \<mapsto> info_of s')"
proof (rule map_eqI)
  fix k i
  show "live (abs_table t') k = Some i \<longleftrightarrow> ((live (abs_table t))(sid s \<mapsto> info_of s')) k = Some i"
  proof (cases "k = sid s")
    case True
    have "b = a" if "b \<in> S" "sessions t' b = Some r" "sid r = sid s" for b r
      using that rep_sid_inj [OF rep that(1) a(1) _ a(2), of r] by (cases "b = a") (simp_all add: t')
    moreover have "sessions t' a = Some s'" by (simp add: t')
    ultimately have "(\<exists>b\<in>S. \<exists>r. sessions t' b = Some r \<and> sid r = k \<and> i = info_of r) \<longleftrightarrow> i = info_of s'"
      using a(1) t'(2) True by (metis option.sel)
    then show ?thesis unfolding abs_live_iff [OF rep'] using True by auto
  next
    case False
    have "sessions t' b = Some r \<and> sid r = k \<longleftrightarrow> sessions t b = Some r \<and> sid r = k" for b r
      using False a t' by auto
    then have "live (abs_table t') k = Some i \<longleftrightarrow> live (abs_table t) k = Some i"
      unfolding abs_live_iff [OF rep] abs_live_iff [OF rep'] by metis
    then show ?thesis using False by simp
  qed
qed

text \<open>Updating the data of a session in place.\<close>

lemma rep_upd_session:
  assumes rep: "table_rep t S B" and a: "a \<in> S" "sessions t a = Some s"
    and s': "session_data_ok s'" "sid s' = sid s" "hash_next s' = hash_next s"
      "connections s' = connections s" "connection_count s' = connection_count s"
  defines "t' \<equiv> t\<lparr>sessions := (sessions t)(a \<mapsto> s')\<rparr>"
  shows "table_rep t' S B" and "live (abs_table t') = (live (abs_table t))(sid s \<mapsto> info_of s')"
    and "bound (abs_table t') = bound (abs_table t)"
proof -
  have ix: "session_ix.ix (sessions t') (session_buckets t') S"
    by (rule session_ix.ix_frame [of "sessions t"]) (use rep a s' in \<open>auto simp: table_rep_def t'_def\<close>)
  have "session_ok (bindings t) B b (the (sessions t' b))" if "b \<in> S" for b
    using rep a s' that session_ok_cong [of "bindings t" B a s s']
    by (auto simp: table_rep_def t'_def)
  then show rep': "table_rep t' S B" using rep ix by (simp add: table_rep_def t'_def)
  show "live (abs_table t') = (live (abs_table t))(sid s \<mapsto> info_of s')"
    by (rule abs_live_upd [OF rep rep' a]) (simp_all add: t'_def s')
  show "bound (abs_table t') = bound (abs_table t)"
  proof (rule map_eqI)
    fix fd key
    have "(\<exists>r. sessions t' b = Some r \<and> sid r = key) \<longleftrightarrow> (\<exists>r. sessions t b = Some r \<and> sid r = key)" for b
      using a s'(2) by (auto simp: t'_def)
    moreover have "bindings t' = bindings t" by (simp add: t'_def)
    ultimately show "bound (abs_table t') fd = Some key \<longleftrightarrow> bound (abs_table t) fd = Some key"
      unfolding abs_bound_iff [OF rep] abs_bound_iff [OF rep'] by simp
  qed
qed

subsection \<open>Binding a descriptor to a session\<close>

lemma link_binding_eq:
  assumes "length (fd_buckets t) = SESSION_BUCKET_COUNT" "bucket_count t = SESSION_BUCKET_COUNT"
    "sessions t a = Some s" "bindings t c = Some z"
  shows "link_binding t fd (Some a) (Some c) =
    Some (t\<lparr>sessions := (sessions t)(a \<mapsto> s\<lparr>connections := Some c\<rparr>),
            bindings := (bindings t)(c \<mapsto> z\<lparr>client_fd := fd, bsession := Some a,
              fd_next := fd_buckets t ! hash_fd fd SESSION_BUCKET_COUNT, session_next := connections s\<rparr>),
            fd_buckets := (fd_buckets t)[hash_fd fd SESSION_BUCKET_COUNT := Some c]\<rparr>)"
  using assms hash_fd_bound [OF bucket_count_pos] by (simp add: link_binding_def mem_simps)

text \<open>
  What both users of \<open>link_binding\<close> leave behind, given the session's new node \<open>s'\<close>: the session
  may be new to the table (\<open>a \<notin> S\<close>) or already there.
\<close>

lemma conns_insert:
  assumes "c \<notin> B" "bsession n = Some a" "\<And>b. b \<in> B \<Longrightarrow> hb b \<noteq> None"
  shows "conns (hb(c \<mapsto> n)) (insert c B) x = (if x = a then insert c (conns hb B a) else conns hb B x)"
  using assms by (auto simp: conns_def)

lemma session_ok_bind:
  assumes "session_ok hb B a s" "c \<notin> B" "bsession n = Some a" "session_next n = connections s"
    and live: "\<And>b. b \<in> B \<Longrightarrow> hb b \<noteq> None"
    and s': "session_data_ok s'" "connections s' = Some c" "connection_count s' = connection_count s + 1"
  shows "session_ok (hb(c \<mapsto> n)) (insert c B) a s'"
proof -
  from assms(1) obtain bs where bs: "chain session_next hb (connections s) bs"
    "set bs = conns hb B a" "connection_count s = length bs" by (auto simp: session_ok_def)
  have "c \<notin> set bs" using bs(2) assms(2) by (simp add: conns_def)
  then have "chain session_next (hb(c \<mapsto> n)) (connections s) bs"
    by (intro chain_frame [OF bs(1)]) auto
  then have "chain session_next (hb(c \<mapsto> n)) (connections s') (c # bs)"
    using assms(4) s'(2) by simp
  moreover have "set (c # bs) = conns (hb(c \<mapsto> n)) (insert c B) a"
    using conns_insert [of c B n a hb a, OF assms(2,3) live] bs(2) by simp
  moreover have "connection_count s' = length (c # bs)" using bs(3) s'(3) by simp
  ultimately show ?thesis using s'(1) unfolding session_ok_def by blast
qed

lemma session_ok_other:
  assumes "session_ok hb B x s" "c \<notin> B" "bsession n = Some a" "x \<noteq> a"
    and live: "\<And>b. b \<in> B \<Longrightarrow> hb b \<noteq> None"
  shows "session_ok (hb(c \<mapsto> n)) (insert c B) x s"
  by (rule session_ok_frame [OF assms(1)])
    (use assms conns_insert [of c B n a hb x, OF assms(2,3) live] in auto)

lemma rep_bind:
  assumes rep: "table_rep t S B" and a: "a \<in> S" "sessions t a = Some s"
    and c: "c \<notin> B" "0 \<le> fd" "\<And>b. b \<in> B \<Longrightarrow> client_fd (the (bindings t b)) \<noteq> fd"
    and s': "session_data_ok s'" "sid s' = sid s" "hash_next s' = hash_next s"
      "connections s' = Some c" "connection_count s' = connection_count s + 1"
    and n: "client_fd n = fd" "bsession n = Some a" "session_next n = connections s"
      "fd_next n = fd_buckets t ! hash_fd fd SESSION_BUCKET_COUNT"
  defines "t' \<equiv> t\<lparr>sessions := (sessions t)(a \<mapsto> s'), bindings := (bindings t)(c \<mapsto> n),
      fd_buckets := (fd_buckets t)[hash_fd fd SESSION_BUCKET_COUNT := Some c]\<rparr>"
  shows "table_rep t' S (insert c B)"
proof -
  have live: "\<And>b. b \<in> B \<Longrightarrow> bindings t b \<noteq> None" using rep_binding_live [OF rep] by blast
  have "session_ix.ix (sessions t') (session_buckets t') S"
    by (rule session_ix.ix_frame [of "sessions t"]) (use rep a s' in \<open>auto simp: table_rep_def t'_def\<close>)
  moreover have "fd_ix.ix ((bindings t)(c \<mapsto> n))
      ((fd_buckets t)[hash_fd fd SESSION_BUCKET_COUNT := Some c]) (insert c B)"
    by (rule fd_ix.push [of "bindings t" _ _ _ _ n]) (use rep c n in \<open>auto simp: table_rep_def\<close>)
  moreover have "session_ok (bindings t') (insert c B) x (the (sessions t' x))" if x: "x \<in> S" for x
  proof (cases "x = a")
    case True
    have "session_ok (bindings t) B a s" using rep a by (auto simp: table_rep_def)
    then show ?thesis using session_ok_bind [OF _ c(1) n(2,3) live s'(1,4,5)] True by (simp add: t'_def)
  next
    case False
    have "session_ok (bindings t) B x (the (sessions t x))" using rep x by (auto simp: table_rep_def)
    then show ?thesis using session_ok_other [OF _ c(1) n(2) False live] False by (simp add: t'_def)
  qed
  moreover have "binding_ok S (the (bindings t' b))" if "b \<in> insert c B" for b
    using that rep a(1) c n by (auto simp: table_rep_def t'_def binding_ok_def)
  ultimately show ?thesis using rep by (simp add: table_rep_def t'_def)
qed

lemma abs_bound_bind:
  assumes rep: "table_rep t S B" and rep': "table_rep t' S' (insert c B)"
    and c: "c \<notin> B" "\<And>b. b \<in> B \<Longrightarrow> client_fd (the (bindings t b)) \<noteq> fd"
    and t': "bindings t' = (bindings t)(c \<mapsto> n)" "client_fd n = fd" "bsession n = Some a"
      "sessions t' a = Some s'"
      "\<And>x. x \<in> S \<Longrightarrow> map_option sid (sessions t' x) = map_option sid (sessions t x)"
  shows "bound (abs_table t') = (bound (abs_table t))(fd \<mapsto> sid s')"
proof (rule map_eqI)
  fix f key
  have c': "bindings t' c = Some n" by (simp add: t')
  show "bound (abs_table t') f = Some key \<longleftrightarrow> ((bound (abs_table t))(fd \<mapsto> sid s')) f = Some key"
  proof (cases "f = fd")
    case True
    have "b = c" if "b \<in> insert c B" "bindings t' b = Some m" "client_fd m = fd" for b m
      using rep_fd_inj [OF rep' that(1) _ that(2) c'] that(3) t'(2) by simp
    then have "bound (abs_table t') f = Some key \<longleftrightarrow> sid s' = key"
      unfolding abs_bound_iff [OF rep'] True using c' t'(2-4) by (metis insertI1 option.sel)
    then show ?thesis using True by auto
  next
    case False
    have sid: "(\<exists>r. sessions t' x = Some r \<and> sid r = key) \<longleftrightarrow> (\<exists>r. sessions t x = Some r \<and> sid r = key)"
      if "x \<in> S" for x using t'(5) [OF that] by (cases "sessions t x"; cases "sessions t' x") auto
    have own: "\<exists>x\<in>S. bsession m = Some x" if "b \<in> B" "bindings t b = Some m" for b m
      using rep that by (force simp: table_rep_def binding_ok_def)
    have "bound (abs_table t') f = Some key \<longleftrightarrow> bound (abs_table t) f = Some key"
      unfolding abs_bound_iff [OF rep] abs_bound_iff [OF rep']
    proof (intro iffI; elim bexE exE conjE)
      fix b m x r
      assume b: "b \<in> insert c B" "bindings t' b = Some m" "client_fd m = f" "bsession m = Some x"
        "sessions t' x = Some r" "sid r = key"
      have "b \<noteq> c" using b c' t'(2) False by auto
      then have m: "b \<in> B" "bindings t b = Some m" using b(1,2) t'(1) by auto
      have "x \<in> S" using own [OF m] b(4) by auto
      then show "\<exists>b\<in>B. \<exists>n a s. bindings t b = Some n \<and> client_fd n = f \<and> bsession n = Some a \<and>
          sessions t a = Some s \<and> sid s = key" using b m sid by blast
    next
      fix b m x r
      assume b: "b \<in> B" "bindings t b = Some m" "client_fd m = f" "bsession m = Some x"
        "sessions t x = Some r" "sid r = key"
      have m: "b \<in> insert c B" "bindings t' b = Some m" using b(1,2) c(1) t'(1) by auto
      have "x \<in> S" using own [OF b(1,2)] b(4) by auto
      then show "\<exists>b\<in>insert c B. \<exists>n a s. bindings t' b = Some n \<and> client_fd n = f \<and> bsession n = Some a \<and>
          sessions t' a = Some s \<and> sid s = key" using b m sid by blast
    qed
    then show ?thesis using False by simp
  qed
qed

subsection \<open>Authorization\<close>

lemma inv_rep: "table_inv t \<Longrightarrow> table_rep t (dom (sessions t)) (dom (bindings t))"
  by (simp add: table_inv_def)

lemma inv_nonempty: "table_inv t \<Longrightarrow> sessions t a = Some s \<Longrightarrow> conns (bindings t) (dom (bindings t)) a \<noteq> {}"
  by (auto simp: table_inv_def)

lemma inv_data_ok: "table_inv t \<Longrightarrow> sessions t a = Some s \<Longrightarrow> session_data_ok s"
  by (force simp: table_inv_def table_rep_def session_ok_def)

lemma copy_context_ok: "session_data_ok s \<Longrightarrow> copy_context s = spec_context (info_of s)"
  by (simp add: copy_context_def spec_context_def info_of_def session_data_ok_def strncpy_fits)

lemma inv_upd_session:
  assumes inv: "table_inv t" and a: "sessions t a = Some s"
    and s': "session_data_ok s'" "sid s' = sid s" "hash_next s' = hash_next s"
      "connections s' = connections s" "connection_count s' = connection_count s"
  defines "t' \<equiv> t\<lparr>sessions := (sessions t)(a \<mapsto> s')\<rparr>"
  shows "table_inv t'"
    and "abs_table t' = (abs_table t)\<lparr>live := (live (abs_table t))(sid s \<mapsto> info_of s')\<rparr>"
proof -
  have "a \<in> dom (sessions t)" using a by blast
  note upd = rep_upd_session [OF inv_rep [OF inv] this a s', folded t'_def]
  have "dom (sessions t') = dom (sessions t)" using a by (auto simp: t'_def)
  then show "table_inv t'" using upd(1) inv by (simp add: table_inv_def t'_def)
  show "abs_table t' = (abs_table t)\<lparr>live := (live (abs_table t))(sid s \<mapsto> info_of s')\<rparr>"
    using upd(2,3) by simp
qed

lemma inv_bind:
  assumes inv: "table_inv t" and a: "sessions t a = Some s"
    and c: "bindings t c = None" "0 \<le> fd" "bound (abs_table t) fd = None"
    and s': "session_data_ok s'" "sid s' = sid s" "hash_next s' = hash_next s"
      "connections s' = Some c" "connection_count s' = connection_count s + 1"
    and n: "client_fd n = fd" "bsession n = Some a" "session_next n = connections s"
      "fd_next n = fd_buckets t ! hash_fd fd SESSION_BUCKET_COUNT"
  defines "t' \<equiv> t\<lparr>sessions := (sessions t)(a \<mapsto> s'), bindings := (bindings t)(c \<mapsto> n),
      fd_buckets := (fd_buckets t)[hash_fd fd SESSION_BUCKET_COUNT := Some c]\<rparr>"
  shows "table_inv t'"
    and "abs_table t' = \<lparr>live = (live (abs_table t))(sid s \<mapsto> info_of s'),
                          bound = (bound (abs_table t))(fd \<mapsto> sid s)\<rparr>"
proof -
  note rep = inv_rep [OF inv]
  have c': "c \<notin> dom (bindings t)" using c(1) by blast
  have fd: "\<And>b. b \<in> dom (bindings t) \<Longrightarrow> client_fd (the (bindings t b)) \<noteq> fd"
    using c(3) abs_bound_None [OF rep] by blast
  have a': "a \<in> dom (sessions t)" using a by blast
  have rep': "table_rep t' (dom (sessions t)) (insert c (dom (bindings t)))"
    unfolding t'_def by (rule rep_bind [OF rep a' a c' c(2) fd s' n])
  have dom: "dom (sessions t') = dom (sessions t)" "dom (bindings t') = insert c (dom (bindings t))"
    using a by (auto simp: t'_def)
  have live: "\<And>b. b \<in> dom (bindings t) \<Longrightarrow> bindings t b \<noteq> None" by blast
  have "conns (bindings t') (insert c (dom (bindings t))) x =
      (if x = a then insert c (conns (bindings t) (dom (bindings t)) a)
       else conns (bindings t) (dom (bindings t)) x)" for x
    using conns_insert [of c "dom (bindings t)" n a "bindings t" x, OF c' n(2) live] by (simp add: t'_def)
  then have "conns (bindings t') (insert c (dom (bindings t))) x \<noteq> {}" if "x \<in> dom (sessions t)" for x
    using inv that by (simp add: table_inv_def)
  then show "table_inv t'" using rep' dom by (simp add: table_inv_def)
  have "live (abs_table t') = (live (abs_table t))(sid s \<mapsto> info_of s')"
    by (rule abs_live_upd [OF rep rep' a' a]) (simp_all add: t'_def s')
  moreover have "bound (abs_table t') = (bound (abs_table t))(fd \<mapsto> sid s')"
    by (rule abs_bound_bind [OF rep rep' c' fd, of n a]) (use a s' n in \<open>auto simp: t'_def\<close>)
  ultimately show "abs_table t' = \<lparr>live = (live (abs_table t))(sid s \<mapsto> info_of s'),
      bound = (bound (abs_table t))(fd \<mapsto> sid s)\<rparr>"
    using s'(2) by simp
qed

lemma authorize_none:
  assumes inv: "table_inv t" and key: "wf_session_id key"
    and none: "spec_authorize (abs_table t) fd key now = None"
  shows "session_authorize (Some t) fd key (Some now) new = Some (- 1, None, Some t)"
proof -
  note rep = inv_rep [OF inv]
  have "session_authorize_locked t fd key now new = Some (- 1, None, t)"
    using rep key
  proof (cases rule: find_session_cases)
    case (found a s)
    have "live (abs_table t) key \<noteq> None" using found abs_live_iff [OF rep] by blast
    then obtain key' where b: "bound (abs_table t) fd = Some key'" "key' \<noteq> key"
      using none by (auto simp: spec_authorize_def split: option.splits if_splits)
    show ?thesis using rep
    proof (cases rule: find_binding_cases [where fd = fd])
      case (found b n)
      have "bsession n \<noteq> Some a"
      proof
        assume "bsession n = Some a"
        then have "bound (abs_table t) fd = Some key"
          unfolding abs_bound_iff [OF rep]
          using found \<open>sessions t a = Some s\<close> \<open>sid s = key\<close> by blast
        then show False using b by simp
      qed
      then show ?thesis
        using found \<open>find_session_locked t key = Some (Some a)\<close>
        by (simp add: session_authorize_locked_def mem_simps)
    next
      case absent
      then have "bound (abs_table t) fd = None" using abs_bound_None [OF rep] by blast
      then show ?thesis using b by simp
    qed
  next
    case absent
    then show ?thesis by (simp add: session_authorize_locked_def)
  qed
  then show ?thesis by (simp add: session_authorize_def)
qed

lemma authorize_some:
  assumes inv: "table_inv t" and key: "wf_session_id key" "\<not> session_id_is_empty (Some key)"
    and fd: "0 \<le> fd" and new: "fresh_ptr (bindings t) new" "new \<noteq> None \<or> bound (abs_table t) fd \<noteq> None"
    and some: "spec_authorize (abs_table t) fd key now = Some (ctx, \<sigma>)"
  shows "\<exists>t'. session_authorize (Some t) fd key (Some now) new = Some (0, Some ctx, Some t') \<and>
    table_inv t' \<and> abs_table t' = \<sigma>"
proof -
  note rep = inv_rep [OF inv]
  obtain i where i: "live (abs_table t) key = Some i" "ctx = spec_context i"
    "\<sigma> = \<lparr>live = (live (abs_table t))(key \<mapsto> i\<lparr>i_last_active := now\<rparr>), bound = (bound (abs_table t))(fd \<mapsto> key)\<rparr>"
    "bound (abs_table t) fd = None \<or> bound (abs_table t) fd = Some key"
    using some by (auto simp: spec_authorize_def split: option.splits if_splits)
  obtain a s where s: "sessions t a = Some s" "sid s = key" "i = info_of s"
    using i(1) abs_live_iff [OF rep] by blast
  have find: "find_session_locked t key = Some (Some a)"
    by (rule find_session_some [OF rep]) (use s key in auto)
  have data: "session_data_ok s" by (rule inv_data_ok [OF inv s(1)])
  show ?thesis
    using rep
  proof (cases rule: find_binding_cases [where fd = fd])
    case (found b n)
    let ?s = "s\<lparr>last_active := now\<rparr>"
    let ?t = "t\<lparr>sessions := (sessions t)(a \<mapsto> ?s)\<rparr>"
    have "bound (abs_table t) fd \<noteq> None" using abs_bound_None [OF rep] found(1-3) by force
    then have b: "bound (abs_table t) fd = Some key" using i(4) by auto
    then obtain a' where "bsession n = Some a'" "\<exists>s'. sessions t a' = Some s' \<and> sid s' = key"
      unfolding abs_bound_iff [OF rep] using found rep_fd_inj [OF rep] by (metis option.sel)
    then have own: "bsession n = Some a" using rep_sid_inj [OF rep] s(1,2) by blast
    have data': "session_data_ok ?s" using data by (simp add: session_data_ok_def)
    have "session_authorize_locked t fd key now new = Some (0, Some (copy_context ?s), ?t)"
      by (simp add: session_authorize_locked_def find found(2,4) own s(1) mem_simps)
    moreover have "copy_context ?s = ctx"
      unfolding copy_context_ok [OF data'] i(2) s(3) by (simp add: spec_context_def info_of_def)
    moreover have "table_inv ?t" by (rule inv_upd_session(1) [OF inv s(1) data']) simp_all
    moreover have "abs_table ?t = \<sigma>"
    proof (rule session_spec.equality)
      show "live (abs_table ?t) = live \<sigma>" "bound (abs_table ?t) = bound \<sigma>"
        using b by (simp_all add: inv_upd_session(2) [OF inv s(1) data'] i(3) s info_of_def fun_upd_idem)
    qed simp
    ultimately show ?thesis using fd key(2) by (auto simp: session_authorize_def)
  next
    case absent
    then have none: "bound (abs_table t) fd = None" using abs_bound_None [OF rep] by blast
    then obtain c where c: "new = Some c" "bindings t c = None"
      using new by (auto simp: fresh_ptr_def split: option.splits)
    let ?n = "zero_binding\<lparr>client_fd := fd, bsession := Some a,
      fd_next := fd_buckets t ! hash_fd fd SESSION_BUCKET_COUNT, session_next := connections s\<rparr>"
    let ?s = "s\<lparr>connections := Some c, connection_count := connection_count s + 1, last_active := now\<rparr>"
    let ?t = "t\<lparr>sessions := (sessions t)(a \<mapsto> ?s), bindings := (bindings t)(c \<mapsto> ?n),
      fd_buckets := (fd_buckets t)[hash_fd fd SESSION_BUCKET_COUNT := Some c]\<rparr>"
    have data': "session_data_ok ?s" using data by (simp add: session_data_ok_def)
    have len: "length (fd_buckets t) = SESSION_BUCKET_COUNT" "bucket_count t = SESSION_BUCKET_COUNT"
      using rep by (auto simp: table_rep_def dest: fd_ix.ix_length)
    have "link_binding (t\<lparr>bindings := (bindings t)(c \<mapsto> zero_binding)\<rparr>) fd (Some a) (Some c) =
        Some (t\<lparr>sessions := (sessions t)(a \<mapsto> s\<lparr>connections := Some c\<rparr>),
                bindings := (bindings t)(c \<mapsto> ?n),
                fd_buckets := (fd_buckets t)[hash_fd fd SESSION_BUCKET_COUNT := Some c]\<rparr>)"
      using len s(1) by (subst link_binding_eq) auto
    then have "session_authorize_locked t fd key now new = Some (0, Some (copy_context ?s), ?t)"
      using s(1) by (simp add: session_authorize_locked_def find absent(2) c(1) mem_simps)
    moreover have "copy_context ?s = ctx"
      unfolding copy_context_ok [OF data'] i(2) s(3) by (simp add: spec_context_def info_of_def)
    moreover have "table_inv ?t"
      by (rule inv_bind(1) [OF inv s(1) c(2) fd none data']) simp_all
    moreover have "abs_table ?t = \<sigma>"
      by (subst inv_bind(2) [OF inv s(1) c(2) fd none data']) (simp_all add: i(3) s info_of_def)
    ultimately show ?thesis using fd key(2) by (auto simp: session_authorize_def)
  qed
qed

subsection \<open>Working directory\<close>

lemma update_cwd_correct:
  assumes inv: "table_inv t" and key: "wf_session_id key" "\<not> session_id_is_empty (Some key)"
    and fd: "0 \<le> fd" and path: "cchar path 0 = CHR ''/''" "length path < PATH_MAX"
  shows "case spec_update_cwd (abs_table t) fd key new_cwd_id path now of
      None \<Rightarrow> session_update_cwd (Some t) fd key new_cwd_id (Some path) (Some now) = Some (- 1, Some t)
    | Some \<sigma> \<Rightarrow> \<exists>t'. session_update_cwd (Some t) fd key new_cwd_id (Some path) (Some now) =
          Some (0, Some t') \<and> table_inv t' \<and> abs_table t' = \<sigma>"
proof -
  note rep = inv_rep [OF inv]
  have len: "\<not> PATH_MAX \<le> length path" using path by simp
  show ?thesis using rep key(1)
  proof (cases rule: find_session_cases)
    case (found a s)
    note a = this
    have live: "live (abs_table t) key = Some (info_of s)" using found abs_live_iff [OF rep] by blast
    let ?s = "s\<lparr>cwd_id := new_cwd_id, cwd := path, last_active := now\<rparr>"
    have data: "session_data_ok ?s"
      using inv_data_ok [OF inv found(2)] path by (simp add: session_data_ok_def)
    show ?thesis using rep
    proof (cases rule: find_binding_cases [where fd = fd])
      case (found b n)
      have "bound (abs_table t) fd = Some key \<longleftrightarrow> bsession n = Some a"
      proof
        assume "bound (abs_table t) fd = Some key"
        then obtain a' where "bsession n = Some a'" "\<exists>s'. sessions t a' = Some s' \<and> sid s' = key"
          unfolding abs_bound_iff [OF rep] using found rep_fd_inj [OF rep] by (metis option.sel)
        then show "bsession n = Some a" using rep_sid_inj [OF rep] a(2,3) by blast
      next
        assume "bsession n = Some a"
        then show "bound (abs_table t) fd = Some key"
          unfolding abs_bound_iff [OF rep] using found a by blast
      qed
      then show ?thesis
        using inv_upd_session [OF inv a(2) data] a found live fd key path len
        by (auto simp: session_update_cwd_def spec_update_cwd_def mem_simps strncpy_fits info_of_def)
    next
      case absent
      then have "bound (abs_table t) fd = None" using abs_bound_None [OF rep] by blast
      then show ?thesis using absent(2) a(4) live fd key path len
        by (simp add: session_update_cwd_def spec_update_cwd_def)
    qed
  next
    case absent
    then have "live (abs_table t) key = None" using abs_live_None [OF rep] by blast
    moreover obtain bp where "find_binding_locked t fd = Some bp"
      by (rule find_binding_cases [OF rep, of fd]) auto
    ultimately show ?thesis using absent(2) fd key path len
      by (simp add: session_update_cwd_def spec_update_cwd_def)
  qed
qed

subsection \<open>Creating a session\<close>

text \<open>Nodes outside the table do not matter.\<close>

lemma rep_agree:
  assumes rep: "table_rep t S B"
    and agree: "\<And>x. x \<in> S \<Longrightarrow> sessions t' x = sessions t x" "\<And>b. b \<in> B \<Longrightarrow> bindings t' b = bindings t b"
      "session_buckets t' = session_buckets t" "fd_buckets t' = fd_buckets t"
      "bucket_count t' = bucket_count t" "session_count t' = session_count t"
  shows "table_rep t' S B" "abs_table t' = abs_table t"
proof -
  have "session_ix.ix (sessions t') (session_buckets t') S"
    unfolding agree(3) by (rule session_ix.ix_frame [of "sessions t"]) (use rep agree(1) in \<open>auto simp: table_rep_def\<close>)
  moreover have "fd_ix.ix (bindings t') (fd_buckets t') B"
    unfolding agree(4) by (rule fd_ix.ix_frame [of "bindings t"]) (use rep agree(2) in \<open>auto simp: table_rep_def\<close>)
  moreover have "session_ok (bindings t') B x (the (sessions t' x))" if x: "x \<in> S" for x
  proof (rule session_ok_frame)
    show "session_ok (bindings t) B x (the (sessions t' x))"
      using rep x agree(1) by (simp add: table_rep_def)
    show "conns (bindings t') B x = conns (bindings t) B x"
      using agree(2) by (auto simp: conns_def)
  qed (simp add: agree(2))
  moreover have "binding_ok S (the (bindings t' b))" if "b \<in> B" for b
    using rep that agree(2) by (simp add: table_rep_def)
  ultimately show rep': "table_rep t' S B" using rep agree(5,6) by (simp add: table_rep_def)
  show "abs_table t' = abs_table t"
  proof (rule session_spec.equality)
    have "live (abs_table t') k = Some i \<longleftrightarrow> live (abs_table t) k = Some i" for k i
      unfolding abs_live_iff [OF rep] abs_live_iff [OF rep'] using agree(1) by (metis)
    then show "live (abs_table t') = live (abs_table t)" by (rule map_eqI)
    have own: "\<exists>x\<in>S. bsession m = Some x" if "b \<in> B" "bindings t b = Some m" for b m
      using rep that by (force simp: table_rep_def binding_ok_def)
    have bindings: "b \<in> B \<and> bindings t' b = Some m \<and> bsession m = Some x \<and> sessions t' x = r \<longleftrightarrow>
        b \<in> B \<and> bindings t b = Some m \<and> bsession m = Some x \<and> sessions t x = r" for b m x r
      using agree(1) [of x] agree(2) [of b] own [of b m] by auto
    have "bound (abs_table t') fd = Some k \<longleftrightarrow> bound (abs_table t) fd = Some k" for fd k
      unfolding abs_bound_iff [OF rep] abs_bound_iff [OF rep'] by (metis bindings)
    then show "bound (abs_table t') = bound (abs_table t)" by (rule map_eqI)
  qed simp
qed

lemma rep_new_session:
  assumes rep: "table_rep t S B" and a: "a \<notin> S" and c: "c \<notin> B" "0 \<le> fd"
      "\<And>b. b \<in> B \<Longrightarrow> client_fd (the (bindings t b)) \<noteq> fd"
    and key: "\<And>x. x \<in> S \<Longrightarrow> sid (the (sessions t x)) \<noteq> sid s'"
    and s': "session_data_ok s'" "connections s' = Some c" "connection_count s' = 1"
      "hash_next s' = session_buckets t ! hash_session_id (sid s') SESSION_BUCKET_COUNT"
    and n: "client_fd n = fd" "bsession n = Some a" "session_next n = None"
      "fd_next n = fd_buckets t ! hash_fd fd SESSION_BUCKET_COUNT"
  defines "t' \<equiv> t\<lparr>sessions := (sessions t)(a \<mapsto> s'), bindings := (bindings t)(c \<mapsto> n),
      fd_buckets := (fd_buckets t)[hash_fd fd SESSION_BUCKET_COUNT := Some c],
      session_buckets := (session_buckets t)[hash_session_id (sid s') SESSION_BUCKET_COUNT := Some a],
      session_count := session_count t + 1\<rparr>"
  shows "table_rep t' (insert a S) (insert c B)"
proof -
  have live: "\<And>b. b \<in> B \<Longrightarrow> bindings t b \<noteq> None" using rep_binding_live [OF rep] by blast
  have "session_ix.ix ((sessions t)(a \<mapsto> s'))
      ((session_buckets t)[hash_session_id (sid s') SESSION_BUCKET_COUNT := Some a]) (insert a S)"
    by (rule session_ix.push [of "sessions t" _ _ _ _ s'])
      (use rep a key s' in \<open>auto simp: table_rep_def\<close>)
  moreover have "fd_ix.ix ((bindings t)(c \<mapsto> n))
      ((fd_buckets t)[hash_fd fd SESSION_BUCKET_COUNT := Some c]) (insert c B)"
    by (rule fd_ix.push [of "bindings t" _ _ _ _ n]) (use rep c n in \<open>auto simp: table_rep_def\<close>)
  moreover have "session_ok ((bindings t)(c \<mapsto> n)) (insert c B) x (the (((sessions t)(a \<mapsto> s')) x))"
    if x: "x \<in> insert a S" for x
  proof (cases "x = a")
    case True
    have "conns (bindings t) B a = {}"
      using rep a by (force simp: table_rep_def binding_ok_def conns_def)
    then have "session_ok (bindings t) B a (s'\<lparr>connections := None, connection_count := 0\<rparr>)"
      using s'(1) by (auto simp: session_ok_def session_data_ok_def)
    then show ?thesis
      using session_ok_bind [where s = "s'\<lparr>connections := None, connection_count := 0\<rparr>",
          OF _ c(1) n(2) _ live s'(1,2)] True n(3) s'(3) by simp
  next
    case False
    then have "session_ok (bindings t) B x (the (sessions t x))" using rep x by (auto simp: table_rep_def)
    then show ?thesis using session_ok_other [OF _ c(1) n(2) False live] False by simp
  qed
  moreover have "binding_ok (insert a S) (the (((bindings t)(c \<mapsto> n)) b))" if "b \<in> insert c B" for b
    using that rep c n by (auto simp: table_rep_def binding_ok_def)
  moreover have "card (insert a S) = card S + 1" using a rep_finite [OF rep] by simp
  ultimately show ?thesis using rep by (simp add: table_rep_def t'_def)
qed

lemma abs_live_new:
  assumes rep: "table_rep t S B" and rep': "table_rep t' (insert a S) B'" and a: "a \<notin> S"
    and t': "sessions t' = (sessions t)(a \<mapsto> s')"
  shows "live (abs_table t') = (live (abs_table t))(sid s' \<mapsto> info_of s')"
proof (rule map_eqI)
  fix k i
  have a': "sessions t' a = Some s'" by (simp add: t')
  show "live (abs_table t') k = Some i \<longleftrightarrow> ((live (abs_table t))(sid s' \<mapsto> info_of s')) k = Some i"
  proof (cases "k = sid s'")
    case True
    have "b = a" if "b \<in> insert a S" "sessions t' b = Some r" "sid r = sid s'" for b r
      by (rule rep_sid_inj [OF rep' that(1) _ that(2) a' that(3)]) simp
    then have "(\<exists>b\<in>insert a S. \<exists>r. sessions t' b = Some r \<and> sid r = k \<and> i = info_of r) \<longleftrightarrow> i = info_of s'"
      using a' True by (metis insertI1 option.sel)
    then show ?thesis unfolding abs_live_iff [OF rep'] using True by auto
  next
    case False
    have "(b \<in> insert a S \<and> sessions t' b = Some r \<and> sid r = k) \<longleftrightarrow> (b \<in> S \<and> sessions t b = Some r \<and> sid r = k)" for b r
      using False a t' by auto
    then have "live (abs_table t') k = Some i \<longleftrightarrow> live (abs_table t) k = Some i"
      unfolding abs_live_iff [OF rep] abs_live_iff [OF rep'] by metis
    then show ?thesis using False by simp
  qed
qed

lemma generate_session_id_loop_length:
  "generate_session_id_loop rs got = Some (key, rs') \<Longrightarrow> length got \<le> SESSION_ID_SIZE \<Longrightarrow>
    length key = SESSION_ID_SIZE"
  by (induction rs arbitrary: got) (auto simp: Let_def split: if_splits rnd.splits)

lemma generate_session_id_ok:
  assumes "generate_session_id rs = Some (key, rs')"
  shows "wf_session_id key" "\<not> session_id_is_empty (Some key)"
  using assms generate_session_id_loop_length [of rs "[]" key rs']
  by (auto simp: generate_session_id_def wf_session_id_def split: option.splits if_splits)

text \<open>The table while \<open>session_create\<close> holds two nodes that are not yet linked.\<close>

definition with_nodes :: "session_table_t \<Rightarrow> nat \<Rightarrow> nat \<Rightarrow> session_table_t" where
  "with_nodes t a c = t\<lparr>sessions := (sessions t)(a \<mapsto> zero_session),
     bindings := (bindings t)(c \<mapsto> zero_binding)\<rparr>"

lemma free_pair_with_nodes:
  "sessions t a = None \<Longrightarrow> bindings t c = None \<Longrightarrow> free_pair (with_nodes t a c) (Some a) (Some c) = Some t"
  by (simp add: free_pair_def with_nodes_def mem_simps fun_upd_idem)

lemma with_nodes_rep:
  assumes "table_inv t" "sessions t a = None" "bindings t c = None"
  shows "table_rep (with_nodes t a c) (dom (sessions t)) (dom (bindings t))"
    and "abs_table (with_nodes t a c) = abs_table t"
  by (rule rep_agree [OF inv_rep [OF assms(1)]]; use assms(2,3) in \<open>auto simp: with_nodes_def\<close>)+

lemma with_nodes_unbound:
  assumes "table_inv t" "sessions t a = None" "bindings t c = None" "bound (abs_table t) fd = None"
  shows "find_binding_locked (with_nodes t a c) fd = Some None"
  using abs_bound_None [OF with_nodes_rep(1) [OF assms(1-3)]] with_nodes_rep(2) [OF assms(1-3)]
    find_binding_none [OF with_nodes_rep(1) [OF assms(1-3)]] assms(4) by simp

lemma create_locked_bound:
  assumes "table_inv t" "sessions t a = None" "bindings t c = None" "bound (abs_table t) fd \<noteq> None"
  shows "session_create_locked (with_nodes t a c) fd uid name root (Some a) (Some c) key now = Some Bound"
  using with_nodes_rep(1) [OF assms(1-3)]
proof (cases rule: find_binding_cases [where fd = fd])
  case absent
  then have "bound (abs_table (with_nodes t a c)) fd = None"
    using abs_bound_None [OF with_nodes_rep(1) [OF assms(1-3)]] by blast
  then show ?thesis using assms(4) with_nodes_rep(2) [OF assms(1-3)] by simp
qed (simp add: session_create_locked_def)

lemma create_locked_collision:
  assumes "table_inv t" "sessions t a = None" "bindings t c = None" "wf_session_id key"
    and none: "bound (abs_table t) fd = None" and coll: "live (abs_table t) key \<noteq> None"
  shows "session_create_locked (with_nodes t a c) fd uid name root (Some a) (Some c) key now = Some Collision"
  using with_nodes_rep(1) [OF assms(1-3)] assms(4)
proof (cases rule: find_session_cases)
  case found
  then show ?thesis using with_nodes_unbound [OF assms(1-3) none] by (simp add: session_create_locked_def)
next
  case absent
  then have "live (abs_table (with_nodes t a c)) key = None"
    using abs_live_None [OF with_nodes_rep(1) [OF assms(1-3)]] by blast
  then show ?thesis using coll with_nodes_rep(2) [OF assms(1-3)] by simp
qed

lemma create_locked_new:
  assumes inv: "table_inv t" and fresh: "sessions t a = None" "bindings t c = None"
    and key: "wf_session_id key" "\<not> session_id_is_empty (Some key)" and fd: "0 \<le> fd"
    and name: "length name < USERNAME_SIZE"
    and none: "bound (abs_table t) fd = None" "live (abs_table t) key = None"
  shows "\<exists>t'. session_create_locked (with_nodes t a c) fd uid name root (Some a) (Some c) key now = Some (Created t') \<and>
    table_inv t' \<and> abs_table t' = spec_create (abs_table t) fd uid name root key now"
proof -
  let ?w = "with_nodes t a c" and ?S = "dom (sessions t)" and ?B = "dom (bindings t)"
  note rep = inv_rep [OF inv] and rep1 = with_nodes_rep(1) [OF inv fresh]
  let ?s = "zero_session\<lparr>sid := key, user_id := uid, cwd_id := root, username := name, cwd := ''/'',
    created_at := now, last_active := now, connections := Some c, connection_count := 1,
    hash_next := session_buckets t ! hash_session_id key SESSION_BUCKET_COUNT\<rparr>"
  let ?n = "zero_binding\<lparr>client_fd := fd, bsession := Some a,
    fd_next := fd_buckets t ! hash_fd fd SESSION_BUCKET_COUNT, session_next := None\<rparr>"
  let ?t = "t\<lparr>sessions := (sessions t)(a \<mapsto> ?s), bindings := (bindings t)(c \<mapsto> ?n),
      fd_buckets := (fd_buckets t)[hash_fd fd SESSION_BUCKET_COUNT := Some c],
      session_buckets := (session_buckets t)[hash_session_id key SESSION_BUCKET_COUNT := Some a],
      session_count := session_count t + 1\<rparr>"
  have len: "length (fd_buckets t) = SESSION_BUCKET_COUNT" "length (session_buckets t) = SESSION_BUCKET_COUNT"
    "bucket_count t = SESSION_BUCKET_COUNT"
    using rep by (auto simp: table_rep_def dest: fd_ix.ix_length session_ix.ix_length)
  have sid_new: "\<And>x. x \<in> ?S \<Longrightarrow> sid (the (sessions t x)) \<noteq> key"
    using none(2) abs_live_None [OF rep] by blast
  then have "find_session_locked ?w key = Some None"
    by (intro find_session_none [OF rep1 _ key(1)]) (use fresh in \<open>auto simp: with_nodes_def\<close>)
  then have res: "session_create_locked ?w fd uid name root (Some a) (Some c) key now = Some (Created ?t)"
    using with_nodes_unbound [OF inv fresh none(1)] len name hash_session_id_bound [OF bucket_count_pos, of key]
    by (simp add: session_create_locked_def with_nodes_def mem_simps link_binding_eq strncpy_fits zero_session_def)
  have fd_new: "\<And>b. b \<in> ?B \<Longrightarrow> client_fd (the (bindings t b)) \<noteq> fd"
    using none(1) abs_bound_None [OF rep] by blast
  have data: "session_data_ok ?s" using key name by (simp add: session_data_ok_def cchar_def)
  have a: "a \<notin> ?S" "c \<notin> ?B" using fresh by auto
  have "table_rep ?t (insert a ?S) (insert c ?B)"
    using rep_new_session [OF rep a fd fd_new, of ?s ?n] sid_new data by simp
  note rep' = this
  have dom: "dom (sessions ?t) = insert a ?S" "dom (bindings ?t) = insert c ?B" by auto
  have live: "\<And>b. b \<in> ?B \<Longrightarrow> bindings t b \<noteq> None" by blast
  have "conns (bindings ?t) (insert c ?B) x \<noteq> {}" if "x \<in> insert a ?S" for x
    using conns_insert [of c ?B ?n a "bindings t" x, OF a(2) _ live] inv that
    by (auto simp: table_inv_def)
  then have "table_inv ?t" using rep' dom by (simp add: table_inv_def)
  moreover have "abs_table ?t = spec_create (abs_table t) fd uid name root key now"
  proof (rule session_spec.equality)
    show "live (abs_table ?t) = live (spec_create (abs_table t) fd uid name root key now)"
      by (subst abs_live_new [OF rep rep' a(1), of ?s]) (simp_all add: spec_create_def info_of_def)
    show "bound (abs_table ?t) = bound (spec_create (abs_table t) fd uid name root key now)"
      by (subst abs_bound_bind [OF rep rep' a(2) fd_new, of ?n a ?s]) (use fresh in \<open>auto simp: spec_create_def\<close>)
  qed simp
  ultimately show ?thesis using res by blast
qed

text \<open>The ID that the attempts settle on, if any.\<close>

primrec spec_pick ::
  "nat \<Rightarrow> (session_id_t \<Rightarrow> session_info option) \<Rightarrow> rnd list \<Rightarrow> timespec option list \<Rightarrow>
    (session_id_t \<times> timespec) option" where
  "spec_pick 0 m rs clock = None"
| "spec_pick (Suc n) m rs clock =
     (case (generate_session_id rs, clock) of
        (Some (key, rs'), Some now # clock') \<Rightarrow>
          if m key = None then Some (key, now) else spec_pick n m rs' clock'
      | _ \<Rightarrow> None)"

lemma create_loop_correct:
  assumes inv: "table_inv t" and fresh: "sessions t a = None" "bindings t c = None" and fd: "0 \<le> fd"
    and name: "length name < USERNAME_SIZE" and unbound: "bound (abs_table t) fd = None"
  shows "case spec_pick n (live (abs_table t)) rs clock of
      None \<Rightarrow> session_create_loop n (with_nodes t a c) fd uid name root (Some a) (Some c) rs clock =
        Some (- 1, None, t)
    | Some (key, now) \<Rightarrow>
        \<exists>t'. session_create_loop n (with_nodes t a c) fd uid name root (Some a) (Some c) rs clock =
            Some (0, Some key, t') \<and> table_inv t' \<and>
          abs_table t' = spec_create (abs_table t) fd uid name root key now"
proof (induction n arbitrary: rs clock)
  case 0
  then show ?case by (simp add: free_pair_with_nodes [OF fresh])
next
  case (Suc n)
  show ?case
  proof (cases "generate_session_id rs")
    case None
    then show ?thesis by (simp add: free_pair_with_nodes [OF fresh])
  next
    case (Some p)
    then obtain key rs' where g: "generate_session_id rs = Some (key, rs')" by (cases p) auto
    note key = generate_session_id_ok [OF g]
    consider "clock = []" | clock' where "clock = None # clock'"
      | now clock' where "clock = Some now # clock'" by (metis list.exhaust option.exhaust)
    then show ?thesis
    proof cases
      case (3 now clock')
      note clk = this
      show ?thesis
      proof (cases "live (abs_table t) key = None")
        case True
        then show ?thesis using create_locked_new [OF inv fresh key fd name unbound True, of uid root now]
          by (auto simp: g clk)
      next
        case False
        have "spec_pick (Suc n) (live (abs_table t)) rs clock = spec_pick n (live (abs_table t)) rs' clock'"
          using False by (auto simp: g clk)
        moreover have
          "session_create_loop (Suc n) (with_nodes t a c) fd uid name root (Some a) (Some c) rs clock =
           session_create_loop n (with_nodes t a c) fd uid name root (Some a) (Some c) rs' clock'"
          by (simp add: g clk create_locked_collision [OF inv fresh key(1) unbound False])
        ultimately show ?thesis using Suc.IH by presburger
      qed
    qed (simp_all add: g free_pair_with_nodes [OF fresh])
  qed
qed

lemma create_loop_bound:
  assumes "table_inv t" "sessions t a = None" "bindings t c = None" "bound (abs_table t) fd \<noteq> None"
  shows "session_create_loop n (with_nodes t a c) fd uid name root (Some a) (Some c) rs clock =
    Some (- 1, None, t)"
  by (cases n) (auto simp: free_pair_with_nodes [OF assms(2,3)] create_locked_bound [OF assms]
      split: option.splits list.splits)

lemma session_create_correct:
  assumes inv: "table_inv t" and fresh: "sessions t a = None" "bindings t c = None" and fd: "0 \<le> fd"
    and name: "name \<noteq> []" "length name < USERNAME_SIZE"
  shows "case (bound (abs_table t) fd, spec_pick SESSION_ID_GENERATION_ATTEMPTS (live (abs_table t)) rs clock) of
      (None, Some (key, now)) \<Rightarrow>
        \<exists>t'. session_create (Some t) fd uid (Some name) root (Some a) (Some c) rs clock =
            Some (0, Some key, Some t') \<and> table_inv t' \<and>
          abs_table t' = spec_create (abs_table t) fd uid name root key now
    | _ \<Rightarrow> session_create (Some t) fd uid (Some name) root (Some a) (Some c) rs clock =
        Some (- 1, None, Some t)"
proof -
  have eq: "session_create (Some t) fd uid (Some name) root (Some a) (Some c) rs clock =
      do { (ret, out, t') \<leftarrow> session_create_loop SESSION_ID_GENERATION_ATTEMPTS (with_nodes t a c) fd uid name
             root (Some a) (Some c) rs clock;
           Some (ret, out, Some t') }"
    using fd name by (simp add: session_create_def with_nodes_def mem_simps)
  show ?thesis
  proof (cases "bound (abs_table t) fd")
    case None
    then show ?thesis
      using create_loop_correct [OF inv fresh fd name(2) None,
          where n = SESSION_ID_GENERATION_ATTEMPTS and rs = rs and clock = clock and uid = uid and root = root]
      by (auto simp: eq split: option.splits)
  next
    case (Some k)
    then show ?thesis using create_loop_bound [OF inv fresh] by (simp add: eq)
  qed
qed

subsection \<open>Detaching a descriptor\<close>

lemma unlink_connection_ok:
  assumes a: "hs a = Some s" and c: "hb c = Some n"
    and ch: "chain session_next hb (connections s) (xs @ c # ys)"
  obtains p hb' where "unlink_connection hs hb (Some a) c = Some (hs(a \<mapsto> s\<lparr>connections := p\<rparr>), hb')"
    "chain session_next hb' p (xs @ ys)" "differ_in (\<lambda>n v. n\<lparr>session_next := v\<rparr>) hb hb'"
    "\<And>b. b \<notin> set xs \<Longrightarrow> hb' b = hb b"
proof -
  have dist: "distinct (xs @ c # ys)" by (rule chain_distinct [OF ch])
  have seek: "chain_seek session_next (\<lambda>b _. b = c) hb None (connections s) = Some (link_after None xs, Some c)"
    by (rule chain_seek_found [OF ch]) (use dist in auto)
  show thesis
  proof (cases "xs = []")
    case True
    have "unlink_connection hs hb (Some a) c = Some (hs(a \<mapsto> s\<lparr>connections := session_next n\<rparr>), hb)"
      using seek a c True by (simp add: unlink_connection_def mem_simps link_after_def)
    then show thesis by (rule that) (use ch c True in auto)
  next
    case False
    then obtain l where l: "hb (last xs) = Some l" using chain_live [OF ch, of "last xs"] by auto
    let ?h = "hb(last xs \<mapsto> l\<lparr>session_next := session_next n\<rparr>)"
    have "hs(a \<mapsto> s\<lparr>connections := connections s\<rparr>) = hs" using a by (simp add: fun_upd_idem)
    then have "unlink_connection hs hb (Some a) c = Some (hs(a \<mapsto> s\<lparr>connections := connections s\<rparr>), ?h)"
      using seek a c l False by (simp add: unlink_connection_def mem_simps link_after_def)
    then show thesis
    proof (rule that)
      show "chain session_next ?h (connections s) (xs @ ys)"
        using chain_unlink_inner [OF ch False c l, where set_nxt = "\<lambda>n v. n\<lparr>session_next := v\<rparr>"] by simp
      show "differ_in (\<lambda>n v. n\<lparr>session_next := v\<rparr>) hb ?h"
        using differ_in_upd [of hb "last xs" l "\<lambda>n v. n\<lparr>session_next := v\<rparr>"] l by simp
    qed (use False in auto)
  qed
qed

text \<open>
  The table after the binding at \<open>c\<close> has left its bucket and its session's list and is freed:
  \<open>hb1\<close> is the heap after the first unlinking, \<open>hb2\<close> after the second.
\<close>

lemma rep_unbind:
  assumes rep: "table_rep t S B" and c: "c \<in> B" "bindings t c = Some n" "bsession n = Some a"
    and a: "a \<in> S" "sessions t a = Some s"
    and bs: "chain session_next (bindings t) (connections s) (xs @ c # ys)"
      "set (xs @ c # ys) = conns (bindings t) B a" "connection_count s = length (xs @ c # ys)"
    and hb1: "fd_ix.ix hb1 fdb (B - {c})" "differ_in (\<lambda>n v. n\<lparr>fd_next := v\<rparr>) (bindings t) hb1"
    and hb2: "chain session_next hb2 p (xs @ ys)" "differ_in (\<lambda>n v. n\<lparr>session_next := v\<rparr>) hb1 hb2"
      "\<And>b. b \<notin> set xs \<Longrightarrow> hb2 b = hb1 b"
  defines "t' \<equiv> t\<lparr>sessions := (sessions t)(a \<mapsto> s\<lparr>connections := p, connection_count := connection_count s - 1\<rparr>),
      bindings := hb2(c := None), fd_buckets := fdb\<rparr>"
  shows "table_rep t' S (B - {c})"
proof -
  let ?hb = "hb2(c := None)"
  have live: "bindings t b \<noteq> None" if "b \<in> B" for b using rep_binding_live [OF rep that] by blast
  have f1: "map_option f (hb1 b) = map_option f (bindings t b)"
    if "\<And>n v. f (n\<lparr>fd_next := v\<rparr>) = f n" for f :: "connection_binding \<Rightarrow> 'z" and b
    by (rule differ_in_field [OF hb1(2)]) (rule that)
  have f2: "map_option f (hb2 b) = map_option f (hb1 b)"
    if "\<And>n v. f (n\<lparr>session_next := v\<rparr>) = f n" for f :: "connection_binding \<Rightarrow> 'z" and b
    by (rule differ_in_field [OF hb2(2)]) (rule that)
  have own: "map_option bsession (?hb b) = map_option bsession (bindings t b)" if "b \<noteq> c" for b
    using that by (simp add: f1 f2)
  have fd: "map_option client_fd (?hb b) = map_option client_fd (bindings t b)" if "b \<noteq> c" for b
    using that by (simp add: f1 f2)
  have cn: "conns ?hb (B - {c}) x = conns (bindings t) B x - {c}" for x
    using conns_frame [of "B - {c}" ?hb "bindings t" x] own live by (auto simp: conns_def)
  have "session_ix.ix (sessions t') (session_buckets t') S"
    by (rule session_ix.ix_frame [of "sessions t"]) (use rep a in \<open>auto simp: table_rep_def t'_def\<close>)
  moreover have "fd_ix.ix ?hb fdb (B - {c})"
    by (rule fd_ix.ix_frame [OF hb1(1)]) (auto simp: f2)
  moreover have "session_ok ?hb (B - {c}) x (the (sessions t' x))" if x: "x \<in> S" for x
  proof (cases "x = a")
    case True
    have dist: "distinct (xs @ c # ys)" by (rule chain_distinct [OF bs(1)])
    have "chain session_next ?hb p (xs @ ys)" by (rule chain_frame [OF hb2(1)]) (use dist in auto)
    moreover have "set (xs @ ys) = conns ?hb (B - {c}) a" using bs(2) dist by (auto simp: cn)
    moreover have "session_data_ok s" using rep a by (auto simp: table_rep_def session_ok_def)
    ultimately show ?thesis using True bs(3)
      by (auto simp: session_ok_def session_data_ok_def t'_def)
  next
    case False
    have ok: "session_ok (bindings t) B x (the (sessions t x))" using rep x by (auto simp: table_rep_def)
    have "c \<notin> conns (bindings t) B x" using c(2,3) False by (simp add: conns_def)
    then have cx: "conns ?hb (B - {c}) x = conns (bindings t) B x" by (simp add: cn)
    obtain cs where cs: "chain session_next (bindings t) (connections (the (sessions t x))) cs"
      "set cs = conns (bindings t) B x" "connection_count (the (sessions t x)) = length cs"
      "session_data_ok (the (sessions t x))" using ok by (auto simp: session_ok_def)
    have "chain session_next ?hb (connections (the (sessions t x))) cs"
    proof (rule chain_frame [OF cs(1)])
      fix b assume "b \<in> set cs"
      then have "b \<notin> set (xs @ c # ys)" using cs(2) bs(2) False by (auto simp: conns_def)
      then show "map_option session_next (?hb b) = map_option session_next (bindings t b)"
        using hb2(3) [of b] f1 [of session_next b] by simp
    qed
    then show ?thesis using cs cx False by (auto simp: session_ok_def t'_def)
  qed
  moreover have "binding_ok S (the (?hb b))" if b: "b \<in> B - {c}" for b
  proof -
    obtain m where m: "bindings t b = Some m" using rep_binding_live [OF rep] b by blast
    then obtain m' where "?hb b = Some m'" "client_fd m' = client_fd m" "bsession m' = bsession m"
      using own [of b] fd [of b] b by auto
    moreover have "binding_ok S m" using rep b m by (force simp: table_rep_def)
    ultimately show ?thesis by (simp add: binding_ok_def)
  qed
  ultimately show ?thesis using rep by (simp add: table_rep_def t'_def)
qed

lemma abs_unbind:
  assumes rep: "table_rep t S B" and rep': "table_rep t' S (B - {c})" and c: "c \<in> B" "bindings t c = Some n"
    and agree: "\<And>b. b \<in> B - {c} \<Longrightarrow> map_option client_fd (bindings t' b) = map_option client_fd (bindings t b)"
      "\<And>b. b \<in> B - {c} \<Longrightarrow> map_option bsession (bindings t' b) = map_option bsession (bindings t b)"
      "\<And>x. x \<in> S \<Longrightarrow> map_option sid (sessions t' x) = map_option sid (sessions t x)"
      "\<And>x. x \<in> S \<Longrightarrow> map_option info_of (sessions t' x) = map_option info_of (sessions t x)"
  shows "abs_table t' = (abs_table t)\<lparr>bound := (bound (abs_table t))(client_fd n := None)\<rparr>"
proof (rule session_spec.equality)
  have "(\<exists>r. sessions t' x = Some r \<and> sid r = k \<and> i = info_of r) \<longleftrightarrow>
      (\<exists>r. sessions t x = Some r \<and> sid r = k \<and> i = info_of r)" if "x \<in> S" for x k i
    using agree(3,4) [OF that] by (cases "sessions t x"; cases "sessions t' x") auto
  then have "live (abs_table t') k = Some i \<longleftrightarrow> live (abs_table t) k = Some i" for k i
    unfolding abs_live_iff [OF rep] abs_live_iff [OF rep'] by simp
  then have "live (abs_table t') = live (abs_table t)" by (rule map_eqI)
  then show "live (abs_table t') = live ((abs_table t)\<lparr>bound := (bound (abs_table t))(client_fd n := None)\<rparr>)"
    by simp
  have sid: "(\<exists>r. sessions t' x = Some r \<and> sid r = k) \<longleftrightarrow> (\<exists>r. sessions t x = Some r \<and> sid r = k)"
    if "x \<in> S" for x k using agree(3) [OF that] by (cases "sessions t x"; cases "sessions t' x") auto
  have own: "x \<in> S" if "b \<in> B" "bindings t b = Some m" "bsession m = Some x" for b m x
    using rep that by (force simp: table_rep_def binding_ok_def)
  have node: "(\<exists>m. bindings t' b = Some m \<and> client_fd m = f \<and> bsession m = Some x) \<longleftrightarrow>
      (\<exists>m. bindings t b = Some m \<and> client_fd m = f \<and> bsession m = Some x)" if "b \<in> B - {c}" for b f x
    using agree(1,2) [OF that] by (cases "bindings t b"; cases "bindings t' b") auto
  have uniq: "b \<noteq> c \<longleftrightarrow> client_fd m \<noteq> client_fd n" if "b \<in> B" "bindings t b = Some m" for b m
    using rep_fd_inj [OF rep that(1) c(1) that(2) c(2)] that c by auto
  have "bound (abs_table t') f = Some k \<longleftrightarrow> ((bound (abs_table t))(client_fd n := None)) f = Some k" for f k
  proof -
    have "bound (abs_table t') f = Some k \<longleftrightarrow>
        (\<exists>b\<in>B - {c}. \<exists>x. (\<exists>m. bindings t' b = Some m \<and> client_fd m = f \<and> bsession m = Some x) \<and>
           (\<exists>r. sessions t' x = Some r \<and> sid r = k))"
      unfolding abs_bound_iff [OF rep'] by blast
    also have "\<dots> \<longleftrightarrow> (\<exists>b\<in>B - {c}. \<exists>x. (\<exists>m. bindings t b = Some m \<and> client_fd m = f \<and> bsession m = Some x) \<and>
           (\<exists>r. sessions t x = Some r \<and> sid r = k))"
    proof -
      have "(\<exists>m. bindings t' b = Some m \<and> client_fd m = f \<and> bsession m = Some x) \<and>
            (\<exists>r. sessions t' x = Some r \<and> sid r = k) \<longleftrightarrow>
          (\<exists>m. bindings t b = Some m \<and> client_fd m = f \<and> bsession m = Some x) \<and>
            (\<exists>r. sessions t x = Some r \<and> sid r = k)" if "b \<in> B - {c}" for b x
        using node [OF that, of f x] sid [of x k] own [of b _ x] that by blast
      then show ?thesis by blast
    qed
    also have "\<dots> \<longleftrightarrow> f \<noteq> client_fd n \<and> bound (abs_table t) f = Some k"
    proof -
      have "b \<in> B - {c} \<longleftrightarrow> f \<noteq> client_fd n" if "b \<in> B" "bindings t b = Some m" "client_fd m = f" for b m
        using uniq [OF that(1,2)] that(1,3) by auto
      then show ?thesis unfolding abs_bound_iff [OF rep] by blast
    qed
    finally show ?thesis by simp
  qed
  then have "bound (abs_table t') = (bound (abs_table t))(client_fd n := None)" by (rule map_eqI)
  then show "bound (abs_table t') = bound ((abs_table t)\<lparr>bound := (bound (abs_table t))(client_fd n := None)\<rparr>)"
    by simp
qed simp

lemma differ_in_node:
  assumes "differ_in (\<lambda>n v. n\<lparr>hash_next := v\<rparr>) hs hs'" "hs x = Some (r :: session_t)"
  shows "\<exists>v. hs' x = Some (r\<lparr>hash_next := v\<rparr>)"
proof -
  have "hs' x = Some r \<or> (\<exists>v. hs' x = Some (r\<lparr>hash_next := v\<rparr>))"
    using assms unfolding differ_in_def by (metis option.sel)
  moreover have "r = r\<lparr>hash_next := hash_next r\<rparr>" by simp
  ultimately show ?thesis by metis
qed

lemma drop_session_ok:
  assumes rep: "table_rep t S B" and a: "a \<in> S" "sessions t a = Some s"
    and none: "conns (bindings t) B a = {}"
  obtains hs sb where "drop_session t (Some a) s =
      Some (t\<lparr>sessions := hs(a := None), session_buckets := sb, session_count := session_count t - 1\<rparr>)"
    "table_rep (t\<lparr>sessions := hs(a := None), session_buckets := sb, session_count := session_count t - 1\<rparr>)
      (S - {a}) B"
    "differ_in (\<lambda>n v. n\<lparr>hash_next := v\<rparr>) (sessions t) hs"
proof -
  have ix: "session_ix.ix (sessions t) (session_buckets t) S" "bucket_count t = SESSION_BUCKET_COUNT"
    using rep by (auto simp: table_rep_def)
  obtain link hs sb where u:
    "chain_seek hash_next (\<lambda>b _. Some b = Some a) (sessions t) None
       (session_buckets t ! hash_session_id (sid s) SESSION_BUCKET_COUNT) = Some (link, Some a)"
    "link_store (\<lambda>n v. n\<lparr>hash_next := v\<rparr>) (sessions t) (session_buckets t)
       (hash_session_id (sid s) SESSION_BUCKET_COUNT) link (hash_next s) = Some (hs, sb)"
    "session_ix.ix hs sb (S - {a})" "differ_in (\<lambda>n v. n\<lparr>hash_next := v\<rparr>) (sessions t) hs" "hs a = Some s"
    by (rule session_ix.unlink [OF ix(1) a refl, of "\<lambda>b _. Some b = Some a"]) auto
  let ?t = "t\<lparr>sessions := hs(a := None), session_buckets := sb, session_count := session_count t - 1\<rparr>"
  have eq: "drop_session t (Some a) s = Some ?t"
    using u session_ix.ix_bucket [OF ix(1), of "sid s"] ix(2)
    by (simp add: drop_session_def mem_simps)
  have node: "\<exists>r v. sessions t x = Some r \<and> hs x = Some (r\<lparr>hash_next := v\<rparr>)" if "x \<in> S" for x
    using rep_session_live [OF rep that] differ_in_node [OF u(4)] by blast
  have "session_ix.ix (hs(a := None)) sb (S - {a})"
    by (rule session_ix.ix_frame [OF u(3)]) auto
  moreover have "session_ok (bindings t) B x (the ((hs(a := None)) x))" if x: "x \<in> S - {a}" for x
  proof -
    obtain r v where r: "sessions t x = Some r" "hs x = Some (r\<lparr>hash_next := v\<rparr>)" using node x by blast
    have "session_ok (bindings t) B x r" using rep x r by (force simp: table_rep_def)
    then show ?thesis using x r by (auto simp: session_ok_def session_data_ok_def)
  qed
  moreover have "binding_ok (S - {a}) (the (bindings t b))" if b: "b \<in> B" for b
  proof -
    have "binding_ok S (the (bindings t b))" using rep b by (simp add: table_rep_def)
    then show ?thesis using b none unfolding binding_ok_def conns_def by blast
  qed
  moreover have "session_count t - 1 = card (S - {a})"
    using rep a rep_finite [OF rep] by (simp add: table_rep_def)
  ultimately have "table_rep ?t (S - {a}) B" using rep by (simp add: table_rep_def)
  then show thesis using that eq u(4) by blast
qed

lemma ran_bound:
  assumes rep: "table_rep t S B" and a: "a \<in> S" "sessions t a = Some s"
  shows "sid s \<in> ran (bound (abs_table t)) \<longleftrightarrow> conns (bindings t) B a \<noteq> {}"
proof
  assume "sid s \<in> ran (bound (abs_table t))"
  then obtain fd where "bound (abs_table t) fd = Some (sid s)" by (auto simp: ran_def)
  then obtain b n x r where b: "b \<in> B" "bindings t b = Some n" "bsession n = Some x"
    "sessions t x = Some r" "sid r = sid s" unfolding abs_bound_iff [OF rep] by blast
  have "x \<in> S" using rep b by (force simp: table_rep_def binding_ok_def)
  then have "x = a" using rep_sid_inj [OF rep _ a(1) b(4) a(2)] b(5) by simp
  then show "conns (bindings t) B a \<noteq> {}" using b by (auto simp: conns_def)
next
  assume "conns (bindings t) B a \<noteq> {}"
  then obtain b where b: "b \<in> B" "bsession (the (bindings t b)) = Some a" by (auto simp: conns_def)
  obtain n where n: "bindings t b = Some n" using rep_binding_live [OF rep b(1)] by blast
  then have "bound (abs_table t) (client_fd n) = Some (sid s)"
    unfolding abs_bound_iff [OF rep] using a b by (metis option.sel)
  then show "sid s \<in> ran (bound (abs_table t))" by (rule ranI)
qed

lemma abs_drop:
  assumes rep: "table_rep t S B" and rep': "table_rep t' (S - {a}) B" and a: "a \<in> S" "sessions t a = Some s"
    and none: "conns (bindings t) B a = {}" and bnd: "bindings t' = bindings t"
    and agree: "\<And>x. x \<in> S - {a} \<Longrightarrow> \<exists>r v. sessions t x = Some r \<and> sessions t' x = Some (r\<lparr>hash_next := v\<rparr>)"
  shows "abs_table t' = (abs_table t)\<lparr>live := (live (abs_table t))(sid s := None)\<rparr>"
proof (rule session_spec.equality)
  have info: "info_of (r\<lparr>hash_next := v\<rparr>) = info_of r" for r v by (simp add: info_of_def)
  have node: "(\<exists>r. sessions t' x = Some r \<and> sid r = k \<and> i = info_of r) \<longleftrightarrow>
      (\<exists>r. sessions t x = Some r \<and> sid r = k \<and> i = info_of r)" if "x \<in> S - {a}" for x k i
    using agree [OF that] info by auto
  have uniq: "x \<noteq> a \<longleftrightarrow> sid r \<noteq> sid s" if "x \<in> S" "sessions t x = Some r" for x r
    using rep_sid_inj [OF rep that(1) a(1) that(2) a(2)] that a by auto
  have "live (abs_table t') k = Some i \<longleftrightarrow> ((live (abs_table t))(sid s := None)) k = Some i" for k i
  proof -
    have "live (abs_table t') k = Some i \<longleftrightarrow>
        (\<exists>x\<in>S - {a}. \<exists>r. sessions t x = Some r \<and> sid r = k \<and> i = info_of r)"
      unfolding abs_live_iff [OF rep'] using node by simp
    also have "\<dots> \<longleftrightarrow> k \<noteq> sid s \<and> live (abs_table t) k = Some i"
      unfolding abs_live_iff [OF rep] using uniq by blast
    finally show ?thesis by simp
  qed
  then have "live (abs_table t') = (live (abs_table t))(sid s := None)" by (rule map_eqI)
  then show "live (abs_table t') = live ((abs_table t)\<lparr>live := (live (abs_table t))(sid s := None)\<rparr>)" by simp
  have own: "x \<in> S - {a}" if "b \<in> B" "bindings t b = Some m" "bsession m = Some x" for b m x
    using rep that none by (force simp: table_rep_def binding_ok_def conns_def)
  have "(\<exists>r. sessions t' x = Some r \<and> sid r = k) \<longleftrightarrow> (\<exists>r. sessions t x = Some r \<and> sid r = k)"
    if "x \<in> S - {a}" for x k using agree [OF that] by auto
  then have "bound (abs_table t') f = Some k \<longleftrightarrow> bound (abs_table t) f = Some k" for f k
    unfolding abs_bound_iff [OF rep] abs_bound_iff [OF rep'] bnd using own by blast
  then have "bound (abs_table t') = bound (abs_table t)" by (rule map_eqI)
  then show "bound (abs_table t') = bound ((abs_table t)\<lparr>live := (live (abs_table t))(sid s := None)\<rparr>)" by simp
qed simp

lemma detach_unbind:
  assumes inv: "table_inv t" and fd: "0 \<le> fd" and c: "bindings t c = Some n" "client_fd n = fd"
  obtains t1 a s s1 where "sessions t a = Some s" "bound (abs_table t) fd = Some (sid s)"
    "session_detach_fd (Some t) fd =
       (if connection_count s1 = 0 then map_option Some (drop_session t1 (Some a) s1) else Some (Some t1))"
    "table_rep t1 (dom (sessions t)) (dom (bindings t) - {c})"
    "dom (sessions t1) = dom (sessions t)" "dom (bindings t1) = dom (bindings t) - {c}"
    "sessions t1 a = Some s1" "sid s1 = sid s" "\<And>x. x \<noteq> a \<Longrightarrow> sessions t1 x = sessions t x"
    "abs_table t1 = (abs_table t)\<lparr>bound := (bound (abs_table t))(fd := None)\<rparr>"
proof -
  let ?S = "dom (sessions t)" and ?B = "dom (bindings t)"
  note rep = inv_rep [OF inv]
  have cB: "c \<in> ?B" using c by blast
  have ix: "fd_ix.ix (bindings t) (fd_buckets t) ?B" "bucket_count t = SESSION_BUCKET_COUNT"
    using rep by (auto simp: table_rep_def)
  have stop: "client_fd (the (bindings t b)) = fd \<longleftrightarrow> b = c" if "b \<in> ?B" for b
    using fd_ix.ix_inj [OF ix(1) that cB] c by auto
  obtain link hb1 fdb where u: "chain_seek fd_next (\<lambda>_ b. client_fd b = fd) (bindings t) None
      (fd_buckets t ! hash_fd fd SESSION_BUCKET_COUNT) = Some (link, Some c)"
    "link_store (\<lambda>n v. n\<lparr>fd_next := v\<rparr>) (bindings t) (fd_buckets t) (hash_fd fd SESSION_BUCKET_COUNT)
       link (fd_next n) = Some (hb1, fdb)"
    "fd_ix.ix hb1 fdb (?B - {c})" "differ_in (\<lambda>n v. n\<lparr>fd_next := v\<rparr>) (bindings t) hb1" "hb1 c = Some n"
    by (rule fd_ix.unlink [OF ix(1) cB c, of "\<lambda>_ b. client_fd b = fd"]) (use stop in auto)
  obtain a where a: "a \<in> ?S" "bsession n = Some a"
    using rep cB c by (force simp: table_rep_def binding_ok_def)
  obtain s where s: "sessions t a = Some s" using a(1) by blast
  have "session_ok (bindings t) ?B a s" using rep a(1) s by (force simp: table_rep_def)
  then obtain bs where bs: "chain session_next (bindings t) (connections s) bs"
    "set bs = conns (bindings t) ?B a" "connection_count s = length bs" by (auto simp: session_ok_def)
  have "c \<in> set bs" using bs(2) cB c a by (simp add: conns_def)
  then obtain xs ys where xs: "bs = xs @ c # ys" by (meson split_list)
  have ch1: "chain session_next hb1 (connections s) (xs @ c # ys)"
    using chain_frame [OF bs(1)] differ_in_field [OF u(4), of session_next] by (simp add: xs)
  obtain p hb2 where v: "unlink_connection (sessions t) hb1 (Some a) c =
      Some ((sessions t)(a \<mapsto> s\<lparr>connections := p\<rparr>), hb2)"
    "chain session_next hb2 p (xs @ ys)" "differ_in (\<lambda>n v. n\<lparr>session_next := v\<rparr>) hb1 hb2"
    "\<And>b. b \<notin> set xs \<Longrightarrow> hb2 b = hb1 b"
    by (rule unlink_connection_ok [where hs = "sessions t" and hb = hb1 and a = a and c = c, OF s u(5) ch1]) (rule that)
  let ?s1 = "s\<lparr>connections := p, connection_count := connection_count s - 1\<rparr>"
  let ?t1 = "t\<lparr>sessions := (sessions t)(a \<mapsto> ?s1), bindings := hb2(c := None), fd_buckets := fdb\<rparr>"
  have c2: "hb2 c = Some n" using v(4) [of c] u(5) chain_distinct [OF bs(1)] by (simp add: xs)
  have comp: "session_detach_fd (Some t) fd =
      (if connection_count ?s1 = 0 then map_option Some (drop_session ?t1 (Some a) ?s1) else Some (Some ?t1))"
    using fd u(1,2) v(1) c c2 a(2) ix(2) fd_ix.ix_bucket [OF ix(1), of fd]
    by (simp add: session_detach_fd_def mem_simps)
  have rep1: "table_rep ?t1 ?S (?B - {c})"
    by (rule rep_unbind [OF rep cB c(1) a(2) a(1) s bs [unfolded xs] u(3,4) v(2-4)])
  have dom: "dom (sessions ?t1) = ?S" "dom (bindings ?t1) = ?B - {c}"
    using a(1) differ_in_dom [OF u(4)] differ_in_dom [OF v(3)] by auto
  have f: "map_option f ((hb2(c := None)) b) = map_option f (bindings t b)"
    if "b \<noteq> c" "\<And>n v. f (n\<lparr>fd_next := v\<rparr>) = f n" "\<And>n v. f (n\<lparr>session_next := v\<rparr>) = f n"
    for f :: "connection_binding \<Rightarrow> 'z" and b
    using differ_in_field [OF u(4), of f b] differ_in_field [OF v(3), of f b] that by simp
  have abs: "abs_table ?t1 = (abs_table t)\<lparr>bound := (bound (abs_table t))(client_fd n := None)\<rparr>"
  proof (rule abs_unbind [OF rep rep1 cB c(1)])
    fix b assume b: "b \<in> ?B - {c}"
    show "map_option client_fd (bindings ?t1 b) = map_option client_fd (bindings t b)"
      using f [of b client_fd] b by simp
    show "map_option bsession (bindings ?t1 b) = map_option bsession (bindings t b)"
      using f [of b bsession] b by simp
  qed (use s in \<open>auto simp: info_of_def\<close>)
  have "bound (abs_table t) fd = Some (sid s)" unfolding abs_bound_iff [OF rep] using cB c a(2) s by blast
  then show thesis using that [OF s _ comp rep1 dom] abs c(2) by simp
qed

lemma session_detach_correct:
  assumes inv: "table_inv t" and fd: "0 \<le> fd"
  shows "\<exists>t'. session_detach_fd (Some t) fd = Some (Some t') \<and> table_inv t' \<and>
    abs_table t' = spec_detach (abs_table t) fd"
  using inv_rep [OF inv]
proof (cases rule: find_binding_cases [where fd = fd])
  case absent
  have ix: "fd_ix.ix (bindings t) (fd_buckets t) (dom (bindings t))" "bucket_count t = SESSION_BUCKET_COUNT"
    using inv_rep [OF inv] by (auto simp: table_rep_def)
  obtain link where "chain_seek fd_next (\<lambda>_ b. client_fd b = fd) (bindings t) None
      (fd_buckets t ! hash_fd fd SESSION_BUCKET_COUNT) = Some (link, None)"
    using fd_ix.seek_none [OF ix(1), of "\<lambda>_ b. client_fd b = fd" fd] absent(1) by blast
  then have "session_detach_fd (Some t) fd = Some (Some t)"
    using fd ix(2) fd_ix.ix_bucket [OF ix(1), of fd] by (simp add: session_detach_fd_def mem_simps)
  moreover have "bound (abs_table t) fd = None" using absent(1) abs_bound_None [OF inv_rep [OF inv]] by blast
  ultimately show ?thesis using inv by (simp add: spec_detach_def)
next
  case (found c n)
  let ?S = "dom (sessions t)" and ?B = "dom (bindings t)"
  obtain t1 a s s1 where s: "sessions t a = Some s" "bound (abs_table t) fd = Some (sid s)"
    and comp: "session_detach_fd (Some t) fd =
       (if connection_count s1 = 0 then map_option Some (drop_session t1 (Some a) s1) else Some (Some t1))"
    and rep1: "table_rep t1 ?S (?B - {c})" and dom: "dom (sessions t1) = ?S" "dom (bindings t1) = ?B - {c}"
    and s1: "sessions t1 a = Some s1" "sid s1 = sid s" "\<And>x. x \<noteq> a \<Longrightarrow> sessions t1 x = sessions t x"
    and abs: "abs_table t1 = (abs_table t)\<lparr>bound := (bound (abs_table t))(fd := None)\<rparr>"
    by (rule detach_unbind [OF inv fd found(2,3)]) blast
  have a: "a \<in> ?S" using s(1) by blast
  have other: "conns (bindings t1) (?B - {c}) x \<noteq> {}" if x: "x \<in> ?S" "x \<noteq> a" for x
  proof -
    obtain r where r: "sessions t x = Some r" using x(1) by blast
    have "sid r \<in> ran (bound (abs_table t))"
      using ran_bound [OF inv_rep [OF inv] x(1) r] inv_nonempty [OF inv r] by simp
    then obtain f where f: "bound (abs_table t) f = Some (sid r)" by (auto simp: ran_def)
    have "sid r \<noteq> sid s" using rep_sid_inj [OF inv_rep [OF inv] x(1) a r s(1)] x(2) by blast
    then have "bound (abs_table t1) f = Some (sid r)" using f s(2) by (auto simp: abs)
    then show ?thesis using ran_bound [OF rep1 x(1), of r] s1(3) [OF x(2)] r by (simp add: ranI)
  qed
  have count: "connection_count s1 = 0 \<longleftrightarrow> conns (bindings t1) (?B - {c}) a = {}"
  proof -
    have "session_ok (bindings t1) (?B - {c}) a s1" using rep1 a s1(1) by (force simp: table_rep_def)
    then show ?thesis unfolding session_ok_def by (metis length_0_conv set_empty)
  qed
  have ran: "sid s \<in> ran ((bound (abs_table t))(fd := None)) \<longleftrightarrow> conns (bindings t1) (?B - {c}) a \<noteq> {}"
    using ran_bound [OF rep1 a s1(1)] s1(2) by (simp add: abs)
  show ?thesis
  proof (cases "connection_count s1 = 0")
    case True
    then have none: "conns (bindings t1) (?B - {c}) a = {}" using count by simp
    obtain hs sb where t2: "drop_session t1 (Some a) s1 =
        Some (t1\<lparr>sessions := hs(a := None), session_buckets := sb, session_count := session_count t1 - 1\<rparr>)"
      "table_rep (t1\<lparr>sessions := hs(a := None), session_buckets := sb, session_count := session_count t1 - 1\<rparr>)
        (?S - {a}) (?B - {c})"
      "differ_in (\<lambda>n v. n\<lparr>hash_next := v\<rparr>) (sessions t1) hs"
      by (rule drop_session_ok [OF rep1 a s1(1) none])
    let ?t2 = "t1\<lparr>sessions := hs(a := None), session_buckets := sb, session_count := session_count t1 - 1\<rparr>"
    have "\<exists>r v. sessions t1 x = Some r \<and> sessions ?t2 x = Some (r\<lparr>hash_next := v\<rparr>)" if "x \<in> ?S - {a}" for x
    proof -
      obtain r where "sessions t1 x = Some r" using rep_session_live [OF rep1] \<open>x \<in> ?S - {a}\<close> by blast
      then show ?thesis using differ_in_node [OF t2(3)] \<open>x \<in> ?S - {a}\<close> by auto
    qed
    then have "abs_table ?t2 = (abs_table t1)\<lparr>live := (live (abs_table t1))(sid s1 := None)\<rparr>"
      by (intro abs_drop [OF rep1 t2(2) a s1(1) none]) auto
    then have "abs_table ?t2 = spec_detach (abs_table t) fd"
      using none ran by (simp add: spec_detach_def s(2) s1(2) abs)
    moreover have "dom (sessions ?t2) = ?S - {a}" "dom (bindings ?t2) = ?B - {c}"
      using differ_in_dom [OF t2(3)] dom by auto
    then have "table_inv ?t2" using t2(2) other by (simp add: table_inv_def)
    ultimately show ?thesis using comp True t2(1) by simp
  next
    case False
    then have "conns (bindings t1) (?B - {c}) x \<noteq> {}" if "x \<in> ?S" for x
      using count other that by (cases "x = a") simp_all
    then have "table_inv t1" using rep1 by (simp add: table_inv_def dom)
    moreover have "abs_table t1 = spec_detach (abs_table t) fd"
      using False count ran by (simp add: spec_detach_def s(2) abs)
    ultimately show ?thesis using comp False by simp
  qed
qed

subsection \<open>Destroying the table\<close>

definition erase :: "nat set \<Rightarrow> 'n heap \<Rightarrow> 'n heap" where
  "erase A h = (\<lambda>a. if a \<in> A then None else h a)"

lemma erase_dom: "erase (dom h) h = Map.empty"
  by (auto simp: erase_def)

lemma destroy_chain_ok:
  assumes "chain hash_next hs p as"
    and "\<And>a. a \<in> set as \<Longrightarrow> chain session_next hb (connections (the (hs a))) (L a)"
    and "\<And>a b. a \<in> set as \<Longrightarrow> b \<in> set as \<Longrightarrow> a \<noteq> b \<Longrightarrow> set (L a) \<inter> set (L b) = {}"
  shows "destroy_chain hs hb p = Some (erase (set as) hs, erase (\<Union>a\<in>set as. set (L a)) hb)"
  using assms
proof (induction as arbitrary: p hs hb)
  case Nil
  then show ?case by (simp add: destroy_chain.simps erase_def)
next
  case (Cons a as)
  obtain s where s: "p = Some a" "hs a = Some s" "chain hash_next hs (hash_next s) as" using Cons.prems(1) by auto
  have a: "a \<notin> set as" using chain_distinct [OF Cons.prems(1)] by simp
  let ?hs = "hs(a := None)" and ?hb = "erase (set (L a)) hb"
  have free: "chain_free session_next hb (connections s) = Some ?hb"
    using chain_free_chain Cons.prems(2) [of a] s(2) by (auto simp: erase_def)
  have "destroy_chain ?hs ?hb (hash_next s) = Some (erase (set as) ?hs, erase (\<Union>a\<in>set as. set (L a)) ?hb)"
  proof (rule Cons.IH)
    show "chain hash_next ?hs (hash_next s) as" by (rule chain_frame [OF s(3)]) (use a in auto)
    show "chain session_next ?hb (connections (the (?hs b))) (L b)" if b: "b \<in> set as" for b
    proof -
      have "b \<noteq> a" using a b by blast
      then have "set (L a) \<inter> set (L b) = {}" using Cons.prems(3) [of a b] b by simp
      then show ?thesis using Cons.prems(2) [of b] b \<open>b \<noteq> a\<close>
        by (auto simp: erase_def intro!: chain_frame [of session_next hb])
    qed
  qed (use Cons.prems(3) in auto)
  then show ?case
    by (simp add: destroy_chain.simps [of _ _ "Some a"] s free erase_def fun_eq_iff)
qed

lemma destroy_buckets_ok:
  assumes "list_all2 (chain hash_next hs) ps ass" "sorted_wrt (\<lambda>as bs. set as \<inter> set bs = {}) ass"
    and "\<And>a. a \<in> set (concat ass) \<Longrightarrow> chain session_next hb (connections (the (hs a))) (L a)"
    and "\<And>a b. a \<in> set (concat ass) \<Longrightarrow> b \<in> set (concat ass) \<Longrightarrow> a \<noteq> b \<Longrightarrow> set (L a) \<inter> set (L b) = {}"
  shows "destroy_buckets ps hs hb =
    Some (erase (set (concat ass)) hs, erase (\<Union>a\<in>set (concat ass). set (L a)) hb)"
  using assms
proof (induction ps arbitrary: ass hs hb)
  case Nil
  then show ?case by (simp add: erase_def)
next
  case (Cons p ps)
  obtain as rest where ass: "ass = as # rest" "chain hash_next hs p as" "list_all2 (chain hash_next hs) ps rest"
    using Cons.prems(1) by (auto simp: list_all2_Cons1)
  let ?hs = "erase (set as) hs" and ?hb = "erase (\<Union>a\<in>set as. set (L a)) hb"
  have first: "destroy_chain hs hb p = Some (?hs, ?hb)"
    by (rule destroy_chain_ok [OF ass(2)]) (use Cons.prems(3,4) ass(1) in auto)
  have disj: "a \<notin> set as" if "a \<in> set (concat rest)" for a using Cons.prems(2) that ass(1) by auto
  have "destroy_buckets ps ?hs ?hb =
      Some (erase (set (concat rest)) ?hs, erase (\<Union>a\<in>set (concat rest). set (L a)) ?hb)"
  proof (rule Cons.IH)
    show "list_all2 (chain hash_next ?hs) ps rest"
    proof (rule list.rel_mono_strong [OF ass(3)])
      fix q bs assume q: "q \<in> set ps" "bs \<in> set rest" "chain hash_next hs q bs"
      have "?hs a = hs a" if "a \<in> set bs" for a
        using disj [of a] that q(2) by (auto simp: erase_def)
      then show "chain hash_next ?hs q bs" by (intro chain_frame [OF q(3)]) simp
    qed
    show "chain session_next ?hb (connections (the (?hs a))) (L a)" if a: "a \<in> set (concat rest)" for a
    proof -
      have "set (L a) \<inter> set (L b) = {}" if "b \<in> set as" for b
        using Cons.prems(4) [of a b] a that disj [OF a] ass(1) by auto
      then have "?hb x = hb x" if "x \<in> set (L a)" for x using that by (auto simp: erase_def)
      then have "chain session_next ?hb (connections (the (hs a))) (L a)"
        by (intro chain_frame [OF Cons.prems(3)]) (use a ass(1) in auto)
      then show ?thesis using disj [OF a] by (simp add: erase_def)
    qed
  qed (use Cons.prems(2,4) ass(1) in auto)
  then show ?case by (simp add: ass(1) first erase_def fun_eq_iff)
qed

lemma session_table_destroy_ok:
  assumes inv: "table_inv t"
  shows "session_table_destroy t = Some (Map.empty, Map.empty)"
proof -
  let ?S = "dom (sessions t)" and ?B = "dom (bindings t)" and ?n = SESSION_BUCKET_COUNT
  note rep = inv_rep [OF inv]
  have ix: "session_ix.ix (sessions t) (session_buckets t) ?S" "bucket_count t = ?n"
    using rep by (auto simp: table_rep_def)
  obtain K where K: "length (session_buckets t) = ?n" "?S = (\<Union>i<?n. set (K i))"
    "\<And>i. i < ?n \<Longrightarrow> chain hash_next (sessions t) (session_buckets t ! i) (K i)"
    "\<And>i a. i < ?n \<Longrightarrow> a \<in> set (K i) \<Longrightarrow> hash_session_id (sid (the (sessions t a))) ?n = i"
    by (rule session_ix.ix_E [OF ix(1)]) blast
  let ?ass = "map K [0..<?n]"
  have S: "set (concat ?ass) = ?S" using K(2) by auto
  have "\<forall>a\<in>?S. \<exists>bs. chain session_next (bindings t) (connections (the (sessions t a))) bs \<and>
      set bs = conns (bindings t) ?B a"
    using rep by (auto simp: table_rep_def session_ok_def)
  then obtain L where L: "\<And>a. a \<in> ?S \<Longrightarrow> chain session_next (bindings t) (connections (the (sessions t a))) (L a)"
    "\<And>a. a \<in> ?S \<Longrightarrow> set (L a) = conns (bindings t) ?B a" by metis
  have "destroy_buckets (session_buckets t) (sessions t) (bindings t) =
      Some (erase (set (concat ?ass)) (sessions t), erase (\<Union>a\<in>set (concat ?ass). set (L a)) (bindings t))"
  proof (rule destroy_buckets_ok)
    show "list_all2 (chain hash_next (sessions t)) (session_buckets t) ?ass"
      using K(1,3) by (simp add: list_all2_conv_all_nth)
    have "set (K i) \<inter> set (K j) = {}" if "i < ?n" "j < ?n" "i \<noteq> j" for i j using K(4) that by blast
    then show "sorted_wrt (\<lambda>as bs. set as \<inter> set bs = {}) ?ass"
      by (simp add: sorted_wrt_iff_nth_less)
    show "set (L a) \<inter> set (L b) = {}" if "a \<in> set (concat ?ass)" "b \<in> set (concat ?ass)" "a \<noteq> b" for a b
      using that L(2) unfolding S by (auto simp: conns_def)
    show "chain session_next (bindings t) (connections (the (sessions t a))) (L a)"
      if "a \<in> set (concat ?ass)" for a using that L(1) unfolding S by blast
  qed
  moreover have "(\<Union>a\<in>?S. set (L a)) = ?B"
  proof -
    have "b \<in> (\<Union>a\<in>?S. conns (bindings t) ?B a)" if "b \<in> ?B" for b
    proof -
      have "binding_ok ?S (the (bindings t b))" using rep that by (simp add: table_rep_def)
      then obtain a where "a \<in> ?S" "b \<in> conns (bindings t) ?B a"
        using \<open>b \<in> ?B\<close> unfolding binding_ok_def conns_def by blast
      then show ?thesis by (rule UN_I)
    qed
    then have "(\<Union>a\<in>?S. conns (bindings t) ?B a) = ?B"
      by (intro equalityI subsetI) (auto simp: conns_def)
    then show ?thesis using L(2) by simp
  qed
  ultimately show ?thesis
    using K(1) ix(2) unfolding S by (simp add: session_table_destroy_def erase_dom)
qed

subsection \<open>Properties\<close>

text \<open>The table as \<open>session_table_create\<close> leaves it, and one with a single session.\<close>

definition empty_table :: session_table_t where
  "empty_table = \<lparr>sessions = Map.empty, bindings = Map.empty,
     session_buckets = replicate SESSION_BUCKET_COUNT None, fd_buckets = replicate SESSION_BUCKET_COUNT None,
     bucket_count = SESSION_BUCKET_COUNT, session_count = 0\<rparr>"

lemma session_table_create_ok:
  "session_table_create True True True True = Some empty_table" "table_inv empty_table"
  "abs_table empty_table = \<lparr>live = Map.empty, bound = Map.empty\<rparr>"
proof -
  show "session_table_create True True True True = Some empty_table"
    by (simp add: session_table_create_def empty_table_def)
  have rep: "table_rep empty_table {} {}"
    by (simp add: table_rep_def empty_table_def session_ix.ix_empty fd_ix.ix_empty)
  then show "table_inv empty_table" by (simp add: table_inv_def empty_table_def)
  show "abs_table empty_table = \<lparr>live = Map.empty, bound = Map.empty\<rparr>"
  proof (rule session_spec.equality)
    show "live (abs_table empty_table) = live \<lparr>live = Map.empty, bound = Map.empty\<rparr>"
      using abs_live_None [OF rep] by auto
    show "bound (abs_table empty_table) = bound \<lparr>live = Map.empty, bound = Map.empty\<rparr>"
      using abs_bound_None [OF rep] by auto
  qed simp
qed

definition bob_key :: session_id_t where "bob_key = replicate 16 7"
definition bob_time :: timespec where "bob_time = \<lparr>tv_sec = 5, tv_nsec = 1\<rparr>"

definition bob_table :: session_table_t where
  "bob_table = (case session_create (Some empty_table) 4 1 (Some ''bob'') 10 (Some 100) (Some 200)
       [Random bob_key] [Some bob_time] of
     Some (_, _, Some t) \<Rightarrow> t | _ \<Rightarrow> empty_table)"

lemma bob_key_ok: "wf_session_id bob_key" "\<not> session_id_is_empty (Some bob_key)"
  by (simp_all add: bob_key_def wf_session_id_def SESSION_ID_SIZE_def session_id_is_empty_def
      session_id_equal_def empty_session_id_def replicate_eq_replicate)

lemma bob_pick: "spec_pick SESSION_ID_GENERATION_ATTEMPTS Map.empty [Random bob_key] [Some bob_time] = Some (bob_key, bob_time)"
proof -
  have "generate_session_id [Random bob_key] = Some (bob_key, [])"
    using bob_key_ok
    by (simp add: generate_session_id_def wf_session_id_def Let_def SESSION_ID_SIZE_def bob_key_def)
  then show ?thesis by (simp add: SESSION_ID_GENERATION_ATTEMPTS_def numeral_eq_Suc)
qed

lemma bob_table_ok:
  "session_create (Some empty_table) 4 1 (Some ''bob'') 10 (Some 100) (Some 200) [Random bob_key] [Some bob_time] =
     Some (0, Some bob_key, Some bob_table)"
  "table_inv bob_table"
  "abs_table bob_table = spec_create \<lparr>live = Map.empty, bound = Map.empty\<rparr> 4 1 ''bob'' 10 bob_key bob_time"
  using session_create_correct [where t = empty_table and a = 100 and c = 200 and fd = 4 and
      name = "''bob''" and rs = "[Random bob_key]" and clock = "[Some bob_time]" and uid = 1 and root = 10]
    session_table_create_ok bob_pick
  by (auto simp: bob_table_def empty_table_def)

lemma bob_fresh: "bindings bob_table 201 = None" and bob_fresh_session: "sessions bob_table 101 = None"
proof -
  have g: "generate_session_id [Random bob_key] = Some (bob_key, [])"
    using bob_key_ok
    by (simp add: generate_session_id_def wf_session_id_def Let_def SESSION_ID_SIZE_def bob_key_def)
  have "find_binding_locked (with_nodes empty_table 100 200) 4 = Some None"
    using with_nodes_unbound [OF session_table_create_ok(2)] session_table_create_ok(3)
    by (simp add: empty_table_def)
  moreover have "find_session_locked (with_nodes empty_table 100 200) bob_key = Some None"
    using hash_session_id_bound [OF bucket_count_pos, of bob_key]
    by (simp add: find_session_locked_def with_nodes_def empty_table_def mem_simps chain_find.simps)
  ultimately show "bindings bob_table 201 = None" "sessions bob_table 101 = None"
    using hash_session_id_bound [OF bucket_count_pos, of bob_key] hash_fd_bound [OF bucket_count_pos, of 4]
    by (simp_all add: bob_table_def session_create_def with_nodes_def [symmetric] mem_simps g
        SESSION_ID_GENERATION_ATTEMPTS_def numeral_eq_Suc session_create_locked_def)
       (simp_all add: with_nodes_def empty_table_def link_binding_def mem_simps)
qed

text \<open>
  The outcomes of each operation for all arguments: nothing happened, or the operation of the specification.
\<close>

definition session_created :: "session_table_t \<Rightarrow> int \<Rightarrow> u64 \<Rightarrow> string option \<Rightarrow> u64 \<Rightarrow> session_id_t option \<Rightarrow> session_table_t \<Rightarrow> bool" where
  "session_created t fd uid uname root out t' \<longleftrightarrow>
     (\<exists>name key now. uname = Some name \<and> out = Some key \<and> wf_session_id key \<and> 0 \<le> fd \<and> bound (abs_table t) fd = None \<and>
        live (abs_table t) key = None \<and> abs_table t' = spec_create (abs_table t) fd uid name root key now)"

lemma spec_pick_key: "spec_pick n m rs clock = Some (key, now) \<Longrightarrow> wf_session_id key \<and> m key = None"
proof (induction n arbitrary: rs clock)
  case (Suc n)
  then show ?case using generate_session_id_ok by (auto split: option.splits list.splits if_splits)
qed simp

lemma session_create_cases:
  assumes inv: "table_inv t" and fresh: "fresh_ptr (sessions t) sp" "fresh_ptr (bindings t) bp"
  shows "\<exists>r out t'. session_create (Some t) fd uid uname root sp bp rs clock = Some (r, out, Some t') \<and> table_inv t' \<and>
    (r = - 1 \<and> t' = t \<or> r = 0 \<and> session_created t fd uid uname root out t')"
proof (cases "uname = None \<or> fd < 0 \<or> uname = Some [] \<or> USERNAME_SIZE \<le> length (the uname)")
  case True
  then show ?thesis using inv by (auto simp: session_create_def split: option.splits)
next
  case False
  then obtain name where name: "uname = Some name" "\<not> fd < 0" "name \<noteq> []" "\<not> USERNAME_SIZE \<le> length name"
    by (cases uname) auto
  show ?thesis
  proof (cases "sp = None \<or> bp = None")
    case True
    have "session_create (Some t) fd uid uname root sp bp rs clock = Some (- 1, None, Some t)"
      using True name fresh
      by (cases sp; cases bp) (auto simp: session_create_def free_pair_def mem_simps fun_upd_idem)
    then show ?thesis using inv by blast
  next
    case False
    then obtain a c where ac: "sp = Some a" "bp = Some c" "sessions t a = None" "bindings t c = None"
      using fresh by (auto simp: fresh_ptr_def)
    note cr = session_create_correct [OF inv ac(3,4), where fd = fd and name = name and rs = rs and clock = clock
        and uid = uid and root = root]
    show ?thesis
    proof (cases "bound (abs_table t) fd = None \<and> spec_pick SESSION_ID_GENERATION_ATTEMPTS (live (abs_table t)) rs clock \<noteq> None")
      case True
      then obtain key now where k: "spec_pick SESSION_ID_GENERATION_ATTEMPTS (live (abs_table t)) rs clock = Some (key, now)" by auto
      obtain t' where "session_create (Some t) fd uid (Some name) root (Some a) (Some c) rs clock = Some (0, Some key, Some t')" "table_inv t'"
          "abs_table t' = spec_create (abs_table t) fd uid name root key now"
        using cr name True k by auto
      then show ?thesis using spec_pick_key [OF k] True name ac(1,2) by (auto simp: session_created_def)
    next
      case False
      then have "session_create (Some t) fd uid (Some name) root (Some a) (Some c) rs clock = Some (- 1, None, Some t)"
        using cr name by (auto split: option.splits)
      then show ?thesis using inv name ac(1,2) by simp
    qed
  qed
qed

lemma session_authorize_cases:
  assumes inv: "table_inv t" and key: "wf_session_id key" and fresh: "fresh_ptr (bindings t) bp"
  shows "\<exists>r ctx t'. session_authorize (Some t) fd key clock bp = Some (r, ctx, Some t') \<and> table_inv t' \<and>
    (r = - 1 \<and> t' = t \<or>
     r = 0 \<and> 0 \<le> fd \<and> (\<exists>now c. ctx = Some c \<and> spec_authorize (abs_table t) fd key now = Some (c, abs_table t')))"
proof (cases "clock = None \<or> fd < 0 \<or> session_id_is_empty (Some key)")
  case True
  then show ?thesis using inv by (auto simp: session_authorize_def split: option.splits)
next
  case False
  then obtain now where now: "clock = Some now" "0 \<le> fd" "\<not> session_id_is_empty (Some key)" by auto
  show ?thesis
  proof (cases "spec_authorize (abs_table t) fd key now")
    case None
    then show ?thesis using authorize_none [OF inv key None] inv now(1) by blast
  next
    case (Some p)
    then obtain ctx \<sigma> where p: "spec_authorize (abs_table t) fd key now = Some (ctx, \<sigma>)" by (cases p) auto
    show ?thesis
    proof (cases "bp = None \<and> bound (abs_table t) fd = None")
      case True
      have "session_authorize_locked t fd key now bp = Some (- 1, None, t)"
        using inv_rep [OF inv] key
      proof (cases rule: find_session_cases)
        case found
        have "find_binding_locked t fd = Some None"
          using True abs_bound_None [OF inv_rep [OF inv]] find_binding_none [OF inv_rep [OF inv]] by blast
        then show ?thesis using found(4) True by (simp add: session_authorize_locked_def)
      qed (simp add: session_authorize_locked_def)
      then show ?thesis using inv now by (simp add: session_authorize_def)
    next
      case False
      then show ?thesis using authorize_some [OF inv key now(3,2) fresh _ p] now(1,2) p by auto
    qed
  qed
qed

lemma session_update_cwd_cases:
  assumes inv: "table_inv t" and key: "wf_session_id key"
  shows "\<exists>r t'. session_update_cwd (Some t) fd key new_cwd_id path clock = Some (r, Some t') \<and> table_inv t' \<and>
    (r = - 1 \<and> t' = t \<or>
     r = 0 \<and> (\<exists>p now. path = Some p \<and> spec_update_cwd (abs_table t) fd key new_cwd_id p now = Some (abs_table t')))"
proof (cases "path = None \<or> clock = None \<or> fd < 0 \<or> session_id_is_empty (Some key) \<or>
    cchar (the path) 0 \<noteq> CHR ''/'' \<or> PATH_MAX \<le> length (the path)")
  case True
  then show ?thesis using inv by (auto simp: session_update_cwd_def split: option.splits)
next
  case False
  then obtain p now where "path = Some p" "clock = Some now" "0 \<le> fd" "\<not> session_id_is_empty (Some key)"
    "cchar p 0 = CHR ''/''" "length p < PATH_MAX" by auto
  then show ?thesis
    using update_cwd_correct [OF inv key, of fd p new_cwd_id now] inv by (auto split: option.splits)
qed

lemma session_detach_safe:
  "table_inv t \<Longrightarrow> \<exists>t'. session_detach_fd (Some t) fd = Some (Some t') \<and> table_inv t'"
  using session_detach_correct [of t fd] by (cases "fd < 0") (auto simp: session_detach_fd_def)

lemma session_ops_return:
  assumes "table_inv t" "wf_session_id key" "fresh_ptr (sessions t) sp" "fresh_ptr (bindings t) bp"
  shows "\<exists>r out t'. session_create (Some t) fd uid uname root sp bp rs clocks = Some (r, out, Some t') \<and> table_inv t'"
    "\<exists>r ctx t'. session_authorize (Some t) fd key clock bp = Some (r, ctx, Some t') \<and> table_inv t'"
    "\<exists>r t'. session_update_cwd (Some t) fd key new_cwd_id path clock = Some (r, Some t') \<and> table_inv t'"
  using session_create_cases [OF assms(1,3,4)] session_authorize_cases [OF assms(1,2,4)] session_update_cwd_cases [OF assms(1,2)] by blast+

text \<open>
  C17. The session table is memory safe and consistent: on a table that satisfies its invariant
  (both hash indexes hold exactly the allocated nodes, every binding is on the list of a live
  session, the counters are right), creating, authorizing, changing directory and detaching return
  without touching memory they must not touch, for every argument and every answer of the
  allocator, the clock and the random source, and leave a table that satisfies the invariant.
\<close>

theorem session_ops_safe:
  assumes "table_inv t" "wf_session_id key" "fresh_ptr (sessions t) sp" "fresh_ptr (bindings t) bp"
  shows "(\<exists>r out t'. session_create (Some t) fd uid uname root sp bp rs clocks = Some (r, out, Some t') \<and> table_inv t') \<and>
    (\<exists>r ctx t'. session_authorize (Some t) fd key clock bp = Some (r, ctx, Some t') \<and> table_inv t') \<and>
    (\<exists>r t'. session_update_cwd (Some t) fd key new_cwd_id path clock = Some (r, Some t') \<and> table_inv t') \<and>
    (\<exists>t'. session_detach_fd (Some t) fd = Some (Some t') \<and> table_inv t')"
  by (intro conjI session_ops_return [OF assms] session_detach_safe [OF assms(1)])

theorem session_ops_safe_witness:
  "\<exists>t'. session_detach_fd (Some bob_table) 4 = Some (Some t') \<and> table_inv t'"
  using session_ops_safe [of bob_table bob_key None None 4] bob_table_ok(2) bob_key_ok(1)
  by (simp add: fresh_ptr_def)

text \<open>
  C18. \<open>session_authorize\<close> refines the map lookup: it returns 0 exactly when the session ID is live
  and the descriptor is unbound or already bound to it (and a needed binding can be allocated);
  then it binds the descriptor, refreshes the activity time and returns the session's user and
  directory. In every other case it returns -1 and leaves the table as it was.
\<close>

theorem session_authorize_refines:
  assumes "table_inv t" "wf_session_id key" "\<not> session_id_is_empty (Some key)" "0 \<le> fd"
    and "fresh_ptr (bindings t) bp" "bp \<noteq> None \<or> bound (abs_table t) fd \<noteq> None"
  shows "case spec_authorize (abs_table t) fd key now of
      None \<Rightarrow> session_authorize (Some t) fd key (Some now) bp = Some (- 1, None, Some t)
    | Some (ctx, \<sigma>) \<Rightarrow> \<exists>t'. session_authorize (Some t) fd key (Some now) bp = Some (0, Some ctx, Some t') \<and>
        table_inv t' \<and> abs_table t' = \<sigma>"
  using authorize_none [OF assms(1,2)] authorize_some [OF assms] by (auto split: option.splits)

theorem session_authorize_refines_witness:
  "\<exists>t'. session_authorize (Some bob_table) 5 bob_key (Some bob_time) (Some 201) =
      Some (0, Some \<lparr>ctx_user_id = 1, ctx_cwd_id = 10, ctx_username = ''bob'', ctx_cwd = ''/''\<rparr>, Some t') \<and>
    table_inv t' \<and> bound (abs_table t') = [4 \<mapsto> bob_key, 5 \<mapsto> bob_key]"
  using session_authorize_refines [of bob_table bob_key 5 "Some 201" bob_time] bob_table_ok bob_key_ok bob_fresh
  by (auto simp: spec_authorize_def spec_create_def spec_context_def fresh_ptr_def)

text \<open>
  C19. \<open>session_create\<close> on a descriptor without a session settles on the first of at most eight
  random IDs that is not live, adds a session of that ID with the given user, working directory
  \<open>/\<close> and the descriptor as its only connection, and returns 0; when the descriptor has a session,
  or no such ID is found, it returns -1, frees what it allocated and leaves the table as it was.
\<close>

theorem session_create_refines:
  assumes "table_inv t" "sessions t a = None" "bindings t c = None" "0 \<le> fd"
    and "name \<noteq> []" "length name < USERNAME_SIZE"
  shows "case (bound (abs_table t) fd, spec_pick SESSION_ID_GENERATION_ATTEMPTS (live (abs_table t)) rs clock) of
      (None, Some (key, now)) \<Rightarrow>
        \<exists>t'. session_create (Some t) fd uid (Some name) root (Some a) (Some c) rs clock =
            Some (0, Some key, Some t') \<and> table_inv t' \<and>
          abs_table t' = spec_create (abs_table t) fd uid name root key now
    | _ \<Rightarrow> session_create (Some t) fd uid (Some name) root (Some a) (Some c) rs clock =
        Some (- 1, None, Some t)"
  by (rule session_create_correct [OF assms])

theorem session_create_refines_witness:
  "\<exists>t'. session_create (Some empty_table) 4 1 (Some ''bob'') 10 (Some 100) (Some 200) [Random bob_key]
      [Some bob_time] = Some (0, Some bob_key, Some t') \<and> table_inv t' \<and>
    abs_table t' = spec_create (abs_table empty_table) 4 1 ''bob'' 10 bob_key bob_time"
  using session_create_refines [where t = empty_table and a = 100 and c = 200 and fd = 4 and
      name = "''bob''" and rs = "[Random bob_key]" and clock = "[Some bob_time]" and uid = 1 and root = 10]
    session_table_create_ok bob_pick
  by (auto simp: empty_table_def)

text \<open>
  \<open>session_update_cwd\<close> changes the directory (and the activity time) of the session the
  descriptor is bound to, when that is the session of the given ID, and of no other session;
  otherwise it returns -1 and leaves the table as it was.
\<close>

theorem session_update_cwd_refines:
  assumes "table_inv t" "wf_session_id key" "\<not> session_id_is_empty (Some key)" "0 \<le> fd"
    and "cchar path 0 = CHR ''/''" "length path < PATH_MAX"
  shows "case spec_update_cwd (abs_table t) fd key new_cwd_id path now of
      None \<Rightarrow> session_update_cwd (Some t) fd key new_cwd_id (Some path) (Some now) = Some (- 1, Some t)
    | Some \<sigma> \<Rightarrow> \<exists>t'. session_update_cwd (Some t) fd key new_cwd_id (Some path) (Some now) =
          Some (0, Some t') \<and> table_inv t' \<and> abs_table t' = \<sigma>"
  by (rule update_cwd_correct [OF assms])

theorem session_update_cwd_refines_witness:
  "\<exists>t'. session_update_cwd (Some bob_table) 4 bob_key 11 (Some ''/docs'') (Some bob_time) = Some (0, Some t') \<and>
    table_inv t' \<and> map_option i_cwd (live (abs_table t') bob_key) = Some ''/docs''"
  using session_update_cwd_refines [of bob_table bob_key 4 "''/docs''" 11 bob_time] bob_table_ok bob_key_ok
  by (auto simp: spec_update_cwd_def spec_create_def cchar_def)

text \<open>
  C20. \<open>session_detach_fd\<close> removes the descriptor's binding, and with it the session if that was the
  session's last connection; every other session and binding stays.
\<close>

theorem session_detach_refines:
  assumes "table_inv t" "0 \<le> fd"
  shows "\<exists>t'. session_detach_fd (Some t) fd = Some (Some t') \<and> table_inv t' \<and>
    abs_table t' = spec_detach (abs_table t) fd"
  by (rule session_detach_correct [OF assms])

theorem session_detach_refines_witness:
  "\<exists>t'. session_detach_fd (Some bob_table) 4 = Some (Some t') \<and> table_inv t' \<and>
    abs_table t' = \<lparr>live = Map.empty, bound = Map.empty\<rparr>"
  using session_detach_refines [of bob_table 4] bob_table_ok by (simp add: spec_detach_def spec_create_def)

text \<open>
  C23. \<open>session_table_destroy\<close> frees every session and every binding exactly once: it never frees or
  follows a dangling pointer, and nothing is left allocated.
\<close>

theorem session_table_destroy_frees_all:
  assumes "table_inv t"
  shows "session_table_destroy t = Some (Map.empty, Map.empty)"
  by (rule session_table_destroy_ok [OF assms])

theorem session_table_destroy_frees_all_witness:
  "session_table_destroy bob_table = Some (Map.empty, Map.empty)"
  by (rule session_table_destroy_frees_all [OF bob_table_ok(2)])

text \<open>
  C21. Access ends with the last connection: once every descriptor bound to a session is detached
  (here the last one, \<open>fd\<close>), its ID authorizes no descriptor any more, and the table stays as it is.
\<close>

theorem session_revoked_after_last_detach:
  assumes inv: "table_inv t" and key: "wf_session_id key" and fd: "0 \<le> fd"
    and last: "bound (abs_table t) fd = Some key" "\<And>f. f \<noteq> fd \<Longrightarrow> bound (abs_table t) f \<noteq> Some key"
  shows "\<exists>t'. session_detach_fd (Some t) fd = Some (Some t') \<and>
    session_authorize (Some t') fd' key (Some now) bp = Some (- 1, None, Some t')"
proof -
  obtain t' where t': "session_detach_fd (Some t) fd = Some (Some t')" "table_inv t'"
    "abs_table t' = spec_detach (abs_table t) fd" using session_detach_correct [OF inv fd] by blast
  have "key \<notin> ran ((bound (abs_table t))(fd := None))" using last(2) by (auto simp: ran_def)
  then have "spec_authorize (abs_table t') fd' key now = None"
    using last(1) by (simp add: t'(3) spec_detach_def spec_authorize_def)
  then show ?thesis using authorize_none [OF t'(2) key] t'(1) by blast
qed

theorem session_revoked_after_last_detach_witness:
  "\<exists>t'. session_detach_fd (Some bob_table) 4 = Some (Some t') \<and>
    session_authorize (Some t') 9 bob_key (Some bob_time) (Some 300) = Some (- 1, None, Some t')"
  using session_revoked_after_last_detach [of bob_table bob_key 4 9 bob_time "Some 300"] bob_table_ok bob_key_ok
  by (simp add: spec_create_def)

text \<open>
  C22. Connections cannot change sessions: a descriptor bound to one session is refused for every
  other session ID, live or not, and cannot open a second session; the table stays as it was.
\<close>

theorem session_binding_exclusive:
  assumes inv: "table_inv t" and key: "wf_session_id key" and fd: "0 \<le> fd"
    and bnd: "bound (abs_table t) fd = Some key'" "key' \<noteq> key"
    and fresh: "sessions t a = None" "bindings t c = None"
    and name: "name \<noteq> []" "length name < USERNAME_SIZE"
  shows "session_authorize (Some t) fd key (Some now) bp = Some (- 1, None, Some t) \<and>
    session_create (Some t) fd uid (Some name) root (Some a) (Some c) rs clock = Some (- 1, None, Some t)"
proof
  have "spec_authorize (abs_table t) fd key now = None"
    using bnd by (simp add: spec_authorize_def split: option.splits)
  then show "session_authorize (Some t) fd key (Some now) bp = Some (- 1, None, Some t)"
    by (rule authorize_none [OF inv key])
  show "session_create (Some t) fd uid (Some name) root (Some a) (Some c) rs clock = Some (- 1, None, Some t)"
    using session_create_correct [OF inv fresh fd name, where rs = rs and clock = clock and uid = uid and root = root]
      bnd(1) by simp
qed

theorem session_binding_exclusive_witness:
  "session_authorize (Some bob_table) 4 (replicate 16 9) (Some bob_time) None = Some (- 1, None, Some bob_table)"
  using session_binding_exclusive [of bob_table "replicate 16 9" 4 bob_key 101 201 "''eve''"] bob_table_ok bob_fresh
  by (simp add: spec_create_def wf_session_id_def SESSION_ID_SIZE_def bob_key_def bob_fresh_session)

end
