(* ===== verification/Handler_Basic_Correct.thy ===== *)
theory Handler_Basic_Correct
  imports Storage Session_Correct
begin

text \<open>
  Correctness of the command handlers: every request is answered with one packet, and the database, the session table
  and the stored files change as the command says, and keep their invariants.
\<close>

subsection \<open>Answers\<close>

text \<open>The packets \<open>ps\<close> went to the client: all their bytes when the connection does not fail.\<close>

definition replied :: "endian \<Rightarrow> int \<Rightarrow> packet_t list \<Rightarrow> 'w server_t \<Rightarrow> 'w server_t \<Rightarrow> bool" where
  "replied e fd ps s s' \<longleftrightarrow> s' = s\<lparr>s_socks := (s_socks s)(fd := s_socks s' fd)\<rparr> \<and> sending (s_socks s fd) (s_socks s' fd) \<and>
     (no_fail (tx_io (s_socks s fd)) \<longrightarrow> tx (s_socks s' fd) = tx (s_socks s fd) @ frames ps)"

lemma packet_init_wire:
  assumes "wf_session_id key" "length bs \<le> 65536" "pl = Some bs \<and> plen = word_of_nat (length bs) \<or> pl = None \<and> plen = 0 \<and> bs = []"
  obtains p where "packet_init (Some zero_packet) type st (Some key) pl plen = (0, Some p)" "wire e p = frame (mk_packet type st key bs)" "sendable p"
proof -
  let ?p = "\<lparr>header = \<lparr>ptype = type, status = st, payload_len = plen, session_id = key\<rparr>, payload = pl, owns_payload = False\<rparr>"
  have u: "unat plen = length bs" "plen = word_of_nat (length bs)" using assms(2,3) by (auto simp: unat_of_nat)
  have le: "plen \<le> MAX_PACKET_PAYLOAD" using u(1) assms(2) by (simp add: word_le_nat_alt MAX_PACKET_PAYLOAD_def)
  have pos: "plen \<noteq> 0 \<Longrightarrow> pl \<noteq> None" using assms(3) by auto
  have init: "packet_init (Some zero_packet) type st (Some key) pl plen = (0, Some ?p)"
    using le pos by (auto simp: packet_init_def not_less word_gt_0)
  have body: "take (unat plen) (case pl of None \<Rightarrow> [] | Some bs \<Rightarrow> bs) = bs" using assms(3) u(1) by auto
  have "wire e ?p = wire e (mk_packet type st key bs)" using u body by (auto simp: wire_def mk_packet_def)
  then have "wire e ?p = frame (mk_packet type st key bs)" using wire_frame [OF wf_mk_packet [OF assms(1,2)]] by simp
  moreover have "sendable ?p" using le pos by (simp add: sendable_def word_gt_0)
  ultimately show thesis using that init by blast
qed

lemma send_response_replied:
  assumes "wf_session_id key" "length bs \<le> 65536" "pl = Some bs \<and> plen = word_of_nat (length bs) \<or> pl = None \<and> plen = 0 \<and> bs = []"
  shows "replied e (t_fd task) [mk_packet type st key bs] s (snd (send_response_with_session_id e task type st key pl plen s))"
proof -
  obtain p where p: "packet_init (Some zero_packet) type st (Some key) pl plen = (0, Some p)" "wire e p = frame (mk_packet type st key bs)" "sendable p"
    by (rule packet_init_wire [OF assms])
  obtain r k where k: "protocol_send_packet e (Some p) (s_socks s (t_fd task)) = (r, k)" by (metis prod.collapse)
  note sp = send_packet_spec [OF k]
  have "r = 0" if "no_fail (tx_io (s_socks s (t_fd task)))" using sp(4) p(3) that by auto
  then show ?thesis using p k sp by (auto simp: replied_def send_response_with_session_id_def)
qed

lemma respond_replied: "wf_session_id (session_id (t_header task)) \<Longrightarrow>
    replied e (t_fd task) [mk_packet type st (session_id (t_header task)) []] s (respond e task type st s)"
  unfolding respond_def send_response_def by (rule send_response_replied) simp_all

lemma respond_str_replied: "wf_session_id (session_id (t_header task)) \<Longrightarrow> length str \<le> 65536 \<Longrightarrow>
    replied e (t_fd task) [mk_packet type st (session_id (t_header task)) (bytes_of str)] s (respond_str e task type st str s)"
  unfolding respond_str_def send_response_def by (rule send_response_replied) simp_all

lemma replied_append:
  assumes "replied e fd ps s s1" "replied e fd qs s1 s2"
  shows "replied e fd (ps @ qs) s s2"
proof -
  obtain a b where a: "s1 = s\<lparr>s_socks := (s_socks s)(fd := a)\<rparr>" and b: "s2 = s1\<lparr>s_socks := (s_socks s1)(fd := b)\<rparr>" "b = s_socks s2 fd"
    using assms unfolding replied_def by blast
  have "s2 = s\<lparr>s_socks := (s_socks s)(fd := b)\<rparr>" using b(1) unfolding a by simp
  then have "s2 = s\<lparr>s_socks := (s_socks s)(fd := s_socks s2 fd)\<rparr>" using b(2) by simp
  moreover have "sending (s_socks s fd) (s_socks s2 fd)" using assms sending_trans by (auto simp: replied_def)
  moreover have "tx (s_socks s2 fd) = tx (s_socks s fd) @ frames (ps @ qs)" if "no_fail (tx_io (s_socks s fd))"
    using assms that sendingD(4) [of "s_socks s fd" "s_socks s1 fd"] by (simp add: replied_def frames_def)
  ultimately show ?thesis by (simp add: replied_def)
qed

subsection \<open>Handled requests\<close>

text \<open>
  Everything but the database, the sessions and the files is as before; then \<open>n\<close> packets were sent. \<open>R\<close> relates
  these packets to the state in front of the answer.
\<close>

definition quiet :: "'w server_t \<Rightarrow> 'w server_t \<Rightarrow> bool" where
  "quiet s s' \<longleftrightarrow> s_pool s' = s_pool s \<and> s_wheel s' = s_wheel s \<and> s_socks s' = s_socks s \<and> s_epoll s' = s_epoll s \<and> s_open s' = s_open s"

definition handled :: "(packet_t list \<Rightarrow> 'w server_t \<Rightarrow> bool) \<Rightarrow> endian \<Rightarrow> int \<Rightarrow> nat \<Rightarrow> 'w server_t \<Rightarrow> 'w server_t \<Rightarrow> bool" where
  "handled R e fd n s s' \<longleftrightarrow> (\<exists>s1 ps. R ps s1 \<and> quiet s s1 \<and> replied e fd ps s1 s' \<and> length ps = n \<and> (\<forall>p \<in> set ps. wf_packet p))"

text \<open>The request was acknowledged.\<close>

definition acked :: "packet_t list \<Rightarrow> bool" where
  "acked ps \<longleftrightarrow> (\<exists>p \<in> set ps. ptype (header p) = CMD_ACK)"

lemma acked_simps [simp]: "acked [mk_packet type st key bs] \<longleftrightarrow> type = CMD_ACK" "acked (p # q # ps) \<longleftrightarrow> acked [p] \<or> acked (q # ps)"
  by (simp_all add: acked_def mk_packet_def)

abbreviation ack :: "packet_task_t \<Rightarrow> string \<Rightarrow> packet_t" where
  "ack task str \<equiv> mk_packet CMD_ACK STATUS_OK (session_id (t_header task)) (bytes_of str)"

lemma handled_respond:
  assumes "R [mk_packet type st (session_id (t_header task)) []] s1" "quiet s s1" "wf_session_id (session_id (t_header task))"
  shows "handled R e (t_fd task) (Suc 0) s (respond e task type st s1)"
  unfolding handled_def
  using assms respond_replied [OF assms(3), of e type st s1] wf_mk_packet [OF assms(3), of "[]" type st]
  by (intro exI [of _ s1] exI [of _ "[mk_packet type st (session_id (t_header task)) []]"]) simp

lemma handled_respond_str:
  assumes "R [mk_packet type st (session_id (t_header task)) (bytes_of str)] s1" "quiet s s1" "wf_session_id (session_id (t_header task))" "length str \<le> 65536"
  shows "handled R e (t_fd task) (Suc 0) s (respond_str e task type st str s1)"
  unfolding handled_def
  using assms respond_str_replied [OF assms(3,4), of e type st s1] wf_mk_packet [OF assms(3), of "bytes_of str" type st]
  by (intro exI [of _ s1] exI [of _ "[mk_packet type st (session_id (t_header task)) (bytes_of str)]"]) simp

lemma handled_mono: "handled R e fd n s s' \<Longrightarrow> (\<And>ps s1. R ps s1 \<Longrightarrow> R' ps s1) \<Longrightarrow> handled R' e fd n s s'"
  unfolding handled_def by blast

text \<open>What a handler may rely on.\<close>

definition basic_ready :: "'w mysql \<Rightarrow> (string \<Rightarrow> string) \<Rightarrow> ('w \<Rightarrow> database) \<Rightarrow> (byte list \<Rightarrow> byte list) \<Rightarrow> packet_task_t \<Rightarrow> 'w server_t \<Rightarrow> bool" where
  "basic_ready M coll db sha256 task s \<longleftrightarrow> data_ok M coll db sha256 (t_storage_root task) s \<and> room (db (s_world s)) \<and>
     wf_session_id (session_id (t_header task)) \<and> (\<exists>t. s_table s = Some t \<and> table_inv t) \<and>
     length (t_storage_root task) < PATH_MAX \<and> length (ctx_cwd (t_session task)) < PATH_MAX"

lemma basic_readyD:
  assumes "basic_ready M coll db sha256 task s"
  shows "data_ok M coll db sha256 (t_storage_root task) s" "room (db (s_world s))" "wf_session_id (session_id (t_header task))"
    "length (ctx_cwd (t_session task)) < PATH_MAX" "length (t_storage_root task) < PATH_MAX"
  using assms by (simp_all add: basic_ready_def)

lemma basic_ready_world:
  "basic_ready M coll db sha256 task s \<Longrightarrow> db w' = db (s_world s) \<Longrightarrow> basic_ready M coll db sha256 task (s\<lparr>s_world := w'\<rparr>)"
  by (simp add: basic_ready_def data_ok_def)

text \<open>The row that the user's path names.\<close>

definition node_at :: "(string \<Rightarrow> string) \<Rightarrow> tables \<Rightarrow> nat \<Rightarrow> string \<Rightarrow> nat \<Rightarrow> nat \<Rightarrow> bool" where
  "node_at coll t u p type i \<longleftrightarrow> (\<exists>r. find_node coll t u p = Some r \<and> pr_type r = type \<and> pr_id r = i)"

lemma node_at_dir: "node_at coll t u p 1 i \<Longrightarrow> is_dir t u i"
  by (auto simp: node_at_def find_node_def node_is_def is_dir_def find_Some_iff)

lemma basic_node:
  assumes ready: "basic_ready M coll db sha256 task s" and p: "good_path p"
  obtains ret pid w' where "dao_path_get_node_id M u p (s_pool s) (s_world s) = Some (ret, pid, s_pool s, w')" "db w' = db (s_world s)"
    "ret = DAO_PATH_IS_DIR \<longrightarrow> (\<exists>i. pid = Some i \<and> node_at coll (tabs (db (s_world s))) (unat u) p 1 (unat i))"
    "ret = DAO_PATH_IS_FILE \<longrightarrow> (\<exists>i. pid = Some i \<and> node_at coll (tabs (db (s_world s))) (unat u) p 0 (unat i))"
proof -
  note r = basic_readyD [OF ready]
  let ?t = "tabs (db (s_world s))"
  obtain ret pid w' where n: "dao_path_get_node_id M u p (s_pool s) (s_world s) = Some (ret, pid, s_pool s, w')" "db w' = db (s_world s)"
    "ret = - 1 \<or> (case find_node coll ?t (unat u) p of
        None \<Rightarrow> ret = DAO_PATH_NOT_FOUND \<and> pid = None | Some r \<Rightarrow> ret = int (pr_type r) \<and> pid = Some (word_of_nat (pr_id r)))"
    by (rule good_path_node [OF r(1,2) p])
  have "unat (word_of_nat (pr_id q) :: u64) = pr_id q" if "find_node coll ?t (unat u) p = Some q" for q
    using find_node_dir(2) [OF data_okD(8) [OF r(1,2)] that] by (rule unat_of_nat64)
  then have "ret = DAO_PATH_IS_DIR \<longrightarrow> (\<exists>i. pid = Some i \<and> node_at coll ?t (unat u) p 1 (unat i))"
      "ret = DAO_PATH_IS_FILE \<longrightarrow> (\<exists>i. pid = Some i \<and> node_at coll ?t (unat u) p 0 (unat i))"
    using n(3) by (auto simp: node_at_def split: option.splits)
  then show thesis using that n by blast
qed

subsection \<open>Directories\<close>

lemma last_name_good: "good_path p \<Longrightarrow> last_name p = Some name \<Longrightarrow> good_path name \<and> length name < NAME_MAX"
  by (auto simp: last_name_def Let_def good_path_def plain_parts strncpy_def split: option.splits if_splits dest!: in_set_takeD)

lemma split_target_good:
  assumes "good_path p" "split_target p = Some (parent, name)"
  shows "good_path parent" "good_path name" "length name < NAME_MAX"
proof -
  obtain i where "last_name p = Some name" "parent = (if i = 0 then take 1 p else take i p)"
    using assms(2) by (auto simp: split_target_def split: option.splits bind_splits)
  then show "good_path parent" "good_path name" "length name < NAME_MAX"
    using assms(1) last_name_good good_path_parts by auto
qed

text \<open>A new directory: one row behind the others, whose parent is a directory of the user.\<close>

definition dir_added :: "(string \<Rightarrow> string) \<Rightarrow> database \<Rightarrow> tables \<Rightarrow> nat \<Rightarrow> string \<Rightarrow> bool" where
  "dir_added coll d t u p \<longleftrightarrow> \<not> (\<exists>q \<in> set (paths (tabs d)). node_is coll u p q) \<and>
     (\<exists>parent name. is_dir (tabs d) u parent \<and> t = (tabs d)\<lparr>paths := paths (tabs d) @ [dir_row (next_path d) u p parent name]\<rparr>)"

text \<open>
  The state in front of the answer: the invariant holds, and the tables and the answer are as \<open>E\<close> says, or nothing was
  changed and the request is not acknowledged.
\<close>

definition settled ::
  "'w mysql \<Rightarrow> (string \<Rightarrow> string) \<Rightarrow> ('w \<Rightarrow> database) \<Rightarrow> (byte list \<Rightarrow> byte list) \<Rightarrow> packet_task_t \<Rightarrow> (packet_t list \<Rightarrow> tables \<Rightarrow> bool) \<Rightarrow>
    'w server_t \<Rightarrow> packet_t list \<Rightarrow> 'w server_t \<Rightarrow> bool" where
  "settled M coll db sha256 task E s ps s' \<longleftrightarrow> data_ok M coll db sha256 (t_storage_root task) s' \<and> s_table s' = s_table s \<and>
     (E ps (tabs (db (s_world s'))) \<or> \<not> acked ps \<and> tabs (db (s_world s')) = tabs (db (s_world s)))"

lemma settled_same:
  assumes "basic_ready M coll db sha256 task s" "db w' = db (s_world s)" "\<not> acked ps"
  shows "settled M coll db sha256 task E s ps (s\<lparr>s_world := w'\<rparr>)" "settled M coll db sha256 task E s ps s"
  using assms by (simp_all add: settled_def basic_ready_def data_ok_def)

text \<open>The path that a command's argument names.\<close>

definition names_path :: "packet_task_t \<Rightarrow> nat \<Rightarrow> string \<Rightarrow> bool" where
  "names_path task n p \<longleftrightarrow> (\<exists>str. copy_payload task n False = Some str \<and> p = path_of (resolve (ctx_cwd (t_session task)) str))"

lemma quiet_simps [simp]: "quiet s s" "quiet s (s'\<lparr>s_world := w\<rparr>) = quiet s s'" "quiet s (s'\<lparr>s_table := t\<rparr>) = quiet s s'"
    "quiet s (s'\<lparr>s_kern := k\<rparr>) = quiet s s'"
  by (simp_all add: quiet_def)

lemma dir_added_ok:
  assumes "dir_added coll d t u p" "tree_ok (tabs d)"
  shows "tree_ok t" "hashes t = hashes (tabs d)"
proof -
  obtain parent name where r: "is_dir (tabs d) u parent" "t = (tabs d)\<lparr>paths := paths (tabs d) @ [dir_row (next_path d) u p parent name]\<rparr>"
    using assms(1) by (auto simp: dir_added_def)
  show "tree_ok t" by (rule tree_ok_add [OF assms(2), of t "dir_row (next_path d) u p parent name"]) (use r in \<open>simp_all add: dir_row_def\<close>)
  show "hashes t = hashes (tabs d)" using r(2) by (simp add: hashes_def)
qed

lemma basic_insert_dir:
  assumes ready: "basic_ready M coll db sha256 task s" and p: "good_path p" "good_path name" and dir: "is_dir (tabs (db (s_world s))) (unat u) (unat parent)"
  obtains ret w' where "dao_path_insert_dir M u p parent name (s_pool s) (s_world s) = Some (ret, s_pool s, w')"
    "\<forall>ps. (acked ps \<longrightarrow> ret \<noteq> 1 \<and> \<not> ret < 0) \<longrightarrow> settled M coll db sha256 task (\<lambda>_ t. dir_added coll (db (s_world s)) t (unat u) p) s ps (s\<lparr>s_world := w'\<rparr>)"
proof -
  note r = basic_readyD [OF ready]
  note d = data_okD [OF r(1,2)]
  have len: "plain p" "plain name" "length p + length name \<le> 850" using p by (auto simp: good_path_def)
  let ?d = "db (s_world s)"
  obtain ret w' where x: "dao_path_insert_dir M u p parent name (s_pool s) (s_world s) = Some (ret, s_pool s, w')" "db_ok coll (db w')"
    "ret = 0 \<and> tabs (db w') = (tabs ?d)\<lparr>paths := paths (tabs ?d) @ [dir_row (next_path ?d) (unat u) p (unat parent) name]\<rparr> \<and>
       \<not> (\<exists>q \<in> set (paths (tabs ?d)). node_is coll (unat u) p q) \<or>
     ret = 1 \<and> (\<exists>q \<in> set (paths (tabs ?d)). node_is coll (unat u) p q) \<and> db w' = ?d \<or> ret = - 1 \<and> db w' = ?d"
    by (rule dao_path_insert_dir_spec [OF d(1) len])
  have "dir_added coll ?d (tabs (db w')) (unat u) p \<or> (ret = 1 \<or> ret < 0) \<and> tabs (db w') = tabs ?d" using x(3) dir by (auto simp: dir_added_def)
  then have "\<forall>ps. (acked ps \<longrightarrow> ret \<noteq> 1 \<and> \<not> ret < 0) \<longrightarrow> settled M coll db sha256 task (\<lambda>_ t. dir_added coll ?d t (unat u) p) s ps (s\<lparr>s_world := w'\<rparr>)"
    using r(1) x(2) d(6,9) dir_added_ok [of coll ?d "tabs (db w')" "unat u" p] by (auto simp: settled_def data_ok_def)
  then show thesis using that x(1) by blast
qed

definition mkdir_effect :: "(string \<Rightarrow> string) \<Rightarrow> packet_task_t \<Rightarrow> database \<Rightarrow> packet_t list \<Rightarrow> tables \<Rightarrow> bool" where
  "mkdir_effect coll task d ps t \<longleftrightarrow> (\<exists>p. names_path task NAME_MAX p \<and> dir_added coll d t (unat (ctx_user_id (t_session task))) p)"

lemma mkdir_insert_spec:
  assumes ready: "basic_ready M coll db sha256 task s" and p: "good_path p" "good_path parent" "good_path name" "names_path task NAME_MAX p"
  defines "R \<equiv> settled M coll db sha256 task (mkdir_effect coll task (db (s_world s))) s"
  shows "\<exists>s'. mkdir_insert M e task p parent name s = Some s' \<and> handled R e (t_fd task) (Suc 0) s s'"
proof -
  note r = basic_readyD [OF ready]
  let ?u = "ctx_user_id (t_session task)"
  obtain ret pid w1 where q: "dao_path_get_node_id M ?u parent (s_pool s) (s_world s) = Some (ret, pid, s_pool s, w1)" "db w1 = db (s_world s)"
    "ret = DAO_PATH_IS_DIR \<longrightarrow> (\<exists>i. pid = Some i \<and> node_at coll (tabs (db (s_world s))) (unat ?u) parent 1 (unat i))"
    by (rule basic_node [OF ready p(2), of ?u])
  note ready1 = basic_ready_world [OF ready q(2)]
  have R1: "\<not> acked ps \<Longrightarrow> R ps (s\<lparr>s_world := w1\<rparr>)" for ps unfolding R_def by (rule settled_same(1) [OF ready q(2)])
  have len: "length parent \<le> 65536" "length name \<le> 65536" using p by (simp_all add: good_path_def)
  show ?thesis
  proof (cases "ret = DAO_PATH_IS_DIR")
    case dir: True
    then obtain i where i: "pid = Some i" "is_dir (tabs (db (s_world s))) (unat ?u) (unat i)" using q(3) node_at_dir by blast
    obtain ret2 w2 where x: "dao_path_insert_dir M ?u p i name (s_pool s) w1 = Some (ret2, s_pool s, w2)"
      "\<forall>ps. (acked ps \<longrightarrow> ret2 \<noteq> 1 \<and> \<not> ret2 < 0) \<longrightarrow>
         settled M coll db sha256 task (\<lambda>_ t. dir_added coll (db w1) t (unat ?u) p) (s\<lparr>s_world := w1\<rparr>) ps (s\<lparr>s_world := w2\<rparr>)"
      by (rule basic_insert_dir [OF ready1 p(1,3), of ?u i]) (use i q(2) in simp_all)
    have R2: "R ps (s\<lparr>s_world := w2\<rparr>)" if "acked ps \<longrightarrow> ret2 \<noteq> 1 \<and> \<not> ret2 < 0" for ps
      using x(2) [THEN spec, THEN mp, OF that] q(2) p(4) by (auto simp: R_def settled_def mkdir_effect_def)
    show ?thesis using q(1) dir i x(1) R2 r(3) len by (auto simp: mkdir_insert_def Let_def intro!: handled_respond_str)
  next
    case False
    then show ?thesis using q(1) R1 r(3) len by (auto simp: mkdir_insert_def Let_def intro!: handled_respond_str)
  qed
qed

lemma handle_mkdir_spec:
  assumes ready: "basic_ready M coll db sha256 task s"
    and names: "\<And>str. copy_payload task NAME_MAX False = Some str \<Longrightarrow> names_ok (ctx_cwd (t_session task)) str"
  shows "\<exists>s'. handle_mkdir M e task s = Some s' \<and>
    handled (settled M coll db sha256 task (mkdir_effect coll task (db (s_world s))) s) e (t_fd task) (Suc 0) s s'"
proof -
  note r = basic_readyD [OF ready]
  let ?R = "settled M coll db sha256 task (mkdir_effect coll task (db (s_world s))) s"
  have start: "\<not> acked ps \<Longrightarrow> ?R ps s" for ps by (rule settled_same(2) [OF ready refl])
  show ?thesis
  proof (cases "copy_payload task NAME_MAX False")
    case None
    then show ?thesis using start r(3) by (auto simp: handle_mkdir_def intro!: handled_respond)
  next
    case (Some str)
    let ?p = "path_of (resolve (ctx_cwd (t_session task)) str)"
    have gp: "good_path ?p" using names [OF Some] by (simp add: names_ok_def)
    show ?thesis
    proof (rule normalize_cases [of "ctx_cwd (t_session task)" str])
      fix out assume "normalize_cd_path (Some (ctx_cwd (t_session task))) (Some str) (Some []) PATH_MAX = Some (- 1, Some out)"
      then show ?thesis using Some start r(3) by (auto simp: handle_mkdir_def intro!: handled_respond)
    next
      assume n: "normalize_cd_path (Some (ctx_cwd (t_session task))) (Some str) (Some []) PATH_MAX = Some (0, Some ?p)"
      show ?thesis
      proof (cases "?p = ''/'' \<or> split_target ?p = None")
        case True
        then show ?thesis using Some n start r(3) by (auto simp: handle_mkdir_def intro!: handled_respond split: option.splits)
      next
        case False
        then obtain parent name where t: "split_target ?p = Some (parent, name)" by auto
        note g = split_target_good [OF gp t]
        have "names_path task NAME_MAX ?p" using Some by (auto simp: names_path_def)
        then show ?thesis using Some n False t mkdir_insert_spec [OF ready gp g(1,2), of e] by (simp add: handle_mkdir_def)
      qed
    qed
  qed
qed

text \<open>A removed directory: it was a directory of the user and had no children.\<close>

definition dir_removed :: "tables \<Rightarrow> nat \<Rightarrow> nat \<Rightarrow> tables \<Rightarrow> bool" where
  "dir_removed t u i t' \<longleftrightarrow> is_dir t u i \<and> children t u i = [] \<and> t' = t\<lparr>paths := filter (\<lambda>q. pr_id q \<noteq> i) (paths t)\<rparr>"

lemma is_dir_unique:
  assumes "tables_inv coll t" "is_dir t u i" "q \<in> set (paths t)" "pr_id q = i"
  shows "pr_type q = 1" "pr_user q = u"
proof -
  obtain r where r: "r \<in> set (paths t)" "pr_id r = i" "pr_type r = 1" "pr_user r = u" using assms(2) by (auto simp: is_dir_def)
  moreover have "distinct (map pr_id (paths t))" using assms(1) by (simp add: tables_inv_def paths_ok_def)
  ultimately have "q = r" using assms(3,4) by (metis distinct_map inj_onD)
  then show "pr_type q = 1" "pr_user q = u" using r by simp_all
qed

lemma dir_removed_ok:
  assumes inv: "tables_inv coll t" "tree_ok t" and rem: "dir_removed t u i t'"
  shows "tree_ok t'" "hashes t' = hashes t"
proof -
  have d: "is_dir t u i" "children t u i = []" "t' = t\<lparr>paths := filter (\<lambda>q. pr_id q \<noteq> i) (paths t)\<rparr>"
    using rem by (simp_all add: dir_removed_def)
  show "hashes t' = hashes t" using d(3) by (simp add: hashes_def)
  show "tree_ok t'" unfolding tree_ok_def
  proof (intro ballI allI impI)
    fix r j assume "r \<in> set (paths t')" and j: "pr_parent r = Some j"
    then have r: "r \<in> set (paths t)" using d(3) by simp
    then have dir: "is_dir t (pr_user r) j" using inv(2) j by (simp add: tree_ok_def)
    have "j \<noteq> i"
    proof
      assume "j = i"
      then obtain q where "q \<in> set (paths t)" "pr_id q = i" "pr_user q = pr_user r" using dir by (auto simp: is_dir_def)
      then have "pr_user r = u" using is_dir_unique(2) [OF inv(1) d(1)] by simp
      then have "r \<in> set (children t u i)" using r j \<open>j = i\<close> by (simp add: children_def)
      then show False using d(2) by simp
    qed
    then show "is_dir t' (pr_user r) j" using dir d(3) by (auto simp: is_dir_def)
  qed
qed

lemma basic_rmdir:
  assumes ready: "basic_ready M coll db sha256 task s" and dir: "is_dir (tabs (db (s_world s))) u (unat i)"
    and empty: "children (tabs (db (s_world s))) u (unat i) = []"
  obtains ret w' where "dao_path_rmdir M i (s_pool s) (s_world s) = Some (ret, s_pool s, w')"
    "\<forall>ps. (acked ps \<longrightarrow> ret = 0) \<longrightarrow> settled M coll db sha256 task (\<lambda>_. dir_removed (tabs (db (s_world s))) u (unat i)) s ps (s\<lparr>s_world := w'\<rparr>)"
proof -
  note r = basic_readyD [OF ready]
  note d = data_okD [OF r(1,2)] and inv = dao_readyD(6) [OF data_okD(1) [OF r(1,2)]]
  let ?d = "db (s_world s)"
  obtain ret w' where x: "dao_path_rmdir M i (s_pool s) (s_world s) = Some (ret, s_pool s, w')" "db_ok coll (db w')"
    "ret = 0 \<and> tabs (db w') = (tabs ?d)\<lparr>paths := filter (\<lambda>q. pr_id q \<noteq> unat i) (paths (tabs ?d))\<rparr> \<or> ret = - 1 \<and> db w' = ?d"
    by (rule dao_path_rmdir_spec [OF d(1)]) (use is_dir_unique(1) [OF inv dir] in auto)
  have "dir_removed (tabs ?d) u (unat i) (tabs (db w')) \<or> ret \<noteq> 0 \<and> tabs (db w') = tabs ?d" using x(3) dir empty by (auto simp: dir_removed_def)
  then have "\<forall>ps. (acked ps \<longrightarrow> ret = 0) \<longrightarrow> settled M coll db sha256 task (\<lambda>_. dir_removed (tabs ?d) u (unat i)) s ps (s\<lparr>s_world := w'\<rparr>)"
    using r(1) x(2) d(6,9) dir_removed_ok [OF inv d(9), of u "unat i" "tabs (db w')"] by (auto simp: settled_def data_ok_def)
  then show thesis using that x(1) by blast
qed

definition rmdir_effect :: "(string \<Rightarrow> string) \<Rightarrow> packet_task_t \<Rightarrow> tables \<Rightarrow> packet_t list \<Rightarrow> tables \<Rightarrow> bool" where
  "rmdir_effect coll task t ps t' \<longleftrightarrow> (\<exists>p i. names_path task NAME_MAX p \<and>
     node_at coll t (unat (ctx_user_id (t_session task))) p 1 i \<and> dir_removed t (unat (ctx_user_id (t_session task))) i t')"

lemma rmdir_delete_spec:
  assumes ready: "basic_ready M coll db sha256 task s" and p: "good_path p" "length name \<le> 65536" "names_path task NAME_MAX p"
  defines "R \<equiv> settled M coll db sha256 task (rmdir_effect coll task (tabs (db (s_world s)))) s"
  shows "\<exists>s'. rmdir_delete M e task p name s = Some s' \<and> handled R e (t_fd task) (Suc 0) s s'"
proof -
  note r = basic_readyD [OF ready]
  let ?u = "ctx_user_id (t_session task)" and ?t = "tabs (db (s_world s))"
  obtain ret pid w1 where q: "dao_path_get_node_id M ?u p (s_pool s) (s_world s) = Some (ret, pid, s_pool s, w1)" "db w1 = db (s_world s)"
    "ret = DAO_PATH_IS_DIR \<longrightarrow> (\<exists>i. pid = Some i \<and> node_at coll ?t (unat ?u) p 1 (unat i))"
    by (rule basic_node [OF ready p(1), of ?u])
  note ready1 = basic_ready_world [OF ready q(2)]
  have R1: "\<not> acked ps \<Longrightarrow> R ps (s\<lparr>s_world := w1\<rparr>)" for ps unfolding R_def by (rule settled_same(1) [OF ready q(2)])
  have len: "length p \<le> 65536" using p(1) by (simp add: good_path_def)
  show ?thesis
  proof (cases "ret = DAO_PATH_IS_DIR")
    case False
    then show ?thesis using q(1) R1 r(3) p(2) by (auto simp: rmdir_delete_def Let_def intro!: handled_respond_str)
  next
    case dir: True
    then obtain i where i: "pid = Some i" "node_at coll ?t (unat ?u) p 1 (unat i)" using q(3) by blast
    note r1 = basic_readyD [OF ready1]
    obtain n w2 where c: "dao_path_dir_has_child M ?u i (s_pool s) w1 = Some (n, s_pool s, w2)" "db w2 = db (s_world s)"
      "n = - 1 \<or> n = int (length (children ?t (unat ?u) (unat i)))"
      using dao_path_dir_has_child_spec [OF data_okD(1,2) [OF r1(1,2)], of ?u i] q(2) by (metis server_t.select_convs(1,2) server_t.surjective server_t.update_convs(2))
    note ready2 = basic_ready_world [OF ready c(2)]
    have R2: "\<not> acked ps \<Longrightarrow> R ps (s\<lparr>s_world := w2\<rparr>)" for ps unfolding R_def by (rule settled_same(1) [OF ready c(2)])
    show ?thesis
    proof (cases "n = 0")
      case False
      then show ?thesis using q(1) dir i(1) c(1) R2 r(3) p(2) by (auto simp: rmdir_delete_def Let_def intro!: handled_respond_str)
    next
      case True
      then have empty: "children ?t (unat ?u) (unat i) = []" using c(3) by simp
      obtain m w3 where x: "dao_path_rmdir M i (s_pool s) w2 = Some (m, s_pool s, w3)"
        "\<forall>ps. (acked ps \<longrightarrow> m = 0) \<longrightarrow>
           settled M coll db sha256 task (\<lambda>_. dir_removed (tabs (db w2)) (unat ?u) (unat i)) (s\<lparr>s_world := w2\<rparr>) ps (s\<lparr>s_world := w3\<rparr>)"
        by (rule basic_rmdir [OF ready2, of "unat ?u" i]) (use node_at_dir [OF i(2)] empty c(2) in simp_all)
      have R3: "R ps (s\<lparr>s_world := w3\<rparr>)" if "acked ps \<longrightarrow> m = 0" for ps
        using x(2) [THEN spec, THEN mp, OF that] c(2) p(3) i(2) by (auto simp: R_def settled_def rmdir_effect_def)
      show ?thesis using q(1) dir i(1) c(1) True x(1) R3 r(3) p(2) len by (auto simp: rmdir_delete_def Let_def intro!: handled_respond_str)
    qed
  qed
qed

lemma handle_rmdir_spec:
  assumes ready: "basic_ready M coll db sha256 task s"
    and names: "\<And>str. copy_payload task NAME_MAX False = Some str \<Longrightarrow> names_ok (ctx_cwd (t_session task)) str"
  shows "\<exists>s'. handle_rmdir M e task s = Some s' \<and>
    handled (settled M coll db sha256 task (rmdir_effect coll task (tabs (db (s_world s)))) s) e (t_fd task) (Suc 0) s s'"
proof -
  note r = basic_readyD [OF ready]
  let ?R = "settled M coll db sha256 task (rmdir_effect coll task (tabs (db (s_world s)))) s"
  have start: "\<not> acked ps \<Longrightarrow> ?R ps s" for ps by (rule settled_same(2) [OF ready refl])
  show ?thesis
  proof (cases "copy_payload task NAME_MAX False")
    case None
    then show ?thesis using start r(3) by (auto simp: handle_rmdir_def intro!: handled_respond)
  next
    case (Some str)
    let ?p = "path_of (resolve (ctx_cwd (t_session task)) str)"
    have gp: "good_path ?p" using names [OF Some] by (simp add: names_ok_def)
    show ?thesis
    proof (rule normalize_cases [of "ctx_cwd (t_session task)" str])
      fix out assume "normalize_cd_path (Some (ctx_cwd (t_session task))) (Some str) (Some []) PATH_MAX = Some (- 1, Some out)"
      then show ?thesis using Some start r(3) by (auto simp: handle_rmdir_def intro!: handled_respond)
    next
      assume n: "normalize_cd_path (Some (ctx_cwd (t_session task))) (Some str) (Some []) PATH_MAX = Some (0, Some ?p)"
      show ?thesis
      proof (cases "?p = ''/'' \<or> split_target ?p = None")
        case True
        then show ?thesis using Some n start r(3) by (auto simp: handle_rmdir_def intro!: handled_respond split: option.splits)
      next
        case False
        then obtain parent name where t: "split_target ?p = Some (parent, name)" by auto
        have "length name \<le> 65536" using split_target_good [OF gp t] by (simp add: good_path_def)
        moreover have "names_path task NAME_MAX ?p" using Some by (auto simp: names_path_def)
        ultimately show ?thesis using Some n False t rmdir_delete_spec [OF ready gp, of name e] by (simp add: handle_rmdir_def)
      qed
    qed
  qed
qed

subsection \<open>Files\<close>

text \<open>A removed file: the path of the user goes, and the file with its last reference.\<close>

definition rm_effect :: "(string \<Rightarrow> string) \<Rightarrow> packet_task_t \<Rightarrow> tables \<Rightarrow> packet_t list \<Rightarrow> tables \<Rightarrow> bool" where
  "rm_effect coll task t ps t' \<longleftrightarrow> (\<exists>p r f. names_path task NAME_MAX p \<and>
     node_at coll t (unat (ctx_user_id (t_session task))) p 0 (pr_id r) \<and> rm_row t (pr_id r) (unat (ctx_user_id (t_session task))) r \<and>
     f \<in> set (files t) \<and> pr_file r = Some (fr_id f) \<and> t' = drop_ref r f t)"

lemma rm_good_tree:
  assumes inv: "tables_inv coll t" "tree_ok t" and g: "rm_good t i u t' ret"
  shows "tree_ok t'"
proof (cases "t' = t")
  case False
  then obtain r f where r: "rm_row t i u r" "paths t' = filter (\<lambda>q. pr_id q \<noteq> pr_id r) (paths t)"
    using g by (auto simp: rm_good_def drop_ref_def)
  show ?thesis unfolding tree_ok_def
  proof (intro ballI allI impI)
    fix q j assume q: "q \<in> set (paths t')" "pr_parent q = Some j"
    then have dir: "is_dir t (pr_user q) j" using inv(2) r(2) by (simp add: tree_ok_def)
    have "j \<noteq> pr_id r" using is_dir_unique(1) [OF inv(1) dir, of r] r(1) by (auto simp: rm_row_def)
    then show "is_dir t' (pr_user q) j" using dir r(2) by (auto simp: is_dir_def)
  qed
qed (use inv in simp)

lemma basic_rm_file:
  assumes ready: "basic_ready M coll db sha256 task s" and p: "names_path task NAME_MAX p"
    and node: "node_at coll (tabs (db (s_world s))) (unat (ctx_user_id (t_session task))) p 0 (unat i)"
  defines "u \<equiv> ctx_user_id (t_session task)"
  obtains ret hash w' where "dao_rm_file M u i NAME_MAX (s_pool s) (s_world s) = Some ((ret, hash), s_pool s, w')"
    "\<forall>ps. (acked ps \<longrightarrow> ret = DAO_OK \<or> ret = DAO_SHOULD_DELETE_PHYSICAL) \<longrightarrow>
       settled M coll db sha256 task (rm_effect coll task (tabs (db (s_world s)))) s ps (s\<lparr>s_world := w'\<rparr>)"
    "ret = DAO_SHOULD_DELETE_PHYSICAL \<longrightarrow> valid_hex hash \<and> hash \<in> hashes (tabs (db (s_world s))) \<and> hash \<notin> hashes (tabs (db w'))"
proof -
  note r = basic_readyD [OF ready]
  note d = data_okD [OF r(1,2)] and inv = dao_readyD(6) [OF data_okD(1) [OF r(1,2)]]
  let ?t = "tabs (db (s_world s))"
  have out: "txn_outcome db (s_world s) (s_pool s) (rm_good ?t (unat i) (unat u)) (\<lambda>ret. fst ret = DAO_DB_ERROR) (dao_rm_file M u i NAME_MAX (s_pool s) (s_world s))"
    by (rule dao_rm_file_outcome [OF d(3,4,7) inv d(8)]) simp
  have good: "tables_inv coll t \<and> (\<forall>f \<in> set (files t). fr_size f < 2 ^ 64)" if "rm_good ?t (unat i) (unat u) t ret" for t ret
    using rm_good_ok [OF that inv dao_readyD(8) [OF d(1)]] .
  obtain x w' where x: "dao_rm_file M u i NAME_MAX (s_pool s) (s_world s) = Some (x, s_pool s, w')" "db_ok coll (db w')"
      "tabs (db w') = ?t \<or> (\<exists>ret. rm_good ?t (unat i) (unat u) (tabs (db w')) ret)"
      "rm_good ?t (unat i) (unat u) (tabs (db w')) x \<or> fst x = DAO_DB_ERROR"
    by (rule outcome_ok [OF out d(5) good])
  obtain ret hash where rh: "x = (ret, hash)" by (metis prod.collapse)
  have h: "hashes (tabs (db w')) \<subseteq> hashes ?t" "tree_ok (tabs (db w'))" using x(3) hashes_rm rm_good_tree [OF inv d(9)] d(9) by (metis subset_refl)+
  have removed: "rm_effect coll task ?t ps t \<or> t = ?t \<and> ret \<noteq> DAO_OK \<and> ret \<noteq> DAO_SHOULD_DELETE_PHYSICAL" if "rm_good ?t (unat i) (unat u) t (ret, h)" for ps t ret h
    using that p node unfolding rm_good_def rm_effect_def u_def by (fastforce simp: rm_row_def)
  then have "rm_effect coll task ?t ps (tabs (db w')) \<or> tabs (db w') = ?t" for ps using x(3) by (metis surj_pair)
  moreover have "rm_effect coll task ?t ps (tabs (db w'))" if "ret = DAO_OK \<or> ret = DAO_SHOULD_DELETE_PHYSICAL" for ps
    using x(4) removed [of "tabs (db w')" ret hash ps] that unfolding rh by auto
  ultimately have "\<forall>ps. (acked ps \<longrightarrow> ret = DAO_OK \<or> ret = DAO_SHOULD_DELETE_PHYSICAL) \<longrightarrow>
      settled M coll db sha256 task (rm_effect coll task ?t) s ps (s\<lparr>s_world := w'\<rparr>)"
    using r(1) x(2) h store_ok_mono [OF d(6) h(1)] unfolding settled_def data_ok_def by auto
  moreover have "valid_hex hash \<and> hash \<in> hashes ?t \<and> hash \<notin> hashes (tabs (db w'))" if "ret = DAO_SHOULD_DELETE_PHYSICAL"
    using x(4) that rh rm_good_cases [OF inv, of "unat i" "unat u" "tabs (db w')" ret hash] d(6) by (auto simp: hashes_def store_ok_def)
  ultimately show thesis using that x(1) rh by blast
qed

text \<open>The file behind the last reference goes from the disk; no other stored file does.\<close>

lemma settled_unlink:
  assumes st: "settled M coll db sha256 task E s ps s1" and root: "length (t_storage_root task) < PATH_MAX" and v: "valid_hex hash"
    and h: "hash \<notin> hashes (tabs (db (s_world s1)))"
    and u: "unlink (fst (snprintf (PATH_MAX + NAME_MAX + 1) (t_storage_root task @ ''/'' @ hash))) (s_kern s1) = (ok, k)"
  shows "settled M coll db sha256 task E s ps (s1\<lparr>s_kern := k\<rparr>)"
proof -
  let ?path = "t_storage_root task @ ''/'' @ hash"
  have "fst (snprintf (PATH_MAX + NAME_MAX + 1) ?path) = ?path" using root valid_hexD(2) [OF v] by (simp add: snprintf_def)
  then have k: "disk k = disk_of s1 \<or> disk k = (disk_of s1)(?path := None)" using unlink_disk(2,3) [OF u] by (cases ok) auto
  have st1: "store_ok sha256 (t_storage_root task) (hashes (tabs (db (s_world s1)))) (disk_of s1)" using st by (simp add: settled_def data_ok_def)
  have "store_ok sha256 (t_storage_root task) (hashes (tabs (db (s_world s1)))) (disk k)"
    using k st1 store_ok_remove [OF st1 h subset_refl] by auto
  then show ?thesis using st by (simp add: settled_def data_ok_def)
qed

lemma length_basename: "length (posix_basename p) \<le> Suc (length p)"
proof (cases "p = [] \<or> rev (dropWhile (\<lambda>c. c = CHR ''/'') (rev p)) = []")
  case True
  then show ?thesis by (auto simp: posix_basename_def)
next
  case False
  have "length (takeWhile (\<lambda>c. c \<noteq> CHR ''/'') (dropWhile (\<lambda>c. c = CHR ''/'') (rev p))) \<le> length p"
    by (metis length_dropWhile_le length_rev length_takeWhile_le order_trans)
  then show ?thesis using False by (simp add: posix_basename_def Let_def)
qed

lemma rm_delete_spec:
  assumes ready: "basic_ready M coll db sha256 task s" and p: "good_path p" "length name \<le> 65536" "names_path task NAME_MAX p"
  defines "R \<equiv> settled M coll db sha256 task (rm_effect coll task (tabs (db (s_world s)))) s"
  shows "\<exists>s' n. rm_delete M e task p name s = Some s' \<and> handled R e (t_fd task) n s s' \<and> (n = Suc 0 \<or> n = 2 \<and> \<not> kcalm (s_kern s))"
proof -
  note r = basic_readyD [OF ready]
  let ?u = "ctx_user_id (t_session task)" and ?t = "tabs (db (s_world s))"
  obtain ret pid w1 where q: "dao_path_get_node_id M ?u p (s_pool s) (s_world s) = Some (ret, pid, s_pool s, w1)" "db w1 = db (s_world s)"
    "ret = DAO_PATH_IS_FILE \<longrightarrow> (\<exists>i. pid = Some i \<and> node_at coll ?t (unat ?u) p 0 (unat i))"
    by (rule basic_node [OF ready p(1), of ?u])
  note ready1 = basic_ready_world [OF ready q(2)]
  have R1: "\<not> acked ps \<Longrightarrow> R ps (s\<lparr>s_world := w1\<rparr>)" for ps unfolding R_def by (rule settled_same(1) [OF ready q(2)])
  show ?thesis
  proof (cases "ret = DAO_PATH_IS_FILE")
    case False
    then have "\<exists>s'. rm_delete M e task p name s = Some s' \<and> handled R e (t_fd task) (Suc 0) s s'"
      using q(1) R1 r(3) p(2) by (auto simp: rm_delete_def Let_def intro!: handled_respond_str)
    then show ?thesis by blast
  next
    case isf: True
    then obtain i where i: "pid = Some i" "node_at coll ?t (unat ?u) p 0 (unat i)" using q(3) by blast
    obtain ret2 hash w2 where x: "dao_rm_file M ?u i NAME_MAX (s_pool s) w1 = Some ((ret2, hash), s_pool s, w2)"
        "\<forall>ps. (acked ps \<longrightarrow> ret2 = DAO_OK \<or> ret2 = DAO_SHOULD_DELETE_PHYSICAL) \<longrightarrow>
           settled M coll db sha256 task (rm_effect coll task (tabs (db w1))) (s\<lparr>s_world := w1\<rparr>) ps (s\<lparr>s_world := w2\<rparr>)"
        "ret2 = DAO_SHOULD_DELETE_PHYSICAL \<longrightarrow> valid_hex hash \<and> hash \<in> hashes (tabs (db w1)) \<and> hash \<notin> hashes (tabs (db w2))"
      by (rule basic_rm_file [OF ready1 p(3), of i]) (use i(2) q(2) in auto)
    have R2: "R ps (s\<lparr>s_world := w2\<rparr>)" if "acked ps \<longrightarrow> ret2 = DAO_OK \<or> ret2 = DAO_SHOULD_DELETE_PHYSICAL" for ps
      using x(2) [THEN spec, THEN mp, OF that] q(2) by (auto simp: R_def settled_def)
    show ?thesis
    proof (cases "ret2 = DAO_SHOULD_DELETE_PHYSICAL")
      case False
      then have "\<exists>s'. rm_delete M e task p name s = Some s' \<and> handled R e (t_fd task) (Suc 0) s s'"
        using q(1) isf i(1) x(1) R2 r(3) p(2) by (auto simp: rm_delete_def Let_def intro!: handled_respond_str handled_respond)
      then show ?thesis by blast
    next
      case True
      let ?path = "t_storage_root task @ ''/'' @ hash"
      have h: "valid_hex hash" "hash \<in> hashes ?t" "hash \<notin> hashes (tabs (db w2))" using x(3) True q(2) by auto
      obtain ok k where u: "unlink (fst (snprintf (PATH_MAX + NAME_MAX + 1) ?path)) (s_kern s) = (ok, k)" by (metis prod.collapse)
      have R3: "R ps (s\<lparr>s_world := w2, s_kern := k\<rparr>)" for ps unfolding R_def
        using settled_unlink [OF R2 [unfolded R_def] r(5) h(1), of ps ok k] u h(3) True by simp
      let ?s3 = "s\<lparr>s_world := w2, s_kern := k\<rparr>"
      have eq: "rm_delete M e task p name s = Some (respond_str e task CMD_ACK STATUS_OK name
          (if ok then ?s3 else respond_str e task CMD_ERROR STATUS_IO_ERROR name ?s3))"
        using q(1) isf i(1) x(1) True u by (simp add: rm_delete_def Let_def del: snprintf_def)
      show ?thesis
      proof (cases ok)
        case True
        then show ?thesis using eq R3 r(3) p(2) by (auto intro!: handled_respond_str exI [of _ "Suc 0"])
      next
        case False
        let ?m = "\<lambda>type st. mk_packet type st (session_id (t_header task)) (bytes_of name)"
        have "replied e (t_fd task) ([?m CMD_ERROR STATUS_IO_ERROR] @ [?m CMD_ACK STATUS_OK]) ?s3
            (respond_str e task CMD_ACK STATUS_OK name (respond_str e task CMD_ERROR STATUS_IO_ERROR name ?s3))"
          by (rule replied_append) (rule respond_str_replied [OF r(3) p(2)])+
        then have "handled R e (t_fd task) 2 s (respond_str e task CMD_ACK STATUS_OK name (respond_str e task CMD_ERROR STATUS_IO_ERROR name ?s3))"
          unfolding handled_def using R3 wf_mk_packet [OF r(3), of "bytes_of name"] p(2)
          by (intro exI [of _ ?s3] exI [of _ "[?m CMD_ERROR STATUS_IO_ERROR] @ [?m CMD_ACK STATUS_OK]"]) simp
        moreover have "disk_of s ?path \<noteq> None" using data_okD(6) [OF r(1,2)] h(2) by (simp add: store_ok_def)
        moreover have "fst (snprintf (PATH_MAX + NAME_MAX + 1) ?path) = ?path" using r(5) valid_hexD(2) [OF h(1)] by (simp add: snprintf_def)
        ultimately show ?thesis using eq False unlink_step [OF u] by auto
      qed
    qed
  qed
qed

lemma handle_rm_spec:
  assumes ready: "basic_ready M coll db sha256 task s"
    and names: "\<And>str. copy_payload task NAME_MAX False = Some str \<Longrightarrow> names_ok (ctx_cwd (t_session task)) str"
  defines "R \<equiv> settled M coll db sha256 task (rm_effect coll task (tabs (db (s_world s)))) s"
  shows "\<exists>s' n. handle_rm M e task s = Some s' \<and> handled R e (t_fd task) n s s' \<and> (n = Suc 0 \<or> n = 2 \<and> \<not> kcalm (s_kern s))"
proof -
  note r = basic_readyD [OF ready]
  have start: "\<not> acked ps \<Longrightarrow> R ps s" for ps unfolding R_def by (rule settled_same(2) [OF ready refl])
  have bad: "handled R e (t_fd task) (Suc 0) s (respond e task CMD_ERROR STATUS_BAD_REQUEST s)" using start r(3) by (auto intro!: handled_respond)
  show ?thesis
  proof (cases "copy_payload task NAME_MAX False")
    case None
    then show ?thesis using bad by (auto simp: handle_rm_def)
  next
    case (Some str)
    let ?p = "path_of (resolve (ctx_cwd (t_session task)) str)"
    have gp: "good_path ?p" using names [OF Some] by (simp add: names_ok_def)
    show ?thesis
    proof (rule normalize_cases [of "ctx_cwd (t_session task)" str])
      fix out assume "normalize_cd_path (Some (ctx_cwd (t_session task))) (Some str) (Some []) PATH_MAX = Some (- 1, Some out)"
      then show ?thesis using Some bad by (auto simp: handle_rm_def)
    next
      assume n: "normalize_cd_path (Some (ctx_cwd (t_session task))) (Some str) (Some []) PATH_MAX = Some (0, Some ?p)"
      have "length (posix_basename (strncpy PATH_MAX ?p)) \<le> 65536" using length_basename [of "strncpy PATH_MAX ?p"] by (simp add: strncpy_def)
      moreover have "names_path task NAME_MAX ?p" using Some by (auto simp: names_path_def)
      ultimately show ?thesis using Some n rm_delete_spec [OF ready gp, of "posix_basename (strncpy PATH_MAX ?p)" e] unfolding R_def by (simp add: handle_rm_def)
    qed
  qed
qed

subsection \<open>Commands that only read\<close>

definition pwd_effect :: "packet_task_t \<Rightarrow> tables \<Rightarrow> packet_t list \<Rightarrow> tables \<Rightarrow> bool" where
  "pwd_effect task t ps t' \<longleftrightarrow> t' = t \<and> ps = [ack task (ctx_cwd (t_session task))]"

lemma handle_pwd_spec:
  assumes ready: "basic_ready M coll db sha256 task s"
  shows "handled (settled M coll db sha256 task (pwd_effect task (tabs (db (s_world s)))) s) e (t_fd task) (Suc 0) s (handle_pwd e task s)"
  unfolding handle_pwd_def using ready
  by (auto simp: settled_def pwd_effect_def basic_ready_def intro!: handled_respond_str)

text \<open>The listing of a directory, cut at the size of a packet; of a file its name.\<close>

definition ls_effect :: "(string \<Rightarrow> string) \<Rightarrow> packet_task_t \<Rightarrow> string \<Rightarrow> tables \<Rightarrow> packet_t list \<Rightarrow> tables \<Rightarrow> bool" where
  "ls_effect coll task p t ps t' \<longleftrightarrow> t' = t \<and> (\<exists>i.
     node_at coll t (unat (ctx_user_id (t_session task))) p 1 i \<and>
       ps = [ack task (take (unat MAX_PACKET_PAYLOAD - 1) (listing t (unat (ctx_user_id (t_session task))) i))] \<or>
     node_at coll t (unat (ctx_user_id (t_session task))) p 0 i \<and> (\<exists>name. last_name p = Some name \<and> ps = [ack task name]))"

lemma length_last_name: "last_name p = Some name \<Longrightarrow> length name < NAME_MAX"
  by (auto simp: last_name_def Let_def strncpy_def split: option.splits if_splits)

lemma ls_answer_spec:
  assumes ready: "basic_ready M coll db sha256 task s" and p: "good_path p"
  defines "R \<equiv> settled M coll db sha256 task (ls_effect coll task p (tabs (db (s_world s)))) s"
  shows "\<exists>s'. ls_answer M e task p s = Some s' \<and> handled R e (t_fd task) (Suc 0) s s'"
proof -
  note r = basic_readyD [OF ready]
  let ?u = "ctx_user_id (t_session task)" and ?t = "tabs (db (s_world s))"
  obtain ret pid w1 where q: "dao_path_get_node_id M ?u p (s_pool s) (s_world s) = Some (ret, pid, s_pool s, w1)" "db w1 = db (s_world s)"
    "ret = DAO_PATH_IS_DIR \<longrightarrow> (\<exists>i. pid = Some i \<and> node_at coll ?t (unat ?u) p 1 (unat i))"
    "ret = DAO_PATH_IS_FILE \<longrightarrow> (\<exists>i. pid = Some i \<and> node_at coll ?t (unat ?u) p 0 (unat i))"
    by (rule basic_node [OF ready p(1), of ?u])
  note r1 = basic_readyD [OF basic_ready_world [OF ready q(2)]]
  have R1: "\<not> acked ps \<Longrightarrow> R ps (s\<lparr>s_world := w1\<rparr>)" for ps unfolding R_def by (rule settled_same(1) [OF ready q(2)])
  have len: "length p \<le> 65536" using p(1) by (simp add: good_path_def)
  have told: "R ps (s\<lparr>s_world := w\<rparr>)" if "db w = db (s_world s)" "ls_effect coll task p ?t ps ?t" for ps w
    using that r(1) by (simp add: R_def settled_def data_ok_def)
  consider "ret = DAO_PATH_IS_FILE" | "ret = DAO_PATH_IS_DIR" | "ret \<noteq> DAO_PATH_IS_DIR" "ret \<noteq> DAO_PATH_IS_FILE" by blast
  then show ?thesis
  proof cases
    case 1
    then have "R [ack task name] (s\<lparr>s_world := w1\<rparr>)" if "last_name p = Some name" for name
      using that q(4) by (intro told [OF q(2)]) (auto simp: ls_effect_def)
    moreover have "length name \<le> 65536" if "last_name p = Some name" for name using length_last_name [OF that] by simp
    ultimately show ?thesis using 1 q(1) R1 r(3)
      by (cases "last_name p") (auto simp: ls_answer_def Let_def intro!: handled_respond_str handled_respond)
  next
    case 2
    then obtain i where i: "pid = Some i" "node_at coll ?t (unat ?u) p 1 (unat i)" using q(3) by blast
    have sz: "0 < unat MAX_PACKET_PAYLOAD" by (simp add: MAX_PACKET_PAYLOAD_def)
    let ?l = "take (unat MAX_PACKET_PAYLOAD - 1) (listing ?t (unat ?u) (unat i))"
    obtain n resp w2 where c: "dao_path_get_ls_dir M ?u i (unat MAX_PACKET_PAYLOAD) (s_pool s) w1 = Some (n, resp, s_pool s, w2)" "db w2 = db (s_world s)"
      "n = - 1 \<or> n = int (length (children ?t (unat ?u) (unat i))) \<and> resp = Some ?l"
      by (rule dao_path_get_ls_dir_spec [OF data_okD(1,2) [OF r1(1,2)] sz, of ?u i]) (use q(2) in simp)
    have R2: "\<not> acked ps \<Longrightarrow> R ps (s\<lparr>s_world := w2\<rparr>)" for ps unfolding R_def by (rule settled_same(1) [OF ready c(2)])
    have R3: "R [ack task ?l] (s\<lparr>s_world := w2\<rparr>)" by (rule told [OF c(2)]) (use i(2) in \<open>auto simp: ls_effect_def\<close>)
    have "length ?l \<le> 65536" by (simp add: MAX_PACKET_PAYLOAD_def)
    with c(3) show ?thesis using q(1) 2 i(1) c(1) R2 R3 r(3) len by (auto simp: ls_answer_def Let_def intro!: handled_respond_str)
  next
    case 3
    then show ?thesis using q(1) R1 r(3) len by (auto simp: ls_answer_def Let_def intro!: handled_respond_str)
  qed
qed

text \<open>Without an argument \<open>ls\<close> lists the current directory.\<close>

definition ls_target :: "packet_task_t \<Rightarrow> string \<Rightarrow> bool" where
  "ls_target task p \<longleftrightarrow> copy_payload task PATH_MAX False = Some [] \<and> p = ctx_cwd (t_session task) \<or> names_path task PATH_MAX p"

lemma handle_ls_spec:
  assumes ready: "basic_ready M coll db sha256 task s" and cwd: "good_path (ctx_cwd (t_session task))"
    and names: "\<And>str. copy_payload task PATH_MAX False = Some str \<Longrightarrow> names_ok (ctx_cwd (t_session task)) str"
  defines "R \<equiv> settled M coll db sha256 task (\<lambda>ps t. \<exists>p. ls_target task p \<and> ls_effect coll task p (tabs (db (s_world s))) ps t) s"
  shows "\<exists>s'. handle_ls M e task s = Some s' \<and> handled R e (t_fd task) (Suc 0) s s'"
proof -
  note r = basic_readyD [OF ready]
  have bad: "handled R e (t_fd task) (Suc 0) s (respond e task CMD_ERROR STATUS_BAD_REQUEST s)"
    using settled_same(2) [OF ready refl] r(3) by (auto simp: R_def intro!: handled_respond)
  have ls: "\<exists>s'. ls_answer M e task p s = Some s' \<and> handled R e (t_fd task) (Suc 0) s s'" if p: "good_path p" "ls_target task p" for p
  proof -
    obtain s' where x: "ls_answer M e task p s = Some s'"
        "handled (settled M coll db sha256 task (ls_effect coll task p (tabs (db (s_world s)))) s) e (t_fd task) (Suc 0) s s'"
      using ls_answer_spec [OF ready p(1), of e] by blast
    then show ?thesis using handled_mono [OF x(2), of R] p(2) by (auto simp: R_def settled_def)
  qed
  show ?thesis
  proof (cases "copy_payload task PATH_MAX False")
    case None
    then show ?thesis using bad by (simp add: handle_ls_def)
  next
    case (Some str)
    let ?p = "path_of (resolve (ctx_cwd (t_session task)) str)"
    have gp: "good_path ?p" using names [OF Some] by (simp add: names_ok_def)
    show ?thesis
    proof (cases "str = []")
      case True
      then have "ls_target task (ctx_cwd (t_session task))" using Some by (simp add: ls_target_def)
      then show ?thesis using True Some ls [OF cwd] by (simp add: handle_ls_def)
    next
      case False
      have "ls_target task ?p" using Some by (auto simp: ls_target_def names_path_def)
      then show ?thesis using False
        by (cases rule: normalize_cases [of "ctx_cwd (t_session task)" str]) (use Some bad ls [OF gp] in \<open>simp_all add: handle_ls_def\<close>)
    qed
  qed
qed

subsection \<open>Sessions\<close>

text \<open>
  A command that changes the session table only: it and the answer are as \<open>E\<close> says, or it stays as it was and the
  request is not acknowledged.
\<close>

definition session_settled ::
  "'w mysql \<Rightarrow> (string \<Rightarrow> string) \<Rightarrow> ('w \<Rightarrow> database) \<Rightarrow> (byte list \<Rightarrow> byte list) \<Rightarrow> packet_task_t \<Rightarrow>
    (packet_t list \<Rightarrow> session_table_t \<Rightarrow> session_table_t \<Rightarrow> bool) \<Rightarrow> 'w server_t \<Rightarrow> packet_t list \<Rightarrow> 'w server_t \<Rightarrow> bool" where
  "session_settled M coll db sha256 task E s ps s' \<longleftrightarrow> data_ok M coll db sha256 (t_storage_root task) s' \<and>
     tabs (db (s_world s')) = tabs (db (s_world s)) \<and>
     (\<exists>t t'. s_table s = Some t \<and> s_table s' = Some t' \<and> table_inv t' \<and> (E ps t t' \<or> \<not> acked ps \<and> t' = t))"

lemma session_settled_same:
  assumes "basic_ready M coll db sha256 task s" "db w' = db (s_world s)" "\<not> acked ps"
  shows "session_settled M coll db sha256 task E s ps (s\<lparr>s_world := w'\<rparr>)" "session_settled M coll db sha256 task E s ps s"
  using assms by (auto simp: session_settled_def basic_ready_def data_ok_def)

text \<open>The directory of the session behind the connection becomes the directory that the path names.\<close>

definition cd_effect :: "(string \<Rightarrow> string) \<Rightarrow> packet_task_t \<Rightarrow> string \<Rightarrow> tables \<Rightarrow> packet_t list \<Rightarrow> session_table_t \<Rightarrow> session_table_t \<Rightarrow> bool" where
  "cd_effect coll task p d ps t t' \<longleftrightarrow> (\<exists>i now. node_at coll d (unat (ctx_user_id (t_session task))) p 1 (unat i) \<and>
     spec_update_cwd (abs_table t) (t_fd task) (session_id (t_header task)) i p now = Some (abs_table t') \<and> ps = [ack task p])"

lemma cd_enter_spec:
  assumes ready: "basic_ready M coll db sha256 task s" and p: "good_path p"
  defines "R \<equiv> session_settled M coll db sha256 task (cd_effect coll task p (tabs (db (s_world s)))) s"
  shows "\<exists>s'. cd_enter M e env task p s = Some s' \<and> handled R e (t_fd task) (Suc 0) s s'"
proof -
  note r = basic_readyD [OF ready]
  let ?u = "ctx_user_id (t_session task)" and ?t = "tabs (db (s_world s))"
  obtain ret pid w1 where q: "dao_path_get_node_id M ?u p (s_pool s) (s_world s) = Some (ret, pid, s_pool s, w1)" "db w1 = db (s_world s)"
    "ret = DAO_PATH_IS_DIR \<longrightarrow> (\<exists>i. pid = Some i \<and> node_at coll ?t (unat ?u) p 1 (unat i))"
    by (rule basic_node [OF ready p, of ?u])
  have R1: "\<not> acked ps \<Longrightarrow> R ps (s\<lparr>s_world := w1\<rparr>)" for ps unfolding R_def by (rule session_settled_same(1) [OF ready q(2)])
  have len: "length p \<le> 65536" using p by (simp add: good_path_def)
  show ?thesis
  proof (cases "ret = DAO_PATH_IS_DIR")
    case False
    then show ?thesis using q(1) R1 r(3) len by (auto simp: cd_enter_def Let_def intro!: handled_respond_str handled_respond)
  next
    case dir: True
    then obtain i where i: "pid = Some i" "node_at coll ?t (unat ?u) p 1 (unat i)" using q(3) by blast
    obtain t where t: "s_table s = Some t" "table_inv t" using ready by (auto simp: basic_ready_def)
    obtain n t' where u: "session_update_cwd (Some t) (t_fd task) (session_id (t_header task)) i (Some p) (be_now env) = Some (n, Some t')" "table_inv t'"
        "n = - 1 \<and> t' = t \<or> n = 0 \<and> (\<exists>now. spec_update_cwd (abs_table t) (t_fd task) (session_id (t_header task)) i p now = Some (abs_table t'))"
      using session_update_cwd_cases [OF t(2) r(3), of "t_fd task" i "Some p" "be_now env"] by auto
    let ?s1 = "s\<lparr>s_world := w1, s_table := Some t'\<rparr>"
    have d: "data_ok M coll db sha256 (t_storage_root task) ?s1" using r(1) q(2) by (simp add: data_ok_def)
    have "R [ack task p] ?s1" if "n = 0" using d that t(1) u(2,3) i(2) q(2) by (auto simp: R_def session_settled_def cd_effect_def)
    moreover have "R ps ?s1" if "n \<noteq> 0" "\<not> acked ps" for ps using d that t(1) u(2,3) q(2) by (auto simp: R_def session_settled_def)
    ultimately show ?thesis using q(1) dir i(1) t(1) u(1) r(3) len
      by (auto simp: cd_enter_def Let_def intro!: handled_respond_str handled_respond)
  qed
qed

text \<open>Without an argument \<open>cd\<close> goes to the root.\<close>

definition cd_target :: "packet_task_t \<Rightarrow> string \<Rightarrow> bool" where
  "cd_target task p \<longleftrightarrow> copy_payload task PATH_MAX False = Some [] \<and> p = ''/'' \<or> names_path task PATH_MAX p"

lemma handle_cd_spec:
  assumes ready: "basic_ready M coll db sha256 task s"
    and names: "\<And>str. copy_payload task PATH_MAX False = Some str \<Longrightarrow> names_ok (ctx_cwd (t_session task)) str"
  defines "R \<equiv> session_settled M coll db sha256 task (\<lambda>ps t t'. \<exists>p. cd_target task p \<and> cd_effect coll task p (tabs (db (s_world s))) ps t t') s"
  shows "\<exists>s'. handle_cd M e env task s = Some s' \<and> handled R e (t_fd task) (Suc 0) s s'"
proof -
  note r = basic_readyD [OF ready]
  have bad: "handled R e (t_fd task) (Suc 0) s (respond e task CMD_ERROR st s)" for st
    using session_settled_same(2) [OF ready refl] r(3) unfolding R_def by (auto intro!: handled_respond)
  have cd: "\<exists>s'. cd_enter M e env task p s = Some s' \<and> handled R e (t_fd task) (Suc 0) s s'" if p: "good_path p" "cd_target task p" for p
  proof -
    obtain s' where x: "cd_enter M e env task p s = Some s'"
        "handled (session_settled M coll db sha256 task (cd_effect coll task p (tabs (db (s_world s)))) s) e (t_fd task) (Suc 0) s s'"
      using cd_enter_spec [OF ready p(1), of e env] by blast
    then show ?thesis using handled_mono [OF x(2), of R] p(2) by (auto simp: R_def session_settled_def)
  qed
  show ?thesis
  proof (cases "copy_payload task PATH_MAX False")
    case None
    then show ?thesis using bad by (simp add: handle_cd_def)
  next
    case (Some str)
    let ?p = "path_of (resolve (ctx_cwd (t_session task)) str)"
    have gp: "good_path ?p" using names [OF Some] by (simp add: names_ok_def)
    show ?thesis
    proof (cases "str = []")
      case True
      then have "cd_target task ''/''" using Some by (simp add: cd_target_def)
      then show ?thesis using True Some cd [OF good_path_root] by (simp add: handle_cd_def)
    next
      case False
      have "cd_target task ?p" using Some by (auto simp: cd_target_def names_path_def)
      then show ?thesis using False
        by (cases rule: normalize_cases [of "ctx_cwd (t_session task)" str]) (use Some bad cd [OF gp] in \<open>simp_all add: handle_cd_def\<close>)
    qed
  qed
qed

subsection \<open>Login and registration\<close>

lemma length_takeWhile_dropWhile: "length (takeWhile f (dropWhile g xs)) \<le> length xs"
  by (rule order_trans [OF length_takeWhile_le length_dropWhile_le])

lemma credentials_length: "credentials str = Some (name, password) \<Longrightarrow> length name \<le> length str"
proof -
  assume "credentials str = Some (name, password)"
  then obtain rest where "strtok_r newline str = Some (name, rest)" by (auto simp: credentials_def split: bind_splits)
  then have "name = takeWhile (\<lambda>c. c \<noteq> newline) (dropWhile (\<lambda>c. c = newline) str)" by (simp add: strtok_r_def Let_def split: if_splits)
  then show ?thesis using length_takeWhile_dropWhile by simp
qed

lemma copy_payload_length:
  assumes "copy_payload task n b = Some str"
  shows "length str < n"
proof -
  let ?bs = "case payload (t_packet task) of Some bs \<Rightarrow> take (unat (payload_len (t_header task))) bs | None \<Rightarrow> []"
  have "str = cstr_of ?bs" and n: "unat (payload_len (t_header task)) < n"
    using assms by (auto simp: copy_payload_def Let_def split: if_splits)
  then have "length str \<le> length ?bs" unfolding cstr_of_def by (metis length_map length_takeWhile_le)
  moreover have "length ?bs \<le> unat (payload_len (t_header task))" by (simp split: option.splits)
  ultimately show ?thesis using n by simp
qed

text \<open>
  A session is opened only for a user of that name whose stored hash is the hash of the password sent, and it is a
  session of that user.
\<close>

definition login_effect ::
  "(string \<Rightarrow> string) \<Rightarrow> (string \<Rightarrow> string \<Rightarrow> string option) \<Rightarrow> packet_task_t \<Rightarrow> tables \<Rightarrow> packet_t list \<Rightarrow> session_table_t \<Rightarrow> session_table_t \<Rightarrow> bool" where
  "login_effect coll crypt task d ps t t' \<longleftrightarrow>
     (\<exists>str name password u p key. copy_payload task 128 True = Some str \<and> credentials str = Some (name, password) \<and>
        login_row coll d name u p \<and> crypt password (ur_password u) = Some (ur_password u) \<and>
        session_created t (t_fd task) (word_of_nat (ur_id u)) (Some name) (word_of_nat (pr_id p)) (Some key) t' \<and>
        ps = [mk_packet CMD_ACK STATUS_OK key []])"

lemma login_check_spec:
  fixes crypt :: "string \<Rightarrow> string \<Rightarrow> string option"
  assumes ready: "basic_ready M coll db sha256 task s"
    and fresh: "\<And>t. s_table s = Some t \<Longrightarrow> fresh_ptr (sessions t) (be_session env) \<and> fresh_ptr (bindings t) (be_binding env)"
    and str: "copy_payload task 128 True = Some str" "credentials str = Some (name, password)" "plain name"
  defines "R \<equiv> session_settled M coll db sha256 task (login_effect coll crypt task (tabs (db (s_world s)))) s"
  shows "\<exists>s'. login_check M crypt e env task name password s = Some s' \<and> handled R e (t_fd task) (Suc 0) s s'"
proof -
  note r = basic_readyD [OF ready]
  have len: "length name \<le> 128" using credentials_length [OF str(2)] copy_payload_length [OF str(1)] by simp
  obtain t where t: "s_table s = Some t" "table_inv t" using ready by (auto simp: basic_ready_def)
  obtain ret info w1 where q: "dao_auth_get_login_info M (Some name) (s_pool s) (s_world s) = Some (ret, info, s_pool s, w1)" "db w1 = db (s_world s)"
    "ret = - 1 \<or> ret = 1 \<or> ret = 0 \<and> (\<exists>u p. login_row coll (tabs (db (s_world s))) name u p \<and>
       info = \<lparr>li_user_id = word_of_nat (ur_id u), li_password_hash = ur_password u, li_root_path_id = word_of_nat (pr_id p)\<rparr>)"
    by (rule dao_auth_get_login_info_spec [OF data_okD(1,2) [OF r(1,2)] str(3) len])
  have R1: "\<not> acked ps \<Longrightarrow> R ps (s\<lparr>s_world := w1\<rparr>)" for ps unfolding R_def by (rule session_settled_same(1) [OF ready q(2)])
  show ?thesis
  proof (cases "ret = 0 \<and> crypt password (li_password_hash info) = Some (li_password_hash info)")
    case False
    then show ?thesis using q(1,3) R1 r(3)
      by (auto simp: login_check_def Let_def intro!: handled_respond split: option.splits)
  next
    case True
    then obtain u p where u: "login_row coll (tabs (db (s_world s))) name u p"
        "info = \<lparr>li_user_id = word_of_nat (ur_id u), li_password_hash = ur_password u, li_root_path_id = word_of_nat (pr_id p)\<rparr>"
        "crypt password (ur_password u) = Some (ur_password u)"
      using q(3) by auto
    obtain n out t' where c: "session_create (Some t) (t_fd task) (word_of_nat (ur_id u)) (Some name) (word_of_nat (pr_id p))
          (be_session env) (be_binding env) (be_random env) (be_clock env) = Some (n, out, Some t')" "table_inv t'"
        "n = - 1 \<and> t' = t \<or> n = 0 \<and> session_created t (t_fd task) (word_of_nat (ur_id u)) (Some name) (word_of_nat (pr_id p)) out t'"
      using session_create_cases [OF t(2), of "be_session env" "be_binding env" "t_fd task" "word_of_nat (ur_id u)" "Some name" "word_of_nat (pr_id p)" "be_random env" "be_clock env"]
        fresh [OF t(1)] by blast
    let ?s2 = "s\<lparr>s_world := w1, s_table := Some t'\<rparr>"
    have d: "data_ok M coll db sha256 (t_storage_root task) ?s2" using r(1) q(2) by (simp add: data_ok_def)
    show ?thesis
    proof (cases "n = 0")
      case False
      then have "R ps ?s2" if "\<not> acked ps" for ps using d that t(1) c(2,3) q(2) by (auto simp: R_def session_settled_def)
      then show ?thesis using False q(1) True u c(1) t(1) r(3) by (auto simp: login_check_def Let_def intro!: handled_respond)
    next
      case n0: True
      then obtain key where key: "out = Some key" "wf_session_id key" using c(3) by (auto simp: session_created_def)
      have R2: "R [mk_packet CMD_ACK STATUS_OK key []] ?s2"
        using d n0 t(1) c(2,3) u str(1,2) q(2) unfolding R_def session_settled_def login_effect_def key(1) by auto
      have "replied e (t_fd task) [mk_packet CMD_ACK STATUS_OK key []] ?s2 (snd (send_response_with_session_id e task CMD_ACK STATUS_OK key None 0 ?s2))"
        by (rule send_response_replied [OF key(2)]) simp_all
      then have "handled R e (t_fd task) (Suc 0) s (snd (send_response_with_session_id e task CMD_ACK STATUS_OK key None 0 ?s2))"
        unfolding handled_def using R2 wf_mk_packet [OF key(2), of "[]" CMD_ACK STATUS_OK]
        by (intro exI [of _ ?s2] exI [of _ "[mk_packet CMD_ACK STATUS_OK key []]"]) simp
      then show ?thesis using q(1) True u c(1) t(1) n0 key(1) by (simp add: login_check_def Let_def)
    qed
  qed
qed

lemma handle_login_spec:
  fixes crypt :: "string \<Rightarrow> string \<Rightarrow> string option"
  assumes ready: "basic_ready M coll db sha256 task s"
    and fresh: "\<And>t. s_table s = Some t \<Longrightarrow> fresh_ptr (sessions t) (be_session env) \<and> fresh_ptr (bindings t) (be_binding env)"
    and names: "\<And>str name password. copy_payload task 128 True = Some str \<Longrightarrow> credentials str = Some (name, password) \<Longrightarrow> plain name"
  defines "R \<equiv> session_settled M coll db sha256 task (login_effect coll crypt task (tabs (db (s_world s)))) s"
  shows "\<exists>s'. handle_login M crypt e env task s = Some s' \<and> handled R e (t_fd task) (Suc 0) s s'"
proof -
  have bad: "handled R e (t_fd task) (Suc 0) s (respond e task CMD_ERROR STATUS_BAD_REQUEST s)"
    using session_settled_same(2) [OF ready refl] basic_readyD(3) [OF ready] unfolding R_def by (auto intro!: handled_respond)
  show ?thesis
  proof (cases "copy_payload task 128 True")
    case None
    then show ?thesis using bad by (simp add: handle_login_def)
  next
    case (Some str)
    show ?thesis
    proof (cases "credentials str")
      case None
      then show ?thesis using Some bad by (simp add: handle_login_def)
    next
      case c: (Some np)
      obtain name password where np: "np = (name, password)" by (metis prod.collapse)
      note st = Some c [unfolded np]
      show ?thesis using login_check_spec [OF ready fresh st names [OF st], of crypt e] st unfolding R_def by (simp add: handle_login_def)
    qed
  qed
qed

text \<open>\<open>crypt_r\<close> returns a printable string without quotes that fits into its output buffer.\<close>

definition crypt_ok :: "(string \<Rightarrow> string \<Rightarrow> string option) \<Rightarrow> bool" where
  "crypt_ok crypt \<longleftrightarrow> (\<forall>password setting h. crypt password setting = Some h \<longrightarrow> plain h \<and> length h < CRYPT_OUTPUT_SIZE)"

definition register_effect :: "(string \<Rightarrow> string) \<Rightarrow> (string \<Rightarrow> string \<Rightarrow> string option) \<Rightarrow> packet_task_t \<Rightarrow> database \<Rightarrow> packet_t list \<Rightarrow> tables \<Rightarrow> bool" where
  "register_effect coll crypt task d ps t \<longleftrightarrow>
     (\<exists>str name password salt hash. copy_payload task 128 True = Some str \<and> credentials str = Some (name, password) \<and>
        crypt password salt = Some hash \<and> user_added coll d name hash t)"

lemma user_added_ok:
  assumes "user_added coll d name hash t" "tree_ok (tabs d)"
  shows "tree_ok t" "hashes t = hashes (tabs d)"
proof -
  let ?r = "\<lparr>pr_id = next_path d, pr_user = next_user d, pr_path = ''/'', pr_file = None, pr_parent = None, pr_name = ''/'', pr_type = 1\<rparr>"
  have t: "t = (tabs d)\<lparr>users := users (tabs d) @ [\<lparr>ur_id = next_user d, ur_name = name, ur_password = hash\<rparr>], paths := paths (tabs d) @ [?r]\<rparr>"
    using assms(1) by (simp add: user_added_def)
  show "tree_ok t" by (rule tree_ok_add [OF assms(2), of t ?r]) (simp_all add: t)
  show "hashes t = hashes (tabs d)" by (simp add: t hashes_def)
qed

lemma basic_register:
  assumes ready: "basic_ready M coll db sha256 task s" and st: "plain name" "plain hash" "length name + length hash \<le> 900"
  obtains ret w' where "dao_auth_register M name hash (s_pool s) (s_world s) = Some (ret, s_pool s, w')"
    "\<forall>ps. (acked ps \<longrightarrow> ret = 0) \<longrightarrow> settled M coll db sha256 task (\<lambda>_. user_added coll (db (s_world s)) name hash) s ps (s\<lparr>s_world := w'\<rparr>)"
proof -
  note r = basic_readyD [OF ready]
  note d = data_okD [OF r(1,2)]
  let ?d = "db (s_world s)"
  let ?eff = "two_effect coll ?d (Insert_User name hash) (\<lambda>k. Insert_Root (unat k))"
  have good: "tables_inv coll t \<and> (\<forall>f \<in> set (files t). fr_size f < 2 ^ 64)" if "ret = 0 \<and> ?eff t" for t and ret :: int
    using register_tables_inv [OF d(5)] that d(5) by (auto simp: db_ok_def)
  obtain ret w' where x: "dao_auth_register M name hash (s_pool s) (s_world s) = Some (ret, s_pool s, w')" "db_ok coll (db w')"
      "tabs (db w') = tabs ?d \<or> (\<exists>ret. ret = (0 :: int) \<and> ?eff (tabs (db w')))" "ret = 0 \<and> ?eff (tabs (db w')) \<or> ret = - 1"
    by (rule outcome_ok [OF register_outcome [OF d(3,4,5) r(2) st] d(5) good]) blast+
  have "user_added coll ?d name hash (tabs (db w')) \<or> ret \<noteq> 0 \<and> tabs (db w') = tabs ?d" using x(3,4) register_user_added [OF r(2)] by force
  then have "\<forall>ps. (acked ps \<longrightarrow> ret = 0) \<longrightarrow> settled M coll db sha256 task (\<lambda>_. user_added coll ?d name hash) s ps (s\<lparr>s_world := w'\<rparr>)"
    using r(1) x(2) d(6,9) user_added_ok [of coll ?d name hash "tabs (db w')"] by (auto simp: settled_def data_ok_def)
  then show thesis using that x(1) by blast
qed

lemma handle_register_spec:
  fixes crypt :: "string \<Rightarrow> string \<Rightarrow> string option"
  assumes ready: "basic_ready M coll db sha256 task s" and crypt: "crypt_ok crypt"
    and names: "\<And>str name password. copy_payload task 128 True = Some str \<Longrightarrow> credentials str = Some (name, password) \<Longrightarrow> plain name"
  defines "R \<equiv> settled M coll db sha256 task (register_effect coll crypt task (db (s_world s))) s"
  shows "\<exists>s'. handle_register M crypt e env task s = Some s' \<and> handled R e (t_fd task) (Suc 0) s s'"
proof -
  note r = basic_readyD [OF ready]
  have bad: "handled R e (t_fd task) (Suc 0) s (respond e task CMD_ERROR st s)" for st
    using settled_same(2) [OF ready refl] r(3) unfolding R_def by (auto intro!: handled_respond)
  show ?thesis
  proof (cases "\<exists>str name password salt hash. copy_payload task 128 True = Some str \<and> credentials str = Some (name, password) \<and>
      generate_salt (be_salt env) 20 = Some salt \<and> crypt password salt = Some hash")
    case False
    then show ?thesis using bad by (auto simp: handle_register_def split: option.splits)
  next
    case True
    then obtain str name password salt hash where st: "copy_payload task 128 True = Some str" "credentials str = Some (name, password)"
        "generate_salt (be_salt env) 20 = Some salt" "crypt password salt = Some hash" by blast
    have len: "plain hash" "length name + length hash \<le> 900"
      using crypt [unfolded crypt_ok_def, rule_format, OF st(4)] credentials_length [OF st(2)] copy_payload_length [OF st(1)]
      by (auto simp: CRYPT_OUTPUT_SIZE_def)
    obtain ret w' where x: "dao_auth_register M name hash (s_pool s) (s_world s) = Some (ret, s_pool s, w')"
        "\<forall>ps. (acked ps \<longrightarrow> ret = 0) \<longrightarrow> settled M coll db sha256 task (\<lambda>_. user_added coll (db (s_world s)) name hash) s ps (s\<lparr>s_world := w'\<rparr>)"
      by (rule basic_register [OF ready names [OF st(1,2)] len])
    have "R ps (s\<lparr>s_world := w'\<rparr>)" if "acked ps \<longrightarrow> ret = 0" for ps using x(2) [THEN spec, THEN mp, OF that] st(1,2,4) unfolding R_def settled_def register_effect_def by blast
    then show ?thesis using st x(1) r(3) by (auto simp: handle_register_def Let_def intro!: handled_respond)
  qed
qed

subsection \<open>All commands\<close>

text \<open>The names in a request can be written into the statements as they are.\<close>

definition request_names_ok :: "packet_task_t \<Rightarrow> bool" where
  "request_names_ok task \<longleftrightarrow>
     (if ptype (t_header task) = CMD_LOGIN_REQ \<or> ptype (t_header task) = CMD_REGISTER_REQ
      then \<forall>str name password. copy_payload task 128 True = Some str \<longrightarrow> credentials str = Some (name, password) \<longrightarrow> plain name
      else good_path (ctx_cwd (t_session task)) \<and>
        (\<forall>n str. copy_payload task n False = Some str \<longrightarrow> names_ok (ctx_cwd (t_session task)) str))"

text \<open>What every command keeps; a new binding can only be one of the task's own descriptor.\<close>

definition served ::
  "'w mysql \<Rightarrow> (string \<Rightarrow> string) \<Rightarrow> ('w \<Rightarrow> database) \<Rightarrow> (byte list \<Rightarrow> byte list) \<Rightarrow> packet_task_t \<Rightarrow> 'w server_t \<Rightarrow> packet_t list \<Rightarrow> 'w server_t \<Rightarrow> bool" where
  "served M coll db sha256 task s ps s' \<longleftrightarrow> data_ok M coll db sha256 (t_storage_root task) s' \<and>
     (\<exists>t t'. s_table s = Some t \<and> s_table s' = Some t' \<and> table_inv t' \<and> dom (bound (abs_table t')) \<subseteq> insert (t_fd task) (dom (bound (abs_table t))))"

lemma settled_served:
  assumes "basic_ready M coll db sha256 task s" "settled M coll db sha256 task E s ps s1"
  shows "served M coll db sha256 task s ps s1"
  using assms by (auto simp: settled_def served_def basic_ready_def)

lemma session_settled_served:
  assumes "session_settled M coll db sha256 task E s ps s1"
    "\<And>t t'. E ps t t' \<Longrightarrow> dom (bound (abs_table t')) \<subseteq> insert (t_fd task) (dom (bound (abs_table t)))"
  shows "served M coll db sha256 task s ps s1"
  using assms unfolding session_settled_def served_def by (metis subset_insertI)

lemma cd_effect_bound: "cd_effect coll task p d ps t t' \<Longrightarrow> bound (abs_table t') = bound (abs_table t)"
  by (auto simp: cd_effect_def spec_update_cwd_def split: option.splits if_splits) (metis session_spec.select_convs(2) session_spec.surjective session_spec.update_convs(1))

lemma login_effect_bound: "login_effect coll crypt task d ps t t' \<Longrightarrow> dom (bound (abs_table t')) \<subseteq> insert (t_fd task) (dom (bound (abs_table t)))"
  by (auto simp: login_effect_def session_created_def spec_create_def)

lemma handled_served:
  assumes "\<exists>s'. res = Some s' \<and> handled R e fd (Suc 0) s s'" "\<And>ps s1. R ps s1 \<Longrightarrow> R' ps s1"
  shows "\<exists>s' n. res = Some s' \<and> handled R' e fd n s s' \<and> (n = Suc 0 \<or> P \<and> n = 2)"
  using assms handled_mono by blast

lemma basic_dispatch_served:
  assumes ready: "basic_ready M coll db sha256 task s" and crypt: "crypt_ok crypt" and names: "request_names_ok task"
    and fresh: "\<And>t. s_table s = Some t \<Longrightarrow> fresh_ptr (sessions t) (be_session env) \<and> fresh_ptr (bindings t) (be_binding env)"
  shows "\<exists>s' n. basic_dispatch M crypt e env task s = Some s' \<and> handled (served M coll db sha256 task s) e (t_fd task) n s s' \<and>
    (n = Suc 0 \<or> (ptype (t_header task) = CMD_RM \<and> \<not> kcalm (s_kern s)) \<and> n = 2)"
proof -
  note done1 = handled_served [where R' = "served M coll db sha256 task s" and P = "ptype (t_header task) = CMD_RM \<and> \<not> kcalm (s_kern s)"]
  note st = settled_served [OF ready]
  have mono: "handled (served M coll db sha256 task s) e (t_fd task) n s s'" if "handled (settled M coll db sha256 task E s) e (t_fd task) n s s'" for E n s'
    by (rule handled_mono [OF that st])
  consider "ptype (t_header task) = CMD_REGISTER_REQ" | "ptype (t_header task) = CMD_LOGIN_REQ" | "ptype (t_header task) = CMD_PWD"
    | "ptype (t_header task) = CMD_CD" | "ptype (t_header task) = CMD_LS" | "ptype (t_header task) = CMD_MKDIR"
    | "ptype (t_header task) = CMD_RMDIR" | "ptype (t_header task) = CMD_RM"
    | "ptype (t_header task) \<notin> {CMD_REGISTER_REQ, CMD_LOGIN_REQ, CMD_PWD, CMD_CD, CMD_LS, CMD_MKDIR, CMD_RMDIR, CMD_RM}"
    by blast
  then show ?thesis
  proof cases
    case 1
    then have n: "\<And>str name password. copy_payload task 128 True = Some str \<Longrightarrow> credentials str = Some (name, password) \<Longrightarrow> plain name"
      using names by (auto simp: request_names_ok_def)
    show ?thesis using done1 [OF handle_register_spec [OF ready crypt n] st] 1 by (simp add: basic_dispatch_def)
  next
    case 2
    then have n: "\<And>str name password. copy_payload task 128 True = Some str \<Longrightarrow> credentials str = Some (name, password) \<Longrightarrow> plain name"
      using names by (auto simp: request_names_ok_def)
    show ?thesis
      using done1 [OF handle_login_spec [OF ready fresh n] session_settled_served [OF _ login_effect_bound]] 2 by (simp add: basic_dispatch_def)
  next
    case 3
    then show ?thesis using mono [OF handle_pwd_spec [OF ready, of e]] by (simp add: basic_dispatch_def)
  next
    case 4
    then have n: "\<And>str. copy_payload task PATH_MAX False = Some str \<Longrightarrow> names_ok (ctx_cwd (t_session task)) str"
      using names by (auto simp: request_names_ok_def)
    have b: "served M coll db sha256 task s ps s1" if "session_settled M coll db sha256 task
        (\<lambda>ps t t'. \<exists>p. cd_target task p \<and> cd_effect coll task p (tabs (db (s_world s))) ps t t') s ps s1" for ps s1
      using that by (rule session_settled_served) (use cd_effect_bound in fastforce)
    show ?thesis using done1 [OF handle_cd_spec [OF ready n] b] 4 by (simp add: basic_dispatch_def)
  next
    case 5
    then have n: "good_path (ctx_cwd (t_session task))" "\<And>str. copy_payload task PATH_MAX False = Some str \<Longrightarrow> names_ok (ctx_cwd (t_session task)) str"
      using names by (auto simp: request_names_ok_def)
    show ?thesis using done1 [OF handle_ls_spec [OF ready n] st] 5 by (simp add: basic_dispatch_def)
  next
    case 6
    then have n: "\<And>str. copy_payload task NAME_MAX False = Some str \<Longrightarrow> names_ok (ctx_cwd (t_session task)) str"
      using names by (auto simp: request_names_ok_def)
    show ?thesis using done1 [OF handle_mkdir_spec [OF ready n] st] 6 by (simp add: basic_dispatch_def)
  next
    case 7
    then have n: "\<And>str. copy_payload task NAME_MAX False = Some str \<Longrightarrow> names_ok (ctx_cwd (t_session task)) str"
      using names by (auto simp: request_names_ok_def)
    show ?thesis using done1 [OF handle_rmdir_spec [OF ready n] st] 7 by (simp add: basic_dispatch_def)
  next
    case 8
    then have n: "\<And>str. copy_payload task NAME_MAX False = Some str \<Longrightarrow> names_ok (ctx_cwd (t_session task)) str"
      using names by (auto simp: request_names_ok_def)
    obtain s' m where x: "handle_rm M e task s = Some s'" "handled (settled M coll db sha256 task (rm_effect coll task (tabs (db (s_world s)))) s) e (t_fd task) m s s'"
        "m = Suc 0 \<or> m = 2 \<and> \<not> kcalm (s_kern s)"
      using handle_rm_spec [OF ready n, of e] by blast
    show ?thesis using x(1,3) mono [OF x(2)] 8 by (auto simp: basic_dispatch_def)
  next
    case 9
    have "handled (settled M coll db sha256 task (\<lambda>_ _. False) s) e (t_fd task) (Suc 0) s (respond e task CMD_ERROR STATUS_PROTOCOL_ERROR s)"
      using settled_same(2) [OF ready refl] basic_readyD(3) [OF ready] by (auto intro!: handled_respond)
    from mono [OF this] 9 show ?thesis by (simp add: basic_dispatch_def)
  qed
qed

end
