(* ===== verification/Handler_Basic_Properties.thy ===== *)
theory Handler_Basic_Properties
  imports Handler_Basic_Correct
begin

text \<open>The properties of the command handlers, and a server on which they can be tried.\<close>

subsection \<open>Requests to try the properties on\<close>

definition sample_task :: "u32 \<Rightarrow> string \<Rightarrow> packet_task_t" where
  "sample_task type str = \<lparr>t_fd = 5, t_packet = mk_packet type STATUS_OK sample_key (bytes_of str),
     t_session = \<lparr>ctx_user_id = 1, ctx_cwd_id = 1, ctx_username = ''ann'', ctx_cwd = ''/''\<rparr>, t_storage_root = ''/s''\<rparr>"

definition sample_env :: basic_env where
  "sample_env = \<lparr>be_salt = None, be_session = None, be_binding = None, be_random = [], be_clock = [], be_now = None, be_publish = 0,
     be_track_clock = None, be_timer = None\<rparr>"

abbreviation "sample_start \<equiv> sample_state (Some empty_table) sample_wheel []"

lemma sample_basic_ready: "basic_ready reference_mysql (\<lambda>s. s) srv_db sample_sha256 (sample_task type str) sample_start"
  using sample_data_ok sample_room sample_upload_request(3) session_table_create_ok
  by (auto simp: basic_ready_def sample_task_def sample_state_def mk_packet_def empty_table_def)

lemma sample_payload:
  assumes "is_cstr str" "str \<noteq> []" "length str < 2 ^ 32" "copy_payload (sample_task type str) n b = Some x"
  shows "x = str"
proof -
  have "unat (word_of_nat (length str) :: u32) = length str" "bytes_of str \<noteq> []" using assms(2,3) by (simp_all add: unat_of_nat bytes_of_def)
  then show ?thesis using assms(1,4) by (auto simp: copy_payload_def sample_task_def mk_packet_def Let_def split: if_splits)
qed

lemma sample_request_names:
  assumes "type \<noteq> CMD_LOGIN_REQ" "type \<noteq> CMD_REGISTER_REQ" "plain [c]" "c \<noteq> CHR ''/''" "c \<noteq> CHR ''.''"
  shows "request_names_ok (sample_task type [c])"
proof -
  have "is_cstr [c]" using assms(3) by (simp add: is_cstr_def plain_def)
  then have "names_ok ''/'' str" if "copy_payload (sample_task type [c]) n False = Some str" for n str
    using sample_payload [OF _ _ _ that] assms(3-)
    by (simp add: names_ok_def resolve_def full_path_def components_def walk_def path_of_def good_path_def plain_def Q_def NUL_def)
  then show ?thesis using assms(1,2) by (simp add: request_names_ok_def) (simp add: sample_task_def mk_packet_def)
qed

lemma sample_login_names: "request_names_ok (sample_task CMD_LOGIN_REQ (''ann'' @ [newline] @ ''pw''))"
proof -
  have "credentials (''ann'' @ [newline] @ ''pw'') = Some (''ann'', ''pw'')" by (simp add: credentials_def strtok_r_def newline_def)
  moreover have "is_cstr (''ann'' @ [newline] @ ''pw'')" by (simp add: is_cstr_def NUL_def newline_def)
  moreover have "plain ''ann''" by (simp add: plain_def Q_def NUL_def)
  ultimately have "plain name" if "copy_payload (sample_task CMD_LOGIN_REQ (''ann'' @ [newline] @ ''pw'')) 128 True = Some str"
    "credentials str = Some (name, password)" for str name password
    using sample_payload [OF _ _ _ that(1)] that(2) by auto
  then show ?thesis by (auto simp: request_names_ok_def) (auto simp: sample_task_def mk_packet_def)
qed

lemma sample_crypt_ok: "crypt_ok (\<lambda>_ _. Some ''x'')"
  by (simp add: crypt_ok_def plain_def Q_def NUL_def CRYPT_OUTPUT_SIZE_def)

lemma sample_fresh:
  "s_table sample_start = Some t \<Longrightarrow> fresh_ptr (sessions t) (be_session sample_env) \<and> fresh_ptr (bindings t) (be_binding sample_env)"
  by (simp add: sample_env_def fresh_ptr_def)

lemma sample_sends [simp]: "no_fail (tx_io (s_socks sample_start fd))" "tx (s_socks sample_start fd) = []" "t_fd (sample_task type str) = 5"
    "kcalm (s_kern sample_start)"
  by (simp_all add: sample_state_def sample_sock_def sample_task_def kcalm_def)

subsection \<open>One request, one answer\<close>

text \<open>The packets \<open>ps\<close> are all that a client sees of a request; its sockets, timers and descriptors are as before.\<close>

definition answered :: "int \<Rightarrow> packet_t list \<Rightarrow> 'w server_t \<Rightarrow> 'w server_t \<Rightarrow> bool" where
  "answered fd ps s s' \<longleftrightarrow> (no_fail (tx_io (s_socks s fd)) \<longrightarrow> tx (s_socks s' fd) = tx (s_socks s fd) @ frames ps) \<and> (\<forall>p \<in> set ps. wf_packet p) \<and>
     rx (s_socks s' fd) = rx (s_socks s fd) \<and> (\<forall>fd'. fd' \<noteq> fd \<longrightarrow> s_socks s' fd' = s_socks s fd') \<and>
     s_pool s' = s_pool s \<and> s_wheel s' = s_wheel s \<and> s_epoll s' = s_epoll s \<and> s_open s' = s_open s"

lemma handled_answered:
  assumes h: "handled R e fd n s s'" and R: "\<And>ps s1 x. R ps s1 \<Longrightarrow> R ps (s1\<lparr>s_socks := x\<rparr>)"
  obtains ps where "answered fd ps s s'" "length ps = n" "R ps s'"
proof -
  obtain s1 ps where x: "R ps s1" "quiet s s1" "replied e fd ps s1 s'" "length ps = n" "\<forall>p \<in> set ps. wf_packet p"
    using h by (auto simp: handled_def)
  have s': "sending (s_socks s1 fd) (s_socks s' fd)" "no_fail (tx_io (s_socks s1 fd)) \<longrightarrow> tx (s_socks s' fd) = tx (s_socks s1 fd) @ frames ps"
    using x(3) by (auto simp: replied_def)
  obtain sock where sock: "s' = s1\<lparr>s_socks := (s_socks s1)(fd := sock)\<rparr>" using x(3) unfolding replied_def by blast
  then have "answered fd ps s s'" using s' x(2,5) by (auto simp: answered_def quiet_def sending_def)
  moreover have "R ps s'" unfolding sock by (rule R [OF x(1)])
  ultimately show thesis using that x(4) by blast
qed

lemma handled_answered_one:
  assumes "\<exists>s'. res = Some s' \<and> handled R e fd (Suc 0) s s'" "\<And>ps s1 x. R ps s1 \<Longrightarrow> R ps (s1\<lparr>s_socks := x\<rparr>)"
  shows "\<exists>s' p. res = Some s' \<and> answered fd [p] s s' \<and> R [p] s'"
proof -
  obtain s' where s': "res = Some s'" "handled R e fd (Suc 0) s s'" using assms(1) by blast
  obtain ps where "answered fd ps s s'" "length ps = Suc 0" "R ps s'" by (rule handled_answered [OF s'(2)]) (rule assms(2))
  then show ?thesis using s'(1) by (auto simp: length_Suc_conv)
qed

lemma settled_socks:
  "settled M coll db sha256 task E s ps s1 \<Longrightarrow> settled M coll db sha256 task E s ps (s1\<lparr>s_socks := x\<rparr>)"
  "session_settled M coll db sha256 task E' s ps s1 \<Longrightarrow> session_settled M coll db sha256 task E' s ps (s1\<lparr>s_socks := x\<rparr>)"
  "served M coll db sha256 task s ps s1 \<Longrightarrow> served M coll db sha256 task s ps (s1\<lparr>s_socks := x\<rparr>)"
  by (auto simp: settled_def session_settled_def served_def data_ok_def)

lemma settled_one:
  assumes "\<exists>s'. res = Some s' \<and> handled (settled M coll db sha256 task E s) e (t_fd task) (Suc 0) s s'"
  shows "\<exists>s' p. res = Some s' \<and> answered (t_fd task) [p] s s' \<and> settled M coll db sha256 task E s [p] s'"
  using assms by (rule handled_answered_one) (rule settled_socks(1))

lemma session_settled_one:
  assumes "\<exists>s'. res = Some s' \<and> handled (session_settled M coll db sha256 task E s) e (t_fd task) (Suc 0) s s'"
  shows "\<exists>s' p. res = Some s' \<and> answered (t_fd task) [p] s s' \<and> session_settled M coll db sha256 task E s [p] s'"
  using assms by (rule handled_answered_one) (rule settled_socks(2))



subsection \<open>Sessions and users\<close>





subsection \<open>The directory tree\<close>





subsection \<open>Removing files\<close>



text \<open>
  When the kernel refuses to remove the stored file, the client gets an error and then the acknowledgement of the same
  request: two answers to one request.
\<close>

lemma rm_delete_refused:
  assumes "dao_path_get_node_id M (ctx_user_id (t_session task)) p (s_pool s) (s_world s) = Some (DAO_PATH_IS_FILE, Some i, pool1, w1)"
    "dao_rm_file M (ctx_user_id (t_session task)) i NAME_MAX pool1 w1 = Some ((DAO_SHOULD_DELETE_PHYSICAL, hash), pool2, w2)"
    "unlink (fst (snprintf (PATH_MAX + NAME_MAX + 1) (t_storage_root task @ ''/'' @ hash))) (s_kern s) = (False, k)"
    "wf_session_id (session_id (t_header task))" "length name \<le> 65536"
  shows "\<exists>s'. rm_delete M e task p name s = Some s' \<and>
    replied e (t_fd task) [mk_packet CMD_ERROR STATUS_IO_ERROR (session_id (t_header task)) (bytes_of name), ack task name]
      (s\<lparr>s_pool := pool2, s_world := w2, s_kern := k\<rparr>) s'"
proof -
  let ?s = "s\<lparr>s_pool := pool2, s_world := w2, s_kern := k\<rparr>"
  have "rm_delete M e task p name s = Some (respond_str e task CMD_ACK STATUS_OK name (respond_str e task CMD_ERROR STATUS_IO_ERROR name ?s))"
    using assms(1-3) by (simp add: rm_delete_def Let_def del: snprintf_def)
  then show ?thesis
    using replied_append [OF respond_str_replied [OF assms(4,5), of e CMD_ERROR STATUS_IO_ERROR ?s] respond_str_replied [OF assms(4,5), of e CMD_ACK STATUS_OK]]
    by simp
qed

end
