(* ===== verification/Handler_Event.thy ===== *)
theory Handler_Event
  imports Handler_Transfer
begin

text \<open>
  The event handlers of the main thread (\<open>src/server/handler_event.c\<close>) and the event loop of
  \<open>src/server/main.c\<close>: accepting connections, reading one request packet, checking its session, and handing
  the request to the worker pool. \<open>loop_t\<close> adds to the server's state the tasks that wait in the pool; the
  pool itself, which starts them in this order, is \<open>Thread_Pool\<close>.
\<close>

datatype task = Basic_Task packet_task_t | Transfer_Task transfer_task_t

record 'w loop_t = "'w server_t" +
  l_tasks :: "task list"

text \<open>
  The answers of the calls made for one event: whether the task, the packet's payload and the transfer task
  can be allocated, the clock and the memory for a new binding, and what \<open>thread_pool_add\<close> returns.
\<close>

record event_env =
  ee_task :: bool
  ee_payload :: bool
  ee_clock :: "timespec option"
  ee_binding :: ptr
  ee_transfer :: bool
  ee_add :: int

abbreviation (input) EPOLLIN :: u32 where "EPOLLIN \<equiv> 0x1"
abbreviation (input) EPOLLERR :: u32 where "EPOLLERR \<equiv> 0x8"
abbreviation (input) EPOLLHUP :: u32 where "EPOLLHUP \<equiv> 0x10"
abbreviation (input) EPOLLRDHUP :: u32 where "EPOLLRDHUP \<equiv> 0x2000"

subsection \<open>Helpers\<close>

definition command_is_anonymous :: "u32 \<Rightarrow> bool" where
  "command_is_anonymous type \<longleftrightarrow> type = CMD_LOGIN_REQ \<or> type = CMD_REGISTER_REQ"

definition send_event_error :: "endian \<Rightarrow> int \<Rightarrow> session_id_t \<Rightarrow> u32 \<Rightarrow> 'w loop_t \<Rightarrow> int \<times> 'w loop_t" where
  "send_event_error e fd key st s =
     (let (ret, response) = packet_init (Some zero_packet) CMD_ERROR st (Some key) None 0
      in if ret \<noteq> 0 then (- 1, s)
         else (let (ret, sock) = protocol_send_packet e response (s_socks s fd)
               in (ret, s\<lparr>s_socks := (s_socks s)(fd := sock)\<rparr>)))"

text \<open>\<open>close_client\<close>; \<open>handle_accept_event\<close> passes no session table.\<close>

definition close_client :: "bool \<Rightarrow> int \<Rightarrow> 'w loop_t \<Rightarrow> 'w loop_t option" where
  "close_client with_table fd s = do {
     wheel \<leftarrow> timer_wheel_remove (s_wheel s) fd;
     tbl \<leftarrow> (if with_table then session_detach_fd (s_table s) fd else Some (s_table s));
     Some (s\<lparr>s_wheel := wheel, s_epoll := s_epoll s - {fd}, s_table := tbl, s_open := s_open s - {fd}\<rparr>) }"

subsection \<open>New connections\<close>

text \<open>\<open>fd\<close> is what \<open>accept\<close> returns, \<open>sock\<close> the connection behind it, \<open>ctl\<close> the result of \<open>network_add_epoll_fd\<close>.\<close>

definition handle_accept_event :: "int \<Rightarrow> sock \<Rightarrow> int \<Rightarrow> timespec option \<Rightarrow> ptr \<Rightarrow> 'w loop_t \<Rightarrow> 'w loop_t option" where
  "handle_accept_event fd sock ctl clock new s =
     (if fd = - 1 then Some s
      else do {
        let s = s\<lparr>s_open := insert fd (s_open s), s_socks := (s_socks s)(fd := sock)\<rparr>;
        if ctl \<noteq> 0 then close_client False fd s
        else do {
          let s = s\<lparr>s_epoll := insert fd (s_epoll s)\<rparr>;
          (ret, wheel) \<leftarrow> timer_wheel_track (s_wheel s) fd clock new;
          let s = s\<lparr>s_wheel := wheel\<rparr>;
          if ret \<noteq> 0 then close_client False fd s else Some s } })"

subsection \<open>Requests\<close>

text \<open>Handing the request over: the descriptor leaves the timer wheel and the epoll set.\<close>

definition submit_task :: "event_env \<Rightarrow> int \<Rightarrow> packet_t \<Rightarrow> session_context_t \<Rightarrow> string \<Rightarrow> string \<Rightarrow> 'w loop_t \<Rightarrow> 'w loop_t option" where
  "submit_task env fd packet ctx storage_root transfer_temp_dir s = do {
     wheel \<leftarrow> timer_wheel_remove (s_wheel s) fd;
     let s = s\<lparr>s_wheel := wheel\<rparr>;
     let transfer = (ptype (header packet) = CMD_PUTS_REQ \<or> ptype (header packet) = CMD_GETS_REQ);
     if transfer \<and> \<not> ee_transfer env then close_client True fd s
     else do {
       let task = (if transfer
                   then Transfer_Task \<lparr>x_fd = fd, x_packet = packet, x_session = ctx, x_storage_root = storage_root, x_temp_dir = transfer_temp_dir\<rparr>
                   else Basic_Task \<lparr>t_fd = fd, t_packet = packet, t_session = ctx, t_storage_root = strncpy PATH_MAX storage_root\<rparr>);
       let s = s\<lparr>s_epoll := s_epoll s - {fd}\<rparr>;
       if ee_add env \<noteq> 0 then close_client True fd s
       else Some (s\<lparr>l_tasks := l_tasks s @ [task]\<rparr>) } }"

text \<open>An anonymous task has the session context that \<open>calloc\<close> left.\<close>

definition no_context :: session_context_t where
  "no_context = \<lparr>ctx_user_id = 0, ctx_cwd_id = 0, ctx_username = [], ctx_cwd = []\<rparr>"

text \<open>A refused request: the error is sent, and the connection closed only when that fails.\<close>

definition refuse :: "endian \<Rightarrow> int \<Rightarrow> session_id_t \<Rightarrow> u32 \<Rightarrow> 'w loop_t \<Rightarrow> 'w loop_t option" where
  "refuse e fd key st s =
     (let (ret, s) = send_event_error e fd key st s in if ret \<noteq> 0 then close_client True fd s else Some s)"

definition handle_client_event ::
  "endian \<Rightarrow> event_env \<Rightarrow> int \<Rightarrow> u32 \<Rightarrow> string \<Rightarrow> string \<Rightarrow> 'w loop_t \<Rightarrow> 'w loop_t option" where
  "handle_client_event e env fd events storage_root transfer_temp_dir s =
     (if events AND (EPOLLRDHUP OR EPOLLHUP OR EPOLLERR) \<noteq> 0 then close_client True fd s
      else if events AND EPOLLIN \<noteq> 0 then
        (if \<not> ee_task env then close_client True fd s
         else
           (case protocol_recv_packet e (ee_payload env) (s_socks s fd) of (ret, packet, sock) \<Rightarrow> do {
              let s = s\<lparr>s_socks := (s_socks s)(fd := sock)\<rparr>;
              if ret \<noteq> 0 then close_client True fd s
              else do {
                let key = session_id (header packet);
                if command_is_anonymous (ptype (header packet)) then
                  (if \<not> session_id_is_empty (Some key) then refuse e fd key STATUS_BAD_REQUEST s
                   else submit_task env fd packet no_context storage_root transfer_temp_dir s)
                else do {
                  (ret, ctx, tbl) \<leftarrow> session_authorize (s_table s) fd key (ee_clock env) (ee_binding env);
                  let s = s\<lparr>s_table := tbl\<rparr>;
                  if ret \<noteq> 0 then refuse e fd key STATUS_UNAUTHORIZED s
                  else do { c \<leftarrow> ctx; submit_task env fd packet c storage_root transfer_temp_dir s } } } }))
      else Some s)"

subsection \<open>The event loop\<close>

definition close_idle_client :: "int \<Rightarrow> 'w loop_t \<Rightarrow> 'w loop_t option" where
  "close_idle_client fd s = do {
     tbl \<leftarrow> session_detach_fd (s_table s) fd;
     Some (s\<lparr>s_epoll := s_epoll s - {fd}, s_table := tbl, s_open := s_open s - {fd}\<rparr>) }"

primrec close_idle_clients :: "int list \<Rightarrow> 'w loop_t \<Rightarrow> 'w loop_t option" where
  "close_idle_clients [] s = Some s"
| "close_idle_clients (fd # fds) s = do { s \<leftarrow> close_idle_client fd s; close_idle_clients fds s }"

text \<open>
  What \<open>epoll_wait\<close> reports for one descriptor: the shutdown pipe, the timer (with the result of reading
  it), the listening socket, or a client.
\<close>

datatype event = Shutdown | Tick bool | Accept int sock int "timespec option" ptr | Client int u32 event_env

text \<open>One batch of events: \<open>None\<close> inside is the return of \<open>main\<close>, otherwise whether the timer was ready.\<close>

primrec handle_events ::
  "endian \<Rightarrow> string \<Rightarrow> string \<Rightarrow> event list \<Rightarrow> bool \<Rightarrow> 'w loop_t \<Rightarrow> ((bool \<times> 'w loop_t) option) option" where
  "handle_events e root temp [] timer_ready s = Some (Some (timer_ready, s))"
| "handle_events e root temp (ev # evs) timer_ready s =
     (case ev of
        Shutdown \<Rightarrow> Some None
      | Tick ok \<Rightarrow> handle_events e root temp evs (timer_ready \<or> ok) s
      | Accept fd sock ctl clock new \<Rightarrow> do {
          s \<leftarrow> handle_accept_event fd sock ctl clock new s;
          handle_events e root temp evs timer_ready s }
      | Client fd events env \<Rightarrow> do {
          s \<leftarrow> handle_client_event e env fd events root temp s;
          handle_events e root temp evs timer_ready s })"

text \<open>One round of the loop: the batch, then the expiry of idle connections.\<close>

definition loop_round ::
  "endian \<Rightarrow> string \<Rightarrow> string \<Rightarrow> event list \<Rightarrow> timespec option \<Rightarrow> 'w loop_t \<Rightarrow> ('w loop_t option) option" where
  "loop_round e root temp evs clock s = do {
     r \<leftarrow> handle_events e root temp evs False s;
     (case r of
        None \<Rightarrow> Some None
      | Some (timer_ready, s) \<Rightarrow>
          if timer_ready then do {
            (_, wheel, expired) \<leftarrow> timer_wheel_advance (s_wheel s) clock;
            s \<leftarrow> close_idle_clients expired (s\<lparr>s_wheel := wheel\<rparr>);
            Some (Some s) }
          else Some (Some s)) }"

end
