(* ===== verification/Timer_Wheel_Correct.thy ===== *)
theory Timer_Wheel_Correct
  imports Timer_Wheel
begin

text \<open>
  Correctness of the timer wheel: the descriptor index satisfies the contract \<open>chained_index\<close>, the
  slots are doubly linked lists, every operation preserves the invariant \<open>wheel_inv\<close> and is memory
  safe, and the wheel refines a map from descriptors to deadlines: advancing never expires a
  descriptor early and never leaves one behind whose tick has passed.
\<close>

lemma tw_bucket_count_pos: "0 < TIMER_FD_BUCKET_COUNT"
  by (simp add: TIMER_FD_BUCKET_COUNT_def)

interpretation timer_ix: chained_index tn_fd tn_hash_next "\<lambda>n v. n\<lparr>tn_hash_next := v\<rparr>" tw_hash_fd
  TIMER_FD_BUCKET_COUNT
  by unfold_locales (simp_all add: tw_hash_fd_def tw_bucket_count_pos)

subsection \<open>Doubly linked lists\<close>

text \<open>
  A segment from \<open>p\<close> through the nodes \<open>as\<close> to \<open>q\<close>, where the node before \<open>p\<close> is \<open>prev\<close>.
\<close>

primrec dseg :: "timer_node heap \<Rightarrow> ptr \<Rightarrow> ptr \<Rightarrow> nat list \<Rightarrow> ptr \<Rightarrow> bool" where
  "dseg h prev p [] q \<longleftrightarrow> p = q"
| "dseg h prev p (a # as) q \<longleftrightarrow> p = Some a \<and>
     (\<exists>n. h a = Some n \<and> slot_previous n = prev \<and> dseg h (Some a) (slot_next n) as q)"

definition lastp :: "ptr \<Rightarrow> nat list \<Rightarrow> ptr" where
  "lastp prev xs = (if xs = [] then prev else Some (last xs))"

abbreviation dll :: "timer_node heap \<Rightarrow> ptr \<Rightarrow> nat list \<Rightarrow> bool" where
  "dll h p as \<equiv> dseg h None p as None"

lemma lastp_simps [simp]: "lastp prev [] = prev" "lastp prev (a # as) = lastp (Some a) as"
  by (simp_all add: lastp_def)

lemma dseg_append: "dseg h prev p (xs @ ys) q \<longleftrightarrow> (\<exists>r. dseg h prev p xs r \<and> dseg h (lastp prev xs) r ys q)"
  by (induction xs arbitrary: prev p) auto

lemma dseg_frame:
  "dseg h prev p as q \<Longrightarrow> (\<And>a. a \<in> set as \<Longrightarrow> map_option slot_previous (h' a) = map_option slot_previous (h a)) \<Longrightarrow>
    (\<And>a. a \<in> set as \<Longrightarrow> map_option slot_next (h' a) = map_option slot_next (h a)) \<Longrightarrow> dseg h' prev p as q"
proof (induction as arbitrary: prev p)
  case (Cons a as)
  obtain n where n: "p = Some a" "h a = Some n" "slot_previous n = prev" "dseg h (Some a) (slot_next n) as q"
    using Cons.prems(1) by auto
  obtain n' where n': "h' a = Some n'" "slot_previous n' = prev" "slot_next n' = slot_next n"
    using Cons.prems(2,3) [of a] n(2,3) by auto
  have "dseg h' (Some a) (slot_next n) as q" by (rule Cons.IH [OF n(4)]) (simp_all add: Cons.prems)
  then show ?case using n n' by simp
qed simp

lemma dseg_agree: "dseg h prev p as q \<Longrightarrow> (\<And>a. a \<in> set as \<Longrightarrow> h' a = h a) \<Longrightarrow> dseg h' prev p as q"
  by (rule dseg_frame) simp_all

lemma dll_chain: "dseg h prev p as None \<Longrightarrow> chain slot_next h p as"
  by (induction as arbitrary: prev p) auto

lemma dll_distinct: "dseg h prev p as None \<Longrightarrow> distinct as"
  by (rule chain_distinct [OF dll_chain])

lemma dseg_live: "dseg h prev p as q \<Longrightarrow> a \<in> set as \<Longrightarrow> \<exists>n. h a = Some n"
  by (induction as arbitrary: prev p) auto

text \<open>Writing the links at the ends of a segment.\<close>

lemma dseg_set_last:
  assumes "dseg h prev p xs r" "xs \<noteq> []" "distinct xs" "h (last xs) = Some l"
  shows "dseg (h(last xs \<mapsto> l\<lparr>slot_next := q\<rparr>)) prev p xs q"
  using assms
proof (induction xs arbitrary: prev p)
  case (Cons a xs)
  show ?case
  proof (cases "xs = []")
    case False
    obtain n where n: "p = Some a" "h a = Some n" "slot_previous n = prev" "dseg h (Some a) (slot_next n) xs r"
      using Cons.prems(1) by auto
    have "dseg (h(last xs \<mapsto> l\<lparr>slot_next := q\<rparr>)) (Some a) (slot_next n) xs q"
      by (rule Cons.IH [OF n(4)]) (use Cons.prems False in auto)
    moreover have "last xs \<noteq> a" using Cons.prems(3) False by auto
    ultimately show ?thesis using n False by (simp add: fun_upd_def)
  qed (use Cons.prems in auto)
qed simp

lemma dseg_set_first:
  assumes "dseg h prev p (y # ys) q" "distinct (y # ys)" "h y = Some m"
  shows "dseg (h(y \<mapsto> m\<lparr>slot_previous := prev'\<rparr>)) prev' p (y # ys) q"
proof -
  have "dseg h (Some y) (slot_next m) ys q" using assms(1,3) by auto
  then have "dseg (h(y \<mapsto> m\<lparr>slot_previous := prev'\<rparr>)) (Some y) (slot_next m) ys q"
    by (rule dseg_frame) (use assms(2) in auto)
  then show ?thesis using assms(1) by simp
qed

subsection \<open>Slots\<close>

text \<open>The lists \<open>L i\<close> are those of the \<open>cnt\<close> slots, and the nodes on them know their slot.\<close>

definition slotted :: "nat \<Rightarrow> timer_node heap \<Rightarrow> ptr list \<Rightarrow> (nat \<Rightarrow> nat list) \<Rightarrow> bool" where
  "slotted cnt h ss L \<longleftrightarrow> length ss = cnt \<and>
     (\<forall>i<cnt. dll h (ss ! i) (L i) \<and> (\<forall>a\<in>set (L i). slot (the (h a)) = i))"

lemma slotted_disjoint:
  "slotted cnt h ss L \<Longrightarrow> i < cnt \<Longrightarrow> j < cnt \<Longrightarrow> i \<noteq> j \<Longrightarrow> a \<in> set (L i) \<Longrightarrow> a \<notin> set (L j)"
  unfolding slotted_def by metis

text \<open>Two heaps that differ at most in the slot links of their nodes.\<close>

definition timer_of :: "timer_node \<Rightarrow> int \<times> timespec \<times> ptr" where
  "timer_of n = (tn_fd n, deadline n, tn_hash_next n)"

definition same_timers :: "timer_node heap \<Rightarrow> timer_node heap \<Rightarrow> bool" where
  "same_timers h h' \<longleftrightarrow> (\<forall>a. map_option timer_of (h' a) = map_option timer_of (h a))"

lemma same_timers_refl [simp]: "same_timers h h"
  by (simp add: same_timers_def)

lemma same_timers_upd:
  "same_timers h h' \<Longrightarrow> h' a = Some n \<Longrightarrow> timer_of n' = timer_of n \<Longrightarrow> same_timers h (h'(a \<mapsto> n'))"
  unfolding same_timers_def by (metis fun_upd_apply option.simps(9))

lemma same_timers_upd1: "h a = Some n \<Longrightarrow> timer_of n' = timer_of n \<Longrightarrow> same_timers h (h(a \<mapsto> n'))"
  by (simp add: same_timers_def)

lemma same_timers_trans: "same_timers h h' \<Longrightarrow> same_timers h' h'' \<Longrightarrow> same_timers h h''"
  by (simp add: same_timers_def)

lemma timer_of_upd [simp]:
  "timer_of (n\<lparr>slot_next := q\<rparr>) = timer_of n" "timer_of (n\<lparr>slot_previous := q\<rparr>) = timer_of n"
  "timer_of (n\<lparr>slot := i\<rparr>) = timer_of n"
  by (simp_all add: timer_of_def)

lemma same_timers_node:
  assumes "same_timers h h'" "h a = Some n"
  obtains n' where "h' a = Some n'" "tn_fd n' = tn_fd n" "deadline n' = deadline n" "tn_hash_next n' = tn_hash_next n"
proof -
  have "map_option timer_of (h' a) = Some (timer_of n)" using assms by (simp add: same_timers_def)
  then show thesis using that by (auto simp: timer_of_def)
qed

lemma same_timers_dom: "same_timers h h' \<Longrightarrow> dom h' = dom h"
  unfolding same_timers_def dom_def by (metis option.map_disc_iff)

text \<open>Changing the list of one slot, given what happened to its own nodes.\<close>

lemma slotted_change:
  assumes sl: "slotted cnt h ss L" and i: "i < cnt" and ss': "length ss' = cnt" "\<And>j. j \<noteq> i \<Longrightarrow> ss' ! j = ss ! j"
    and new: "dll h' (ss' ! i) as" "\<And>b. b \<in> set as \<Longrightarrow> slot (the (h' b)) = i"
    and frame: "\<And>j b. j < cnt \<Longrightarrow> j \<noteq> i \<Longrightarrow> b \<in> set (L j) \<Longrightarrow> h' b = h b"
  shows "slotted cnt h' ss' (L(i := as))"
proof -
  have "dll h' (ss' ! j) ((L(i := as)) j) \<and> (\<forall>a\<in>set ((L(i := as)) j). slot (the (h' a)) = j)"
    if j: "j < cnt" for j
  proof (cases "j = i")
    case False
    have "dll h (ss ! j) (L j)" "\<And>a. a \<in> set (L j) \<Longrightarrow> slot (the (h a)) = j" using sl j by (auto simp: slotted_def)
    moreover have "dll h' (ss ! j) (L j)"
      by (rule dseg_frame [OF \<open>dll h (ss ! j) (L j)\<close>]) (simp_all add: frame [OF j False])
    ultimately show ?thesis using False ss'(2) frame [OF j False] by simp
  qed (use new in auto)
  then show ?thesis using ss'(1) by (simp add: slotted_def)
qed

lemma unlink_slot_ok:
  assumes sl: "slotted cnt (nodes w) (slots w) L" and i: "i < cnt" and xs: "L i = xs @ a # ys"
    and n: "nodes w a = Some n"
  obtains h ss where "unlink_slot w (Some a) = Some (w\<lparr>nodes := h, slots := ss\<rparr>)"
    "slotted cnt h ss (L(i := xs @ ys))" "same_timers (nodes w) h"
    "h a = Some (n\<lparr>slot_previous := None, slot_next := None\<rparr>)"
proof -
  let ?h0 = "nodes w" and ?q = "slot_next n"
  have len: "length (slots w) = cnt" and d: "dll ?h0 (slots w ! i) (xs @ a # ys)"
    and sloti: "\<And>b. b \<in> set (xs @ a # ys) \<Longrightarrow> slot (the (?h0 b)) = i"
    using sl i xs by (auto simp: slotted_def)
  have dist: "distinct (xs @ a # ys)" by (rule dll_distinct [OF d])
  have seg: "dseg ?h0 None (slots w ! i) xs (Some a)" "slot_previous n = lastp None xs"
    "dseg ?h0 (Some a) ?q ys None" using d n by (auto simp: dseg_append)
  have sn: "slot n = i" using sloti [of a] n by simp
  have only: "\<And>j b. j < cnt \<Longrightarrow> j \<noteq> i \<Longrightarrow> b \<in> set (L j) \<Longrightarrow> b \<notin> set (xs @ a # ys)"
    using slotted_disjoint [OF sl _ i] xs by metis
  \<comment> \<open>the predecessor, or the head of the slot\<close>
  obtain h1 ss1 where one: "(case slot_previous n of
        Some p \<Rightarrow> do { h \<leftarrow> heap_write ?h0 (Some p) (\<lambda>m. m\<lparr>slot_next := ?q\<rparr>); Some (w\<lparr>nodes := h\<rparr>) }
      | None \<Rightarrow> do { ss \<leftarrow> arr_set (slots w) (slot n) ?q; Some (w\<lparr>slots := ss\<rparr>) }) =
      Some (w\<lparr>nodes := h1, slots := ss1\<rparr>)"
    and s1: "dseg h1 None (ss1 ! i) xs ?q" "length ss1 = cnt" "\<And>j. j \<noteq> i \<Longrightarrow> ss1 ! j = slots w ! j"
      "same_timers ?h0 h1" "\<And>b. b \<notin> set xs \<Longrightarrow> h1 b = ?h0 b"
      "\<And>b. map_option slot (h1 b) = map_option slot (?h0 b)"
  proof (cases "xs = []")
    case True
    show thesis by (rule that [of "(slots w)[i := ?q]" ?h0])
      (use True seg(2) i len sn in \<open>auto simp: mem_simps\<close>)
  next
    case False
    obtain l where l: "?h0 (last xs) = Some l" using dseg_live [OF seg(1), of "last xs"] False by auto
    show thesis
    proof (rule that [of "slots w" "?h0(last xs \<mapsto> l\<lparr>slot_next := ?q\<rparr>)"])
      show "dseg (?h0(last xs \<mapsto> l\<lparr>slot_next := ?q\<rparr>)) None (slots w ! i) xs ?q"
        by (rule dseg_set_last [OF seg(1) False]) (use dist l in auto)
      show "same_timers ?h0 (?h0(last xs \<mapsto> l\<lparr>slot_next := ?q\<rparr>))"
        by (rule same_timers_upd1) (use l in simp_all)
    qed (use False seg(2) l len in \<open>auto simp: mem_simps lastp_def\<close>)
  qed
  have a1: "h1 a = Some n" using s1(5) [of a] dist n by auto
  have ys1: "dseg h1 (Some a) ?q ys None"
    by (rule dseg_agree [OF seg(3)], rule s1(5)) (use dist in auto)
  let ?w1 = "w\<lparr>nodes := h1, slots := ss1\<rparr>"
  \<comment> \<open>the successor\<close>
  obtain h2 where two: "(case slot_next n of
        Some q \<Rightarrow> do { h \<leftarrow> heap_write (nodes ?w1) (Some q) (\<lambda>m. m\<lparr>slot_previous := slot_previous n\<rparr>);
                       Some (?w1\<lparr>nodes := h\<rparr>) }
      | None \<Rightarrow> Some ?w1) = Some (w\<lparr>nodes := h2, slots := ss1\<rparr>)"
    and s2: "dseg h2 (lastp None xs) ?q ys None" "same_timers h1 h2" "\<And>b. b \<notin> set ys \<Longrightarrow> h2 b = h1 b"
      "\<And>b. map_option slot (h2 b) = map_option slot (h1 b)"
  proof (cases ys)
    case Nil
    show thesis by (rule that [of h1]) (use Nil ys1 in auto)
  next
    case (Cons y ys')
    obtain m where m: "h1 y = Some m" "?q = Some y" using ys1 Cons by auto
    show thesis
    proof (rule that [of "h1(y \<mapsto> m\<lparr>slot_previous := lastp None xs\<rparr>)"])
      show "dseg (h1(y \<mapsto> m\<lparr>slot_previous := lastp None xs\<rparr>)) (lastp None xs) ?q ys None"
        unfolding Cons by (rule dseg_set_first [of _ "Some a"]) (use ys1 Cons dist m in auto)
      show "same_timers h1 (h1(y \<mapsto> m\<lparr>slot_previous := lastp None xs\<rparr>))"
        by (rule same_timers_upd1) (use m(1) in simp_all)
    qed (use Cons m seg(2) in \<open>auto simp: mem_simps\<close>)
  qed
  have a2: "h2 a = Some n" using s2(3) [of a] dist a1 by auto
  let ?h3 = "h2(a \<mapsto> n\<lparr>slot_previous := None, slot_next := None\<rparr>)"
  have "unlink_slot w (Some a) = Some (w\<lparr>nodes := ?h3, slots := ss1\<rparr>)"
    using one two n a1 a2 by (simp add: unlink_slot_def mem_simps)
  moreover have "slotted cnt ?h3 ss1 (L(i := xs @ ys))"
  proof (rule slotted_change [OF sl i s1(2,3)])
    have "dseg h2 None (ss1 ! i) xs ?q" 
      by (rule dseg_agree [OF s1(1)], rule s2(3)) (use dist in auto)
    then have "dll h2 (ss1 ! i) (xs @ ys)" using s2(1) by (auto simp: dseg_append)
    then show "dll ?h3 (ss1 ! i) (xs @ ys)" by (rule dseg_frame) (use dist in auto)
    show "slot (the (?h3 b)) = i" if b: "b \<in> set (xs @ ys)" for b
    proof -
      have "map_option slot (?h3 b) = map_option slot (?h0 b)" using b dist s1(6) s2(4) by auto
      moreover obtain m where "?h0 b = Some m" using dseg_live [OF d, of b] b by auto
      moreover have "slot (the (?h0 b)) = i" using sloti b by auto
      ultimately show ?thesis by auto
    qed
    show "?h3 b = ?h0 b" if "j < cnt" "j \<noteq> i" "b \<in> set (L j)" for j b
      using only [OF that] s1(5) [of b] s2(3) [of b] by auto
  qed
  moreover have "same_timers ?h0 ?h3"
    by (rule same_timers_trans [OF same_timers_trans [OF s1(4) s2(2)] same_timers_upd1]) (use a2 in simp_all)
  ultimately show thesis using that by simp
qed

lemma slot_index_bound: "0 < cnt \<Longrightarrow> slot_index cnt second < cnt"
  by (simp add: slot_index_def)

lemma link_slot_ok:
  assumes sl: "slotted cnt (nodes w) (slots w) L" and cnt: "slot_count w = cnt" "0 < cnt"
    and n: "nodes w a = Some n" "slot_previous n = None" and new: "\<And>j. j < cnt \<Longrightarrow> a \<notin> set (L j)"
  defines "i \<equiv> slot_index cnt (deadline_tick (deadline n))"
  obtains h ss where "link_slot w (Some a) = Some (w\<lparr>nodes := h, slots := ss\<rparr>)"
    "slotted cnt h ss (L(i := a # L i))" "same_timers (nodes w) h"
proof -
  let ?h0 = "nodes w" and ?n = "n\<lparr>slot := i, slot_next := slots w ! i\<rparr>"
  have i: "i < cnt" using slot_index_bound [OF cnt(2)] by (simp add: i_def)
  have len: "length (slots w) = cnt" and d: "dll ?h0 (slots w ! i) (L i)"
    and sloti: "\<And>b. b \<in> set (L i) \<Longrightarrow> slot (the (?h0 b)) = i" using sl i by (auto simp: slotted_def)
  have a: "a \<notin> set (L i)" by (rule new [OF i])
  let ?h1 = "?h0(a \<mapsto> ?n)"
  have d1: "dll ?h1 (slots w ! i) (L i)" by (rule dseg_agree [OF d]) (use a in auto)
  have t1: "same_timers ?h0 ?h1" by (rule same_timers_upd1) (use n(1) in simp_all)
  obtain h2 where two: "(case slots w ! i of
        Some q \<Rightarrow> heap_write ?h1 (Some q) (\<lambda>m. m\<lparr>slot_previous := Some a\<rparr>) | None \<Rightarrow> Some ?h1) = Some h2"
    and s2: "dseg h2 (Some a) (slots w ! i) (L i) None" "same_timers ?h1 h2" "\<And>b. b \<notin> set (L i) \<Longrightarrow> h2 b = ?h1 b"
      "\<And>b. map_option slot (h2 b) = map_option slot (?h1 b)"
  proof (cases "L i")
    case Nil
    show thesis by (rule that [of ?h1]) (use Nil d1 in auto)
  next
    case (Cons y ys)
    have y: "slots w ! i = Some y" using d Cons by simp
    obtain m where "?h1 y = Some m" using dseg_live [OF d1, of y] Cons by auto
    note m = this y
    have "dseg (?h1(y \<mapsto> m\<lparr>slot_previous := Some a\<rparr>)) (Some a) (slots w ! i) (L i) None"
      unfolding Cons by (rule dseg_set_first [of _ None]) (use d1 Cons dll_distinct [OF d1] m in auto)
    moreover have "same_timers ?h1 (?h1(y \<mapsto> m\<lparr>slot_previous := Some a\<rparr>))"
      by (rule same_timers_upd1 [of _ _ m]) (use m in simp_all)
    moreover have "heap_write ?h1 (Some y) (\<lambda>m. m\<lparr>slot_previous := Some a\<rparr>) =
        Some (?h1(y \<mapsto> m\<lparr>slot_previous := Some a\<rparr>))"
      by (rule heap_write_simps(2)) (rule m(1))
    ultimately show thesis
      by (intro that [of "?h1(y \<mapsto> m\<lparr>slot_previous := Some a\<rparr>)"]) (use Cons m in auto)
  qed
  have a2: "h2 a = Some ?n" using s2(3) [OF a] by simp
  have "link_slot w (Some a) = Some (w\<lparr>nodes := h2, slots := (slots w)[i := Some a]\<rparr>)"
    using n two len i by (simp add: link_slot_def mem_simps cnt(1) Let_def flip: i_def cong: option.case_cong)
  moreover have "slotted cnt h2 ((slots w)[i := Some a]) (L(i := a # L i))"
  proof (rule slotted_change [OF sl i])
    show "dll h2 ((slots w)[i := Some a] ! i) (a # L i)" using a2 n(2) s2(1) len i by simp
    show "slot (the (h2 b)) = i" if b: "b \<in> set (a # L i)" for b
    proof (cases "b = a")
      case False
      then obtain m where "?h0 b = Some m" using dseg_live [OF d, of b] b by auto
      moreover have "map_option slot (h2 b) = map_option slot (?h0 b)" using s2(4) [of b] False by simp
      moreover have "slot (the (?h0 b)) = i" using sloti [of b] b False by auto
      ultimately show ?thesis by auto
    qed (use a2 in simp)
    show "h2 b = ?h0 b" if "j < cnt" "j \<noteq> i" "b \<in> set (L j)" for j b
      using slotted_disjoint [OF sl that(1) i that(2,3)] s2(3) [of b] new [OF that(1)] that(3) by auto
  qed (use len in auto)
  moreover have "same_timers ?h0 h2" by (rule same_timers_trans [OF t1 s2(2)])
  ultimately show thesis using that by simp
qed

subsection \<open>Representation invariant\<close>

abbreviation node_slot :: "timer_wheel_t \<Rightarrow> timer_node \<Rightarrow> nat" where
  "node_slot w n \<equiv> slot_index (slot_count w) (deadline_tick (deadline n))"

text \<open>
  The allocated nodes are those on the slot lists \<open>L\<close> and those of the descriptor index; each is on
  the list of the slot its deadline falls into.
\<close>

definition wheel_rep :: "timer_wheel_t \<Rightarrow> (nat \<Rightarrow> nat list) \<Rightarrow> bool" where
  "wheel_rep w L \<longleftrightarrow>
     slot_count w = timeout_seconds w + 1 \<and> slotted (slot_count w) (nodes w) (slots w) L \<and>
     timer_ix.ix (nodes w) (tw_fd_buckets w) (dom (nodes w)) \<and>
     dom (nodes w) = (\<Union>i < slot_count w. set (L i)) \<and>
     (\<forall>i < slot_count w. \<forall>a\<in>set (L i). node_slot w (the (nodes w a)) = i) \<and>
     (\<forall>a n. nodes w a = Some n \<longrightarrow> 0 \<le> tn_fd n) \<and>
     tw_size w = card (dom (nodes w))"

definition wheel_inv :: "timer_wheel_t \<Rightarrow> bool" where
  "wheel_inv w \<longleftrightarrow> (\<exists>L. wheel_rep w L)"

text \<open>The abstract wheel: the deadline of each tracked descriptor.\<close>

definition deadlines :: "timer_wheel_t \<Rightarrow> int \<Rightarrow> timespec option" where
  "deadlines w fd =
     (case find_node w fd of Some (Some a) \<Rightarrow> map_option deadline (nodes w a) | _ \<Rightarrow> None)"

definition timers :: "timer_node heap \<Rightarrow> int \<Rightarrow> timespec \<Rightarrow> bool" where
  "timers h fd d \<longleftrightarrow> (\<exists>a n. h a = Some n \<and> tn_fd n = fd \<and> deadline n = d)"

lemma wheel_repD:
  assumes "wheel_rep w L"
  shows "slot_count w = timeout_seconds w + 1" "0 < slot_count w" "slotted (slot_count w) (nodes w) (slots w) L"
    "timer_ix.ix (nodes w) (tw_fd_buckets w) (dom (nodes w))"
    "dom (nodes w) = (\<Union>i < slot_count w. set (L i))"
    "\<And>i a. i < slot_count w \<Longrightarrow> a \<in> set (L i) \<Longrightarrow> node_slot w (the (nodes w a)) = i"
    "\<And>a n. nodes w a = Some n \<Longrightarrow> 0 \<le> tn_fd n" "tw_size w = card (dom (nodes w))"
  using assms by (auto simp: wheel_rep_def)

lemma rep_slot:
  assumes "wheel_rep w L" "nodes w a = Some n"
  shows "node_slot w n < slot_count w" "a \<in> set (L (node_slot w n))"
proof -
  show "node_slot w n < slot_count w" using slot_index_bound wheel_repD(2) [OF assms(1)] by blast
  have "a \<in> (\<Union>i < slot_count w. set (L i))" using assms wheel_repD(5) [OF assms(1)] by auto
  then obtain i where "i < slot_count w" "a \<in> set (L i)" by blast
  then show "a \<in> set (L (node_slot w n))" using wheel_repD(6) [OF assms(1)] assms(2) by force
qed

lemma find_node_cases:
  assumes "wheel_rep w L"
  obtains (found) a n where "nodes w a = Some n" "tn_fd n = fd" "find_node w fd = Some (Some a)"
    "deadlines w fd = Some (deadline n)"
  | (absent) "\<And>a n. nodes w a = Some n \<Longrightarrow> tn_fd n \<noteq> fd" "find_node w fd = Some None" "deadlines w fd = None"
proof -
  note ix = wheel_repD(4) [OF assms]
  have b: "tw_hash_fd fd < length (tw_fd_buckets w)" by (rule timer_ix.ix_bucket [OF ix])
  show thesis
  proof (cases "\<exists>a n. nodes w a = Some n \<and> tn_fd n = fd")
    case True
    then obtain a n where a: "nodes w a = Some n" "tn_fd n = fd" by blast
    have "chain_find tn_hash_next (\<lambda>n. tn_fd n = fd) (nodes w) (tw_fd_buckets w ! tw_hash_fd fd) = Some (Some a)"
      by (rule timer_ix.find_some [OF ix]) (use a in auto)
    then show thesis using found a b by (simp add: find_node_def deadlines_def mem_simps)
  next
    case False
    have "chain_find tn_hash_next (\<lambda>n. tn_fd n = fd) (nodes w) (tw_fd_buckets w ! tw_hash_fd fd) = Some None"
      by (rule timer_ix.find_none [OF ix]) (metis False domD option.sel)
    then show thesis using absent False b by (simp add: find_node_def deadlines_def mem_simps)
  qed
qed

lemma deadlines_iff:
  assumes "wheel_rep w L"
  shows "deadlines w fd = Some d \<longleftrightarrow> timers (nodes w) fd d"
  using assms
proof (cases rule: find_node_cases [where fd = fd])
  case (found a n)
  have "b = a" if "nodes w b = Some m" "tn_fd m = fd" for b m
    using timer_ix.ix_inj [OF wheel_repD(4) [OF assms], of b a] that found(1,2) by force
  then show ?thesis unfolding timers_def using found by (metis option.sel)
next
  case absent
  then show ?thesis by (auto simp: timers_def)
qed

lemma timers_same: "same_timers h h' \<Longrightarrow> timers h' fd d \<longleftrightarrow> timers h fd d"
proof -
  assume same: "same_timers h h'"
  have "(\<exists>n. h' a = Some n \<and> tn_fd n = fd \<and> deadline n = d) \<longleftrightarrow> (\<exists>n. h a = Some n \<and> tn_fd n = fd \<and> deadline n = d)" for a
  proof -
    have "map_option timer_of (h' a) = map_option timer_of (h a)" using same by (simp add: same_timers_def)
    then show ?thesis by (cases "h a"; cases "h' a") (auto simp: timer_of_def)
  qed
  then show ?thesis by (simp add: timers_def)
qed

subsection \<open>Moving and removing a node\<close>

lemma slotted_absent:
  assumes "slotted cnt h ss L" "i < cnt" "L i = xs @ a # ys" "j < cnt"
  shows "a \<notin> set ((L(i := xs @ ys)) j)"
proof (cases "j = i")
  case True
  have "dll h (ss ! i) (xs @ a # ys)" using assms by (auto simp: slotted_def)
  then show ?thesis using dll_distinct True by fastforce
next
  case False
  then show ?thesis using slotted_disjoint [OF assms(1,2,4)] assms(3) by auto
qed

lemma slotted_absent_UN:
  assumes "slotted cnt h ss L" "i < cnt" "L i = xs @ a # ys"
  shows "(\<Union>j<cnt. set ((L(i := xs @ ys)) j)) = (\<Union>j<cnt. set (L j)) - {a}"
proof -
  have "a \<notin> (\<Union>j<cnt. set ((L(i := xs @ ys)) j))" using slotted_absent [OF assms] by blast
  moreover have "(\<Union>j<cnt. set (L j)) = (\<Union>m\<in>{..<cnt} - {i}. set (L m)) \<union> set (L i)" using assms(2) by auto
  moreover have "(\<Union>j<cnt. set ((L(i := xs @ ys)) j)) = (\<Union>m\<in>{..<cnt} - {i}. set (L m)) \<union> set (xs @ ys)"
    by (rule UN_upd) (use assms(2) in simp)
  ultimately show ?thesis using assms(3) by auto
qed

lemma ix_same_timers:
  assumes "timer_ix.ix h bs S" "same_timers h h'"
  shows "timer_ix.ix h' bs S"
proof (rule timer_ix.ix_frame [OF assms(1)])
  fix a
  have t: "map_option timer_of (h' a) = map_option timer_of (h a)" using assms(2) by (simp add: same_timers_def)
  then show "map_option tn_hash_next (h' a) = map_option tn_hash_next (h a)"
    by (cases "h a"; cases "h' a") (auto simp: timer_of_def)
  from t show "map_option tn_fd (h' a) = map_option tn_fd (h a)"
    by (cases "h a"; cases "h' a") (auto simp: timer_of_def)
qed

lemma same_timers_the:
  "same_timers h h' \<Longrightarrow> a \<in> dom h \<Longrightarrow> deadline (the (h' a)) = deadline (the (h a)) \<and> tn_fd (the (h' a)) = tn_fd (the (h a))"
  by (auto elim: same_timers_node)

lemma same_timers_fd:
  assumes "same_timers h h'" "h' b = Some m"
  shows "\<exists>n. h b = Some n \<and> tn_fd n = tn_fd m \<and> deadline n = deadline m"
proof -
  have "map_option timer_of (h b) = Some (timer_of m)" using assms by (metis same_timers_def option.simps(9))
  then show ?thesis by (auto simp: timer_of_def)
qed

text \<open>\<open>unlink_slot\<close> followed by \<open>link_slot\<close>: the node moves to the front of its slot.\<close>

lemma relink_ok:
  assumes rep: "wheel_rep w L" and a: "nodes w a = Some n" "L (node_slot w n) = xs @ a # ys"
  obtains w1 h ss where "unlink_slot w (Some a) = Some w1" "link_slot w1 (Some a) = Some (w\<lparr>nodes := h, slots := ss\<rparr>)"
    "wheel_rep (w\<lparr>nodes := h, slots := ss\<rparr>) (L(node_slot w n := a # xs @ ys))" "same_timers (nodes w) h"
proof -
  let ?c = "slot_count w" and ?i = "node_slot w n"
  note D = wheel_repD [OF rep]
  have i: "?i < ?c" by (rule rep_slot(1) [OF rep a(1)])
  obtain h1 ss1 where u: "unlink_slot w (Some a) = Some (w\<lparr>nodes := h1, slots := ss1\<rparr>)"
    "slotted ?c h1 ss1 (L(?i := xs @ ys))" "same_timers (nodes w) h1"
    "h1 a = Some (n\<lparr>slot_previous := None, slot_next := None\<rparr>)"
    by (rule unlink_slot_ok [OF D(3) i a(2,1)])
  let ?w1 = "w\<lparr>nodes := h1, slots := ss1\<rparr>"
  have abs: "\<And>j. j < ?c \<Longrightarrow> a \<notin> set ((L(?i := xs @ ys)) j)" by (rule slotted_absent [OF D(3) i a(2)])
  obtain h ss where v: "link_slot ?w1 (Some a) = Some (?w1\<lparr>nodes := h, slots := ss\<rparr>)"
    "slotted ?c h ss (L(?i := a # xs @ ys))" "same_timers h1 h"
    by (rule link_slot_ok [of ?c ?w1 "L(?i := xs @ ys)" a "n\<lparr>slot_previous := None, slot_next := None\<rparr>"])
      (use u D(2) abs in auto)
  have same: "same_timers (nodes w) h" by (rule same_timers_trans [OF u(3) v(3)])
  let ?w = "w\<lparr>nodes := h, slots := ss\<rparr>" and ?L = "L(?i := a # xs @ ys)"
  have dom: "dom h = dom (nodes w)" by (rule same_timers_dom [OF same])
  have mem: "set (?L j) = set (L j)" for j using a(2) by auto
  have "wheel_rep ?w ?L"
    unfolding wheel_rep_def
  proof (intro conjI)
    show "timer_ix.ix (nodes ?w) (tw_fd_buckets ?w) (dom (nodes ?w))"
      using ix_same_timers [OF D(4) same] dom by simp
    show "dom (nodes ?w) = (\<Union>j < slot_count ?w. set (?L j))" using dom D(5) unfolding mem by simp
    show "\<forall>j < slot_count ?w. \<forall>b\<in>set (?L j). node_slot ?w (the (nodes ?w b)) = j"
    proof (intro allI impI ballI)
      fix j b assume j: "j < slot_count ?w" "b \<in> set (?L j)"
      have "b \<in> set (L j)" using j(2) unfolding mem .
      moreover have "b \<in> dom (nodes w)" using D(5) j(1) \<open>b \<in> set (L j)\<close> by auto
      ultimately show "node_slot ?w (the (nodes ?w b)) = j"
        using D(6) [of j b] j(1) same_timers_the [OF same, of b] by simp
    qed
    show "\<forall>b m. nodes ?w b = Some m \<longrightarrow> 0 \<le> tn_fd m"
      using D(7) same_timers_fd [OF same] by fastforce
  qed (use D v(2) dom in auto)
  then show thesis using that u(1) v(1) same by simp
qed

lemma slotted_frame:
  assumes sl: "slotted cnt h ss L"
    and same: "\<And>i b. i < cnt \<Longrightarrow> b \<in> set (L i) \<Longrightarrow>
      map_option (\<lambda>n. (slot n, slot_previous n, slot_next n)) (h' b) =
      map_option (\<lambda>n. (slot n, slot_previous n, slot_next n)) (h b)"
  shows "slotted cnt h' ss L"
proof -
  have node: "map_option slot (h' b) = map_option slot (h b) \<and>
      map_option slot_previous (h' b) = map_option slot_previous (h b) \<and>
      map_option slot_next (h' b) = map_option slot_next (h b)" if "i < cnt" "b \<in> set (L i)" for i b
    using same [OF that] by (cases "h b"; cases "h' b") auto
  have "dll h' (ss ! i) (L i) \<and> (\<forall>a\<in>set (L i). slot (the (h' a)) = i)" if i: "i < cnt" for i
  proof
    have d: "dll h (ss ! i) (L i)" and sloti: "\<And>a. a \<in> set (L i) \<Longrightarrow> slot (the (h a)) = i"
      using sl i by (auto simp: slotted_def)
    show "dll h' (ss ! i) (L i)" by (rule dseg_frame [OF d]) (use node [OF i] in auto)
    show "\<forall>a\<in>set (L i). slot (the (h' a)) = i"
    proof
      fix a assume a: "a \<in> set (L i)"
      obtain n where n: "h a = Some n" using dseg_live [OF d a] by blast
      then obtain n' where "h' a = Some n'" "slot n' = slot n" using node [OF i a] by auto
      then show "slot (the (h' a)) = i" using sloti [OF a] n by simp
    qed
  qed
  then show ?thesis using sl by (simp add: slotted_def)
qed

definition key_of :: "timer_node \<Rightarrow> int \<times> timespec" where
  "key_of n = (tn_fd n, deadline n)"

lemma same_timers_key: "same_timers h h' \<Longrightarrow> map_option key_of (h' b) = map_option key_of (h b)"
proof -
  assume "same_timers h h'"
  then have "map_option timer_of (h' b) = map_option timer_of (h b)" by (simp add: same_timers_def)
  then show ?thesis by (cases "h b"; cases "h' b") (auto simp: timer_of_def key_of_def)
qed

lemma discard_ok:
  assumes rep: "wheel_rep w L" and a: "nodes w a = Some n" "L (node_slot w n) = xs @ a # ys"
  obtains h ss bs where
    "discard_node w (Some a) = Some (w\<lparr>nodes := h, slots := ss, tw_fd_buckets := bs, tw_size := tw_size w - 1\<rparr>)"
    "wheel_rep (w\<lparr>nodes := h, slots := ss, tw_fd_buckets := bs, tw_size := tw_size w - 1\<rparr>) (L(node_slot w n := xs @ ys))"
    "h a = None" "\<And>b. b \<noteq> a \<Longrightarrow> map_option key_of (h b) = map_option key_of (nodes w b)"
proof -
  let ?c = "slot_count w" and ?i = "node_slot w n" and ?n = "n\<lparr>slot_previous := None, slot_next := None\<rparr>"
  note D = wheel_repD [OF rep]
  have i: "?i < ?c" by (rule rep_slot(1) [OF rep a(1)])
  obtain h1 ss1 where u: "unlink_slot w (Some a) = Some (w\<lparr>nodes := h1, slots := ss1\<rparr>)"
    "slotted ?c h1 ss1 (L(?i := xs @ ys))" "same_timers (nodes w) h1" "h1 a = Some ?n"
    by (rule unlink_slot_ok [OF D(3) i a(2,1)])
  have ix1: "timer_ix.ix h1 (tw_fd_buckets w) (dom (nodes w))" by (rule ix_same_timers [OF D(4) u(3)])
  have aS: "a \<in> dom (nodes w)" using a(1) by blast
  obtain link h2 bs where v: "chain_seek tn_hash_next (\<lambda>b _. Some b = Some a) h1 None
      (tw_fd_buckets w ! tw_hash_fd (tn_fd n)) = Some (link, Some a)"
    "link_store (\<lambda>m v. m\<lparr>tn_hash_next := v\<rparr>) h1 (tw_fd_buckets w) (tw_hash_fd (tn_fd n)) link (tn_hash_next ?n) =
       Some (h2, bs)"
    "timer_ix.ix h2 bs (dom (nodes w) - {a})" "differ_in (\<lambda>m v. m\<lparr>tn_hash_next := v\<rparr>) h1 h2" "h2 a = Some ?n"
    by (rule timer_ix.unlink [OF ix1 aS u(4), of "tn_fd n" "\<lambda>b _. Some b = Some a"]) auto
  let ?h = "h2(a := None)"
  let ?w = "w\<lparr>nodes := ?h, slots := ss1, tw_fd_buckets := bs, tw_size := tw_size w - 1\<rparr>"
  have "discard_node w (Some a) = Some ?w"
    using u(1,4) v(1,2,5) timer_ix.ix_bucket [OF ix1, of "tn_fd n"]
    by (simp add: discard_node_def unlink_hash_def mem_simps)
  moreover have dom: "dom ?h = dom (nodes w) - {a}"
    using differ_in_dom [OF v(4)] same_timers_dom [OF u(3)] by auto
  moreover have key: "map_option key_of (?h b) = map_option key_of (nodes w b)" if "b \<noteq> a" for b
    using differ_in_field [OF v(4), of key_of b] same_timers_key [OF u(3), of b] that by (simp add: key_of_def)
  moreover have "wheel_rep ?w (L(?i := xs @ ys))"
    unfolding wheel_rep_def
  proof (intro conjI)
    have "slotted ?c ?h ss1 (L(?i := xs @ ys))"
    proof (rule slotted_frame [OF u(2)])
      fix j b assume "j < ?c" "b \<in> set ((L(?i := xs @ ys)) j)"
      then have "b \<noteq> a" using slotted_absent [OF D(3) i a(2)] by blast
      then show "map_option (\<lambda>n. (slot n, slot_previous n, slot_next n)) (?h b) =
          map_option (\<lambda>n. (slot n, slot_previous n, slot_next n)) (h1 b)"
        using differ_in_field [OF v(4), of "\<lambda>n. (slot n, slot_previous n, slot_next n)" b] by simp
    qed
    then show "slotted (slot_count ?w) (nodes ?w) (slots ?w) (L(?i := xs @ ys))" by simp
    show "timer_ix.ix (nodes ?w) (tw_fd_buckets ?w) (dom (nodes ?w))"
      using timer_ix.ix_frame [OF v(3), of ?h] dom by simp
    show "dom (nodes ?w) = (\<Union>j < slot_count ?w. set ((L(?i := xs @ ys)) j))"
      using slotted_absent_UN [OF D(3) i a(2)] dom D(5) by simp
    show "\<forall>j < slot_count ?w. \<forall>b\<in>set ((L(?i := xs @ ys)) j). node_slot ?w (the (nodes ?w b)) = j"
    proof (intro allI impI ballI)
      fix j b assume j: "j < slot_count ?w" "b \<in> set ((L(?i := xs @ ys)) j)"
      then have b: "b \<noteq> a" "b \<in> set (L j)" using slotted_absent [OF D(3) i a(2), of j] a(2) by (auto split: if_splits)
      then obtain m where m: "nodes w b = Some m" using D(5) j(1) by auto
      then have "deadline (the (?h b)) = deadline m" using key [OF b(1)] by (auto simp: key_of_def)
      then show "node_slot ?w (the (nodes ?w b)) = j" using D(6) [OF _ b(2)] j(1) m by simp
    qed
    show "\<forall>b m. nodes ?w b = Some m \<longrightarrow> 0 \<le> tn_fd m"
    proof (intro allI impI)
      fix b m assume m: "nodes ?w b = Some m"
      then have "b \<noteq> a" by auto
      then have "map_option key_of (nodes w b) = Some (key_of m)" using key [of b, symmetric] m by simp
      then obtain z where "nodes w b = Some z" "tn_fd z = tn_fd m" by (auto simp: key_of_def)
      then show "0 \<le> tn_fd m" using D(7) [of b z] by simp
    qed
    show "tw_size ?w = card (dom (nodes ?w))"
      using D(8) dom aS timer_ix.ix_finite [OF D(4)] by simp
  qed (use D(1) in simp)
  ultimately show thesis using that by simp
qed

lemma timers_discard:
  assumes rep: "wheel_rep w L" and a: "nodes w a = Some n"
    and h: "h a = None" "\<And>b. b \<noteq> a \<Longrightarrow> map_option key_of (h b) = map_option key_of (nodes w b)"
  shows "timers h fd d \<longleftrightarrow> fd \<noteq> tn_fd n \<and> timers (nodes w) fd d"
proof -
  have uniq: "b = a" if "nodes w b = Some m" "tn_fd m = tn_fd n" for b m
    using timer_ix.ix_inj [OF wheel_repD(4) [OF rep], of b a] that a by force
  have "(\<exists>m. h b = Some m \<and> tn_fd m = fd \<and> deadline m = d) \<longleftrightarrow>
      (\<exists>m. nodes w b = Some m \<and> tn_fd m = fd \<and> deadline m = d)" if "b \<noteq> a" for b
    using h(2) [OF that] by (cases "h b"; cases "nodes w b") (auto simp: key_of_def)
  then show ?thesis unfolding timers_def using h(1) a uniq by (metis option.distinct(1) option.sel)
qed

lemma timers_upd:
  assumes "\<And>b m. b \<noteq> a \<Longrightarrow> h b = Some m \<Longrightarrow> tn_fd m \<noteq> tn_fd n" "\<And>m. h a = Some m \<Longrightarrow> tn_fd m = tn_fd n"
  shows "timers (h(a \<mapsto> n)) f d \<longleftrightarrow> (if f = tn_fd n then d = deadline n else timers h f d)"
proof (cases "f = tn_fd n")
  case True
  then show ?thesis using assms(1) unfolding timers_def by (metis fun_upd_apply option.sel)
next
  case False
  then show ?thesis using assms(2) unfolding timers_def by (metis fun_upd_apply option.sel)
qed

subsection \<open>Tracking and touching\<close>

text \<open>
  A node \<open>a\<close> that is in the index but on no slot list is linked into the slot of its deadline.
\<close>

lemma link_rep:
  assumes cnt: "slot_count w = timeout_seconds w + 1" and sl: "slotted (slot_count w) (nodes w) (slots w) L"
    and ix: "timer_ix.ix (nodes w) (tw_fd_buckets w) (dom (nodes w))"
    and dom: "dom (nodes w) = insert a (\<Union>i < slot_count w. set (L i))"
    and ok: "\<And>i b. i < slot_count w \<Longrightarrow> b \<in> set (L i) \<Longrightarrow> node_slot w (the (nodes w b)) = i"
    and fd: "\<And>b m. nodes w b = Some m \<Longrightarrow> 0 \<le> tn_fd m"
    and a: "nodes w a = Some n" "slot_previous n = None" "\<And>j. j < slot_count w \<Longrightarrow> a \<notin> set (L j)"
  obtains h ss where "link_slot w (Some a) = Some (w\<lparr>nodes := h, slots := ss\<rparr>)" "same_timers (nodes w) h"
    "wheel_rep (w\<lparr>nodes := h, slots := ss, tw_size := card (dom (nodes w))\<rparr>) (L(node_slot w n := a # L (node_slot w n)))"
proof -
  let ?c = "slot_count w" and ?i = "node_slot w n"
  have pos: "0 < ?c" using cnt by simp
  have i: "?i < ?c" by (rule slot_index_bound [OF pos])
  obtain h ss where l: "link_slot w (Some a) = Some (w\<lparr>nodes := h, slots := ss\<rparr>)"
    "slotted ?c h ss (L(?i := a # L ?i))" "same_timers (nodes w) h"
    by (rule link_slot_ok [OF sl refl pos a])
  let ?w = "w\<lparr>nodes := h, slots := ss, tw_size := card (dom (nodes w))\<rparr>" and ?L = "L(?i := a # L ?i)"
  have domh: "dom h = dom (nodes w)" by (rule same_timers_dom [OF l(3)])
  have "wheel_rep ?w ?L"
    unfolding wheel_rep_def
  proof (intro conjI)
    show "timer_ix.ix (nodes ?w) (tw_fd_buckets ?w) (dom (nodes ?w))"
      using ix_same_timers [OF ix l(3)] domh by simp
    have "(\<Union>j < ?c. set (?L j)) = insert a (\<Union>j < ?c. set (L j))" using i by (auto split: if_splits)
    then show "dom (nodes ?w) = (\<Union>j < slot_count ?w. set (?L j))" using domh dom by simp
    show "\<forall>j < slot_count ?w. \<forall>b\<in>set (?L j). node_slot ?w (the (nodes ?w b)) = j"
    proof (intro allI impI ballI)
      fix j b assume j: "j < slot_count ?w" "b \<in> set (?L j)"
      then have "b \<in> dom (nodes w)" using dom a(1) by (auto split: if_splits)
      then have "deadline (the (h b)) = deadline (the (nodes w b))" using same_timers_the [OF l(3)] by blast
      then show "node_slot ?w (the (nodes ?w b)) = j" using j ok [of j b] a(1) by (auto split: if_splits)
    qed
    show "\<forall>b m. nodes ?w b = Some m \<longrightarrow> 0 \<le> tn_fd m"
      using fd same_timers_fd [OF l(3)] by fastforce
  qed (use cnt l(2) domh in auto)
  then show thesis using that l(1,3) by blast
qed

abbreviation due :: "timer_wheel_t \<Rightarrow> timespec \<Rightarrow> timespec" where
  "due w now \<equiv> now\<lparr>tv_sec := tv_sec now + int (timeout_seconds w)\<rparr>"

lemma track_correct:
  assumes rep: "wheel_rep w L" and fd: "0 \<le> fd" "deadlines w fd = None" and new: "nodes w a = None"
  shows "\<exists>w'. track_locked w fd now (Some a) = Some (0, w') \<and> wheel_inv w' \<and>
    deadlines w' = (deadlines w)(fd \<mapsto> due w now) \<and> current_second w' = current_second w \<and>
    timeout_seconds w' = timeout_seconds w"
proof -
  let ?c = "slot_count w" and ?b = "tw_hash_fd fd"
  note D = wheel_repD [OF rep]
  let ?n = "zero_node\<lparr>tn_fd := fd, deadline := due w now, tn_hash_next := tw_fd_buckets w ! ?b\<rparr>"
  let ?w = "w\<lparr>nodes := (nodes w)(a \<mapsto> ?n), tw_fd_buckets := (tw_fd_buckets w)[?b := Some a]\<rparr>"
  have none: "tn_fd m \<noteq> fd" if "nodes w b = Some m" for b m
    using deadlines_iff [OF rep, of fd "deadline m"] fd(2) that by (auto simp: timers_def)
  have a: "a \<notin> dom (nodes w)" using new by blast
  have "find_node w fd = Some None" using rep
    by (cases rule: find_node_cases [where fd = fd]) (use fd(2) in auto)
  have "?b < length (tw_fd_buckets w)" by (rule timer_ix.ix_bucket [OF D(4)])
  then have eq: "track_locked w fd now (Some a) =
      do { w \<leftarrow> link_slot ?w (Some a); Some (0, w\<lparr>tw_size := tw_size w + 1\<rparr>) }"
    using \<open>find_node w fd = Some None\<close> by (simp add: track_locked_def mem_simps Let_def)
  have ix: "timer_ix.ix (nodes ?w) (tw_fd_buckets ?w) (insert a (dom (nodes w)))"
    using timer_ix.push [OF D(4) a, of "(nodes w)(a \<mapsto> ?n)" ?n fd] none a by fastforce
  have notin: "a \<notin> set (L j)" if "j < ?c" for j using a D(5) that by auto
  have sl: "slotted ?c (nodes ?w) (slots w) L"
    by (rule slotted_frame [OF D(3)]) (use notin in auto)
  obtain h ss where l: "link_slot ?w (Some a) = Some (?w\<lparr>nodes := h, slots := ss\<rparr>)" "same_timers (nodes ?w) h"
    "wheel_rep (?w\<lparr>nodes := h, slots := ss, tw_size := card (dom (nodes ?w))\<rparr>)
       (L(node_slot ?w ?n := a # L (node_slot ?w ?n)))"
  proof (rule link_rep [of ?w L a ?n])
    show "slotted (slot_count ?w) (nodes ?w) (slots ?w) L" using sl by simp
    show "timer_ix.ix (nodes ?w) (tw_fd_buckets ?w) (dom (nodes ?w))" using ix by simp
    show "dom (nodes ?w) = insert a (\<Union>i < slot_count ?w. set (L i))" using D(5) by simp
    show "node_slot ?w (the (nodes ?w b)) = i" if "i < slot_count ?w" "b \<in> set (L i)" for i b
      using D(6) [of i b] that notin [of i] by auto
    show "0 \<le> tn_fd m" if "nodes ?w b = Some m" for b m using that D(7) fd(1) by (auto split: if_splits)
  qed (use D(1) notin in \<open>auto simp: zero_node_def\<close>)
  let ?w' = "?w\<lparr>nodes := h, slots := ss, tw_size := card (dom (nodes ?w))\<rparr>"
  have size: "card (dom (nodes ?w)) = tw_size w + 1" using D(8) a timer_ix.ix_finite [OF D(4)] by simp
  have "deadlines ?w' f = Some d \<longleftrightarrow> ((deadlines w)(fd \<mapsto> due w now)) f = Some d" for f d
  proof -
    have "timers (nodes ?w) f d \<longleftrightarrow> (if f = fd then d = due w now else timers (nodes w) f d)"
      using timers_upd [of a "nodes w" ?n f d] none new by simp
    moreover have "deadlines ?w' f = Some d \<longleftrightarrow> timers (nodes ?w) f d"
      using deadlines_iff [OF l(3), of f d] timers_same [OF l(2), of f d] by simp
    ultimately show ?thesis using deadlines_iff [OF rep, of f d] by auto
  qed
  then have "deadlines ?w' = (deadlines w)(fd \<mapsto> due w now)" by (rule map_eqI)
  moreover have "track_locked w fd now (Some a) = Some (0, ?w')" using eq l(1) size by simp
  ultimately show ?thesis using l(3) by (auto simp: wheel_inv_def)
qed

lemma remove_correct:
  assumes rep: "wheel_rep w L"
  shows "\<exists>w'. timer_wheel_remove w fd = Some w' \<and> wheel_inv w' \<and> deadlines w' = (deadlines w)(fd := None) \<and>
    current_second w' = current_second w \<and> timeout_seconds w' = timeout_seconds w"
  using rep
proof (cases rule: find_node_cases [where fd = fd])
  case (found a n)
  have "0 \<le> fd" using wheel_repD(7) [OF rep found(1)] found(2) by simp
  obtain xs ys where xs: "L (node_slot w n) = xs @ a # ys"
    using rep_slot(2) [OF rep found(1)] by (meson split_list)
  obtain h ss bs where d:
    "discard_node w (Some a) = Some (w\<lparr>nodes := h, slots := ss, tw_fd_buckets := bs, tw_size := tw_size w - 1\<rparr>)"
    "wheel_rep (w\<lparr>nodes := h, slots := ss, tw_fd_buckets := bs, tw_size := tw_size w - 1\<rparr>) (L(node_slot w n := xs @ ys))"
    "h a = None" "\<And>b. b \<noteq> a \<Longrightarrow> map_option key_of (h b) = map_option key_of (nodes w b)"
    by (rule discard_ok [OF rep found(1) xs]) (rule that)
  let ?w = "w\<lparr>nodes := h, slots := ss, tw_fd_buckets := bs, tw_size := tw_size w - 1\<rparr>"
  have "deadlines ?w f = Some t \<longleftrightarrow> ((deadlines w)(fd := None)) f = Some t" for f t
    using deadlines_iff [OF d(2)] deadlines_iff [OF rep] timers_discard [OF rep found(1) d(3,4)] found(2) by simp
  then have "deadlines ?w = (deadlines w)(fd := None)" by (rule map_eqI)
  moreover have "timer_wheel_remove w fd = Some ?w"
    using found(3) d(1) \<open>0 \<le> fd\<close> by (simp add: timer_wheel_remove_def)
  ultimately show ?thesis using d(2) by (auto simp: wheel_inv_def)
next
  case absent
  then show ?thesis using rep by (auto simp: timer_wheel_remove_def wheel_inv_def fun_upd_idem)
qed

lemma touch_correct:
  assumes rep: "wheel_rep w L" and d: "deadlines w fd = Some d0" and nsec: "\<not> bad_nsec now"
  shows "\<exists>w'. timer_wheel_touch_at w fd now = Some (0, w') \<and> wheel_inv w' \<and>
    deadlines w' = (deadlines w)(fd \<mapsto> due w now) \<and> current_second w' = current_second w \<and>
    timeout_seconds w' = timeout_seconds w"
  using rep
proof (cases rule: find_node_cases [where fd = fd])
  case (found a n)
  let ?c = "slot_count w" and ?i = "node_slot w n"
  note D = wheel_repD [OF rep]
  have i: "?i < ?c" by (rule rep_slot(1) [OF rep found(1)])
  obtain xs ys where xs: "L ?i = xs @ a # ys" using rep_slot(2) [OF rep found(1)] by (meson split_list)
  let ?L = "L(?i := xs @ ys)" and ?n = "n\<lparr>slot_previous := None, slot_next := None\<rparr>"
  obtain h1 ss1 where u: "unlink_slot w (Some a) = Some (w\<lparr>nodes := h1, slots := ss1\<rparr>)"
    "slotted ?c h1 ss1 ?L" "same_timers (nodes w) h1" "h1 a = Some ?n"
    by (rule unlink_slot_ok [OF D(3) i xs found(1)])
  let ?m = "?n\<lparr>deadline := due w now\<rparr>"
  let ?w = "w\<lparr>slots := ss1, nodes := h1(a \<mapsto> ?m)\<rparr>"
  have notin: "\<And>j. j < ?c \<Longrightarrow> a \<notin> set (?L j)" by (rule slotted_absent [OF D(3) i xs])
  have dom1: "dom h1 = dom (nodes w)" by (rule same_timers_dom [OF u(3)])
  obtain h ss where l: "link_slot ?w (Some a) = Some (?w\<lparr>nodes := h, slots := ss\<rparr>)" "same_timers (nodes ?w) h"
    "wheel_rep (?w\<lparr>nodes := h, slots := ss, tw_size := card (dom (nodes ?w))\<rparr>)
       (?L(node_slot ?w ?m := a # ?L (node_slot ?w ?m)))"
  proof (rule link_rep [of ?w ?L a ?m])
    show "slotted (slot_count ?w) (nodes ?w) (slots ?w) ?L"
      using slotted_frame [OF u(2), of "h1(a \<mapsto> ?m)"] notin by fastforce
    have "timer_ix.ix h1 (tw_fd_buckets w) (dom (nodes w))" by (rule ix_same_timers [OF D(4) u(3)])
    then show "timer_ix.ix (nodes ?w) (tw_fd_buckets ?w) (dom (nodes ?w))"
      using timer_ix.ix_frame [of h1 "tw_fd_buckets w" "dom (nodes w)" "h1(a \<mapsto> ?m)"] u(4) dom1 found(1)
      by (simp add: insert_absorb domIff)
    show "dom (nodes ?w) = insert a (\<Union>i < slot_count ?w. set (?L i))"
      using slotted_absent_UN [OF D(3) i xs] D(5) dom1 by simp
    show "node_slot ?w (the (nodes ?w b)) = j" if j: "j < slot_count ?w" "b \<in> set (?L j)" for j b
    proof -
      have b: "b \<noteq> a" "b \<in> set (L j)" using j notin [of j] xs by (auto split: if_splits)
      then have "b \<in> dom (nodes w)" using D(5) j(1) by auto
      then show ?thesis using D(6) [of j b] b j(1) same_timers_the [OF u(3), of b] by simp
    qed
    show "0 \<le> tn_fd m" if m: "nodes ?w b = Some m" for b m
    proof (cases "b = a")
      case False
      then obtain z where "nodes w b = Some z" "tn_fd z = tn_fd m"
        using m same_timers_fd [OF u(3), of b m] by auto
      then show ?thesis using D(7) [of b z] by simp
    next
      case True
      then have "tn_fd m = tn_fd n" using m by auto
      then show ?thesis using D(7) [OF found(1)] by simp
    qed
  qed (use D(1) notin in auto)
  let ?w' = "?w\<lparr>nodes := h, slots := ss, tw_size := card (dom (nodes ?w))\<rparr>"
  have "a \<in> dom (nodes w)" using found(1) by blast
  then have "card (dom (nodes ?w)) = tw_size w" using D(8) dom1 by (simp add: insert_absorb)
  then have "?w' = ?w\<lparr>nodes := h, slots := ss\<rparr>" by simp
  then have "timer_wheel_touch_at w fd now = Some (0, ?w')"
    using found(3) u(1,4) l(1) nsec by (simp add: timer_wheel_touch_at_def mem_simps)
  moreover have "deadlines ?w' f = Some t \<longleftrightarrow> ((deadlines w)(fd \<mapsto> due w now)) f = Some t" for f t
  proof -
    have uniq: "b = a" if m: "h1 b = Some m" "tn_fd m = fd" for b m
    proof -
      obtain z where "nodes w b = Some z" "tn_fd z = fd" using same_timers_fd [OF u(3) m(1)] m(2) by auto
      then show ?thesis using timer_ix.ix_inj [OF D(4), of b a] found(1,2) by (simp add: domIff)
    qed
    have "timers (h1(a \<mapsto> ?m)) f t \<longleftrightarrow> (if f = tn_fd ?m then t = deadline ?m else timers h1 f t)"
    proof (rule timers_upd)
      show "tn_fd m \<noteq> tn_fd ?m" if "b \<noteq> a" "h1 b = Some m" for b m using uniq [OF that(2)] that(1) found(2) by auto
    qed (use u(4) in simp)
    then have "timers (nodes ?w) f t \<longleftrightarrow> (if f = fd then t = due w now else timers h1 f t)"
      using found(2) by simp
    moreover have "deadlines ?w' f = Some t \<longleftrightarrow> timers (nodes ?w) f t"
      using deadlines_iff [OF l(3), of f t] timers_same [OF l(2), of f t] by simp
    ultimately show ?thesis using deadlines_iff [OF rep, of f t] timers_same [OF u(3), of f t] by auto
  qed
  then have "deadlines ?w' = (deadlines w)(fd \<mapsto> due w now)" by (rule map_eqI)
  ultimately show ?thesis using l(3) by (auto simp: wheel_inv_def)
qed (use d in simp)

subsection \<open>Advancing\<close>

abbreviation passed :: "timespec \<Rightarrow> timespec \<Rightarrow> bool" where
  "passed now d \<equiv> timespec_compare d now \<le> 0"

definition headp :: "nat list \<Rightarrow> ptr" where
  "headp as = (case as of [] \<Rightarrow> None | a # _ \<Rightarrow> Some a)"

lemma dseg_head: "dseg h prev p as None \<Longrightarrow> p = headp as"
  by (cases as) (auto simp: headp_def)

lemma dll_next: "dll h p (xs @ a # ys) \<Longrightarrow> h a = Some n \<Longrightarrow> slot_next n = headp ys"
  by (auto simp: dseg_append dest: dseg_head)

text \<open>The descriptors that the walk over the nodes \<open>as\<close> expires.\<close>

definition due_fds :: "timer_node heap \<Rightarrow> timespec \<Rightarrow> nat list \<Rightarrow> int list" where
  "due_fds h now as = map (\<lambda>a. tn_fd (the (h a))) (filter (\<lambda>a. passed now (deadline (the (h a)))) as)"

lemma due_fds_cong:
  assumes "\<And>b. b \<in> set as \<Longrightarrow> \<exists>n n'. h b = Some n \<and> h' b = Some n' \<and> key_of n' = key_of n"
  shows "due_fds h' now as = due_fds h now as"
  using assms
proof (induction as)
  case (Cons b as)
  obtain n n' where "h b = Some n" "h' b = Some n'" "tn_fd n' = tn_fd n" "deadline n' = deadline n"
    using Cons.prems [of b] by (auto simp: key_of_def)
  then show ?case using Cons.IH Cons.prems by (simp add: due_fds_def)
qed (simp add: due_fds_def)

lemma key_live: "map_option key_of x = map_option key_of y \<Longrightarrow> y \<noteq> None \<Longrightarrow> \<exists>n n'. y = Some n \<and> x = Some n' \<and> key_of n' = key_of n"
  by auto

lemma advance_slot_ok:
  assumes "wheel_rep w L" "i < slot_count w" "L i = kept @ rest"
  shows "\<exists>w' L'. advance_slot now (headp rest) w expired = Some (w', expired @ due_fds (nodes w) now rest) \<and>
    wheel_rep w' L' \<and> current_second w' = current_second w \<and> slot_count w' = slot_count w \<and>
    timeout_seconds w' = timeout_seconds w \<and>
    (\<forall>fd d. timers (nodes w') fd d \<longleftrightarrow> timers (nodes w) fd d \<and> fd \<notin> set (due_fds (nodes w) now rest))"
  using assms
proof (induction rest arbitrary: w L kept expired)
  case Nil
  then show ?case
    by (intro exI [of _ w] exI [of _ L]) (simp add: headp_def due_fds_def advance_slot.simps)
next
  case (Cons a rest)
  note rep = Cons.prems(1) and D = wheel_repD [OF Cons.prems(1)]
  have "set (L i) \<subseteq> dom (nodes w)" unfolding D(5) using Cons.prems(2) by blast
  then have aS: "a \<in> dom (nodes w)" and restS: "set rest \<subseteq> dom (nodes w)" using Cons.prems(3) by auto
  then obtain n where n: "nodes w a = Some n" by blast
  have i: "node_slot w n = i" using D(6) [OF Cons.prems(2), of a] Cons.prems(3) n by simp
  have d: "dll (nodes w) (slots w ! i) (kept @ a # rest)"
    using D(3) Cons.prems(2,3) by (auto simp: slotted_def)
  have nxt: "slot_next n = headp rest" by (rule dll_next [OF d n])
  have dist: "a \<notin> set rest" using dll_distinct [OF d] by simp
  have La: "L (node_slot w n) = kept @ a # rest" using Cons.prems(3) i by simp
  show ?case
  proof (cases "passed now (deadline n)")
    case True
    obtain h ss bs where e:
      "discard_node w (Some a) = Some (w\<lparr>nodes := h, slots := ss, tw_fd_buckets := bs, tw_size := tw_size w - 1\<rparr>)"
      "wheel_rep (w\<lparr>nodes := h, slots := ss, tw_fd_buckets := bs, tw_size := tw_size w - 1\<rparr>) (L(node_slot w n := kept @ rest))"
      "h a = None" "\<And>b. b \<noteq> a \<Longrightarrow> map_option key_of (h b) = map_option key_of (nodes w b)"
      by (rule discard_ok [OF rep n La]) (rule that)
    let ?w = "w\<lparr>nodes := h, slots := ss, tw_fd_buckets := bs, tw_size := tw_size w - 1\<rparr>"
    have due: "due_fds h now rest = due_fds (nodes w) now rest"
    proof (rule due_fds_cong)
      fix b assume "b \<in> set rest"
      then show "\<exists>n n'. nodes w b = Some n \<and> h b = Some n' \<and> key_of n' = key_of n"
        using key_live [OF e(4), of b] dist restS by fast
    qed
    have tim: "timers h fd t \<longleftrightarrow> fd \<noteq> tn_fd n \<and> timers (nodes w) fd t" for fd t
      by (rule timers_discard [OF rep n e(3,4)])
    obtain w' L' where IH: "advance_slot now (headp rest) ?w (expired @ [tn_fd n]) =
        Some (w', (expired @ [tn_fd n]) @ due_fds (nodes ?w) now rest)" "wheel_rep w' L'"
      "current_second w' = current_second ?w" "slot_count w' = slot_count ?w" "timeout_seconds w' = timeout_seconds ?w"
      "\<forall>fd d. timers (nodes w') fd d \<longleftrightarrow> timers (nodes ?w) fd d \<and> fd \<notin> set (due_fds (nodes ?w) now rest)"
      using Cons.IH [OF e(2), of kept "expired @ [tn_fd n]"] Cons.prems(2) i by auto
    have "due_fds (nodes w) now (a # rest) = tn_fd n # due_fds (nodes w) now rest"
      using True n by (simp add: due_fds_def)
    moreover have "advance_slot now (headp (a # rest)) w expired = Some (w', expired @ tn_fd n # due_fds (nodes w) now rest)"
      using IH(1) True n e(1) nxt due
      by (simp add: headp_def advance_slot.simps [of _ "Some a"] mem_simps)
    ultimately show ?thesis using IH(2-6) due tim by (intro exI [of _ w'] exI [of _ L']) auto
  next
    case False
    obtain w1 h ss where e: "unlink_slot w (Some a) = Some w1" "link_slot w1 (Some a) = Some (w\<lparr>nodes := h, slots := ss\<rparr>)"
      "wheel_rep (w\<lparr>nodes := h, slots := ss\<rparr>) (L(node_slot w n := a # kept @ rest))" "same_timers (nodes w) h"
      by (rule relink_ok [OF rep n La])
    let ?w = "w\<lparr>nodes := h, slots := ss\<rparr>"
    have due: "due_fds h now rest = due_fds (nodes w) now rest"
    proof (rule due_fds_cong)
      fix b assume "b \<in> set rest"
      then show "\<exists>n n'. nodes w b = Some n \<and> h b = Some n' \<and> key_of n' = key_of n"
        using key_live [OF same_timers_key [OF e(4)], of b] restS by fast
    qed
    have tim: "timers h fd t \<longleftrightarrow> timers (nodes w) fd t" for fd t by (rule timers_same [OF e(4)])
    obtain w' L' where IH: "advance_slot now (headp rest) ?w expired =
        Some (w', expired @ due_fds (nodes ?w) now rest)" "wheel_rep w' L'"
      "current_second w' = current_second ?w" "slot_count w' = slot_count ?w" "timeout_seconds w' = timeout_seconds ?w"
      "\<forall>fd d. timers (nodes w') fd d \<longleftrightarrow> timers (nodes ?w) fd d \<and> fd \<notin> set (due_fds (nodes ?w) now rest)"
      using Cons.IH [OF e(3), of "a # kept" expired] Cons.prems(2) i by auto
    have "due_fds (nodes w) now (a # rest) = due_fds (nodes w) now rest"
      using False n by (simp add: due_fds_def)
    moreover have "advance_slot now (headp (a # rest)) w expired = Some (w', expired @ due_fds (nodes w) now rest)"
      using IH(1) False n e(1,2) nxt due
      by (simp add: headp_def advance_slot.simps [of _ "Some a"] mem_simps)
    ultimately show ?thesis using IH(2-6) due tim by (intro exI [of _ w'] exI [of _ L']) auto
  qed
qed

lemma due_fds_distinct:
  assumes rep: "wheel_rep w L" and i: "i < slot_count w"
  shows "distinct (due_fds (nodes w) now (L i))"
proof -
  have sub: "set (L i) \<subseteq> dom (nodes w)" unfolding wheel_repD(5) [OF rep] using i by blast
  have "dll (nodes w) (slots w ! i) (L i)" using wheel_repD(3) [OF rep] i by (simp add: slotted_def)
  then have "distinct (L i)" by (rule dll_distinct)
  moreover have "inj_on (\<lambda>a. tn_fd (the (nodes w a))) (set (L i))"
    using timer_ix.ix_inj [OF wheel_repD(4) [OF rep]] sub by (intro inj_onI) (meson subsetD)
  ultimately show ?thesis
    unfolding due_fds_def by (auto simp: distinct_map intro: inj_on_subset)
qed

lemma due_fds_passed:
  assumes "wheel_rep w L" "i < slot_count w" "fd \<in> set (due_fds (nodes w) now (L i))"
  shows "\<exists>d. timers (nodes w) fd d \<and> passed now d"
proof -
  have "set (L i) \<subseteq> dom (nodes w)" unfolding wheel_repD(5) [OF assms(1)] using assms(2) by blast
  then show ?thesis using assms(3) by (force simp: due_fds_def timers_def)
qed

lemma due_fds_complete:
  assumes rep: "wheel_rep w L" and t: "timers (nodes w) fd d" "passed now d"
  shows "fd \<in> set (due_fds (nodes w) now (L (slot_index (slot_count w) (deadline_tick d))))"
proof -
  obtain a n where a: "nodes w a = Some n" "tn_fd n = fd" "deadline n = d" using t(1) by (auto simp: timers_def)
  have "a \<in> set (L (slot_index (slot_count w) (deadline_tick d)))" using rep_slot(2) [OF rep a(1)] a(3) by simp
  then show ?thesis using a t(2) by (force simp: due_fds_def)
qed

lemma tick_passed:
  "deadline_tick d \<le> tv_sec now \<Longrightarrow> 0 \<le> tv_nsec now \<Longrightarrow> passed now d"
  by (auto simp: deadline_tick_def timespec_compare_def split: if_splits)

text \<open>The specification of advancing: \<open>ex\<close> are the descriptors that expire.\<close>

definition spec_advance :: "timespec \<Rightarrow> int \<Rightarrow> (int \<Rightarrow> timespec option) \<Rightarrow> int list \<Rightarrow> bool" where
  "spec_advance now cur m ex \<longleftrightarrow> distinct ex \<and>
     (\<forall>fd\<in>set ex. \<exists>d. m fd = Some d \<and> passed now d) \<and>
     (\<forall>fd d. m fd = Some d \<longrightarrow> cur < deadline_tick d \<longrightarrow> deadline_tick d \<le> tv_sec now \<longrightarrow> fd \<in> set ex)"

lemma wheel_rep_second: "wheel_rep (w\<lparr>current_second := s\<rparr>) L \<longleftrightarrow> wheel_rep w L"
  by (simp add: wheel_rep_def)

lemma advance_seconds_ok:
  assumes "wheel_inv w" "0 \<le> tv_nsec now"
  shows "\<exists>w' ex. advance_seconds now w expired = Some (w', expired @ ex) \<and> wheel_inv w' \<and>
    current_second w' = max (current_second w) (tv_sec now) \<and> timeout_seconds w' = timeout_seconds w \<and>
    spec_advance now (current_second w) (deadlines w) ex \<and>
    deadlines w' = (\<lambda>fd. if fd \<in> set ex then None else deadlines w fd)"
  using assms
proof (induction "nat (tv_sec now - current_second w)" arbitrary: w expired)
  case 0
  then have "\<not> current_second w < tv_sec now" by simp
  then show ?case using 0
    by (intro exI [of _ w] exI [of _ "[]"])
      (auto simp: advance_seconds.simps spec_advance_def)
next
  case (Suc k)
  let ?T = "current_second w + 1"
  let ?s = "slot_index (slot_count w) ?T" and ?w = "w\<lparr>current_second := ?T\<rparr>"
  have lt: "current_second w < tv_sec now" using Suc.hyps(2) by simp
  obtain L where rep: "wheel_rep w L" using Suc.prems(1) by (auto simp: wheel_inv_def)
  note D = wheel_repD [OF rep]
  have s: "?s < slot_count w" by (rule slot_index_bound [OF D(2)])
  have rep': "wheel_rep ?w L" using rep by (simp add: wheel_rep_second)
  have dll: "dll (nodes w) (slots w ! ?s) (L ?s)" and len: "length (slots w) = slot_count w"
    using D(3) s by (auto simp: slotted_def)
  let ?due = "due_fds (nodes w) now (L ?s)"
  obtain w1 L1 where one: "advance_slot now (headp (L ?s)) ?w expired = Some (w1, expired @ ?due)" "wheel_rep w1 L1"
    "current_second w1 = ?T" "timeout_seconds w1 = timeout_seconds w"
    "\<forall>fd d. timers (nodes w1) fd d \<longleftrightarrow> timers (nodes w) fd d \<and> fd \<notin> set ?due"
    using advance_slot_ok [OF rep', of ?s "[]" "L ?s" now expired] s by auto
  have d1: "deadlines w1 = (\<lambda>fd. if fd \<in> set ?due then None else deadlines w fd)"
    by (rule map_eqI) (use one(5) in \<open>auto simp: deadlines_iff [OF one(2)] deadlines_iff [OF rep]\<close>)
  have inv1: "wheel_inv w1" using one(2) by (auto simp: wheel_inv_def)
  have "k = nat (tv_sec now - current_second w1)" using Suc.hyps(2) one(3) by simp
  then obtain w' ex where IH: "advance_seconds now w1 (expired @ ?due) = Some (w', (expired @ ?due) @ ex)" "wheel_inv w'"
    "current_second w' = max (current_second w1) (tv_sec now)" "timeout_seconds w' = timeout_seconds w1"
    "spec_advance now (current_second w1) (deadlines w1) ex"
    "deadlines w' = (\<lambda>fd. if fd \<in> set ex then None else deadlines w1 fd)"
    using Suc.hyps(1) [OF _ inv1 Suc.prems(2), of "expired @ ?due"] by blast
  have "advance_seconds now w expired = Some (w', expired @ ?due @ ex)"
    using lt s len one(1) IH(1) dseg_head [OF dll]
    by (simp add: advance_seconds.simps [of now w] mem_simps)
  moreover have "spec_advance now (current_second w) (deadlines w) (?due @ ex)"
    unfolding spec_advance_def
  proof (intro conjI ballI allI impI)
    have "fd \<notin> set ?due" if "fd \<in> set ex" for fd
      using that IH(5) d1 unfolding spec_advance_def by (metis option.distinct(1))
    then show "distinct (?due @ ex)" using due_fds_distinct [OF rep s] IH(5) by (auto simp: spec_advance_def)
    show "\<exists>d. deadlines w fd = Some d \<and> passed now d" if "fd \<in> set (?due @ ex)" for fd
    proof (cases "fd \<in> set ?due")
      case True
      then show ?thesis using due_fds_passed [OF rep s] deadlines_iff [OF rep] by blast
    next
      case False
      then show ?thesis using that IH(5) d1 unfolding spec_advance_def by (metis UnE set_append)
    qed
    fix fd d assume t: "deadlines w fd = Some d" "current_second w < deadline_tick d" "deadline_tick d \<le> tv_sec now"
    show "fd \<in> set (?due @ ex)"
    proof (cases "deadline_tick d = ?T")
      case True
      then show ?thesis
        using due_fds_complete [OF rep, of fd d now] t tick_passed [OF t(3) Suc.prems(2)] deadlines_iff [OF rep] by simp
    next
      case False
      then show ?thesis using t IH(5) d1 one(3) unfolding spec_advance_def
        by (cases "fd \<in> set ?due") auto
    qed
  qed
  ultimately show ?case
    using IH(2-4,6) one(3,4) d1 lt by (intro exI [of _ w'] exI [of _ "?due @ ex"]) auto
qed

subsection \<open>Destruction\<close>

lemma tw_destroy_buckets_ok:
  assumes "list_all2 (chain tn_hash_next h) ps ass" "sorted_wrt (\<lambda>as bs. set as \<inter> set bs = {}) ass"
  shows "tw_destroy_buckets ps h = Some (\<lambda>a. if a \<in> set (concat ass) then None else h a)"
  using assms
proof (induction ps arbitrary: ass h)
  case (Cons p ps)
  obtain as rest where ass: "ass = as # rest" "chain tn_hash_next h p as" "list_all2 (chain tn_hash_next h) ps rest"
    using Cons.prems(1) by (auto simp: list_all2_Cons1)
  let ?h = "\<lambda>a. if a \<in> set as then None else h a"
  have "list_all2 (chain tn_hash_next ?h) ps rest"
  proof (rule list.rel_mono_strong [OF ass(3)])
    fix q bs assume q: "q \<in> set ps" "bs \<in> set rest" "chain tn_hash_next h q bs"
    have "?h a = h a" if "a \<in> set bs" for a using Cons.prems(2) that q(2) ass(1) by auto
    then show "chain tn_hash_next ?h q bs" by (intro chain_frame [OF q(3)]) simp
  qed
  then have "tw_destroy_buckets ps ?h = Some (\<lambda>a. if a \<in> set (concat rest) then None else ?h a)"
    by (rule Cons.IH) (use Cons.prems(2) ass(1) in simp)
  then show ?case by (auto simp: ass(1) chain_free_chain [OF ass(2)] fun_eq_iff)
qed simp

lemma timer_wheel_destroy_ok:
  assumes rep: "wheel_rep w L"
  shows "timer_wheel_destroy w = Some Map.empty"
proof -
  let ?n = TIMER_FD_BUCKET_COUNT
  obtain K where K: "length (tw_fd_buckets w) = ?n" "dom (nodes w) = (\<Union>i<?n. set (K i))"
    "\<And>i. i < ?n \<Longrightarrow> chain tn_hash_next (nodes w) (tw_fd_buckets w ! i) (K i)"
    "\<And>i a. i < ?n \<Longrightarrow> a \<in> set (K i) \<Longrightarrow> tw_hash_fd (tn_fd (the (nodes w a))) = i"
    by (rule timer_ix.ix_E [OF wheel_repD(4) [OF rep]]) blast
  let ?ass = "map K [0..<?n]"
  have "tw_destroy_buckets (tw_fd_buckets w) (nodes w) =
      Some (\<lambda>a. if a \<in> set (concat ?ass) then None else nodes w a)"
  proof (rule tw_destroy_buckets_ok)
    show "list_all2 (chain tn_hash_next (nodes w)) (tw_fd_buckets w) ?ass"
      using K(1,3) by (simp add: list_all2_conv_all_nth)
    have "set (K i) \<inter> set (K j) = {}" if "i < ?n" "j < ?n" "i \<noteq> j" for i j using K(4) that by blast
    then show "sorted_wrt (\<lambda>as bs. set as \<inter> set bs = {}) ?ass" by (simp add: sorted_wrt_iff_nth_less)
  qed
  moreover have "set (concat ?ass) = dom (nodes w)" using K(2) by auto
  ultimately have "tw_destroy_buckets (tw_fd_buckets w) (nodes w) =
      Some (\<lambda>a. if a \<in> dom (nodes w) then None else nodes w a)" by (simp only:)
  moreover have "(\<lambda>a. if a \<in> dom (nodes w) then None else nodes w a) = Map.empty" by (auto simp: domIff)
  ultimately show ?thesis using K(1) by (simp add: timer_wheel_destroy_def)
qed

subsection \<open>Runs of the wheel\<close>

text \<open>A wheel is timely when no tracked deadline falls in a second that has been processed.\<close>

definition timely :: "timer_wheel_t \<Rightarrow> bool" where
  "timely w \<longleftrightarrow> (\<forall>fd d. deadlines w fd = Some d \<longrightarrow> current_second w < deadline_tick d)"

text \<open>
  The states a wheel goes through when its clock never runs backwards: \<open>wheel_run w t\<close> says that
  \<open>w\<close> was created and then tracked, touched, removed from and advanced, the last time at second \<open>t\<close>.
\<close>

inductive wheel_run :: "timer_wheel_t \<Rightarrow> int \<Rightarrow> bool" where
  create: "timer_wheel_create timeout (Some now) True True True True = Some w \<Longrightarrow> wheel_run w (tv_sec now)"
| track: "wheel_run w t \<Longrightarrow> t \<le> tv_sec now \<Longrightarrow> fresh_ptr (nodes w) new \<Longrightarrow>
    timer_wheel_track w fd (Some now) new = Some (r, w') \<Longrightarrow> wheel_run w' (tv_sec now)"
| touch: "wheel_run w t \<Longrightarrow> t \<le> tv_sec now \<Longrightarrow> timer_wheel_touch w fd (Some now) = Some (r, w') \<Longrightarrow>
    wheel_run w' (tv_sec now)"
| remove: "wheel_run w t \<Longrightarrow> timer_wheel_remove w fd = Some w' \<Longrightarrow> wheel_run w' t"
| advance: "wheel_run w t \<Longrightarrow> t \<le> tv_sec now \<Longrightarrow> 0 \<le> tv_nsec now \<Longrightarrow>
    timer_wheel_advance w (Some now) = Some (r, w', ex) \<Longrightarrow> wheel_run w' (tv_sec now)"

lemma create_rep:
  assumes "timer_wheel_create timeout (Some now) True True True True = Some w"
  shows "wheel_rep w (\<lambda>_. [])" "deadlines w = Map.empty" "current_second w = tv_sec now"
    "0 < timeout_seconds w"
proof -
  have w: "w = \<lparr>nodes = Map.empty, timeout_seconds = unat timeout, slot_count = unat timeout + 1,
      current_second = tv_sec now, slots = replicate (unat timeout + 1) None,
      tw_fd_buckets = replicate TIMER_FD_BUCKET_COUNT None, tw_size = 0\<rparr>" and t: "timeout \<noteq> 0"
    using assms by (auto simp: timer_wheel_create_def split: if_splits)
  show rep: "wheel_rep w (\<lambda>_. [])" by (simp add: w wheel_rep_def slotted_def timer_ix.ix_empty del: replicate_Suc)
  have "deadlines w f = Some d \<longleftrightarrow> Map.empty f = Some d" for f d
    using deadlines_iff [OF rep] by (simp add: timers_def w)
  then show "deadlines w = Map.empty" by (rule map_eqI)
  show "current_second w = tv_sec now" "0 < timeout_seconds w" using t by (simp_all add: w unat_gt_0)
qed

lemma track_cases:
  assumes inv: "wheel_inv w" and fresh: "fresh_ptr (nodes w) new"
  obtains (no) "timer_wheel_track w fd (Some now) new = Some (- 1, w)" "fd < 0 \<or> deadlines w fd \<noteq> None \<or> new = None"
  | (yes) w' where "timer_wheel_track w fd (Some now) new = Some (0, w')" "wheel_inv w'" "0 \<le> fd" "new \<noteq> None"
      "deadlines w fd = None" "deadlines w' = (deadlines w)(fd \<mapsto> due w now)"
      "current_second w' = current_second w" "timeout_seconds w' = timeout_seconds w"
proof -
  obtain L where rep: "wheel_rep w L" using inv by (auto simp: wheel_inv_def)
  show thesis
  proof (cases "fd < 0 \<or> deadlines w fd \<noteq> None \<or> new = None")
    case True
    have "timer_wheel_track w fd (Some now) new = Some (- 1, w)"
      using rep by (cases rule: find_node_cases [where fd = fd])
        (use True in \<open>auto simp: timer_wheel_track_def track_locked_def\<close>)
    then show thesis using no True by blast
  next
    case False
    then obtain a where "new = Some a" "nodes w a = None" using fresh by (auto simp: fresh_ptr_def split: option.splits)
    then show thesis
      using track_correct [OF rep, of fd a now] False yes by (auto simp: timer_wheel_track_def)
  qed
qed

lemma touch_cases:
  assumes inv: "wheel_inv w"
  obtains (no) "timer_wheel_touch_at w fd now = Some (- 1, w)" "bad_nsec now \<or> deadlines w fd = None"
  | (yes) w' where "timer_wheel_touch_at w fd now = Some (0, w')" "wheel_inv w'" "deadlines w fd \<noteq> None"
      "deadlines w' = (deadlines w)(fd \<mapsto> due w now)"
      "current_second w' = current_second w" "timeout_seconds w' = timeout_seconds w"
proof -
  obtain L where rep: "wheel_rep w L" using inv by (auto simp: wheel_inv_def)
  show thesis
  proof (cases "bad_nsec now \<or> deadlines w fd = None")
    case True
    have "timer_wheel_touch_at w fd now = Some (- 1, w)"
      using rep by (cases rule: find_node_cases [where fd = fd])
        (use True in \<open>auto simp: timer_wheel_touch_at_def\<close>)
    then show thesis using no True by blast
  next
    case False
    then show thesis using touch_correct [OF rep, of fd _ now] yes by blast
  qed
qed

lemma advance_inv:
  assumes "wheel_inv w" "0 \<le> tv_nsec now"
  obtains w' ex where "timer_wheel_advance_at w now = Some (0, w', ex)" "wheel_inv w'"
    "current_second w' = max (current_second w) (tv_sec now)" "timeout_seconds w' = timeout_seconds w"
    "spec_advance now (current_second w) (deadlines w) ex"
    "deadlines w' = (\<lambda>fd. if fd \<in> set ex then None else deadlines w fd)"
  using advance_seconds_ok [OF assms, of "[]"] by (auto simp: timer_wheel_advance_at_def)

lemma due_tick: "t \<le> tv_sec now \<Longrightarrow> 0 < timeout_seconds w \<Longrightarrow> t < deadline_tick (due w now)"
  by (simp add: deadline_tick_def)

lemma advance_timely:
  assumes "spec_advance now (current_second w) (deadlines w) ex" "timely w"
    "deadlines w' = (\<lambda>fd. if fd \<in> set ex then None else deadlines w fd)"
    "current_second w' = max (current_second w) (tv_sec now)"
  shows "timely w'"
  unfolding timely_def
proof (intro allI impI)
  fix fd d assume "deadlines w' fd = Some d"
  then have d: "deadlines w fd = Some d" "fd \<notin> set ex" using assms(3) by (auto split: if_splits)
  have "current_second w < deadline_tick d" using assms(2) d(1) by (simp add: timely_def)
  moreover from this have "\<not> deadline_tick d \<le> tv_sec now" using assms(1) d unfolding spec_advance_def by blast
  ultimately show "current_second w' < deadline_tick d" using assms(4) by simp
qed

lemma wheel_run_inv:
  "wheel_run w t \<Longrightarrow> wheel_inv w \<and> timely w \<and> current_second w \<le> t \<and> 0 < timeout_seconds w"
proof (induction rule: wheel_run.induct)
  case (create timeout now w)
  then show ?case using create_rep [OF create] by (auto simp: wheel_inv_def timely_def)
next
  case (track w t now new fd r w')
  have "wheel_inv w" using track.IH by blast
  then show ?case using track.hyps(3)
  proof (cases rule: track_cases [where fd = fd and now = now])
    case (yes v)
    then show ?thesis using track.IH track.hyps(2,4) due_tick [of "current_second w" now w]
      by (auto simp: timely_def split: if_splits)
  qed (use track in auto)
next
  case (touch w t now fd r w')
  have "wheel_inv w" using touch.IH by blast
  then show ?case
  proof (cases rule: touch_cases [where fd = fd and now = now])
    case (yes v)
    then show ?thesis using touch.IH touch.hyps(2,3) due_tick [of "current_second w" now w]
      by (auto simp: timely_def timer_wheel_touch_def split: if_splits)
  qed (use touch in \<open>auto simp: timer_wheel_touch_def\<close>)
next
  case (remove w t fd w')
  obtain L where "wheel_rep w L" using remove.IH by (auto simp: wheel_inv_def)
  then obtain v where v: "timer_wheel_remove w fd = Some v" "wheel_inv v" "deadlines v = (deadlines w)(fd := None)"
    "current_second v = current_second w" "timeout_seconds v = timeout_seconds w"
    using remove_correct [of w L fd] by blast
  then have "w' = v" using remove.hyps(2) by simp
  then show ?case using v(2-5) remove.IH by (simp add: timely_def)
next
  case (advance w t now r w' ex)
  have inv: "wheel_inv w" using advance.IH by blast
  obtain v ex' where v: "timer_wheel_advance_at w now = Some (0, v, ex')" "wheel_inv v"
    "current_second v = max (current_second w) (tv_sec now)" "timeout_seconds v = timeout_seconds w"
    "spec_advance now (current_second w) (deadlines w) ex'"
    "deadlines v = (\<lambda>fd. if fd \<in> set ex' then None else deadlines w fd)"
    by (rule advance_inv [OF inv advance.hyps(3)])
  then have "w' = v" using advance.hyps(4) by (simp add: timer_wheel_advance_def)
  then show ?case using v advance_timely [OF v(5) _ v(6,3)] advance.IH advance.hyps(2) by auto
qed

subsection \<open>Properties\<close>

text \<open>A wheel with a timeout of 60 seconds that tracks descriptor 7 since second 100.\<close>

definition demo_wheel0 :: timer_wheel_t where
  "demo_wheel0 = the (timer_wheel_create 60 (Some \<lparr>tv_sec = 100, tv_nsec = 0\<rparr>) True True True True)"

definition demo_wheel :: timer_wheel_t where
  "demo_wheel = snd (the (timer_wheel_track demo_wheel0 7 (Some \<lparr>tv_sec = 100, tv_nsec = 5\<rparr>) (Some 1)))"

lemma demo_wheel0_ok:
  "timer_wheel_create 60 (Some \<lparr>tv_sec = 100, tv_nsec = 0\<rparr>) True True True True = Some demo_wheel0"
  "wheel_inv demo_wheel0" "deadlines demo_wheel0 = Map.empty" "nodes demo_wheel0 = Map.empty"
  "timeout_seconds demo_wheel0 = 60" "current_second demo_wheel0 = 100" "wheel_run demo_wheel0 100"
proof -
  show c: "timer_wheel_create 60 (Some \<lparr>tv_sec = 100, tv_nsec = 0\<rparr>) True True True True = Some demo_wheel0"
    by (simp add: demo_wheel0_def timer_wheel_create_def)
  show "wheel_inv demo_wheel0" using create_rep(1) [OF c] by (auto simp: wheel_inv_def)
  show "deadlines demo_wheel0 = Map.empty" by (rule create_rep(2) [OF c])
  show "nodes demo_wheel0 = Map.empty" "timeout_seconds demo_wheel0 = 60" "current_second demo_wheel0 = 100"
    by (simp_all add: demo_wheel0_def timer_wheel_create_def)
  show "wheel_run demo_wheel0 100" using wheel_run.create [OF c] by simp
qed

lemma demo_wheel_ok:
  "timer_wheel_track demo_wheel0 7 (Some \<lparr>tv_sec = 100, tv_nsec = 5\<rparr>) (Some 1) = Some (0, demo_wheel)"
  "wheel_inv demo_wheel" "deadlines demo_wheel = [7 \<mapsto> \<lparr>tv_sec = 160, tv_nsec = 5\<rparr>]"
  "timeout_seconds demo_wheel = 60" "current_second demo_wheel = 100" "wheel_run demo_wheel 100"
proof -
  have "fresh_ptr (nodes demo_wheel0) (Some 1)" by (simp add: demo_wheel0_ok fresh_ptr_def)
  with demo_wheel0_ok(2) show t:
    "timer_wheel_track demo_wheel0 7 (Some \<lparr>tv_sec = 100, tv_nsec = 5\<rparr>) (Some 1) = Some (0, demo_wheel)"
    "wheel_inv demo_wheel" "deadlines demo_wheel = [7 \<mapsto> \<lparr>tv_sec = 160, tv_nsec = 5\<rparr>]"
    "timeout_seconds demo_wheel = 60" "current_second demo_wheel = 100"
    by (cases rule: track_cases [where fd = 7 and now = "\<lparr>tv_sec = 100, tv_nsec = 5\<rparr>"];
        simp add: demo_wheel_def demo_wheel0_ok)+
  show "wheel_run demo_wheel 100"
    using wheel_run.track [OF demo_wheel0_ok(7) _ _ t(1)] by (simp add: demo_wheel0_ok fresh_ptr_def)
qed

lemma touch_refine:
  assumes "wheel_inv w"
  shows "if \<not> bad_nsec now \<and> deadlines w fd \<noteq> None
    then \<exists>w'. timer_wheel_touch_at w fd now = Some (0, w') \<and> wheel_inv w' \<and> deadlines w' = (deadlines w)(fd \<mapsto> due w now)
    else timer_wheel_touch_at w fd now = Some (- 1, w)"
proof -
  obtain L where rep: "wheel_rep w L" using assms by (auto simp: wheel_inv_def)
  show ?thesis
  proof (cases "\<not> bad_nsec now \<and> deadlines w fd \<noteq> None")
    case True
    then show ?thesis using touch_correct [OF rep, of fd _ now] by auto
  next
    case False
    have "timer_wheel_touch_at w fd now = Some (- 1, w)"
      using rep by (cases rule: find_node_cases [where fd = fd])
        (use False in \<open>auto simp: timer_wheel_touch_at_def\<close>)
    then show ?thesis using False by argo
  qed
qed

lemma remove_inv:
  assumes "wheel_inv w"
  obtains w' where "timer_wheel_remove w fd = Some w'" "wheel_inv w'" "deadlines w' = (deadlines w)(fd := None)"
  using assms remove_correct unfolding wheel_inv_def by blast

text \<open>A published descriptor is tracked; a failed publication takes it out again.\<close>

lemma publish_cases:
  assumes "wheel_inv w" "fresh_ptr (nodes w) new"
  obtains (no) w' where "timer_wheel_track_and_publish w fd publish_ret (Some now) new = Some (- 1, w')" "wheel_inv w'" "deadlines w' = deadlines w"
      "publish_ret \<noteq> 0 \<or> fd < 0 \<or> deadlines w fd \<noteq> None \<or> new = None"
  | (yes) w' where "timer_wheel_track_and_publish w fd publish_ret (Some now) new = Some (0, w')" "wheel_inv w'" "publish_ret = 0"
      "deadlines w' = (deadlines w)(fd \<mapsto> due w now)"
  using assms
proof (cases rule: track_cases [where fd = fd and now = now])
  case no
  then show thesis using assms(1) that(1)
    by (auto simp: timer_wheel_track_and_publish_def timer_wheel_track_def split: if_splits)
next
  case (yes v)
  show thesis
  proof (cases "publish_ret = 0")
    case True
    then show thesis using yes that(2) by (auto simp: timer_wheel_track_and_publish_def timer_wheel_track_def split: if_splits)
  next
    case p: False
    obtain L' where rep': "wheel_rep v L'" using yes(2) by (auto simp: wheel_inv_def)
    have undo: "(deadlines v)(fd := None) = deadlines w" using yes by (simp add: fun_upd_idem)
    have "timer_wheel_remove v fd = do { node \<leftarrow> find_node v fd; discard_node v node }"
      using rep' yes(3,6) by (cases rule: find_node_cases [where fd = fd]) (auto simp: timer_wheel_remove_def)
    then obtain w' where w': "do { node \<leftarrow> find_node v fd; discard_node v node } = Some w'" "wheel_inv w'"
      "deadlines w' = (deadlines v)(fd := None)" using remove_correct [OF rep', of fd] by auto
    then have "timer_wheel_track_and_publish w fd publish_ret (Some now) new = Some (- 1, w')"
      using yes(1,3) p by (auto simp: timer_wheel_track_and_publish_def timer_wheel_track_def bind_eq_Some_conv)
    then show thesis using w'(2,3) undo p that(1) by simp
  qed
qed

text \<open>
  C26. The operations of the wheel on one descriptor. \<open>timer_wheel_track\<close> returns 0 exactly for a non-negative
  descriptor that is not tracked yet (and when the node can be allocated) and then adds it with the deadline \<open>now\<close>
  plus the timeout; \<open>timer_wheel_touch_at\<close> moves the deadline of a tracked descriptor, and its node to the slot of
  that deadline; \<open>timer_wheel_remove\<close> drops the deadline; a failed publication in \<open>timer_wheel_track_and_publish\<close>
  restores the deadlines that were there before. No other deadline changes, a refused operation changes nothing, and
  none touches memory that it must not touch.
\<close>

theorem timer_operations_refine:
  assumes "wheel_inv w" "fresh_ptr (nodes w) new"
  shows "(if 0 \<le> fd \<and> deadlines w fd = None \<and> new \<noteq> None
      then \<exists>w'. timer_wheel_track w fd (Some now) new = Some (0, w') \<and> wheel_inv w' \<and> deadlines w' = (deadlines w)(fd \<mapsto> due w now)
      else timer_wheel_track w fd (Some now) new = Some (- 1, w)) \<and>
    (if \<not> bad_nsec now \<and> deadlines w fd \<noteq> None
      then \<exists>w'. timer_wheel_touch_at w fd now = Some (0, w') \<and> wheel_inv w' \<and> deadlines w' = (deadlines w)(fd \<mapsto> due w now)
      else timer_wheel_touch_at w fd now = Some (- 1, w)) \<and>
    (\<exists>w'. timer_wheel_remove w fd = Some w' \<and> wheel_inv w' \<and> deadlines w' = (deadlines w)(fd := None)) \<and>
    (publish_ret \<noteq> 0 \<longrightarrow>
      (\<exists>w'. timer_wheel_track_and_publish w fd publish_ret (Some now) new = Some (- 1, w') \<and> wheel_inv w' \<and> deadlines w' = deadlines w))"
proof (intro conjI)
  show "if 0 \<le> fd \<and> deadlines w fd = None \<and> new \<noteq> None
      then \<exists>w'. timer_wheel_track w fd (Some now) new = Some (0, w') \<and> wheel_inv w' \<and> deadlines w' = (deadlines w)(fd \<mapsto> due w now)
      else timer_wheel_track w fd (Some now) new = Some (- 1, w)"
    using assms by (cases rule: track_cases [where fd = fd and now = now]) auto
  show "\<exists>w'. timer_wheel_remove w fd = Some w' \<and> wheel_inv w' \<and> deadlines w' = (deadlines w)(fd := None)"
    by (rule remove_inv [OF assms(1)]) blast
  show "publish_ret \<noteq> 0 \<longrightarrow>
      (\<exists>w'. timer_wheel_track_and_publish w fd publish_ret (Some now) new = Some (- 1, w') \<and> wheel_inv w' \<and> deadlines w' = deadlines w)"
    using assms by (cases rule: publish_cases [where fd = fd and now = now and publish_ret = publish_ret]) auto
qed (rule touch_refine [OF assms(1)])

theorem timer_operations_refine_witness:
  "(\<exists>w'. timer_wheel_track demo_wheel0 8 (Some \<lparr>tv_sec = 130, tv_nsec = 0\<rparr>) (Some 3) = Some (0, w') \<and>
      wheel_inv w' \<and> deadlines w' = [8 \<mapsto> \<lparr>tv_sec = 190, tv_nsec = 0\<rparr>]) \<and>
   (\<exists>w'. timer_wheel_touch_at demo_wheel 7 \<lparr>tv_sec = 130, tv_nsec = 9\<rparr> = Some (0, w') \<and> deadlines w' = [7 \<mapsto> \<lparr>tv_sec = 190, tv_nsec = 9\<rparr>]) \<and>
   (\<exists>w'. timer_wheel_remove demo_wheel 7 = Some w' \<and> wheel_inv w' \<and> deadlines w' = Map.empty)"
  using timer_operations_refine [of demo_wheel0 "Some 3" 8 "\<lparr>tv_sec = 130, tv_nsec = 0\<rparr>" 0] demo_wheel0_ok
    timer_operations_refine [of demo_wheel None 7 "\<lparr>tv_sec = 130, tv_nsec = 9\<rparr>" 0] demo_wheel_ok
  by (auto simp: fresh_ptr_def)

text \<open>
  C24. Advancing the wheel terminates, keeps the invariant and calls the expiry callback for each
  expired descriptor once: every expired descriptor was tracked with a deadline that has passed, so
  none is closed early; every tracked descriptor whose tick lies between the last processed second
  and \<open>now\<close> is expired, so none is missed, also when many seconds are caught up at once and timers
  of different rounds share a slot; the deadlines of all others stay.
\<close>

theorem timer_advance_refines:
  assumes "wheel_inv w" "0 \<le> tv_nsec now"
  shows "\<exists>w' ex. timer_wheel_advance_at w now = Some (0, w', ex) \<and> wheel_inv w' \<and>
    current_second w' = max (current_second w) (tv_sec now) \<and>
    distinct ex \<and> (\<forall>fd\<in>set ex. \<exists>d. deadlines w fd = Some d \<and> timespec_compare d now \<le> 0) \<and>
    (\<forall>fd d. deadlines w fd = Some d \<longrightarrow> current_second w < deadline_tick d \<longrightarrow>
       deadline_tick d \<le> tv_sec now \<longrightarrow> fd \<in> set ex) \<and>
    deadlines w' = (\<lambda>fd. if fd \<in> set ex then None else deadlines w fd)"
proof -
  obtain w' ex where "timer_wheel_advance_at w now = Some (0, w', ex)" "wheel_inv w'"
    "current_second w' = max (current_second w) (tv_sec now)" "timeout_seconds w' = timeout_seconds w"
    "spec_advance now (current_second w) (deadlines w) ex"
    "deadlines w' = (\<lambda>fd. if fd \<in> set ex then None else deadlines w fd)"
    by (rule advance_inv [OF assms])
  then show ?thesis unfolding spec_advance_def by blast
qed

theorem timer_advance_refines_witness:
  "\<exists>w' ex. timer_wheel_advance_at demo_wheel \<lparr>tv_sec = 161, tv_nsec = 0\<rparr> = Some (0, w', ex) \<and>
    7 \<in> set ex \<and> deadlines w' 7 = None"
proof -
  obtain w' ex where w': "timer_wheel_advance_at demo_wheel \<lparr>tv_sec = 161, tv_nsec = 0\<rparr> = Some (0, w', ex)"
    "\<forall>fd d. deadlines demo_wheel fd = Some d \<longrightarrow> current_second demo_wheel < deadline_tick d \<longrightarrow>
       deadline_tick d \<le> 161 \<longrightarrow> fd \<in> set ex"
    "deadlines w' = (\<lambda>fd. if fd \<in> set ex then None else deadlines demo_wheel fd)"
    using timer_advance_refines [OF demo_wheel_ok(2), of "\<lparr>tv_sec = 161, tv_nsec = 0\<rparr>"] by auto
  have "7 \<in> set ex" using w'(2) demo_wheel_ok(3,5) by (simp add: deadline_tick_def)
  then show ?thesis using w' by simp
qed



text \<open>
  C27. \<open>timer_wheel_destroy\<close> frees every node exactly once and leaves nothing allocated.
\<close>

theorem timer_wheel_destroy_frees_all:
  assumes "wheel_inv w"
  shows "timer_wheel_destroy w = Some Map.empty"
  using assms timer_wheel_destroy_ok by (auto simp: wheel_inv_def)

theorem timer_wheel_destroy_frees_all_witness: "timer_wheel_destroy demo_wheel = Some Map.empty"
  by (rule timer_wheel_destroy_frees_all [OF demo_wheel_ok(2)])

end
