(* ===== verification/Server_Runs.thy ===== *)
theory Server_Runs
  imports Handler_Event Session_Correct Timer_Wheel_Correct Storage
begin

text \<open>
  The server as a whole: the main thread, which accepts connections, reads requests and closes idle connections, and the
  workers, which run the queued tasks, take turns in any order. In every state of such a run each open descriptor
  is watched and timed, or belongs to exactly one task; sessions are bound to open descriptors only; and each task
  speaks for a session that is still there. No event can stop the main thread.
\<close>

subsection \<open>Invariants of step relations\<close>

locale preserved =
  fixes step :: "'s \<Rightarrow> 's \<Rightarrow> bool" and inv :: "'s \<Rightarrow> bool"
  assumes step_keeps: "step s s' \<Longrightarrow> inv s \<Longrightarrow> inv s'"
begin

lemma run_keeps: "step\<^sup>*\<^sup>* s s' \<Longrightarrow> inv s \<Longrightarrow> inv s'"
  by (induction rule: rtranclp_induct) (auto intro: step_keeps)

end

subsection \<open>Sessions of other connections\<close>

text \<open>
  An operation for the descriptor \<open>fd\<close>: every other descriptor stays bound as it is, and the sessions they are bound to
  stay, with their users.
\<close>

definition keeps_others :: "int \<Rightarrow> session_spec \<Rightarrow> session_spec \<Rightarrow> bool" where
  "keeps_others fd \<sigma> \<sigma>' \<longleftrightarrow> (\<forall>c. c \<noteq> fd \<longrightarrow> bound \<sigma>' c = bound \<sigma> c) \<and>
     (\<forall>c key i. c \<noteq> fd \<longrightarrow> bound \<sigma> c = Some key \<longrightarrow> live \<sigma> key = Some i \<longrightarrow>
        (\<exists>i'. live \<sigma>' key = Some i' \<and> i_user_id i' = i_user_id i \<and> i_username i' = i_username i))"

lemma keeps_others_refl [simp]: "keeps_others fd \<sigma> \<sigma>"
  by (simp add: keeps_others_def)

lemma keeps_others_detach: "keeps_others fd \<sigma> (spec_detach \<sigma> fd)"
  by (auto simp: keeps_others_def spec_detach_def Let_def ran_def split: option.splits)

lemma keeps_others_authorize: "spec_authorize \<sigma> fd key now = Some (c, \<sigma>') \<Longrightarrow> keeps_others fd \<sigma> \<sigma>'"
  by (auto simp: keeps_others_def spec_authorize_def split: option.splits if_splits)

lemma keeps_others_create: "live \<sigma> key = None \<Longrightarrow> keeps_others fd \<sigma> (spec_create \<sigma> fd uid name root key now)"
  by (auto simp: keeps_others_def spec_create_def)

lemma keeps_others_update_cwd: "spec_update_cwd \<sigma> fd key i p now = Some \<sigma>' \<Longrightarrow> keeps_others fd \<sigma> \<sigma>'"
  by (auto simp: keeps_others_def spec_update_cwd_def split: option.splits if_splits)

lemma bound_authorize: "spec_authorize \<sigma> fd key now = Some (c, \<sigma>') \<Longrightarrow> dom (bound \<sigma>') = insert fd (dom (bound \<sigma>))"
  by (auto simp: spec_authorize_def split: option.splits if_splits)

lemma bound_update_cwd: "spec_update_cwd \<sigma> fd key i p now = Some \<sigma>' \<Longrightarrow> bound \<sigma>' = bound \<sigma>"
  by (auto simp: spec_update_cwd_def split: option.splits if_splits)

subsection \<open>Who owns a descriptor\<close>

definition task_fd :: "task \<Rightarrow> int" where
  "task_fd task = (case task of Basic_Task t \<Rightarrow> t_fd t | Transfer_Task x \<Rightarrow> x_fd x)"

definition task_header :: "task \<Rightarrow> packet_header_t" where
  "task_header task = (case task of Basic_Task t \<Rightarrow> t_header t | Transfer_Task x \<Rightarrow> x_header x)"

definition task_session :: "task \<Rightarrow> session_context_t" where
  "task_session task = (case task of Basic_Task t \<Rightarrow> t_session t | Transfer_Task x \<Rightarrow> x_session x)"

text \<open>
  A task without a session is a login or a registration; every other one carries the user of the session whose
  identifier came with the request, and its connection is bound to this session.
\<close>

definition request_ok :: "session_spec \<Rightarrow> int \<Rightarrow> packet_header_t \<Rightarrow> session_context_t \<Rightarrow> bool" where
  "request_ok \<sigma> fd h ctx \<longleftrightarrow> wf_session_id (session_id h) \<and>
     (if command_is_anonymous (ptype h) then session_id_is_empty (Some (session_id h))
      else \<exists>i. bound \<sigma> fd = Some (session_id h) \<and> live \<sigma> (session_id h) = Some i \<and>
             ctx_user_id ctx = i_user_id i \<and> ctx_username ctx = i_username i)"

abbreviation task_ok :: "session_spec \<Rightarrow> task \<Rightarrow> bool" where
  "task_ok \<sigma> task \<equiv> request_ok \<sigma> (task_fd task) (task_header task) (task_session task)"

lemma task_ok_keeps: "task_ok \<sigma> task \<Longrightarrow> keeps_others fd \<sigma> \<sigma>' \<Longrightarrow> task_fd task \<noteq> fd \<Longrightarrow> task_ok \<sigma>' task"
  unfolding request_ok_def keeps_others_def by (metis (no_types, lifting))

lemma request_ok_authorize:
  "spec_authorize \<sigma> fd (session_id h) now = Some (c, \<sigma>') \<Longrightarrow> wf_session_id (session_id h) \<Longrightarrow> \<not> command_is_anonymous (ptype h) \<Longrightarrow> request_ok \<sigma>' fd h c"
  by (auto simp: request_ok_def spec_authorize_def spec_context_def split: option.splits if_splits)

text \<open>
  The invariant, while the descriptors \<open>F\<close> are in the hands of a running handler: apart from them the timed descriptors
  are the watched ones, and the open ones are those and the tasks' descriptors, each of which belongs to one task.
\<close>

abbreviation task_fds :: "'w loop_t \<Rightarrow> int set" where
  "task_fds s \<equiv> task_fd ` set (l_tasks s)"

definition sessions_ok :: "int set \<Rightarrow> 'w loop_t \<Rightarrow> bool" where
  "sessions_ok F s \<longleftrightarrow> (\<exists>t. s_table s = Some t \<and> table_inv t \<and> dom (bound (abs_table t)) \<subseteq> s_open s \<union> F \<and>
     (\<forall>task \<in> set (l_tasks s). task_ok (abs_table t) task))"

definition owned :: "int set \<Rightarrow> 'w loop_t \<Rightarrow> bool" where
  "owned F s \<longleftrightarrow> wheel_inv (s_wheel s) \<and> dom (deadlines (s_wheel s)) - F = s_epoll s - F \<and> sessions_ok F s \<and>
     distinct (map task_fd (l_tasks s)) \<and> task_fds s \<inter> (s_epoll s \<union> F) = {} \<and> s_open s - F = s_epoll s - F \<union> task_fds s \<and>
     (\<forall>fd \<in> s_open s \<union> F. 0 \<le> fd)"

lemma ownedD:
  assumes "owned F s"
  shows "wheel_inv (s_wheel s)" "dom (deadlines (s_wheel s)) - F = s_epoll s - F" "sessions_ok F s"
    "distinct (map task_fd (l_tasks s))" "task_fds s \<inter> (s_epoll s \<union> F) = {}" "s_open s - F = s_epoll s - F \<union> task_fds s"
    "\<And>fd. fd \<in> s_open s \<union> F \<Longrightarrow> 0 \<le> fd"
  using assms by (auto simp: owned_def)

lemma ownedI:
  assumes "wheel_inv (s_wheel s)" "dom (deadlines (s_wheel s)) - F = s_epoll s - F" "sessions_ok F s"
    "distinct (map task_fd (l_tasks s))" "task_fds s \<inter> (s_epoll s \<union> F) = {}" "s_open s - F = s_epoll s - F \<union> task_fds s"
    "\<And>fd. fd \<in> s_open s \<union> F \<Longrightarrow> 0 \<le> fd"
  shows "owned F s"
  using assms by (auto simp: owned_def)

lemma owned_socks [simp]: "sessions_ok F (s\<lparr>s_socks := x\<rparr>) = sessions_ok F s" "owned F (s\<lparr>s_socks := x\<rparr>) = owned F s"
  by (simp_all add: sessions_ok_def owned_def)

text \<open>A watched descriptor that an event reports is taken over; it can be given back as it was.\<close>

lemma owned_take:
  assumes "owned {} s" "fd \<in> s_epoll s"
  shows "owned {fd} s" "fd \<in> s_open s" "0 \<le> fd"
proof -
  note d = ownedD [OF assms(1)]
  show "fd \<in> s_open s" using d(6) assms(2) by auto
  then show "0 \<le> fd" using d(7) by simp
  have "fd \<notin> task_fds s" using d(5) assms(2) by auto
  moreover have "sessions_ok {fd} s" using d(3) unfolding sessions_ok_def by blast
  ultimately show "owned {fd} s" using d assms(2) \<open>0 \<le> fd\<close> by (intro ownedI) auto
qed

lemma owned_give_back:
  assumes "owned {fd} s" "fd \<in> dom (deadlines (s_wheel s))" "fd \<in> s_epoll s" "fd \<in> s_open s"
  shows "owned {} s"
  using ownedD [OF assms(1)] assms(2-4) by (intro ownedI) (auto simp: sessions_ok_def insert_absorb)

lemma owned_publish:
  assumes own: "owned {fd} s" and w: "wheel_inv w" "dom (deadlines w) = insert fd (dom (deadlines (s_wheel s)))" "fd \<in> s_open s"
    and s2: "s_table s2 = s_table s" "s_wheel s2 = w" "s_epoll s2 = insert fd (s_epoll s)" "s_open s2 = s_open s" "l_tasks s2 = l_tasks s"
  shows "owned {} s2"
proof -
  note d = ownedD [OF own]
  have "sessions_ok {} s2" using d(3) w(3) s2 by (auto simp: sessions_ok_def insert_absorb)
  then show ?thesis using d w s2 by (intro ownedI) auto
qed

text \<open>Or it is queued with a task, once it is neither timed nor watched.\<close>

lemma owned_queue:
  assumes own: "owned {fd} s" and fd: "fd \<notin> dom (deadlines (s_wheel s))" "fd \<notin> s_epoll s" "fd \<in> s_open s" "task_fd task = fd"
    and ok: "\<And>t. s_table s = Some t \<Longrightarrow> task_ok (abs_table t) task"
  shows "owned {} (s\<lparr>l_tasks := l_tasks s @ [task]\<rparr>)"
proof -
  note d = ownedD [OF own]
  have "sessions_ok {} (s\<lparr>l_tasks := l_tasks s @ [task]\<rparr>)" using d(3) ok fd(3) by (auto simp: sessions_ok_def insert_absorb)
  then show ?thesis using d fd by (intro ownedI) auto
qed

lemma owned_start:
  assumes own: "owned {} s" and ts: "l_tasks s = xs @ task # ys"
  defines "s1 \<equiv> s\<lparr>l_tasks := xs @ ys\<rparr>" and "fd \<equiv> task_fd task"
  shows "owned {fd} s1" "fd \<notin> dom (deadlines (s_wheel s1))" "fd \<notin> s_epoll s1" "fd \<in> s_open s1"
    "\<exists>t. s_table s1 = Some t \<and> table_inv t \<and> task_ok (abs_table t) task"
proof -
  note d = ownedD [OF own]
  have fd: "fd \<in> task_fds s" "fd \<notin> task_fds s1" using ts d(4) by (auto simp: s1_def fd_def)
  then show e: "fd \<notin> s_epoll s1" "fd \<notin> dom (deadlines (s_wheel s1))" "fd \<in> s_open s1" using d(2,5,6) by (auto simp: s1_def)
  show "\<exists>t. s_table s1 = Some t \<and> table_inv t \<and> task_ok (abs_table t) task" using d(3) ts by (auto simp: sessions_ok_def s1_def)
  have "task_fds s = insert fd (task_fds s1)" using ts by (auto simp: s1_def fd_def)
  moreover have "sessions_ok {fd} s1" using d(3) ts by (auto simp: sessions_ok_def s1_def)
  moreover have "distinct (map task_fd (l_tasks s1))" using d(4) ts by (simp add: s1_def)
  ultimately show "owned {fd} s1" using d e fd by (intro ownedI) (auto simp: s1_def)
qed

text \<open>Operations on the table for a descriptor in hand.\<close>

lemma sessions_ok_own:
  assumes "sessions_ok (insert fd F) s" "s_table s = Some t" "task_fds s \<inter> insert fd F = {}"
    and "table_inv t'" "keeps_others fd (abs_table t) (abs_table t')" "dom (bound (abs_table t')) \<subseteq> insert fd (dom (bound (abs_table t)))"
  shows "sessions_ok (insert fd F) (s\<lparr>s_table := Some t'\<rparr>)"
proof -
  have "task_ok (abs_table t') task" if "task \<in> set (l_tasks s)" for task
  proof (rule task_ok_keeps [OF _ assms(5)])
    show "task_ok (abs_table t) task" using assms(1,2) that by (auto simp: sessions_ok_def)
    show "task_fd task \<noteq> fd" using assms(3) that by auto
  qed
  then show ?thesis using assms(1,2,4,6) by (auto simp: sessions_ok_def)
qed

lemma detach_own:
  assumes ok: "sessions_ok (insert fd F) s" and others: "task_fds s \<inter> insert fd F = {}" and fd: "0 \<le> fd"
  obtains t' where "session_detach_fd (s_table s) fd = Some (Some t')" "table_inv t'" "dom (bound (abs_table t')) \<subseteq> s_open s - {fd} \<union> F"
    "\<forall>task \<in> set (l_tasks s). task_ok (abs_table t') task"
proof -
  obtain t where t: "s_table s = Some t" "table_inv t" "dom (bound (abs_table t)) \<subseteq> s_open s \<union> insert fd F"
      "\<forall>task \<in> set (l_tasks s). task_ok (abs_table t) task"
    using ok by (auto simp: sessions_ok_def)
  obtain t' where t': "session_detach_fd (Some t) fd = Some (Some t')" "table_inv t'" "abs_table t' = spec_detach (abs_table t) fd"
    using session_detach_correct [OF t(2) fd] by blast
  have "bound (abs_table t') = (bound (abs_table t))(fd := None)"
    unfolding t'(3) by (auto simp: spec_detach_def Let_def split: option.splits)
  then have "dom (bound (abs_table t')) \<subseteq> s_open s - {fd} \<union> F" using t(3) by auto
  moreover have "task_ok (abs_table t') task" if "task \<in> set (l_tasks s)" for task
    using task_ok_keeps [OF _ keeps_others_detach, of "abs_table t" task fd] t(4) others that by (auto simp: t'(3))
  ultimately show thesis using that [of t'] t'(1,2) t(1) by simp
qed

subsection \<open>The main thread\<close>

lemma close_client_owned:
  assumes own: "owned {fd} s" and bound: "\<And>t. s_table s = Some t \<Longrightarrow> with_table \<or> bound (abs_table t) fd = None"
  shows "\<exists>s'. close_client with_table fd s = Some s' \<and> owned {} s'"
proof -
  note d = ownedD [OF own]
  obtain w where w: "timer_wheel_remove (s_wheel s) fd = Some w" "wheel_inv w" "deadlines w = (deadlines (s_wheel s))(fd := None)"
    by (rule remove_inv [OF d(1)])
  obtain t' where t': "(if with_table then session_detach_fd (s_table s) fd else Some (s_table s)) = Some (Some t')" "table_inv t'"
      "dom (bound (abs_table t')) \<subseteq> s_open s - {fd}" "\<forall>task \<in> set (l_tasks s). task_ok (abs_table t') task"
  proof (cases with_table)
    case True
    then show thesis using that detach_own [OF d(3), of thesis] d(5,7) by auto
  next
    case False
    then show thesis using that d(3) bound by (fastforce simp: sessions_ok_def dom_def)
  qed
  let ?s = "s\<lparr>s_wheel := w, s_epoll := s_epoll s - {fd}, s_table := Some t', s_open := s_open s - {fd}\<rparr>"
  have "sessions_ok {} ?s" using t'(2-4) by (simp add: sessions_ok_def)
  then have "owned {} ?s" using d w(2,3) by (intro ownedI) auto
  then show ?thesis using w(1) t'(1) by (simp add: close_client_def)
qed

lemma close_idle_client_owned:
  assumes own: "owned (insert fd F) s" and fd: "fd \<notin> dom (deadlines (s_wheel s))" "fd \<notin> F"
  shows "\<exists>s'. close_idle_client fd s = Some s' \<and> owned F s' \<and> s_wheel s' = s_wheel s"
proof -
  note d = ownedD [OF own]
  obtain t' where t': "session_detach_fd (s_table s) fd = Some (Some t')" "table_inv t'" "dom (bound (abs_table t')) \<subseteq> s_open s - {fd} \<union> F"
      "\<forall>task \<in> set (l_tasks s). task_ok (abs_table t') task"
    by (rule detach_own [OF d(3)]) (use d(5,7) in auto)
  let ?s = "s\<lparr>s_epoll := s_epoll s - {fd}, s_table := Some t', s_open := s_open s - {fd}\<rparr>"
  have "sessions_ok F ?s" using t'(2-4) by (simp add: sessions_ok_def)
  then have "owned F ?s" using d fd by (intro ownedI) auto
  then show ?thesis using t'(1) by (simp add: close_idle_client_def)
qed

lemma close_idle_clients_owned:
  "owned (set fds) s \<Longrightarrow> distinct fds \<Longrightarrow> set fds \<inter> dom (deadlines (s_wheel s)) = {} \<Longrightarrow> \<exists>s'. close_idle_clients fds s = Some s' \<and> owned {} s'"
proof (induction fds arbitrary: s)
  case (Cons fd fds)
  obtain s1 where "close_idle_client fd s = Some s1" "owned (set fds) s1" "s_wheel s1 = s_wheel s"
    using close_idle_client_owned [of fd "set fds" s] Cons.prems by auto
  then show ?case using Cons.IH [of s1] Cons.prems by auto
qed simp

text \<open>The expiry of idle connections, as the round of the event loop does it when the timer is ready.\<close>

definition expire_idle :: "timespec option \<Rightarrow> 'w loop_t \<Rightarrow> 'w loop_t option" where
  "expire_idle clock s = do {
     (_, wheel, expired) \<leftarrow> timer_wheel_advance (s_wheel s) clock;
     close_idle_clients expired (s\<lparr>s_wheel := wheel\<rparr>) }"

lemma expire_idle_owned:
  assumes own: "owned {} s" and clock: "\<And>now. clock = Some now \<Longrightarrow> 0 \<le> tv_nsec now"
  shows "\<exists>s'. expire_idle clock s = Some s' \<and> owned {} s'"
proof (cases clock)
  case None
  then show ?thesis using own by (simp add: expire_idle_def timer_wheel_advance_def)
next
  case (Some now)
  note d = ownedD [OF own]
  obtain w ex where w: "timer_wheel_advance_at (s_wheel s) now = Some (0, w, ex)" "wheel_inv w"
      "spec_advance now (current_second (s_wheel s)) (deadlines (s_wheel s)) ex"
      "deadlines w = (\<lambda>fd. if fd \<in> set ex then None else deadlines (s_wheel s) fd)"
    by (rule advance_inv [OF d(1) clock [OF Some]])
  have "distinct ex" "set ex \<subseteq> dom (deadlines (s_wheel s))" using w(3) by (auto simp: spec_advance_def)
  then have ex: "distinct ex" "set ex \<subseteq> s_epoll s" using d(2) by auto
  have "sessions_ok (set ex) (s\<lparr>s_wheel := w\<rparr>)" using d(3) unfolding sessions_ok_def by auto
  moreover have "dom (deadlines w) = dom (deadlines (s_wheel s)) - set ex" using w(4) by (auto split: if_splits)
  then have "dom (deadlines w) = s_epoll s - set ex" using d(2) by simp
  ultimately have "owned (set ex) (s\<lparr>s_wheel := w\<rparr>)" using d ex(2) w(2) by (intro ownedI) auto
  moreover have "set ex \<inter> dom (deadlines w) = {}" using w(4) by auto
  ultimately show ?thesis using close_idle_clients_owned [of ex "s\<lparr>s_wheel := w\<rparr>"] ex(1) w(1) Some
    by (simp add: expire_idle_def timer_wheel_advance_def)
qed

text \<open>A new connection; the kernel hands out a descriptor that is not open.\<close>

lemma track_owned:
  assumes "wheel_inv w" "fresh_ptr (nodes w) new" "0 \<le> fd" "fd \<notin> dom (deadlines w)"
  shows "\<exists>r w'. timer_wheel_track w fd clock new = Some (r, w') \<and> wheel_inv w' \<and>
    (r = 0 \<and> dom (deadlines w') = insert fd (dom (deadlines w)) \<or> r \<noteq> 0 \<and> w' = w)"
proof (cases clock)
  case None
  then show ?thesis using assms by (simp add: timer_wheel_track_def)
next
  case (Some now)
  from assms(1,2) show ?thesis unfolding Some
    by (cases rule: track_cases [where fd = fd and now = now]) (use assms(1) in auto)
qed

lemma publish_owned:
  assumes "wheel_inv w" "fresh_ptr (nodes w) new"
  shows "\<exists>r w'. timer_wheel_track_and_publish w fd pub clock new = Some (r, w') \<and> wheel_inv w' \<and>
    (r = 0 \<and> dom (deadlines w') = insert fd (dom (deadlines w)) \<and> pub = 0 \<or> r \<noteq> 0 \<and> deadlines w' = deadlines w)"
proof (cases clock)
  case None
  then show ?thesis using assms by (simp add: timer_wheel_track_and_publish_def)
next
  case (Some now)
  from assms show ?thesis unfolding Some
    by (cases rule: publish_cases [where fd = fd and now = now and publish_ret = pub]) auto
qed

lemma handle_accept_owned:
  assumes own: "owned {} s" and fd: "fd = - 1 \<or> 0 \<le> fd \<and> fd \<notin> s_open s" and new: "fresh_ptr (nodes (s_wheel s)) new"
  shows "\<exists>s'. handle_accept_event fd sock ctl clock new s = Some s' \<and> owned {} s'"
proof (cases "fd = - 1")
  case True
  then show ?thesis using own by (simp add: handle_accept_event_def)
next
  case False
  note d = ownedD [OF own]
  have f: "0 \<le> fd" "fd \<notin> s_open s" "fd \<notin> s_epoll s" "fd \<notin> dom (deadlines (s_wheel s))" "fd \<notin> task_fds s" using False fd d(2,6) by auto
  let ?s1 = "s\<lparr>s_open := insert fd (s_open s), s_socks := (s_socks s)(fd := sock)\<rparr>" and ?s2 = "\<lambda>w. s\<lparr>s_open := insert fd (s_open s), s_socks := (s_socks s)(fd := sock), s_epoll := insert fd (s_epoll s), s_wheel := w\<rparr>"
  have ok: "sessions_ok {fd} ?s1" "\<And>w. sessions_ok {fd} (?s2 w)" using d(3) by (auto simp: sessions_ok_def)
  have own1: "owned {fd} ?s1" using d f ok by (intro ownedI) auto
  have own2: "owned {fd} (?s2 w)" if "wheel_inv w" "dom (deadlines w) - {fd} = dom (deadlines (s_wheel s))" for w
    using d f ok that by (intro ownedI) auto
  have nb: "bound (abs_table t) fd = None" if "s_table s = Some t" for t using d(3) f(2) that by (auto simp: sessions_ok_def)
  show ?thesis
  proof (cases "ctl = 0")
    case False
    then show ?thesis using close_client_owned [OF own1, of False] nb \<open>fd \<noteq> - 1\<close> by (simp add: handle_accept_event_def)
  next
    case True
    obtain r w where w: "timer_wheel_track (s_wheel s) fd clock new = Some (r, w)" "wheel_inv w"
        "r = 0 \<and> dom (deadlines w) = insert fd (dom (deadlines (s_wheel s))) \<or> r \<noteq> 0 \<and> w = s_wheel s"
      using track_owned [OF d(1) new f(1,4)] by blast
    have own2': "owned {fd} (?s2 w)" by (rule own2 [OF w(2)]) (use w(3) f(4) in auto)
    show ?thesis
    proof (cases "r = 0")
      case True
      then have "owned {} (?s2 w)" using owned_give_back [OF own2'] w(3) by auto
      then show ?thesis using True \<open>ctl = 0\<close> \<open>fd \<noteq> - 1\<close> w(1) by (simp add: handle_accept_event_def)
    next
      case False
      then show ?thesis using close_client_owned [OF own2', of False] nb \<open>fd \<noteq> - 1\<close> \<open>ctl = 0\<close> w(1) by (simp add: handle_accept_event_def)
    qed
  qed
qed

text \<open>A request is handed to the workers, or its connection closed.\<close>

lemma submit_task_owned:
  assumes own: "owned {fd} s" and fd: "fd \<in> s_open s" and ok: "\<And>t. s_table s = Some t \<Longrightarrow> request_ok (abs_table t) fd (header packet) ctx"
  shows "\<exists>s'. submit_task env fd packet ctx root temp s = Some s' \<and> owned {} s'"
proof -
  note d = ownedD [OF own]
  obtain w where w: "timer_wheel_remove (s_wheel s) fd = Some w" "wheel_inv w" "deadlines w = (deadlines (s_wheel s))(fd := None)"
    by (rule remove_inv [OF d(1)])
  have so: "sessions_ok {fd} (s\<lparr>s_wheel := w\<rparr>)" "sessions_ok {fd} (s\<lparr>s_wheel := w, s_epoll := s_epoll s - {fd}\<rparr>)" using d(3) by (auto simp: sessions_ok_def)
  have own1: "owned {fd} (s\<lparr>s_wheel := w\<rparr>)" using d w so by (intro ownedI) auto
  have own2: "owned {fd} (s\<lparr>s_wheel := w, s_epoll := s_epoll s - {fd}\<rparr>)" using d w so by (intro ownedI) auto
  have q: "owned {} (s\<lparr>s_wheel := w, s_epoll := s_epoll s - {fd}, l_tasks := l_tasks s @ [task]\<rparr>)"
    if "task_fd task = fd" "task_header task = header packet" "task_session task = ctx" for task
    using owned_queue [OF own2, of task] that w(3) fd ok by simp
  show ?thesis
    using w(1) close_client_owned [OF own1, of True] close_client_owned [OF own2, of True]
      q [of "Transfer_Task \<lparr>x_fd = fd, x_packet = packet, x_session = ctx, x_storage_root = root, x_temp_dir = temp\<rparr>"]
      q [of "Basic_Task \<lparr>t_fd = fd, t_packet = packet, t_session = ctx, t_storage_root = strncpy PATH_MAX root\<rparr>"]
    by (simp add: submit_task_def Let_def task_fd_def task_header_def task_session_def)
qed

lemma send_event_error_socks: obtains r x where "send_event_error e fd key st s = (r, s\<lparr>s_socks := x\<rparr>)"
  by (cases "send_event_error e fd key st s") (auto simp: send_event_error_def Let_def split: prod.splits if_splits intro: that [of _ "s_socks s"])

lemma refuse_owned:
  assumes "owned {} s" "fd \<in> s_epoll s"
  shows "\<exists>s'. refuse e fd key st s = Some s' \<and> owned {} s'"
proof -
  obtain r x where "send_event_error e fd key st s = (r, s\<lparr>s_socks := x\<rparr>)" by (rule send_event_error_socks)
  then show ?thesis using assms owned_take [of s fd] close_client_owned [of fd "s\<lparr>s_socks := x\<rparr>" True] by (simp add: refuse_def)
qed

lemma handle_client_owned:
  assumes own: "owned {} s" and fd: "fd \<in> s_epoll s" and new: "\<And>t. s_table s = Some t \<Longrightarrow> fresh_ptr (bindings t) (ee_binding env)"
  shows "\<exists>s'. handle_client_event e env fd events root temp s = Some s' \<and> owned {} s'"
proof -
  note take = owned_take [OF own fd]
  have close: "\<exists>s'. close_client True fd (s\<lparr>s_socks := x\<rparr>) = Some s' \<and> owned {} s'" for x
    by (rule close_client_owned) (use take in simp_all)
  from close [of "s_socks s"] have close0: "\<exists>s'. close_client True fd s = Some s' \<and> owned {} s'" by simp
  obtain ret p sock where r: "protocol_recv_packet e (ee_payload env) (s_socks s fd) = (ret, p, sock)" by (metis prod_cases3)
  let ?s1 = "s\<lparr>s_socks := (s_socks s)(fd := sock)\<rparr>" and ?h = "header p"
  show ?thesis
  proof (cases "events AND (EPOLLRDHUP OR EPOLLHUP OR EPOLLERR) \<noteq> 0 \<or> events AND EPOLLIN = 0 \<or> \<not> ee_task env \<or> ret \<noteq> 0")
    case True
    then show ?thesis using own close0 close [of "(s_socks s)(fd := sock)"] r by (auto simp: handle_client_event_def)
  next
    case go: False
    have wf: "wf_session_id (session_id ?h)" using protocol_recv_packet_accepts [of e "ee_payload env" "s_socks s fd" p sock] r go by (simp add: wf_packet_def)
    show ?thesis
    proof (cases "command_is_anonymous (ptype ?h)")
      case True
      have "\<exists>s'. submit_task env fd p no_context root temp ?s1 = Some s' \<and> owned {} s'" if "session_id_is_empty (Some (session_id ?h))"
        by (rule submit_task_owned) (use take True that wf in \<open>simp_all add: request_ok_def\<close>)
      then show ?thesis using go r True refuse_owned [of ?s1 fd e "session_id ?h" STATUS_BAD_REQUEST] own fd
        by (simp add: handle_client_event_def Let_def)
    next
      case False
      obtain t where t: "s_table s = Some t" "table_inv t" using ownedD(3) [OF own] by (auto simp: sessions_ok_def)
      obtain ra ctx t' where a: "session_authorize (Some t) fd (session_id ?h) (ee_clock env) (ee_binding env) = Some (ra, ctx, Some t')" "table_inv t'"
          "ra = - 1 \<and> t' = t \<or> ra = 0 \<and> (\<exists>now c. ctx = Some c \<and> spec_authorize (abs_table t) fd (session_id ?h) now = Some (c, abs_table t'))"
        using session_authorize_cases [OF t(2) wf new [OF t(1)], of fd "ee_clock env"] by blast
      let ?s2 = "s\<lparr>s_socks := (s_socks s)(fd := sock), s_table := Some t'\<rparr>"
      show ?thesis
      proof (cases "ra = 0")
        case False
        then have "?s2 = ?s1" using a(3) t(1) by simp
        then show ?thesis using go r \<open>\<not> command_is_anonymous (ptype ?h)\<close> a(1) t(1) False refuse_owned [of ?s1 fd e "session_id ?h" STATUS_UNAUTHORIZED] own fd
          by (simp add: handle_client_event_def Let_def)
      next
        case True
        then obtain now c where c: "ctx = Some c" "spec_authorize (abs_table t) fd (session_id ?h) now = Some (c, abs_table t')" using a(3) by auto
        have "sessions_ok {fd} ?s2"
          using sessions_ok_own [of fd "{}" ?s1 t t'] ownedD(3,5) [OF take(1)] t a(2) keeps_others_authorize [OF c(2)] bound_authorize [OF c(2)]
          by simp
        then have own2: "owned {fd} ?s2" using ownedD [OF take(1)] by (intro ownedI) auto
        note ok = request_ok_authorize [OF c(2) wf False]
        from submit_task_owned [OF own2, of p c env root temp] ok take(2)
        show ?thesis using go r False a(1) t(1) True c(1) by (simp add: handle_client_event_def Let_def)
      qed
    qed
  qed
qed

subsection \<open>The workers\<close>

text \<open>Apart from the sessions, a handler leaves alone what the main thread works with.\<close>

definition watch_state :: "'w server_t \<Rightarrow> timer_wheel_t \<times> int set \<times> int set" where
  "watch_state s = (s_wheel s, s_epoll s, s_open s)"

definition conn_state :: "'w server_t \<Rightarrow> session_table_t option \<times> timer_wheel_t \<times> int set \<times> int set" where
  "conn_state s = (s_table s, watch_state s)"

lemma conn_state_simps [simp]:
  "conn_state (s\<lparr>s_pool := a\<rparr>) = conn_state s" "conn_state (s\<lparr>s_world := b\<rparr>) = conn_state s" "conn_state (s\<lparr>s_kern := c\<rparr>) = conn_state s"
  "conn_state (s\<lparr>s_socks := d\<rparr>) = conn_state s" "conn_state (s\<lparr>s_table := f\<rparr>) = (f, watch_state s)"
  by (simp_all add: conn_state_def watch_state_def)

lemma conn_state_send [simp]:
  "conn_state (snd (send_response_with_session_id e task a b key pl n s)) = conn_state s"
  "conn_state (respond e task a b s) = conn_state s" "conn_state (respond_str e task a b str s) = conn_state s"
  by (simp_all add: respond_def respond_str_def send_response_def send_response_with_session_id_def split: prod.splits)

lemma basic_steps_conn:
  "ls_answer M e task p s = Some s' \<Longrightarrow> conn_state s' = conn_state s"
  "mkdir_insert M e task p parent name s = Some s' \<Longrightarrow> conn_state s' = conn_state s"
  "rmdir_delete M e task p name s = Some s' \<Longrightarrow> conn_state s' = conn_state s"
  "rm_delete M e task p name s = Some s' \<Longrightarrow> conn_state s' = conn_state s"
     apply (auto simp: ls_answer_def Let_def split: option.splits if_splits bind_splits)[]
    apply (auto simp: mkdir_insert_def Let_def split: if_splits bind_splits)[]
   apply (auto simp: rmdir_delete_def Let_def split: if_splits bind_splits)[]
  apply (auto simp: rm_delete_def Let_def split: if_splits bind_splits prod.splits)[]
  done

lemma basic_handlers_conn:
  "handle_register M crypt e env task s = Some s' \<Longrightarrow> conn_state s' = conn_state s"
  "conn_state (handle_pwd e task s) = conn_state s"
  "handle_ls M e task s = Some s' \<Longrightarrow> conn_state s' = conn_state s"
  "handle_mkdir M e task s = Some s' \<Longrightarrow> conn_state s' = conn_state s"
  "handle_rmdir M e task s = Some s' \<Longrightarrow> conn_state s' = conn_state s"
  "handle_rm M e task s = Some s' \<Longrightarrow> conn_state s' = conn_state s"
       apply (auto simp: handle_register_def Let_def split: option.splits if_splits bind_splits)[]
      apply (simp add: handle_pwd_def)
     apply (auto simp: handle_ls_def split: option.splits if_splits bind_splits dest!: basic_steps_conn(1))[]
    apply (auto simp: handle_mkdir_def split: option.splits if_splits bind_splits dest!: basic_steps_conn(2))[]
   apply (auto simp: handle_rmdir_def split: option.splits if_splits bind_splits dest!: basic_steps_conn(3))[]
  apply (auto simp: handle_rm_def split: option.splits if_splits bind_splits dest!: basic_steps_conn(4))[]
  done

lemma answer_conn [simp]: "conn_state (answer e task a b s) = conn_state s"
  using answer_frame(1) [of task s e a b] by (simp add: own_io_def conn_state_def watch_state_def)

lemma transfer_conn:
  "sys s = (ok, s1) \<Longrightarrow> conn_state s1 = conn_state s"
  "send_transfer_packet e task a b pl n s = (r, s2) \<Longrightarrow> conn_state s2 = conn_state s"
  "recv_transfer_packet e task s = (r, p, s3) \<Longrightarrow> conn_state s3 = conn_state s"
  using sys_frame(1) [of s ok s1] send_transfer_packet_frame(1) [of e task a b pl n s r s2] recv_transfer_packet_frame(1) [of e task s r p s3]
  by (auto simp: own_io_def conn_state_def watch_state_def)

lemma puts_receive_conn:
  "puts_receive e task expected received f s = Inl s1 \<Longrightarrow> conn_state s1 = conn_state s"
  "puts_receive e task expected received f s = Inr (n, b, f2, s2) \<Longrightarrow> conn_state s2 = conn_state s"
proof (induction e task expected received f s rule: puts_receive.induct)
  case (1 e task expected received f s)
  obtain r p s0 where r: "recv_transfer_packet e task s = (r, p, s0)" by (metis prod_cases3)
  obtain rw f1 k where w: "write_n f (case payload p of Some bs \<Rightarrow> take (unat (payload_len (header p))) bs | None \<Rightarrow> []) (s_kern s0) = (rw, f1, k)"
    by (metis prod_cases3)
  note c = transfer_conn(3) [OF r]
  {
    case 1
    then show ?case using r w c "1.IH"(1) [OF _ r [symmetric], of p s0 rw "(f1, k)" f1 k]
      by (auto simp: puts_receive.simps [of e task expected received f s] split: if_splits)
  next
    case 2
    then show ?case using r w c "1.IH"(2) [OF _ r [symmetric], of p s0 rw "(f1, k)" f1 k]
      by (auto simp: puts_receive.simps [of e task expected received f s] split: if_splits)
  }
qed

lemma puts_steps_conn:
  "puts_place M e task target parent s = Some (Inl s1) \<Longrightarrow> conn_state s1 = conn_state s"
  "puts_place M e task target parent s = Some (Inr (pid, s1)) \<Longrightarrow> conn_state s1 = conn_state s"
  "puts_instant M e task target pid name fid sz s = Some s1 \<Longrightarrow> conn_state s1 = conn_state s"
  "puts_publish M e task target pid name hex sz s = Some s1 \<Longrightarrow> conn_state s1 = conn_state s"
  by (auto simp: puts_place_def puts_instant_def puts_publish_def Let_def split: if_splits bind_splits prod.splits)

lemma puts_open_conn:
  "puts_open e task part sz s = Inl s1 \<Longrightarrow> conn_state s1 = conn_state s"
  "puts_open e task part sz s = Inr (f, off, s1) \<Longrightarrow> conn_state s1 = conn_state s"
  by (auto simp: puts_open_def Let_def split: if_splits prod.splits option.splits dest!: transfer_conn(1))

lemma puts_data_conn:
  "puts_data e task sz off f s = Inl s1 \<Longrightarrow> conn_state s1 = conn_state s"
  "puts_data e task sz off f s = Inr (f2, s1) \<Longrightarrow> conn_state s1 = conn_state s"
  by (auto simp: puts_data_def Let_def split: if_splits prod.splits option.splits sum.splits dest!: transfer_conn(3) puts_receive_conn)

lemma puts_verify_conn:
  "puts_verify sha256 e task part hex f s = Inl s1 \<Longrightarrow> conn_state s1 = conn_state s"
  "puts_verify sha256 e task part hex f s = Inr s1 \<Longrightarrow> conn_state s1 = conn_state s"
  by (auto simp: puts_verify_def Let_def split: if_splits prod.splits option.splits dest!: transfer_conn(1))

lemma puts_rename_conn:
  "puts_rename e task part final s = Inl s1 \<Longrightarrow> conn_state s1 = conn_state s"
  "puts_rename e task part final s = Inr s1 \<Longrightarrow> conn_state s1 = conn_state s"
  by (auto simp: puts_rename_def Let_def split: if_splits prod.splits)

lemma puts_upload_conn: "puts_upload M sha256 e task target pid name hex sz s = Some s1 \<Longrightarrow> conn_state s1 = conn_state s"
  by (auto simp: puts_upload_def Let_def split: if_splits prod.splits sum.splits
      dest!: puts_open_conn puts_data_conn puts_verify_conn puts_rename_conn puts_steps_conn(4))

lemma handle_puts_conn: "handle_puts M sha256 e task s = Some s1 \<Longrightarrow> conn_state s1 = conn_state s"
  by (auto simp: handle_puts_def Let_def split: if_splits prod.splits sum.splits bind_splits option.splits
      dest!: puts_steps_conn(1-3) puts_upload_conn)

lemma gets_stream_conn: "conn_state (gets_stream e task path s) = conn_state s"
proof -
  obtain r p s1 where r: "recv_transfer_packet e task s = (r, p, s1)" by (metis prod_cases3)
  obtain fd k where o: "open_read path (s_kern s1) = (fd, k)" by (metis prod.collapse)
  obtain ok s2 where y: "sys (s1\<lparr>s_kern := k\<rparr>) = (ok, s2)" by (metis prod.collapse)
  let ?d = "file_data (s_kern s2) path" and ?off = "unat (net_to_host_u64 e (rp_offset (load_resume e (the (payload p)))))"
  obtain b sock where g: "gets_send e (session_id (x_header task)) ?d ?off (length ?d - ?off) (s_socks s2 (x_fd task)) = (b, sock)" by (metis prod.collapse)
  let ?s3 = "s2\<lparr>s_socks := (s_socks s2)(x_fd task := sock)\<rparr>"
  obtain r4 s4 where t: "send_transfer_packet e task CMD_FILE_END STATUS_OK None 0 ?s3 = (r4, s4)" by (metis prod.collapse)
  obtain r5 p5 s5 where v: "recv_transfer_packet e task s4 = (r5, p5, s5)" by (metis prod_cases3)
  show ?thesis using r o y g t v transfer_conn(3) [OF r] transfer_conn(1) [OF y] transfer_conn(2) [OF t] transfer_conn(3) [OF v]
    by (simp add: gets_stream_def Let_def split: option.splits)
qed

lemma handle_gets_conn: "handle_gets M e stale task s = Some s1 \<Longrightarrow> conn_state s1 = conn_state s"
  by (auto simp: handle_gets_def Let_def gets_stream_conn split: if_splits prod.splits bind_splits option.splits dest!: transfer_conn(2))

text \<open>A handler for the descriptor \<open>fd\<close> may change the sessions of this connection.\<close>

definition table_step :: "int \<Rightarrow> 'w server_t \<Rightarrow> 'w server_t \<Rightarrow> bool" where
  "table_step fd s s' \<longleftrightarrow> watch_state s' = watch_state s \<and>
     (\<exists>t t'. s_table s = Some t \<and> s_table s' = Some t' \<and> table_inv t' \<and> keeps_others fd (abs_table t) (abs_table t') \<and>
        dom (bound (abs_table t')) \<subseteq> insert fd (dom (bound (abs_table t))))"

lemma table_step_conn: "conn_state s' = conn_state s \<Longrightarrow> s_table s = Some t \<Longrightarrow> table_inv t \<Longrightarrow> table_step fd s s'"
  by (auto simp: table_step_def conn_state_def)

lemma cd_enter_step:
  assumes ret: "cd_enter M e env task p s = Some s'" and t: "s_table s = Some t" "table_inv t" and key: "wf_session_id (session_id (t_header task))"
  shows "table_step (t_fd task) s s'"
proof -
  obtain ret pid pool w where q: "dao_path_get_node_id M (ctx_user_id (t_session task)) p (s_pool s) (s_world s) = Some (ret, pid, pool, w)"
    using ret by (auto simp: cd_enter_def split: bind_splits)
  show ?thesis
  proof (cases "ret = DAO_PATH_IS_DIR")
    case False
    then have "conn_state s' = conn_state s" using ret q by (auto simp: cd_enter_def Let_def split: if_splits)
    then show ?thesis using t by (rule table_step_conn)
  next
    case True
    then obtain i where i: "pid = Some i" using ret q by (auto simp: cd_enter_def Let_def split: bind_splits)
    obtain r t' where u: "session_update_cwd (Some t) (t_fd task) (session_id (t_header task)) i (Some p) (be_now env) = Some (r, Some t')" "table_inv t'"
        "r = - 1 \<and> t' = t \<or> r = 0 \<and> (\<exists>now. spec_update_cwd (abs_table t) (t_fd task) (session_id (t_header task)) i p now = Some (abs_table t'))"
      using session_update_cwd_cases [OF t(2) key, of "t_fd task" i "Some p" "be_now env"] by auto
    have "conn_state s' = (Some t', watch_state s)"
      using ret q True i u(1) t(1) by (auto simp: cd_enter_def Let_def watch_state_def split: if_splits)
    moreover have "keeps_others (t_fd task) (abs_table t) (abs_table t')" "dom (bound (abs_table t')) = dom (bound (abs_table t))"
      using u(3) keeps_others_update_cwd bound_update_cwd by auto
    ultimately show ?thesis using t u(2) by (auto simp: table_step_def conn_state_def)
  qed
qed

lemma login_check_step:
  fixes crypt :: "string \<Rightarrow> string \<Rightarrow> string option"
  assumes ret: "login_check M crypt e env task name password s = Some s'" and t: "s_table s = Some t" "table_inv t"
    and fresh: "fresh_ptr (sessions t) (be_session env)" "fresh_ptr (bindings t) (be_binding env)"
  shows "table_step (t_fd task) s s'"
proof -
  obtain ret info pool w where q: "dao_auth_get_login_info M (Some name) (s_pool s) (s_world s) = Some (ret, info, pool, w)"
    using ret by (auto simp: login_check_def split: bind_splits)
  show ?thesis
  proof (cases "ret \<noteq> 1 \<and> ret \<noteq> - 1 \<and> crypt password (li_password_hash info) = Some (li_password_hash info)")
    case False
    then have "conn_state s' = conn_state s" using ret q by (auto simp: login_check_def Let_def split: if_splits option.splits)
    then show ?thesis using t by (rule table_step_conn)
  next
    case True
    obtain n out t' where c: "session_create (Some t) (t_fd task) (li_user_id info) (Some name) (li_root_path_id info)
          (be_session env) (be_binding env) (be_random env) (be_clock env) = Some (n, out, Some t')" "table_inv t'"
        "n = - 1 \<and> t' = t \<or> n = 0 \<and> session_created t (t_fd task) (li_user_id info) (Some name) (li_root_path_id info) out t'"
      using session_create_cases [OF t(2) fresh, of "t_fd task" "li_user_id info" "Some name" "li_root_path_id info" "be_random env" "be_clock env"] by blast
    have "conn_state s' = (Some t', watch_state s)"
      using ret q True c(1) t(1) by (auto simp: login_check_def Let_def watch_state_def split: if_splits bind_splits)
    moreover have "keeps_others (t_fd task) (abs_table t) (abs_table t') \<and> dom (bound (abs_table t')) \<subseteq> insert (t_fd task) (dom (bound (abs_table t)))"
      using c(3) keeps_others_create by (auto simp: session_created_def spec_create_def keeps_others_def)
    ultimately show ?thesis using t c(2) by (auto simp: table_step_def conn_state_def)
  qed
qed

lemma basic_dispatch_step:
  fixes crypt :: "string \<Rightarrow> string \<Rightarrow> string option"
  assumes ret: "basic_dispatch M crypt e env task s = Some s'" and t: "s_table s = Some t" "table_inv t" and key: "wf_session_id (session_id (t_header task))"
    and fresh: "fresh_ptr (sessions t) (be_session env)" "fresh_ptr (bindings t) (be_binding env)"
  shows "table_step (t_fd task) s s'"
proof -
  note conn = table_step_conn [OF _ t]
  have resp: "table_step fd s (respond e task a b s)" for fd a b by (rule conn) simp
  have login: "table_step (t_fd task) s s1" if "handle_login M crypt e env task s = Some s1" for s1
    using that login_check_step [OF _ t fresh, of M crypt e] by (auto simp: handle_login_def resp split: option.splits prod.splits)
  have cd: "table_step (t_fd task) s s1" if "handle_cd M e env task s = Some s1" for s1
    using that cd_enter_step [OF _ t key, of M e env] by (auto simp: handle_cd_def resp split: option.splits bind_splits if_splits)
  have "conn_state s' = conn_state s \<or> table_step (t_fd task) s s'"
    using ret by (auto simp: basic_dispatch_def Let_def basic_handlers_conn(2) split: if_splits dest: basic_handlers_conn(1,3-) login cd)
  then show ?thesis using conn by blast
qed

text \<open>A worker runs the first part of a task on the server's state and finishes with the descriptor.\<close>

definition on_server :: "('w server_t \<Rightarrow> 'w server_t option) \<Rightarrow> 'w loop_t \<Rightarrow> 'w loop_t option" where
  "on_server f s = map_option (\<lambda>s1. s\<lparr>s_pool := s_pool s1, s_world := s_world s1, s_table := s_table s1, s_wheel := s_wheel s1, s_kern := s_kern s1,
     s_socks := s_socks s1, s_epoll := s_epoll s1, s_open := s_open s1\<rparr>) (f (server_t.truncate s))"

lemma owned_table_step:
  assumes own: "owned {fd} s" and step: "table_step fd (server_t.truncate s) s1" "s_table s2 = s_table s1" "s_wheel s2 = s_wheel s" "s_epoll s2 = s_epoll s"
      "s_open s2 = s_open s" "l_tasks s2 = l_tasks s"
  shows "owned {fd} s2"
proof -
  note d = ownedD [OF own]
  obtain t t' where t: "s_table s = Some t" "s_table s2 = Some t'" "table_inv t'" "keeps_others fd (abs_table t) (abs_table t')"
      "dom (bound (abs_table t')) \<subseteq> insert fd (dom (bound (abs_table t)))"
    using step by (auto simp: table_step_def server_t.defs)
  have "sessions_ok {fd} (s\<lparr>s_table := Some t'\<rparr>)" by (rule sessions_ok_own [OF d(3) t(1) _ t(3-5)]) (use d(5) in auto)
  then have "sessions_ok {fd} s2" using t(2) step by (simp add: sessions_ok_def)
  then show ?thesis using d step by (intro ownedI) auto
qed

text \<open>The descriptor is closed.\<close>

lemma owned_close:
  fixes s :: "'w loop_t"
  assumes own: "owned {fd} s" and fd: "fd \<notin> dom (deadlines w)" "fd \<notin> s_epoll s" "wheel_inv w" "deadlines w = deadlines (s_wheel s)"
  obtains t' where "session_detach_fd (s_table s) fd = Some (Some t')"
    "\<forall>s2 :: 'w loop_t. s_table s2 = Some t' \<and> s_wheel s2 = w \<and> s_epoll s2 = s_epoll s \<and> s_open s2 = s_open s - {fd} \<and> l_tasks s2 = l_tasks s \<longrightarrow> owned {} s2"
proof -
  note d = ownedD [OF own]
  obtain t' where t': "session_detach_fd (s_table s) fd = Some (Some t')" "table_inv t'" "dom (bound (abs_table t')) \<subseteq> s_open s - {fd} \<union> {}"
      "\<forall>task \<in> set (l_tasks s). task_ok (abs_table t') task"
    by (rule detach_own [OF d(3)]) (use d(5,7) in auto)
  show thesis
  proof (rule that [OF t'(1)], intro allI impI)
    fix s2 :: "'w loop_t"
    assume s2: "s_table s2 = Some t' \<and> s_wheel s2 = w \<and> s_epoll s2 = s_epoll s \<and> s_open s2 = s_open s - {fd} \<and> l_tasks s2 = l_tasks s"
    have "sessions_ok {} s2" using t'(2-4) s2 by (simp add: sessions_ok_def)
    then show "owned {} s2" using d fd s2 by (intro ownedI) auto
  qed
qed

lemma run_basic_owned:
  fixes crypt :: "string \<Rightarrow> string \<Rightarrow> string option" and s :: "'w loop_t"
  assumes own: "owned {} s" and ts: "l_tasks s = xs @ Basic_Task task # ys"
    and fresh: "\<And>t. s_table s = Some t \<Longrightarrow> fresh_ptr (sessions t) (be_session env) \<and> fresh_ptr (bindings t) (be_binding env)"
      "fresh_ptr (nodes (s_wheel s)) (be_timer env)"
    and ret: "on_server (handle_basic_task M crypt e env task) (s\<lparr>l_tasks := xs @ ys\<rparr>) = Some s'"
  shows "owned {} s'"
proof -
  let ?s = "s\<lparr>l_tasks := xs @ ys\<rparr>" and ?fd = "t_fd task"
  have fd: "task_fd (Basic_Task task) = ?fd" "task_header (Basic_Task task) = t_header task" by (simp_all add: task_fd_def task_header_def)
  note st = owned_start [OF own ts, unfolded fd]
  obtain t where t: "s_table ?s = Some t" "table_inv t" "wf_session_id (session_id (t_header task))" using st(5) fd by (auto simp: request_ok_def)
  obtain s1 where d: "basic_dispatch M crypt e env task (server_t.truncate ?s) = Some s1"
    using ret by (auto simp: on_server_def handle_basic_task_def split: bind_splits)
  have step: "table_step ?fd (server_t.truncate ?s) s1"
    by (rule basic_dispatch_step [OF d, of t]) (use t fresh(1) [of t] in \<open>simp_all add: server_t.defs\<close>)
  then have w1: "s_wheel s1 = s_wheel s" "s_epoll s1 = s_epoll s" "s_open s1 = s_open s"
    by (simp_all add: table_step_def watch_state_def server_t.defs)
  have own1: "owned {?fd} s2" if "s_table s2 = s_table s1" "s_wheel s2 = s_wheel s" "s_epoll s2 = s_epoll s" "s_open s2 = s_open s" "l_tasks s2 = xs @ ys" for s2
    by (rule owned_table_step [OF st(1) step]) (use that in simp_all)
  obtain r w where p: "timer_wheel_track_and_publish (s_wheel s) ?fd (be_publish env) (be_track_clock env) (be_timer env) = Some (r, w)" "wheel_inv w"
      "r = 0 \<and> dom (deadlines w) = insert ?fd (dom (deadlines (s_wheel s))) \<and> be_publish env = 0 \<or> r \<noteq> 0 \<and> deadlines w = deadlines (s_wheel s)"
    using publish_owned [OF ownedD(1) [OF own] fresh(2), of ?fd "be_publish env" "be_track_clock env"] by blast
  show ?thesis
  proof (cases "r = 0")
    case True
    then have s': "s' = ?s\<lparr>s_pool := s_pool s1, s_world := s_world s1, s_table := s_table s1, s_wheel := w, s_kern := s_kern s1, s_socks := s_socks s1,
        s_epoll := insert ?fd (s_epoll s)\<rparr>"
      using ret d p w1 by (auto simp: on_server_def handle_basic_task_def publish_control_fd_def Let_def)
    have "owned {?fd} (?s\<lparr>s_table := s_table s1\<rparr>)" by (rule own1) simp_all
    from owned_publish [OF this, of w s'] show ?thesis using s' p(2,3) True st(4) by simp
  next
    case False
    let ?s1 = "?s\<lparr>s_table := s_table s1\<rparr>"
    have own2: "owned {?fd} ?s1" by (rule own1) simp_all
    have nd: "?fd \<notin> dom (deadlines w)" "?fd \<notin> s_epoll ?s1" "deadlines w = deadlines (s_wheel ?s1)" using st(2,3) p(3) False by simp_all
    obtain t' where t': "session_detach_fd (s_table ?s1) ?fd = Some (Some t')"
        "\<forall>s2 :: 'w loop_t. s_table s2 = Some t' \<and> s_wheel s2 = w \<and> s_epoll s2 = s_epoll ?s1 \<and> s_open s2 = s_open ?s1 - {?fd} \<and> l_tasks s2 = l_tasks ?s1 \<longrightarrow> owned {} s2"
      by (rule owned_close [OF own2 nd(1,2) p(2) nd(3)])
    have "s' = ?s\<lparr>s_pool := s_pool s1, s_world := s_world s1, s_table := Some t', s_wheel := w, s_kern := s_kern s1, s_socks := s_socks s1, s_open := s_open s - {?fd}\<rparr>"
      using ret d p(1) False w1 t'(1) by (auto simp: on_server_def handle_basic_task_def Let_def)
    then show ?thesis using t'(2) [THEN spec, of s'] by simp
  qed
qed

lemma run_transfer_owned:
  fixes s :: "'w loop_t"
  assumes own: "owned {} s" and ts: "l_tasks s = xs @ Transfer_Task task # ys"
    and ret: "on_server (handle_transfer_task M sha256 e stale task) (s\<lparr>l_tasks := xs @ ys\<rparr>) = Some s'"
  shows "owned {} s'"
proof -
  let ?s = "s\<lparr>l_tasks := xs @ ys\<rparr>" and ?fd = "x_fd task"
  have fd: "task_fd (Transfer_Task task) = ?fd" by (simp add: task_fd_def)
  note st = owned_start [OF own ts, unfolded fd]
  obtain s1 where d: "(if ptype (x_header task) = CMD_PUTS_REQ then handle_puts M sha256 e task (server_t.truncate ?s)
           else if ptype (x_header task) = CMD_GETS_REQ then handle_gets M e stale task (server_t.truncate ?s)
           else Some (answer e task CMD_ERROR STATUS_PROTOCOL_ERROR (server_t.truncate ?s))) = Some s1"
    using ret by (auto simp: on_server_def handle_transfer_task_def split: bind_splits)
  then have "conn_state s1 = conn_state (server_t.truncate ?s)" by (auto split: if_splits dest: handle_puts_conn handle_gets_conn)
  then have w1: "s_table s1 = s_table s" "s_wheel s1 = s_wheel s" "s_epoll s1 = s_epoll s" "s_open s1 = s_open s"
    by (simp_all add: conn_state_def watch_state_def server_t.defs)
  have nd: "?fd \<notin> dom (deadlines (s_wheel ?s))" "?fd \<notin> s_epoll ?s" "wheel_inv (s_wheel ?s)" using st(2,3) ownedD(1) [OF own] by simp_all
  obtain t' where t': "session_detach_fd (s_table ?s) ?fd = Some (Some t')"
      "\<forall>s2 :: 'w loop_t. s_table s2 = Some t' \<and> s_wheel s2 = s_wheel ?s \<and> s_epoll s2 = s_epoll ?s \<and> s_open s2 = s_open ?s - {?fd} \<and> l_tasks s2 = l_tasks ?s \<longrightarrow> owned {} s2"
    by (rule owned_close [OF st(1) nd refl])
  have "s' = ?s\<lparr>s_pool := s_pool s1, s_world := s_world s1, s_table := Some t', s_kern := s_kern s1, s_socks := s_socks s1, s_open := s_open s - {?fd}\<rparr>"
    using ret w1 t'(1) unfolding on_server_def handle_transfer_task_def d by simp
  then show ?thesis using t'(2) [THEN spec, of s'] by simp
qed

subsection \<open>Runs\<close>

text \<open>
  One step: the main thread handles an event of a watched descriptor, of the listening socket or of the timer, or a
  worker runs a queued task. The kernel returns descriptors that are not open and reports watched ones only, the
  allocator returns memory that is not in use. \<open>P\<close> are the parameters of the server: the database, the hash
  functions and the configured directories.
\<close>

record 'w params =
  p_mysql :: "'w mysql"
  p_crypt :: "string \<Rightarrow> string \<Rightarrow> string option"
  p_sha256 :: "byte list \<Rightarrow> byte list"
  p_endian :: endian
  p_root :: string
  p_temp :: string

inductive server_step :: "'w params \<Rightarrow> 'w loop_t \<Rightarrow> 'w loop_t \<Rightarrow> bool" for P where
  accept: "fd = - 1 \<or> 0 \<le> fd \<and> fd \<notin> s_open s \<Longrightarrow> fresh_ptr (nodes (s_wheel s)) new \<Longrightarrow>
    handle_accept_event fd sock ctl clock new s = Some s' \<Longrightarrow> server_step P s s'"
| client: "fd \<in> s_epoll s \<Longrightarrow> (\<And>t. s_table s = Some t \<Longrightarrow> fresh_ptr (bindings t) (ee_binding env)) \<Longrightarrow>
    handle_client_event (p_endian P) env fd events (p_root P) (p_temp P) s = Some s' \<Longrightarrow> server_step P s s'"
| expire: "(\<And>now. clock = Some now \<Longrightarrow> 0 \<le> tv_nsec now) \<Longrightarrow> expire_idle clock s = Some s' \<Longrightarrow> server_step P s s'"
| basic: "l_tasks s = xs @ Basic_Task task # ys \<Longrightarrow>
    (\<And>t. s_table s = Some t \<Longrightarrow> fresh_ptr (sessions t) (be_session env) \<and> fresh_ptr (bindings t) (be_binding env)) \<Longrightarrow>
    fresh_ptr (nodes (s_wheel s)) (be_timer env) \<Longrightarrow>
    on_server (handle_basic_task (p_mysql P) (p_crypt P) (p_endian P) env task) (s\<lparr>l_tasks := xs @ ys\<rparr>) = Some s' \<Longrightarrow> server_step P s s'"
| transfer: "l_tasks s = xs @ Transfer_Task task # ys \<Longrightarrow>
    on_server (handle_transfer_task (p_mysql P) (p_sha256 P) (p_endian P) stale task) (s\<lparr>l_tasks := xs @ ys\<rparr>) = Some s' \<Longrightarrow> server_step P s s'"

inductive_cases server_stepE: "server_step P s s'"

lemma server_step_owned: "server_step P s s' \<Longrightarrow> owned {} s \<Longrightarrow> owned {} s'"
proof (induction rule: server_step.induct)
  case (accept fd s new sock ctl clock s')
  then show ?case using handle_accept_owned [of s fd new sock ctl clock] by auto
next
  case (client fd s env events s')
  then show ?case using handle_client_owned [of s fd env "p_endian P" events "p_root P" "p_temp P"] by auto
next
  case (expire clock s s')
  then show ?case using expire_idle_owned [of s clock] by auto
next
  case (basic s xs task ys env s')
  then show ?case using run_basic_owned [of s xs task ys env] by blast
next
  case (transfer s xs task ys stale s')
  then show ?case using run_transfer_owned [of s xs task ys] by blast
qed

interpretation server: preserved "server_step P" "owned {}"
  by unfold_locales (rule server_step_owned)

text \<open>The state in which the event loop starts: a new wheel, a new table, no connection.\<close>

definition loop_start :: "'w loop_t \<Rightarrow> bool" where
  "loop_start s \<longleftrightarrow> (\<exists>timeout now. timer_wheel_create timeout (Some now) True True True True = Some (s_wheel s)) \<and>
     s_table s = session_table_create True True True True \<and> s_epoll s = {} \<and> s_open s = {} \<and> l_tasks s = []"

lemma loop_start_owned: "loop_start s \<Longrightarrow> owned {} s"
  using create_rep session_table_create_ok by (auto simp: loop_start_def owned_def sessions_ok_def wheel_inv_def)

text \<open>
  A batch of events as \<open>epoll_wait\<close> reports it: each watched descriptor at most once. The descriptors that \<open>accept\<close> returns
  are new when their turn comes, and so is the memory.
\<close>

primrec client_fds :: "event list \<Rightarrow> int list" where
  "client_fds [] = []"
| "client_fds (ev # evs) = (case ev of Client fd events env \<Rightarrow> fd # client_fds evs | _ \<Rightarrow> client_fds evs)"

primrec answers_ok :: "'w params \<Rightarrow> event list \<Rightarrow> 'w loop_t \<Rightarrow> bool" where
  "answers_ok P [] s = True"
| "answers_ok P (ev # evs) s =
     (case ev of
        Shutdown \<Rightarrow> True
      | Tick ok \<Rightarrow> answers_ok P evs s
      | Accept fd sock ctl clock new \<Rightarrow> (fd = - 1 \<or> 0 \<le> fd \<and> fd \<notin> s_open s) \<and> fresh_ptr (nodes (s_wheel s)) new \<and>
          (\<forall>s'. handle_accept_event fd sock ctl clock new s = Some s' \<longrightarrow> answers_ok P evs s')
      | Client fd events env \<Rightarrow> (\<forall>t. s_table s = Some t \<longrightarrow> fresh_ptr (bindings t) (ee_binding env)) \<and>
          (\<forall>s'. handle_client_event (p_endian P) env fd events (p_root P) (p_temp P) s = Some s' \<longrightarrow> answers_ok P evs s'))"

text \<open>A descriptor leaves the epoll set only in its own event, so no event of the batch is stale when its turn comes.\<close>

lemma close_client_epoll: "close_client b fd s = Some s' \<Longrightarrow> s_epoll s' = s_epoll s - {fd}"
  by (auto simp: close_client_def split: bind_splits)

lemma submit_task_epoll: "submit_task env fd p ctx root temp s = Some s' \<Longrightarrow> s_epoll s' = s_epoll s - {fd}"
proof -
  assume ret: "submit_task env fd p ctx root temp s = Some s'"
  then obtain w where w: "timer_wheel_remove (s_wheel s) fd = Some w" by (auto simp: submit_task_def split: bind_splits)
  let ?transfer = "ptype (header p) = CMD_PUTS_REQ \<or> ptype (header p) = CMD_GETS_REQ"
  consider "close_client True fd (s\<lparr>s_wheel := w\<rparr>) = Some s'" | "close_client True fd (s\<lparr>s_wheel := w, s_epoll := s_epoll s - {fd}\<rparr>) = Some s'"
    | task where "s' = s\<lparr>s_wheel := w, s_epoll := s_epoll s - {fd}, l_tasks := l_tasks s @ [task]\<rparr>"
    using ret w by (cases "?transfer \<and> \<not> ee_transfer env"; cases "ee_add env = 0") (auto simp: submit_task_def Let_def)
  then show ?thesis by cases (auto dest: close_client_epoll)
qed

lemma refuse_epoll: "refuse e fd key st s = Some s' \<Longrightarrow> s_epoll s - {fd} \<subseteq> s_epoll s'"
proof -
  assume ret: "refuse e fd key st s = Some s'"
  obtain r x where "send_event_error e fd key st s = (r, s\<lparr>s_socks := x\<rparr>)" by (rule send_event_error_socks)
  then show ?thesis using ret by (cases "r = 0") (auto simp: refuse_def dest: close_client_epoll)
qed

lemma handle_client_epoll:
  assumes "handle_client_event e env fd events root temp s = Some s'"
  shows "s_epoll s - {fd} \<subseteq> s_epoll s'"
proof -
  obtain ret p sock where r: "protocol_recv_packet e (ee_payload env) (s_socks s fd) = (ret, p, sock)" by (metis prod_cases3)
  let ?s = "s\<lparr>s_socks := (s_socks s)(fd := sock)\<rparr>" and ?key = "session_id (header p)"
  consider "s' = s" | "close_client True fd s = Some s'" | "close_client True fd ?s = Some s'"
    | t ctx where "submit_task env fd p ctx root temp (?s\<lparr>s_table := t\<rparr>) = Some s'"
    | t st where "refuse e fd ?key st (?s\<lparr>s_table := t\<rparr>) = Some s'"
  proof (cases "events AND (EPOLLRDHUP OR EPOLLHUP OR EPOLLERR) \<noteq> 0 \<or> events AND EPOLLIN = 0 \<or> \<not> ee_task env \<or> ret \<noteq> 0")
    case True
    then have "s' = s \<or> close_client True fd s = Some s' \<or> close_client True fd ?s = Some s'"
      using assms r by (cases "events AND (EPOLLRDHUP OR EPOLLHUP OR EPOLLERR) \<noteq> 0"; cases "events AND EPOLLIN = 0"; cases "ee_task env")
        (simp_all add: handle_client_event_def Let_def)
    then show thesis using that(1-3) by blast
  next
    case go: False
    show thesis
    proof (cases "command_is_anonymous (ptype (header p))")
      case True
      then show thesis using assms r go that(4) [of no_context "s_table s"] that(5) [of STATUS_BAD_REQUEST "s_table s"]
        by (auto simp: handle_client_event_def Let_def split: if_splits)
    next
      case False
      then obtain ra ctx t where "session_authorize (s_table s) fd ?key (ee_clock env) (ee_binding env) = Some (ra, ctx, t)"
        using assms r go by (auto simp: handle_client_event_def Let_def split: bind_splits)
      then show thesis using assms r go False that(4) [of _ t] that(5) [of STATUS_UNAUTHORIZED t]
        by (auto simp: handle_client_event_def Let_def split: if_splits bind_splits)
    qed
  qed
  then show ?thesis by cases (fastforce dest!: close_client_epoll submit_task_epoll refuse_epoll)+
qed

lemma handle_accept_epoll: "handle_accept_event fd sock ctl clock new s = Some s' \<Longrightarrow> s_epoll s - {fd} \<subseteq> s_epoll s'"
proof -
  assume ret: "handle_accept_event fd sock ctl clock new s = Some s'"
  let ?s = "s\<lparr>s_open := insert fd (s_open s), s_socks := (s_socks s)(fd := sock)\<rparr>"
  show ?thesis
  proof (cases "fd = - 1 \<or> ctl \<noteq> 0")
    case True
    then have "s' = s \<or> close_client False fd ?s = Some s'" using ret by (cases "fd = - 1") (simp_all add: handle_accept_event_def)
    then show ?thesis by (auto dest: close_client_epoll)
  next
    case go: False
    then obtain r w where w: "timer_wheel_track (s_wheel s) fd clock new = Some (r, w)" using ret by (auto simp: handle_accept_event_def split: bind_splits)
    let ?s2 = "?s\<lparr>s_epoll := insert fd (s_epoll s), s_wheel := w\<rparr>"
    have "s' = ?s2 \<or> close_client False fd ?s2 = Some s'" using ret go w by (cases "r = 0") (simp_all add: handle_accept_event_def)
    then show ?thesis by (auto dest: close_client_epoll)
  qed
qed

lemma handle_events_runs:
  assumes "owned {} s" "answers_ok P evs s" "distinct (client_fds evs)" "set (client_fds evs) \<subseteq> s_epoll s"
  shows "\<exists>r. handle_events (p_endian P) (p_root P) (p_temp P) evs b s = Some r \<and> (\<forall>b' s'. r = Some (b', s') \<longrightarrow> (server_step P)\<^sup>*\<^sup>* s s')"
  using assms
proof (induction evs arbitrary: b s)
  case (Cons ev evs)
  show ?case
  proof (cases ev)
    case (Accept fd sock ctl clock new)
    have ok: "fd = - 1 \<or> 0 \<le> fd \<and> fd \<notin> s_open s" "fresh_ptr (nodes (s_wheel s)) new" using Cons.prems(2) Accept by auto
    obtain s1 where s1: "handle_accept_event fd sock ctl clock new s = Some s1" "owned {} s1"
      using handle_accept_owned [OF Cons.prems(1) ok] by blast
    have "fd \<notin> s_epoll s" using ok(1) ownedD(6,7) [OF Cons.prems(1)] by fastforce
    then have "set (client_fds evs) \<subseteq> s_epoll s1" using handle_accept_epoll [OF s1(1)] Cons.prems(4) Accept by auto
    moreover have "server_step P s s1" by (rule server_step.accept [OF ok s1(1)])
    ultimately show ?thesis using Cons.IH [OF s1(2), of b] Accept s1(1) Cons.prems(2,3) by (auto intro: converse_rtranclp_into_rtranclp)
  next
    case (Client fd events env)
    have ok: "fd \<in> s_epoll s" "\<And>t. s_table s = Some t \<Longrightarrow> fresh_ptr (bindings t) (ee_binding env)" using Cons.prems(2,4) Client by auto
    obtain s1 where s1: "handle_client_event (p_endian P) env fd events (p_root P) (p_temp P) s = Some s1" "owned {} s1"
      using handle_client_owned [OF Cons.prems(1) ok] by blast
    have "set (client_fds evs) \<subseteq> s_epoll s1" using handle_client_epoll [OF s1(1)] Cons.prems(3,4) Client by auto
    moreover have "server_step P s s1" by (rule server_step.client [OF ok s1(1)])
    ultimately show ?thesis using Cons.IH [OF s1(2), of b] Client s1(1) Cons.prems(2,3) by (auto intro: converse_rtranclp_into_rtranclp)
  qed (use Cons in simp_all)
qed simp

lemma handle_events_shutdown: "handle_events e root temp evs b s = Some None \<Longrightarrow> Shutdown \<in> set evs"
  by (induction evs arbitrary: b s) (auto split: event.splits bind_splits)

subsection \<open>A server with one connection\<close>

definition sample_params :: "server params" where
  "sample_params = \<lparr>p_mysql = reference_mysql, p_crypt = (\<lambda>_ _. None), p_sha256 = (\<lambda>_. replicate 32 0), p_endian = Little, p_root = ''/s'', p_temp = ''/t''\<rparr>"

definition sample_loop :: "server loop_t" where
  "sample_loop = \<lparr>s_pool = sample_pool, s_world = sample_server, s_table = Some empty_table, s_wheel = demo_wheel0,
     s_kern = \<lparr>disk = Map.empty, kio = [], kok = []\<rparr>, s_socks = (\<lambda>fd. \<lparr>rx = [], tx = [], rx_io = [], tx_io = []\<rparr>), s_epoll = {}, s_open = {}, l_tasks = []\<rparr>"

lemma sample_loop_start: "loop_start sample_loop"
  using demo_wheel0_ok(1) session_table_create_ok(1) by (auto simp: loop_start_def sample_loop_def)

text \<open>The descriptor 5 is accepted.\<close>

definition sample_accept :: event where
  "sample_accept = Accept 5 \<lparr>rx = [], tx = [], rx_io = [], tx_io = []\<rparr> 0 (Some \<lparr>tv_sec = 130, tv_nsec = 0\<rparr>) (Some 3)"

lemma sample_accept_step:
  obtains s where "server_step sample_params sample_loop s" "s_open s = {5}"
proof -
  obtain s where s: "handle_accept_event 5 \<lparr>rx = [], tx = [], rx_io = [], tx_io = []\<rparr> 0 (Some \<lparr>tv_sec = 130, tv_nsec = 0\<rparr>) (Some 3) sample_loop = Some s"
    using handle_accept_owned [OF loop_start_owned [OF sample_loop_start], of 5 "Some 3"] demo_wheel0_ok(4) by (auto simp: sample_loop_def fresh_ptr_def) blast
  have "wheel_inv demo_wheel0" "fresh_ptr (nodes demo_wheel0) (Some 3)" using demo_wheel0_ok by (simp_all add: fresh_ptr_def)
  then have "s_open s = {5}" using s
    by (cases rule: track_cases [where fd = 5 and now = "\<lparr>tv_sec = 130, tv_nsec = 0\<rparr>"])
      (auto simp: handle_accept_event_def sample_loop_def demo_wheel0_ok)
  moreover have "server_step sample_params sample_loop s"
    by (rule server_step.accept [OF _ _ s]) (use demo_wheel0_ok(4) in \<open>simp_all add: sample_loop_def fresh_ptr_def\<close>)
  ultimately show thesis using that by blast
qed

subsection \<open>Properties\<close>

text \<open>
  C4. In every state that the server reaches, however the events, the expiry of idle connections and the workers' tasks
  interleave and whatever the kernel, the database and the clients answer: the watched descriptors are exactly those
  with a deadline; every open descriptor is watched or belongs to one task, never both and never to two tasks, so
  that no connection is leaked and no two threads use the same one; sessions are bound to open descriptors only; and
  every waiting task is a login or a registration without a session identifier, or carries the user of a live
  session whose identifier came with its request and to which its connection is bound.
\<close>

theorem server_runs_consistent:
  assumes "loop_start s0" "(server_step P)\<^sup>*\<^sup>* s0 s"
  shows "\<exists>t. s_table s = Some t \<and> table_inv t \<and> wheel_inv (s_wheel s) \<and> dom (deadlines (s_wheel s)) = s_epoll s \<and>
    s_open s = s_epoll s \<union> task_fd ` set (l_tasks s) \<and> s_epoll s \<inter> task_fd ` set (l_tasks s) = {} \<and> distinct (map task_fd (l_tasks s)) \<and>
    dom (bound (abs_table t)) \<subseteq> s_open s \<and>
    (\<forall>task \<in> set (l_tasks s). request_ok (abs_table t) (task_fd task) (task_header task) (task_session task))"
proof -
  have "owned {} s" by (rule server.run_keeps [OF assms(2) loop_start_owned [OF assms(1)]])
  note d = ownedD [OF this]
  then show ?thesis by (auto simp: sessions_ok_def Int_commute)
qed

theorem server_runs_consistent_witness:
  "\<exists>s. (server_step sample_params)\<^sup>*\<^sup>* sample_loop s \<and> s_open s = {5} \<and> dom (deadlines (s_wheel s)) = s_epoll s"
proof -
  obtain s where s: "server_step sample_params sample_loop s" "s_open s = {5}" by (rule sample_accept_step)
  then have run: "(server_step sample_params)\<^sup>*\<^sup>* sample_loop s" by simp
  then show ?thesis using server_runs_consistent [OF sample_loop_start run] s(2) by blast
qed



end
