(* ===== verification/Client_Transfer.thy ===== *)
theory Client_Transfer
  imports Utils Payloads Wire
begin

text \<open>
  One background transfer of the client (\<open>src/client/transfer.c\<close>): the packets of a task, the hash of a file
  that can be canceled, \<open>run_upload\<close> and \<open>run_download\<close>. A transfer has its own connection. \<open>c_cancel\<close> says after
  how many further tests of the task's \<open>canceled\<close> flag the flag reads as set; once set it stays set. The
  answers of the operating system are the kernel's, and \<open>sha256\<close> is the hash function of the crypto
  library.

  The two operations are cut where they jump to \<open>done\<close>: a part returns \<open>Inl\<close> of the state at such a jump, with
  the result still -1, or \<open>Inr\<close> of what the next part needs.
\<close>

subsection \<open>Tasks\<close>

datatype transfer_kind_t = TRANSFER_UPLOAD | TRANSFER_DOWNLOAD

datatype transfer_result_t = TRANSFER_RESULT_OK | TRANSFER_RESULT_FAILED | TRANSFER_RESULT_CANCELED

record transfer_event_t =
  ev_kind :: transfer_kind_t
  ev_result :: transfer_result_t
  ev_path :: string

record client_task_t =
  ct_event :: transfer_event_t
  ct_kind :: transfer_kind_t
  ct_canceled :: bool
  ct_socket_fd :: int
  ct_session_id :: session_id_t
  ct_host :: string
  ct_port :: string
  ct_connect_timeout_ms :: int
  ct_io_timeout_ms :: int
  ct_local_path :: string
  ct_remote_path :: string
  ct_target_path :: string
  ct_part_path :: string

record xfer_t =
  c_sock :: sock
  c_kern :: kernel
  c_cancel :: "nat option"

definition copy_string :: "nat \<Rightarrow> string \<Rightarrow> string option" where
  "copy_string dst_size src = (if length src \<ge> dst_size then None else Some src)"

definition task_is_canceled :: "xfer_t \<Rightarrow> bool \<times> xfer_t" where
  "task_is_canceled s =
     (case c_cancel s of
        None \<Rightarrow> (False, s)
      | Some 0 \<Rightarrow> (True, s)
      | Some (Suc n) \<Rightarrow> (False, s\<lparr>c_cancel := Some n\<rparr>))"

text \<open>The next answer of the kernel.\<close>

definition csys :: "xfer_t \<Rightarrow> bool \<times> xfer_t" where
  "csys s = (let (ok, k) = sys_ok (c_kern s) in (ok, s\<lparr>c_kern := k\<rparr>))"

subsection \<open>Packets\<close>

definition task_send :: "endian \<Rightarrow> client_task_t \<Rightarrow> u32 \<Rightarrow> u32 \<Rightarrow> byte list option \<Rightarrow> u32 \<Rightarrow> xfer_t \<Rightarrow> int \<times> xfer_t" where
  "task_send e task type st pl plen s =
     (let (canceled, s) = task_is_canceled s
      in if canceled then (- 1, s)
         else
           (let (ret, packet) = packet_init (Some zero_packet) type st (Some (ct_session_id task)) pl plen
            in if ret \<noteq> 0 then (- 1, s)
               else (let (ret, sock) = protocol_send_packet e packet (c_sock s) in (ret, s\<lparr>c_sock := sock\<rparr>))))"

definition task_recv :: "endian \<Rightarrow> client_task_t \<Rightarrow> xfer_t \<Rightarrow> int \<times> packet_t \<times> xfer_t" where
  "task_recv e task s =
     (let (canceled, s) = task_is_canceled s
      in if canceled then (- 1, zero_packet, s)
         else
           (let (malloc_ok, s) = csys s;
                (ret, packet, sock) = protocol_recv_packet e malloc_ok (c_sock s);
                s = s\<lparr>c_sock := sock\<rparr>
            in if ret \<noteq> 0 then (- 1, packet, s)
               else if \<not> session_id_equal (Some (session_id (header packet))) (Some (ct_session_id task))
               then (- 1, zero_packet, snd (task_send e task CMD_ERROR STATUS_UNAUTHORIZED None 0 s))
               else (0, packet, s)))"

definition task_report_error :: "endian \<Rightarrow> client_task_t \<Rightarrow> u32 \<Rightarrow> xfer_t \<Rightarrow> xfer_t" where
  "task_report_error e task st s =
     (let (canceled, s) = task_is_canceled s
      in if \<not> canceled \<and> ct_socket_fd task \<ge> 0 then snd (task_send e task CMD_ERROR st None 0 s) else s)"

subsection \<open>Frame conditions\<close>

lemma task_is_canceled_frame:
  assumes "task_is_canceled s = (b, s')"
  shows "c_sock s' = c_sock s" "c_kern s' = c_kern s"
  using assms by (auto simp: task_is_canceled_def split: option.splits nat.splits)

lemma csys_frame:
  assumes "csys s = (b, s')"
  shows "c_sock s' = c_sock s" "c_cancel s' = c_cancel s" "disk (c_kern s') = disk (c_kern s)" "kio (c_kern s') = kio (c_kern s)"
  using assms by (auto simp: csys_def split: prod.splits dest: sys_ok_pair)

lemma task_send_frame:
  assumes "task_send e task type st pl plen s = (ret, s')"
  shows "c_kern s' = c_kern s" "rx (c_sock s') = rx (c_sock s)" "rx_io (c_sock s') = rx_io (c_sock s)"
proof -
  obtain b s1 where b: "task_is_canceled s = (b, s1)" by (metis prod.collapse)
  note f = task_is_canceled_frame [OF b]
  show "c_kern s' = c_kern s" using assms f b by (auto simp: task_send_def Let_def split: prod.splits if_splits)
  show "rx (c_sock s') = rx (c_sock s)" "rx_io (c_sock s') = rx_io (c_sock s)"
    using assms f b
    by (auto simp: task_send_def Let_def packet_init_def split: prod.splits if_splits dest!: send_packet_spec(1) simp: sending_def)
qed

lemma task_report_error_frame [simp]: "c_kern (task_report_error e task st s) = c_kern s"
proof -
  obtain b s1 where b: "task_is_canceled s = (b, s1)" by (metis prod.collapse)
  obtain ret s2 where t: "task_send e task CMD_ERROR st None 0 s1 = (ret, s2)" by (metis prod.collapse)
  show ?thesis using task_is_canceled_frame [OF b] task_send_frame [OF t] b t by (simp add: task_report_error_def)
qed

lemma task_recv_frame:
  assumes "task_recv e task s = (ret, p, s')"
  shows "disk (c_kern s') = disk (c_kern s)" "kio (c_kern s') = kio (c_kern s)"
proof -
  obtain b s1 where b: "task_is_canceled s = (b, s1)" by (metis prod.collapse)
  obtain m s2 where m: "csys s1 = (m, s2)" by (metis prod.collapse)
  obtain r q k where q: "protocol_recv_packet e m (c_sock s2) = (r, q, k)" by (metis prod_cases3)
  obtain t s3 where t: "task_send e task CMD_ERROR STATUS_UNAUTHORIZED None 0 (s2\<lparr>c_sock := k\<rparr>) = (t, s3)" by (metis prod.collapse)
  have "s' = s1 \<or> s' = s2\<lparr>c_sock := k\<rparr> \<or> s' = s3"
    using assms b m q t by (auto simp: task_recv_def Let_def split: if_splits)
  then show "disk (c_kern s') = disk (c_kern s)" "kio (c_kern s') = kio (c_kern s)"
    using task_is_canceled_frame [OF b] csys_frame [OF m] task_send_frame [OF t] by auto
qed

lemma task_recv_ok:
  assumes "task_recv e task s = (0, p, s')"
  shows "wf_packet p" "rx (c_sock s) = frame p @ rx (c_sock s')" "session_id (header p) = take SESSION_ID_SIZE (ct_session_id task)"
    "tx (c_sock s') = tx (c_sock s)"
proof -
  obtain b s1 where b: "task_is_canceled s = (b, s1)" by (metis prod.collapse)
  obtain m s2 where m: "csys s1 = (m, s2)" by (metis prod.collapse)
  obtain r q k where q: "protocol_recv_packet e m (c_sock s2) = (r, q, k)" by (metis prod_cases3)
  have r: "r = 0" "p = q" "s' = s2\<lparr>c_sock := k\<rparr>" "session_id_equal (Some (session_id (header p))) (Some (ct_session_id task))"
    using assms b m q by (auto simp: task_recv_def Let_def split: if_splits)
  have "c_sock s2 = c_sock s" using task_is_canceled_frame [OF b] csys_frame [OF m] by simp
  with protocol_recv_packet_accepts [OF q [unfolded r(1)]] receivingD(1) [OF recv_packet_receiving [OF q]] r
  show "wf_packet p" "rx (c_sock s) = frame p @ rx (c_sock s')" "tx (c_sock s') = tx (c_sock s)"
    "session_id (header p) = take SESSION_ID_SIZE (ct_session_id task)"
    by (auto simp: session_id_equal_def wf_packet_def wf_session_id_def)
qed


lemma read_file_io:
  assumes "read_file f n k = (r, f', k')"
  shows "length (kio k') \<le> length (kio k)" "disk k' = disk k" "fpath f' = fpath f"
    "r = Read_Intr \<Longrightarrow> length (kio k') < length (kio k) \<and> f' = f" "set (kio k') \<subseteq> set (kio k)"
    "r = Read_Error \<Longrightarrow> Fail \<in> set (kio k)"
  using assms by (auto simp: read_file_def Let_def split: list.splits io.splits)

subsection \<open>The hash of a file\<close>

abbreviation "hash_measure f s \<equiv> length (kio (c_kern s)) + (length (file_data (c_kern s) (fpath f)) - fpos f)"

lemma hash_loop_intr:
  assumes "task_is_canceled s = (b, s1)" "read_file f n (c_kern s1) = (Read_Intr, f1, k)"
  shows "hash_measure f1 (s1\<lparr>c_kern := k\<rparr>) < hash_measure f s"
  using task_is_canceled_frame [OF assms(1)] read_file_io [OF assms(2)] by (simp add: file_data_def)

lemma hash_loop_bytes:
  assumes "task_is_canceled s = (b, s1)" "read_file f n (c_kern s1) = (Read_Bytes bs, f1, k)" "bs \<noteq> []"
    "csys (s1\<lparr>c_kern := k\<rparr>) = (u, s2)"
  shows "hash_measure f1 s2 < hash_measure f s"
proof -
  note c = task_is_canceled_frame [OF assms(1)] and r = read_file_io [OF assms(2)] and y = csys_frame [OF assms(4)]
  have "length (file_data k (fpath f1)) - fpos f1 < length (file_data (c_kern s1) (fpath f)) - fpos f"
    by (rule read_file_progress [OF assms(2,3)])
  moreover have "file_data (c_kern s2) (fpath f1) = file_data k (fpath f1)" using y by (simp add: file_data_def)
  ultimately show ?thesis using c r(1) y by simp
qed

text \<open>
  The loop of \<open>task_compute_sha256\<close>: all bytes that were read, or \<open>None\<close> after a failure or when canceled. The
  digest takes every block with a call of its own that may fail.
\<close>

function hash_loop :: "file_t \<Rightarrow> byte list \<Rightarrow> xfer_t \<Rightarrow> byte list option \<times> xfer_t" where
  "hash_loop f acc s =
     (case task_is_canceled s of (canceled, s1) \<Rightarrow>
        if canceled then (None, s1)
        else
          (case read_file f 65536 (c_kern s1) of
             (Read_Intr, f1, k) \<Rightarrow> hash_loop f1 acc (s1\<lparr>c_kern := k\<rparr>)
           | (Read_Error, f1, k) \<Rightarrow> (None, s1\<lparr>c_kern := k\<rparr>)
           | (Read_Bytes bs, f1, k) \<Rightarrow>
               if bs = [] then (Some acc, s1\<lparr>c_kern := k\<rparr>)
               else
                 (case csys (s1\<lparr>c_kern := k\<rparr>) of (update_ok, s2) \<Rightarrow>
                    if \<not> update_ok then (None, s2) else hash_loop f1 (acc @ bs) s2)))"
  by pat_completeness auto

termination
  by (relation "measure (\<lambda>(f, acc, s). hash_measure f s)")
    (auto dest: hash_loop_intr [OF sym sym] hash_loop_bytes [OF sym sym _ sym])

declare hash_loop.simps [simp del]

definition task_compute_sha256 :: "(byte list \<Rightarrow> byte list) \<Rightarrow> file_t \<Rightarrow> xfer_t \<Rightarrow> string option \<times> xfer_t" where
  "task_compute_sha256 sha256 f s =
     (let (sought, k) = lseek f 0 (c_kern s); s = s\<lparr>c_kern := k\<rparr>
      in case sought of
           None \<Rightarrow> (None, s)
         | Some f \<Rightarrow>
             (let (init_ok, s) = csys s
              in if \<not> init_ok then (None, s)
                 else
                   (case hash_loop f [] s of
                      (None, s) \<Rightarrow> (None, s)
                    | (Some bs, s) \<Rightarrow>
                        (let (final_ok, s) = csys s
                         in if \<not> final_ok \<or> length (sha256 bs) \<noteq> 32 then (None, s) else (Some (hex_of (sha256 bs)), s)))))"

subsection \<open>Upload\<close>

text \<open>The source is opened and the request made: lines up to the first packet.\<close>

definition upload_request ::
  "(byte list \<Rightarrow> byte list) \<Rightarrow> endian \<Rightarrow> client_task_t \<Rightarrow> xfer_t \<Rightarrow> xfer_t + file_t \<times> u64 \<times> byte list \<times> xfer_t" where
  "upload_request sha256 e task s =
     (let (fd, k) = open_read (ct_local_path task) (c_kern s); s = s\<lparr>c_kern := k\<rparr>
      in case fd of
           None \<Rightarrow> Inl s
         | Some f \<Rightarrow>
             (let (fstat_ok, s) = csys s
              in if \<not> fstat_ok then Inl s
                 else
                   (let file_size = word_of_nat (length (file_data (c_kern s) (ct_local_path task)))
                    in case copy_string PATH_MAX (ct_remote_path task) of
                         None \<Rightarrow> Inl s
                       | Some remote_path \<Rightarrow>
                           (case task_compute_sha256 sha256 f s of
                              (None, s) \<Rightarrow> Inl s
                            | (Some hex, s) \<Rightarrow>
                                (let (sought, k) = lseek f 0 (c_kern s); s = s\<lparr>c_kern := k\<rparr>
                                 in case sought of
                                      None \<Rightarrow> Inl s
                                    | Some f \<Rightarrow>
                                        Inr (f, file_size,
                                          store_upload_request e
                                            \<lparr>ur_remote_path = char_array PATH_MAX remote_path, ur_file_size = host_to_net_u64 e file_size,
                                             ur_sha256_hex = char_array 65 hex\<rparr>, s))))))"

text \<open>The position from which the server wants the file.\<close>

definition upload_resume :: "endian \<Rightarrow> client_task_t \<Rightarrow> u64 \<Rightarrow> byte list \<Rightarrow> xfer_t \<Rightarrow> xfer_t + u64 \<times> xfer_t" where
  "upload_resume e task file_size request s =
     (case task_send e task CMD_PUTS_REQ STATUS_OK (Some request) (word_of_nat UPLOAD_REQUEST_SIZE) s of (ret, s) \<Rightarrow>
        if ret \<noteq> 0 then Inl s
        else
          (case task_recv e task s of (ret, packet, s) \<Rightarrow>
             if ret \<noteq> 0 then Inl s
             else if ptype (header packet) \<noteq> CMD_PUTS_RESP \<or> status (header packet) \<noteq> STATUS_OK \<or>
                     unat (payload_len (header packet)) \<noteq> RESUME_SIZE
             then Inl s
             else
               (let offset = net_to_host_u64 e (rp_offset (load_resume e (the (payload packet))))
                in if offset > file_size then Inl (task_report_error e task STATUS_PROTOCOL_ERROR s) else Inr (offset, s))))"

lemma upload_loop_bytes:
  assumes "task_is_canceled s = (b, s1)" "read_file f n (c_kern s1) = (Read_Bytes bs, f1, k)" "bs \<noteq> []" "0 < m"
    "task_send e task type st pl plen (s1\<lparr>c_kern := k\<rparr>) = (ret, s2)"
  shows "(m - length bs) + length (kio (c_kern s2)) < m + length (kio (c_kern s))"
  using task_is_canceled_frame [OF assms(1)] read_file_io(1) [OF assms(2)] task_send_frame(1) [OF assms(5)] assms(3,4)
  by (cases bs) simp_all

lemma upload_loop_intr:
  assumes "task_is_canceled s = (b, s1)" "read_file f n (c_kern s1) = (Read_Intr, f1, k)"
  shows "length (kio k) < length (kio (c_kern s))"
  using task_is_canceled_frame [OF assms(1)] read_file_io(4) [OF assms(2)] by simp

text \<open>The loop that sends the rest of the file, in packets of at most \<open>FILE_CHUNK_SIZE\<close> bytes.\<close>

function upload_loop :: "endian \<Rightarrow> client_task_t \<Rightarrow> nat \<Rightarrow> file_t \<Rightarrow> xfer_t \<Rightarrow> xfer_t + xfer_t" where
  "upload_loop e task remaining f s =
     (if remaining = 0 then Inr s
      else
        (case task_is_canceled s of (canceled, s1) \<Rightarrow>
           if canceled then Inl s1
           else
             (case read_file f (min remaining (unat FILE_CHUNK_SIZE)) (c_kern s1) of
                (Read_Intr, f1, k) \<Rightarrow> upload_loop e task remaining f1 (s1\<lparr>c_kern := k\<rparr>)
              | (Read_Error, f1, k) \<Rightarrow> Inl (task_report_error e task STATUS_IO_ERROR (s1\<lparr>c_kern := k\<rparr>))
              | (Read_Bytes bs, f1, k) \<Rightarrow>
                  if bs = [] then Inl (task_report_error e task STATUS_IO_ERROR (s1\<lparr>c_kern := k\<rparr>))
                  else
                    (case task_send e task CMD_FILE_DATA STATUS_OK (Some bs) (word_of_nat (length bs)) (s1\<lparr>c_kern := k\<rparr>) of (ret, s2) \<Rightarrow>
                       if ret \<noteq> 0 then Inl s2 else upload_loop e task (remaining - length bs) f1 s2))))"
  by pat_completeness auto

termination
  by (relation "measure (\<lambda>(e, task, remaining, f, s). remaining + length (kio (c_kern s)))")
    (auto dest: upload_loop_intr [OF sym sym] upload_loop_bytes [OF sym sym _ _ sym])

declare upload_loop.simps [simp del]

text \<open>The server's last word.\<close>

definition await_ack :: "endian \<Rightarrow> client_task_t \<Rightarrow> xfer_t \<Rightarrow> int \<times> xfer_t" where
  "await_ack e task s =
     (case task_recv e task s of (ret, packet, s) \<Rightarrow>
        (if ret = 0 \<and> ptype (header packet) = CMD_ACK \<and> status (header packet) = STATUS_OK then 0 else - 1, s))"

definition run_upload :: "(byte list \<Rightarrow> byte list) \<Rightarrow> endian \<Rightarrow> client_task_t \<Rightarrow> xfer_t \<Rightarrow> int \<times> xfer_t" where
  "run_upload sha256 e task s =
     (case upload_request sha256 e task s of
        Inl s \<Rightarrow> (- 1, s)
      | Inr (f, file_size, request, s) \<Rightarrow>
     (case upload_resume e task file_size request s of
        Inl s \<Rightarrow> (- 1, s)
      | Inr (offset, s) \<Rightarrow>
          if offset = file_size then await_ack e task s
          else
            (let (sought, k) = lseek f (unat offset) (c_kern s); s = s\<lparr>c_kern := k\<rparr>
             in case sought of
                  None \<Rightarrow> (- 1, task_report_error e task STATUS_IO_ERROR s)
                | Some f \<Rightarrow>
                    (case upload_loop e task (unat (file_size - offset)) f s of
                       Inl s \<Rightarrow> (- 1, s)
                     | Inr s \<Rightarrow>
                         (case task_send e task CMD_FILE_END STATUS_OK None 0 s of (ret, s) \<Rightarrow>
                            if ret \<noteq> 0 then (- 1, s) else await_ack e task s)))))"

subsection \<open>Download\<close>

definition hash_matches :: "(byte list \<Rightarrow> byte list) \<Rightarrow> file_t \<Rightarrow> u64 \<Rightarrow> string \<Rightarrow> xfer_t \<Rightarrow> bool \<times> xfer_t" where
  "hash_matches sha256 f sz expected s =
     (let (fstat_ok, s) = csys s
      in if \<not> fstat_ok \<or> word_of_nat (length (file_data (c_kern s) (fpath f))) \<noteq> sz then (False, s)
         else (case task_compute_sha256 sha256 f s of
                 (None, s) \<Rightarrow> (False, s)
               | (Some actual, s) \<Rightarrow> (strcaseeq actual expected, s)))"

text \<open>The request and the server's description of the file: its size and its hash.\<close>

definition download_info :: "endian \<Rightarrow> client_task_t \<Rightarrow> xfer_t \<Rightarrow> xfer_t + u64 \<times> string \<times> xfer_t" where
  "download_info e task s =
     (case task_send e task CMD_GETS_REQ STATUS_OK (Some (bytes_of (ct_remote_path task))) (word_of_nat (length (ct_remote_path task))) s of (ret, s) \<Rightarrow>
        if ret \<noteq> 0 then Inl s
        else
          (case task_recv e task s of (ret, packet, s) \<Rightarrow>
             if ret \<noteq> 0 then Inl s
             else if ptype (header packet) \<noteq> CMD_GETS_RESP \<or> status (header packet) \<noteq> STATUS_OK \<or>
                     unat (payload_len (header packet)) \<noteq> FILE_INFO_SIZE
             then Inl s
             else
               (let info = load_file_info e (the (payload packet));
                    sha256_hex = cstr_of (take 64 (fi_sha256_hex info));
                    file_size = net_to_host_u64 e (fi_file_size info)
                in if \<not> utils_is_valid_sha256_hex (Some sha256_hex) then Inl (task_report_error e task STATUS_PROTOCOL_ERROR s)
                   else Inr (file_size, sha256_hex, s))))"

text \<open>The partial file and how much of it is there already.\<close>

definition open_part :: "endian \<Rightarrow> client_task_t \<Rightarrow> u64 \<Rightarrow> xfer_t \<Rightarrow> xfer_t + file_t \<times> u64 \<times> xfer_t" where
  "open_part e task file_size s =
     (let (fd, k) = open_create (ct_part_path task) (c_kern s); s = s\<lparr>c_kern := k\<rparr>
      in case fd of
           None \<Rightarrow> Inl (task_report_error e task STATUS_IO_ERROR s)
         | Some f \<Rightarrow>
             (let (fstat_ok, s) = csys s
              in if \<not> fstat_ok then Inl (task_report_error e task STATUS_IO_ERROR s)
                 else
                   (let offset = word_of_nat (length (file_data (c_kern s) (ct_part_path task)));
                        (cut, k) = (if offset > file_size then ftruncate f 0 (c_kern s) else (True, c_kern s));
                        s = s\<lparr>c_kern := k\<rparr>
                    in if \<not> cut then Inl (task_report_error e task STATUS_IO_ERROR s)
                       else
                         (let offset = (if offset > file_size then 0 else offset);
                              (sought, k) = lseek f (unat offset) (c_kern s); s = s\<lparr>c_kern := k\<rparr>
                          in case sought of
                               None \<Rightarrow> Inl (task_report_error e task STATUS_IO_ERROR s)
                             | Some f \<Rightarrow> Inr (f, offset, s)))))"

text \<open>The file to be completed: the target itself when it is whole already, otherwise the partial file.\<close>

definition download_open ::
  "(byte list \<Rightarrow> byte list) \<Rightarrow> endian \<Rightarrow> client_task_t \<Rightarrow> u64 \<Rightarrow> string \<Rightarrow> xfer_t \<Rightarrow> xfer_t + bool \<times> file_t \<times> u64 \<times> xfer_t" where
  "download_open sha256 e task file_size sha256_hex s =
     (let (fd, k) = open_read (ct_target_path task) (c_kern s); s = s\<lparr>c_kern := k\<rparr>;
          (whole, s) = (case fd of None \<Rightarrow> (False, s) | Some f \<Rightarrow> hash_matches sha256 f file_size sha256_hex s)
      in if whole then Inr (True, the fd, file_size, s)
         else map_sum id (\<lambda>(f, offset, s). (False, f, offset, s)) (open_part e task file_size s))"

text \<open>The loop that receives the missing bytes.\<close>

function download_loop :: "endian \<Rightarrow> client_task_t \<Rightarrow> u64 \<Rightarrow> u64 \<Rightarrow> file_t \<Rightarrow> xfer_t \<Rightarrow> xfer_t + file_t \<times> xfer_t" where
  "download_loop e task missing received f s =
     (if \<not> received < missing then Inr (f, s)
      else
        (case task_is_canceled s of (canceled, s0) \<Rightarrow>
           if canceled then Inl s0
           else
             (case task_recv e task s0 of (ret, packet, s1) \<Rightarrow>
                if ret \<noteq> 0 then Inl s1
                else if ptype (header packet) \<noteq> CMD_FILE_DATA \<or> status (header packet) \<noteq> STATUS_OK \<or> payload_len (header packet) = 0 \<or>
                        payload_len (header packet) > FILE_CHUNK_SIZE \<or> ucast (payload_len (header packet)) > missing - received
                then Inl (task_report_error e task STATUS_PROTOCOL_ERROR s1)
                else
                  (case write_n f (case payload packet of Some bs \<Rightarrow> take (unat (payload_len (header packet))) bs | None \<Rightarrow> []) (c_kern s1) of
                     (ret, f1, k) \<Rightarrow>
                       if ret \<noteq> 0 then Inl (task_report_error e task STATUS_IO_ERROR (s1\<lparr>c_kern := k\<rparr>))
                       else download_loop e task missing (received + ucast (payload_len (header packet))) f1 (s1\<lparr>c_kern := k\<rparr>)))))"
  by pat_completeness auto

termination
proof (relation "measure (\<lambda>(e, task, missing, received, f, s). length (rx (c_sock s)))", simp, clarsimp)
  fix e :: endian and task s s0 s1 packet
  assume c: "(False, s0) = task_is_canceled s" and r: "(0, packet, s1) = task_recv e task s0"
  note ok = task_recv_ok [OF r [symmetric]]
  show "length (rx (c_sock s1)) < length (rx (c_sock s))"
    using length_frame [OF ok(1)] ok(2) task_is_canceled_frame(1) [OF c [symmetric]] by auto
qed

declare download_loop.simps [simp del]

text \<open>The end of the data; a partial file is flushed, checked and given its final name.\<close>

definition download_finish ::
  "(byte list \<Rightarrow> byte list) \<Rightarrow> endian \<Rightarrow> client_task_t \<Rightarrow> bool \<Rightarrow> u64 \<Rightarrow> string \<Rightarrow> file_t \<Rightarrow> xfer_t \<Rightarrow> xfer_t + xfer_t" where
  "download_finish sha256 e task use_final file_size sha256_hex f s =
     (case task_recv e task s of (ret, packet, s) \<Rightarrow>
        if ret \<noteq> 0 then Inl s
        else if ptype (header packet) \<noteq> CMD_FILE_END \<or> status (header packet) \<noteq> STATUS_OK \<or> payload_len (header packet) \<noteq> 0
        then Inl (task_report_error e task STATUS_PROTOCOL_ERROR s)
        else if use_final then Inr s
        else
          (let (fsync_ok, s) = csys s;
               (good, s) = (if fsync_ok then hash_matches sha256 f file_size sha256_hex s else (False, s))
           in if \<not> good then Inl (task_report_error e task STATUS_PROTOCOL_ERROR s)
              else
                (let (renamed, k) = rename_file (ct_part_path task) (ct_target_path task) (c_kern s); s = s\<lparr>c_kern := k\<rparr>
                 in if \<not> renamed then Inl (task_report_error e task STATUS_IO_ERROR s) else Inr s)))"

definition run_download :: "(byte list \<Rightarrow> byte list) \<Rightarrow> endian \<Rightarrow> client_task_t \<Rightarrow> xfer_t \<Rightarrow> int \<times> xfer_t" where
  "run_download sha256 e task s =
     (case download_info e task s of
        Inl s \<Rightarrow> (- 1, s)
      | Inr (file_size, sha256_hex, s) \<Rightarrow>
     (case download_open sha256 e task file_size sha256_hex s of
        Inl s \<Rightarrow> (- 1, s)
      | Inr (use_final, f, offset, s) \<Rightarrow>
     (case task_send e task CMD_RESUME_POS STATUS_OK (Some (mem64 e (host_to_net_u64 e offset))) (word_of_nat RESUME_SIZE) s of (ret, s) \<Rightarrow>
        if ret \<noteq> 0 then (- 1, s)
        else
          (case download_loop e task (file_size - offset) 0 f s of
             Inl s \<Rightarrow> (- 1, s)
           | Inr (f, s) \<Rightarrow>
          (case download_finish sha256 e task use_final file_size sha256_hex f s of
             Inl s \<Rightarrow> (- 1, s)
           | Inr s \<Rightarrow>
               (case task_send e task CMD_ACK STATUS_OK None 0 s of (ret, s) \<Rightarrow> (if ret \<noteq> 0 then - 1 else 0, s)))))))"

end
