(* ===== verification/Client_Transfer_Correct.thy ===== *)
theory Client_Transfer_Correct
  imports Client_Transfer Streams Utils_Correct
begin

text \<open>
  Correctness of the client's transfers: what the hash functions compute, which files an operation touches, the
  packets an upload sends, and that a download puts only a verified file under its final name.
\<close>

subsection \<open>Hashes\<close>

lemma hash_loop_spec:
  assumes "hash_loop f acc s = (r, s')"
  shows "disk (c_kern s') = disk (c_kern s) \<and> c_sock s' = c_sock s \<and>
    (\<forall>bs. r = Some bs \<longrightarrow> bs = acc @ drop (fpos f) (file_data (c_kern s) (fpath f)))"
  using assms
proof (induction f acc s rule: hash_loop.induct)
  case (1 f acc s)
  obtain b s1 where b: "task_is_canceled s = (b, s1)" by (metis prod.collapse)
  obtain x f1 k where x: "read_file f 65536 (c_kern s1) = (x, f1, k)" by (metis prod_cases3)
  note c = task_is_canceled_frame [OF b] and io = read_file_io [OF x]
  show ?case
  proof (cases "b \<or> x = Read_Error")
    case True
    then show ?thesis using "1.prems" b x c io by (auto simp: hash_loop.simps [of f acc s] split: if_splits)
  next
    case go: False
    show ?thesis
    proof (cases x)
      case Read_Intr
      have "hash_loop f1 acc (s1\<lparr>c_kern := k\<rparr>) = (r, s')"
        using "1.prems" b x go Read_Intr by (simp add: hash_loop.simps [of f acc s])
      from "1.IH"(1) [OF b [symmetric] _ x [symmetric] Read_Intr refl this] go Read_Intr c io show ?thesis
        by (simp add: file_data_def)
    next
      case (Read_Bytes bs)
      note rb = read_file_bytes [OF x [unfolded Read_Bytes]]
      obtain u s2 where u: "csys (s1\<lparr>c_kern := k\<rparr>) = (u, s2)" by (metis prod.collapse)
      note uf = csys_frame [OF u]
      show ?thesis
      proof (cases "bs = [] \<or> \<not> u")
        case True
        then show ?thesis using "1.prems" b x go Read_Bytes c io u uf rb(8)
          by (auto simp: hash_loop.simps [of f acc s] split: if_splits)
      next
        case False
        have "hash_loop f1 (acc @ bs) s2 = (r, s')"
          using "1.prems" b x go Read_Bytes u False by (simp add: hash_loop.simps [of f acc s])
        from "1.IH"(2) [OF b [symmetric] _ x [symmetric] Read_Bytes refl _ u [symmetric] _ this] go False
        have ih: "disk (c_kern s') = disk (c_kern s2) \<and> c_sock s' = c_sock s2 \<and>
          (\<forall>ds. r = Some ds \<longrightarrow> ds = (acc @ bs) @ drop (fpos f1) (file_data (c_kern s2) (fpath f1)))" by auto
        have "file_data (c_kern s2) (fpath f1) = file_data (c_kern s) (fpath f)"
          using uf c io by (simp add: file_data_def)
        moreover have "bs @ drop (fpos f + length bs) d = drop (fpos f) d" if "bs = take (length bs) (drop (fpos f) d)" for d
          by (metis append_take_drop_id drop_drop add.commute that)
        ultimately show ?thesis using ih uf c io rb(1,4) by auto
      qed
    qed (use go in simp)
  qed
qed

lemma task_compute_sha256_spec:
  assumes "task_compute_sha256 sha256 f s = (r, s')"
  shows "disk (c_kern s') = disk (c_kern s)" "c_sock s' = c_sock s"
    "r = Some hex \<Longrightarrow> hex = hex_of (sha256 (file_data (c_kern s) (fpath f))) \<and> length (sha256 (file_data (c_kern s) (fpath f))) = 32"
proof -
  obtain g k where g: "lseek f 0 (c_kern s) = (g, k)" by (metis prod.collapse)
  obtain i s1 where i: "csys (s\<lparr>c_kern := k\<rparr>) = (i, s1)" by (metis prod.collapse)
  obtain h s2 where h: "hash_loop (f\<lparr>fpos := 0\<rparr>) [] s1 = (h, s2)" by (metis prod.collapse)
  obtain j s3 where j: "csys s2 = (j, s3)" by (metis prod.collapse)
  note fr = lseek_frame [OF g] csys_frame [OF i] csys_frame [OF j]
  have hl: "disk (c_kern s2) = disk (c_kern s1)" "c_sock s2 = c_sock s1"
    "\<And>bs. h = Some bs \<Longrightarrow> bs = file_data (c_kern s1) (fpath f)"
    using hash_loop_spec [OF h] by auto
  have d: "file_data (c_kern s1) (fpath f) = file_data (c_kern s) (fpath f)" using fr by (simp add: file_data_def)
  show "disk (c_kern s') = disk (c_kern s)" "c_sock s' = c_sock s"
    "r = Some hex \<Longrightarrow> hex = hex_of (sha256 (file_data (c_kern s) (fpath f))) \<and> length (sha256 (file_data (c_kern s) (fpath f))) = 32"
    using assms g i h j fr hl d by (auto simp: task_compute_sha256_def Let_def split: if_splits option.splits)
qed

lemma hash_matches_spec:
  assumes "hash_matches sha256 f sz expected s = (b, s')"
  shows "disk (c_kern s') = disk (c_kern s)" "c_sock s' = c_sock s"
    "b \<Longrightarrow> word_of_nat (length (file_data (c_kern s) (fpath f))) = sz \<and> strcaseeq (hex_of (sha256 (file_data (c_kern s) (fpath f)))) expected"
proof -
  obtain i s1 where i: "csys s = (i, s1)" by (metis prod.collapse)
  obtain h s2 where h: "task_compute_sha256 sha256 f s1 = (h, s2)" by (metis prod.collapse)
  note fr = csys_frame [OF i] task_compute_sha256_spec [OF h]
  have d: "file_data (c_kern s1) (fpath f) = file_data (c_kern s) (fpath f)" using fr by (simp add: file_data_def)
  show "disk (c_kern s') = disk (c_kern s)" "c_sock s' = c_sock s"
    "b \<Longrightarrow> word_of_nat (length (file_data (c_kern s) (fpath f))) = sz \<and> strcaseeq (hex_of (sha256 (file_data (c_kern s) (fpath f)))) expected"
    using assms i h fr d by (auto simp: hash_matches_def Let_def split: if_splits option.splits)
qed

subsection \<open>Downloads touch two files and publish verified contents\<close>

text \<open>A packet that announces a file of this size with this hash.\<close>

definition announces :: "endian \<Rightarrow> packet_t \<Rightarrow> u64 \<Rightarrow> string \<Rightarrow> bool" where
  "announces e p sz hex \<longleftrightarrow>
     wf_packet p \<and> ptype (header p) = CMD_GETS_RESP \<and> status (header p) = STATUS_OK \<and> unat (payload_len (header p)) = FILE_INFO_SIZE \<and>
     sz = net_to_host_u64 e (fi_file_size (load_file_info e (the (payload p)))) \<and>
     hex = cstr_of (take 64 (fi_sha256_hex (load_file_info e (the (payload p)))))"

lemma download_info_spec:
  shows "download_info e task s = Inl s' \<Longrightarrow> disk (c_kern s') = disk (c_kern s)"
    "download_info e task s = Inr (sz, hex, s') \<Longrightarrow>
      disk (c_kern s') = disk (c_kern s) \<and> (\<exists>p. announces e p sz hex \<and> rx (c_sock s) = frame p @ rx (c_sock s'))"
proof -
  obtain r1 s1 where t: "task_send e task CMD_GETS_REQ STATUS_OK (Some (bytes_of (ct_remote_path task)))
    (word_of_nat (length (ct_remote_path task))) s = (r1, s1)" by (metis prod.collapse)
  obtain r2 p s2 where v: "task_recv e task s1 = (r2, p, s2)" by (metis prod_cases3)
  note f = task_send_frame [OF t] task_recv_frame [OF v]
  show "download_info e task s = Inl s' \<Longrightarrow> disk (c_kern s') = disk (c_kern s)"
    using t v f by (auto simp: download_info_def Let_def split: if_splits)
  assume "download_info e task s = Inr (sz, hex, s')"
  then have r: "r2 = 0" "s' = s2" and h: "announces e p sz hex" if "wf_packet p"
    using t v that by (auto simp: download_info_def announces_def Let_def split: if_splits)
  have "r2 = 0" "s' = s2" using \<open>download_info e task s = Inr (sz, hex, s')\<close> t v
    by (auto simp: download_info_def Let_def split: if_splits)
  with task_recv_ok [of e task s1 p s2] v h f
  show "disk (c_kern s') = disk (c_kern s) \<and> (\<exists>p. announces e p sz hex \<and> rx (c_sock s) = frame p @ rx (c_sock s'))"
    by auto
qed

lemma open_part_spec:
  assumes "length (file_data (c_kern s) (ct_part_path task)) < 2 ^ 64"
  shows "open_part e task sz s = Inl s' \<Longrightarrow> changes_only {ct_part_path task} (c_kern s) (c_kern s')"
    "open_part e task sz s = Inr (f, off, s') \<Longrightarrow>
      changes_only {ct_part_path task} (c_kern s) (c_kern s') \<and> c_sock s' = c_sock s \<and> f = \<lparr>fpath = ct_part_path task, fpos = unat off\<rparr> \<and>
      unat off = length (file_data (c_kern s') (ct_part_path task)) \<and> off \<le> sz \<and>
      (let d = file_data (c_kern s) (ct_part_path task)
       in disk (c_kern s') (ct_part_path task) = Some (if length d \<le> unat sz then d else []))"
proof -
  let ?p = "ct_part_path task"
  let ?d = "file_data (c_kern s) ?p"
  obtain fd k where o: "open_create ?p (c_kern s) = (fd, k)" by (metis prod.collapse)
  obtain b s1 where b: "csys (s\<lparr>c_kern := k\<rparr>) = (b, s1)" by (metis prod.collapse)
  let ?off = "word_of_nat (length (file_data (c_kern s1) ?p)) :: u64"
  let ?f = "\<lparr>fpath = ?p, fpos = 0\<rparr>"
  obtain cut k2 where c: "(if ?off > sz then ftruncate ?f 0 (c_kern s1) else (True, c_kern s1)) = (cut, k2)" by (metis prod.collapse)
  let ?off2 = "if ?off > sz then 0 else ?off"
  obtain g k3 where l: "lseek ?f (unat ?off2) k2 = (g, k3)" by (metis prod.collapse)
  note of = open_create_disk [OF o] and bf = csys_frame [OF b] and lf = lseek_frame [OF l]
  have cf: "changes_only {?p} (c_kern s1) k2" using c ftruncate_disk(1) [of ?f 0 "c_kern s1"]
    by (auto simp: changes_only_same split: if_splits)
  have ch: "changes_only {?p} (c_kern s) k" "changes_only {?p} (c_kern s) (c_kern s1)" "changes_only {?p} (c_kern s) k2"
      "changes_only {?p} (c_kern s) k3"
    using of(1) bf cf lf changes_only_trans changes_only_same by (auto simp: changes_only_def)
  show "open_part e task sz s = Inl s' \<Longrightarrow> changes_only {?p} (c_kern s) (c_kern s')"
    using o b c l ch of(2) lf(3) by (auto simp: open_part_def Let_def split: option.splits if_splits)
  assume "open_part e task sz s = Inr (f, off, s')"
  then have r: "fd = Some ?f" "cut" "f = ?f\<lparr>fpos := unat ?off2\<rparr>" "off = ?off2" "s' = s1\<lparr>c_kern := k3\<rparr>"
    using o b c l of(2) lf(3) by (auto simp: open_part_def Let_def split: option.splits if_splits)
  have d1: "disk (c_kern s1) ?p = Some ?d" "file_data (c_kern s1) ?p = ?d"
    using of(2) [OF r(1)] bf by (simp_all add: file_data_def)
  have u: "unat ?off = length ?d" using assms d1 by (simp add: unat_of_nat)
  have gt: "?off > sz \<longleftrightarrow> \<not> length ?d \<le> unat sz" using u by (simp add: word_less_nat_alt not_le)
  have d2: "disk k2 ?p = Some (if length ?d \<le> unat sz then ?d else [])"
    using c r(2) d1 gt ftruncate_disk(2) [of ?f 0 "c_kern s1" cut k2] by (auto split: if_splits)
  then have fd2: "file_data k3 ?p = (if length ?d \<le> unat sz then ?d else [])" using lf(1) by (simp add: file_data_def)
  have "c_sock s' = c_sock s" using r(5) bf by simp
  moreover have "unat off = length (file_data k3 ?p)" using r(4) u gt fd2 by auto
  moreover have "off \<le> sz" using r(4) by (auto simp: not_less)
  ultimately show "changes_only {?p} (c_kern s) (c_kern s') \<and> c_sock s' = c_sock s \<and> f = \<lparr>fpath = ?p, fpos = unat off\<rparr> \<and>
      unat off = length (file_data (c_kern s') ?p) \<and> off \<le> sz \<and>
      (let d = ?d in disk (c_kern s') ?p = Some (if length d \<le> unat sz then d else []))"
    using ch(4) r d2 lf(1) by (simp add: Let_def)
qed

text \<open>
  What the receive loop has done on every return: only its file has changed, and when it is done the stream held
  data packets whose payloads are what is now in the file from the old position on.
\<close>

definition received_data :: "client_task_t \<Rightarrow> u64 \<Rightarrow> u64 \<Rightarrow> file_t \<Rightarrow> xfer_t \<Rightarrow> xfer_t + file_t \<times> xfer_t \<Rightarrow> bool" where
  "received_data task missing received f s res \<longleftrightarrow>
     (\<forall>s'. res = Inl s' \<longrightarrow> changes_only {fpath f} (c_kern s) (c_kern s')) \<and>
     (\<forall>f' s'. res = Inr (f', s') \<longrightarrow>
        changes_only {fpath f} (c_kern s) (c_kern s') \<and> fpath f' = fpath f \<and> tx (c_sock s') = tx (c_sock s) \<and>
        (\<exists>cs. (\<forall>c \<in> set cs. ok_chunk c) \<and> rx (c_sock s) = data_stream (ct_session_id task) cs @ rx (c_sock s') \<and>
          unat received + length (concat cs) = unat missing \<and>
          disk (c_kern s') (fpath f) = Some (put_bytes (fpos f) (concat cs) (file_data (c_kern s) (fpath f)))))"

lemma received_dataD:
  assumes "received_data task missing received f s res"
  shows "res = Inl s' \<Longrightarrow> changes_only {fpath f} (c_kern s) (c_kern s')"
    "res = Inr (f', s') \<Longrightarrow> changes_only {fpath f} (c_kern s) (c_kern s') \<and> fpath f' = fpath f"
  using assms unfolding received_data_def by blast+

lemma received_data_done:
  assumes "fpos f \<le> length (file_data (c_kern s) (fpath f))" "disk (c_kern s) (fpath f) \<noteq> None" "received = missing"
  shows "received_data task missing received f s (Inr (f, s))"
  using assms by (auto simp: received_data_def changes_only_same file_data_def intro!: exI [of _ "[]"])

lemma received_data_stop:
  "changes_only {fpath f} (c_kern s) (c_kern s') \<Longrightarrow> received_data task missing received f s (Inl s')"
  by (simp add: received_data_def)

text \<open>One more packet in front.\<close>

lemma received_data_step:
  assumes "received_data task missing received1 f1 s1 res"
    and "fpath f1 = fpath f" "fpos f1 = fpos f + length c" "ok_chunk c" "unat received1 = unat received + length c"
    and "rx (c_sock s) = frame (data_packet (ct_session_id task) c) @ rx (c_sock s1)" "tx (c_sock s1) = tx (c_sock s)"
    and "disk (c_kern s1) = (disk (c_kern s))(fpath f \<mapsto> put_bytes (fpos f) c (file_data (c_kern s) (fpath f)))"
  shows "received_data task missing received f s res"
proof -
  have ch: "changes_only {fpath f} (c_kern s) (c_kern s1)" using assms(8) by (simp add: changes_only_def)
  have fd: "file_data (c_kern s1) (fpath f) = put_bytes (fpos f) c (file_data (c_kern s) (fpath f))"
    using assms(8) by (simp add: file_data_def)
  have "\<exists>cs. (\<forall>c \<in> set cs. ok_chunk c) \<and> rx (c_sock s) = data_stream (ct_session_id task) cs @ rx (c_sock s') \<and>
      unat received + length (concat cs) = unat missing \<and>
      disk (c_kern s') (fpath f) = Some (put_bytes (fpos f) (concat cs) (file_data (c_kern s) (fpath f)))"
    if res: "res = Inr (f', s')" for f' s'
  proof -
    obtain cs where "\<forall>c \<in> set cs. ok_chunk c" "rx (c_sock s1) = data_stream (ct_session_id task) cs @ rx (c_sock s')"
        "unat received1 + length (concat cs) = unat missing"
        "disk (c_kern s') (fpath f1) = Some (put_bytes (fpos f1) (concat cs) (file_data (c_kern s1) (fpath f1)))"
      using assms(1) res by (auto simp: received_data_def)
    then show ?thesis using assms(2-6) fd by (intro exI [of _ "c # cs"]) (simp add: put_bytes_append)
  qed
  then show ?thesis
    using assms(1,2,7) changes_only_trans [OF ch] unfolding received_data_def by (metis (no_types, lifting))
qed

lemma download_loop_spec:
  assumes "wf_session_id (ct_session_id task)" "received \<le> missing" "fpos f \<le> length (file_data (c_kern s) (fpath f))"
    "disk (c_kern s) (fpath f) \<noteq> None" "fpos f = base + unat received" "base + unat missing < 2 ^ 64"
  shows "received_data task missing received f s (download_loop e task missing received f s)"
  using assms
proof (induction e task missing received f s rule: download_loop.induct)
  case (1 e task missing received f s)
  show ?case
  proof (cases "received < missing")
    case False
    then have "download_loop e task missing received f s = Inr (f, s)"
      by (simp add: download_loop.simps [of e task missing received f s])
    then show ?thesis using received_data_done [OF "1.prems"(3,4)] False "1.prems"(2) by simp
  next
    case more: True
    obtain b s0 where b: "task_is_canceled s = (b, s0)" by (metis prod.collapse)
    obtain r p s1 where r: "task_recv e task s0 = (r, p, s1)" by (metis prod_cases3)
    note fr = task_is_canceled_frame [OF b] task_recv_frame [OF r]
    obtain w f1 k where w: "write_n f (case payload p of Some bs \<Rightarrow> take (unat (payload_len (header p))) bs | None \<Rightarrow> []) (c_kern s1) = (w, f1, k)"
      by (metis prod_cases3)
    let ?bad = "ptype (header p) \<noteq> CMD_FILE_DATA \<or> status (header p) \<noteq> STATUS_OK \<or> payload_len (header p) = 0 \<or>
                payload_len (header p) > FILE_CHUNK_SIZE \<or> ucast (payload_len (header p)) > missing - received"
    have data: "file_data (c_kern s1) (fpath f) = file_data (c_kern s) (fpath f)" using fr by (simp add: file_data_def)
    have pos: "fpos f \<le> length (file_data (c_kern s1) (fpath f))" using "1.prems"(3) data by simp
    have stop: "changes_only {fpath f} (c_kern s) (c_kern s0)" "changes_only {fpath f} (c_kern s) (c_kern s1)"
        "changes_only {fpath f} (c_kern s) k"
      using fr write_n_spec(6) [OF w pos] by (auto simp: changes_only_def)
    show ?thesis
    proof (cases "b \<or> r \<noteq> 0 \<or> ?bad \<or> w \<noteq> 0")
      case True
      then show ?thesis using more b r w stop
        by (auto simp: download_loop.simps [of e task missing received f s] received_data_stop)
    next
      case go: False
      have ok: "wf_packet p" "rx (c_sock s) = frame p @ rx (c_sock s1)" "tx (c_sock s1) = tx (c_sock s)" "session_id (header p) = ct_session_id task"
        using task_recv_ok [of e task s0 p s1] r go fr "1.prems"(1) by (auto simp: wf_session_id_def)
      have h: "payload_len (header p) \<noteq> 0" "payload_len (header p) \<le> FILE_CHUNK_SIZE"
          "ucast (payload_len (header p)) \<le> missing - received"
        and w0: "write_n f (case payload p of Some bs \<Rightarrow> take (unat (payload_len (header p))) bs | None \<Rightarrow> []) (c_kern s1) = (0, f1, k)"
        using go w by auto
      obtain c where c: "payload p = Some c" "ok_chunk c" "fpath f1 = fpath f"
          "unat (received + ucast (payload_len (header p))) = unat received + length c"
          "received + ucast (payload_len (header p)) \<le> missing" "fpos f1 = base + unat (received + ucast (payload_len (header p)))"
          "disk k = (disk (c_kern s1))(fpath f \<mapsto> put_bytes (fpos f) c (file_data (c_kern s1) (fpath f)))"
          "fpos f1 \<le> length (file_data k (fpath f1))"
        by (rule data_step [OF ok(1) h "1.prems"(2,5) pos "1.prems"(6) w0])
      have fp: "frame p = frame (data_packet (ct_session_id task) c)"
        using data_packet_unique [OF ok(1) _ _ ok(4) c(1)] go ok_chunk_length [OF c(2)] by auto
      have "received_data task missing (received + ucast (payload_len (header p))) f1 (s1\<lparr>c_kern := k\<rparr>)
        (download_loop e task missing (received + ucast (payload_len (header p))) f1 (s1\<lparr>c_kern := k\<rparr>))"
        using "1.IH" [OF _ b [symmetric] _ r [symmetric] refl _ _ w [symmetric] refl _ "1.prems"(1) c(5) _ _ c(6) "1.prems"(6)] more go c(3,7,8)
        by simp
      then have "received_data task missing received f s
        (download_loop e task missing (received + ucast (payload_len (header p))) f1 (s1\<lparr>c_kern := k\<rparr>))"
        using received_data_step [of task missing _ f1 "s1\<lparr>c_kern := k\<rparr>"] c fp ok fr data "1.prems"(5) by auto
      then show ?thesis using more b r w go by (simp add: download_loop.simps [of e task missing received f s])
    qed
  qed
qed

text \<open>The file that a download completes: the target when it has the announced size and hash, or the partial file.\<close>

definition good_file :: "(byte list \<Rightarrow> byte list) \<Rightarrow> u64 \<Rightarrow> string \<Rightarrow> byte list option \<Rightarrow> bool" where
  "good_file sha256 sz hex d \<longleftrightarrow>
     (case d of None \<Rightarrow> False | Some bs \<Rightarrow> word_of_nat (length bs) = sz \<and> strcaseeq (hex_of (sha256 bs)) hex)"

lemma download_open_spec:
  assumes "length (file_data (c_kern s) (ct_part_path task)) < 2 ^ 64"
  shows "download_open sha256 e task sz hex s = Inl s' \<Longrightarrow> changes_only {ct_part_path task} (c_kern s) (c_kern s')"
    "download_open sha256 e task sz hex s = Inr (True, f, off, s') \<Longrightarrow>
      disk (c_kern s') = disk (c_kern s) \<and> c_sock s' = c_sock s \<and> off = sz \<and> good_file sha256 sz hex (disk (c_kern s) (ct_target_path task))"
    "download_open sha256 e task sz hex s = Inr (False, f, off, s') \<Longrightarrow>
      changes_only {ct_part_path task} (c_kern s) (c_kern s') \<and> c_sock s' = c_sock s \<and> f = \<lparr>fpath = ct_part_path task, fpos = unat off\<rparr> \<and>
      unat off = length (file_data (c_kern s') (ct_part_path task)) \<and> off \<le> sz \<and>
      (let d = file_data (c_kern s) (ct_part_path task)
       in disk (c_kern s') (ct_part_path task) = Some (if length d \<le> unat sz then d else []))"
proof -
  obtain fd k where o: "open_read (ct_target_path task) (c_kern s) = (fd, k)" by (metis prod.collapse)
  obtain b s1 where b: "(case fd of None \<Rightarrow> (False, s\<lparr>c_kern := k\<rparr>) | Some f \<Rightarrow> hash_matches sha256 f sz hex (s\<lparr>c_kern := k\<rparr>)) = (b, s1)"
    by (metis prod.collapse)
  note of = open_read_disk [OF o]
  have s1: "disk (c_kern s1) = disk (c_kern s)" "c_sock s1 = c_sock s"
    using b of hash_matches_spec(1,2) [of sha256 _ sz hex "s\<lparr>c_kern := k\<rparr>"] by (auto split: option.splits)
  have good: "good_file sha256 sz hex (disk (c_kern s) (ct_target_path task))" if whole: "b"
  proof -
    obtain f where f: "fd = Some f" using b whole by (auto split: option.splits)
    with b whole have "hash_matches sha256 f sz hex (s\<lparr>c_kern := k\<rparr>) = (True, s1)" by simp
    from hash_matches_spec(3) [OF this] of(2) [OF f] of(1) show ?thesis by (auto simp: good_file_def file_data_def)
  qed
  have part: "length (file_data (c_kern s1) (ct_part_path task)) < 2 ^ 64" "file_data (c_kern s1) (ct_part_path task) = file_data (c_kern s) (ct_part_path task)"
    using assms s1 by (simp_all add: file_data_def)
  note op = open_part_spec [OF part(1)]
  show "download_open sha256 e task sz hex s = Inl s' \<Longrightarrow> changes_only {ct_part_path task} (c_kern s) (c_kern s')"
    using o b op(1) [of e sz s'] s1(1)
    by (cases "open_part e task sz s1") (auto simp: download_open_def changes_only_def split: if_splits)
  show "download_open sha256 e task sz hex s = Inr (True, f, off, s') \<Longrightarrow>
      disk (c_kern s') = disk (c_kern s) \<and> c_sock s' = c_sock s \<and> off = sz \<and> good_file sha256 sz hex (disk (c_kern s) (ct_target_path task))"
    using o b s1 good by (cases "open_part e task sz s1") (auto simp: download_open_def split: if_splits)
  show "download_open sha256 e task sz hex s = Inr (False, f, off, s') \<Longrightarrow>
      changes_only {ct_part_path task} (c_kern s) (c_kern s') \<and> c_sock s' = c_sock s \<and> f = \<lparr>fpath = ct_part_path task, fpos = unat off\<rparr> \<and>
      unat off = length (file_data (c_kern s') (ct_part_path task)) \<and> off \<le> sz \<and>
      (let d = file_data (c_kern s) (ct_part_path task)
       in disk (c_kern s') (ct_part_path task) = Some (if length d \<le> unat sz then d else []))"
    using o b op(2) [of e sz f off s'] s1 part(2)
    by (cases "open_part e task sz s1") (auto simp: download_open_def changes_only_def Let_def split: if_splits)
qed

lemma download_finish_spec:
  shows "download_finish sha256 e task fin sz hex f s = Inl s' \<Longrightarrow> disk (c_kern s') = disk (c_kern s)"
    "download_finish sha256 e task True sz hex f s = Inr s' \<Longrightarrow> disk (c_kern s') = disk (c_kern s)"
    "download_finish sha256 e task False sz hex f s = Inr s' \<Longrightarrow> fpath f = ct_part_path task \<Longrightarrow>
      disk (c_kern s') = ((disk (c_kern s))(ct_part_path task := None))(ct_target_path task := disk (c_kern s) (ct_part_path task)) \<and>
      good_file sha256 sz hex (disk (c_kern s) (ct_part_path task))"
proof -
  obtain r p s1 where r: "task_recv e task s = (r, p, s1)" by (metis prod_cases3)
  obtain y s2 where y: "csys s1 = (y, s2)" by (metis prod.collapse)
  obtain g s3 where g: "(if y then hash_matches sha256 f sz hex s2 else (False, s2)) = (g, s3)" by (metis prod.collapse)
  obtain n k where n: "rename_file (ct_part_path task) (ct_target_path task) (c_kern s3) = (n, k)" by (metis prod.collapse)
  have fr: "disk (c_kern s1) = disk (c_kern s)" "disk (c_kern s2) = disk (c_kern s)" "disk (c_kern s3) = disk (c_kern s)"
    using task_recv_frame [OF r] csys_frame [OF y] g hash_matches_spec(1) [of sha256 f sz hex s2] by (auto split: if_splits)
  note rn = rename_file_disk [OF n]
  show "download_finish sha256 e task fin sz hex f s = Inl s' \<Longrightarrow> disk (c_kern s') = disk (c_kern s)"
    using r y g n fr rn(2) by (auto simp: download_finish_def Let_def split: if_splits)
  show "download_finish sha256 e task True sz hex f s = Inr s' \<Longrightarrow> disk (c_kern s') = disk (c_kern s)"
    using r fr by (auto simp: download_finish_def split: if_splits)
  assume h: "download_finish sha256 e task False sz hex f s = Inr s'" "fpath f = ct_part_path task"
  then have q: "y" "g" "n" "s' = s3\<lparr>c_kern := k\<rparr>" using r y g n by (auto simp: download_finish_def Let_def split: if_splits)
  then have "hash_matches sha256 f sz hex s2 = (True, s3)" using g by simp
  from hash_matches_spec(3) [OF this] q rn(1) fr h(2)
  show "disk (c_kern s') = ((disk (c_kern s))(ct_part_path task := None))(ct_target_path task := disk (c_kern s) (ct_part_path task)) \<and>
      good_file sha256 sz hex (disk (c_kern s) (ct_part_path task))"
    by (auto simp: good_file_def file_data_def split: option.splits)
qed

text \<open>A download from the announcement on, for a file of the announced size and hash.\<close>

lemma download_rest_spec:
  assumes "download_open sha256 e task sz hex s = Inr (fin, f, off, s1)"
    and "task_send e task CMD_RESUME_POS STATUS_OK (Some (mem64 e (host_to_net_u64 e off))) (word_of_nat RESUME_SIZE) s1 = (r, s2)"
    and "length (file_data (c_kern s) (ct_part_path task)) < 2 ^ 64" "wf_session_id (ct_session_id task)"
  defines "P \<equiv> {ct_part_path task}" and "res \<equiv> download_loop e task (sz - off) 0 f s2"
  shows "changes_only P (c_kern s) (c_kern s2)" "res = Inl s3 \<Longrightarrow> changes_only P (c_kern s) (c_kern s3)"
    "res = Inr (f', s3) \<Longrightarrow> changes_only P (c_kern s) (c_kern s3) \<and>
      (if fin then disk (c_kern s3) = disk (c_kern s) \<and> good_file sha256 sz hex (disk (c_kern s) (ct_target_path task))
       else fpath f' = ct_part_path task)"
proof -
  note fr = task_send_frame(1) [OF assms(2)] and op = download_open_spec [OF assms(3), of sha256 e sz hex]
  have all: "changes_only P (c_kern s) (c_kern s2) \<and> (\<forall>s3. res = Inl s3 \<longrightarrow> changes_only P (c_kern s) (c_kern s3)) \<and>
    (\<forall>f' s3. res = Inr (f', s3) \<longrightarrow> changes_only P (c_kern s) (c_kern s3) \<and>
      (if fin then disk (c_kern s3) = disk (c_kern s) \<and> good_file sha256 sz hex (disk (c_kern s) (ct_target_path task))
       else fpath f' = ct_part_path task))"
  proof (cases fin)
    case True
    then have o: "disk (c_kern s1) = disk (c_kern s)" "off = sz" "good_file sha256 sz hex (disk (c_kern s) (ct_target_path task))"
      using op(2) [of f off s1] assms(1) by auto
    then have "res = Inr (f, s2)" by (simp add: res_def download_loop.simps [of e task 0 0 f s2])
    with o fr True show ?thesis by (auto simp: changes_only_def)
  next
    case False
    then have o: "changes_only P (c_kern s) (c_kern s1)" "f = \<lparr>fpath = ct_part_path task, fpos = unat off\<rparr>"
        "unat off = length (file_data (c_kern s1) (ct_part_path task))" "off \<le> sz" "disk (c_kern s1) (ct_part_path task) \<noteq> None"
      using op(3) [of f off s1] assms(1) by (auto simp: P_def Let_def)
    have size: "unat off + unat (sz - off) < 2 ^ 64"
      using o(4) unsigned_less [of sz] by (simp add: unat_sub word_le_nat_alt)
    have rd: "received_data task (sz - off) 0 f s2 res"
      unfolding res_def by (rule download_loop_spec [of task 0 "sz - off" f s2 "unat off"]) (use assms(4) o fr size in simp_all)
    have "changes_only P (c_kern s) k" if "changes_only {fpath f} (c_kern s2) k" for k
      using o(1,2) fr that unfolding changes_only_def P_def by simp
    with received_dataD [OF rd] show ?thesis using o(1,2) fr False by (auto simp: P_def)
  qed
  then show "changes_only P (c_kern s) (c_kern s2)" "res = Inl s3 \<Longrightarrow> changes_only P (c_kern s) (c_kern s3)"
    "res = Inr (f', s3) \<Longrightarrow> changes_only P (c_kern s) (c_kern s3) \<and>
      (if fin then disk (c_kern s3) = disk (c_kern s) \<and> good_file sha256 sz hex (disk (c_kern s) (ct_target_path task))
       else fpath f' = ct_part_path task)"
    by blast+
qed

text \<open>The two ways in which a download leaves the disk.\<close>

definition download_outcome :: "(byte list \<Rightarrow> byte list) \<Rightarrow> endian \<Rightarrow> client_task_t \<Rightarrow> xfer_t \<Rightarrow> int \<Rightarrow> xfer_t \<Rightarrow> bool" where
  "download_outcome sha256 e task s ret s' \<longleftrightarrow>
     changes_only {ct_part_path task, ct_target_path task} (c_kern s) (c_kern s') \<and>
     (ret = 0 \<or> disk (c_kern s') (ct_target_path task) \<noteq> disk (c_kern s) (ct_target_path task) \<longrightarrow>
        (\<exists>p rest sz hex. rx (c_sock s) = frame p @ rest \<and> announces e p sz hex \<and>
           good_file sha256 sz hex (disk (c_kern s') (ct_target_path task))))"

lemma download_outcome_fail:
  assumes "changes_only {ct_part_path task} (c_kern s) (c_kern s')" "ct_part_path task \<noteq> ct_target_path task"
  shows "download_outcome sha256 e task s (- 1) s'"
  using assms by (simp add: download_outcome_def changes_only_def)

lemma run_download_outcome:
  assumes "run_download sha256 e task s = (ret, s')" "ct_part_path task \<noteq> ct_target_path task"
    "length (file_data (c_kern s) (ct_part_path task)) < 2 ^ 64" "wf_session_id (ct_session_id task)"
  shows "download_outcome sha256 e task s ret s'"
proof (cases "download_info e task s")
  case (Inl s1)
  then show ?thesis using assms(1,2) download_info_spec(1) [OF Inl]
    by (auto simp: run_download_def intro: download_outcome_fail changes_only_same)
next
  case (Inr x)
  obtain sz hex s1 where x: "x = (sz, hex, s1)" by (metis prod_cases3)
  from download_info_spec(2) [OF Inr [unfolded x]] obtain p where
    i: "disk (c_kern s1) = disk (c_kern s)" "announces e p sz hex" "rx (c_sock s) = frame p @ rx (c_sock s1)" by auto
  have part: "length (file_data (c_kern s1) (ct_part_path task)) < 2 ^ 64" using assms(3) i(1) by (simp add: file_data_def)
  have ch: "changes_only {ct_part_path task} (c_kern s) k" if "changes_only {ct_part_path task} (c_kern s1) k" for k
    using that i(1) by (simp add: changes_only_def)
  show ?thesis
  proof (cases "download_open sha256 e task sz hex s1")
    case (Inl s2)
    then show ?thesis using assms(1,2) Inr x ch [OF download_open_spec(1) [OF part Inl]]
      by (auto simp: run_download_def intro: download_outcome_fail)
  next
    case (Inr y)
    obtain fin f off s2 where y: "y = (fin, f, off, s2)" by (metis prod_cases4)
    obtain r s3 where r: "task_send e task CMD_RESUME_POS STATUS_OK (Some (mem64 e (host_to_net_u64 e off))) (word_of_nat RESUME_SIZE) s2 = (r, s3)"
      by (metis prod.collapse)
    note rest = download_rest_spec [OF Inr [unfolded y] r part assms(4)]
    note opened = \<open>download_info e task s = Inr x\<close> Inr
    show ?thesis
    proof (cases "r \<noteq> 0 \<or> (\<exists>s4. download_loop e task (sz - off) 0 f s3 = Inl s4)")
      case True
      then show ?thesis using assms(1,2) opened x y r ch [OF rest(1)] ch [OF rest(2)]
        by (auto simp: run_download_def intro: download_outcome_fail split: if_splits)
    next
      case False
      then obtain f' s4 where l: "download_loop e task (sz - off) 0 f s3 = Inr (f', s4)" "r = 0"
        by (cases "download_loop e task (sz - off) 0 f s3") auto
      note lr = rest(3) [OF l(1)]
      show ?thesis
      proof (cases "download_finish sha256 e task fin sz hex f' s4")
        case (Inl s5)
        then show ?thesis using assms(1,2) opened x y r l ch [of "c_kern s5"] lr download_finish_spec(1) [OF Inl]
          by (auto simp: run_download_def changes_only_def intro: download_outcome_fail)
      next
        case fin: (Inr s5)
        obtain q s6 where q: "task_send e task CMD_ACK STATUS_OK None 0 s5 = (q, s6)" by (metis prod.collapse)
        have s': "s' = s6" "c_kern s6 = c_kern s5"
          using assms(1) opened x y r l fin q task_send_frame(1) [OF q] by (auto simp: run_download_def)
        have "good_file sha256 sz hex (disk (c_kern s5) (ct_target_path task)) \<and>
            changes_only {ct_part_path task, ct_target_path task} (c_kern s) (c_kern s5)"
          using lr i(1) assms(2) download_finish_spec(2,3) [of sha256 e task sz hex f' s4 s5] fin
          by (cases "\<exists>d. fin = d") (auto simp: changes_only_def split: if_splits)
        then show ?thesis using s' i(2,3) by (auto simp: download_outcome_def)
      qed
    qed
  qed
qed

subsection \<open>What an upload sends\<close>

text \<open>A packet without payload is given as NULL and length 0.\<close>

abbreviation (input) "opt_bytes bs \<equiv> (if bs = [] then None else Some bs)"

lemma task_send_sent:
  assumes "task_send e task type st (opt_bytes bs) (word_of_nat (length bs)) s = (0, s')"
    "wf_session_id (ct_session_id task)" "length bs \<le> 65536"
  shows "tx (c_sock s') = tx (c_sock s) @ frame (mk_packet type st (ct_session_id task) bs)"
proof -
  obtain b s1 where b: "task_is_canceled s = (b, s1)" by (metis prod.collapse)
  obtain r k where r: "protocol_send_packet e (Some (mk_packet type st (ct_session_id task) bs)) (c_sock s1) = (r, k)" by (metis prod.collapse)
  have "r = 0" "s' = s1\<lparr>c_sock := k\<rparr>"
    using assms(1) b r packet_init_mk_packet [OF assms(3)] by (auto simp: task_send_def split: if_splits)
  then show ?thesis
    using send_packet_spec(2) [OF r] task_is_canceled_frame [OF b] wire_frame [OF wf_mk_packet [OF assms(2,3), of type st], of e] by simp
qed

lemma task_send_sent_some:
  assumes "task_send e task type st (Some bs) (word_of_nat (length bs)) s = (0, s')" "bs \<noteq> []"
    "wf_session_id (ct_session_id task)" "length bs \<le> 65536"
  shows "tx (c_sock s') = tx (c_sock s) @ frame (mk_packet type st (ct_session_id task) bs)"
  using task_send_sent [of e task type st bs s s'] assms by simp

lemma task_send_sent_none:
  assumes "task_send e task type st None 0 s = (0, s')" "wf_session_id (ct_session_id task)"
  shows "tx (c_sock s') = tx (c_sock s) @ frame (mk_packet type st (ct_session_id task) [])"
  using task_send_sent [of e task type st "[]" s s'] assms by simp

lemma upload_loop_spec:
  assumes "upload_loop e task remaining f s = Inr s'" "wf_session_id (ct_session_id task)"
  shows "disk (c_kern s') = disk (c_kern s) \<and> rx (c_sock s') = rx (c_sock s) \<and>
    (\<exists>cs. (\<forall>c \<in> set cs. ok_chunk c) \<and> concat cs = take remaining (drop (fpos f) (file_data (c_kern s) (fpath f))) \<and>
      length (concat cs) = remaining \<and> tx (c_sock s') = tx (c_sock s) @ data_stream (ct_session_id task) cs)"
  using assms
proof (induction e task remaining f s rule: upload_loop.induct)
  case (1 e task remaining f s)
  show ?case
  proof (cases "remaining = 0")
    case True
    then show ?thesis using "1.prems" by (auto simp: upload_loop.simps [of e task 0 f s] intro!: exI [of _ "[]"])
  next
    case more: False
    let ?n = "min remaining (unat FILE_CHUNK_SIZE)"
    obtain b s1 where b: "task_is_canceled s = (b, s1)" by (metis prod.collapse)
    obtain x f1 k where x: "read_file f ?n (c_kern s1) = (x, f1, k)" by (metis prod_cases3)
    note c = task_is_canceled_frame [OF b] and io = read_file_io [OF x]
    have nb: "\<not> b" "x \<noteq> Read_Error" using "1.prems"(1) more b x by (auto simp: upload_loop.simps [of e task remaining f s] split: if_splits)
    show ?thesis
    proof (cases x)
      case Read_Intr
      have "upload_loop e task remaining f1 (s1\<lparr>c_kern := k\<rparr>) = Inr s'"
        using "1.prems"(1) more b x nb Read_Intr by (simp add: upload_loop.simps [of e task remaining f s])
      from "1.IH"(1) [OF more b [symmetric] nb(1) x [symmetric] Read_Intr refl this "1.prems"(2)] c io Read_Intr
      show ?thesis by (simp add: file_data_def)
    next
      case (Read_Bytes bs)
      note rb = read_file_bytes [OF x [unfolded Read_Bytes]]
      have ne: "bs \<noteq> []" using "1.prems"(1) more b x nb Read_Bytes by (auto simp: upload_loop.simps [of e task remaining f s])
      obtain r s2 where r: "task_send e task CMD_FILE_DATA STATUS_OK (Some bs) (word_of_nat (length bs)) (s1\<lparr>c_kern := k\<rparr>) = (r, s2)"
        by (metis prod.collapse)
      have r0: "r = 0" and go_on: "upload_loop e task (remaining - length bs) f1 s2 = Inr s'"
        using "1.prems"(1) more b x nb Read_Bytes ne r by (auto simp: upload_loop.simps [of e task remaining f s] split: if_splits)
      note fr = task_send_frame [OF r]
      have ch: "ok_chunk bs" using ne rb(2) by (simp add: ok_chunk_def)
      then have sent: "tx (c_sock s2) = tx (c_sock s) @ frame (data_packet (ct_session_id task) bs)"
        using task_send_sent_some [OF r [unfolded r0] ne "1.prems"(2)] ok_chunk_length [OF ch] c by (simp add: data_packet_def)
      let ?d = "file_data (c_kern s) (fpath f)"
      have d: "file_data (c_kern s2) (fpath f1) = ?d" using fr c io by (simp add: file_data_def)
      from "1.IH"(2) [OF more b [symmetric] nb(1) x [symmetric] Read_Bytes refl ne r [symmetric] _ go_on "1.prems"(2)] r0
      obtain cs where cs: "disk (c_kern s') = disk (c_kern s2)" "rx (c_sock s') = rx (c_sock s2)" "\<forall>c \<in> set cs. ok_chunk c"
          "concat cs = take (remaining - length bs) (drop (fpos f1) ?d)" "length (concat cs) = remaining - length bs"
          "tx (c_sock s') = tx (c_sock s2) @ data_stream (ct_session_id task) cs"
        using d by auto
      have "bs @ take (remaining - length bs) (drop (fpos f + length bs) ?d) = take remaining (drop (fpos f) ?d)"
        using rb(1,2) c by (metis (no_types, lifting) append_take_drop_id drop_drop add.commute le_add_diff_inverse min.boundedE take_add)
      then have "concat (bs # cs) = take remaining (drop (fpos f) ?d)" using cs(4) rb(4) by simp
      moreover have "length (concat (bs # cs)) = remaining" using cs(5) rb(2) by simp
      moreover have "\<forall>c \<in> set (bs # cs). ok_chunk c" "tx (c_sock s') = tx (c_sock s) @ data_stream (ct_session_id task) (bs # cs)"
        using cs(3,6) ch sent by simp_all
      moreover have "disk (c_kern s') = disk (c_kern s)" "rx (c_sock s') = rx (c_sock s)" using cs(1,2) fr c io by simp_all
      ultimately show ?thesis by blast
    qed (use nb in simp)
  qed
qed

text \<open>The server's packets: it wants the file from this position on; it has the file.\<close>

definition asks_from :: "endian \<Rightarrow> packet_t \<Rightarrow> u64 \<Rightarrow> bool" where
  "asks_from e p off \<longleftrightarrow>
     wf_packet p \<and> ptype (header p) = CMD_PUTS_RESP \<and> status (header p) = STATUS_OK \<and> unat (payload_len (header p)) = RESUME_SIZE \<and>
     off = net_to_host_u64 e (rp_offset (load_resume e (the (payload p))))"

definition acknowledges :: "packet_t \<Rightarrow> bool" where
  "acknowledges p \<longleftrightarrow> wf_packet p \<and> ptype (header p) = CMD_ACK \<and> status (header p) = STATUS_OK"

lemma upload_request_spec:
  assumes "upload_request sha256 e task s = Inr (f, sz, req, s')"
  obtains d where "disk (c_kern s) (ct_local_path task) = Some d" "sz = word_of_nat (length d)" "length (ct_remote_path task) < PATH_MAX"
    "req = upload_offer sha256 e (ct_remote_path task) d" "f = \<lparr>fpath = ct_local_path task, fpos = 0\<rparr>"
    "disk (c_kern s') = disk (c_kern s)" "c_sock s' = c_sock s"
proof -
  obtain fd k where o: "open_read (ct_local_path task) (c_kern s) = (fd, k)" by (metis prod.collapse)
  obtain y s1 where y: "csys (s\<lparr>c_kern := k\<rparr>) = (y, s1)" by (metis prod.collapse)
  let ?f = "\<lparr>fpath = ct_local_path task, fpos = 0\<rparr>"
  obtain h s2 where h: "task_compute_sha256 sha256 ?f s1 = (h, s2)" by (metis prod.collapse)
  obtain g k3 where g: "lseek ?f 0 (c_kern s2) = (g, k3)" by (metis prod.collapse)
  note of = open_read_disk [OF o] and yf = csys_frame [OF y] and hs = task_compute_sha256_spec [OF h] and gf = lseek_frame [OF g]
  have fd: "fd = Some ?f" using assms o of(2) by (cases fd) (auto simp: upload_request_def)
  have "y" "\<not> PATH_MAX \<le> length (ct_remote_path task)"
    using assms o y fd by (auto simp: upload_request_def copy_string_def Let_def split: if_splits)
  moreover from this obtain hex where "h = Some hex"
    using assms o y h fd by (cases h) (auto simp: upload_request_def copy_string_def Let_def)
  ultimately have r: "h = Some hex" "g = Some ?f" "f = ?f" "sz = word_of_nat (length (file_data (c_kern s1) (ct_local_path task)))" "s' = s2\<lparr>c_kern := k3\<rparr>"
      "req = store_upload_request e \<lparr>ur_remote_path = char_array PATH_MAX (ct_remote_path task), ur_file_size = host_to_net_u64 e sz,
                                      ur_sha256_hex = char_array 65 hex\<rparr>"
    using assms o y h g gf(3) fd by (auto simp: upload_request_def copy_string_def Let_def split: option.splits)
  obtain d where d: "disk (c_kern s) (ct_local_path task) = Some d" using of(2) [OF fd] by auto
  then have "file_data (c_kern s1) (ct_local_path task) = d" using of(1) yf by (simp add: file_data_def)
  then show thesis
    using that [OF d] r hs(3) [OF r(1)] hs(1,2) gf(1) of(1) yf \<open>\<not> PATH_MAX \<le> length (ct_remote_path task)\<close>
    by (simp add: upload_offer_def)
qed

lemma upload_resume_spec:
  assumes "upload_resume e task sz req s = Inr (off, s')" "wf_session_id (ct_session_id task)" "length req = UPLOAD_REQUEST_SIZE"
  shows "off \<le> sz" "disk (c_kern s') = disk (c_kern s)"
    "tx (c_sock s') = tx (c_sock s) @ frame (mk_packet CMD_PUTS_REQ STATUS_OK (ct_session_id task) req)"
    "\<exists>p. asks_from e p off \<and> rx (c_sock s) = frame p @ rx (c_sock s')"
proof -
  obtain r s1 where r: "task_send e task CMD_PUTS_REQ STATUS_OK (Some req) (word_of_nat (length req)) s = (r, s1)" by (metis prod.collapse)
  obtain q p s2 where q: "task_recv e task s1 = (q, p, s2)" by (metis prod_cases3)
  note f = task_send_frame [OF r] and v = task_recv_frame [OF q]
  have eq: "r = 0" "q = 0" "s' = s2" "off \<le> sz" "ptype (header p) = CMD_PUTS_RESP" "status (header p) = STATUS_OK"
      "unat (payload_len (header p)) = RESUME_SIZE" "off = net_to_host_u64 e (rp_offset (load_resume e (the (payload p))))"
    using assms(1) r q unfolding upload_resume_def assms(3) by (auto simp: Let_def split: if_splits)
  note ok = task_recv_ok [OF q [unfolded eq(2)]]
  have "req \<noteq> []" "length req \<le> 65536" using assms(3) by (auto simp: UPLOAD_REQUEST_SIZE_def)
  from task_send_sent_some [OF r [unfolded eq(1)] this(1) assms(2) this(2)] ok f v eq
  show "off \<le> sz" "disk (c_kern s') = disk (c_kern s)"
    "tx (c_sock s') = tx (c_sock s) @ frame (mk_packet CMD_PUTS_REQ STATUS_OK (ct_session_id task) req)"
    "\<exists>p. asks_from e p off \<and> rx (c_sock s) = frame p @ rx (c_sock s')"
    by (auto simp: asks_from_def)
qed

lemma await_ack_spec:
  assumes "await_ack e task s = (0, s')"
  shows "disk (c_kern s') = disk (c_kern s) \<and> tx (c_sock s') = tx (c_sock s) \<and> (\<exists>q. acknowledges q \<and> rx (c_sock s) = frame q @ rx (c_sock s'))"
proof -
  obtain r q s1 where q: "task_recv e task s = (r, q, s1)" by (metis prod_cases3)
  then have "r = 0" "s' = s1" "ptype (header q) = CMD_ACK" "status (header q) = STATUS_OK"
    using assms by (auto simp: await_ack_def split: if_splits)
  with task_recv_ok [of e task s q s1] task_recv_frame [OF q] q show ?thesis by (auto simp: acknowledges_def)
qed

text \<open>The bytes of a successful upload after the request: nothing when the server has the file already.\<close>

definition upload_body :: "session_id_t \<Rightarrow> byte list \<Rightarrow> u64 \<Rightarrow> byte list \<Rightarrow> bool" where
  "upload_body key d off out \<longleftrightarrow>
     (if unat off = length d then out = []
      else \<exists>cs. (\<forall>c \<in> set cs. ok_chunk c) \<and> concat cs = drop (unat off) d \<and>
             out = data_stream key cs @ frame (mk_packet CMD_FILE_END STATUS_OK key []))"

lemma run_upload_spec:
  assumes "run_upload sha256 e task s = (0, s')" "wf_session_id (ct_session_id task)"
    "\<And>d. disk (c_kern s) (ct_local_path task) = Some d \<Longrightarrow> length d < 2 ^ 64"
  obtains d off out p q where "disk (c_kern s) (ct_local_path task) = Some d" "unat off \<le> length d"
    "disk (c_kern s') = disk (c_kern s)" "asks_from e p off" "acknowledges q" "rx (c_sock s) = frame p @ frame q @ rx (c_sock s')"
    "upload_body (ct_session_id task) d off out"
    "tx (c_sock s') = tx (c_sock s) @
       frame (mk_packet CMD_PUTS_REQ STATUS_OK (ct_session_id task) (upload_offer sha256 e (ct_remote_path task) d)) @ out"
proof -
  obtain f sz req s1 where u: "upload_request sha256 e task s = Inr (f, sz, req, s1)"
    using assms(1) by (cases "upload_request sha256 e task s") (auto simp: run_upload_def)
  obtain d where d: "disk (c_kern s) (ct_local_path task) = Some d" "sz = word_of_nat (length d)" "req = upload_offer sha256 e (ct_remote_path task) d"
      "f = \<lparr>fpath = ct_local_path task, fpos = 0\<rparr>" "disk (c_kern s1) = disk (c_kern s)" "c_sock s1 = c_sock s"
    by (rule upload_request_spec [OF u])
  obtain off s2 where o: "upload_resume e task sz req s1 = Inr (off, s2)"
    using assms(1) u by (cases "upload_resume e task sz req s1") (auto simp: run_upload_def)
  note os = upload_resume_spec [OF o assms(2) length_upload_offer [of sha256 e "ct_remote_path task" d, folded d(3)]]
  obtain p where p: "asks_from e p off" "rx (c_sock s1) = frame p @ rx (c_sock s2)" using os(4) by blast
  have sz: "unat sz = length d" using assms(3) [OF d(1)] d(2) by (simp add: unat_of_nat)
  then have le: "unat off \<le> length d" using os(1) by (simp add: word_le_nat_alt)
  show thesis
  proof (cases "off = sz")
    case True
    then have "await_ack e task s2 = (0, s')" using assms(1) u o by (simp add: run_upload_def)
    from await_ack_spec [OF this] obtain q where "acknowledges q" "rx (c_sock s2) = frame q @ rx (c_sock s')"
        "disk (c_kern s') = disk (c_kern s2)" "tx (c_sock s') = tx (c_sock s2)" by auto
    with that [OF d(1) le _ p(1), of q "[]"] d os(2,3) p True sz show thesis by (simp add: upload_body_def)
  next
    case False
    obtain g k where g: "lseek f (unat off) (c_kern s2) = (g, k)" by (metis prod.collapse)
    have g': "g = Some (f\<lparr>fpos := unat off\<rparr>)" using assms(1) u o False g lseek_frame(3) [OF g] by (auto simp: run_upload_def)
    obtain s3 where l: "upload_loop e task (unat (sz - off)) (f\<lparr>fpos := unat off\<rparr>) (s2\<lparr>c_kern := k\<rparr>) = Inr s3"
      using assms(1) u o False g g' by (cases "upload_loop e task (unat (sz - off)) (f\<lparr>fpos := unat off\<rparr>) (s2\<lparr>c_kern := k\<rparr>)") (auto simp: run_upload_def)
    obtain r s4 where r: "task_send e task CMD_FILE_END STATUS_OK None 0 s3 = (r, s4)" by (metis prod.collapse)
    have fin: "r = 0" "await_ack e task s4 = (0, s')" using assms(1) u o False g g' l r by (auto simp: run_upload_def split: if_splits)
    from await_ack_spec [OF fin(2)] obtain q where q: "acknowledges q" "rx (c_sock s4) = frame q @ rx (c_sock s')"
        "disk (c_kern s') = disk (c_kern s4)" "tx (c_sock s') = tx (c_sock s4)" by auto
    have dd: "file_data (c_kern (s2\<lparr>c_kern := k\<rparr>)) (fpath (f\<lparr>fpos := unat off\<rparr>)) = d"
      using lseek_frame(1) [OF g] os(2) d by (simp add: file_data_def)
    have rem: "unat (sz - off) = length d - unat off" using os(1) sz by (simp add: unat_sub)
    from upload_loop_spec [OF l assms(2), unfolded dd rem] obtain cs where cs: "\<forall>c \<in> set cs. ok_chunk c" "concat cs = drop (unat off) d"
        "tx (c_sock s3) = tx (c_sock s2) @ data_stream (ct_session_id task) cs" "rx (c_sock s3) = rx (c_sock s2)" "disk (c_kern s3) = disk k"
      by auto
    have "upload_body (ct_session_id task) d off (data_stream (ct_session_id task) cs @ frame (mk_packet CMD_FILE_END STATUS_OK (ct_session_id task) []))"
      using cs(1,2) False sz word_unat_eq_iff [of off sz] by (auto simp: upload_body_def)
    with that [OF d(1) le _ p(1) q(1)] d os(2,3) p q cs task_send_sent_none [OF r [unfolded fin(1)] assms(2)] task_send_frame [OF r] lseek_frame(1) [OF g]
    show thesis by simp
  qed
qed

end
