(* ===== verification/Client_Transfer_Runs.thy ===== *)
theory Client_Transfer_Runs
  imports Client_Transfer_Correct Calm
begin

text \<open>
  Transfers of the client that succeed: with a kernel that refuses nothing, a server that answers as the protocol
  says and no cancellation, \<open>run_upload\<close> and \<open>run_download\<close> return 0.
\<close>

definition calm :: "xfer_t \<Rightarrow> bool" where
  "calm s \<longleftrightarrow> c_cancel s = None \<and> kcalm (c_kern s) \<and> scalm (c_sock s)"

subsection \<open>Packets and hashes\<close>

lemma canceled_calm: "calm s \<Longrightarrow> task_is_canceled s = (False, s)"
  by (simp add: calm_def task_is_canceled_def)

lemma csys_calm: "csys s = (ok, s') \<Longrightarrow> calm s \<Longrightarrow> ok \<and> calm s'"
  using sys_ok_step kstep_calm by (auto simp: csys_def calm_def split: prod.splits)

lemma kern_calm: "calm s \<Longrightarrow> kstep (c_kern s) k \<Longrightarrow> calm (s\<lparr>c_kern := k\<rparr>)"
  using kstep_calm [of "c_kern s" k] by (simp add: calm_def)

lemma task_send_calm:
  assumes "task_send e task type st (opt_bytes bs) (word_of_nat (length bs)) s = (ret, s')" "calm s"
    "wf_session_id (ct_session_id task)" "length bs \<le> 65536"
  shows "ret = 0 \<and> calm s'"
proof -
  let ?p = "mk_packet type st (ct_session_id task) bs"
  obtain r k where r: "protocol_send_packet e (Some ?p) (c_sock s) = (r, k)" by (metis prod.collapse)
  have "ret = r" "s' = s\<lparr>c_sock := k\<rparr>"
    using assms(1) r canceled_calm [OF assms(2)] packet_init_mk_packet [OF assms(4)] by (auto simp: task_send_def)
  then show ?thesis using send_packet_calm [OF r _ wf_mk_packet [OF assms(3,4)]] assms(2) by (simp add: calm_def)
qed

lemmas task_send_calm_none = task_send_calm [where bs = "[]", simplified]

lemma task_send_calm_some:
  assumes "task_send e task type st (Some bs) (word_of_nat (length bs)) s = (ret, s')" "calm s" "bs \<noteq> []"
    "wf_session_id (ct_session_id task)" "length bs \<le> 65536"
  shows "ret = 0 \<and> calm s'"
  using task_send_calm [of e task type st bs s ret s'] assms by simp

lemma task_recv_calm:
  assumes "task_recv e task s = (ret, q, s')" "calm s" "wf_session_id (ct_session_id task)"
    "wf_packet p" "session_id (header p) = ct_session_id task" "rx (c_sock s) = frame p @ rest"
  shows "ret = 0" "q = p\<lparr>owns_payload := payload_len (header p) \<noteq> 0\<rparr>" "rx (c_sock s') = rest" "tx (c_sock s') = tx (c_sock s)" "calm s'"
proof -
  obtain m s1 where m: "csys s = (m, s1)" by (metis prod.collapse)
  note cm = csys_calm [OF m assms(2)] and fm = csys_frame [OF m]
  obtain r x k where r: "protocol_recv_packet e True (c_sock s1) = (r, x, k)" by (metis prod_cases3)
  have sc: "scalm (c_sock s1)" "rx (c_sock s1) = frame p @ rest" using cm fm assms(6) by (simp_all add: calm_def)
  note rp = recv_packet_calm [OF r sc(1) assms(4) sc(2)]
  have "ret = 0 \<and> q = x \<and> s' = s1\<lparr>c_sock := k\<rparr>"
    using assms(1,5) canceled_calm [OF assms(2)] m cm r rp by (simp add: task_recv_def session_id_equal_def)
  then show "ret = 0" "q = p\<lparr>owns_payload := payload_len (header p) \<noteq> 0\<rparr>" "rx (c_sock s') = rest" "tx (c_sock s') = tx (c_sock s)" "calm s'"
    using rp cm fm by (simp_all add: calm_def)
qed

lemma hash_loop_calm:
  assumes "hash_loop f acc s = (r, s')" "calm s"
  shows "r \<noteq> None \<and> calm s'"
  using assms
proof (induction f acc s rule: hash_loop.induct)
  case (1 f acc s)
  obtain x f1 k where x: "read_file f 65536 (c_kern s) = (x, f1, k)" by (metis prod_cases3)
  note b = canceled_calm [OF "1.prems"(2)] and st = read_step [OF x]
  have k: "calm (s\<lparr>c_kern := k\<rparr>)" using kern_calm [OF "1.prems"(2)] st by blast
  show ?case
  proof (cases x)
    case Read_Intr
    have "hash_loop f1 acc (s\<lparr>c_kern := k\<rparr>) = (r, s')"
      using "1.prems"(1) b x Read_Intr by (simp add: hash_loop.simps [of f acc s])
    from "1.IH"(1) [OF b [symmetric] _ x [symmetric] Read_Intr refl this k] show ?thesis by simp
  next
    case Read_Error
    then show ?thesis using st "1.prems"(2) by (simp add: calm_def)
  next
    case (Read_Bytes bs)
    obtain u s2 where u: "csys (s\<lparr>c_kern := k\<rparr>) = (u, s2)" by (metis prod.collapse)
    note cu = csys_calm [OF u k]
    show ?thesis
    proof (cases "bs = []")
      case True
      then show ?thesis using "1.prems"(1) b x Read_Bytes k by (auto simp: hash_loop.simps [of f acc s])
    next
      case False
      have "hash_loop f1 (acc @ bs) s2 = (r, s')"
        using "1.prems"(1) b x Read_Bytes u cu False by (simp add: hash_loop.simps [of f acc s])
      from "1.IH"(2) [OF b [symmetric] _ x [symmetric] Read_Bytes refl False u [symmetric] _ this] cu show ?thesis by simp
    qed
  qed
qed

lemma task_compute_sha256_calm:
  assumes "task_compute_sha256 sha256 f s = (r, s')" "calm s" "length (sha256 (file_data (c_kern s) (fpath f))) = 32"
  shows "r = Some (hex_of (sha256 (file_data (c_kern s) (fpath f)))) \<and> calm s'"
proof -
  obtain g k where g: "lseek f 0 (c_kern s) = (g, k)" by (metis prod.collapse)
  note st = lseek_step [OF g] and gf = lseek_frame [OF g]
  have k: "calm (s\<lparr>c_kern := k\<rparr>)" using kern_calm [OF assms(2)] st by blast
  obtain i s1 where i: "csys (s\<lparr>c_kern := k\<rparr>) = (i, s1)" by (metis prod.collapse)
  note ci = csys_calm [OF i k] and fi = csys_frame [OF i]
  obtain h s2 where h: "hash_loop (f\<lparr>fpos := 0\<rparr>) [] s1 = (h, s2)" by (metis prod.collapse)
  have ch: "h \<noteq> None" "calm s2" using hash_loop_calm [OF h] ci by auto
  obtain j s3 where j: "csys s2 = (j, s3)" by (metis prod.collapse)
  note cj = csys_calm [OF j ch(2)]
  have "h = Some (file_data (c_kern s) (fpath f))"
    using hash_loop_spec [OF h] ch(1) fi gf(1) by (auto simp: file_data_def)
  then show ?thesis
    using assms(1,3) g st assms(2) gf(3) i ci h j cj by (auto simp: task_compute_sha256_def calm_def)
qed

lemma hash_matches_calm:
  assumes "hash_matches sha256 f sz expected s = (b, s')" "calm s" "length (sha256 (file_data (c_kern s) (fpath f))) = 32"
  shows "b = (word_of_nat (length (file_data (c_kern s) (fpath f))) = sz \<and> strcaseeq (hex_of (sha256 (file_data (c_kern s) (fpath f)))) expected) \<and> calm s'"
proof -
  obtain i s1 where i: "csys s = (i, s1)" by (metis prod.collapse)
  note ci = csys_calm [OF i assms(2)] and fi = csys_frame [OF i]
  have d: "file_data (c_kern s1) (fpath f) = file_data (c_kern s) (fpath f)" using fi by (simp add: file_data_def)
  obtain h s2 where h: "task_compute_sha256 sha256 f s1 = (h, s2)" by (metis prod.collapse)
  have "h = Some (hex_of (sha256 (file_data (c_kern s) (fpath f)))) \<and> calm s2"
    using task_compute_sha256_calm [OF h] ci assms(3) d by simp
  then show ?thesis using assms(1) i ci h d by (auto simp: hash_matches_def split: if_splits)
qed

subsection \<open>Uploads\<close>

lemma upload_request_calm:
  assumes "calm s" "disk (c_kern s) (ct_local_path task) = Some d" "length (ct_remote_path task) < PATH_MAX" "length (sha256 d) = 32"
  obtains f sz req s' where "upload_request sha256 e task s = Inr (f, sz, req, s')" "calm s'"
proof -
  let ?f = "\<lparr>fpath = ct_local_path task, fpos = 0\<rparr>"
  obtain fd k where o: "open_read (ct_local_path task) (c_kern s) = (fd, k)" by (metis prod.collapse)
  have k: "calm (s\<lparr>c_kern := k\<rparr>)" "fd = Some ?f" "disk k = disk (c_kern s)"
    using kern_calm [OF assms(1)] open_read_step [OF o] open_read_disk [OF o] assms(1,2) by (auto simp: calm_def)
  obtain y s1 where y: "csys (s\<lparr>c_kern := k\<rparr>) = (y, s1)" by (metis prod.collapse)
  note cy = csys_calm [OF y k(1)] and fy = csys_frame [OF y]
  have d: "file_data (c_kern s1) (ct_local_path task) = d" using fy k(3) assms(2) by (simp add: file_data_def)
  obtain h s2 where h: "task_compute_sha256 sha256 ?f s1 = (h, s2)" by (metis prod.collapse)
  have ch: "h = Some (hex_of (sha256 d))" "calm s2" using task_compute_sha256_calm [OF h] cy d assms(4) by auto
  obtain g k3 where g: "lseek ?f 0 (c_kern s2) = (g, k3)" by (metis prod.collapse)
  obtain f' where g': "g = Some f'" "calm (s2\<lparr>c_kern := k3\<rparr>)" using lseek_step [OF g] kern_calm [OF ch(2)] ch(2) by (auto simp: calm_def)
  have "\<exists>sz req. upload_request sha256 e task s = Inr (f', sz, req, s2\<lparr>c_kern := k3\<rparr>)"
    using o k y cy h ch g g' assms(3) by (simp add: upload_request_def copy_string_def Let_def)
  with g'(2) that show thesis by blast
qed

lemma upload_resume_calm:
  assumes "calm s" "wf_session_id (ct_session_id task)" "length req = UPLOAD_REQUEST_SIZE" "asks_from e p off" "off \<le> sz"
    "session_id (header p) = ct_session_id task" "rx (c_sock s) = frame p @ rest"
  obtains s' where "upload_resume e task sz req s = Inr (off, s')" "calm s'" "rx (c_sock s') = rest"
proof -
  have rq: "req \<noteq> []" "length req \<le> 65536" using assms(3) by (auto simp: UPLOAD_REQUEST_SIZE_def)
  obtain r s1 where r: "task_send e task CMD_PUTS_REQ STATUS_OK (Some req) (word_of_nat (length req)) s = (r, s1)" by (metis prod.collapse)
  note cr = task_send_calm_some [OF r assms(1) rq(1) assms(2) rq(2)] and fr = task_send_frame [OF r]
  obtain v q s2 where v: "task_recv e task s1 = (v, q, s2)" by (metis prod_cases3)
  have p: "wf_packet p" using assms(4) by (simp add: asks_from_def)
  have "rx (c_sock s1) = frame p @ rest" "calm s1" using cr fr assms(7) by simp_all
  note cv = task_recv_calm [OF v this(2) assms(2) p assms(6) this(1)]
  have "upload_resume e task sz req s = Inr (off, s2)"
    using r cr v cv assms(4,5) unfolding upload_resume_def assms(3) [symmetric] by (auto simp: asks_from_def not_less Let_def)
  with cv that show thesis by blast
qed

lemma upload_loop_calm:
  assumes "calm s" "wf_session_id (ct_session_id task)" "fpos f + remaining \<le> length (file_data (c_kern s) (fpath f))"
  shows "\<exists>s'. upload_loop e task remaining f s = Inr s' \<and> calm s'"
  using assms
proof (induction e task remaining f s rule: upload_loop.induct)
  case (1 e task remaining f s)
  show ?case
  proof (cases "remaining = 0")
    case True
    then show ?thesis using "1.prems" by (simp add: upload_loop.simps [of e task 0 f s])
  next
    case more: False
    let ?n = "min remaining (unat FILE_CHUNK_SIZE)"
    note b = canceled_calm [OF "1.prems"(1)]
    obtain x f1 k where x: "read_file f ?n (c_kern s) = (x, f1, k)" by (metis prod_cases3)
    note io = read_file_io [OF x] and st = read_step [OF x]
    have k: "calm (s\<lparr>c_kern := k\<rparr>)" using kern_calm [OF "1.prems"(1)] st by blast
    have d: "file_data k (fpath f1) = file_data (c_kern s) (fpath f)" using io by (simp add: file_data_def)
    show ?thesis
    proof (cases x)
      case Read_Intr
      from "1.IH"(1) [OF more b [symmetric] _ x [symmetric] Read_Intr refl k "1.prems"(2)] d "1.prems"(3) io(4) [OF Read_Intr]
      show ?thesis using more b x Read_Intr by (simp add: upload_loop.simps [of e task remaining f s])
    next
      case Read_Error
      then show ?thesis using st "1.prems"(1) by (simp add: calm_def)
    next
      case (Read_Bytes bs)
      note rb = read_file_bytes [OF x [unfolded Read_Bytes]]
      have ne: "bs \<noteq> []" using rb(8) "1.prems"(3) more by (auto simp: FILE_CHUNK_SIZE_def)
      have l: "length bs \<le> remaining" "length bs \<le> 65536" using rb(2) by (auto simp: FILE_CHUNK_SIZE_def)
      obtain r s2 where r: "task_send e task CMD_FILE_DATA STATUS_OK (Some bs) (word_of_nat (length bs)) (s\<lparr>c_kern := k\<rparr>) = (r, s2)"
        by (metis prod.collapse)
      note cr = task_send_calm_some [OF r k ne "1.prems"(2) l(2)] and fr = task_send_frame [OF r]
      have "file_data (c_kern s2) (fpath f1) = file_data (c_kern s) (fpath f)" using d fr by simp
      with "1.IH"(2) [OF more b [symmetric] _ x [symmetric] Read_Bytes refl ne r [symmetric] _ _ "1.prems"(2)] cr rb(4) "1.prems"(3) l(1)
      show ?thesis using more b x Read_Bytes ne r by (simp add: upload_loop.simps [of e task remaining f s])
    qed
  qed
qed

lemma await_ack_calm:
  assumes "calm s" "wf_session_id (ct_session_id task)" "acknowledges q" "session_id (header q) = ct_session_id task" "rx (c_sock s) = frame q @ rest"
  shows "\<exists>s'. await_ack e task s = (0, s') \<and> calm s' \<and> rx (c_sock s') = rest"
proof -
  obtain r p s1 where r: "task_recv e task s = (r, p, s1)" by (metis prod_cases3)
  have "wf_packet q" using assms(3) by (simp add: acknowledges_def)
  from task_recv_calm [OF r assms(1,2) this assms(4,5)] r assms(3) show ?thesis by (simp add: await_ack_def acknowledges_def)
qed

text \<open>An upload returns 0 when the server asks for a part of the file and acknowledges it.\<close>

lemma run_upload_calm:
  assumes "calm s" "wf_session_id (ct_session_id task)" "disk (c_kern s) (ct_local_path task) = Some d" "length d < 2 ^ 64"
    "length (ct_remote_path task) < PATH_MAX" "length (sha256 d) = 32" "asks_from e p off" "unat off \<le> length d" "acknowledges q"
    "session_id (header p) = ct_session_id task" "session_id (header q) = ct_session_id task" "rx (c_sock s) = frame p @ frame q @ rest"
  shows "\<exists>s'. run_upload sha256 e task s = (0, s') \<and> calm s'"
proof -
  obtain f sz req s1 where u: "upload_request sha256 e task s = Inr (f, sz, req, s1)" "calm s1"
    by (rule upload_request_calm [of s task d sha256, OF assms(1,3,5,6)])
  from upload_request_spec [OF u(1)] assms(3) have s1: "sz = word_of_nat (length d)" "req = upload_offer sha256 e (ct_remote_path task) d"
      "f = \<lparr>fpath = ct_local_path task, fpos = 0\<rparr>" "disk (c_kern s1) = disk (c_kern s)" "c_sock s1 = c_sock s" by auto
  have sz: "unat sz = length d" using s1(1) assms(4) by (simp add: unat_of_nat)
  have le: "off \<le> sz" using sz assms(8) by (simp add: word_le_nat_alt)
  have rq: "length req = UPLOAD_REQUEST_SIZE" "rx (c_sock s1) = frame p @ frame q @ rest" using s1 assms(12) by simp_all
  obtain s2 where o: "upload_resume e task sz req s1 = Inr (off, s2)" "calm s2" "rx (c_sock s2) = frame q @ rest"
    by (rule upload_resume_calm [OF u(2) assms(2) rq(1) assms(7) le assms(10) rq(2)])
  have o2: "disk (c_kern s2) = disk (c_kern s)" using upload_resume_spec(2) [OF o(1) assms(2) rq(1)] s1 by simp
  show ?thesis
  proof (cases "off = sz")
    case True
    then show ?thesis using u o await_ack_calm [OF o(2) assms(2,9,11) o(3), of e] by (auto simp: run_upload_def)
  next
    case False
    obtain g k where g: "lseek f (unat off) (c_kern s2) = (g, k)" by (metis prod.collapse)
    have k: "g = Some (f\<lparr>fpos := unat off\<rparr>)" "calm (s2\<lparr>c_kern := k\<rparr>)"
      using lseek_step [OF g] lseek_frame(3) [OF g] kern_calm [OF o(2)] o(2) by (auto simp: calm_def)
    have "file_data (c_kern (s2\<lparr>c_kern := k\<rparr>)) (fpath (f\<lparr>fpos := unat off\<rparr>)) = d"
      using lseek_frame(1) [OF g] o2 s1(3) assms(3) by (simp add: file_data_def)
    with upload_loop_calm [OF k(2) assms(2), of "f\<lparr>fpos := unat off\<rparr>" "unat (sz - off)" e] obtain s3 where
      l: "upload_loop e task (unat (sz - off)) (f\<lparr>fpos := unat off\<rparr>) (s2\<lparr>c_kern := k\<rparr>) = Inr s3" "calm s3"
      using le sz assms(8) by (auto simp: unat_sub)
    obtain r s4 where r: "task_send e task CMD_FILE_END STATUS_OK None 0 s3 = (r, s4)" by (metis prod.collapse)
    note cr = task_send_calm_none [OF r l(2) assms(2)]
    have "rx (c_sock s4) = frame q @ rest"
      using task_send_frame [OF r] upload_loop_spec [OF l(1) assms(2)] o(3) by simp
    with await_ack_calm [OF _ assms(2,9,11), of s4 rest e] cr show ?thesis
      using u o False g k l r by (auto simp: run_upload_def)
  qed
qed

subsection \<open>Downloads\<close>

lemma download_info_calm:
  assumes "calm s" "wf_session_id (ct_session_id task)" "ct_remote_path task \<noteq> []" "length (ct_remote_path task) \<le> 65536"
    "announces e p sz hex" "utils_is_valid_sha256_hex (Some hex)" "session_id (header p) = ct_session_id task" "rx (c_sock s) = frame p @ rest"
  obtains s' where "download_info e task s = Inr (sz, hex, s')" "calm s'" "rx (c_sock s') = rest"
    "tx (c_sock s') = tx (c_sock s) @ frame (mk_packet CMD_GETS_REQ STATUS_OK (ct_session_id task) (bytes_of (ct_remote_path task)))"
proof -
  let ?bs = "bytes_of (ct_remote_path task)"
  have bs: "?bs \<noteq> []" "length ?bs \<le> 65536" using assms(3,4) by (auto simp: bytes_of_def)
  obtain r s1 where r: "task_send e task CMD_GETS_REQ STATUS_OK (Some ?bs) (word_of_nat (length ?bs)) s = (r, s1)" by (metis prod.collapse)
  note cr = task_send_calm_some [OF r assms(1) bs(1) assms(2) bs(2)] and fr = task_send_frame [OF r]
  obtain v q s2 where v: "task_recv e task s1 = (v, q, s2)" by (metis prod_cases3)
  have p: "wf_packet p" using assms(5) by (simp add: announces_def)
  have "rx (c_sock s1) = frame p @ rest" "calm s1" using cr fr assms(8) by simp_all
  note cv = task_recv_calm [OF v this(2) assms(2) p assms(7) this(1)]
  have "download_info e task s = Inr (sz, hex, s2)"
    using r cr v cv assms(5,6) by (auto simp: download_info_def announces_def Let_def)
  moreover have "tx (c_sock s1) = tx (c_sock s) @ frame (mk_packet CMD_GETS_REQ STATUS_OK (ct_session_id task) ?bs)"
    using task_send_sent_some [of e task CMD_GETS_REQ STATUS_OK ?bs s s1] r cr bs assms(2) by simp
  ultimately show thesis using that cv by simp
qed

lemma open_part_calm:
  assumes "calm s"
  obtains f off s' where "open_part e task sz s = Inr (f, off, s')" "calm s'"
proof -
  let ?f = "\<lparr>fpath = ct_part_path task, fpos = 0\<rparr>"
  obtain fd k where o: "open_create (ct_part_path task) (c_kern s) = (fd, k)" by (metis prod.collapse)
  have k: "fd = Some ?f" "calm (s\<lparr>c_kern := k\<rparr>)"
    using open_create_step [OF o] open_create_disk(2) [OF o] kern_calm [OF assms] assms by (auto simp: calm_def)
  obtain b s1 where b: "csys (s\<lparr>c_kern := k\<rparr>) = (b, s1)" by (metis prod.collapse)
  note cb = csys_calm [OF b k(2)]
  let ?off = "word_of_nat (length (file_data (c_kern s1) (ct_part_path task))) :: u64"
  obtain cut k2 where c: "(if ?off > sz then ftruncate ?f 0 (c_kern s1) else (True, c_kern s1)) = (cut, k2)" by (metis prod.collapse)
  have k2: "cut" "calm (s1\<lparr>c_kern := k2\<rparr>)"
    using c ftruncate_step [of ?f 0 "c_kern s1" cut k2] kern_calm [of s1 k2] cb by (auto simp: calm_def split: if_splits)
  obtain g k3 where l: "lseek ?f (unat (if ?off > sz then 0 else ?off)) k2 = (g, k3)" by (metis prod.collapse)
  obtain f' where g: "g = Some f'" "calm (s1\<lparr>c_kern := k3\<rparr>)"
    using lseek_step [OF l] kern_calm [OF k2(2), of k3] k2(2) by (auto simp: calm_def)
  have "\<exists>off. open_part e task sz s = Inr (f', off, s1\<lparr>c_kern := k3\<rparr>)"
    using o k b cb c k2 l g by (simp add: open_part_def Let_def)
  with g(2) that show thesis by blast
qed

lemma download_open_calm:
  assumes "calm s" "\<And>bs. length (sha256 bs) = 32" "\<not> good_file sha256 sz hex (disk (c_kern s) (ct_target_path task))"
  obtains f off s' where "download_open sha256 e task sz hex s = Inr (False, f, off, s')" "calm s'"
proof -
  obtain fd k where o: "open_read (ct_target_path task) (c_kern s) = (fd, k)" by (metis prod.collapse)
  have k: "calm (s\<lparr>c_kern := k\<rparr>)" using kern_calm [OF assms(1)] open_read_step [OF o] by blast
  obtain b s1 where b: "(case fd of None \<Rightarrow> (False, s\<lparr>c_kern := k\<rparr>) | Some f \<Rightarrow> hash_matches sha256 f sz hex (s\<lparr>c_kern := k\<rparr>)) = (b, s1)"
    by (metis prod.collapse)
  have "\<not> b \<and> calm s1"
  proof (cases fd)
    case None
    then show ?thesis using b k by auto
  next
    case (Some f)
    then have h: "hash_matches sha256 f sz hex (s\<lparr>c_kern := k\<rparr>) = (b, s1)" using b by simp
    have "fpath f = ct_target_path task" "disk k = disk (c_kern s)" "disk (c_kern s) (ct_target_path task) \<noteq> None"
      using open_read_disk [OF o] Some by auto
    with hash_matches_calm [OF h k] assms(2,3) show ?thesis by (auto simp: good_file_def file_data_def)
  qed
  moreover obtain f off s' where "open_part e task sz s1 = Inr (f, off, s')" "calm s'"
    using open_part_calm [of s1 e task sz] calculation by blast
  ultimately show thesis using that o b by (simp add: download_open_def)
qed

lemma download_loop_calm:
  assumes "calm s" "wf_session_id (ct_session_id task)" "\<forall>c \<in> set cs. ok_chunk c" "rx (c_sock s) = data_stream (ct_session_id task) cs @ rest"
    "received \<le> missing" "unat received + length (concat cs) = unat missing" "fpos f = base + unat received" "base + unat missing < 2 ^ 64"
    "fpos f \<le> length (file_data (c_kern s) (fpath f))" "disk (c_kern s) (fpath f) \<noteq> None"
  shows "\<exists>f' s'. download_loop e task missing received f s = Inr (f', s') \<and> calm s' \<and> rx (c_sock s') = rest \<and> tx (c_sock s') = tx (c_sock s) \<and>
    fpath f' = fpath f \<and> disk (c_kern s') = (disk (c_kern s))(fpath f \<mapsto> put_bytes (fpos f) (concat cs) (file_data (c_kern s) (fpath f)))"
  using assms
proof (induction cs arbitrary: received f s)
  case Nil
  then have "\<not> received < missing" by (simp add: word_less_nat_alt)
  then have "download_loop e task missing received f s = Inr (f, s)" by (simp add: download_loop.simps [of e task missing received f s])
  moreover have "(disk (c_kern s))(fpath f \<mapsto> file_data (c_kern s) (fpath f)) = disk (c_kern s)"
    using Nil.prems(10) by (auto simp: file_data_def fun_upd_idem)
  ultimately show ?case using Nil.prems by simp
next
  case (Cons c cs)
  let ?p = "data_packet (ct_session_id task) c"
  have ch: "ok_chunk c" using Cons.prems(3) by simp
  note fld = data_packet_fields [OF ch, of "ct_session_id task"] and wf = wf_data_packet [OF Cons.prems(2) ch]
  note len = ok_chunk_length [OF ch]
  have more: "received < missing" using Cons.prems(6) len unfolding word_less_nat_alt by (simp del: length_greater_0_conv)
  obtain r q s1 where r: "task_recv e task s = (r, q, s1)" by (metis prod_cases3)
  have rxs: "rx (c_sock s) = frame ?p @ data_stream (ct_session_id task) cs @ rest" using Cons.prems(4) by simp
  note cr = task_recv_calm [OF r Cons.prems(1,2) wf fld(7) rxs] and fr = task_recv_frame [OF r]
  have q: "header q = header ?p" "payload q = Some c" using cr(2) fld(6) by simp_all
  have data: "file_data (c_kern s1) (fpath f) = file_data (c_kern s) (fpath f)" using fr by (simp add: file_data_def)
  have pos: "fpos f \<le> length (file_data (c_kern s1) (fpath f))" using Cons.prems(9) data by simp
  let ?bs = "case payload q of Some bs \<Rightarrow> take (unat (payload_len (header q))) bs | None \<Rightarrow> []"
  obtain w f1 k where w: "write_n f ?bs (c_kern s1) = (w, f1, k)" by (metis prod_cases3)
  have w0: "w = 0" "calm (s1\<lparr>c_kern := k\<rparr>)" using write_step [OF w pos] cr(5) kern_calm [OF cr(5), of k] by (auto simp: calm_def)
  have sub: "ucast (payload_len (header q)) \<le> missing - received"
  proof -
    have "unat (missing - received) = unat missing - unat received" using Cons.prems(5) by (simp add: unat_sub)
    moreover have "unat (ucast (payload_len (header ?p)) :: u64) = length c" using fld(8) len by (simp add: unat_of_nat)
    ultimately show ?thesis using Cons.prems(6) q by (simp add: word_le_nat_alt)
  qed
  have wfq: "wf_packet q" using wf cr(2) fld(3,4,6) by (simp add: wf_packet_def)
  have h: "payload_len (header q) \<noteq> 0" "payload_len (header q) \<le> FILE_CHUNK_SIZE" using fld q by simp_all
  obtain c' where c': "payload q = Some c'" "fpath f1 = fpath f"
      "unat (received + ucast (payload_len (header q))) = unat received + length c'"
      "received + ucast (payload_len (header q)) \<le> missing" "fpos f1 = base + unat (received + ucast (payload_len (header q)))"
      "disk k = (disk (c_kern s1))(fpath f \<mapsto> put_bytes (fpos f) c' (file_data (c_kern s1) (fpath f)))"
      "fpos f1 \<le> length (file_data k (fpath f1))"
    by (rule data_step [OF wfq h sub Cons.prems(5,7) pos Cons.prems(8) w [unfolded w0(1)]])
  then have step: "c' = c" using q by simp
  have eq: "download_loop e task missing received f s =
      download_loop e task missing (received + ucast (payload_len (header q))) f1 (s1\<lparr>c_kern := k\<rparr>)"
    using more canceled_calm [OF Cons.prems(1)] r cr(1) w w0 fld q sub leD [OF sub] leD [OF h(2)]
    by (simp add: download_loop.simps [of e task missing received f s])
  have k: "file_data k (fpath f) = put_bytes (fpos f) c (file_data (c_kern s) (fpath f))" "disk (c_kern s1) = disk (c_kern s)"
    using c'(6) step data fr by (simp_all add: file_data_def)
  have "\<exists>f' s'. download_loop e task missing (received + ucast (payload_len (header q))) f1 (s1\<lparr>c_kern := k\<rparr>) = Inr (f', s') \<and>
      calm s' \<and> rx (c_sock s') = rest \<and> tx (c_sock s') = tx (c_sock (s1\<lparr>c_kern := k\<rparr>)) \<and> fpath f' = fpath f1 \<and>
      disk (c_kern s') = (disk (c_kern (s1\<lparr>c_kern := k\<rparr>)))(fpath f1 \<mapsto> put_bytes (fpos f1) (concat cs) (file_data (c_kern (s1\<lparr>c_kern := k\<rparr>)) (fpath f1)))"
    by (rule Cons.IH) (use Cons.prems w0 cr c' step in \<open>simp_all\<close>)
  then obtain f' s' where ih: "download_loop e task missing (received + ucast (payload_len (header q))) f1 (s1\<lparr>c_kern := k\<rparr>) = Inr (f', s')"
      "calm s'" "rx (c_sock s') = rest" "tx (c_sock s') = tx (c_sock s1)" "fpath f' = fpath f1"
      "disk (c_kern s') = (disk k)(fpath f1 \<mapsto> put_bytes (fpos f1) (concat cs) (file_data k (fpath f1)))"
    by simp blast
  have "put_bytes (fpos f1) (concat cs) (put_bytes (fpos f) c (file_data (c_kern s) (fpath f))) =
      put_bytes (fpos f) (concat (c # cs)) (file_data (c_kern s) (fpath f))"
    using c' step Cons.prems(7) by (simp add: put_bytes_append add.assoc [symmetric])
  then have "disk (c_kern s') = (disk (c_kern s))(fpath f \<mapsto> put_bytes (fpos f) (concat (c # cs)) (file_data (c_kern s) (fpath f)))"
    using ih(6) c'(2,6) k step data by simp
  with eq ih(1-5) cr(4) c'(2) show ?case by metis
qed

lemma download_finish_calm:
  assumes "calm s" "wf_session_id (ct_session_id task)" "rx (c_sock s) = frame (mk_packet CMD_FILE_END STATUS_OK (ct_session_id task) []) @ rest"
    "fpath f = ct_part_path task" "\<And>bs. length (sha256 bs) = 32" "good_file sha256 sz hex (disk (c_kern s) (ct_part_path task))"
  obtains s' where "download_finish sha256 e task False sz hex f s = Inr s'" "calm s'" "rx (c_sock s') = rest" "tx (c_sock s') = tx (c_sock s)"
proof -
  let ?p = "mk_packet CMD_FILE_END STATUS_OK (ct_session_id task) []"
  have p: "wf_packet ?p" "session_id (header ?p) = ct_session_id task" "ptype (header ?p) = CMD_FILE_END" "status (header ?p) = STATUS_OK"
      "payload_len (header ?p) = 0"
    using wf_mk_packet [OF assms(2), of "[]"] by (simp_all add: mk_packet_def)
  obtain r q s1 where r: "task_recv e task s = (r, q, s1)" by (metis prod_cases3)
  note cr = task_recv_calm [OF r assms(1,2) p(1,2) assms(3)] and fr = task_recv_frame [OF r]
  obtain y s2 where y: "csys s1 = (y, s2)" by (metis prod.collapse)
  note cy = csys_calm [OF y cr(5)] and fy = csys_frame [OF y]
  obtain g s3 where g: "hash_matches sha256 f sz hex s2 = (g, s3)" by (metis prod.collapse)
  have hg: "g" "calm s3" "disk (c_kern s3) = disk (c_kern s)" "c_sock s3 = c_sock s2"
    using hash_matches_calm [OF g] hash_matches_spec(1,2) [OF g] cy assms(4,5,6) fr fy
    by (auto simp: good_file_def file_data_def split: option.splits)
  obtain n k where n: "rename_file (ct_part_path task) (ct_target_path task) (c_kern s3) = (n, k)" by (metis prod.collapse)
  have "disk (c_kern s3) (ct_part_path task) \<noteq> None" using assms(6) hg(3) by (auto simp: good_file_def split: option.splits)
  then have hn: "n" "calm (s3\<lparr>c_kern := k\<rparr>)" using rename_step [OF n] kern_calm [OF hg(2), of k] hg(2) by (auto simp: calm_def)
  have "download_finish sha256 e task False sz hex f s = Inr (s3\<lparr>c_kern := k\<rparr>)"
    using r cr y cy g hg n hn p by (simp add: download_finish_def)
  with that hn(2) hg(4) fy cr show thesis by simp
qed

text \<open>
  A download returns 0 when the server announces a file and sends what the client does not have of it; the file
  then has its final name and the partial file is gone. \<open>off\<close> is how much of the partial file can be used.
\<close>

lemma run_download_calm:
  assumes "calm s" "wf_session_id (ct_session_id task)" "ct_remote_path task \<noteq> []" "length (ct_remote_path task) \<le> 65536"
    "ct_part_path task \<noteq> ct_target_path task"
    and "announces e p (word_of_nat (length d)) hex" "utils_is_valid_sha256_hex (Some hex)" "session_id (header p) = ct_session_id task"
    and "length d < 2 ^ 64" "\<And>bs. length (sha256 bs) = 32" "strcaseeq (hex_of (sha256 d)) hex"
    and "\<not> good_file sha256 (word_of_nat (length d)) hex (disk (c_kern s) (ct_target_path task))"
    and "length (file_data (c_kern s) (ct_part_path task)) < 2 ^ 64"
    and "(if length (file_data (c_kern s) (ct_part_path task)) \<le> length d then file_data (c_kern s) (ct_part_path task) else []) = take off d"
    and "off \<le> length d" "\<forall>c \<in> set cs. ok_chunk c" "concat cs = drop off d"
    and "rx (c_sock s) = frame p @ data_stream (ct_session_id task) cs @ frame (mk_packet CMD_FILE_END STATUS_OK (ct_session_id task) []) @ rest"
  shows "\<exists>s'. run_download sha256 e task s = (0, s') \<and> calm s' \<and> rx (c_sock s') = rest \<and>
    disk (c_kern s') = ((disk (c_kern s))(ct_part_path task := None))(ct_target_path task \<mapsto> d) \<and>
    tx (c_sock s') = tx (c_sock s) @ frame (mk_packet CMD_GETS_REQ STATUS_OK (ct_session_id task) (bytes_of (ct_remote_path task))) @
      frame (mk_packet CMD_RESUME_POS STATUS_OK (ct_session_id task) (mem64 e (host_to_net_u64 e (word_of_nat off)))) @
      frame (mk_packet CMD_ACK STATUS_OK (ct_session_id task) [])"
proof -
  let ?key = "ct_session_id task" and ?sz = "word_of_nat (length d) :: u64" and ?part = "ct_part_path task"
  obtain s1 where i: "download_info e task s = Inr (?sz, hex, s1)" "calm s1"
      "rx (c_sock s1) = data_stream ?key cs @ frame (mk_packet CMD_FILE_END STATUS_OK ?key []) @ rest"
      "tx (c_sock s1) = tx (c_sock s) @ frame (mk_packet CMD_GETS_REQ STATUS_OK ?key (bytes_of (ct_remote_path task)))"
    by (rule download_info_calm [OF assms(1-4,6,7,8,18)])
  have d1: "disk (c_kern s1) = disk (c_kern s)" using download_info_spec(2) [OF i(1)] by simp
  have ng: "\<not> good_file sha256 ?sz hex (disk (c_kern s1) (ct_target_path task))" using assms(12) d1 by simp
  obtain f w s2 where o: "download_open sha256 e task ?sz hex s1 = Inr (False, f, w, s2)" "calm s2"
    by (rule download_open_calm [of s1 sha256, OF i(2) assms(10) ng])
  have part: "length (file_data (c_kern s1) ?part) < 2 ^ 64" "file_data (c_kern s1) ?part = file_data (c_kern s) ?part"
    using assms(13) d1 by (simp_all add: file_data_def)
  have sz: "unat ?sz = length d" using assms(9) by (simp add: unat_of_nat)
  note os = download_open_spec(3) [OF part(1) o(1)]
  have o2: "c_sock s2 = c_sock s1" "f = \<lparr>fpath = ?part, fpos = unat w\<rparr>" "w \<le> ?sz" "disk (c_kern s2) ?part = Some (take off d)"
      "changes_only {?part} (c_kern s1) (c_kern s2)" "unat w = length (file_data (c_kern s2) ?part)"
    using os part(2) sz assms(14) by (simp_all add: Let_def)
  have w: "unat w = off" "file_data (c_kern s2) ?part = take off d" using o2(4,6) assms(15) by (simp_all add: file_data_def)
  then have w': "w = word_of_nat off" by (metis of_nat_unat ucast_id)
  let ?rp = "mem64 e (host_to_net_u64 e w)"
  have rp: "?rp \<noteq> []" "length ?rp = RESUME_SIZE" "length ?rp \<le> 65536" by (auto simp: RESUME_SIZE_def simp flip: length_greater_0_conv)
  obtain r s3 where r: "task_send e task CMD_RESUME_POS STATUS_OK (Some ?rp) (word_of_nat (length ?rp)) s2 = (r, s3)" by (metis prod.collapse)
  note cr = task_send_calm_some [OF r o(2) rp(1) assms(2) rp(3)] and fr = task_send_frame [OF r]
  have r0: "r = 0" "calm s3" using cr by auto
  note sr = task_send_sent_some [OF r [unfolded r0(1)] rp(1) assms(2) rp(3)]
  have miss: "unat (?sz - w) = length d - off" using o2(3) sz w by (simp add: unat_sub)
  have "\<exists>f' s'. download_loop e task (?sz - w) 0 f s3 = Inr (f', s') \<and> calm s' \<and> rx (c_sock s') = frame (mk_packet CMD_FILE_END STATUS_OK ?key []) @ rest \<and>
      tx (c_sock s') = tx (c_sock s3) \<and> fpath f' = fpath f \<and>
      disk (c_kern s') = (disk (c_kern s3))(fpath f \<mapsto> put_bytes (fpos f) (concat cs) (file_data (c_kern s3) (fpath f)))"
    by (rule download_loop_calm [where base = off])
      (use r0 assms(2,9,15,16,17) fr i(3) o2 w miss in \<open>simp_all\<close>)
  then obtain f' s4 where l: "download_loop e task (?sz - w) 0 f s3 = Inr (f', s4)" "calm s4" "rx (c_sock s4) = frame (mk_packet CMD_FILE_END STATUS_OK ?key []) @ rest"
      "tx (c_sock s4) = tx (c_sock s3)" "fpath f' = ?part" "disk (c_kern s4) = (disk (c_kern s2))(?part \<mapsto> d)"
    using fr o2(2) w assms(15,17) by (auto simp: put_bytes_end)
  have good: "good_file sha256 ?sz hex (disk (c_kern s4) ?part)" using l(6) assms(11) by (simp add: good_file_def)
  obtain s5 where fin: "download_finish sha256 e task False ?sz hex f' s4 = Inr s5" "calm s5" "rx (c_sock s5) = rest" "tx (c_sock s5) = tx (c_sock s4)"
    by (rule download_finish_calm [of s4 task rest f' sha256, OF l(2) assms(2) l(3,5) assms(10) good])
  obtain a s6 where a: "task_send e task CMD_ACK STATUS_OK None 0 s5 = (a, s6)" by (metis prod.collapse)
  note ca = task_send_calm_none [OF a fin(2) assms(2)] and fa = task_send_frame [OF a]
  have a0: "a = 0" "calm s6" using ca by auto
  note sa = task_send_sent_none [OF a [unfolded a0(1)] assms(2)]
  have run: "run_download sha256 e task s = (0, s6)"
    using i(1) o(1) r r0(1) l(1) fin(1) a a0(1) unfolding run_download_def rp(2) by simp
  have "disk (c_kern s6) = ((disk (c_kern s2))(?part := None))(ct_target_path task \<mapsto> d)"
    using download_finish_spec(3) [OF fin(1) l(5)] l(6) fa(1) by simp
  also have "\<dots> = ((disk (c_kern s))(?part := None))(ct_target_path task \<mapsto> d)"
    using o2(5) d1 by (auto simp: changes_only_def)
  finally show ?thesis using run a0(2) fin(3,4) fa(2) sa sr l(4) i(4) o2(1) w' by auto
qed

end
