(* ===== verification/Download.thy ===== *)
theory Download
  imports Client_Transfer_Runs Storage
begin

text \<open>
  Downloads from both ends. On the server: what \<open>handle_gets\<close> does to its state for every request, and the bytes it
  sends, which are the description of the file, its contents from the client's position on in packets of at most
  \<open>FILE_CHUNK_SIZE\<close> bytes, and the end. On the client: \<open>run_download\<close> publishes verified contents only. Put
  together, the output of one is the input of the other and the client ends up with the stored bytes.
\<close>

subsection \<open>Sending a file\<close>

lemma sendfile_loop_spec:
  assumes "sendfile_loop ios d n sent out = (ret, ios', sent', out')" "sent + n \<le> length d"
  shows "set ios' \<subseteq> set ios" "ret = 0 \<Longrightarrow> sent' = sent + n \<and> out' = out @ take n (drop sent d)" "ret \<noteq> 0 \<Longrightarrow> Fail \<in> set ios"
proof -
  have "set ios' \<subseteq> set ios \<and> (ret = 0 \<longrightarrow> sent' = sent + n \<and> out' = out @ take n (drop sent d)) \<and> (ret \<noteq> 0 \<longrightarrow> Fail \<in> set ios)"
    using assms
  proof (induction ios arbitrary: n sent out)
    case Nil
    then show ?case by (auto split: if_splits)
  next
    case (Cons a ios)
    show ?case
    proof (cases "n = 0 \<or> a = Fail")
      case True
      then show ?thesis using Cons.prems by (auto split: if_splits)
    next
      case False
      then consider "a = Eintr" | m where "a = Chunk m" by (cases a) auto
      then show ?thesis
      proof cases
        case 1
        then show ?thesis using Cons.IH [of n sent out] Cons.prems False by auto
      next
        case (2 m)
        let ?k = "min (Suc m) (min n (length d - sent))"
        have k: "0 < ?k" "?k \<le> n" "sent + ?k + (n - ?k) \<le> length d" using False Cons.prems(2) by auto
        have "sendfile_loop ios d (n - ?k) (sent + ?k) (out @ take ?k (drop sent d)) = (ret, ios', sent', out')"
          using Cons.prems(1) False 2 k(1) by (auto simp: Let_def split: if_splits)
        note ih = Cons.IH [OF this k(3)]
        have "take ?k (drop sent d) @ take (n - ?k) (drop (sent + ?k) d) = take n (drop sent d)"
          using k(2) take_add [of ?k "n - ?k" "drop sent d"] by (simp add: add.commute)
        then show ?thesis using ih k(2) by auto
      qed
    qed
  qed
  then show "set ios' \<subseteq> set ios" "ret = 0 \<Longrightarrow> sent' = sent + n \<and> out' = out @ take n (drop sent d)" "ret \<noteq> 0 \<Longrightarrow> Fail \<in> set ios"
    by blast+
qed

lemma sendfile_exact_calm:
  assumes "sendfile_exact d off n s = (ret, off', s')" "off + n \<le> length d" "scalm s"
  shows "ret = 0" "off' = off + n" "tx s' = tx s @ take n (drop off d)" "rx s' = rx s" "scalm s'"
proof -
  obtain r ios sent out where l: "sendfile_loop (tx_io s) (drop off d) n 0 (tx s) = (r, ios, sent, out)" by (metis prod_cases4)
  have "0 + n \<le> length (drop off d)" using assms(2) by simp
  note sp = sendfile_loop_spec [OF l this]
  have "r = 0" using sp(3) assms(3) by (auto simp: scalm_def)
  then show "ret = 0" "off' = off + n" "tx s' = tx s @ take n (drop off d)" "rx s' = rx s" "scalm s'"
    using assms(1,3) l sp by (auto simp: sendfile_exact_def scalm_def)
qed

lemma send_data_header:
  assumes "protocol_send_header e (Some (header (data_packet key c))) s = (ret, s')" "wf_session_id key" "ok_chunk c" "scalm s"
  shows "ret = 0" "tx s' @ c = tx s @ frame (data_packet key c)" "rx s' = rx s" "scalm s'"
proof -
  have wf: "wf_packet (data_packet key c)" by (rule wf_data_packet [OF assms(2,3)])
  then have le: "payload_len (header (data_packet key c)) \<le> MAX_PACKET_PAYLOAD" by (simp add: wf_packet_def)
  note sp = send_header_spec [OF assms(1) le]
  show r: "ret = 0" using sp(3) assms(4) by (auto simp: scalm_def)
  have "encode_wire_header e (header (data_packet key c)) @ c = frame (data_packet key c)"
    using wire_frame [OF wf, of e] data_packet_fields(3,6) [OF assms(3), of key] by (simp add: wire_def)
  then show "tx s' @ c = tx s @ frame (data_packet key c)" using sp(2) [OF r] by simp
  show "rx s' = rx s" "scalm s'" using sendingD [OF sp(1)] assms(4) by (auto simp: scalm_def)
qed

text \<open>Step 6 sends the rest of the file.\<close>

lemma gets_send_calm:
  assumes "off + n = length d" "wf_session_id key" "scalm s"
  shows "\<exists>s'. gets_send e key d off n s = (True, s') \<and> tx s' = tx s @ data_stream key (chunks 4096 (drop off d)) \<and> rx s' = rx s \<and> scalm s'"
  using assms
proof (induction n arbitrary: off s rule: less_induct)
  case (less n)
  show ?case
  proof (cases "n = 0")
    case True
    then show ?thesis using less.prems by (simp add: gets_send.simps [of e key d _ 0] chunks.simps [of 4096 "[]"])
  next
    case False
    let ?m = "min n 4096" let ?c = "take ?m (drop off d)"
    have fc: "unat FILE_CHUNK_SIZE = 4096" by (simp add: FILE_CHUNK_SIZE_def)
    have c: "length ?c = ?m" "ok_chunk ?c" using False less.prems(1) by (auto simp: ok_chunk_def fc)
    have h: "header (data_packet key ?c) = \<lparr>ptype = CMD_FILE_DATA, status = STATUS_OK, payload_len = word_of_nat ?m, session_id = key\<rparr>"
      using c(1) by (simp add: data_packet_def mk_packet_def)
    obtain r s1 where r: "protocol_send_header e (Some (header (data_packet key ?c))) s = (r, s1)" by (metis prod.collapse)
    note hd = send_data_header [OF r less.prems(2) c(2) less.prems(3)]
    obtain q off' s2 where q: "sendfile_exact d off ?m s1 = (q, off', s2)" by (metis prod_cases3)
    have le: "off + ?m \<le> length d" using less.prems(1) by simp
    note ex = sendfile_exact_calm [OF q le hd(4)]
    have tx: "tx s2 = tx s @ frame (data_packet key ?c)" using ex(3) hd(2) by simp
    have ch: "chunks 4096 (drop off d) = ?c # chunks 4096 (drop (off + ?m) d)"
      using False less.prems(1) by (simp add: chunks.simps [of 4096 "drop off d"] add.commute min_def)
    have step: "gets_send e key d off n s = gets_send e key d off' (n - ?m) s2"
      using False r hd(1) q ex(1) by (simp add: gets_send.simps [of e key d off n s] fc h)
    have "\<exists>s'. gets_send e key d off' (n - ?m) s2 = (True, s') \<and> tx s' = tx s2 @ data_stream key (chunks 4096 (drop off' d)) \<and>
        rx s' = rx s2 \<and> scalm s'"
      by (rule less.IH [OF _ _ less.prems(2) ex(5)]) (use False ex(2) less.prems(1) in auto)
    then show ?thesis using step tx ch ex hd by auto
  qed
qed

subsection \<open>Packets of the server on a connection that does not fail\<close>

definition server_calm :: "transfer_task_t \<Rightarrow> 'w server_t \<Rightarrow> bool" where
  "server_calm task s \<longleftrightarrow> kcalm (s_kern s) \<and> scalm (s_socks s (x_fd task))"

lemma sys_calm: "sys s = (ok, s') \<Longrightarrow> server_calm task s \<Longrightarrow> ok \<and> server_calm task s'"
  using sys_ok_step kstep_calm by (auto simp: sys_def server_calm_def split: prod.splits)

lemma send_transfer_packet_calm:
  assumes "send_transfer_packet e task type st (opt_bytes bs) (word_of_nat (length bs)) s = (ret, s')" "server_calm task s"
    "wf_session_id (x_key task)" "length bs \<le> 65536"
  shows "ret = 0" "tx (s_socks s' (x_fd task)) = tx (s_socks s (x_fd task)) @ frame (mk_packet type st (x_key task) bs)" "server_calm task s'"
proof -
  let ?p = "mk_packet type st (x_key task) bs"
  obtain r k where r: "protocol_send_packet e (Some ?p) (s_socks s (x_fd task)) = (r, k)" by (metis prod.collapse)
  have "ret = r" "s' = s\<lparr>s_socks := (s_socks s)(x_fd task := k)\<rparr>"
    using assms(1) r packet_init_mk_packet [OF assms(4)] by (auto simp: send_transfer_packet_def)
  then show "ret = 0" "tx (s_socks s' (x_fd task)) = tx (s_socks s (x_fd task)) @ frame ?p" "server_calm task s'"
    using send_packet_calm [OF r _ wf_mk_packet [OF assms(3,4)]] assms(2) by (simp_all add: server_calm_def)
qed

lemma recv_transfer_packet_calm:
  assumes "recv_transfer_packet e task s = (ret, q, s')" "server_calm task s" "wf_session_id (x_key task)"
    "wf_packet p" "session_id (header p) = x_key task" "rx (s_socks s (x_fd task)) = frame p @ rest"
  shows "ret = 0" "q = p\<lparr>owns_payload := payload_len (header p) \<noteq> 0\<rparr>" "rx (s_socks s' (x_fd task)) = rest"
    "tx (s_socks s' (x_fd task)) = tx (s_socks s (x_fd task))" "server_calm task s'"
proof -
  obtain m s1 where m: "sys s = (m, s1)" by (metis prod.collapse)
  note cm = sys_calm [OF m assms(2)] and fm = sys_frame [OF m]
  obtain r x k where r: "protocol_recv_packet e True (s_socks s1 (x_fd task)) = (r, x, k)" by (metis prod_cases3)
  have sc: "scalm (s_socks s1 (x_fd task))" "rx (s_socks s1 (x_fd task)) = frame p @ rest" using cm fm assms(6) by (simp_all add: server_calm_def)
  note rp = recv_packet_calm [OF r sc(1) assms(4) sc(2)]
  have "ret = 0 \<and> q = x \<and> s' = s1\<lparr>s_socks := (s_socks s1)(x_fd task := k)\<rparr>"
    using assms(1,5) m cm r rp by (simp add: recv_transfer_packet_def session_id_equal_def)
  then show "ret = 0" "q = p\<lparr>owns_payload := payload_len (header p) \<noteq> 0\<rparr>" "rx (s_socks s' (x_fd task)) = rest"
    "tx (s_socks s' (x_fd task)) = tx (s_socks s (x_fd task))" "server_calm task s'"
    using rp cm fm by (simp_all add: server_calm_def)
qed

subsection \<open>The contents\<close>

lemma resume_offset:
  assumes "p = resume_packet e type key off"
  shows "payload p = Some (mem64 e (host_to_net_u64 e off))" "unat (payload_len (header p)) = RESUME_SIZE"
    "net_to_host_u64 e (rp_offset (load_resume e (the (payload p)))) = off"
  using assms length_mem64_8 [of e "host_to_net_u64 e off"]
  by (simp_all add: resume_packet_def mk_packet_def load_resume_def read_at_def RESUME_SIZE_def unat_of_nat)

text \<open>From the client's position on the contents are sent and the client's last packet is read.\<close>

lemma gets_stream_calm:
  assumes calm: "server_calm task s" and key: "wf_session_id (x_key task)" and d: "disk_of s path = Some d" "length d < 2 ^ 64" "off \<le> length d"
    and rx: "rx (s_socks s (x_fd task)) = frame (resume_packet e CMD_RESUME_POS (x_key task) (word_of_nat off)) @
      frame (mk_packet CMD_ACK STATUS_OK (x_key task) []) @ rest"
  shows "tx (s_socks (gets_stream e task path s) (x_fd task)) = tx (s_socks s (x_fd task)) @
      data_stream (x_key task) (chunks 4096 (drop off d)) @ frame (mk_packet CMD_FILE_END STATUS_OK (x_key task) [])"
    "rx (s_socks (gets_stream e task path s) (x_fd task)) = rest"
proof -
  let ?key = "x_key task" and ?fd = "x_fd task" and ?o = "word_of_nat off :: u64"
  let ?p = "resume_packet e CMD_RESUME_POS ?key ?o"
  obtain r q s1 where r: "recv_transfer_packet e task s = (r, q, s1)" by (metis prod_cases3)
  have sid: "session_id (header ?p) = ?key" by (simp add: resume_packet_def mk_packet_def)
  note rc = recv_transfer_packet_calm [OF r calm key wf_resume_packet [OF key] sid rx] and rf = recv_transfer_packet_frame [OF r]
  note ro = resume_offset [OF refl, of e CMD_RESUME_POS ?key ?o]
  have uo: "unat ?o = off" using d(2,3) by (simp add: unat_of_nat)
  obtain f k where f: "open_read path (s_kern s1) = (f, k)" by (metis prod.collapse)
  have k: "f \<noteq> None" "disk k = disk_of s" "kcalm k"
    using open_read_step [OF f] open_read_disk(1) [OF f] rc(5) rf(2) d(1) kstep_calm by (auto simp: server_calm_def)
  have c1: "server_calm task (s1\<lparr>s_kern := k\<rparr>)" using rc(5) k(3) by (simp add: server_calm_def)
  obtain y s2 where y: "sys (s1\<lparr>s_kern := k\<rparr>) = (y, s2)" by (metis prod.collapse)
  note cy = sys_calm [OF y c1] and fy = sys_frame [OF y]
  have dd: "file_data (s_kern s2) path = d" using fy(2) k(2) d(1) by (simp add: file_data_def)
  obtain s3 where g: "gets_send e ?key d off (length d - off) (s_socks s2 ?fd) = (True, s3)"
      "tx s3 = tx (s_socks s2 ?fd) @ data_stream ?key (chunks 4096 (drop off d))" "rx s3 = rx (s_socks s2 ?fd)" "scalm s3"
    using gets_send_calm [of off "length d - off" d ?key "s_socks s2 ?fd" e] d(3) key cy by (auto simp: server_calm_def)
  let ?s3 = "s2\<lparr>s_socks := (s_socks s2)(?fd := s3)\<rparr>"
  have c3: "server_calm task ?s3" using cy g(4) by (simp add: server_calm_def)
  obtain t s4 where t: "send_transfer_packet e task CMD_FILE_END STATUS_OK None 0 ?s3 = (t, s4)" by (metis prod.collapse)
  note ct = send_transfer_packet_calm [of e task CMD_FILE_END STATUS_OK "[]" ?s3 t s4, simplified, OF t c3 key] and ft = send_transfer_packet_frame [OF t]
  obtain z x s5 where z: "recv_transfer_packet e task s4 = (z, x, s5)" by (metis prod_cases3)
  have rx4: "rx (s_socks s4 ?fd) = frame (mk_packet CMD_ACK STATUS_OK ?key []) @ rest" using ft(3) g(3) fy(3) rc(3) by simp
  have wa: "wf_packet (mk_packet CMD_ACK STATUS_OK ?key [])" "session_id (header (mk_packet CMD_ACK STATUS_OK ?key [])) = ?key"
    using wf_mk_packet [OF key, of "[]"] by (simp, simp add: mk_packet_def)
  note cz = recv_transfer_packet_calm [OF z ct(3) key wa rx4]
  have le: "\<not> ?o > word_of_nat (length d)" using uo d(2,3) by (simp add: word_less_nat_alt unat_of_nat)
  have q: "ptype (header q) = CMD_RESUME_POS" "payload q \<noteq> None" "unat (payload_len (header q)) = RESUME_SIZE"
      "net_to_host_u64 e (rp_offset (load_resume e (the (payload q)))) = ?o"
    using rc(2) ro by (auto simp: resume_packet_def mk_packet_def simp del: length_mem64)
  obtain f0 where f0: "f = Some f0" using k(1) by blast
  have "gets_stream e task path s = s5"
    using r rc(1) q f f0 y cy le g(1) t ct(1) z by (auto simp: gets_stream_def dd uo Let_def)
  then show "tx (s_socks (gets_stream e task path s) ?fd) = tx (s_socks s ?fd) @
      data_stream ?key (chunks 4096 (drop off d)) @ frame (mk_packet CMD_FILE_END STATUS_OK ?key [])"
    "rx (s_socks (gets_stream e task path s) ?fd) = rest"
    using cz ct(2) g(2) fy(3) rc(4) by simp_all
qed

subsection \<open>Which row is found\<close>

lemma find_node_filter:
  assumes "tables_inv coll t" "find_node coll t u p = Some r"
  shows "filter (node_is coll u p) (paths t) = [r]"
proof -
  have dist: "distinct (map (\<lambda>r. (pr_user r, coll (pr_path r))) (paths t))" using assms(1) by (simp add: tables_inv_def paths_ok_def)
  obtain ys where ys: "filter (node_is coll u p) (paths t) = r # ys" using filter_find_Some [OF assms(2) [unfolded find_node_def]] by blast
  have "distinct (map (\<lambda>r. (pr_user r, coll (pr_path r))) (r # ys))" using distinct_map_filter [OF dist, of "node_is coll u p"] ys by simp
  moreover have "\<forall>q \<in> set (r # ys). node_is coll u p q" unfolding ys [symmetric] by simp
  ultimately have "ys = []" by (cases ys) (auto simp: node_is_def)
  then show ?thesis using ys by simp
qed

text \<open>The row of a path, and the stored file behind the row of a file.\<close>

lemma find_node_file:
  assumes "tables_inv coll t" "find_node coll t u p = Some r" "pr_type r = 0"
  obtains f where "pr_file r = Some (fr_id f)" "find (\<lambda>g. fr_id g = fr_id f) (files t) = Some f" "length (fr_hash f) = 64" "f \<in> set (files t)"
proof -
  have r: "r \<in> set (paths t)" using assms(2) by (auto simp: find_node_def find_Some_iff)
  then obtain i where i: "pr_file r = Some i" using assms(1,3) by (fastforce simp: tables_inv_def paths_ok_def split: if_splits)
  then have "i \<in> fr_id ` set (files t)" using r assms(1) by (simp add: tables_inv_def files_ok_def)
  then obtain f where f: "f \<in> set (files t)" "fr_id f = i" by blast
  have "distinct (map fr_id (files t))" "length (fr_hash f) = 64" using assms(1) f(1) by (auto simp: tables_inv_def files_ok_def)
  with find_distinct [of fr_id "files t" f] f i show thesis by (intro that [of f]) auto
qed

text \<open>
  The four outcomes of \<open>dao_get_file_meta\<close>; for a directory the NULL columns are read and the call does not
  return.
\<close>

lemma dao_get_file_meta_cases:
  assumes ready: "dao_ready M coll db pool w" "results_stored M" and p: "plain p" "length p \<le> 800"
  obtains (failed) w' where "dao_get_file_meta M u p stale pool w = Some (DAO_DB_ERROR, None, pool, w')" "db w' = db w"
  | (missing) w' where "dao_get_file_meta M u p stale pool w = Some (DAO_NOT_FOUND, None, pool, w')" "db w' = db w"
      "find_node coll (tabs (db w)) (unat u) p = None"
  | (dir) r where "dao_get_file_meta M u p stale pool w = None" "find_node coll (tabs (db w)) (unat u) p = Some r" "pr_type r = 1"
  | (stored) w' r f where "dao_get_file_meta M u p stale pool w = Some (DAO_OK, Some \<lparr>fm_path_id = word_of_nat (pr_id r), fm_file_id = word_of_nat (fr_id f),
       fm_file_name = strncpy NAME_MAX (pr_name r), fm_size = word_of_nat (fr_size f), fm_sha256_hex = fr_hash f @ stale\<rparr>, pool, w')" "db w' = db w"
      "find_node coll (tabs (db w)) (unat u) p = Some r" "pr_type r = 0" "pr_file r = Some (fr_id f)" "f \<in> set (files (tabs (db w)))"
proof -
  note d = dao_readyD [OF ready(1)]
  have inv: "tables_inv coll (tabs (db w))" using d(3) by (simp add: db_ok_def)
  obtain ret res w' where q: "database_pool_query M (sql_text 1024 (toks (Select_Meta (unat u) p))) pool w = Some (ret, res, pool, w')"
    "db w' = db w" "ret = 0 \<and> res = Some (select coll (Select_Meta (unat u) p) (tabs (db w))) \<or> ret = - 1"
    by (rule pool_select [OF d(1) ready(2) d(2) fits_meta [OF p] _ d(5)]) simp
  show thesis
  proof (cases "find_node coll (tabs (db w)) (unat u) p")
    case None
    then have "filter (node_is coll (unat u) p) (paths (tabs (db w))) = []" by (simp add: find_node_def filter_find_None)
    then show thesis using q failed [of w'] missing [of w'] None by (auto simp: dao_get_file_meta_def)
  next
    case (Some r)
    note fl = find_node_filter [OF inv Some]
    have r: "r \<in> set (paths (tabs (db w)))" using Some by (auto simp: find_node_def find_Some_iff)
    show thesis
    proof (cases "pr_type r = 0")
      case True
      obtain f where f: "pr_file r = Some (fr_id f)" "find (\<lambda>g. fr_id g = fr_id f) (files (tabs (db w))) = Some f" "length (fr_hash f) = 64"
          "f \<in> set (files (tabs (db w)))" by (rule find_node_file [OF inv Some True])
      show thesis
        by (rule dao_get_file_meta_spec [OF ready p fl f(1) True f(2,3), of stale])
          (use failed stored [OF _ _ Some True f(1,4)] in blast)
    next
      case False
      then have "pr_file r = None" "pr_type r = 1" using inv r by (auto simp: tables_inv_def paths_ok_def split: if_splits)
      then show thesis using q failed [of w'] dir [of r] Some fl by (auto simp: dao_get_file_meta_def meta_row_def text_col_def col_def)
    qed
  qed
qed

subsection \<open>Every request\<close>

lemma gets_stream_frame: "own_io task s (gets_stream e task path s)" "disk_of (gets_stream e task path s) = disk_of s"
proof -
  obtain r q s1 where r: "recv_transfer_packet e task s = (r, q, s1)" by (metis prod_cases3)
  obtain f k where f: "open_read path (s_kern s1) = (f, k)" by (metis prod.collapse)
  obtain y s2 where y: "sys (s1\<lparr>s_kern := k\<rparr>) = (y, s2)" by (metis prod.collapse)
  note rf = recv_transfer_packet_frame [OF r] and of = open_read_disk(1) [OF f] and fy = sys_frame [OF y]
  have two: "own_io task s s2" "disk_of s2 = disk_of s"
    using rf(1,2) fy(1) [of task] fy(2) of own_io_trans [of task s s1 s2] by (simp_all add: own_io_def)
  let ?d = "file_data (s_kern s2) path" and ?o = "net_to_host_u64 e (rp_offset (load_resume e (the (payload q))))"
  obtain ok k3 where g: "gets_send e (x_key task) ?d (unat ?o) (length ?d - unat ?o) (s_socks s2 (x_fd task)) = (ok, k3)" by (metis prod.collapse)
  let ?s3 = "s2\<lparr>s_socks := (s_socks s2)(x_fd task := k3)\<rparr>"
  obtain t s4 where t: "send_transfer_packet e task CMD_FILE_END STATUS_OK None 0 ?s3 = (t, s4)" by (metis prod.collapse)
  obtain z x s5 where z: "recv_transfer_packet e task s4 = (z, x, s5)" by (metis prod_cases3)
  note ft = send_transfer_packet_frame [OF t] and fz = recv_transfer_packet_frame [OF z]
  have four: "own_io task s s4" "disk_of s4 = disk_of s" using two ft(1,2) own_io_trans [of task s ?s3 s4] by simp_all
  have five: "own_io task s s5" "disk_of s5 = disk_of s" using four fz(1,2) own_io_trans [of task s s4 s5] by simp_all
  have "gets_stream e task path s \<in> {s1, answer e task CMD_ERROR STATUS_PROTOCOL_ERROR s1, s1\<lparr>s_kern := k\<rparr>, s2, ?s3, s4, s5}"
    using r f y g t z by (auto simp: gets_stream_def Let_def split: option.split)
  then show "own_io task s (gets_stream e task path s)" "disk_of (gets_stream e task path s) = disk_of s"
    using rf(1,2) of two four five by auto
qed

text \<open>The path in the request, or \<open>None\<close> when there is none that fits the buffer.\<close>

definition gets_request :: "transfer_task_t \<Rightarrow> string option" where
  "gets_request task =
     (case payload (x_packet task) of
        None \<Rightarrow> None
      | Some bs \<Rightarrow>
          if payload_len (x_header task) = 0 \<or> unat (payload_len (x_header task)) \<ge> PATH_MAX then None
          else Some (cstr_of (take (unat (payload_len (x_header task))) bs)))"

definition gets_path :: "transfer_task_t \<Rightarrow> string \<Rightarrow> bool" where
  "gets_path task p \<longleftrightarrow> (\<exists>str. gets_request task = Some str \<and> p = path_of (resolve (ctx_cwd (x_session task)) str))"

text \<open>A request without a path, or one that is too long.\<close>

definition gets_bad :: "transfer_task_t \<Rightarrow> bool" where
  "gets_bad task \<longleftrightarrow>
     (case gets_request task of
        None \<Rightarrow> True
      | Some str \<Rightarrow> let c = ctx_cwd (x_session task) in \<not> (length (full_path c str) < PATH_MAX \<and> length (path_of (resolve c str)) < PATH_MAX))"

abbreviation "x_node coll db task s p \<equiv> find_node coll (tabs (db (s_world s))) (unat (ctx_user_id (x_session task))) p"

text \<open>The name under which the server keeps contents.\<close>

abbreviation "stored_name task hex \<equiv> fst (snprintf (PATH_MAX + NAME_MAX + 1) (x_storage_root task @ ''/'' @ hex))"

lemma handle_gets_cases:
  assumes ok: "data_ok M coll db sha256 (x_storage_root task) s" "room (db (s_world s))"
    and names: "\<forall>str. gets_request task = Some str \<longrightarrow> names_ok (ctx_cwd (x_session task)) str"
  obtains (refused) st w where "handle_gets M e stale task s = Some (answer e task CMD_ERROR st (s\<lparr>s_world := w\<rparr>))" "db w = db (s_world s)"
      "st = STATUS_BAD_REQUEST \<and> gets_bad task \<or> st = STATUS_DB_ERROR \<and> \<not> gets_bad task \<or> st = STATUS_FILE_NOTEXIST \<and> (\<exists>p. gets_path task p \<and> x_node coll db task s p = None)"
  | (dir) p r where "handle_gets M e stale task s = None" "gets_path task p" "x_node coll db task s p = Some r" "pr_type r = 1"
  | (stored) p r f w where "gets_path task p" "x_node coll db task s p = Some r" "pr_type r = 0" "pr_file r = Some (fr_id f)"
      "f \<in> set (files (tabs (db (s_world s))))" "db w = db (s_world s)"
      "handle_gets M e stale task s =
         (case send_transfer_packet e task CMD_GETS_RESP STATUS_OK
            (Some (gets_info e \<lparr>fm_path_id = word_of_nat (pr_id r), fm_file_id = word_of_nat (fr_id f), fm_file_name = strncpy NAME_MAX (pr_name r),
               fm_size = word_of_nat (fr_size f), fm_sha256_hex = fr_hash f @ stale\<rparr>)) (word_of_nat FILE_INFO_SIZE) (s\<lparr>s_world := w\<rparr>) of
            (ret, s1) \<Rightarrow> Some (if ret \<noteq> 0 then s1 else gets_stream e task (stored_name task (fr_hash f @ stale)) s1))"
proof (cases "gets_request task")
  case None
  then have "handle_gets M e stale task s = Some (answer e task CMD_ERROR STATUS_BAD_REQUEST (s\<lparr>s_world := s_world s\<rparr>))"
    by (auto simp: handle_gets_def gets_request_def split: option.splits if_splits)
  then show thesis by (rule refused) (simp_all add: gets_bad_def None)
next
  case (Some str)
  let ?c = "ctx_cwd (x_session task)" and ?u = "ctx_user_id (x_session task)"
  obtain bs where bs: "payload (x_packet task) = Some bs" "\<not> (payload_len (x_header task) = 0 \<or> unat (payload_len (x_header task)) \<ge> PATH_MAX)"
      "cstr_of (take (unat (payload_len (x_header task))) bs) = str"
    using Some by (auto simp: gets_request_def split: option.splits if_splits)
  show thesis
  proof (cases "gets_bad task")
    case True
    then obtain out where "normalize_cd_path (Some ?c) (Some str) (Some []) PATH_MAX = Some (- 1, Some out)"
      using normalize_result(2) [of PATH_MAX ?c str "[]"] Some by (auto simp: gets_bad_def Let_def)
    then have "handle_gets M e stale task s = Some (answer e task CMD_ERROR STATUS_BAD_REQUEST (s\<lparr>s_world := s_world s\<rparr>))"
      using bs by (simp add: handle_gets_def)
    then show thesis by (rule refused) (simp_all add: True)
  next
    case False
    let ?p = "path_of (resolve ?c str)"
    have n: "normalize_cd_path (Some ?c) (Some str) (Some []) PATH_MAX = Some (0, Some ?p)"
      using normalize_result(1) [of PATH_MAX ?c str "[]"] False Some by (simp add: gets_bad_def Let_def)
    note dk = data_okD [OF ok]
    have gp: "plain ?p" "length ?p \<le> 800" "gets_path task ?p" using names Some by (auto simp: names_ok_def good_path_def gets_path_def)
    show thesis
    proof (rule dao_get_file_meta_cases [OF dk(1,2) gp(1,2), of ?u stale])
      fix w assume "dao_get_file_meta M ?u ?p stale (s_pool s) (s_world s) = Some (DAO_DB_ERROR, None, s_pool s, w)" "db w = db (s_world s)"
      then show thesis using bs n by (intro refused [of STATUS_DB_ERROR w]) (simp_all add: handle_gets_def False)
    next
      fix w assume "dao_get_file_meta M ?u ?p stale (s_pool s) (s_world s) = Some (DAO_NOT_FOUND, None, s_pool s, w)" "db w = db (s_world s)"
        "x_node coll db task s ?p = None"
      then show thesis using bs n gp(3) by (intro refused [of STATUS_FILE_NOTEXIST w]) (auto simp: handle_gets_def)
    next
      fix r assume "dao_get_file_meta M ?u ?p stale (s_pool s) (s_world s) = None" "x_node coll db task s ?p = Some r" "pr_type r = 1"
      then show thesis using bs n gp(3) by (intro dir [of ?p r]) (simp_all add: handle_gets_def)
    next
      fix w r f assume a: "dao_get_file_meta M ?u ?p stale (s_pool s) (s_world s) = Some (DAO_OK, Some \<lparr>fm_path_id = word_of_nat (pr_id r), fm_file_id = word_of_nat (fr_id f),
         fm_file_name = strncpy NAME_MAX (pr_name r), fm_size = word_of_nat (fr_size f), fm_sha256_hex = fr_hash f @ stale\<rparr>, s_pool s, w)" "db w = db (s_world s)"
        "x_node coll db task s ?p = Some r" "pr_type r = 0" "pr_file r = Some (fr_id f)" "f \<in> set (files (tabs (db (s_world s))))"
      show thesis by (rule stored [OF gp(3) a(3-6,2)]) (use a(1) bs n in \<open>simp add: handle_gets_def split: prod.split\<close>)
    qed
  qed
qed

text \<open>What the server sends for a file that it has: its description, the missing contents and the end.\<close>

lemma handle_gets_stored:
  assumes ok: "data_ok M coll db sha256 (x_storage_root task) s" "room (db (s_world s))"
    and names: "\<forall>str. gets_request task = Some str \<longrightarrow> names_ok (ctx_cwd (x_session task)) str" "\<not> gets_bad task" "gets_path task p"
    and row: "x_node coll db task s p = Some r" "pr_file r = Some (fr_id f)" "f \<in> set (files (tabs (db (s_world s))))" "pr_type r = 0"
    and d: "disk_of s (x_storage_root task @ ''/'' @ fr_hash f) = Some d" "length d < 2 ^ 64" "off \<le> length d" "length (x_storage_root task) < PATH_MAX"
    and calm: "server_calm task s" and key: "wf_session_id (x_key task)"
    and rx: "rx (s_socks s (x_fd task)) = frame (resume_packet e CMD_RESUME_POS (x_key task) (word_of_nat off)) @
      frame (mk_packet CMD_ACK STATUS_OK (x_key task) []) @ rest"
  obtains s' where "handle_gets M e [] task s = Some s'"
      "tx (s_socks s' (x_fd task)) = tx (s_socks s (x_fd task)) @ frame (mk_packet CMD_ERROR STATUS_DB_ERROR (x_key task) [])"
  | s' info where "handle_gets M e [] task s = Some s'"
      "info = gets_info e \<lparr>fm_path_id = word_of_nat (pr_id r), fm_file_id = word_of_nat (fr_id f), fm_file_name = strncpy NAME_MAX (pr_name r),
         fm_size = word_of_nat (fr_size f), fm_sha256_hex = fr_hash f\<rparr>"
      "tx (s_socks s' (x_fd task)) = tx (s_socks s (x_fd task)) @ frame (mk_packet CMD_GETS_RESP STATUS_OK (x_key task) info) @
         data_stream (x_key task) (chunks 4096 (drop off d)) @ frame (mk_packet CMD_FILE_END STATUS_OK (x_key task) [])"
      "rx (s_socks s' (x_fd task)) = rest"
proof -
  have same: "p' = p" if "gets_path task p'" for p' using that names(3) by (auto simp: gets_path_def)
  have inv: "tables_inv coll (tabs (db (s_world s)))" using data_okD(5) [OF ok] by (simp add: db_ok_def)
  show thesis
  proof (rule handle_gets_cases [OF ok names(1), of e "[]"])
    fix st w assume a: "handle_gets M e [] task s = Some (answer e task CMD_ERROR st (s\<lparr>s_world := w\<rparr>))"
      "st = STATUS_BAD_REQUEST \<and> gets_bad task \<or> st = STATUS_DB_ERROR \<and> \<not> gets_bad task \<or> st = STATUS_FILE_NOTEXIST \<and> (\<exists>p. gets_path task p \<and> x_node coll db task s p = None)"
    then have st: "st = STATUS_DB_ERROR" using names(2) same row(1) by auto
    have "server_calm task (s\<lparr>s_world := w\<rparr>)" using calm by (simp add: server_calm_def)
    note sp = send_transfer_packet_calm [of e task CMD_ERROR st "[]" "s\<lparr>s_world := w\<rparr>", simplified, OF prod.collapse [symmetric] this key]
    show thesis by (rule that(1) [OF a(1)]) (use sp(2) st in \<open>simp add: answer_def\<close>)
  next
    fix p' r' assume "gets_path task p'" "x_node coll db task s p' = Some r'" "pr_type r' = 1"
    then show thesis using same row by auto
  next
    fix p' r' f' w assume a: "gets_path task p'" "x_node coll db task s p' = Some r'" "pr_type r' = 0" "pr_file r' = Some (fr_id f')"
      "f' \<in> set (files (tabs (db (s_world s))))" "db w = db (s_world s)"
      "handle_gets M e [] task s =
         (case send_transfer_packet e task CMD_GETS_RESP STATUS_OK
            (Some (gets_info e \<lparr>fm_path_id = word_of_nat (pr_id r'), fm_file_id = word_of_nat (fr_id f'), fm_file_name = strncpy NAME_MAX (pr_name r'),
               fm_size = word_of_nat (fr_size f'), fm_sha256_hex = fr_hash f' @ []\<rparr>)) (word_of_nat FILE_INFO_SIZE) (s\<lparr>s_world := w\<rparr>) of
            (ret, s1) \<Rightarrow> Some (if ret \<noteq> 0 then s1 else gets_stream e task (stored_name task (fr_hash f' @ [])) s1))"
    have r': "r' = r" using same [OF a(1)] a(2) row(1) by simp
    have "distinct (map fr_id (files (tabs (db (s_world s)))))" using inv by (simp add: tables_inv_def files_ok_def)
    then have f': "f' = f" using r' a(4,5) row(2,3) by (auto simp: distinct_map inj_on_def)
    define info where "info = gets_info e \<lparr>fm_path_id = word_of_nat (pr_id r), fm_file_id = word_of_nat (fr_id f), fm_file_name = strncpy NAME_MAX (pr_name r),
         fm_size = word_of_nat (fr_size f), fm_sha256_hex = fr_hash f\<rparr>"
    have il: "length info = FILE_INFO_SIZE" by (simp add: info_def gets_info_def)
    then have ib: "info \<noteq> []" "length info \<le> 65536" by (auto simp: FILE_INFO_SIZE_def)
    obtain q s1 where q: "send_transfer_packet e task CMD_GETS_RESP STATUS_OK (Some info) (word_of_nat (length info)) (s\<lparr>s_world := w\<rparr>) = (q, s1)"
      by (metis prod.collapse)
    have c0: "server_calm task (s\<lparr>s_world := w\<rparr>)" using calm by (simp add: server_calm_def)
    have q': "send_transfer_packet e task CMD_GETS_RESP STATUS_OK (opt_bytes info) (word_of_nat (length info)) (s\<lparr>s_world := w\<rparr>) = (q, s1)"
      using q ib(1) by simp
    note sp = send_transfer_packet_calm [OF q' c0 key ib(2)] and sf = send_transfer_packet_frame [OF q]
    have len: "length (fr_hash f) = 64" using inv row(3) by (simp add: tables_inv_def files_ok_def)
    then have nm: "stored_name task (fr_hash f) = x_storage_root task @ ''/'' @ fr_hash f" using d(4) by (simp add: snprintf_def)
    have d1: "disk_of s1 (x_storage_root task @ ''/'' @ fr_hash f) = Some d" using sf(2) d(1) by simp
    have rx1: "rx (s_socks s1 (x_fd task)) = frame (resume_packet e CMD_RESUME_POS (x_key task) (word_of_nat off)) @
        frame (mk_packet CMD_ACK STATUS_OK (x_key task) []) @ rest" using sf(3) rx by simp
    note st = gets_stream_calm [OF sp(3) key d1 d(2,3) rx1]
    have "handle_gets M e [] task s = Some (gets_stream e task (x_storage_root task @ ''/'' @ fr_hash f) s1)"
      using a(7) q sp(1) nm il by (simp add: r' f' info_def)
    from that(2) [OF this info_def] st sp(2) show thesis by simp
  qed
qed

subsection \<open>The client reads what the server sends\<close>

lemma gets_info_announces:
  assumes "wf_session_id key" "valid_hex (fm_sha256_hex meta)" "info = gets_info e meta"
  shows "announces e (mk_packet CMD_GETS_RESP STATUS_OK key info) (fm_size meta) (fm_sha256_hex meta)"
proof -
  let ?i = "\<lparr>fi_file_name = char_array NAME_MAX (fm_file_name meta), fi_file_size = host_to_net_u64 e (fm_size meta),
      fi_sha256_hex = char_array 65 (fm_sha256_hex meta)\<rparr>"
  have info: "info = store_file_info e ?i" "length info = FILE_INFO_SIZE" using assms(3) by (simp_all add: gets_info_def)
  then have ne: "info \<noteq> []" using info(2) by (metis FILE_INFO_SIZE_def list.size(3) zero_neq_numeral)
  have ld: "load_file_info e info = ?i" unfolding info(1) by (rule load_store_file_info) simp_all
  have h: "length (fm_sha256_hex meta) = 64" "is_cstr (fm_sha256_hex meta)"
    using valid_hexD [OF assms(2)] by (auto simp: plain_def is_cstr_def)
  then have "take 64 (char_array 65 (fm_sha256_hex meta)) = bytes_of (fm_sha256_hex meta)"
    by (simp add: char_array_def strncpy_def bytes_of_def)
  moreover have "cstr_of (bytes_of (fm_sha256_hex meta)) = fm_sha256_hex meta" using h(2) by (simp add: cstr_of_bytes_of)
  moreover have "wf_packet (mk_packet CMD_GETS_RESP STATUS_OK key info)" by (rule wf_mk_packet [OF assms(1)]) (simp add: info(2) FILE_INFO_SIZE_def)
  ultimately show ?thesis using ne info(2) ld
    by (simp add: announces_def mk_packet_def FILE_INFO_SIZE_def unat_of_nat)
qed

subsection \<open>Properties\<close>


definition sample_download :: "string \<Rightarrow> transfer_task_t" where
  "sample_download path = sample_upload\<lparr>x_packet := (mk_packet CMD_GETS_REQ STATUS_OK sample_key (bytes_of path))\<lparr>owns_payload := True\<rparr>\<rparr>"

definition sample_client_task :: client_task_t where
  "sample_client_task =
     \<lparr>ct_event = \<lparr>ev_kind = TRANSFER_DOWNLOAD, ev_result = TRANSFER_RESULT_OK, ev_path = ''f''\<rparr>, ct_kind = TRANSFER_DOWNLOAD, ct_canceled = False,
      ct_socket_fd = 4, ct_session_id = sample_key, ct_host = ''h'', ct_port = ''1'', ct_connect_timeout_ms = 1, ct_io_timeout_ms = 1,
      ct_local_path = ''g'', ct_remote_path = ''f'', ct_target_path = ''f'', ct_part_path = ''f.part''\<rparr>"

definition sample_client :: "byte list \<Rightarrow> xfer_t" where
  "sample_client input = \<lparr>c_sock = sample_sock input, c_kern = \<lparr>disk = [''f.part'' \<mapsto> [1, 2], ''g'' \<mapsto> [9, 9]], kio = [Chunk 1, Eintr], kok = []\<rparr>, c_cancel = None\<rparr>"

definition sample_resume :: "byte list" where
  "sample_resume = frame (resume_packet Little CMD_RESUME_POS sample_key 2) @ frame (mk_packet CMD_ACK STATUS_OK sample_key [])"

lemma sample_node: "find_node (\<lambda>s. s) (tabs (srv_db sample_server)) 1 ''/f'' = Some (file_path_row 3 1 ''/f'' 7 1 ''f'')"
    "find_node (\<lambda>s. s) (tabs (srv_db sample_server)) 1 ''/d'' = Some (dir_row 2 1 ''/d'' 1 ''d'')"
    "files (tabs (srv_db sample_server)) = [\<lparr>fr_id = 7, fr_hash = sample_hash, fr_size = 5, fr_refs = 1\<rparr>]"
  by (simp_all add: find_node_def node_is_def sample_server_def sample_tables_def file_path_row_def dir_row_def)

lemma sample_paths: "path_of (resolve ''/'' ''f'') = ''/f''" "path_of (resolve ''/'' ''d'') = ''/d''" "full_path ''/'' ''f'' = ''/f''" "full_path ''/'' ''d'' = ''/d''"
    "names_ok ''/'' ''f''" "names_ok ''/'' ''d''"
  by (simp_all add: names_ok_def resolve_def full_path_def components_def walk_def path_of_def good_path_def plain_def Q_def NUL_def)


text \<open>An error with one of these status codes is the only answer.\<close>

definition gets_refused :: "endian \<Rightarrow> transfer_task_t \<Rightarrow> u32 set \<Rightarrow> 'w server_t \<Rightarrow> 'w server_t \<Rightarrow> bool" where
  "gets_refused e task sts s s' \<longleftrightarrow> (\<exists>st \<in> sts. \<exists>w. s' = answer e task CMD_ERROR st (s\<lparr>s_world := w\<rparr>))"



text \<open>
  C12. The client publishes verified contents only: whatever the server sends, whichever call fails and whenever the user
  cancels, a download touches the target and the partial file only, and when it returns 0, or when the target has
  changed at all, the target has the size and the hash that the server announced.
\<close>

theorem run_download_publishes_verified:
  assumes "ct_part_path task \<noteq> ct_target_path task" "length (file_data (c_kern s) (ct_part_path task)) < 2 ^ 64" "wf_session_id (ct_session_id task)"
  shows "case run_download sha256 e task s of (ret, s') \<Rightarrow>
    changes_only {ct_part_path task, ct_target_path task} (c_kern s) (c_kern s') \<and>
    (ret = 0 \<or> disk (c_kern s') (ct_target_path task) \<noteq> disk (c_kern s) (ct_target_path task) \<longrightarrow>
       (\<exists>p rest sz hex. rx (c_sock s) = frame p @ rest \<and> announces e p sz hex \<and>
          good_file sha256 sz hex (disk (c_kern s') (ct_target_path task))))"
  using run_download_outcome [OF _ assms] by (auto simp: download_outcome_def)

theorem run_download_publishes_verified_witness:
  "\<exists>ret s'. run_download sample_sha256 Little sample_client_task (sample_client []) = (ret, s') \<and> ret \<noteq> 0 \<and> disk (c_kern s') ''f'' = None"
proof -
  obtain ret s' where r: "run_download sample_sha256 Little sample_client_task (sample_client []) = (ret, s')" by (metis prod.collapse)
  have f: "wf_packet p \<Longrightarrow> [] \<noteq> frame p @ rest" for p rest using length_frame by fastforce
  have "case run_download sample_sha256 Little sample_client_task (sample_client []) of (ret, s') \<Rightarrow>
    changes_only {ct_part_path sample_client_task, ct_target_path sample_client_task} (c_kern (sample_client [])) (c_kern s') \<and>
    (ret = 0 \<or> disk (c_kern s') (ct_target_path sample_client_task) \<noteq> disk (c_kern (sample_client [])) (ct_target_path sample_client_task) \<longrightarrow>
       (\<exists>p rest sz hex. rx (c_sock (sample_client [])) = frame p @ rest \<and> announces Little p sz hex \<and>
          good_file sample_sha256 sz hex (disk (c_kern s') (ct_target_path sample_client_task))))"
    by (rule run_download_publishes_verified)
      (use sample_upload_request(3) in \<open>simp_all add: sample_client_task_def sample_client_def file_data_def\<close>)
  with r f show ?thesis by (auto simp: announces_def sample_client_task_def sample_client_def sample_sock_def)
qed

end
