(* ===== verification/Upload.thy ===== *)
theory Upload
  imports Download
begin

text \<open>
  Uploads from both ends: with an operating system that refuses nothing, the packets of \<open>run_upload\<close> bring the file
  into the server's storage, and the packets of \<open>handle_puts\<close> are those that the client waits for.
\<close>

subsection \<open>The partial file\<close>

lemma server_kern_calm: "server_calm task s \<Longrightarrow> kstep (s_kern s) k \<Longrightarrow> server_calm task (s\<lparr>s_kern := k\<rparr>)"
  using kstep_calm by (auto simp: server_calm_def)

lemma sys_kstep: "sys s = (ok, s') \<Longrightarrow> kstep (s_kern s) (s_kern s')"
  using sys_ok_step by (auto simp: sys_def split: prod.splits)

lemma recv_transfer_packet_kstep:
  assumes "recv_transfer_packet e task s = (ret, p, s')"
  shows "kstep (s_kern s) (s_kern s')"
proof -
  obtain ok s1 where s1: "sys s = (ok, s1)" by (metis prod.collapse)
  obtain r q k where q: "protocol_recv_packet e ok (s_socks s1 (x_fd task)) = (r, q, k)" by (metis prod_cases3)
  show ?thesis using assms s1 q sys_kstep [OF s1] by (auto simp: recv_transfer_packet_def Let_def split: if_splits)
qed

lemma puts_open_calm:
  assumes calm: "server_calm task s" and key: "wf_session_id (x_key task)"
  obtains f off s' where "puts_open e task part sz s = Inr (f, off, s')" "server_calm task s'" "kstep (s_kern s) (s_kern s')"
    "x_tx task s' = x_tx task s @ frame (resume_packet e CMD_PUTS_RESP (x_key task) off)"
proof -
  obtain fd k where o: "open_create part (s_kern s) = (fd, k)" by (metis prod.collapse)
  have k: "kstep (s_kern s) k" "fd \<noteq> None" using open_create_step [OF o] calm by (auto simp: server_calm_def)
  then have fd: "fd = Some \<lparr>fpath = part, fpos = 0\<rparr>" using open_create_disk(2) [OF o] by blast
  obtain b s1 where b: "sys (s\<lparr>s_kern := k\<rparr>) = (b, s1)" by (metis prod.collapse)
  note cb = sys_calm [OF b server_kern_calm [OF calm k(1)]] and kb = sys_kstep [OF b] and fb = sys_frame(3) [OF b]
  let ?off = "word_of_nat (length (file_data (s_kern s1) part)) :: u64"
  obtain cut k2 where c: "(if ?off > sz then ftruncate \<lparr>fpath = part, fpos = 0\<rparr> 0 (s_kern s1) else (True, s_kern s1)) = (cut, k2)" by (metis prod.collapse)
  have k2: "kstep (s_kern s1) k2" "cut"
    using c ftruncate_step [of _ 0 "s_kern s1" cut k2] cb by (auto simp: server_calm_def split: if_splits)
  let ?off2 = "if ?off > sz then 0 else ?off"
  obtain r sock where m: "send_puts_resume e (Some (x_key task)) ?off2 (s_socks s1 (x_fd task)) = (r, sock)" by (metis prod.collapse)
  have sc: "scalm (s_socks s1 (x_fd task))" using cb by (simp add: server_calm_def)
  note sp = send_packet_calm [OF m [unfolded send_puts_resume_packet] sc wf_resume_packet [OF key]]
  let ?s = "s1\<lparr>s_kern := k2, s_socks := (s_socks s1)(x_fd task := sock)\<rparr>"
  have "puts_open e task part sz s = Inr (\<lparr>fpath = part, fpos = 0\<rparr>, ?off2, ?s)"
    using o fd b cb c k2(2) m sp(1) by (simp add: puts_open_def Let_def)
  moreover have "server_calm task ?s" using kstep_calm [OF _ k2(1)] cb sp(4) by (simp add: server_calm_def)
  moreover have "kstep (s_kern s) (s_kern ?s)" using kstep_trans [OF k(1), of "s_kern s1"] kstep_trans [OF _ k2(1)] kb by simp
  moreover have "x_tx task ?s = x_tx task s @ frame (resume_packet e CMD_PUTS_RESP (x_key task) ?off2)" using sp(2) fb by simp
  ultimately show thesis by (rule that)
qed

subsection \<open>The data\<close>

lemma puts_receive_calm:
  assumes "server_calm task s" "wf_session_id (x_key task)" "\<forall>c \<in> set cs. ok_chunk c" "x_rx task s = data_stream (x_key task) cs @ rest"
    "received \<le> expected" "unat received + length (concat cs) = unat expected" "fpos f = base + unat received" "base + unat expected < 2 ^ 64"
    "fpos f \<le> length (file_data (s_kern s) (fpath f))" "disk_of s (fpath f) \<noteq> None"
  shows "\<exists>f' s'. puts_receive e task expected received f s = Inr (expected, False, f', s') \<and> server_calm task s' \<and> kstep (s_kern s) (s_kern s') \<and>
    x_rx task s' = rest \<and> disk_of s' = (disk_of s)(fpath f \<mapsto> put_bytes (fpos f) (concat cs) (file_data (s_kern s) (fpath f)))"
  using assms
proof (induction cs arbitrary: received f s)
  case Nil
  then have "\<not> received < expected" "received = expected" by (simp_all add: word_less_nat_alt word_unat_eq_iff)
  then have "puts_receive e task expected received f s = Inr (expected, False, f, s)" by (simp add: puts_receive.simps [of e task expected expected f s])
  moreover have "(disk_of s)(fpath f \<mapsto> file_data (s_kern s) (fpath f)) = disk_of s"
    using Nil.prems(10) by (auto simp: file_data_def fun_upd_idem)
  ultimately show ?case using Nil.prems by simp
next
  case (Cons c cs)
  let ?p = "data_packet (x_key task) c"
  have ch: "ok_chunk c" using Cons.prems(3) by simp
  note fld = data_packet_fields [OF ch, of "x_key task"] and wf = wf_data_packet [OF Cons.prems(2) ch]
  note len = ok_chunk_length [OF ch]
  have more: "received < expected" using Cons.prems(6) len unfolding word_less_nat_alt by (simp del: length_greater_0_conv)
  obtain r q s1 where r: "recv_transfer_packet e task s = (r, q, s1)" by (metis prod_cases3)
  have rxs: "x_rx task s = frame ?p @ data_stream (x_key task) cs @ rest" using Cons.prems(4) by simp
  note cr = recv_transfer_packet_calm [OF r Cons.prems(1,2) wf fld(7) rxs] and fr = recv_transfer_packet_frame [OF r]
  have q: "header q = header ?p" "payload q = Some c" using cr(2) fld(6) by simp_all
  have data: "file_data (s_kern s1) (fpath f) = file_data (s_kern s) (fpath f)" using fr(2) by (simp add: file_data_def)
  have pos: "fpos f \<le> length (file_data (s_kern s1) (fpath f))" using Cons.prems(9) data by simp
  let ?bs = "case payload q of Some bs \<Rightarrow> take (unat (payload_len (header q))) bs | None \<Rightarrow> []"
  obtain w f1 k where w: "write_n f ?bs (s_kern s1) = (w, f1, k)" by (metis prod_cases3)
  have w0: "w = 0" "server_calm task (s1\<lparr>s_kern := k\<rparr>)" "kstep (s_kern s1) k"
    using write_step [OF w pos] cr(5) server_kern_calm [OF cr(5), of k] by (auto simp: server_calm_def)
  have "unat (expected - received) = unat expected - unat received" using Cons.prems(5) by (simp add: unat_sub)
  moreover have "unat (ucast (payload_len (header ?p)) :: u64) = length c" using fld(8) len by (simp add: unat_of_nat)
  ultimately have sub: "ucast (payload_len (header q)) \<le> expected - received" using Cons.prems(6) q by (simp add: word_le_nat_alt)
  have wfq: "wf_packet q" using wf cr(2) fld(3,4,6) by (simp add: wf_packet_def)
  have h: "payload_len (header q) \<noteq> 0" "payload_len (header q) \<le> FILE_CHUNK_SIZE" using fld q by simp_all
  obtain c' where c': "payload q = Some c'" "fpath f1 = fpath f"
      "unat (received + ucast (payload_len (header q))) = unat received + length c'"
      "received + ucast (payload_len (header q)) \<le> expected" "fpos f1 = base + unat (received + ucast (payload_len (header q)))"
      "disk k = (disk_of s1)(fpath f \<mapsto> put_bytes (fpos f) c' (file_data (s_kern s1) (fpath f)))" "fpos f1 \<le> length (file_data k (fpath f1))"
    by (rule data_step [OF wfq h sub Cons.prems(5,7) pos Cons.prems(8) w [unfolded w0(1)]])
  have eq: "puts_receive e task expected received f s = puts_receive e task expected (received + ucast (payload_len (header q))) f1 (s1\<lparr>s_kern := k\<rparr>)"
    using more r cr(1) w w0 fld q sub leD [OF sub] leD [OF h(2)] by (simp add: puts_receive.simps [of e task expected received f s])
  have step: "c' = c" "disk_of s1 = disk_of s" using c'(1) q fr(2) by simp_all
  have k: "file_data k (fpath f) = put_bytes (fpos f) c (file_data (s_kern s) (fpath f))" using c'(6) step data by (simp add: file_data_def)
  have "\<exists>f' s'. puts_receive e task expected (received + ucast (payload_len (header q))) f1 (s1\<lparr>s_kern := k\<rparr>) = Inr (expected, False, f', s') \<and>
      server_calm task s' \<and> kstep (s_kern (s1\<lparr>s_kern := k\<rparr>)) (s_kern s') \<and> x_rx task s' = rest \<and>
      disk_of s' = (disk_of (s1\<lparr>s_kern := k\<rparr>))(fpath f1 \<mapsto> put_bytes (fpos f1) (concat cs) (file_data (s_kern (s1\<lparr>s_kern := k\<rparr>)) (fpath f1)))"
    by (rule Cons.IH) (use Cons.prems w0 cr c' q step in \<open>simp_all\<close>)
  then obtain f' s' where ih: "puts_receive e task expected (received + ucast (payload_len (header q))) f1 (s1\<lparr>s_kern := k\<rparr>) = Inr (expected, False, f', s')"
      "server_calm task s'" "kstep k (s_kern s')" "x_rx task s' = rest"
      "disk_of s' = (disk k)(fpath f1 \<mapsto> put_bytes (fpos f1) (concat cs) (file_data k (fpath f1)))" by auto
  have "put_bytes (fpos f1) (concat cs) (put_bytes (fpos f) c (file_data (s_kern s) (fpath f))) =
      put_bytes (fpos f) (concat (c # cs)) (file_data (s_kern s) (fpath f))"
    using c' step Cons.prems(7) by (simp add: put_bytes_append add.assoc [symmetric])
  then have "disk_of s' = (disk_of s)(fpath f \<mapsto> put_bytes (fpos f) (concat (c # cs)) (file_data (s_kern s) (fpath f)))"
    using ih(5) c'(2,6) k step data by simp
  with eq ih(1,2,4) kstep_trans [OF kstep_trans [OF recv_transfer_packet_kstep [OF r] w0(3)] ih(3)] show ?case by metis
qed

text \<open>The bytes that the client sends complete the file.\<close>

lemma puts_data_calm:
  assumes calm: "server_calm task s" and key: "wf_session_id (x_key task)" and off: "unat off = length (file_data (s_kern s) (fpath f))"
    "unat off \<le> length d" "length d < 2 ^ 64" "disk_of s (fpath f) = Some (take (unat off) d)"
    and rx: "upload_body (x_key task) d off out" "x_rx task s = out @ rest"
  obtains f' s' where "puts_data e task (word_of_nat (length d)) off f s = Inr (f', s')" "server_calm task s'" "kstep (s_kern s) (s_kern s')"
    "fpath f' = fpath f" "x_rx task s' = rest" "x_tx task s' = x_tx task s" "disk_of s' = (disk_of s)(fpath f \<mapsto> d)" "own_io task s s'"
proof -
  let ?sz = "word_of_nat (length d) :: u64" and ?key = "x_key task"
  have sz: "unat ?sz = length d" using off(3) by (simp add: unat_of_nat)
  have le: "off \<le> ?sz" "disk_of s (fpath f) \<noteq> None" using sz off(2,4) by (simp_all add: word_le_nat_alt)
  show thesis
  proof (cases "off = ?sz")
    case True
    then have "puts_data e task ?sz off f s = Inr (f, s)" by (simp add: puts_data_def)
    moreover have "x_rx task s = rest" "(disk_of s)(fpath f \<mapsto> d) = disk_of s" using rx True sz off(4) by (auto simp: upload_body_def fun_upd_idem)
    ultimately show thesis using that [of f s] calm by simp
  next
    case False
    then have lt: "unat off < length d" using sz off(2) word_unat_eq_iff [of off ?sz] by auto
    then obtain cs where cs: "\<forall>c \<in> set cs. ok_chunk c" "concat cs = drop (unat off) d" "out = data_stream ?key cs @ frame (mk_packet CMD_FILE_END STATUS_OK ?key [])"
      using rx(1) by (auto simp: upload_body_def)
    obtain g k where g: "lseek f (unat off) (s_kern s) = (g, k)" by (metis prod.collapse)
    have k: "g = Some (f\<lparr>fpos := unat off\<rparr>)" "server_calm task (s\<lparr>s_kern := k\<rparr>)" "kstep (s_kern s) k" "disk k = disk_of s"
      using lseek_step [OF g] lseek_frame [OF g] server_kern_calm [OF calm] calm by (auto simp: server_calm_def)
    have fk: "file_data k (fpath f) = take (unat off) d" "disk k (fpath f) \<noteq> None" using k(4) off(4) by (simp_all add: file_data_def)
    have miss: "unat (?sz - off) = length d - unat off" using le(1) sz by (simp add: unat_sub)
    have "\<exists>f' s'. puts_receive e task (?sz - off) 0 (f\<lparr>fpos := unat off\<rparr>) (s\<lparr>s_kern := k\<rparr>) = Inr (?sz - off, False, f', s') \<and> server_calm task s' \<and>
        kstep (s_kern (s\<lparr>s_kern := k\<rparr>)) (s_kern s') \<and> x_rx task s' = frame (mk_packet CMD_FILE_END STATUS_OK ?key []) @ rest \<and>
        disk_of s' = (disk_of (s\<lparr>s_kern := k\<rparr>))(fpath (f\<lparr>fpos := unat off\<rparr>) \<mapsto>
          put_bytes (fpos (f\<lparr>fpos := unat off\<rparr>)) (concat cs) (file_data (s_kern (s\<lparr>s_kern := k\<rparr>)) (fpath (f\<lparr>fpos := unat off\<rparr>))))"
      by (rule puts_receive_calm [where cs = cs and base = "unat off"])
        (use k(2) key cs rx(2) miss fk off(2,3) in \<open>simp_all\<close>)
    then obtain f1 s1 where r: "puts_receive e task (?sz - off) 0 (f\<lparr>fpos := unat off\<rparr>) (s\<lparr>s_kern := k\<rparr>) = Inr (?sz - off, False, f1, s1)"
        "server_calm task s1" "kstep k (s_kern s1)" "x_rx task s1 = frame (mk_packet CMD_FILE_END STATUS_OK ?key []) @ rest"
        "disk_of s1 = (disk_of s)(fpath f \<mapsto> put_bytes (unat off) (concat cs) (file_data k (fpath f)))" using k(4) by auto
    have dd: "disk_of s1 = (disk_of s)(fpath f \<mapsto> d)" using r(5) cs(2) off(2) fk(1) by (simp add: put_bytes_end)
    obtain q p s2 where q: "recv_transfer_packet e task s1 = (q, p, s2)" by (metis prod_cases3)
    have wp: "wf_packet (mk_packet CMD_FILE_END STATUS_OK ?key [])" "session_id (header (mk_packet CMD_FILE_END STATUS_OK ?key [])) = ?key"
      using wf_mk_packet [OF key, of "[]"] by (simp, simp add: mk_packet_def)
    note cq = recv_transfer_packet_calm [OF q r(2) key wp r(4)]
    have p: "ptype (header p) = CMD_FILE_END" using cq(2) by (simp add: mk_packet_def)
    have "off < ?sz" using lt sz by (simp add: word_less_nat_alt)
    then have run: "puts_data e task ?sz off f s = Inr (f1, s2)" unfolding puts_data_def using g k(1) r(1) q cq(1) p by simp
    from puts_data_spec(2) [OF key off(1) le run] have sp: "own_io task s s2" "fpath f1 = fpath f" "x_tx task s2 = x_tx task s" by auto
    have "disk_of s2 = (disk_of s)(fpath f \<mapsto> d)" using dd recv_transfer_packet_frame(2) [OF q] by simp
    then show thesis using that [OF run cq(5) _ sp(2) cq(3) sp(3) _ sp(1)] kstep_trans [OF kstep_trans [OF k(3) r(3)] recv_transfer_packet_kstep [OF q]] by simp
  qed
qed

subsection \<open>Verification and the final name\<close>

text \<open>\<open>utils_get_file_sha256\<close> does not repeat an interrupted \<open>read\<close>.\<close>

lemma get_file_sha256_steady:
  assumes "utils_get_file_sha256 sha256 True (Some f) 65 k = (ret, out, k')" "kcalm k" "Eintr \<notin> set (kio k)"
  shows "ret = 0" "out = Some (hex_of (sha256 (drop (fpos f) (file_data k (fpath f)))))" "kstep k k'"
proof -
  obtain res f' k1 where r: "read_all f k [] = (res, f', k1)" by (metis prod_cases3)
  note sp = read_all_spec [OF r]
  have res: "res = Some (drop (fpos f) (file_data k (fpath f)))" using sp assms(2,3) by (auto simp: kcalm_def)
  show "ret = 0" "out = Some (hex_of (sha256 (drop (fpos f) (file_data k (fpath f)))))" "kstep k k'"
    using assms(1) r res sp by (auto simp: utils_get_file_sha256_def kstep_def)
qed

lemma puts_verify_calm:
  assumes calm: "server_calm task s" "Eintr \<notin> set (kio (s_kern s))" and f: "fpath f = part" "disk_of s part = Some d" "hex_of (sha256 d) = hex"
  obtains s' where "puts_verify sha256 e task part hex f s = Inr s'" "server_calm task s'" "kstep (s_kern s) (s_kern s')"
proof -
  obtain b s1 where b: "sys s = (b, s1)" by (metis prod.collapse)
  note cb = sys_calm [OF b calm(1)] and kb = sys_kstep [OF b]
  obtain g k where g: "lseek f 0 (s_kern s1) = (g, k)" by (metis prod.collapse)
  have k: "g = Some (f\<lparr>fpos := 0\<rparr>)" "kstep (s_kern s1) k" using lseek_step [OF g] lseek_frame(3) [OF g] cb by (auto simp: server_calm_def)
  obtain c s2 where c: "sys (s1\<lparr>s_kern := k\<rparr>) = (c, s2)" by (metis prod.collapse)
  have c1: "server_calm task (s1\<lparr>s_kern := k\<rparr>)" using cb k(2) server_kern_calm by blast
  note cc = sys_calm [OF c c1] and kc = sys_kstep [OF c]
  have kk: "kstep (s_kern s) (s_kern s2)" using kstep_trans [OF kb k(2)] kc kstep_trans by simp
  then have io: "Eintr \<notin> set (kio (s_kern s2))" "kcalm (s_kern s2)" using calm(2) cc by (auto simp: kstep_def server_calm_def)
  obtain r out k2 where h: "utils_get_file_sha256 sha256 True (Some (f\<lparr>fpos := 0\<rparr>)) 65 (s_kern s2) = (r, out, k2)" by (metis prod_cases3)
  note hs = get_file_sha256_steady [OF h io(2,1)]
  have "disk_of s2 part = Some d" using sys_frame(2) [OF b] lseek_frame(1) [OF g] sys_frame(2) [OF c] f(2) by simp
  then have out: "out = Some hex" using hs(2) f by (simp add: file_data_def)
  have "puts_verify sha256 e task part hex f s = Inr (s2\<lparr>s_kern := k2\<rparr>)"
    using b cb g k(1) c cc h hs(1) out by (simp add: puts_verify_def Let_def)
  then show thesis using that [of "s2\<lparr>s_kern := k2\<rparr>"] server_kern_calm [of task s2 k2] cc hs(3) kstep_trans [OF kk hs(3)] by simp
qed

lemma puts_rename_calm:
  assumes "server_calm task s" "disk_of s part = Some d"
  obtains s' where "puts_rename e task part final s = Inr s'" "server_calm task s'" "s_socks s' = s_socks s" "disk_of s' = ((disk_of s)(part := None))(final \<mapsto> d)"
proof -
  obtain ok k where r: "rename_file part final (s_kern s) = (ok, k)" by (metis prod.collapse)
  have k: "ok" "kstep (s_kern s) k" using rename_step [OF r] assms by (auto simp: server_calm_def)
  show thesis
    by (rule that [of "s\<lparr>s_kern := k\<rparr>"])
      (use r k rename_file_disk(1) [OF r] assms server_kern_calm in \<open>simp_all add: puts_rename_def\<close>)
qed

text \<open>Steps 7 to 9 store the client's file.\<close>

lemma puts_upload_calm:
  assumes calm: "server_calm task s" "Eintr \<notin> set (kio (s_kern s))" and key: "wf_session_id (x_key task)"
    and hex: "valid_hex hex" "hex_of (sha256 d) = hex" "length d < 2 ^ 64"
    and names: "length (part_name task hex) < PATH_MAX" "length (final_name task hex) < PATH_MAX"
    and part: "file_data (s_kern s) (part_name task hex) = take off d" "off \<le> length d"
    and rx: "upload_body (x_key task) d (word_of_nat off) out" "x_rx task s = out @ rest"
  obtains s' where "puts_upload M sha256 e task target parent name hex (word_of_nat (length d)) s =
      puts_publish M e task target parent name hex (word_of_nat (length d)) s'"
    "server_calm task s'" "x_tx task s' = x_tx task s @ frame (resume_packet e CMD_PUTS_RESP (x_key task) (word_of_nat off))" "x_rx task s' = rest"
    "upload_stored sha256 task hex (word_of_nat (length d)) s s'" "disk_of s' (final_name task hex) = Some d"
proof -
  let ?part = "part_name task hex" and ?final = "final_name task hex" and ?sz = "word_of_nat (length d) :: u64"
  have sz: "unat ?sz = length d" using hex(3) by (simp add: unat_of_nat)
  have pl: "length (file_data (s_kern s) ?part) < 2 ^ 64" using part hex(3) by simp
  obtain f o1 s1 where o: "puts_open e task ?part ?sz s = Inr (f, o1, s1)" "server_calm task s1" "kstep (s_kern s) (s_kern s1)"
      "x_tx task s1 = x_tx task s @ frame (resume_packet e CMD_PUTS_RESP (x_key task) o1)"
    by (rule puts_open_calm [OF calm(1) key])
  have o2: "f = \<lparr>fpath = ?part, fpos = 0\<rparr>" "x_rx task s1 = x_rx task s" "unat o1 = length (file_data (s_kern s1) ?part)" "disk_of s1 ?part = Some (take off d)"
    using puts_open_spec(2) [OF pl o(1)] part sz by (auto simp: Let_def)
  have "unat o1 = off" using o2(3,4) part(2) by (simp add: file_data_def)
  moreover from this have "o1 = word_of_nat off" by (metis of_nat_unat ucast_id)
  ultimately have uo: "unat o1 = off" "o1 = word_of_nat off" by simp_all
  obtain f2 s2 where d: "puts_data e task ?sz o1 f s1 = Inr (f2, s2)" "server_calm task s2" "kstep (s_kern s1) (s_kern s2)"
      "fpath f2 = fpath f" "x_rx task s2 = rest" "x_tx task s2 = x_tx task s1" "disk_of s2 = (disk_of s1)(fpath f \<mapsto> d)"
    by (rule puts_data_calm [OF o(2) key _ _ hex(3), of o1 f out rest e]) (use o2 uo part(2) rx in simp_all)
  have pd: "disk_of s2 ?part = Some d" "fpath f2 = ?part" using d(4,7) o2(1) by simp_all
  have io: "Eintr \<notin> set (kio (s_kern s2))" using kstep_trans [OF o(3) d(3)] calm(2) by (auto simp: kstep_def)
  obtain s3 where v: "puts_verify sha256 e task ?part hex f2 s2 = Inr s3" "server_calm task s3"
    by (rule puts_verify_calm [of task s2 f2 ?part d sha256 hex, OF d(2) io pd(2,1) hex(2)])
  note vs = puts_verify_spec(2) [OF pd(2) v(1)]
  obtain s4 where r: "puts_rename e task ?part ?final s3 = Inr s4" "server_calm task s4" "s_socks s4 = s_socks s3" "disk_of s4 = ((disk_of s3)(?part := None))(?final \<mapsto> d)"
    by (rule puts_rename_calm [OF v(2), of ?part d e ?final]) (use vs pd in simp_all)
  have up: "upload_stored sha256 task hex ?sz s s4"
    by (rule puts_verify_rename(2) [OF hex(1) _ pd(2) v(1) r(1)]) (use puts_open_data(2) [OF key pl o(1) d(1)] in blast)
  have sn: "snprintf PATH_MAX ?part = (?part, length ?part)" "snprintf PATH_MAX ?final = (?final, length ?final)" using names by (simp_all add: snprintf_def)
  have run: "puts_upload M sha256 e task target parent name hex ?sz s = puts_publish M e task target parent name hex ?sz s4"
    unfolding puts_upload_def part_name_def [symmetric] final_name_def [symmetric] using sn names o(1) d(1) v(1) r(1) by simp
  show thesis by (rule that [OF run r(2) _ _ up]) (use r vs d(5,6) o(4) uo in simp_all)
qed

subsection \<open>Both ends\<close>

text \<open>A new name in a directory of the user: only the database can refuse it.\<close>

lemma puts_place_new:
  assumes ok: "data_ok M coll db sha256 root s" "room (db (s_world s))" and p: "good_path target" "good_path parent"
    and row: "x_node coll db task s parent = Some q" "pr_type q = 1" "x_node coll db task s target = None"
  obtains w where "puts_place M e task target parent s = Some (Inl (answer e task CMD_ERROR STATUS_OTHER_ERROR (s\<lparr>s_world := w\<rparr>)))" "db w = db (s_world s)"
    | pid w where "puts_place M e task target parent s = Some (Inr (pid, s\<lparr>s_world := w\<rparr>))" "db w = db (s_world s)"
      "is_dir (tabs (db (s_world s))) (unat (ctx_user_id (x_session task))) (unat pid)"
proof -
  let ?u = "ctx_user_id (x_session task)"
  obtain r1 pid w1 where n1: "dao_path_get_node_id M ?u parent (s_pool s) (s_world s) = Some (r1, pid, s_pool s, w1)" "db w1 = db (s_world s)"
      "r1 = - 1 \<or> r1 = DAO_PATH_IS_DIR \<and> pid = Some (word_of_nat (pr_id q))"
    by (rule good_path_node [OF ok p(2), of ?u]) (use row in simp)
  let ?s1 = "s\<lparr>s_world := w1\<rparr>"
  have ok1: "data_ok M coll db sha256 root ?s1" "room (db (s_world ?s1))"
    using data_ok_same [OF ok(1), of task ?s1] ok(2) n1(2) by (simp_all add: same_data_def)
  obtain r2 w2 pid2 where n2: "dao_path_get_node_id M ?u target (s_pool s) w1 = Some (r2, pid2, s_pool s, w2)" "db w2 = db (s_world s)"
      "r2 = - 1 \<or> r2 = DAO_PATH_NOT_FOUND"
    by (rule good_path_node [OF ok1 p(1), of ?u]) (use n1(2) row in auto)
  have dir: "is_dir (tabs (db (s_world s))) (unat ?u) (unat (word_of_nat (pr_id q) :: u64))"
    using find_node_dir(4) [OF data_okD(8) [OF ok] row(1)] row(2) by simp
  show thesis
    by (cases "r1 = - 1"; cases "r2 = - 1")
      (use n1 n2 that(1) [of w1] that(1) [of w2] that(2) [OF _ _ dir, of w2] in \<open>auto simp: puts_place_def Let_def\<close>)
qed

lemma answer_calm:
  assumes "server_calm task s" "wf_session_id (x_key task)"
  shows "x_tx task (answer e task type st s) = x_tx task s @ frame (mk_packet type st (x_key task) [])"
  using send_transfer_packet_calm(2) [of e task type st "[]" s, simplified, OF prod.collapse [symmetric] assms] by (simp add: answer_def)

text \<open>The rows are made and the upload acknowledged, or the database fails.\<close>

lemma puts_publish_answer:
  assumes ok: "data_ok M coll db sha256 (x_storage_root task) s" "room (db (s_world s))" and p: "good_path p" "good_path name"
    and dir: "is_dir (tabs (db (s_world s))) (unat (ctx_user_id (x_session task))) (unat parent)"
    and hex: "valid_hex hex" and s1: "s_pool s1 = s_pool s" "s_world s1 = s_world s" "server_calm task s1" "wf_session_id (x_key task)"
  obtains s' where "puts_publish M e task p parent name hex sz s1 = Some s'" "disk_of s' = disk_of s1"
      "x_tx task s' = x_tx task s1 @ frame (mk_packet CMD_ERROR STATUS_OTHER_ERROR (x_key task) [])"
    | s' where "puts_publish M e task p parent name hex sz s1 = Some s'" "disk_of s' = disk_of s1"
      "x_tx task s' = x_tx task s1 @ frame (mk_packet CMD_ACK STATUS_OK (x_key task) [])"
      "path_added coll (db (s_world s)) (tabs (db (s_world s'))) (unat (ctx_user_id (x_session task))) p hex"
proof -
  note d = data_okD [OF ok] and h = valid_hexD [OF hex]
  let ?u = "ctx_user_id (x_session task)"
  have st: "plain p" "plain name" "length p + length name \<le> 9000" using p by (auto simp: good_path_def)
  obtain ret w where r: "dao_create_file_with_path M ?u p parent name hex sz (s_pool s) (s_world s) = Some (ret, s_pool s, w)"
      "ret = 0 \<and> tabs (db w) = create_tables (db (s_world s)) (unat ?u) p (unat parent) name hex (unat sz) \<and>
         \<not> (\<exists>q \<in> set (paths (tabs (db (s_world s)))). node_is coll (unat ?u) p q) \<or> ret = - 1"
    using create_outcome [OF d(3,4,5) dao_readyD(4) [OF d(1)] st h, of ?u parent sz] unfolding txn_outcome_def by blast
  let ?s = "s1\<lparr>s_pool := s_pool s, s_world := w\<rparr>"
  have c: "server_calm task ?s" using s1(3) by (simp add: server_calm_def)
  have run: "puts_publish M e task p parent name hex sz s1 =
      Some (if ret \<noteq> 0 then answer e task CMD_ERROR STATUS_OTHER_ERROR ?s else answer e task CMD_ACK STATUS_OK ?s)"
    using r(1) s1(1,2) by (simp add: puts_publish_def Let_def)
  show thesis
  proof (cases "ret = 0")
    case True
    then show thesis using that(2) [of "answer e task CMD_ACK STATUS_OK ?s"] run answer_calm [OF c s1(4)] r(2) path_added_create [OF _ dir] by simp
  next
    case False
    then show thesis using that(1) [of "answer e task CMD_ERROR STATUS_OTHER_ERROR ?s"] run answer_calm [OF c s1(4)] by simp
  qed
qed

text \<open>What the client sends when the server asks for the file from a position on and acknowledges it.\<close>

lemma run_upload_sends:
  assumes calm: "calm c" and key: "wf_session_id (ct_session_id ct)" and d: "disk (c_kern c) (ct_local_path ct) = Some d" "length d < 2 ^ 64" "off \<le> length d"
    and remote: "length (ct_remote_path ct) < PATH_MAX" "length (sha256 d) = 32"
    and rx: "rx (c_sock c) = frame (resume_packet e CMD_PUTS_RESP (ct_session_id ct) (word_of_nat off)) @ frame (mk_packet CMD_ACK STATUS_OK (ct_session_id ct) [])"
  obtains c' out where "run_upload sha256 e ct c = (0, c')" "disk (c_kern c') = disk (c_kern c)" "upload_body (ct_session_id ct) d (word_of_nat off) out"
    "tx (c_sock c') = tx (c_sock c) @ frame (mk_packet CMD_PUTS_REQ STATUS_OK (ct_session_id ct) (upload_offer sha256 e (ct_remote_path ct) d)) @ out"
proof -
  let ?key = "ct_session_id ct" and ?o = "word_of_nat off :: u64"
  let ?p = "resume_packet e CMD_PUTS_RESP ?key ?o" and ?q = "mk_packet CMD_ACK STATUS_OK ?key []"
  note ro = resume_offset [OF refl, of e CMD_PUTS_RESP ?key ?o]
  have wf: "wf_packet ?p" "wf_packet ?q" using wf_resume_packet [OF key] wf_mk_packet [OF key, of "[]"] by simp_all
  have p: "asks_from e ?p ?o" "session_id (header ?p) = ?key" using wf(1) ro by (simp_all add: asks_from_def) (simp_all add: resume_packet_def mk_packet_def)
  have q: "acknowledges ?q" "session_id (header ?q) = ?key" using wf(2) by (simp_all add: acknowledges_def) (simp_all add: mk_packet_def)
  have uo: "unat ?o = off" using d(2,3) by (simp add: unat_of_nat)
  obtain c' where run: "run_upload sha256 e ct c = (0, c')"
    using run_upload_calm [of c ct d sha256 e ?p ?o ?q "[]", OF calm key d(1,2) remote p(1) _ q(1) p(2) q(2)] uo d(3) rx by auto
  show thesis
  proof (rule run_upload_spec [OF run key])
    show "length d' < 2 ^ 64" if "disk (c_kern c) (ct_local_path ct) = Some d'" for d' using that d(1,2) by simp
    fix d' o2 out p' q' assume a: "disk (c_kern c) (ct_local_path ct) = Some d'" "disk (c_kern c') = disk (c_kern c)" "asks_from e p' o2"
      "rx (c_sock c) = frame p' @ frame q' @ rx (c_sock c')" "upload_body ?key d' o2 out"
      "tx (c_sock c') = tx (c_sock c) @ frame (mk_packet CMD_PUTS_REQ STATUS_OK ?key (upload_offer sha256 e (ct_remote_path ct) d')) @ out"
    have "wf_packet p'" using a(3) by (simp add: asks_from_def)
    from frame_unique [OF this wf(1)] a(4) rx have "payload p' = payload ?p" by metis
    then have "o2 = ?o" using a(3) ro(3) by (simp add: asks_from_def)
    then show thesis using that [OF run] a d(1) by simp
  qed
qed

text \<open>The server whose client has sent these bytes.\<close>

definition feed :: "transfer_task_t \<Rightarrow> byte list \<Rightarrow> 'w server_t \<Rightarrow> 'w server_t" where
  "feed task bs s = s\<lparr>s_socks := (s_socks s)(x_fd task := (s_socks s (x_fd task))\<lparr>rx := bs\<rparr>)\<rparr>"

lemma feed_simps [simp]:
  "s_kern (feed task bs s) = s_kern s" "s_world (feed task bs s) = s_world s" "s_pool (feed task bs s) = s_pool s"
  "x_rx task (feed task bs s) = bs" "x_tx task (feed task bs s) = x_tx task s" "server_calm task (feed task bs s) = server_calm task s"
  "data_ok M coll db sha256 root (feed task bs s) = data_ok M coll db sha256 root s"
  by (simp_all add: feed_def server_calm_def scalm_def data_ok_def)

text \<open>What an upload of a file that is not stored yet leaves behind, and the answers that it gave.\<close>

definition upload_accepted ::
  "(string \<Rightarrow> string) \<Rightarrow> ('w \<Rightarrow> database) \<Rightarrow> endian \<Rightarrow> transfer_task_t \<Rightarrow> string \<Rightarrow> string \<Rightarrow> byte list \<Rightarrow> nat \<Rightarrow> 'w server_t \<Rightarrow> 'w server_t \<Rightarrow> bool" where
  "upload_accepted coll db e task p hex d off s s' \<longleftrightarrow>
     x_tx task s' = frame (resume_packet e CMD_PUTS_RESP (x_key task) (word_of_nat off)) @ frame (mk_packet CMD_ACK STATUS_OK (x_key task) []) \<and>
     disk_of s' (final_name task hex) = Some d \<and>
     path_added coll (db (s_world s)) (tabs (db (s_world s'))) (unat (ctx_user_id (x_session task))) p hex"

definition upload_failed :: "endian \<Rightarrow> transfer_task_t \<Rightarrow> nat \<Rightarrow> 'w server_t \<Rightarrow> bool" where
  "upload_failed e task off s' \<longleftrightarrow>
     x_tx task s' \<in> (\<lambda>r. r @ frame (mk_packet CMD_ERROR STATUS_OTHER_ERROR (x_key task) [])) `
       {[], frame (resume_packet e CMD_PUTS_RESP (x_key task) (word_of_nat off))}"

lemma handle_puts_calm:
  assumes ok: "data_ok M coll db sha256 (x_storage_root task) s" "room (db (s_world s))"
    and req: "puts_request e task = Inr (remote, word_of_nat (length d), hex)" "puts_target remote = Some (Some (p, parent, name))" "names_ok ''/'' remote"
    and row: "x_node coll db task s parent = Some q" "pr_type q = 1" "x_node coll db task s p = None"
    and hex: "hex_of (sha256 d) = hex" "lower_hex hex \<notin> hashes (tabs (db (s_world s)))" "length d < 2 ^ 64"
    and names: "length (part_name task hex) < PATH_MAX" "length (final_name task hex) < PATH_MAX"
    and part: "file_data (s_kern s) (part_name task hex) = take off d" "off \<le> length d"
    and calm: "server_calm task s" "Eintr \<notin> set (kio (s_kern s))" "x_tx task s = []" and key: "wf_session_id (x_key task)"
    and rx: "upload_body (x_key task) d (word_of_nat off) (x_rx task s)"
  shows "\<exists>s'. handle_puts M sha256 e task s = Some s' \<and> (upload_failed e task off s' \<or> upload_accepted coll db e task p hex d off s s')"
proof -
  have v: "valid_hex hex" by (rule puts_request_hex [OF req(1)])
  have gp: "p = path_of (resolve ''/'' remote)" "good_path p" "good_path parent" "good_path name"
    by (rule puts_target_cases [of remote]; use req(2,3) in \<open>auto simp: names_ok_def\<close>)+
  have fail: "upload_failed e task off (answer e task CMD_ERROR STATUS_OTHER_ERROR (s\<lparr>s_world := w\<rparr>))" for w
    using answer_calm [of task "s\<lparr>s_world := w\<rparr>"] calm key by (simp add: upload_failed_def server_calm_def)
  show ?thesis
  proof (rule puts_place_new [OF ok gp(2,3) row, of e])
    fix w assume "puts_place M e task p parent s = Some (Inl (answer e task CMD_ERROR STATUS_OTHER_ERROR (s\<lparr>s_world := w\<rparr>)))"
    then show ?thesis using req fail by (simp add: handle_puts_def)
  next
    fix pid w assume pl: "puts_place M e task p parent s = Some (Inr (pid, s\<lparr>s_world := w\<rparr>))" "db w = db (s_world s)"
      "is_dir (tabs (db (s_world s))) (unat (ctx_user_id (x_session task))) (unat pid)"
    let ?s1 = "s\<lparr>s_world := w\<rparr>"
    have same1: "same_data db task s ?s1" using pl(2) by (simp add: same_data_def)
    have ok1: "data_ok M coll db sha256 (x_storage_root task) ?s1" "room (db (s_world ?s1))" using data_ok_same [OF ok(1) same1] ok(2) pl(2) by simp_all
    note d1 = data_okD [OF ok1]
    obtain ret fid w2 where f: "dao_file_find_by_hash M hex (word_of_nat (length d)) (s_pool s) w = Some (ret, fid, s_pool s, w2)" "db w2 = db (s_world s)"
        "ret = - 1 \<or> ret = 0"
      by (rule dao_file_find_by_hash_spec [OF d1(1,2) valid_hexD [OF v]]) (use hex(2) pl(2) in \<open>force simp: hashes_def\<close>)
    let ?s2 = "s\<lparr>s_world := w2\<rparr>"
    show ?thesis
    proof (cases "ret = - 1")
      case True
      then show ?thesis using req pl(1) f(1) fail by (simp add: handle_puts_def)
    next
      case False
      have ok2: "data_ok M coll db sha256 (x_storage_root task) ?s2" "room (db (s_world ?s2))"
        using data_ok_same [OF ok(1), of task ?s2] ok(2) f(2) by (simp_all add: same_data_def)
      have c2: "server_calm task ?s2" using calm(1) by (simp add: server_calm_def)
      obtain s3 where u: "puts_upload M sha256 e task p pid name hex (word_of_nat (length d)) ?s2 = puts_publish M e task p pid name hex (word_of_nat (length d)) s3"
          "server_calm task s3" "x_tx task s3 = frame (resume_packet e CMD_PUTS_RESP (x_key task) (word_of_nat off))"
          "upload_stored sha256 task hex (word_of_nat (length d)) ?s2 s3" "disk_of s3 (final_name task hex) = Some d"
        by (rule puts_upload_calm [of task ?s2 hex sha256 d off "x_rx task s" "[]", OF c2 _ key v hex(1,3) names])
          (use calm part rx in simp_all)
      have run: "handle_puts M sha256 e task s = puts_publish M e task p pid name hex (word_of_nat (length d)) s3"
        using req pl(1) f False u(1) by (simp add: handle_puts_def)
      have s3: "s_pool s3 = s_pool ?s2" "s_world s3 = s_world ?s2" using u(4) by (simp_all add: upload_stored_def own_io_def)
      show ?thesis
        by (rule puts_publish_answer [OF ok2 gp(2,4) _ v s3 u(2) key, of pid e "word_of_nat (length d)"])
          (use run u(3,5) pl(3) f(2) in \<open>auto simp: upload_failed_def upload_accepted_def\<close>)
    qed
  qed
qed

subsection \<open>Properties\<close>


definition sample_offer :: client_task_t where
  "sample_offer = sample_client_task\<lparr>ct_kind := TRANSFER_UPLOAD, ct_remote_path := ''/g''\<rparr>"

definition sample_digest :: "byte list \<Rightarrow> byte list" where
  "sample_digest d = (if d = [9, 9] then replicate 32 0xBB else replicate 32 0xAA)"

definition sample_answers :: "byte list" where
  "sample_answers = frame (resume_packet Little CMD_PUTS_RESP sample_key 0) @ frame (mk_packet CMD_ACK STATUS_OK sample_key [])"

definition sample_receiver :: transfer_task_t where
  "sample_receiver = sample_upload\<lparr>x_packet := (mk_packet CMD_PUTS_REQ STATUS_OK sample_key (upload_offer sample_digest Little ''/g'' [9, 9]))\<lparr>owns_payload := True\<rparr>\<rparr>"

lemma sample_digest_hash:
  "hex_of (sample_digest [9, 9]) = replicate 64 (CHR ''b'')" "d \<noteq> [9, 9] \<Longrightarrow> hex_of (sample_digest d) = sample_hash" "length (sample_digest d) = 32"
proof -
  have "concat (replicate n [c, c]) = replicate (2 * n) c" for n :: nat and c :: char by (induction n) simp_all
  moreover have "hex_digit 11 = CHR ''b''" by code_simp
  ultimately show "hex_of (sample_digest [9, 9]) = replicate 64 (CHR ''b'')" by (simp add: hex_of_def sample_digest_def)
  show "hex_of (sample_digest d) = sample_hash" if "d \<noteq> [9, 9]" using that sample_sha256_hash [of d] by (simp add: sample_digest_def sample_sha256_def)
  show "length (sample_digest d) = 32" by (simp add: sample_digest_def)
qed

lemma sample_digest_data_ok: "data_ok reference_mysql (\<lambda>s. s) srv_db sample_digest ''/s'' (sample_state tbl wheel input)"
  using sample_data_ok [of tbl wheel input] sample_digest_hash(2) [of "[1, 2, 3, 4, 5]"]
  by (auto simp: data_ok_def store_ok_def sample_state_def split: if_splits)

lemma sample_target: "puts_target ''/g'' = Some (Some (''/g'', ''/'', ''g''))"
proof -
  have p: "full_path ''/'' ''/g'' = ''/g''" "path_of (resolve ''/'' ''/g'') = ''/g''"
    by (simp_all add: resolve_def full_path_def components_def walk_def path_of_def)
  have "normalize_cd_path (Some ''/'') (Some ''/g'') (Some []) PATH_MAX = Some (0, Some ''/g'')"
    using normalize_result(1) [of PATH_MAX "''/''" "''/g''" "[]"] p by simp
  then show ?thesis by (simp add: puts_target_def)
qed


end
