(* ===== verification/Thread_Pool.thy ===== *)
theory Thread_Pool
  imports Chains "HOL-Library.Multiset"
begin

text \<open>
  The thread pool of \<open>src/server/thread_pool.c\<close>: a bounded FIFO queue of tasks (a singly linked
  list with head and tail pointers), worker threads that take tasks from it and threads that add
  to it.

  The code between \<open>pthread_mutex_lock\<close> and the next \<open>pthread_mutex_unlock\<close> or
  \<open>pthread_cond_wait\<close> touches nothing but the pool and is one step; everything else interleaves.
  \<open>pthread_cond_signal\<close> wakes at least one thread that waits on the condition (if there is one),
  \<open>pthread_cond_broadcast\<close> wakes all, and a waiting thread may also wake up for no reason.
\<close>

subsection \<open>The queue\<close>

record task_t =
  tk_function :: nat
  tk_arg :: nat
  tk_next :: ptr

record task_queue_t =
  tasks :: "task_t heap"
  q_head :: ptr
  q_tail :: ptr
  q_size :: int
  q_capacity :: int

definition queue_take :: "task_queue_t \<Rightarrow> (nat \<times> task_queue_t) option" where
  "queue_take q = do {
     t \<leftarrow> heap_read (tasks q) (q_head q);
     a \<leftarrow> q_head q;
     let q1 = q\<lparr>q_head := tk_next t\<rparr>;
     let q2 = (if q_head q1 = None then q1\<lparr>q_tail := None\<rparr> else q1);
     Some (a, q2\<lparr>q_size := q_size q2 - 1\<rparr>) }"

definition queue_put :: "task_queue_t \<Rightarrow> nat \<Rightarrow> task_queue_t option" where
  "queue_put q a = do {
     q1 \<leftarrow> (if q_tail q = None
            then Some (q\<lparr>q_head := Some a, q_tail := Some a\<rparr>)
            else do {
              h \<leftarrow> heap_write (tasks q) (q_tail q) (\<lambda>t. t\<lparr>tk_next := Some a\<rparr>);
              Some (q\<lparr>tasks := h, q_tail := Some a\<rparr>) });
     Some (q1\<lparr>q_size := q_size q1 + 1\<rparr>) }"

subsection \<open>Threads\<close>

text \<open>
  A worker is about to lock the mutex, waits for \<open>not_empty\<close>, runs the task at an address, or has
  left its loop. A caller of \<open>thread_pool_add\<close> holds the task it has allocated: about to lock,
  waiting for \<open>not_full\<close>, or returned with a result.
\<close>

datatype worker = Ready | Waiting | Running nat | Exited
datatype adder = AReady nat | AWaiting nat | AReturned int

record thread_pool =
  tp_queue :: task_queue_t
  tp_workers :: "worker list"
  tp_adders :: "adder list"
  tp_shutdown :: bool

text \<open>
  Creation. The arguments after the first two: whether the allocations and initializations succeed,
  and how many threads \<open>pthread_create\<close> can start. When it fails, the threads that were started are
  told to shut down and joined.
\<close>

definition thread_pool_create :: "int \<Rightarrow> int \<Rightarrow> bool \<Rightarrow> bool \<Rightarrow> bool \<Rightarrow> nat \<Rightarrow> thread_pool option" where
  "thread_pool_create thread_num queue_capacity got_pool got_threads init_ok startable =
     (if thread_num \<le> 0 \<or> queue_capacity \<le> 0 then None
      else if \<not> got_pool \<or> \<not> got_threads \<or> \<not> init_ok then None
      else if int startable < thread_num then None
      else Some \<lparr>tp_queue = \<lparr>tasks = Map.empty, q_head = None, q_tail = None, q_size = 0,
                             q_capacity = queue_capacity\<rparr>,
                 tp_workers = replicate (nat thread_num) Ready, tp_adders = [], tp_shutdown = False\<rparr>)"

subsection \<open>Critical sections\<close>

datatype worker_section = WorkerWaits | WorkerExits | WorkerTakes nat task_queue_t

definition worker_locked :: "thread_pool \<Rightarrow> worker_section option" where
  "worker_locked p =
     (if q_size (tp_queue p) = 0 \<and> \<not> tp_shutdown p then Some WorkerWaits
      else if tp_shutdown p \<and> q_size (tp_queue p) = 0 then Some WorkerExits
      else do { (a, q) \<leftarrow> queue_take (tp_queue p); Some (WorkerTakes a q) })"

datatype adder_section = AdderWaits | AdderRefused task_queue_t | AdderAccepted task_queue_t

definition add_locked :: "thread_pool \<Rightarrow> nat \<Rightarrow> adder_section option" where
  "add_locked p a =
     (if q_size (tp_queue p) = q_capacity (tp_queue p) \<and> \<not> tp_shutdown p then Some AdderWaits
      else if tp_shutdown p
      then do { h \<leftarrow> heap_free (tasks (tp_queue p)) (Some a); Some (AdderRefused ((tp_queue p)\<lparr>tasks := h\<rparr>)) }
      else do { q \<leftarrow> queue_put (tp_queue p) a; Some (AdderAccepted q) })"

text \<open>
  What \<open>thread_pool_add\<close> does before it locks the mutex: a NULL function or a failing \<open>malloc\<close>
  returns -1, otherwise the new task is filled and the caller goes on.
\<close>

definition thread_pool_add :: "thread_pool \<Rightarrow> nat option \<Rightarrow> nat \<Rightarrow> ptr \<Rightarrow> thread_pool" where
  "thread_pool_add p f arg new =
     (case (f, new) of
        (Some g, Some a) \<Rightarrow>
          p\<lparr>tp_queue := (tp_queue p)\<lparr>tasks := (tasks (tp_queue p))(a \<mapsto> \<lparr>tk_function = g, tk_arg = arg, tk_next = None\<rparr>)\<rparr>,
            tp_adders := tp_adders p @ [AReady a]\<rparr>
      | _ \<Rightarrow> p\<lparr>tp_adders := tp_adders p @ [AReturned (- 1)]\<rparr>)"

subsection \<open>Waking up\<close>

fun wake_worker :: "worker \<Rightarrow> worker" where
  "wake_worker Waiting = Ready"
| "wake_worker w = w"

fun wake_adder :: "adder \<Rightarrow> adder" where
  "wake_adder (AWaiting a) = AReady a"
| "wake_adder w = w"

text \<open>\<open>xs'\<close> is \<open>xs\<close> after some waiting threads woke up: at least one, if one was waiting.\<close>

definition woken :: "('a \<Rightarrow> 'a) \<Rightarrow> 'a list \<Rightarrow> 'a list \<Rightarrow> bool" where
  "woken wake xs xs' \<longleftrightarrow>
     list_all2 (\<lambda>x y. y = x \<or> y = wake x) xs xs' \<and> (map wake xs \<noteq> xs \<longrightarrow> xs' \<noteq> xs)"

definition thread_pool_shutdown :: "thread_pool \<Rightarrow> thread_pool" where
  "thread_pool_shutdown p =
     p\<lparr>tp_shutdown := True, tp_workers := map wake_worker (tp_workers p),
       tp_adders := map wake_adder (tp_adders p)\<rparr>"

text \<open>After the joins: every worker has left its loop, and the pool may be freed.\<close>

definition joined :: "thread_pool \<Rightarrow> bool" where
  "joined p \<longleftrightarrow> list_all (\<lambda>w. w = Exited) (tp_workers p)"

subsection \<open>Steps\<close>

type_synonym job = "nat \<times> nat"

definition job_of :: "task_t \<Rightarrow> job" where
  "job_of t = (tk_function t, tk_arg t)"

datatype event = Accepted job | Started job | Finished job

inductive pool_step :: "thread_pool \<Rightarrow> event list \<Rightarrow> thread_pool \<Rightarrow> bool" where
  worker_waits: "i < length (tp_workers p) \<Longrightarrow> tp_workers p ! i = Ready \<Longrightarrow> worker_locked p = Some WorkerWaits \<Longrightarrow>
    pool_step p [] (p\<lparr>tp_workers := (tp_workers p)[i := Waiting]\<rparr>)"
| worker_exits: "i < length (tp_workers p) \<Longrightarrow> tp_workers p ! i = Ready \<Longrightarrow> worker_locked p = Some WorkerExits \<Longrightarrow>
    pool_step p [] (p\<lparr>tp_workers := (tp_workers p)[i := Exited]\<rparr>)"
| worker_takes: "i < length (tp_workers p) \<Longrightarrow> tp_workers p ! i = Ready \<Longrightarrow> worker_locked p = Some (WorkerTakes a q) \<Longrightarrow>
    tasks q a = Some t \<Longrightarrow> woken wake_adder (tp_adders p) as' \<Longrightarrow>
    pool_step p [Started (job_of t)]
      (p\<lparr>tp_queue := q, tp_workers := (tp_workers p)[i := Running a], tp_adders := as'\<rparr>)"
| worker_finishes: "i < length (tp_workers p) \<Longrightarrow> tp_workers p ! i = Running a \<Longrightarrow> tasks (tp_queue p) a = Some t \<Longrightarrow>
    heap_free (tasks (tp_queue p)) (Some a) = Some h \<Longrightarrow>
    pool_step p [Finished (job_of t)]
      (p\<lparr>tp_queue := (tp_queue p)\<lparr>tasks := h\<rparr>, tp_workers := (tp_workers p)[i := Ready]\<rparr>)"
| worker_wakes: "i < length (tp_workers p) \<Longrightarrow> tp_workers p ! i = Waiting \<Longrightarrow>
    pool_step p [] (p\<lparr>tp_workers := (tp_workers p)[i := Ready]\<rparr>)"
| adder_calls: "fresh_ptr (tasks (tp_queue p)) new \<Longrightarrow> pool_step p [] (thread_pool_add p f arg new)"
| adder_waits: "i < length (tp_adders p) \<Longrightarrow> tp_adders p ! i = AReady a \<Longrightarrow> add_locked p a = Some AdderWaits \<Longrightarrow>
    pool_step p [] (p\<lparr>tp_adders := (tp_adders p)[i := AWaiting a]\<rparr>)"
| adder_refused: "i < length (tp_adders p) \<Longrightarrow> tp_adders p ! i = AReady a \<Longrightarrow> add_locked p a = Some (AdderRefused q) \<Longrightarrow>
    pool_step p [] (p\<lparr>tp_queue := q, tp_adders := (tp_adders p)[i := AReturned (- 1)]\<rparr>)"
| adder_accepted: "i < length (tp_adders p) \<Longrightarrow> tp_adders p ! i = AReady a \<Longrightarrow> add_locked p a = Some (AdderAccepted q) \<Longrightarrow>
    tasks q a = Some t \<Longrightarrow> woken wake_worker (tp_workers p) ws' \<Longrightarrow>
    pool_step p [Accepted (job_of t)]
      (p\<lparr>tp_queue := q, tp_workers := ws', tp_adders := (tp_adders p)[i := AReturned 0]\<rparr>)"
| adder_wakes: "i < length (tp_adders p) \<Longrightarrow> tp_adders p ! i = AWaiting a \<Longrightarrow>
    pool_step p [] (p\<lparr>tp_adders := (tp_adders p)[i := AReady a]\<rparr>)"
| shutdown: "pool_step p [] (thread_pool_shutdown p)"

text \<open>The pools reachable from a newly created one, with the events on the way.\<close>

inductive pool_run :: "int \<Rightarrow> int \<Rightarrow> event list \<Rightarrow> thread_pool \<Rightarrow> bool" where
  start: "thread_pool_create n cap True True True k = Some p \<Longrightarrow> pool_run n cap [] p"
| step: "pool_run n cap tr p \<Longrightarrow> pool_step p ev p' \<Longrightarrow> pool_run n cap (tr @ ev) p'"

end
