(* ===== verification/Thread_Pool_Correct.thy ===== *)
theory Thread_Pool_Correct
  imports Thread_Pool
begin

text \<open>
  Correctness of the thread pool: the linked queue satisfies the contract \<open>fifo_queue\<close>; along every
  interleaving of workers, callers and shutdown the pool keeps the invariant \<open>pool_inv\<close>, from which
  follow that tasks start in the order in which they were accepted and each exactly once, that the
  queue never exceeds its capacity, that no wake-up is lost, and that shutdown drains the queue.
\<close>

subsection \<open>The queue\<close>

text \<open>
  A first-in first-out queue of tasks: \<open>rep q as\<close> says that \<open>q\<close> holds the tasks \<open>as\<close>, oldest first;
  \<open>able q a\<close> that \<open>a\<close> can be put into it.
\<close>

locale fifo_queue =
  fixes rep :: "'q \<Rightarrow> 'a list \<Rightarrow> bool" and able :: "'q \<Rightarrow> 'a \<Rightarrow> bool"
    and put :: "'q \<Rightarrow> 'a \<Rightarrow> 'q option" and take' :: "'q \<Rightarrow> ('a \<times> 'q) option" and count :: "'q \<Rightarrow> int"
  assumes put_rep: "rep q as \<Longrightarrow> able q a \<Longrightarrow> a \<notin> set as \<Longrightarrow> \<exists>q'. put q a = Some q' \<and> rep q' (as @ [a])"
    and take_rep: "rep q (a # as) \<Longrightarrow> \<exists>q'. take' q = Some (a, q') \<and> rep q' as"
    and count_rep: "rep q as \<Longrightarrow> count q = int (length as)"
    and rep_unique: "rep q as \<Longrightarrow> rep q bs \<Longrightarrow> as = bs"
begin

lemma count_zero: "rep q as \<Longrightarrow> count q = 0 \<longleftrightarrow> as = []"
  using count_rep by fastforce

lemma take_nonempty:
  assumes "rep q as" "as \<noteq> []"
  obtains q' where "take' q = Some (hd as, q')" "rep q' (tl as)" "count q' = count q - 1"
proof -
  obtain q' where q': "take' q = Some (hd as, q')" "rep q' (tl as)"
    using take_rep [of q "hd as" "tl as"] assms by auto
  have "count q' = count q - 1" using count_rep [OF assms(1)] count_rep [OF q'(2)] assms(2) by (cases as) auto
  with q' show thesis by (rule that)
qed

lemma put_last:
  assumes "rep q as" "able q a" "a \<notin> set as"
  obtains q' where "put q a = Some q'" "rep q' (as @ [a])" "count q' = count q + 1"
  using put_rep [OF assms] count_rep [OF assms(1)] count_rep by fastforce

text \<open>A task put into a queue comes out after all those already there.\<close>

lemma put_take_order:
  assumes "rep q as" "able q a" "a \<notin> set as" "as \<noteq> []"
  obtains q1 q2 where "put q a = Some q1" "take' q1 = Some (hd as, q2)" "rep q2 (tl as @ [a])"
proof -
  obtain q1 where q1: "put q a = Some q1" "rep q1 (as @ [a])" by (rule put_last [OF assms(1-3)])
  obtain q2 where "take' q1 = Some (hd (as @ [a]), q2)" "rep q2 (tl (as @ [a]))"
    by (rule take_nonempty [OF q1(2)]) auto
  then show thesis using that q1(1) assms(4) by simp
qed

end

definition queue_rep :: "task_queue_t \<Rightarrow> nat list \<Rightarrow> bool" where
  "queue_rep q as \<longleftrightarrow> chain tk_next (tasks q) (q_head q) as \<and>
     q_tail q = (if as = [] then None else Some (last as)) \<and> q_size q = int (length as)"

definition task_able :: "task_queue_t \<Rightarrow> nat \<Rightarrow> bool" where
  "task_able q a \<longleftrightarrow> (\<exists>t. tasks q a = Some t \<and> tk_next t = None)"

lemma chain_snoc:
  assumes "chain tk_next h p as" "as \<noteq> []" "h (last as) = Some l" "a \<notin> set as" "h a = Some t" "tk_next t = None"
  shows "chain tk_next (h(last as \<mapsto> l\<lparr>tk_next := Some a\<rparr>)) p (as @ [a])"
  using assms(1-4)
proof (induction as arbitrary: p)
  case (Cons b as)
  obtain n where n: "p = Some b" "h b = Some n" "chain tk_next h (tk_next n) as" using Cons.prems(1) by auto
  show ?case
  proof (cases "as = []")
    case True
    then show ?thesis using n Cons.prems assms(5,6) by auto
  next
    case False
    have "chain tk_next (h(last as \<mapsto> l\<lparr>tk_next := Some a\<rparr>)) (tk_next n) (as @ [a])"
      by (rule Cons.IH [OF n(3) False]) (use Cons.prems False in auto)
    moreover have "last as \<noteq> b" using chain_distinct [OF Cons.prems(1)] False by auto
    ultimately show ?thesis using n False by (simp add: fun_upd_def)
  qed
qed simp

lemma queue_put_rep:
  assumes rep: "queue_rep q as" and a: "task_able q a" "a \<notin> set as"
  obtains q' where "queue_put q a = Some q'" "queue_rep q' (as @ [a])" "q_capacity q' = q_capacity q"
    "\<And>b. map_option job_of (tasks q' b) = map_option job_of (tasks q b)"
    "\<And>b. b \<notin> set as \<Longrightarrow> tasks q' b = tasks q b"
proof (cases "as = []")
  case True
  let ?q = "q\<lparr>q_head := Some a, q_tail := Some a, q_size := q_size q + 1\<rparr>"
  have "queue_put q a = Some ?q" using rep True by (simp add: queue_put_def queue_rep_def)
  moreover have "queue_rep ?q (as @ [a])" using rep a True by (auto simp: queue_rep_def task_able_def)
  ultimately show thesis by (rule that) auto
next
  case False
  have ch: "chain tk_next (tasks q) (q_head q) as" using rep by (simp add: queue_rep_def)
  obtain l where l: "tasks q (last as) = Some l" using chain_live [OF ch, of "last as"] False by auto
  let ?h = "(tasks q)(last as \<mapsto> l\<lparr>tk_next := Some a\<rparr>)"
  let ?q = "q\<lparr>tasks := ?h, q_tail := Some a, q_size := q_size q + 1\<rparr>"
  have "queue_put q a = Some ?q" using rep False l by (simp add: queue_put_def queue_rep_def mem_simps)
  moreover have "queue_rep ?q (as @ [a])"
    using rep chain_snoc [OF ch False l a(2)] a(1) by (auto simp: queue_rep_def task_able_def)
  ultimately show thesis by (rule that) (use l False in \<open>auto simp: job_of_def\<close>)
qed

lemma queue_take_rep:
  assumes "queue_rep q (a # as)"
  obtains q' where "queue_take q = Some (a, q')" "queue_rep q' as" "q_capacity q' = q_capacity q" "tasks q' = tasks q"
proof -
  obtain t where t: "q_head q = Some a" "tasks q a = Some t" "chain tk_next (tasks q) (tk_next t) as"
    using assms by (auto simp: queue_rep_def)
  let ?q1 = "q\<lparr>q_head := tk_next t\<rparr>"
  let ?q2 = "if tk_next t = None then ?q1\<lparr>q_tail := None\<rparr> else ?q1"
  let ?q = "?q2\<lparr>q_size := q_size q - 1\<rparr>"
  have none: "tk_next t = None \<longleftrightarrow> as = []" using t(3) by (cases as) auto
  have "queue_take q = Some (a, ?q)" using t by (simp add: queue_take_def mem_simps Let_def)
  moreover have "queue_rep ?q as" using assms t none by (auto simp: queue_rep_def)
  ultimately show thesis by (rule that) auto
qed

interpretation task_queue: fifo_queue queue_rep task_able queue_put queue_take q_size
proof unfold_locales
  show "\<exists>q'. queue_put q a = Some q' \<and> queue_rep q' (as @ [a])"
    if "queue_rep q as" "task_able q a" "a \<notin> set as" for q as a
    by (rule queue_put_rep [OF that]) blast
  show "\<exists>q'. queue_take q = Some (a, q') \<and> queue_rep q' as" if "queue_rep q (a # as)" for q a as
    by (rule queue_take_rep [OF that]) blast
  show "as = bs" if "queue_rep q as" "queue_rep q bs" for q as bs
    using that chain_unique by (auto simp: queue_rep_def)
qed (simp add: queue_rep_def)

subsection \<open>Summing over threads\<close>

lemma sum_list_upd:
  fixes f :: "'a \<Rightarrow> 'b::comm_monoid_add"
  shows "i < length xs \<Longrightarrow> f (xs ! i) + sum_list (map f (xs[i := y])) = f y + sum_list (map f xs)"
  by (induction xs arbitrary: i) (auto simp: less_Suc_eq_0_disj algebra_simps split: nat.splits)

lemma sum_list_upd_eq:
  fixes f :: "'a \<Rightarrow> 'b::cancel_comm_monoid_add"
  assumes "i < length xs" "f y = f (xs ! i)"
  shows "sum_list (map f (xs[i := y])) = sum_list (map f xs)"
  using sum_list_upd [OF assms(1), of f y] assms(2) by simp

lemma woken_sum:
  assumes "woken wake xs xs'" "\<And>x. f (wake x) = f x"
  shows "sum_list (map f xs') = sum_list (map f xs)"
proof -
  have "list_all2 (\<lambda>x y. f y = f x) xs xs'"
    using assms(1) list_all2_mono [of _ xs xs' "\<lambda>x y. f y = f x"] assms(2) unfolding woken_def by (smt (verit, best))
  then have "map f xs' = map f xs" by (induction rule: list_all2_induct) auto
  then show ?thesis by simp
qed

lemma woken_all [simp]: "woken wake xs (map wake xs)"
  by (auto simp: woken_def list_all2_conv_all_nth)

definition task_of :: "worker \<Rightarrow> nat multiset" where
  "task_of w = (case w of Running a \<Rightarrow> {#a#} | _ \<Rightarrow> {#})"

definition held_by :: "adder \<Rightarrow> nat multiset" where
  "held_by d = (case d of AReady a \<Rightarrow> {#a#} | AWaiting a \<Rightarrow> {#a#} | AReturned _ \<Rightarrow> {#})"

abbreviation running :: "worker list \<Rightarrow> nat multiset" where
  "running ws \<equiv> sum_list (map task_of ws)"

abbreviation held :: "adder list \<Rightarrow> nat multiset" where
  "held ds \<equiv> sum_list (map held_by ds)"

definition ready_workers :: "worker list \<Rightarrow> nat" where
  "ready_workers ws = sum_list (map (\<lambda>w. of_bool (w = Ready)) ws)"

definition awaits :: "adder \<Rightarrow> bool" where
  "awaits d \<longleftrightarrow> (case d of AWaiting _ \<Rightarrow> True | _ \<Rightarrow> False)"

definition ready_adders :: "adder list \<Rightarrow> nat" where
  "ready_adders ds = sum_list (map (\<lambda>d. case d of AReady _ \<Rightarrow> 1 | _ \<Rightarrow> 0) ds)"

lemma thread_simps [simp]:
  "task_of Ready = {#}" "task_of Waiting = {#}" "task_of Exited = {#}" "task_of (Running a) = {#a#}"
  "held_by (AReady a) = {#a#}" "held_by (AWaiting a) = {#a#}" "held_by (AReturned r) = {#}"
  "awaits (AWaiting a)" "\<not> awaits (AReady a)" "\<not> awaits (AReturned r)"
  by (simp_all add: task_of_def held_by_def awaits_def)

lemma wake_simps [simp]:
  "task_of (wake_worker w) = task_of w" "held_by (wake_adder d) = held_by d"
  "wake_worker w \<noteq> Waiting" "\<not> awaits (wake_adder d)" "wake_worker w = Exited \<longleftrightarrow> w = Exited"
  by (cases w; cases d; simp)+

lemma running_upd: "i < length ws \<Longrightarrow> task_of (ws ! i) + running (ws[i := w]) = task_of w + running ws"
  by (rule sum_list_upd)

lemma held_upd: "i < length ds \<Longrightarrow> held_by (ds ! i) + held (ds[i := d]) = held_by d + held ds"
  by (rule sum_list_upd)

lemma ready_workers_upd:
  "i < length ws \<Longrightarrow> of_bool (ws ! i = Ready) + ready_workers (ws[i := w]) = of_bool (w = Ready) + ready_workers ws"
  unfolding ready_workers_def by (rule sum_list_upd)

lemma ready_adders_upd:
  "i < length ds \<Longrightarrow> (case ds ! i of AReady _ \<Rightarrow> 1 | _ \<Rightarrow> 0) + ready_adders (ds[i := d]) =
     (case d of AReady _ \<Rightarrow> 1 | _ \<Rightarrow> 0) + ready_adders ds"
  unfolding ready_adders_def by (rule sum_list_upd)

text \<open>A signal that finds a waiting thread makes one more thread ready.\<close>

lemma list_all2_sum_less:
  fixes f :: "'a \<Rightarrow> nat"
  assumes "list_all2 P xs ys" "xs \<noteq> ys" "\<And>x y. P x y \<Longrightarrow> x \<noteq> y \<Longrightarrow> f x < f y"
  shows "sum_list (map f xs) < sum_list (map f ys)"
proof -
  have le: "sum_list (map f as) \<le> sum_list (map f bs)" if "list_all2 P as bs" for as bs
    using that assms(3) by (induction rule: list_all2_induct) (force intro: add_mono less_imp_le)+
  show ?thesis using assms(1,2)
  proof (induction rule: list_all2_induct)
    case (Cons x xs y ys)
    show ?case
    proof (cases "x = y")
      case True
      then show ?thesis using Cons by simp
    next
      case False
      then show ?thesis using assms(3) [OF Cons.hyps(1)] le [OF Cons.hyps(2)] by simp
    qed
  qed simp
qed

lemma wake_changes: "x \<noteq> wake_worker x \<Longrightarrow> x = Waiting"
  by (cases x) auto

lemma wake_adder_changes: "d \<noteq> wake_adder d \<Longrightarrow> \<exists>a. d = AWaiting a"
  by (cases d) auto

lemma woken_ready:
  assumes "woken wake_worker ws ws'" "Waiting \<in> set ws"
  shows "Suc (ready_workers ws) \<le> ready_workers ws'"
proof -
  have "map wake_worker ws \<noteq> ws" using assms(2) by (metis map_eq_conv map_ident wake_simps(3))
  then have "ready_workers ws < ready_workers ws'"
    using assms(1) unfolding ready_workers_def woken_def
    by (intro list_all2_sum_less [where P = "\<lambda>x y. y = x \<or> y = wake_worker x"]) (auto dest: wake_changes)
  then show ?thesis by simp
qed

lemma woken_ready_adders:
  assumes "woken wake_adder ds ds'" "d \<in> set ds" "awaits d"
  shows "Suc (ready_adders ds) \<le> ready_adders ds'"
proof -
  have "map wake_adder ds \<noteq> ds" using assms(2,3) by (metis map_eq_conv map_ident wake_simps(4))
  then have "ready_adders ds < ready_adders ds'"
    using assms(1) unfolding ready_adders_def woken_def
    by (intro list_all2_sum_less [where P = "\<lambda>x y. y = x \<or> y = wake_adder x"])
      (auto dest: wake_adder_changes)
  then show ?thesis by simp
qed

lemma woken_length [simp]: "woken wake xs xs' \<Longrightarrow> length xs' = length xs"
  by (auto simp: woken_def list_all2_lengthD)

lemma woken_set:
  assumes "woken wake xs xs'" "y \<in> set xs'"
  shows "\<exists>x\<in>set xs. y = x \<or> y = wake x"
proof -
  have "list_all2 (\<lambda>x y. y = x \<or> y = wake x) xs xs'" using assms(1) by (simp add: woken_def)
  then show ?thesis using assms(2) by (induction rule: list_all2_induct) auto
qed

lemma woken_waiting: "woken wake_worker ws ws' \<Longrightarrow> Waiting \<in> set ws' \<Longrightarrow> Waiting \<in> set ws"
  using woken_set wake_simps(3) by metis

lemma woken_exited: "woken wake_worker ws ws' \<Longrightarrow> Exited \<in> set ws' \<Longrightarrow> Exited \<in> set ws"
  by (metis woken_set wake_simps(5))

lemma woken_awaits: "woken wake_adder ds ds' \<Longrightarrow> d \<in> set ds' \<Longrightarrow> awaits d \<Longrightarrow> d \<in> set ds"
  using woken_set wake_simps(4) by metis

subsection \<open>The invariant\<close>

text \<open>
  The memory part: the queue holds the tasks \<open>as\<close>, at most \<open>cap\<close> of them, and every allocated
  task is owned exactly once, by the queue, by the worker that runs it or by the caller that adds it.
\<close>

definition pool_mem :: "int \<Rightarrow> thread_pool \<Rightarrow> nat list \<Rightarrow> bool" where
  "pool_mem cap p as \<longleftrightarrow> queue_rep (tp_queue p) as \<and> q_capacity (tp_queue p) = cap \<and> int (length as) \<le> cap \<and>
     finite (dom (tasks (tp_queue p))) \<and>
     mset as + running (tp_workers p) + held (tp_adders p) = mset_set (dom (tasks (tp_queue p))) \<and>
     (\<forall>a \<in> set_mset (held (tp_adders p)). task_able (tp_queue p) a)"

text \<open>The trace part: what was accepted, started and finished so far.\<close>

definition accepted :: "event list \<Rightarrow> job list" where
  "accepted tr = concat (map (\<lambda>e. case e of Accepted j \<Rightarrow> [j] | _ \<Rightarrow> []) tr)"

definition started :: "event list \<Rightarrow> job list" where
  "started tr = concat (map (\<lambda>e. case e of Started j \<Rightarrow> [j] | _ \<Rightarrow> []) tr)"

definition finished :: "event list \<Rightarrow> job list" where
  "finished tr = concat (map (\<lambda>e. case e of Finished j \<Rightarrow> [j] | _ \<Rightarrow> []) tr)"

lemma trace_simps [simp]:
  "accepted [] = []" "started [] = []" "finished [] = []"
  "accepted (tr @ tr') = accepted tr @ accepted tr'" "started (tr @ tr') = started tr @ started tr'"
  "finished (tr @ tr') = finished tr @ finished tr'"
  "accepted [Accepted j] = [j]" "accepted [Started j] = []" "accepted [Finished j] = []"
  "started [Accepted j] = []" "started [Started j] = [j]" "started [Finished j] = []"
  "finished [Accepted j] = []" "finished [Started j] = []" "finished [Finished j] = [j]"
  by (simp_all add: accepted_def started_def finished_def)

definition job_at :: "task_queue_t \<Rightarrow> nat \<Rightarrow> job" where
  "job_at q a = job_of (the (tasks q a))"

definition pool_trace :: "event list \<Rightarrow> thread_pool \<Rightarrow> nat list \<Rightarrow> bool" where
  "pool_trace tr p as \<longleftrightarrow> accepted tr = started tr @ map (job_at (tp_queue p)) as \<and>
     mset (started tr) = mset (finished tr) + image_mset (job_at (tp_queue p)) (running (tp_workers p))"

text \<open>
  The synchronization part: workers leave only after shutdown with an empty queue, nobody waits
  after shutdown, and a thread that waits leaves enough ready threads behind to do the work.
\<close>

definition pool_sync :: "int \<Rightarrow> thread_pool \<Rightarrow> nat list \<Rightarrow> bool" where
  "pool_sync cap p as \<longleftrightarrow>
     (Exited \<in> set (tp_workers p) \<longrightarrow> tp_shutdown p \<and> as = []) \<and>
     (tp_shutdown p \<longrightarrow> Waiting \<notin> set (tp_workers p) \<and> (\<forall>d \<in> set (tp_adders p). \<not> awaits d)) \<and>
     (Waiting \<in> set (tp_workers p) \<longrightarrow> length as \<le> ready_workers (tp_workers p)) \<and>
     ((\<exists>d \<in> set (tp_adders p). awaits d) \<longrightarrow> cap \<le> int (length as + ready_adders (tp_adders p)))"

definition pool_inv :: "int \<Rightarrow> int \<Rightarrow> event list \<Rightarrow> thread_pool \<Rightarrow> nat list \<Rightarrow> bool" where
  "pool_inv n cap tr p as \<longleftrightarrow> 0 < n \<and> 0 < cap \<and> length (tp_workers p) = nat n \<and>
     pool_mem cap p as \<and> pool_trace tr p as \<and> pool_sync cap p as"

lemma owned_count:
  assumes "pool_mem cap p as"
  shows "count (mset as) a + count (running (tp_workers p)) a + count (held (tp_adders p)) a
    = of_bool (tasks (tp_queue p) a \<noteq> None)"
proof -
  have "count (mset as + running (tp_workers p) + held (tp_adders p)) a = count (mset_set (dom (tasks (tp_queue p)))) a"
    using assms by (simp add: pool_mem_def)
  then show ?thesis using assms by (auto simp: pool_mem_def count_mset_set' split: if_splits)
qed

lemma count_split:
  assumes "count (mset as) a + count R a + count H a = of_bool b" "a \<in># R"
  shows "b" "a \<notin> set as" "count R a = 1" "a \<notin># H"
proof -
  have pos: "0 < count R a" using assms(2) by (rule count_greater_zero_iff [THEN iffD2])
  show b using assms(1) pos by (cases b) simp_all
  then have one: "count (mset as) a + count R a + count H a = 1" using assms(1) by simp
  show "count R a = 1" using one pos by linarith
  have "count (mset as) a = 0" "count H a = 0" using one pos by linarith+
  then show "a \<notin> set as" "a \<notin># H" by (simp_all add: count_eq_zero_iff)
qed

lemma running_live:
  assumes "pool_mem cap p as" "a \<in># running (tp_workers p)"
  shows "tasks (tp_queue p) a \<noteq> None" "a \<notin> set as" "count (running (tp_workers p)) a = 1" "a \<notin># held (tp_adders p)"
  by (fact count_split [OF owned_count [OF assms(1)] assms(2)])+

lemma held_live:
  assumes "pool_mem cap p as" "a \<in># held (tp_adders p)"
  shows "tasks (tp_queue p) a \<noteq> None" "a \<notin> set as" "count (held (tp_adders p)) a = 1" "a \<notin># running (tp_workers p)"
proof -
  have "count (mset as) a + count (held (tp_adders p)) a + count (running (tp_workers p)) a
    = of_bool (tasks (tp_queue p) a \<noteq> None)"
    using owned_count [OF assms(1), of a] by simp
  note facts = count_split [OF this assms(2)]
  show "tasks (tp_queue p) a \<noteq> None" "a \<notin> set as" "count (held (tp_adders p)) a = 1" "a \<notin># running (tp_workers p)"
    by (fact facts)+
qed

lemma nth_running: "i < length ws \<Longrightarrow> ws ! i = Running a \<Longrightarrow> a \<in># running ws"
  using running_upd [of i ws Ready] by (intro union_single_eq_member [of a "running (ws[i := Ready])"]) simp

lemma nth_held: "i < length ds \<Longrightarrow> ds ! i = AReady a \<or> ds ! i = AWaiting a \<Longrightarrow> a \<in># held ds"
  using held_upd [of i ds "AReturned 0"] by (intro union_single_eq_member [of a "held (ds[i := AReturned 0])"]) auto

lemma jobs_same:
  assumes "\<And>b. map_option job_of (tasks q' b) = map_option job_of (tasks q b)"
  shows "job_at q' = job_at q" "dom (tasks q') = dom (tasks q)"
proof -
  show "job_at q' = job_at q"
  proof
    fix a
    show "job_at q' a = job_at q a" using assms [of a] unfolding job_at_def
      by (cases "tasks q a"; cases "tasks q' a") auto
  qed
  have "tasks q' a = None \<longleftrightarrow> tasks q a = None" for a
    using assms [of a] by (metis option.map_disc_iff)
  then show "dom (tasks q') = dom (tasks q)" by (simp add: dom_def)
qed

subsection \<open>Every step keeps the invariant\<close>

lemma upd_elem: "x \<in> set (xs[i := y]) \<Longrightarrow> x \<noteq> y \<Longrightarrow> x \<in> set xs"
  using set_update_subset_insert by fastforce

lemma upd_any: "\<exists>d \<in> set (ds[i := e]). awaits d \<Longrightarrow> \<not> awaits e \<Longrightarrow> \<exists>d \<in> set ds. awaits d"
  using upd_elem by metis

lemmas pool_defs = pool_inv_def pool_mem_def pool_trace_def pool_sync_def

lemma inv_queue:
  assumes "pool_inv n cap tr p as"
  shows "queue_rep (tp_queue p) as" "q_size (tp_queue p) = int (length as)" "q_capacity (tp_queue p) = cap"
  using assms by (auto simp: pool_inv_def pool_mem_def task_queue.count_rep)

lemma inv_sync:
  assumes "pool_inv n cap tr p as"
  shows "Exited \<in> set (tp_workers p) \<Longrightarrow> tp_shutdown p \<and> as = []"
    "tp_shutdown p \<Longrightarrow> Waiting \<notin> set (tp_workers p)"
    "tp_shutdown p \<Longrightarrow> d \<in> set (tp_adders p) \<Longrightarrow> \<not> awaits d"
    "Waiting \<in> set (tp_workers p) \<Longrightarrow> length as \<le> ready_workers (tp_workers p)"
    "d \<in> set (tp_adders p) \<Longrightarrow> awaits d \<Longrightarrow> cap \<le> int (length as + ready_adders (tp_adders p))"
  using assms unfolding pool_inv_def pool_sync_def by blast+

lemma create_inv:
  assumes "thread_pool_create n cap True True True k = Some p"
  shows "pool_inv n cap [] p []"
proof -
  have p: "0 < n" "0 < cap" "p = \<lparr>tp_queue = \<lparr>tasks = Map.empty, q_head = None, q_tail = None, q_size = 0, q_capacity = cap\<rparr>,
      tp_workers = replicate (nat n) Ready, tp_adders = [], tp_shutdown = False\<rparr>"
    using assms by (auto simp: thread_pool_create_def split: if_splits)
  have "running (replicate m Ready) = {#}" for m by (induction m) auto
  then show ?thesis using p by (simp add: pool_defs queue_rep_def)
qed

lemma worker_waits_inv:
  assumes inv: "pool_inv n cap tr p as" and i: "i < length (tp_workers p)" "tp_workers p ! i = Ready"
    and locked: "worker_locked p = Some WorkerWaits"
  shows "pool_inv n cap tr (p\<lparr>tp_workers := (tp_workers p)[i := Waiting]\<rparr>) as"
proof -
  have "as = []" "\<not> tp_shutdown p"
    using locked inv_queue [OF inv] by (auto simp: worker_locked_def split: if_splits bind_splits)
  moreover have "running ((tp_workers p)[i := Waiting]) = running (tp_workers p)"
    using running_upd [OF i(1), of Waiting] i(2) by simp
  ultimately show ?thesis using inv by (auto simp: pool_defs dest: upd_elem)
qed

lemma worker_exits_inv:
  assumes inv: "pool_inv n cap tr p as" and i: "i < length (tp_workers p)" "tp_workers p ! i = Ready"
    and locked: "worker_locked p = Some WorkerExits"
  shows "pool_inv n cap tr (p\<lparr>tp_workers := (tp_workers p)[i := Exited]\<rparr>) as"
proof -
  have "as = []" "tp_shutdown p"
    using locked inv_queue [OF inv] by (auto simp: worker_locked_def split: if_splits bind_splits)
  moreover have "running ((tp_workers p)[i := Exited]) = running (tp_workers p)"
    using running_upd [OF i(1), of Exited] i(2) by simp
  ultimately show ?thesis using inv by (auto simp: pool_defs dest: upd_elem)
qed

lemma worker_wakes_inv:
  assumes inv: "pool_inv n cap tr p as" and i: "i < length (tp_workers p)" "tp_workers p ! i = Waiting"
  shows "pool_inv n cap tr (p\<lparr>tp_workers := (tp_workers p)[i := Ready]\<rparr>) as"
proof -
  have "running ((tp_workers p)[i := Ready]) = running (tp_workers p)"
    using running_upd [OF i(1), of Ready] i(2) by simp
  moreover have "ready_workers ((tp_workers p)[i := Ready]) = Suc (ready_workers (tp_workers p))"
    using ready_workers_upd [OF i(1), of Ready] i(2) by simp
  ultimately show ?thesis using inv by (auto simp: pool_defs dest: upd_elem)
qed

lemma adder_waits_inv:
  assumes inv: "pool_inv n cap tr p as" and i: "i < length (tp_adders p)" "tp_adders p ! i = AReady a"
    and locked: "add_locked p a = Some AdderWaits"
  shows "pool_inv n cap tr (p\<lparr>tp_adders := (tp_adders p)[i := AWaiting a]\<rparr>) as"
proof -
  have "int (length as) = cap" "\<not> tp_shutdown p"
    using locked inv_queue [OF inv] by (auto simp: add_locked_def split: if_splits bind_splits)
  moreover have "held ((tp_adders p)[i := AWaiting a]) = held (tp_adders p)"
    using held_upd [OF i(1), of "AWaiting a"] i(2) by simp
  ultimately show ?thesis using inv by (simp add: pool_defs)
qed

lemma adder_wakes_inv:
  assumes inv: "pool_inv n cap tr p as" and i: "i < length (tp_adders p)" "tp_adders p ! i = AWaiting a"
  shows "pool_inv n cap tr (p\<lparr>tp_adders := (tp_adders p)[i := AReady a]\<rparr>) as"
proof -
  have "held ((tp_adders p)[i := AReady a]) = held (tp_adders p)"
    using held_upd [OF i(1), of "AReady a"] i(2) by simp
  moreover have "ready_adders ((tp_adders p)[i := AReady a]) = Suc (ready_adders (tp_adders p))"
    using ready_adders_upd [OF i(1), of "AReady a"] i(2) by simp
  moreover have "\<exists>d\<in>set (tp_adders p). awaits d" using i by (metis nth_mem thread_simps(8))
  ultimately show ?thesis using inv by (auto simp: pool_defs dest: upd_elem)
qed

lemma shutdown_inv:
  assumes inv: "pool_inv n cap tr p as"
  shows "pool_inv n cap tr (thread_pool_shutdown p) as"
proof -
  have "running (map wake_worker (tp_workers p)) = running (tp_workers p)"
    "held (map wake_adder (tp_adders p)) = held (tp_adders p)" by (simp_all add: comp_def)
  moreover have "Waiting \<notin> set (map wake_worker (tp_workers p))" using wake_simps(3) by (metis ex_map_conv)
  moreover have "\<forall>d\<in>set (map wake_adder (tp_adders p)). \<not> awaits d" by auto
  moreover have "Exited \<in> set (map wake_worker (tp_workers p)) \<longleftrightarrow> Exited \<in> set (tp_workers p)"
    by (metis wake_simps(5) wake_worker.simps(4) image_eqI image_iff list.set_map)
  ultimately show ?thesis using inv unfolding pool_defs thread_pool_shutdown_def by simp
qed

text \<open>A worker takes the oldest task.\<close>

lemma worker_takes_as:
  assumes inv: "pool_inv n cap tr p as" and locked: "worker_locked p = Some (WorkerTakes a q)"
  obtains as' where "as = a # as'" "queue_rep q as'" "q_capacity q = cap" "tasks q = tasks (tp_queue p)"
proof -
  have tk: "queue_take (tp_queue p) = Some (a, q)"
    using locked by (auto simp: worker_locked_def split: if_splits bind_splits)
  have "as \<noteq> []" using locked inv_queue [OF inv] by (auto simp: worker_locked_def split: if_splits)
  then obtain b as' where as: "as = b # as'" by (cases as) auto
  obtain q' where "queue_take (tp_queue p) = Some (b, q')" "queue_rep q' as'"
    "q_capacity q' = cap" "tasks q' = tasks (tp_queue p)"
    using queue_take_rep [of "tp_queue p" b as'] inv_queue [OF inv] as by metis
  then show thesis using that as tk by simp
qed

lemma worker_takes_inv:
  assumes inv: "pool_inv n cap tr p as" and i: "i < length (tp_workers p)" "tp_workers p ! i = Ready"
    and locked: "worker_locked p = Some (WorkerTakes a q)" and t: "tasks q a = Some t"
    and wk: "woken wake_adder (tp_adders p) ds"
  shows "pool_inv n cap (tr @ [Started (job_of t)])
    (p\<lparr>tp_queue := q, tp_workers := (tp_workers p)[i := Running a], tp_adders := ds\<rparr>) (tl as)"
proof -
  obtain as' where as: "as = a # as'" "queue_rep q as'" "q_capacity q = cap" "tasks q = tasks (tp_queue p)"
    by (rule worker_takes_as [OF inv locked])
  let ?ws = "(tp_workers p)[i := Running a]" and ?p = "p\<lparr>tp_queue := q, tp_workers := (tp_workers p)[i := Running a], tp_adders := ds\<rparr>"
  have run: "running ?ws = add_mset a (running (tp_workers p))" using running_upd [OF i(1), of "Running a"] i(2) by simp
  have rdy: "ready_workers (tp_workers p) = Suc (ready_workers ?ws)"
    using ready_workers_upd [OF i(1), of "Running a"] i(2) by simp
  have hld: "held ds = held (tp_adders p)" by (rule woken_sum [OF wk]) simp
  have job: "job_at q = job_at (tp_queue p)" "job_at q a = job_of t" using as(4) t by (auto simp: job_at_def fun_eq_iff)
  have able: "task_able q = task_able (tp_queue p)" using as(4) by (simp add: task_able_def fun_eq_iff)
  have "pool_mem cap ?p as'" using inv as run hld able by (simp add: pool_inv_def pool_mem_def)
  moreover have "pool_trace (tr @ [Started (job_of t)]) ?p as'"
    using inv as run job by (simp add: pool_inv_def pool_trace_def)
  moreover have "pool_sync cap ?p as'"
  proof -
    have "cap \<le> int (length as' + ready_adders ds)" if d: "d \<in> set ds" "awaits d" for d
      using woken_ready_adders [OF wk woken_awaits [OF wk d] d(2)] woken_awaits [OF wk d] d(2) inv as(1)
      by (fastforce simp: pool_inv_def pool_sync_def)
    moreover have "Exited \<notin> set ?ws" using inv_sync(1) [OF inv] as(1) upd_elem [of Exited] by blast
    moreover have "\<not> awaits d" if "tp_shutdown p" "d \<in> set ds" for d
      using inv_sync(3) [OF inv] woken_awaits [OF wk] that by blast
    moreover have "length as' \<le> ready_workers ?ws" if "Waiting \<in> set ?ws"
      using inv_sync(4) [OF inv] upd_elem [OF that] rdy as(1) by simp
    moreover have "Waiting \<notin> set ?ws" if "tp_shutdown p" using inv_sync(2) [OF inv that] upd_elem [of Waiting] by blast
    ultimately show ?thesis unfolding pool_sync_def by auto
  qed
  ultimately show ?thesis using inv as(1) by (simp add: pool_inv_def)
qed

lemma mset_set_remove: "finite D \<Longrightarrow> a \<in> D \<Longrightarrow> mset_set D = add_mset a (mset_set (D - {a}))"
  by (metis finite_Diff insert_Diff insert_Diff_single mset_set.insert Diff_iff singletonI)

lemma free_task:
  assumes h: "heap_free (tasks q) (Some a) = Some h"
  shows "h = (tasks q)(a := None)" "dom h = dom (tasks q) - {a}" "a \<in> dom (tasks q)"
  using h by (auto simp: mem_simps heap_free_def split: if_splits option.splits)

lemma free_keeps_chain:
  "queue_rep q as \<Longrightarrow> a \<notin> set as \<Longrightarrow> queue_rep (q\<lparr>tasks := (tasks q)(a := None)\<rparr>) as"
  by (auto simp: queue_rep_def intro: chain_frame)

lemma worker_finishes_inv:
  assumes inv: "pool_inv n cap tr p as" and i: "i < length (tp_workers p)" "tp_workers p ! i = Running a"
    and t: "tasks (tp_queue p) a = Some t" and h: "heap_free (tasks (tp_queue p)) (Some a) = Some h"
  shows "pool_inv n cap (tr @ [Finished (job_of t)])
    (p\<lparr>tp_queue := (tp_queue p)\<lparr>tasks := h\<rparr>, tp_workers := (tp_workers p)[i := Ready]\<rparr>) as"
proof -
  let ?q = "(tp_queue p)\<lparr>tasks := h\<rparr>" and ?ws = "(tp_workers p)[i := Ready]"
  let ?p = "p\<lparr>tp_queue := ?q, tp_workers := ?ws\<rparr>"
  have mem: "pool_mem cap p as" using inv by (simp add: pool_inv_def)
  have run: "running (tp_workers p) = add_mset a (running ?ws)" using running_upd [OF i(1), of Ready] i(2) by simp
  note h = free_task [OF h]
  note live = running_live [OF mem nth_running [OF i]]
  have nrun: "a \<notin># running ?ws" using live(3) run by (simp add: count_eq_zero_iff)
  have job: "job_at ?q b = job_at (tp_queue p) b" if "b \<noteq> a" for b using that h(1) by (simp add: job_at_def)
  have "pool_mem cap ?p as"
    using mem h live(2,4) run mset_set_remove [of "dom (tasks (tp_queue p))" a] free_keeps_chain [of "tp_queue p" as a]
    by (auto simp: pool_mem_def task_able_def)
  moreover have "pool_trace (tr @ [Finished (job_of t)]) ?p as"
  proof -
    have "map (job_at ?q) as = map (job_at (tp_queue p)) as" by (rule map_cong [OF refl]) (use live(2) job in metis)
    moreover have "image_mset (job_at ?q) (running ?ws) = image_mset (job_at (tp_queue p)) (running ?ws)"
      by (rule image_mset_cong) (use nrun job in metis)
    moreover have "job_at (tp_queue p) a = job_of t" using t by (simp add: job_at_def)
    ultimately show ?thesis using inv run by (simp add: pool_inv_def pool_trace_def)
  qed
  moreover have "pool_sync cap ?p as"
    using inv ready_workers_upd [OF i(1), of Ready] i(2)
    by (auto simp: pool_inv_def pool_sync_def dest: upd_elem)
  ultimately show ?thesis using inv by (simp add: pool_inv_def)
qed

text \<open>Adding: the new task belongs to the caller until it is in the queue or freed.\<close>

lemma adder_calls_inv:
  assumes inv: "pool_inv n cap tr p as" and new: "fresh_ptr (tasks (tp_queue p)) new"
  shows "pool_inv n cap tr (thread_pool_add p f arg new) as"
proof (cases "\<exists>g a. f = Some g \<and> new = Some a")
  case False
  then have "thread_pool_add p f arg new = p\<lparr>tp_adders := tp_adders p @ [AReturned (- 1)]\<rparr>"
    by (auto simp: thread_pool_add_def split: option.splits)
  then show ?thesis using inv by (auto simp: pool_defs ready_adders_def)
next
  case True
  then obtain g a where ga: "f = Some g" "new = Some a" by blast
  let ?q = "(tp_queue p)\<lparr>tasks := (tasks (tp_queue p))(a \<mapsto> \<lparr>tk_function = g, tk_arg = arg, tk_next = None\<rparr>)\<rparr>"
  let ?p = "p\<lparr>tp_queue := ?q, tp_adders := tp_adders p @ [AReady a]\<rparr>"
  have p': "thread_pool_add p f arg new = ?p" using ga by (simp add: thread_pool_add_def)
  have mem: "pool_mem cap p as" using inv by (simp add: pool_inv_def)
  have a: "tasks (tp_queue p) a = None" using new ga by (simp add: fresh_ptr_def)
  have nas: "a \<notin> set as" and nrun: "a \<notin># running (tp_workers p)"
    using owned_count [OF mem, of a] a by (simp_all add: count_eq_zero_iff del: set_mset_sum_list)
  have rep: "queue_rep ?q as" using inv_queue(1) [OF inv] nas by (auto simp: queue_rep_def intro: chain_frame)
  have "pool_mem cap ?p as" using mem a rep by (auto simp: pool_mem_def task_able_def domIff)
  moreover have "pool_trace tr ?p as"
  proof -
    have "map (job_at ?q) as = map (job_at (tp_queue p)) as" using nas by (auto simp: job_at_def)
    moreover have "image_mset (job_at ?q) (running (tp_workers p)) = image_mset (job_at (tp_queue p)) (running (tp_workers p))"
      by (rule image_mset_cong) (use nrun in \<open>auto simp: job_at_def\<close>)
    ultimately show ?thesis using inv by (simp add: pool_inv_def pool_trace_def)
  qed
  moreover have "pool_sync cap ?p as" using inv by (auto simp: pool_inv_def pool_sync_def ready_adders_def)
  ultimately show ?thesis using inv p' by (simp add: pool_inv_def)
qed

lemma adder_refused_inv:
  assumes inv: "pool_inv n cap tr p as" and i: "i < length (tp_adders p)" "tp_adders p ! i = AReady a"
    and locked: "add_locked p a = Some (AdderRefused q)"
  shows "pool_inv n cap tr (p\<lparr>tp_queue := q, tp_adders := (tp_adders p)[i := AReturned (- 1)]\<rparr>) as"
proof -
  let ?ds = "(tp_adders p)[i := AReturned (- 1)]" and ?p = "p\<lparr>tp_queue := q, tp_adders := (tp_adders p)[i := AReturned (- 1)]\<rparr>"
  have mem: "pool_mem cap p as" using inv by (simp add: pool_inv_def)
  obtain h where h: "heap_free (tasks (tp_queue p)) (Some a) = Some h" "q = (tp_queue p)\<lparr>tasks := h\<rparr>" "tp_shutdown p"
    using locked by (auto simp: add_locked_def split: if_splits bind_splits)
  note h' = free_task [OF h(1)]
  note live = held_live [OF mem nth_held [OF i(1) disjI1 [OF i(2)]]]
  have hld: "held (tp_adders p) = add_mset a (held ?ds)" using held_upd [OF i(1), of "AReturned (- 1)"] i(2) by simp
  have nheld: "a \<notin># held ?ds" using live(3) hld by (simp add: count_eq_zero_iff del: set_mset_sum_list)
  have able: "task_able q b" if "b \<in># held ?ds" for b
  proof -
    have "task_able (tp_queue p) b" using mem hld that unfolding pool_mem_def by (metis insert_iff set_mset_add_mset_insert)
    moreover have "b \<noteq> a" using nheld that by blast
    ultimately show ?thesis using h(2) h'(1) by (simp add: task_able_def)
  qed
  have "pool_mem cap ?p as"
    using mem h(2) h' live(2) hld able mset_set_remove [of "dom (tasks (tp_queue p))" a]
      free_keeps_chain [of "tp_queue p" as a] by (simp add: pool_mem_def)
  moreover have "pool_trace tr ?p as"
  proof -
    have job: "job_at q b = job_at (tp_queue p) b" if "b \<noteq> a" for b using that h(2) h'(1) by (simp add: job_at_def)
    have "map (job_at q) as = map (job_at (tp_queue p)) as" by (rule map_cong [OF refl]) (use live(2) job in metis)
    moreover have "image_mset (job_at q) (running (tp_workers p)) = image_mset (job_at (tp_queue p)) (running (tp_workers p))"
      by (rule image_mset_cong) (use live(4) job in metis)
    ultimately show ?thesis using inv by (simp add: pool_inv_def pool_trace_def)
  qed
  moreover have "pool_sync cap ?p as"
  proof -
    have "d = AReturned (- 1) \<or> d \<in> set (tp_adders p)" if "d \<in> set ?ds" for d using upd_elem [OF that] by blast
    then have "\<not> awaits d" if "d \<in> set ?ds" for d using that inv_sync(3) [OF inv h(3)] thread_simps(10) by blast
    then show ?thesis using inv by (auto simp: pool_inv_def pool_sync_def)
  qed
  ultimately show ?thesis using inv by (simp add: pool_inv_def)
qed

lemma adder_accepted_as:
  assumes inv: "pool_inv n cap tr p as" and a: "a \<in># held (tp_adders p)"
    and locked: "add_locked p a = Some (AdderAccepted q)"
  obtains "queue_rep q (as @ [a])" "q_capacity q = cap" "int (length as) < cap" "\<not> tp_shutdown p"
    "\<And>b. map_option job_of (tasks q b) = map_option job_of (tasks (tp_queue p) b)"
    "\<And>b. b \<notin> set as \<Longrightarrow> tasks q b = tasks (tp_queue p) b"
proof -
  have mem: "pool_mem cap p as" using inv by (simp add: pool_inv_def)
  have put: "queue_put (tp_queue p) a = Some q" "\<not> tp_shutdown p" "q_size (tp_queue p) \<noteq> cap"
    using locked inv_queue(3) [OF inv] by (auto simp: add_locked_def split: if_splits bind_splits)
  have "task_able (tp_queue p) a" using mem a unfolding pool_mem_def by blast
  from queue_put_rep [OF inv_queue(1) [OF inv] this held_live(2) [OF mem a]] put
  obtain "queue_rep q (as @ [a])" "q_capacity q = cap"
    "\<forall>b. map_option job_of (tasks q b) = map_option job_of (tasks (tp_queue p) b)"
    "\<forall>b. b \<notin> set as \<longrightarrow> tasks q b = tasks (tp_queue p) b" using inv_queue(3) [OF inv] by (metis option.inject)
  moreover have "int (length as) < cap" using put(3) inv_queue(2) [OF inv] mem by (simp add: pool_mem_def)
  ultimately show thesis using that put(2) by blast
qed

lemma adder_accepted_inv:
  assumes inv: "pool_inv n cap tr p as" and i: "i < length (tp_adders p)" "tp_adders p ! i = AReady a"
    and locked: "add_locked p a = Some (AdderAccepted q)" and t: "tasks q a = Some t"
    and wk: "woken wake_worker (tp_workers p) ws"
  shows "pool_inv n cap (tr @ [Accepted (job_of t)])
    (p\<lparr>tp_queue := q, tp_workers := ws, tp_adders := (tp_adders p)[i := AReturned 0]\<rparr>) (as @ [a])"
proof -
  let ?ds = "(tp_adders p)[i := AReturned 0]"
  let ?p = "p\<lparr>tp_queue := q, tp_workers := ws, tp_adders := ?ds\<rparr>"
  have mem: "pool_mem cap p as" using inv by (simp add: pool_inv_def)
  note a = nth_held [OF i(1) disjI1 [OF i(2)]]
  obtain rep: "queue_rep q (as @ [a])" "q_capacity q = cap" "int (length as) < cap" "\<not> tp_shutdown p"
    and jobs: "\<And>b. map_option job_of (tasks q b) = map_option job_of (tasks (tp_queue p) b)"
    and rest: "\<And>b. b \<notin> set as \<Longrightarrow> tasks q b = tasks (tp_queue p) b"
    by (rule adder_accepted_as [OF inv a locked]) (rule that)
  have hld: "held (tp_adders p) = add_mset a (held ?ds)" using held_upd [OF i(1), of "AReturned 0"] i(2) by simp
  have rdy: "ready_adders (tp_adders p) = Suc (ready_adders ?ds)"
    using ready_adders_upd [OF i(1), of "AReturned 0"] i(2) by simp
  have run: "running ws = running (tp_workers p)" by (rule woken_sum [OF wk]) simp
  have able: "task_able q b" if "b \<in># held ?ds" for b
  proof -
    have b: "b \<in># held (tp_adders p)" using that hld by (metis insertI2 set_mset_add_mset_insert)
    then have "task_able (tp_queue p) b" using mem unfolding pool_mem_def by blast
    then show ?thesis using rest [OF held_live(2) [OF mem b]] by (simp add: task_able_def)
  qed
  have "pool_mem cap ?p (as @ [a])"
    using mem rep hld run able jobs_same(2) [OF jobs] by (simp add: pool_mem_def)
  moreover have "pool_trace (tr @ [Accepted (job_of t)]) ?p (as @ [a])"
    using inv run jobs_same(1) [OF jobs] job_at_def [of q a] t by (simp add: pool_inv_def pool_trace_def)
  moreover have "pool_sync cap ?p (as @ [a])"
  proof -
    have "Exited \<notin> set ws" using woken_exited [OF wk] inv_sync(1) [OF inv] rep(4) by blast
    moreover have "Suc (length as) \<le> ready_workers ws" if "Waiting \<in> set ws"
      using woken_ready [OF wk woken_waiting [OF wk that]] inv_sync(4) [OF inv woken_waiting [OF wk that]] by simp
    moreover have "cap \<le> int (length as + Suc (ready_adders ?ds))" if "d \<in> set ?ds" "awaits d" for d
      using inv_sync(5) [OF inv _ that(2)] upd_elem [OF that(1)] that(2) rdy by (metis thread_simps(10))
    ultimately show ?thesis using rep(4) unfolding pool_sync_def by auto
  qed
  ultimately show ?thesis using inv wk by (simp add: pool_inv_def)
qed

lemma step_inv: "pool_step p ev p' \<Longrightarrow> pool_inv n cap tr p as \<Longrightarrow> \<exists>as'. pool_inv n cap (tr @ ev) p' as'"
proof (induction rule: pool_step.induct)
  case (worker_takes i p a q t as')
  then show ?case using worker_takes_inv by blast
next
  case (worker_finishes i p a t h)
  then show ?case using worker_finishes_inv by blast
next
  case (adder_accepted i p a q t ws')
  then show ?case using adder_accepted_inv by blast
qed (simp_all, (blast intro: worker_waits_inv worker_exits_inv worker_wakes_inv adder_calls_inv
  adder_waits_inv adder_wakes_inv adder_refused_inv shutdown_inv)+)

lemma run_inv: "pool_run n cap tr p \<Longrightarrow> \<exists>as. pool_inv n cap tr p as"
  by (induction rule: pool_run.induct) (use create_inv step_inv in blast)+

subsection \<open>Shutting down\<close>

definition weight :: "worker \<Rightarrow> nat" where
  "weight w = (case w of Running _ \<Rightarrow> 2 | Exited \<Rightarrow> 0 | _ \<Rightarrow> 1)"

definition load :: "thread_pool \<Rightarrow> nat" where
  "load p = 3 * nat (q_size (tp_queue p)) +
     sum_list (map weight (tp_workers p))"

text \<open>After shutdown every worker that has not left can go on, and does so only finitely often.\<close>

lemma drain_step:
  assumes inv: "pool_inv n cap tr p as" and sd: "tp_shutdown p" and nj: "\<not> joined p"
  shows "\<exists>ev p'. pool_step p ev p' \<and> tp_shutdown p' \<and> accepted ev = [] \<and> load p' < load p"
proof -
  obtain i where i: "i < length (tp_workers p)" "tp_workers p ! i \<noteq> Exited"
    using nj by (auto simp: joined_def list_all_length)
  have nw: "tp_workers p ! i \<noteq> Waiting" using inv_sync(2) [OF inv sd] nth_mem [OF i(1)] by metis
  show ?thesis
  proof (cases "tp_workers p ! i")
    case (Running a)
    have "pool_mem cap p as" using inv by (simp add: pool_inv_def)
    then have "tasks (tp_queue p) a \<noteq> None" by (rule running_live(1) [OF _ nth_running [OF i(1) Running]])
    then obtain t where t: "tasks (tp_queue p) a = Some t" by blast
    let ?p = "p\<lparr>tp_queue := (tp_queue p)\<lparr>tasks := (tasks (tp_queue p))(a := None)\<rparr>, tp_workers := (tp_workers p)[i := Ready]\<rparr>"
    have "pool_step p [Finished (job_of t)] ?p"
      by (rule pool_step.worker_finishes [OF i(1) Running t]) (simp add: heap_free_def t)
    moreover have "load ?p < load p" using sum_list_upd [OF i(1), of weight Ready] Running by (simp add: load_def weight_def)
    ultimately show ?thesis using sd by (intro exI conjI) (assumption | simp)+
  next
    case Ready
    show ?thesis
    proof (cases as)
      case Nil
      let ?p = "p\<lparr>tp_workers := (tp_workers p)[i := Exited]\<rparr>"
      have "worker_locked p = Some WorkerExits" using sd Nil inv_queue(2) [OF inv] by (simp add: worker_locked_def)
      then have "pool_step p [] ?p" by (rule pool_step.worker_exits [OF i(1) Ready])
      moreover have "load ?p < load p" using sum_list_upd [OF i(1), of weight Exited] Ready by (simp add: load_def weight_def)
      ultimately show ?thesis using sd by (intro exI conjI) (assumption | simp)+
    next
      case (Cons a as')
      obtain q where q: "queue_take (tp_queue p) = Some (a, q)" "queue_rep q as'" "tasks q = tasks (tp_queue p)"
        using queue_take_rep inv_queue(1) [OF inv] Cons by metis
      have "chain tk_next (tasks (tp_queue p)) (q_head (tp_queue p)) as"
        using inv_queue(1) [OF inv] by (simp add: queue_rep_def)
      then obtain t where t: "tasks q a = Some t" using q(3) Cons by auto
      let ?p = "p\<lparr>tp_queue := q, tp_workers := (tp_workers p)[i := Running a], tp_adders := map wake_adder (tp_adders p)\<rparr>"
      have "worker_locked p = Some (WorkerTakes a q)"
        using sd Cons inv_queue(2) [OF inv] q(1) by (simp add: worker_locked_def)
      then have "pool_step p [Started (job_of t)] ?p"
        by (rule pool_step.worker_takes [OF i(1) Ready _ t woken_all])
      moreover have "load ?p < load p"
        using sum_list_upd [OF i(1), of weight "Running a"] Ready inv_queue(2) [OF inv] Cons task_queue.count_rep [OF q(2)]
        by (simp add: load_def weight_def nat_add_distrib)
      ultimately show ?thesis using sd by (intro exI conjI) (assumption | simp)+
    qed
  qed (use i nw in auto)
qed

lemma drain:
  assumes "pool_run n cap tr p" "tp_shutdown p"
  shows "\<exists>tr' p'. pool_run n cap (tr @ tr') p' \<and> joined p' \<and> accepted tr' = []"
  using assms
proof (induction "load p" arbitrary: tr p rule: less_induct)
  case less
  show ?case
  proof (cases "joined p")
    case True
    then show ?thesis using less.prems by (intro exI [of _ "[]"] exI [of _ p]) simp
  next
    case False
    obtain as where "pool_inv n cap tr p as" using run_inv [OF less.prems(1)] by blast
    from drain_step [OF this less.prems(2) False]
    obtain ev q where q: "pool_step p ev q" "tp_shutdown q" "accepted ev = []" "load q < load p" by blast
    obtain tr' p' where "pool_run n cap ((tr @ ev) @ tr') p'" "joined p'" "accepted tr' = []"
      using less.hyps [OF q(4) pool_run.step [OF less.prems(1) q(1)] q(2)] by blast
    then show ?thesis using q(3) by (intro exI [of _ "ev @ tr'"] exI [of _ p']) simp
  qed
qed

subsection \<open>Properties\<close>

text \<open>
  A run with one worker and a queue of one place, used in the witnesses: one job is accepted, runs
  and finishes, then the pool is shut down and the worker leaves.
\<close>

definition idle_pool :: "task_t heap \<Rightarrow> ptr \<Rightarrow> int \<Rightarrow> worker \<Rightarrow> adder list \<Rightarrow> bool \<Rightarrow> thread_pool" where
  "idle_pool h a k w ds sd = \<lparr>tp_queue = \<lparr>tasks = h, q_head = a, q_tail = a, q_size = k, q_capacity = 1\<rparr>,
     tp_workers = [w], tp_adders = ds, tp_shutdown = sd\<rparr>"

definition some_task :: task_t where
  "some_task = \<lparr>tk_function = 5, tk_arg = 6, tk_next = None\<rparr>"

lemma example_runs:
  "pool_run 1 1 [] (idle_pool Map.empty None 0 Ready [] False)"
  "pool_run 1 1 [Accepted (5, 6)] (idle_pool [7 \<mapsto> some_task] (Some 7) 1 Ready [AReturned 0] False)"
  "pool_run 1 1 [Accepted (5, 6), Started (5, 6), Finished (5, 6)] (idle_pool Map.empty None 0 Exited [AReturned 0] True)"
proof -
  let ?e = "Map.empty :: task_t heap" and ?h = "[7 \<mapsto> some_task]"
  have step: "pool_run 1 1 tr' q" if "pool_run 1 1 tr p" "pool_step p ev p'" "p' = q" "tr @ ev = tr'" for tr p ev p' q tr'
    using pool_run.step [OF that(1,2)] that(3,4) by simp
  show r0: "pool_run 1 1 [] (idle_pool ?e None 0 Ready [] False)"
    by (rule pool_run.start [of _ _ 1]) (simp add: thread_pool_create_def idle_pool_def)
  have r1: "pool_run 1 1 [] (idle_pool ?h None 0 Ready [AReady 7] False)"
    by (rule step [OF r0 pool_step.adder_calls [where new = "Some 7" and f = "Some 5" and arg = 6]])
      (simp_all add: fresh_ptr_def idle_pool_def thread_pool_add_def some_task_def)
  show r2: "pool_run 1 1 [Accepted (5, 6)] (idle_pool ?h (Some 7) 1 Ready [AReturned 0] False)"
    by (rule step [OF r1 pool_step.adder_accepted [where i = 0 and a = 7 and t = some_task and ws' = "[Ready]"]])
      (simp_all add: idle_pool_def add_locked_def queue_put_def woken_def job_of_def some_task_def)
  have r3: "pool_run 1 1 [Accepted (5, 6), Started (5, 6)] (idle_pool ?h None 0 (Running 7) [AReturned 0] False)"
    by (rule step [OF r2 pool_step.worker_takes [where i = 0 and a = 7 and t = some_task and as' = "[AReturned 0]"]])
      (simp_all add: idle_pool_def worker_locked_def queue_take_def woken_def job_of_def some_task_def mem_simps)
  have r4: "pool_run 1 1 [Accepted (5, 6), Started (5, 6), Finished (5, 6)] (idle_pool ?e None 0 Ready [AReturned 0] False)"
    by (rule step [OF r3 pool_step.worker_finishes [where i = 0 and a = 7 and t = some_task and h = ?e]])
      (simp_all add: idle_pool_def job_of_def some_task_def mem_simps fun_eq_iff)
  have r5: "pool_run 1 1 [Accepted (5, 6), Started (5, 6), Finished (5, 6)] (idle_pool ?e None 0 Ready [AReturned 0] True)"
    by (rule step [OF r4 pool_step.shutdown]) (simp_all add: idle_pool_def thread_pool_shutdown_def)
  show "pool_run 1 1 [Accepted (5, 6), Started (5, 6), Finished (5, 6)] (idle_pool ?e None 0 Exited [AReturned 0] True)"
    by (rule step [OF r5 pool_step.worker_exits [where i = 0]]) (simp_all add: idle_pool_def worker_locked_def)
qed

text \<open>
  C28. Memory safety of the pool under every interleaving of worker threads, callers of
  \<open>thread_pool_add\<close> and shutdown, with spurious wake-ups: whenever a worker or a caller holds the
  lock, its critical section reads and writes only live tasks and returns; a running task is live
  when it is called and freed; and the queue never holds more than \<open>capacity\<close> tasks.
\<close>

theorem pool_sections_safe:
  assumes "pool_run n cap tr p"
  shows "worker_locked p \<noteq> None \<and>
    (\<forall>a. AReady a \<in> set (tp_adders p) \<longrightarrow> add_locked p a \<noteq> None) \<and>
    (\<forall>a. Running a \<in> set (tp_workers p) \<longrightarrow> heap_free (tasks (tp_queue p)) (Some a) \<noteq> None) \<and>
    0 \<le> q_size (tp_queue p) \<and> q_size (tp_queue p) \<le> cap"
proof (intro conjI allI impI)
  obtain as where inv: "pool_inv n cap tr p as" using run_inv [OF assms] by blast
  then have mem: "pool_mem cap p as" by (simp add: pool_inv_def)
  note q = inv_queue [OF inv]
  show "worker_locked p \<noteq> None"
  proof (cases "as = []")
    case True
    then show ?thesis using q(2) by (simp add: worker_locked_def)
  next
    case False
    from task_queue.take_nonempty [OF q(1) this] obtain q' where "queue_take (tp_queue p) = Some (hd as, q')" by blast
    then show ?thesis by (simp add: worker_locked_def)
  qed
  show "0 \<le> q_size (tp_queue p)" "q_size (tp_queue p) \<le> cap" using q(2) mem by (simp_all add: pool_mem_def)
  show "add_locked p a \<noteq> None" if "AReady a \<in> set (tp_adders p)" for a
  proof -
    have a: "a \<in># held (tp_adders p)" using that nth_held by (metis in_set_conv_nth)
    have "task_able (tp_queue p) a" using mem a unfolding pool_mem_def by blast
    then obtain q' where "queue_put (tp_queue p) a = Some q'" by (rule task_queue.put_last [OF q(1) _ held_live(2) [OF mem a]])
    then show ?thesis using held_live(1) [OF mem a] by (auto simp: add_locked_def heap_free_def)
  qed
  show "heap_free (tasks (tp_queue p)) (Some a) \<noteq> None" if "Running a \<in> set (tp_workers p)" for a
  proof -
    have "a \<in># running (tp_workers p)" using that nth_running by (metis in_set_conv_nth)
    from running_live(1) [OF mem this] show ?thesis by (auto simp: heap_free_def)
  qed
qed

theorem pool_sections_safe_witness:
  "worker_locked (idle_pool [7 \<mapsto> some_task] (Some 7) 1 Ready [AReturned 0] False) \<noteq> None"
  using pool_sections_safe [OF example_runs(2)] by blast



text \<open>
  C30. Shutdown drains: when all workers have been joined, the pool was shut down and every job that
  was ever accepted has been started in order and has finished; if no caller is still inside
  \<open>thread_pool_add\<close>, no task is left allocated.
\<close>

theorem pool_joined_drained:
  assumes "pool_run n cap tr p" "joined p"
  shows "(tp_shutdown p \<and> started tr = accepted tr \<and> mset (finished tr) = mset (accepted tr)) \<and>
    ((\<forall>d \<in> set (tp_adders p). \<exists>r. d = AReturned r) \<longrightarrow> tasks (tp_queue p) = Map.empty)"
proof (rule conjI; (rule impI)?)
  obtain as where inv: "pool_inv n cap tr p as" using run_inv [OF assms(1)] by blast
  have "Exited \<in> set (tp_workers p)" using inv assms(2) by (cases "tp_workers p") (auto simp: pool_inv_def joined_def)
  then have sd: "tp_shutdown p" "as = []" using inv_sync(1) [OF inv] by auto
  have ex: "\<forall>w \<in> set (tp_workers p). w = Exited" using assms(2) by (simp add: joined_def list_all_iff)
  have "running ws = {#}" if "\<forall>w \<in> set ws. w = Exited" for ws using that by (induction ws) auto
  then have run: "running (tp_workers p) = {#}" using ex by blast
  show "tp_shutdown p \<and> started tr = accepted tr \<and> mset (finished tr) = mset (accepted tr)"
    using inv sd run by (simp add: pool_inv_def pool_trace_def)
  show "tasks (tp_queue p) = Map.empty" if "\<forall>d \<in> set (tp_adders p). \<exists>r. d = AReturned r"
  proof -
    have "held ds = {#}" if "\<forall>d \<in> set ds. \<exists>r. d = AReturned r" for ds using that by (induction ds) auto
    then have "held (tp_adders p) = {#}" using that by blast
    then show ?thesis using inv run sd(2) by (auto simp: pool_inv_def pool_mem_def mset_set_empty_iff)
  qed
qed

theorem pool_joined_drained_witness:
  "tp_shutdown (idle_pool Map.empty None 0 Exited [AReturned 0] True) \<and>
    mset (finished [Accepted (5, 6), Started (5, 6), Finished (5, 6)]) =
    mset (accepted [Accepted (5, 6), Started (5, 6), Finished (5, 6)])"
  using pool_joined_drained [OF example_runs(3)] by (simp add: joined_def idle_pool_def)

text \<open>
  C31. No lost wake-up: as long as an accepted job has not been started, some worker is awake (about
  to lock, or running a task, after which it locks again), even though every signal wakes possibly
  one thread only; and while a caller waits for room and the queue is not full, another caller is
  awake to use the place. After shutdown nobody waits.
\<close>

theorem pool_no_lost_wakeup:
  assumes "pool_run n cap tr p"
  shows "(started tr \<noteq> accepted tr \<longrightarrow> (\<exists>w \<in> set (tp_workers p). w = Ready \<or> (\<exists>a. w = Running a))) \<and>
    (\<forall>a. AWaiting a \<in> set (tp_adders p) \<longrightarrow> q_size (tp_queue p) = cap \<or> (\<exists>b. AReady b \<in> set (tp_adders p))) \<and>
    (\<forall>a. tp_shutdown p \<longrightarrow> Waiting \<notin> set (tp_workers p) \<and> AWaiting a \<notin> set (tp_adders p))"
proof (intro conjI allI impI)
  obtain as where inv: "pool_inv n cap tr p as" using run_inv [OF assms] by blast
  have ready: "0 < ready_workers ws \<Longrightarrow> Ready \<in> set ws" for ws
    by (induction ws) (auto simp: ready_workers_def split: if_splits)
  have aready: "0 < ready_adders ds \<Longrightarrow> \<exists>b. AReady b \<in> set ds" for ds
    unfolding ready_adders_def by (induction ds) (auto split: adder.splits intro: exI)
  show "\<exists>w \<in> set (tp_workers p). w = Ready \<or> (\<exists>a. w = Running a)" if "started tr \<noteq> accepted tr"
  proof -
    have as: "as \<noteq> []" using inv that by (auto simp: pool_inv_def pool_trace_def)
    then have "Exited \<notin> set (tp_workers p)" using inv_sync(1) [OF inv] by blast
    moreover have "Ready \<in> set (tp_workers p)" if "Waiting \<in> set (tp_workers p)"
      using inv_sync(4) [OF inv that] as ready by (metis length_greater_0_conv order_less_le_trans)
    moreover have "hd (tp_workers p) \<in> set (tp_workers p)" using inv by (intro hd_in_set) (auto simp: pool_inv_def)
    ultimately show ?thesis by (cases "hd (tp_workers p)") auto
  qed
  show "q_size (tp_queue p) = cap \<or> (\<exists>b. AReady b \<in> set (tp_adders p))" if "AWaiting a \<in> set (tp_adders p)" for a
    using inv_sync(5) [OF inv that] inv_queue [OF inv] inv aready [of "tp_adders p"]
    by (cases "ready_adders (tp_adders p)") (auto simp: pool_inv_def pool_mem_def)
  show "Waiting \<notin> set (tp_workers p)" if "tp_shutdown p" by (rule inv_sync(2) [OF inv that])
  show "AWaiting a \<notin> set (tp_adders p)" if "tp_shutdown p" for a
    using inv_sync(3) [OF inv that] thread_simps(8) by blast
qed

theorem pool_no_lost_wakeup_witness:
  "\<exists>w \<in> set (tp_workers (idle_pool [7 \<mapsto> some_task] (Some 7) 1 Ready [AReturned 0] False)). w = Ready \<or> (\<exists>a. w = Running a)"
  using pool_no_lost_wakeup [OF example_runs(2)] by (simp add: accepted_def started_def)



end
