(* ===== verification/Config.thy ===== *)
theory Config
  imports Utils Sql
begin

text \<open>
  The configuration files of the client (\<open>src/client/config.c\<close>) and of the server (\<open>src/server/config.c\<close>). The
  files are read by the \<open>inih\<close> library: \<open>ini_parse\<close> calls a handler with section, name and value of every
  setting, in order, and goes on after an error; it answers the number of the first line that is malformed or
  for which the handler returned 0, otherwise 0, and -1 when the file cannot be opened. A file is here what
  the library reads from it: its settings and its malformed lines with their numbers.
\<close>

subsection \<open>Numbers\<close>

abbreviation (input) INT_MAX :: int where "INT_MAX \<equiv> 0x7FFFFFFF"

text \<open>What \<open>strtol\<close> leaves behind \<open>end\<close> (the whole string when there is no number), and whether it sets \<open>ERANGE\<close>.\<close>

definition strtol_end :: "string \<Rightarrow> string \<times> bool" where
  "strtol_end s =
     (let t = dropWhile is_space s;
          u = (if t \<noteq> [] \<and> (hd t = CHR ''-'' \<or> hd t = CHR ''+'') then tl t else t);
          (neg, n) = strto_parts s
      in if takeWhile is_digit u = [] then (s, False)
         else (dropWhile is_digit u, if neg then n > 2 ^ 63 else n \<ge> 2 ^ 63))"

text \<open>\<open>(int) strtol (s, NULL, 10)\<close>, which is also \<open>atoi\<close>.\<close>

definition atoi :: "string \<Rightarrow> int" where
  "atoi s = sint (word_of_int (strtol s) :: 32 word)"

subsection \<open>The parser's interface\<close>

datatype ini_line = Ini_Setting string string string | Ini_Malformed

primrec ini_run ::
  "('c \<Rightarrow> string \<Rightarrow> string \<Rightarrow> string \<Rightarrow> bool \<times> 'c) \<Rightarrow> (nat \<times> ini_line) list \<Rightarrow> nat \<Rightarrow> 'c \<Rightarrow> nat \<times> 'c" where
  "ini_run handler [] error user = (error, user)"
| "ini_run handler (l # ls) error user =
     (let (ok, user1) = (case snd l of
                           Ini_Setting section name value \<Rightarrow> handler user section name value
                         | Ini_Malformed \<Rightarrow> (False, user))
      in ini_run handler ls (if \<not> ok \<and> error = 0 then fst l else error) user1)"

definition ini_parse ::
  "(nat \<times> ini_line) list option \<Rightarrow> ('c \<Rightarrow> string \<Rightarrow> string \<Rightarrow> string \<Rightarrow> bool \<times> 'c) \<Rightarrow> 'c \<Rightarrow> int \<times> 'c" where
  "ini_parse lines handler user =
     (case lines of
        None \<Rightarrow> (- 1, user)
      | Some ls \<Rightarrow> (let (error, user1) = ini_run handler ls 0 user in (int error, user1)))"

subsection \<open>The client\<close>

record remote_config_t =
  rc_host :: string
  rc_port :: string

record log_config_t =
  lc_log_level :: string
  lc_log_file :: string

record transfer_config_t =
  tc_max_concurrent :: int
  tc_connect_timeout_ms :: int
  tc_io_timeout_ms :: int

record client_config_t =
  cc_remote :: remote_config_t
  cc_log :: log_config_t
  cc_download_dir :: string
  cc_transfer :: transfer_config_t

text \<open>The structure after \<open>memset (0)\<close>.\<close>

definition zero_client_config :: client_config_t where
  "zero_client_config =
     \<lparr>cc_remote = \<lparr>rc_host = [], rc_port = []\<rparr>, cc_log = \<lparr>lc_log_level = [], lc_log_file = []\<rparr>, cc_download_dir = [],
      cc_transfer = \<lparr>tc_max_concurrent = 0, tc_connect_timeout_ms = 0, tc_io_timeout_ms = 0\<rparr>\<rparr>"

definition config_copy_string :: "nat \<Rightarrow> string option \<Rightarrow> string option" where
  "config_copy_string destination_size val =
     (if destination_size = 0 then None
      else (case val of None \<Rightarrow> None | Some v \<Rightarrow> if length v \<ge> destination_size then None else Some v))"

definition parse_positive_int :: "string option \<Rightarrow> int option" where
  "parse_positive_int val =
     (case val of
        None \<Rightarrow> None
      | Some v \<Rightarrow>
          if v = [] then None
          else
            (let parsed = strtol v; (rest, erange) = strtol_end v
             in if erange \<or> rest = v \<or> rest \<noteq> [] \<or> parsed \<le> 0 \<or> parsed > INT_MAX then None else Some parsed))"

text \<open>Store a parsed field, or answer 0 and leave the structure.\<close>

definition store_field :: "'v option \<Rightarrow> ('v \<Rightarrow> 'c \<Rightarrow> 'c) \<Rightarrow> 'c \<Rightarrow> bool \<times> 'c" where
  "store_field val put config = (case val of None \<Rightarrow> (False, config) | Some v \<Rightarrow> (True, put v config))"

definition config_handler :: "client_config_t \<Rightarrow> string \<Rightarrow> string \<Rightarrow> string \<Rightarrow> bool \<times> client_config_t" where
  "config_handler config section name val =
     (if section = ''remote'' \<and> name = ''host'' then
        store_field (config_copy_string 64 (Some val)) (\<lambda>v. cc_remote_update (rc_host_update (\<lambda>_. v))) config
      else if section = ''remote'' \<and> name = ''port'' then
        store_field (config_copy_string 16 (Some val)) (\<lambda>v. cc_remote_update (rc_port_update (\<lambda>_. v))) config
      else if section = ''log'' \<and> name = ''log_level'' then
        store_field (config_copy_string 16 (Some val)) (\<lambda>v. cc_log_update (lc_log_level_update (\<lambda>_. v))) config
      else if section = ''log'' \<and> name = ''log_file'' then
        store_field (config_copy_string PATH_MAX (Some val)) (\<lambda>v. cc_log_update (lc_log_file_update (\<lambda>_. v))) config
      else if section = ''storage'' \<and> name = ''download_dir'' then
        store_field (config_copy_string PATH_MAX (Some val)) (\<lambda>v. cc_download_dir_update (\<lambda>_. v)) config
      else if section = ''transfer'' \<and> name = ''max_concurrent'' then
        store_field (parse_positive_int (Some val)) (\<lambda>v. cc_transfer_update (tc_max_concurrent_update (\<lambda>_. v))) config
      else if section = ''transfer'' \<and> name = ''connect_timeout_ms'' then
        store_field (parse_positive_int (Some val)) (\<lambda>v. cc_transfer_update (tc_connect_timeout_ms_update (\<lambda>_. v))) config
      else if section = ''transfer'' \<and> name = ''io_timeout_ms'' then
        store_field (parse_positive_int (Some val)) (\<lambda>v. cc_transfer_update (tc_io_timeout_ms_update (\<lambda>_. v))) config
      else (False, config))"

text \<open>\<open>files\<close> gives what the parser reads from a path.\<close>

definition client_config_load ::
  "(string \<Rightarrow> (nat \<times> ini_line) list option) \<Rightarrow> string option \<Rightarrow> client_config_t option \<Rightarrow> int \<times> client_config_t option" where
  "client_config_load files path config =
     (case (config, path) of
        (Some c, Some p) \<Rightarrow>
          if p = [] then (- 1, config)
          else
            (let (result, parsed) = ini_parse (files p) config_handler zero_client_config
             in if result \<noteq> 0 then (- 1, config) else (0, Some parsed))
      | _ \<Rightarrow> (- 1, config))"

subsection \<open>The server\<close>

record network_config_t =
  nc_host :: string
  nc_port :: string
  nc_backlog :: int

record mysql_config_t =
  mc_host :: string
  mc_port :: string
  mc_user :: string
  mc_password :: string
  mc_database :: string
  mc_charset :: string
  mc_pool_size :: int

record storage_config_t =
  sc_root_dir :: string
  sc_transfer_temp_dir :: string

record thread_pool_config_t =
  pc_thread_num :: int
  pc_queue_capacity :: int

record server_config_t =
  sv_network :: network_config_t
  sv_mysql :: mysql_config_t
  sv_storage :: storage_config_t
  sv_thread_pool :: thread_pool_config_t
  sv_idle_timeout_seconds :: int
  sv_log :: log_config_t

definition zero_server_config :: server_config_t where
  "zero_server_config =
     \<lparr>sv_network = \<lparr>nc_host = [], nc_port = [], nc_backlog = 0\<rparr>,
      sv_mysql = \<lparr>mc_host = [], mc_port = [], mc_user = [], mc_password = [], mc_database = [], mc_charset = [], mc_pool_size = 0\<rparr>,
      sv_storage = \<lparr>sc_root_dir = [], sc_transfer_temp_dir = []\<rparr>,
      sv_thread_pool = \<lparr>pc_thread_num = 0, pc_queue_capacity = 0\<rparr>, sv_idle_timeout_seconds = 0,
      sv_log = \<lparr>lc_log_level = [], lc_log_file = []\<rparr>\<rparr>"

definition server_handler :: "server_config_t \<Rightarrow> string \<Rightarrow> string \<Rightarrow> string \<Rightarrow> bool \<times> server_config_t" where
  "server_handler c section name val =
     (if section = ''network'' \<and> name = ''host'' then (True, sv_network_update (nc_host_update (\<lambda>_. strncpy 64 val)) c)
      else if section = ''network'' \<and> name = ''port'' then (True, sv_network_update (nc_port_update (\<lambda>_. strncpy 16 val)) c)
      else if section = ''network'' \<and> name = ''backlog'' then (True, sv_network_update (nc_backlog_update (\<lambda>_. atoi val)) c)
      else if section = ''mysql'' \<and> name = ''host'' then (True, sv_mysql_update (mc_host_update (\<lambda>_. strncpy 64 val)) c)
      else if section = ''mysql'' \<and> name = ''port'' then (True, sv_mysql_update (mc_port_update (\<lambda>_. strncpy 16 val)) c)
      else if section = ''mysql'' \<and> name = ''user'' then (True, sv_mysql_update (mc_user_update (\<lambda>_. strncpy 64 val)) c)
      else if section = ''mysql'' \<and> name = ''password'' then (True, sv_mysql_update (mc_password_update (\<lambda>_. strncpy 128 val)) c)
      else if section = ''mysql'' \<and> name = ''database'' then (True, sv_mysql_update (mc_database_update (\<lambda>_. strncpy 64 val)) c)
      else if section = ''mysql'' \<and> name = ''charset'' then (True, sv_mysql_update (mc_charset_update (\<lambda>_. strncpy 32 val)) c)
      else if section = ''mysql'' \<and> name = ''pool_size'' then (True, sv_mysql_update (mc_pool_size_update (\<lambda>_. atoi val)) c)
      else if section = ''storage'' \<and> name = ''root_dir'' then (True, sv_storage_update (sc_root_dir_update (\<lambda>_. strncpy PATH_MAX val)) c)
      else if section = ''storage'' \<and> name = ''transfer_temp_dir'' then
        (True, sv_storage_update (sc_transfer_temp_dir_update (\<lambda>_. strncpy PATH_MAX val)) c)
      else if section = ''thread_pool'' \<and> name = ''thread_num'' then (True, sv_thread_pool_update (pc_thread_num_update (\<lambda>_. atoi val)) c)
      else if section = ''thread_pool'' \<and> name = ''queue_capacity'' then
        (True, sv_thread_pool_update (pc_queue_capacity_update (\<lambda>_. atoi val)) c)
      else if section = ''session'' \<and> name = ''idle_timeout_seconds'' then (True, sv_idle_timeout_seconds_update (\<lambda>_. atoi val) c)
      else if section = ''log'' \<and> name = ''log_level'' then (True, sv_log_update (lc_log_level_update (\<lambda>_. strncpy 16 val)) c)
      else if section = ''log'' \<and> name = ''log_file'' then (True, sv_log_update (lc_log_file_update (\<lambda>_. strncpy PATH_MAX val)) c)
      else (False, c))"

definition server_config_load ::
  "(string \<Rightarrow> (nat \<times> ini_line) list option) \<Rightarrow> string \<Rightarrow> server_config_t \<Rightarrow> int \<times> server_config_t" where
  "server_config_load files path config =
     (let (result, config) = ini_parse (files path) server_handler config in (if result < 0 then - 1 else 0, config))"

end
