(* ===== verification/Log.thy ===== *)
theory Log
  imports Utils
begin

text \<open>
  The logger (\<open>src/common/log.c\<close>): one global state, the stream it writes to and the lines written so far.
  The message is the text of the format and its arguments before it is cut to the buffer of 1024 bytes; the
  time is the text made by \<open>strftime\<close>. Writing through the NULL stream, before \<open>log_init\<close> or after
  \<open>log_close\<close>, is undefined behaviour, \<open>None\<close>.
\<close>

abbreviation (input) LOG_LEVEL_DEBUG :: int where "LOG_LEVEL_DEBUG \<equiv> 0"
abbreviation (input) LOG_LEVEL_INFO :: int where "LOG_LEVEL_INFO \<equiv> 1"
abbreviation (input) LOG_LEVEL_WARN :: int where "LOG_LEVEL_WARN \<equiv> 2"
abbreviation (input) LOG_LEVEL_ERROR :: int where "LOG_LEVEL_ERROR \<equiv> 3"

datatype stream_t = Stdout | Log_File string

record log_state_t =
  lg_level :: int
  lg_fp :: "stream_t option"
  lg_init_done :: bool
  lg_lines :: "(stream_t \<times> string) list"

definition zero_log :: log_state_t where
  "zero_log = \<lparr>lg_level = 0, lg_fp = None, lg_init_done = False, lg_lines = []\<rparr>"

definition parse_log_level :: "string \<Rightarrow> int" where
  "parse_log_level str =
     (if strcaseeq str ''DEBUG'' then LOG_LEVEL_DEBUG
      else if strcaseeq str ''INFO'' then LOG_LEVEL_INFO
      else if strcaseeq str ''WARN'' then LOG_LEVEL_WARN
      else if strcaseeq str ''ERROR'' then LOG_LEVEL_ERROR
      else LOG_LEVEL_INFO)"

definition log_level_to_str :: "int \<Rightarrow> string" where
  "log_level_to_str level =
     (if level = LOG_LEVEL_DEBUG then ''DEBUG''
      else if level = LOG_LEVEL_INFO then ''INFO''
      else if level = LOG_LEVEL_WARN then ''WARN''
      else if level = LOG_LEVEL_ERROR then ''ERROR''
      else ''UNKNOWN'')"

text \<open>\<open>fopen_ok\<close> is whether the log file can be opened.\<close>

definition log_init :: "bool \<Rightarrow> string \<Rightarrow> string option \<Rightarrow> log_state_t \<Rightarrow> int \<times> log_state_t" where
  "log_init fopen_ok level_str log_file l =
     (if lg_init_done l then (0, l)
      else
        (let l = l\<lparr>lg_level := parse_log_level level_str, lg_init_done := True\<rparr>
         in case log_file of
              None \<Rightarrow> (0, l\<lparr>lg_fp := Some Stdout\<rparr>)
            | Some p \<Rightarrow>
                if p = [] then (0, l\<lparr>lg_fp := Some Stdout\<rparr>)
                else if fopen_ok then (0, l\<lparr>lg_fp := Some (Log_File p)\<rparr>)
                else (- 1, l\<lparr>lg_fp := Some Stdout\<rparr>)))"

definition log_close :: "log_state_t \<Rightarrow> log_state_t" where
  "log_close l = (if \<not> lg_init_done l then l else l\<lparr>lg_fp := None, lg_init_done := False\<rparr>)"

definition log_line :: "string \<Rightarrow> int \<Rightarrow> string \<Rightarrow> string \<Rightarrow> string \<Rightarrow> string \<Rightarrow> string" where
  "log_line time level file line func msg =
     ''['' @ time @ ''] ['' @ log_level_to_str level @ ''] ['' @ file @ '':'' @ line @ '' '' @ func @ ''] '' @ fst (snprintf 1024 msg) @ [newline]"

definition log_write :: "int \<Rightarrow> string \<Rightarrow> string \<Rightarrow> string \<Rightarrow> string \<Rightarrow> string \<Rightarrow> log_state_t \<Rightarrow> log_state_t option" where
  "log_write level time file line func msg l =
     (if level < lg_level l then Some l
      else (case lg_fp l of
              None \<Rightarrow> None
            | Some fp \<Rightarrow> Some (l\<lparr>lg_lines := lg_lines l @ [(fp, log_line time level file line func msg)]\<rparr>)))"

subsection \<open>Correctness\<close>

lemma log_level_name: "log_level_to_str (parse_log_level str) \<in> {''DEBUG'', ''INFO'', ''WARN'', ''ERROR''}"
  by (simp add: log_level_to_str_def parse_log_level_def)

lemma parse_log_level_to_str:
  assumes "level \<in> {LOG_LEVEL_DEBUG, LOG_LEVEL_INFO, LOG_LEVEL_WARN, LOG_LEVEL_ERROR}"
  shows "parse_log_level (log_level_to_str level) = level"
  using assms by (auto simp: log_level_to_str_def parse_log_level_def strcaseeq_def tolower_def)

lemma log_write_ready:
  assumes "lg_init_done l \<longrightarrow> lg_fp l \<noteq> None" "log_init ok lvl path l = (ret, l1)"
  shows "lg_init_done l1 \<and> lg_fp l1 \<noteq> None \<and> log_write level time file line func msg l1 \<noteq> None"
  using assms by (auto simp: log_init_def log_write_def Let_def split: if_splits option.splits)

end
