(* ===== verification/Server_Main.thy ===== *)
theory Server_Main
  imports Handler_Event Config Log
begin

text \<open>
  Starting and stopping the server: the database schema (\<open>src/server/database.c\<close>), the listening socket
  (\<open>src/server/network.c\<close>), and the order in which \<open>main\<close> of \<open>src/server/main.c\<close> acquires its resources and
  releases them on every return.
\<close>

subsection \<open>The database schema\<close>

definition create_database_query :: "string \<Rightarrow> string \<Rightarrow> string" where
  "create_database_query db charset =
     fst (snprintf 256 (''CREATE DATABASE IF NOT EXISTS '' @ db @ '' DEFAULT CHARACTER SET '' @ charset))"

definition create_users_table :: string where
  "create_users_table =
     ''CREATE TABLE IF NOT EXISTS users ('' @
     ''id INT AUTO_INCREMENT PRIMARY KEY, '' @
     ''username VARCHAR(64) NOT NULL UNIQUE, '' @
     ''password_hash VARCHAR(384) NOT NULL'' @
     '') ENGINE=InnoDB DEFAULT CHARSET=utf8mb4''"

definition create_files_table :: string where
  "create_files_table =
     ''CREATE TABLE IF NOT EXISTS files ('' @
     ''id BIGINT AUTO_INCREMENT PRIMARY KEY, '' @
     ''hash BINARY(32) NOT NULL UNIQUE, '' @
     ''size BIGINT, '' @
     ''refs INT NOT NULL DEFAULT 0'' @
     '') ENGINE=InnoDB DEFAULT CHARSET=utf8mb4''"

definition create_paths_table :: string where
  "create_paths_table =
     ''CREATE TABLE IF NOT EXISTS paths ('' @
     ''id BIGINT AUTO_INCREMENT PRIMARY KEY, '' @
     ''user_id INT NOT NULL, '' @
     ''path VARCHAR(768) NOT NULL, '' @
     ''file_id BIGINT NULL, '' @
     ''parent_id BIGINT, '' @
     ''file_name VARCHAR(255) NOT NULL, '' @
     ''type TINYINT NOT NULL, '' @
     ''UNIQUE KEY (user_id, path), '' @
     ''INDEX idx_user_parent (user_id, parent_id)'' @
     '') ENGINE=InnoDB DEFAULT CHARSET=utf8mb4''"

text \<open>
  \<open>connected\<close> and \<open>selected\<close> are the answers of \<open>mysql_real_connect\<close> and \<open>mysql_select_db\<close>. The last result is how
  often the connection was closed.
\<close>

definition database_init :: "'w mysql \<Rightarrow> bool \<Rightarrow> bool \<Rightarrow> conn \<Rightarrow> string \<Rightarrow> string \<Rightarrow> 'w \<Rightarrow> int \<times> 'w \<times> nat" where
  "database_init M connected selected c db charset w =
     (if \<not> connected then (- 1, w, 1)
      else
        (case mysql_query M c (create_database_query db charset) w of (ret, w) \<Rightarrow>
           if ret \<noteq> 0 then (- 1, w, 1)
           else if \<not> selected then (- 1, w, 1)
           else
             (case mysql_query M c create_users_table w of (ret, w) \<Rightarrow>
                if ret \<noteq> 0 then (- 1, w, 1)
                else
                  (case mysql_query M c create_files_table w of (ret, w) \<Rightarrow>
                     if ret \<noteq> 0 then (- 1, w, 1)
                     else
                       (case mysql_query M c create_paths_table w of (ret, w) \<Rightarrow>
                          if ret \<noteq> 0 then (- 1, w, 1) else (0, w, 1))))))"

subsection \<open>The listening socket\<close>

record bind_t =
  b_socket :: int
  b_bind :: int

text \<open>The loop over the addresses; \<open>fds\<close> are the open descriptors.\<close>

primrec bind_loop :: "bind_t list \<Rightarrow> int set \<Rightarrow> int \<times> int set" where
  "bind_loop [] fds = (- 1, fds)"
| "bind_loop (rp # rps) fds =
     (let listenfd = b_socket rp
      in if listenfd = - 1 then bind_loop rps fds
         else if b_bind rp = 0 then (listenfd, insert listenfd fds)
         else bind_loop rps (insert listenfd fds - {listenfd}))"

definition network_listen :: "bind_t list option \<Rightarrow> int \<Rightarrow> int set \<Rightarrow> int \<times> int set" where
  "network_listen res listened fds =
     (case res of
        None \<Rightarrow> (- 1, fds)
      | Some rps \<Rightarrow>
          (let (listenfd, fds) = bind_loop rps fds
           in if listenfd = - 1 then (- 1, fds)
              else if listened = - 1 then (- 1, fds - {listenfd})
              else (listenfd, fds)))"

subsection \<open>Start\<close>

text \<open>The paths of the server: log file, storage root and directory of partial uploads.\<close>

definition server_paths ::
  "string option \<Rightarrow> (string \<Rightarrow> (nat \<times> ini_line) list option) \<Rightarrow> string list \<Rightarrow> (server_config_t \<times> string \<times> string \<times> string) option option" where
  "server_paths dir files argv = do {
     let (ret, project_out) = get_project_dir dir PATH_MAX;
     if ret \<noteq> 0 then Some None
     else if length argv > 2 then Some None
     else do {
       project_dir \<leftarrow> project_out;
       path \<leftarrow>
         (if length argv = 2 then (if length (argv ! 1) \<ge> PATH_MAX then None else Some (Some (argv ! 1)))
          else (let (ret, path) = join_path PATH_MAX project_dir ''config/server.conf'' in Some (if ret \<noteq> 0 then None else Some path)));
       (case path of
          None \<Rightarrow> Some None
        | Some config_path \<Rightarrow>
            (case server_config_load files config_path zero_server_config of (ret, config) \<Rightarrow>
               if ret \<noteq> 0 then Some None
               else
                 (let (r1, log_file) = join_path PATH_MAX project_dir (lc_log_file (sv_log config));
                      (r2, storage_root) = join_path PATH_MAX project_dir (sc_root_dir (sv_storage config));
                      (r3, temp_dir) = join_path PATH_MAX project_dir (sc_transfer_temp_dir (sv_storage config))
                  in Some (if r1 \<noteq> 0 \<or> r2 \<noteq> 0 \<or> r3 \<noteq> 0 then None else Some (config, log_file, storage_root, temp_dir))))) } }"

text \<open>
  The resources of \<open>main\<close> in the order of their acquisition, and what \<open>main\<close> does with them.
\<close>

datatype resource = Logging | Db_Pool | Workers | Sessions | Wheel | Pipe | Timer | Listener | Epoll

datatype action = Acquire resource | Release resource

text \<open>Which of the calls succeed.\<close>

record start_env =
  st_database :: bool
  st_pool :: bool
  st_workers :: bool
  st_sessions :: bool
  st_wheel :: bool
  st_pipe :: bool
  st_timer :: bool
  st_settime :: bool
  st_listen :: bool
  st_epoll :: bool
  st_watch :: bool

text \<open>
  From the database on: the actions, and whether the event loop is reached; otherwise \<open>main\<close> has returned. The log
  is open from before. The two ends of the pipe are opened and closed together.
\<close>

definition start_server :: "start_env \<Rightarrow> bool \<times> action list" where
  "start_server env =
     (if \<not> st_database env then (False, [Release Logging])
      else if \<not> st_pool env then (False, [Release Logging])
      else if \<not> st_workers env then (False, [Acquire Db_Pool, Release Db_Pool, Release Logging])
      else if \<not> st_sessions env then (False, [Acquire Db_Pool, Acquire Workers, Release Workers, Release Db_Pool, Release Logging])
      else if \<not> st_wheel env then
        (False, [Acquire Db_Pool, Acquire Workers, Acquire Sessions, Release Workers, Release Sessions, Release Db_Pool, Release Logging])
      else if \<not> st_pipe env then
        (False, [Acquire Db_Pool, Acquire Workers, Acquire Sessions, Acquire Wheel,
                 Release Workers, Release Sessions, Release Wheel, Release Db_Pool, Release Logging])
      else if \<not> st_timer env then
        (False, [Acquire Db_Pool, Acquire Workers, Acquire Sessions, Acquire Wheel, Acquire Pipe,
                 Release Pipe, Release Workers, Release Sessions, Release Wheel, Release Db_Pool, Release Logging])
      else if \<not> st_settime env then
        (False, [Acquire Db_Pool, Acquire Workers, Acquire Sessions, Acquire Wheel, Acquire Pipe, Acquire Timer,
                 Release Timer, Release Pipe, Release Workers, Release Sessions, Release Wheel, Release Db_Pool, Release Logging])
      else if \<not> st_listen env then
        (False, [Acquire Db_Pool, Acquire Workers, Acquire Sessions, Acquire Wheel, Acquire Pipe, Acquire Timer,
                 Release Pipe, Release Timer, Release Workers, Release Sessions, Release Wheel, Release Db_Pool, Release Logging])
      else if \<not> st_epoll env \<or> \<not> st_watch env then
        (False, [Acquire Db_Pool, Acquire Workers, Acquire Sessions, Acquire Wheel, Acquire Pipe, Acquire Timer, Acquire Listener] @
                (if st_epoll env then [Acquire Epoll, Release Epoll] else []) @
                [Release Listener, Release Pipe, Release Timer, Release Workers, Release Sessions, Release Wheel, Release Db_Pool, Release Logging])
      else
        (True, [Acquire Db_Pool, Acquire Workers, Acquire Sessions, Acquire Wheel, Acquire Pipe, Acquire Timer, Acquire Listener, Acquire Epoll]))"

text \<open>The two returns from the event loop, after a failed \<open>epoll_wait\<close> and after the shutdown notification.\<close>

definition stop_server :: "action list" where
  "stop_server =
     [Release Listener, Release Pipe, Release Timer, Release Epoll, Release Workers, Release Sessions, Release Wheel, Release Db_Pool, Release Logging]"

text \<open>The resources held after the actions, or \<open>None\<close> when one is acquired twice or released without being held.\<close>

primrec held :: "action list \<Rightarrow> resource set \<Rightarrow> resource set option" where
  "held [] R = Some R"
| "held (a # as) R =
     (case a of
        Acquire r \<Rightarrow> if r \<in> R then None else held as (insert r R)
      | Release r \<Rightarrow> if r \<in> R then held as (R - {r}) else None)"

subsection \<open>Correctness\<close>

lemma bind_loop_open:
  assumes "bind_loop rps fds = (fd, fds')" "\<forall>rp \<in> set rps. b_socket rp \<notin> fds"
  shows "fd = - 1 \<and> fds' = fds \<or> fd \<noteq> - 1 \<and> fd \<notin> fds \<and> fds' = insert fd fds"
  using assms
proof (induction rps)
  case (Cons rp rps)
  then have "insert (b_socket rp) fds - {b_socket rp} = fds" by auto
  with Cons show ?case by (auto simp: Let_def split: if_splits)
qed simp

lemma network_listen_open:
  assumes "network_listen res listened fds = (fd, fds')" "\<forall>rps. res = Some rps \<longrightarrow> (\<forall>rp \<in> set rps. b_socket rp \<notin> fds)"
  shows "fd = - 1 \<and> fds' = fds \<or> fd \<noteq> - 1 \<and> fd \<notin> fds \<and> fds' = insert fd fds"
proof (cases res)
  case None
  with assms(1) show ?thesis by (simp add: network_listen_def)
next
  case (Some rps)
  obtain fd1 fds1 where b: "bind_loop rps fds = (fd1, fds1)" by (metis prod.collapse)
  have "\<forall>rp \<in> set rps. b_socket rp \<notin> fds" using assms(2) Some by simp
  from bind_loop_open [OF b this] show ?thesis
    using assms(1) Some b by (auto simp: network_listen_def split: if_splits)
qed

end
