(* ===== verification/Client_Connection.thy ===== *)
theory Client_Connection
  imports Utils
begin

text \<open>
  Opening and testing a connection to the server (\<open>src/client/connection.c\<close>). The answers of the system calls
  for one address of the server are a record; the state is the set of open descriptors.
\<close>

subsection \<open>Connecting\<close>

definition monotonic_milliseconds :: "timespec option \<Rightarrow> int" where
  "monotonic_milliseconds clock = (case clock of None \<Rightarrow> - 1 | Some now \<Rightarrow> tv_sec now * 1000 + tv_nsec now div 1000000)"

text \<open>\<open>poll\<close>, and after it returned a ready descriptor \<open>getsockopt\<close> with the pending error of the socket.\<close>

datatype poll_t = Poll_Eintr | Poll_Error | Poll_Timeout | Poll_Ready bool int

text \<open>The loop of \<open>wait_for_connect\<close>; the clock is past the deadline when the answers are used up.\<close>

primrec wait_loop :: "(timespec option \<times> poll_t) list \<Rightarrow> int \<Rightarrow> int" where
  "wait_loop [] deadline = - 1"
| "wait_loop (r # rs) deadline =
     (let now = monotonic_milliseconds (fst r)
      in if now < 0 \<or> now \<ge> deadline then - 1
         else (case snd r of
                 Poll_Eintr \<Rightarrow> wait_loop rs deadline
               | Poll_Error \<Rightarrow> - 1
               | Poll_Timeout \<Rightarrow> - 1
               | Poll_Ready opt_ok socket_error \<Rightarrow> if \<not> opt_ok \<or> socket_error \<noteq> 0 then - 1 else 0))"

definition wait_for_connect :: "timespec option \<Rightarrow> (timespec option \<times> poll_t) list \<Rightarrow> int \<Rightarrow> int" where
  "wait_for_connect clock rounds timeout_ms =
     (let deadline = monotonic_milliseconds clock
      in if deadline < 0 then - 1 else wait_loop rounds (deadline + timeout_ms))"

datatype connect_t = Connected | In_Progress | Connect_Error

record address_t =
  a_socket :: int
  a_getfl :: int
  a_setfl :: int
  a_connect :: connect_t
  a_clock :: "timespec option"
  a_rounds :: "(timespec option \<times> poll_t) list"
  a_restore :: int

text \<open>\<open>connect_address\<close>: the descriptor or -1, and the open descriptors afterwards.\<close>

definition connect_address :: "address_t \<Rightarrow> int \<Rightarrow> int set \<Rightarrow> int \<times> int set" where
  "connect_address a timeout_ms fds =
     (let fd = a_socket a
      in if fd < 0 then (- 1, fds)
         else
           (let fds = insert fd fds
            in if a_getfl a < 0 \<or> a_setfl a \<noteq> 0 then (- 1, fds - {fd})
               else
                 (let result = (case a_connect a of
                                  Connected \<Rightarrow> 0
                                | In_Progress \<Rightarrow> wait_for_connect (a_clock a) (a_rounds a) timeout_ms
                                | Connect_Error \<Rightarrow> - 1)
                  in if result \<noteq> 0 \<or> a_restore a \<noteq> 0 then (- 1, fds - {fd}) else (fd, fds))))"

primrec connect_addresses :: "address_t list \<Rightarrow> int \<Rightarrow> int set \<Rightarrow> int \<times> int set" where
  "connect_addresses [] timeout_ms fds = (- 1, fds)"
| "connect_addresses (a # as) timeout_ms fds =
     (let (fd, fds) = connect_address a timeout_ms fds
      in if fd \<ge> 0 then (fd, fds) else connect_addresses as timeout_ms fds)"

text \<open>What the system answers to one \<open>client_connection_open\<close>.\<close>

record open_env =
  o_addresses :: "address_t list option"
  o_rcvtimeo :: int
  o_sndtimeo :: int

definition client_connection_open ::
  "open_env \<Rightarrow> string option \<Rightarrow> string option \<Rightarrow> int \<Rightarrow> int \<Rightarrow> int set \<Rightarrow> int \<times> int set" where
  "client_connection_open env host port connect_timeout_ms io_timeout_ms fds =
     (if host = None \<or> host = Some [] \<or> port = None \<or> port = Some [] \<or> connect_timeout_ms \<le> 0 \<or> io_timeout_ms \<le> 0 then (- 1, fds)
      else (case o_addresses env of
              None \<Rightarrow> (- 1, fds)
            | Some addresses \<Rightarrow>
                (let (fd, fds) = connect_addresses addresses connect_timeout_ms fds
                 in if fd < 0 then (- 1, fds)
                    else if o_rcvtimeo env \<noteq> 0 \<or> o_sndtimeo env \<noteq> 0 then (- 1, fds - {fd})
                    else (fd, fds))))"

subsection \<open>Testing and closing\<close>

text \<open>The answers of \<open>recv (MSG_PEEK | MSG_DONTWAIT)\<close>; \<open>EAGAIN\<close> when they are used up.\<close>

datatype peek_t = Peek_Byte | Peek_Closed | Peek_Eintr | Peek_Again | Peek_Error

primrec peek_loop :: "peek_t list \<Rightarrow> bool" where
  "peek_loop [] = True"
| "peek_loop (p # ps) =
     (case p of
        Peek_Byte \<Rightarrow> True
      | Peek_Closed \<Rightarrow> False
      | Peek_Eintr \<Rightarrow> peek_loop ps
      | Peek_Again \<Rightarrow> True
      | Peek_Error \<Rightarrow> False)"

definition client_connection_is_alive :: "peek_t list \<Rightarrow> int \<Rightarrow> bool" where
  "client_connection_is_alive peeks fd = (if fd < 0 then False else peek_loop peeks)"

definition client_connection_close :: "int \<Rightarrow> int set \<Rightarrow> int set" where
  "client_connection_close fd fds = (if fd < 0 then fds else fds - {fd})"

subsection \<open>No descriptor is lost\<close>

text \<open>The kernel hands out descriptors that are not open.\<close>

definition fresh_sockets :: "open_env \<Rightarrow> int set \<Rightarrow> bool" where
  "fresh_sockets env fds \<longleftrightarrow> (\<forall>as. o_addresses env = Some as \<longrightarrow> (\<forall>a \<in> set as. a_socket a \<notin> fds))"

lemma connect_address_open:
  assumes "connect_address a t fds = (fd, fds')" "a_socket a \<notin> fds"
  shows "fd < 0 \<and> fds' = fds \<or> fd \<ge> 0 \<and> fd \<notin> fds \<and> fds' = insert fd fds"
  using assms by (auto simp: connect_address_def Let_def split: if_splits)

lemma connect_addresses_open:
  assumes "connect_addresses as t fds = (fd, fds')" "\<forall>a \<in> set as. a_socket a \<notin> fds"
  shows "fd < 0 \<and> fds' = fds \<or> fd \<ge> 0 \<and> fd \<notin> fds \<and> fds' = insert fd fds"
  using assms
proof (induction as)
  case Nil
  then show ?case by simp
next
  case (Cons a as)
  obtain fd1 fds1 where a: "connect_address a t fds = (fd1, fds1)" by (metis prod.collapse)
  have "a_socket a \<notin> fds" using Cons.prems(2) by simp
  from connect_address_open [OF a this] show ?case using Cons a by (auto split: if_splits)
qed

lemma client_connection_open_fds:
  assumes "client_connection_open env host port t io fds = (fd, fds')" "fresh_sockets env fds"
  shows "fd < 0 \<and> fds' = fds \<or> fd \<ge> 0 \<and> fd \<notin> fds \<and> fds' = insert fd fds \<and> 0 < t \<and> 0 < io"
proof (cases "o_addresses env")
  case None
  with assms(1) show ?thesis by (auto simp: client_connection_open_def split: if_splits)
next
  case (Some as)
  obtain fd1 fds1 where a: "connect_addresses as t fds = (fd1, fds1)" by (metis prod.collapse)
  have "\<forall>a \<in> set as. a_socket a \<notin> fds" using assms(2) Some by (simp add: fresh_sockets_def)
  from connect_addresses_open [OF a this] show ?thesis
    using assms(1) Some a by (auto simp: client_connection_open_def Let_def split: if_splits)
qed

end
