(* ===== verification/Client_Runtime.thy ===== *)
theory Client_Runtime
  imports Client_Transfer Client_Connection Config
begin

text \<open>
  The client's runtime state (\<open>src/client/runtime.c\<close>) and its transfer manager (the second half of
  \<open>src/client/transfer.c\<close>): which transfers run, which have finished and wait to be reported.

  An active task is listed with the address of its object. The operations that hold the manager's lock are
  one step each; a worker thread changes the manager only in \<open>task_publish_socket\<close>, \<open>task_close_socket\<close> and
  \<open>finish_task\<close>.
\<close>

subsection \<open>State\<close>

record transfer_manager_t =
  tm_active :: "(nat \<times> client_task_t) list"
  tm_active_count :: nat
  tm_max_concurrent :: nat
  tm_stopping :: bool
  tm_events :: "transfer_event_t list"

record client_runtime_t =
  rt_config :: client_config_t
  rt_control_fd :: int
  rt_session_id :: session_id_t
  rt_username :: string
  rt_remote_cwd :: string
  rt_download_dir :: string
  rt_transfers :: "transfer_manager_t option"

definition zero_runtime :: client_runtime_t where
  "zero_runtime =
     \<lparr>rt_config = zero_client_config, rt_control_fd = 0, rt_session_id = empty_session_id, rt_username = [], rt_remote_cwd = [],
      rt_download_dir = [], rt_transfers = None\<rparr>"

subsection \<open>The manager\<close>

text \<open>\<open>memory\<close> is whether \<open>calloc\<close>, \<open>pthread_mutex_init\<close> and \<open>pthread_cond_init\<close> succeed.\<close>

definition transfer_manager_create :: "bool \<times> bool \<times> bool \<Rightarrow> nat \<Rightarrow> transfer_manager_t option" where
  "transfer_manager_create memory max_concurrent =
     (if max_concurrent = 0 then None
      else if \<not> fst memory then None
      else if \<not> fst (snd memory) then None
      else if \<not> snd (snd memory) then None
      else Some \<lparr>tm_active = [], tm_active_count = 0, tm_max_concurrent = max_concurrent, tm_stopping = False, tm_events = []\<rparr>)"

text \<open>\<open>memory\<close> is whether the allocations of the task and of its event succeed.\<close>

definition allocate_task :: "bool \<times> bool \<Rightarrow> transfer_kind_t \<Rightarrow> client_task_t option" where
  "allocate_task memory kind =
     (if \<not> fst memory then None
      else if \<not> snd memory then None
      else Some
        \<lparr>ct_event = \<lparr>ev_kind = kind, ev_result = TRANSFER_RESULT_OK, ev_path = []\<rparr>, ct_kind = kind, ct_canceled = False,
         ct_socket_fd = - 1, ct_session_id = empty_session_id, ct_host = [], ct_port = [], ct_connect_timeout_ms = 0,
         ct_io_timeout_ms = 0, ct_local_path = [], ct_remote_path = [], ct_target_path = [], ct_part_path = []\<rparr>)"

text \<open>\<open>threads\<close> are the results of \<open>pthread_attr_init\<close>, \<open>pthread_attr_setdetachstate\<close> and \<open>pthread_create\<close>.\<close>

definition start_task :: "int \<times> int \<times> int \<Rightarrow> transfer_manager_t \<Rightarrow> nat \<Rightarrow> client_task_t \<Rightarrow> int \<times> transfer_manager_t" where
  "start_task threads m a task =
     (if tm_stopping m \<or> tm_active_count m \<ge> tm_max_concurrent m then (- 1, m)
      else if ct_kind task = TRANSFER_DOWNLOAD \<and>
              list_ex (\<lambda>(_, t). ct_kind t = TRANSFER_DOWNLOAD \<and> ct_target_path t = ct_target_path task) (tm_active m)
      then (- 1, m)
      else
        (let m1 = m\<lparr>tm_active := (a, task) # tm_active m, tm_active_count := tm_active_count m + 1\<rparr>;
             back = m1\<lparr>tm_active := tl (tm_active m1), tm_active_count := tm_active_count m1 - 1\<rparr>
         in if fst threads \<noteq> 0 then (- 1, back)
            else if fst (snd threads) \<noteq> 0 then (- 1, back)
            else if snd (snd threads) \<noteq> 0 then (- 1, back)
            else (0, m1)))"

text \<open>An operation on the task at an address.\<close>

definition on_task :: "nat \<Rightarrow> (client_task_t \<Rightarrow> client_task_t) \<Rightarrow> transfer_manager_t \<Rightarrow> transfer_manager_t" where
  "on_task a f m = m\<lparr>tm_active := map (\<lambda>(b, t). if b = a then (b, f t) else (b, t)) (tm_active m)\<rparr>"

definition task_publish_socket :: "nat \<Rightarrow> client_task_t \<Rightarrow> int \<Rightarrow> transfer_manager_t \<Rightarrow> int \<times> transfer_manager_t" where
  "task_publish_socket a task fd m =
     (if ct_canceled task then (- 1, m) else (0, on_task a (\<lambda>t. t\<lparr>ct_socket_fd := fd\<rparr>) m))"

definition task_close_socket :: "nat \<Rightarrow> client_task_t \<Rightarrow> transfer_manager_t \<Rightarrow> int set \<Rightarrow> transfer_manager_t \<times> int set" where
  "task_close_socket a task m fds =
     (on_task a (\<lambda>t. t\<lparr>ct_socket_fd := - 1\<rparr>) m,
      if ct_socket_fd task \<ge> 0 then client_connection_close (ct_socket_fd task) fds else fds)"

text \<open>The first task with this address is unlinked.\<close>

primrec unlink_task :: "nat \<Rightarrow> (nat \<times> client_task_t) list \<Rightarrow> bool \<times> (nat \<times> client_task_t) list" where
  "unlink_task a [] = (False, [])"
| "unlink_task a (t # ts) =
     (if fst t = a then (True, ts) else (let (found, rest) = unlink_task a ts in (found, t # rest)))"

definition finish_task :: "nat \<Rightarrow> client_task_t \<Rightarrow> int \<Rightarrow> transfer_manager_t \<Rightarrow> transfer_manager_t" where
  "finish_task a task operation_result m =
     (let event = (ct_event task)
            \<lparr>ev_result := (if ct_canceled task then TRANSFER_RESULT_CANCELED
                           else if operation_result = 0 then TRANSFER_RESULT_OK else TRANSFER_RESULT_FAILED)\<rparr>;
          (found, active) = unlink_task a (tm_active m)
      in m\<lparr>tm_active := active, tm_active_count := (if found then tm_active_count m - 1 else tm_active_count m),
           tm_events := tm_events m @ [event]\<rparr>)"

text \<open>
  \<open>transfer_worker\<close> for the task at \<open>a\<close>: the connection, the transfer on it, and the end. The transfer itself is
  the argument \<open>run\<close> (\<open>run_upload\<close> or \<open>run_download\<close> of this task); \<open>canceled\<close> is the flag as \<open>finish_task\<close> reads it.
\<close>

definition transfer_worker ::
  "open_env \<Rightarrow> (client_task_t \<Rightarrow> xfer_t \<Rightarrow> int \<times> xfer_t) \<Rightarrow> bool \<Rightarrow> nat \<Rightarrow> client_task_t \<Rightarrow> transfer_manager_t \<times> int set \<times> xfer_t
    \<Rightarrow> transfer_manager_t \<times> int set \<times> xfer_t" where
  "transfer_worker env run canceled a task s =
     (case s of (m, fds, x) \<Rightarrow>
        (let (fd, fds) = client_connection_open env (Some (ct_host task)) (Some (ct_port task)) (ct_connect_timeout_ms task)
               (ct_io_timeout_ms task) fds
         in if fd < 0 then (finish_task a (task\<lparr>ct_canceled := canceled\<rparr>) (- 1) m, fds, x)
            else
              (let (published, m) = task_publish_socket a task fd m
               in if published \<noteq> 0 then (finish_task a (task\<lparr>ct_canceled := canceled\<rparr>) (- 1) m, client_connection_close fd fds, x)
                  else
                    (let task = task\<lparr>ct_socket_fd := fd\<rparr>;
                         (result, x) = run task x;
                         (m, fds) = task_close_socket a task m fds
                     in (finish_task a (task\<lparr>ct_socket_fd := - 1, ct_canceled := canceled\<rparr>) result m, fds, x)))))"

definition worker_run :: "(byte list \<Rightarrow> byte list) \<Rightarrow> endian \<Rightarrow> client_task_t \<Rightarrow> xfer_t \<Rightarrow> int \<times> xfer_t" where
  "worker_run sha256 e task = (if ct_kind task = TRANSFER_UPLOAD then run_upload sha256 e task else run_download sha256 e task)"

text \<open>\<open>transfer_manager_stop\<close> up to its wait, and whether the wait is over.\<close>

definition manager_stop_begin :: "transfer_manager_t \<Rightarrow> transfer_manager_t" where
  "manager_stop_begin m =
     m\<lparr>tm_stopping := True, tm_active := map (\<lambda>(a, t). (a, t\<lparr>ct_canceled := True\<rparr>)) (tm_active m)\<rparr>"

definition manager_stop_done :: "transfer_manager_t \<Rightarrow> bool" where
  "manager_stop_done m \<longleftrightarrow> tm_active_count m = 0"

text \<open>The events are taken off and reported: the lines, with whether they go to standard output.\<close>

definition report :: "transfer_event_t \<Rightarrow> bool \<times> string" where
  "report ev =
     (ev_result ev = TRANSFER_RESULT_OK,
      (case ev_kind ev of TRANSFER_UPLOAD \<Rightarrow> ''upload'' | TRANSFER_DOWNLOAD \<Rightarrow> ''download'') @
     (case ev_result ev of
        TRANSFER_RESULT_OK \<Rightarrow> '' completed: '' | TRANSFER_RESULT_CANCELED \<Rightarrow> '' canceled: '' | TRANSFER_RESULT_FAILED \<Rightarrow> '' failed: '') @
     ev_path ev @ [newline])"

definition transfer_manager_drain_events :: "transfer_manager_t \<Rightarrow> transfer_manager_t \<times> (bool \<times> string) list" where
  "transfer_manager_drain_events m = (m\<lparr>tm_events := []\<rparr>, map report (tm_events m))"

subsection \<open>The runtime\<close>

definition client_runtime_init ::
  "bool \<times> bool \<times> bool \<Rightarrow> client_runtime_t option \<Rightarrow> client_config_t option \<Rightarrow> string option \<Rightarrow> int \<times> client_runtime_t option" where
  "client_runtime_init memory runtime config download_dir =
     (case (runtime, config, download_dir) of
        (Some rt, Some c, Some dir) \<Rightarrow>
          if length dir \<ge> PATH_MAX then (- 1, runtime)
          else
            (let rt1 = zero_runtime\<lparr>rt_control_fd := - 1, rt_config := c, rt_download_dir := dir\<rparr>;
                 max = unat (word_of_int (tc_max_concurrent (cc_transfer c)) :: u64)
             in case transfer_manager_create memory max of
                  None \<Rightarrow> (- 1, Some (zero_runtime\<lparr>rt_control_fd := - 1\<rparr>))
                | Some m \<Rightarrow> (0, Some (rt1\<lparr>rt_transfers := Some m\<rparr>)))
      | _ \<Rightarrow> (- 1, runtime))"

definition client_runtime_clear_session :: "client_runtime_t \<Rightarrow> client_runtime_t" where
  "client_runtime_clear_session rt = rt\<lparr>rt_session_id := empty_session_id, rt_username := [], rt_remote_cwd := []\<rparr>"

definition client_runtime_disconnect_control :: "client_runtime_t \<Rightarrow> int set \<Rightarrow> client_runtime_t \<times> int set" where
  "client_runtime_disconnect_control rt fds =
     (let (rt, fds) = (if rt_control_fd rt \<ge> 0 then (rt\<lparr>rt_control_fd := - 1\<rparr>, client_connection_close (rt_control_fd rt) fds)
                       else (rt, fds))
      in (client_runtime_clear_session rt, fds))"

definition client_runtime_publish_session ::
  "client_runtime_t \<Rightarrow> session_id_t option \<Rightarrow> string option \<Rightarrow> int \<times> client_runtime_t" where
  "client_runtime_publish_session rt key name =
     (case name of
        None \<Rightarrow> (- 1, rt)
      | Some str \<Rightarrow>
          if session_id_is_empty key then (- 1, rt)
          else if min 64 (length str) = 0 \<or> min 64 (length str) = 64 then (- 1, rt)
          else (0, rt\<lparr>rt_session_id := the key, rt_username := str, rt_remote_cwd := ''/''\<rparr>))"

text \<open>The snapshot: session ID, user name and working directory, into buffers of the given sizes.\<close>

definition client_runtime_session_snapshot ::
  "client_runtime_t \<Rightarrow> nat \<Rightarrow> nat \<Rightarrow> (session_id_t \<times> string \<times> string) option" where
  "client_runtime_session_snapshot rt username_size cwd_size =
     (if username_size = 0 \<or> cwd_size = 0 then None
      else
        (let username_length = min 64 (length (rt_username rt)); cwd_length = min PATH_MAX (length (rt_remote_cwd rt))
         in if session_id_is_empty (Some (rt_session_id rt)) \<or> username_length = 64 \<or> cwd_length = PATH_MAX \<or>
               username_length \<ge> username_size \<or> cwd_length \<ge> cwd_size
            then None
            else Some (rt_session_id rt, rt_username rt, rt_remote_cwd rt)))"

definition client_runtime_update_cwd :: "client_runtime_t \<Rightarrow> string option \<Rightarrow> int \<times> client_runtime_t" where
  "client_runtime_update_cwd rt cwd =
     (case cwd of
        None \<Rightarrow> (- 1, rt)
      | Some str \<Rightarrow>
          if min PATH_MAX (length str) = 0 \<or> min PATH_MAX (length str) = PATH_MAX then (- 1, rt)
          else if session_id_is_empty (Some (rt_session_id rt)) then (- 1, rt)
          else (0, rt\<lparr>rt_remote_cwd := str\<rparr>))"

text \<open>
  \<open>client_runtime_destroy\<close> at the end of its wait: \<open>m\<close> is the manager with no active task left. The lines
  printed are the last component.
\<close>

definition client_runtime_destroy :: "transfer_manager_t \<Rightarrow> client_runtime_t \<Rightarrow> int set \<Rightarrow> (client_runtime_t \<times> int set \<times> (bool \<times> string) list) option" where
  "client_runtime_destroy m rt fds =
     (if rt_transfers rt = None then
        (let (rt, fds) = client_runtime_disconnect_control rt fds in Some (rt, fds, []))
      else if \<not> manager_stop_done m then None
      else
        (let (_, lines) = transfer_manager_drain_events m;
             (rt, fds) = client_runtime_disconnect_control (rt\<lparr>rt_transfers := None\<rparr>) fds
         in Some (rt, fds, lines)))"

subsection \<open>Submitting transfers\<close>

definition snapshot_task :: "client_task_t \<Rightarrow> client_runtime_t \<Rightarrow> client_task_t option" where
  "snapshot_task task rt = do {
     (key, _, cwd) \<leftarrow> client_runtime_session_snapshot rt 64 PATH_MAX;
     host \<leftarrow> copy_string 64 (rc_host (cc_remote (rt_config rt)));
     port \<leftarrow> copy_string 16 (rc_port (cc_remote (rt_config rt)));
     remote \<leftarrow> copy_string PATH_MAX cwd;
     Some (task\<lparr>ct_session_id := key, ct_host := host, ct_port := port,
       ct_connect_timeout_ms := tc_connect_timeout_ms (cc_transfer (rt_config rt)),
       ct_io_timeout_ms := tc_io_timeout_ms (cc_transfer (rt_config rt)), ct_remote_path := remote\<rparr>) }"

text \<open>The task of an upload, or \<open>None\<close> when the submission fails before it is started.\<close>

definition upload_task :: "bool \<times> bool \<Rightarrow> string option \<Rightarrow> client_runtime_t \<Rightarrow> string \<Rightarrow> client_task_t option" where
  "upload_task memory HOME rt local_path = do {
     task \<leftarrow> allocate_task memory TRANSFER_UPLOAD;
     task \<leftarrow> snapshot_task task rt;
     cwd \<leftarrow> copy_string PATH_MAX (ct_remote_path task);
     let (expanded, local_out) = utils_expand_local_path HOME local_path PATH_MAX;
     if expanded \<noteq> 0 then None
     else do {
       source \<leftarrow> local_out;
       let (based, base_out) = utils_get_base_name (Some source) (int NAME_MAX);
       if based \<noteq> 0 then None
       else do {
         base_name \<leftarrow> base_out;
         (normalized, remote_out) \<leftarrow> normalize_cd_path (Some cwd) (Some base_name) (Some (ct_remote_path task)) PATH_MAX;
         if normalized \<noteq> 0 then None
         else do {
           remote \<leftarrow> remote_out;
           path \<leftarrow> copy_string PATH_MAX remote;
           Some (task\<lparr>ct_local_path := source, ct_remote_path := remote, ct_event := (ct_event task)\<lparr>ev_path := path\<rparr>\<rparr>) } } } }"

definition download_task :: "bool \<times> bool \<Rightarrow> client_runtime_t \<Rightarrow> string \<Rightarrow> client_task_t option" where
  "download_task memory rt remote_path = do {
     task \<leftarrow> allocate_task memory TRANSFER_DOWNLOAD;
     task \<leftarrow> snapshot_task task rt;
     cwd \<leftarrow> copy_string PATH_MAX (ct_remote_path task);
     dir \<leftarrow> copy_string PATH_MAX (rt_download_dir rt);
     (normalized, remote_out) \<leftarrow> normalize_cd_path (Some cwd) (Some remote_path) (Some (ct_remote_path task)) PATH_MAX;
     if normalized \<noteq> 0 then None
     else do {
       remote \<leftarrow> remote_out;
       let (based, base_out) = utils_get_base_name (Some remote) (int NAME_MAX);
       if based \<noteq> 0 then None
       else do {
         base_name \<leftarrow> base_out;
         let (joined, target) = join_path PATH_MAX dir base_name;
         if joined \<noteq> 0 then None
         else if length target + length ''.part'' + 1 > PATH_MAX then None
         else do {
           path \<leftarrow> copy_string PATH_MAX target;
           Some (task\<lparr>ct_remote_path := remote, ct_target_path := target, ct_part_path := target @ ''.part'',
             ct_event := (ct_event task)\<lparr>ev_path := path\<rparr>\<rparr>) } } } }"

text \<open>What the system answers to one submission; \<open>se_address\<close> is where the task object is allocated.\<close>

record submit_env =
  se_memory :: "bool \<times> bool"
  se_address :: nat
  se_threads :: "int \<times> int \<times> int"

definition transfer_submit_upload ::
  "submit_env \<Rightarrow> string option \<Rightarrow> transfer_manager_t option \<Rightarrow> client_runtime_t option \<Rightarrow> string option \<Rightarrow> int \<times> transfer_manager_t option" where
  "transfer_submit_upload env HOME manager runtime local_path =
     (case (manager, runtime, local_path) of
        (Some m, Some rt, Some p) \<Rightarrow>
          if p = [] then (- 1, manager)
          else (case upload_task (se_memory env) HOME rt p of
                  None \<Rightarrow> (- 1, manager)
                | Some task \<Rightarrow> (let (ret, m) = start_task (se_threads env) m (se_address env) task in (if ret \<noteq> 0 then - 1 else 0, Some m)))
      | _ \<Rightarrow> (- 1, manager))"

definition transfer_submit_download ::
  "submit_env \<Rightarrow> transfer_manager_t option \<Rightarrow> client_runtime_t option \<Rightarrow> string option \<Rightarrow> int \<times> transfer_manager_t option" where
  "transfer_submit_download env manager runtime remote_path =
     (case (manager, runtime, remote_path) of
        (Some m, Some rt, Some p) \<Rightarrow>
          if p = [] then (- 1, manager)
          else (case download_task (se_memory env) rt p of
                  None \<Rightarrow> (- 1, manager)
                | Some task \<Rightarrow> (let (ret, m) = start_task (se_threads env) m (se_address env) task in (if ret \<noteq> 0 then - 1 else 0, Some m)))
      | _ \<Rightarrow> (- 1, manager))"

end
