(* ===== verification/Client_Command.thy ===== *)
theory Client_Command
  imports Client_Runtime
begin

text \<open>
  The interactive part of the client: commands (\<open>src/client/command.c\<close>), registration and login
  (\<open>src/client/user_auth.c\<close>, \<open>src/client/menu.c\<close>) and the main program (\<open>src/client/main.c\<close>).

  The client's state holds its runtime, the socket of the control connection, the open descriptors, the
  characters still to be typed and the lines printed on standard output, besides the answers of the system
  to the calls that are still to come; messages on standard error and in the log are not kept.
\<close>

subsection \<open>State\<close>

record client_t =
  cl_rt :: client_runtime_t
  cl_sock :: sock
  cl_fds :: "int set"
  cl_stdin :: string
  cl_stdout :: "string list"
  cl_home :: "string option"
  cl_peeks :: "peek_t list list"
  cl_opens :: "(open_env \<times> sock) list"
  cl_submits :: "submit_env list"
  cl_mallocs :: "bool list"
  cl_ttys :: "(bool \<times> bool) list"
  cl_finished :: "(nat \<times> int) list list"

text \<open>The next of a list of answers, and a default when they are used up.\<close>

definition next_answer :: "'a \<Rightarrow> 'a list \<Rightarrow> 'a \<times> 'a list" where
  "next_answer d as = (case as of [] \<Rightarrow> (d, []) | a # as \<Rightarrow> (a, as))"

definition no_server :: "open_env \<times> sock" where
  "no_server = (\<lparr>o_addresses = None, o_rcvtimeo = 0, o_sndtimeo = 0\<rparr>, \<lparr>rx = [], tx = [], rx_io = [], tx_io = []\<rparr>)"

definition no_thread :: submit_env where
  "no_thread = \<lparr>se_memory = (False, False), se_address = 0, se_threads = (0, 0, 0)\<rparr>"

definition print_line :: "string \<Rightarrow> client_t \<Rightarrow> client_t" where
  "print_line str s = s\<lparr>cl_stdout := cl_stdout s @ [str]\<rparr>"

definition is_alive :: "client_t \<Rightarrow> bool \<times> client_t" where
  "is_alive s =
     (let (peeks, rest) = next_answer [] (cl_peeks s)
      in (client_connection_is_alive peeks (rt_control_fd (cl_rt s)), s\<lparr>cl_peeks := rest\<rparr>))"

definition read_line :: "int \<Rightarrow> client_t \<Rightarrow> string option \<times> client_t" where
  "read_line sz s = (let (line, rest) = s_gets sz (cl_stdin s) in (line, s\<lparr>cl_stdin := rest\<rparr>))"

text \<open>One packet sent on the control connection and one received.\<close>

definition control_exchange :: "endian \<Rightarrow> packet_t option \<Rightarrow> client_t \<Rightarrow> packet_t option \<times> client_t" where
  "control_exchange e request s =
     (let (ret, sock) = protocol_send_packet e request (cl_sock s); s = s\<lparr>cl_sock := sock\<rparr>
      in if ret \<noteq> 0 then (None, s)
         else
           (let (malloc_ok, rest) = next_answer True (cl_mallocs s); s = s\<lparr>cl_mallocs := rest\<rparr>;
                (ret, response, sock) = protocol_recv_packet e malloc_ok (cl_sock s); s = s\<lparr>cl_sock := sock\<rparr>
            in (if ret \<noteq> 0 then None else Some response, s)))"

subsection \<open>Commands\<close>

datatype client_command_result_t = CLIENT_COMMAND_OK | CLIENT_COMMAND_EXIT | CLIENT_COMMAND_RECONNECT | CLIENT_COMMAND_ERROR

definition skip_space :: "string \<Rightarrow> string" where
  "skip_space str = dropWhile is_space str"

text \<open>The next word and what follows it, or \<open>None\<close> for -1, which leaves the cursor.\<close>

definition next_word :: "string \<Rightarrow> nat \<Rightarrow> (string \<times> string) option" where
  "next_word cursor word_size =
     (let start = skip_space cursor; word = takeWhile (\<lambda>c. \<not> is_space c) start
      in if length word = 0 \<or> length word \<ge> word_size then None else Some (word, drop (length word) start))"

definition control_connection_lost :: "client_t \<Rightarrow> client_command_result_t \<times> client_t" where
  "control_connection_lost s =
     (let (rt, fds) = client_runtime_disconnect_control (cl_rt s) (cl_fds s)
      in (CLIENT_COMMAND_RECONNECT, s\<lparr>cl_rt := rt, cl_fds := fds\<rparr>))"

definition execute_short_command :: "endian \<Rightarrow> u32 \<Rightarrow> string \<Rightarrow> client_t \<Rightarrow> client_command_result_t \<times> client_t" where
  "execute_short_command e type argument s =
     (case client_runtime_session_snapshot (cl_rt s) 64 PATH_MAX of
        None \<Rightarrow> (CLIENT_COMMAND_ERROR, s)
      | Some (key, _, _) \<Rightarrow>
     (case packet_init (Some zero_packet) type STATUS_OK (Some key) (Some (bytes_of argument)) (word_of_nat (length argument)) of
        (ret, request) \<Rightarrow>
          if ret \<noteq> 0 then (CLIENT_COMMAND_ERROR, s)
          else
     (case control_exchange e request s of
        (None, s) \<Rightarrow> control_connection_lost s
      | (Some response, s) \<Rightarrow>
          if \<not> session_id_equal (Some key) (Some (session_id (header response))) then (CLIENT_COMMAND_ERROR, s)
          else if ptype (header response) \<noteq> CMD_ACK \<and> ptype (header response) \<noteq> CMD_ERROR then (CLIENT_COMMAND_ERROR, s)
          else if unat (payload_len (header response)) \<ge> 65537 then (CLIENT_COMMAND_ERROR, s)
          else
            (let text = cstr_of (case payload response of None \<Rightarrow> [] | Some bs \<Rightarrow> take (unat (payload_len (header response))) bs)
             in if ptype (header response) = CMD_ERROR \<or> status (header response) \<noteq> STATUS_OK then
                  (if status (header response) = STATUS_UNAUTHORIZED then control_connection_lost s else (CLIENT_COMMAND_ERROR, s))
                else if type = CMD_CD then
                  (if text = [] then (CLIENT_COMMAND_ERROR, s)
                   else (let (ret, rt) = client_runtime_update_cwd (cl_rt s) (Some text)
                         in (if ret \<noteq> 0 then CLIENT_COMMAND_ERROR else CLIENT_COMMAND_OK, s\<lparr>cl_rt := rt\<rparr>)))
                else (CLIENT_COMMAND_OK, if text \<noteq> [] then print_line (text @ [newline]) s else s)))))"

text \<open>The request type of a word, \<open>CMD_INVALID\<close> for any other.\<close>

definition short_command :: "string \<Rightarrow> u32" where
  "short_command word =
     (if strcaseeq word ''pwd'' then CMD_PWD
      else if strcaseeq word ''cd'' then CMD_CD
      else if strcaseeq word ''ls'' then CMD_LS
      else if strcaseeq word ''mkdir'' then CMD_MKDIR
      else if strcaseeq word ''rmdir'' then CMD_RMDIR
      else if strcaseeq word ''rm'' then CMD_RM
      else CMD_INVALID)"

text \<open>\<open>puts\<close> and \<open>gets\<close>: a background transfer is started.\<close>

definition start_transfer :: "bool \<Rightarrow> string \<Rightarrow> client_t \<Rightarrow> client_command_result_t \<times> client_t" where
  "start_transfer upload path s =
     (let (env, rest) = next_answer no_thread (cl_submits s); s = s\<lparr>cl_submits := rest\<rparr>;
          (ret, m) = (if upload then transfer_submit_upload env (cl_home s) (rt_transfers (cl_rt s)) (Some (cl_rt s)) (Some path)
                      else transfer_submit_download env (rt_transfers (cl_rt s)) (Some (cl_rt s)) (Some path));
          s = s\<lparr>cl_rt := (cl_rt s)\<lparr>rt_transfers := m\<rparr>\<rparr>
      in if ret \<noteq> 0 then (CLIENT_COMMAND_ERROR, s)
         else (CLIENT_COMMAND_OK, print_line ((if upload then ''upload'' else ''download'') @ '' started in background'' @ [newline]) s))"

definition client_command_execute :: "endian \<Rightarrow> string \<Rightarrow> client_t \<Rightarrow> client_command_result_t \<times> client_t" where
  "client_command_execute e input s =
     (case next_word input 16 of
        None \<Rightarrow> (CLIENT_COMMAND_OK, s)
      | Some (word, cursor) \<Rightarrow>
          if strcaseeq word ''quit'' \<or> strcaseeq word ''exit'' then (CLIENT_COMMAND_EXIT, s)
          else if strcaseeq word ''help'' \<or> strcaseeq word ''h'' then (CLIENT_COMMAND_OK, s)
          else
            (case is_alive s of (alive, s) \<Rightarrow>
               if \<not> alive then control_connection_lost s
               else if strcaseeq word ''puts'' \<or> strcaseeq word ''gets'' then
                 (case next_word cursor PATH_MAX of
                    None \<Rightarrow> (CLIENT_COMMAND_ERROR, s)
                  | Some (path, _) \<Rightarrow> start_transfer (strcaseeq word ''puts'') path s)
               else
                 (let type = short_command word;
                      needs_argument = (type = CMD_MKDIR \<or> type = CMD_RMDIR \<or> type = CMD_RM)
                  in if type \<noteq> CMD_PWD \<and> type \<noteq> CMD_CD \<and> type \<noteq> CMD_LS \<and> \<not> needs_argument then (CLIENT_COMMAND_ERROR, s)
                     else
                       (let argument = (if type = CMD_PWD then [] else case next_word cursor PATH_MAX of None \<Rightarrow> [] | Some (w, _) \<Rightarrow> w)
                        in if needs_argument \<and> argument = [] then (CLIENT_COMMAND_ERROR, s)
                           else execute_short_command e type argument s))))"

subsection \<open>Registration and login\<close>

abbreviation (input) AUTH_OK :: int where "AUTH_OK \<equiv> 0"
abbreviation (input) AUTH_CONNECTION_ERROR :: int where "AUTH_CONNECTION_ERROR \<equiv> 1"
abbreviation (input) AUTH_EXIT :: int where "AUTH_EXIT \<equiv> 2"
abbreviation (input) AUTH_REQUEST_FAILED :: int where "AUTH_REQUEST_FAILED \<equiv> - 1"
abbreviation (input) AUTH_REQUEST_CONNECTION_ERROR :: int where "AUTH_REQUEST_CONNECTION_ERROR \<equiv> - 2"

definition menu_show_auth :: "client_t \<Rightarrow> int \<times> client_t" where
  "menu_show_auth s = (case read_line 16 s of (None, s) \<Rightarrow> (- 1, s) | (Some str, s) \<Rightarrow> (atoi str, s))"

definition exchange_auth :: "endian \<Rightarrow> u32 \<Rightarrow> string \<Rightarrow> client_t \<Rightarrow> packet_t option \<times> client_t" where
  "exchange_auth e type str s =
     (case packet_init (Some zero_packet) type STATUS_OK None (Some (bytes_of str)) (word_of_nat (length str)) of
        (ret, request) \<Rightarrow> if ret \<noteq> 0 then (None, s) else control_exchange e request s)"

definition type_password :: "client_t \<Rightarrow> string option \<times> client_t" where
  "type_password s =
     (let ((get_ok, set_ok), rest) = next_answer (True, True) (cl_ttys s);
          (ret, buf, stdin, _) = read_password False 32 get_ok set_ok (cl_stdin s)
      in (if ret \<noteq> 0 then None else buf, s\<lparr>cl_ttys := rest, cl_stdin := stdin\<rparr>))"

definition read_credentials :: "client_t \<Rightarrow> (string \<times> string) option \<times> client_t" where
  "read_credentials s =
     (case read_line 64 s of
        (None, s) \<Rightarrow> (None, s)
      | (Some name, s) \<Rightarrow>
          if name = [] then (None, s)
          else (case type_password s of
                  (None, s) \<Rightarrow> (None, s)
                | (Some password, s) \<Rightarrow> (Some (name, password), s)))"

definition auth_payload :: "string \<Rightarrow> string \<Rightarrow> string" where
  "auth_payload name password = fst (snprintf 128 (name @ [newline] @ password))"

definition user_login :: "endian \<Rightarrow> client_t \<Rightarrow> int \<times> client_t" where
  "user_login e s =
     (case read_credentials (s\<lparr>cl_rt := client_runtime_clear_session (cl_rt s)\<rparr>) of
        (None, s) \<Rightarrow> (AUTH_REQUEST_FAILED, s)
      | (Some (name, password), s) \<Rightarrow>
          (case exchange_auth e CMD_LOGIN_REQ (auth_payload name password) s of
             (None, s) \<Rightarrow> (AUTH_REQUEST_CONNECTION_ERROR, s)
           | (Some response, s) \<Rightarrow>
               if ptype (header response) = CMD_ACK \<and> status (header response) = STATUS_OK \<and>
                  \<not> session_id_is_empty (Some (session_id (header response)))
               then (let (ret, rt) = client_runtime_publish_session (cl_rt s) (Some (session_id (header response))) (Some name)
                     in (ret, s\<lparr>cl_rt := rt\<rparr>))
               else if ptype (header response) = CMD_ERROR \<and> status (header response) = STATUS_USER_NOTEXIST then
                 (AUTH_REQUEST_FAILED, print_line (''Username '' @ name @ '' does not exist'' @ [newline]) s)
               else if ptype (header response) = CMD_ERROR \<and> status (header response) = STATUS_PASSWD_ERROR then
                 (AUTH_REQUEST_FAILED, print_line (''Password is not correct'' @ [newline]) s)
               else (AUTH_REQUEST_FAILED, s)))"

text \<open>The loop that asks for the password until it is typed twice.\<close>

partial_function (option) new_password :: "client_t \<Rightarrow> (string option \<times> client_t) option" where
  "new_password s =
     (case type_password s of
        (None, s) \<Rightarrow> Some (None, s)
      | (Some password, s) \<Rightarrow>
          (case type_password s of
             (None, s) \<Rightarrow> Some (None, s)
           | (Some confirm, s) \<Rightarrow>
               if password = confirm then Some (Some password, s)
               else new_password (print_line (''The passwords you entered do not match.'' @ [newline, newline]) s)))"

definition user_register :: "endian \<Rightarrow> client_t \<Rightarrow> (int \<times> client_t) option" where
  "user_register e s =
     (case read_line 64 s of
        (None, s) \<Rightarrow> Some (AUTH_REQUEST_FAILED, s)
      | (Some name, s) \<Rightarrow>
          if name = [] then Some (AUTH_REQUEST_FAILED, s)
          else do {
            (typed, s) \<leftarrow> new_password s;
            (case typed of
               None \<Rightarrow> Some (AUTH_REQUEST_FAILED, s)
             | Some password \<Rightarrow>
                 (case exchange_auth e CMD_REGISTER_REQ (auth_payload name password) s of
                    (None, s) \<Rightarrow> Some (AUTH_REQUEST_CONNECTION_ERROR, s)
                  | (Some response, s) \<Rightarrow>
                      Some (if ptype (header response) = CMD_ACK \<and> status (header response) = STATUS_OK \<and>
                               session_id_is_empty (Some (session_id (header response))) then 0 else AUTH_REQUEST_FAILED, s))) })"

text \<open>One round of \<open>user_auth\<close>: \<open>Inr\<close> is its result, \<open>Inl\<close> goes on with the menu.\<close>

definition auth_round :: "endian \<Rightarrow> client_t \<Rightarrow> (client_t + int \<times> client_t) option" where
  "auth_round e s =
     (case menu_show_auth s of (choice, s) \<Rightarrow>
        if choice = 1 then
          (case is_alive s of (alive, s) \<Rightarrow>
             if \<not> alive then Some (Inr (AUTH_CONNECTION_ERROR, s))
             else (case user_login e s of (result, s) \<Rightarrow>
                     if result = 0 then Some (Inr (AUTH_OK, s))
                     else if result = AUTH_REQUEST_CONNECTION_ERROR then Some (Inr (AUTH_CONNECTION_ERROR, s))
                     else Some (Inl (print_line (''Login failed, please try again'' @ [newline]) s))))
        else if choice = 2 then
          (case is_alive s of (alive, s) \<Rightarrow>
             if \<not> alive then Some (Inr (AUTH_CONNECTION_ERROR, s))
             else do {
               (result, s) \<leftarrow> user_register e s;
               if result = 0 then Some (Inl (print_line (''Register success, please login'' @ [newline]) s))
               else if result = AUTH_REQUEST_CONNECTION_ERROR then Some (Inr (AUTH_CONNECTION_ERROR, s))
               else Some (Inl (print_line (''Register failed'' @ [newline]) s)) })
        else if choice = 0 then Some (Inr (AUTH_EXIT, s))
        else Some (Inl (print_line (''Invalid choice'' @ [newline]) s)))"

text \<open>\<open>user_auth\<close>: the result \<open>None\<close> means that it does not return.\<close>

partial_function (option) user_auth :: "endian \<Rightarrow> client_t \<Rightarrow> (int \<times> client_t) option" where
  "user_auth e s = do {
     r \<leftarrow> auth_round e s;
     (case r of Inl s \<Rightarrow> user_auth e s | Inr res \<Rightarrow> Some res) }"

end
