(* ===== verification/Client_Main.thy ===== *)
theory Client_Main
  imports Client_Command Log
begin

text \<open>
  The main program of the client (\<open>src/client/main.c\<close>): configuration, connection, authentication, the command
  loop, reconnecting, and the end. The background transfers that finish while the program waits for a line are
  answers of the environment: the addresses of the tasks and the results of the operations.
\<close>

subsection \<open>Start\<close>

text \<open>\<open>argv\<close> holds the program's name and its arguments; the results are the configuration and the three paths.\<close>

definition load_paths_and_config ::
  "string option \<Rightarrow> (string \<Rightarrow> (nat \<times> ini_line) list option) \<Rightarrow> string list \<Rightarrow> (client_config_t \<times> string \<times> string \<times> string) option" where
  "load_paths_and_config cwd files argv =
     (if length argv > 2 then None
      else do {
        let (ret, project_out) = get_project_dir cwd PATH_MAX;
        if ret \<noteq> 0 then None
        else do {
          project_dir \<leftarrow> project_out;
          config_path \<leftarrow>
            (if length argv = 2 then
               (let (path, written) = snprintf PATH_MAX (argv ! 1) in if written \<ge> PATH_MAX then None else Some path)
             else
               (let (ret, path) = join_path PATH_MAX project_dir ''config/client.conf'' in if ret \<noteq> 0 then None else Some path));
          let (ret, loaded) = client_config_load files (Some config_path) (Some zero_client_config);
          if ret \<noteq> 0 then None
          else do {
            config \<leftarrow> loaded;
            let (ret1, log_file) = join_path PATH_MAX project_dir (lc_log_file (cc_log config));
            let (ret2, download_dir) = join_path PATH_MAX project_dir (cc_download_dir config);
            if ret1 \<noteq> 0 \<or> ret2 \<noteq> 0 then None else Some (config, project_dir, download_dir, log_file) } } })"

definition connect_control :: "client_t \<Rightarrow> int \<times> client_t" where
  "connect_control s =
     (let (rt, fds) = client_runtime_disconnect_control (cl_rt s) (cl_fds s);
          ((env, sock), rest) = next_answer no_server (cl_opens s);
          (fd, fds) = client_connection_open env (Some (rc_host (cc_remote (rt_config rt)))) (Some (rc_port (cc_remote (rt_config rt))))
            (tc_connect_timeout_ms (cc_transfer (rt_config rt))) (tc_io_timeout_ms (cc_transfer (rt_config rt))) fds;
          s = s\<lparr>cl_rt := rt\<lparr>rt_control_fd := fd\<rparr>, cl_fds := fds, cl_opens := rest\<rparr>
      in if fd < 0 then (- 1, s) else (0, s\<lparr>cl_sock := sock\<rparr>))"

subsection \<open>The loops\<close>

text \<open>The transfers that have finished since the last round.\<close>

definition finish_listed :: "(nat \<times> int) list \<Rightarrow> transfer_manager_t \<Rightarrow> transfer_manager_t" where
  "finish_listed rs m = fold (\<lambda>(a, result) m. case map_of (tm_active m) a of None \<Rightarrow> m | Some task \<Rightarrow> finish_task a task result m) rs m"

definition to_stdout :: "(bool \<times> string) list \<Rightarrow> string list" where
  "to_stdout lines = map snd (filter fst lines)"

definition drain :: "client_t \<Rightarrow> client_t" where
  "drain s =
     (let (rs, rest) = next_answer [] (cl_finished s); s = s\<lparr>cl_finished := rest\<rparr>
      in case rt_transfers (cl_rt s) of
           None \<Rightarrow> s
         | Some m \<Rightarrow>
             (let (m, lines) = transfer_manager_drain_events (finish_listed rs m)
              in s\<lparr>cl_rt := (cl_rt s)\<lparr>rt_transfers := Some m\<rparr>, cl_stdout := cl_stdout s @ to_stdout lines\<rparr>))"

text \<open>How the command loop ends: end of input or exit (exit code 0), a lost connection that stays lost, or reconnecting.\<close>

datatype command_end = Leave | Lost | Reconnect

partial_function (option) command_loop :: "endian \<Rightarrow> client_t \<Rightarrow> (command_end \<times> client_t) option" where
  "command_loop e s =
     (case client_runtime_session_snapshot (cl_rt (drain s)) 64 PATH_MAX of
        None \<Rightarrow> Some (Reconnect, drain s)
      | Some (_, name, cwd) \<Rightarrow>
          (case read_line (int MAX_COMMAND_INPUT) (print_line (name @ ''@cloud-drive:'' @ cwd @ ''> '') (drain s)) of
             (None, s) \<Rightarrow> Some (Leave, s)
           | (Some input, s) \<Rightarrow>
               (case client_command_execute e input s of
                  (CLIENT_COMMAND_EXIT, s) \<Rightarrow> Some (Leave, s)
                | (CLIENT_COMMAND_RECONNECT, s) \<Rightarrow>
                    (case connect_control s of (ret, s) \<Rightarrow> Some (if ret \<noteq> 0 then Lost else Reconnect, s))
                | (_, s) \<Rightarrow> command_loop e s)))"

text \<open>The outer loop with the exit code.\<close>

partial_function (option) main_loop :: "endian \<Rightarrow> client_t \<Rightarrow> (int \<times> client_t) option" where
  "main_loop e s = do {
     (auth_result, s) \<leftarrow> user_auth e s;
     if auth_result = AUTH_CONNECTION_ERROR then
       (case connect_control s of (ret, s) \<Rightarrow> if ret \<noteq> 0 then Some (1, s) else main_loop e s)
     else if auth_result = AUTH_EXIT then Some (0, s)
     else do {
       (ended, s) \<leftarrow> command_loop e s;
       (case ended of
          Leave \<Rightarrow> Some (0, s)
        | Lost \<Rightarrow> Some (1, s)
        | Reconnect \<Rightarrow> main_loop e s) } }"

text \<open>
  \<open>main\<close>. The directories are made by \<open>mkdir\<close>, which here only answers; \<open>fopen_ok\<close> and \<open>memory\<close> are for the log
  file and the transfer manager; \<open>final\<close> lists the transfers that finish while the client waits for them at
  the end. The result is the exit code, the state and the log state.
\<close>

definition client_main ::
  "endian \<Rightarrow> string option \<Rightarrow> (string \<Rightarrow> (nat \<times> ini_line) list option) \<Rightarrow> (string \<Rightarrow> nat \<Rightarrow> unit \<Rightarrow> bool \<times> unit) \<Rightarrow> bool \<Rightarrow>
    bool \<times> bool \<times> bool \<Rightarrow> (nat \<times> int) list \<Rightarrow> string list \<Rightarrow> client_t \<Rightarrow> log_state_t \<Rightarrow> (int \<times> client_t \<times> log_state_t) option" where
  "client_main e cwd files mkdir fopen_ok memory final argv s l =
     (case load_paths_and_config cwd files argv of
        None \<Rightarrow> Some (1, s, l)
      | Some (config, _, download_dir, log_file) \<Rightarrow>
          if fst (ensure_parent_dir mkdir (Some log_file) ()) \<noteq> 0 then Some (1, s, l)
          else
            (let l = snd (log_init fopen_ok (lc_log_level (cc_log config)) (Some log_file) l)
             in if fst (mkdir_p mkdir (Some download_dir) 0x1ED ()) \<noteq> 0 then Some (1, s, log_close l)
                else
                  (case client_runtime_init memory (Some (zero_runtime\<lparr>rt_control_fd := - 1\<rparr>)) (Some config) (Some download_dir) of
                     (ret, rt) \<Rightarrow> do {
                       rt \<leftarrow> rt;
                       let s = s\<lparr>cl_rt := rt\<rparr>;
                       if ret \<noteq> 0 then Some (1, s, log_close l)
                       else do {
                         (exit_code, s) \<leftarrow>
                           (case connect_control s of (ret, s) \<Rightarrow> if ret \<noteq> 0 then Some (1, s) else main_loop e s);
                         let s = (if exit_code = 0 then print_line (''bye, have a good day!'' @ [newline]) s else s);
                         m \<leftarrow> rt_transfers (cl_rt s);
                         (rt, fds, lines) \<leftarrow> client_runtime_destroy (finish_listed final (manager_stop_begin m)) (cl_rt s) (cl_fds s);
                         Some (exit_code, s\<lparr>cl_rt := rt, cl_fds := fds, cl_stdout := cl_stdout s @ to_stdout lines\<rparr>, log_close l) } })))"

end
