(* ===== verification/Spec2Isabelle.thy ===== *)
theory Spec2Isabelle
  imports Handler_Basic_Properties Server_Runs Upload Thread_Pool_Correct Timer_Wheel_Correct Server_Main Client_Main
begin

text \<open>
  A verification of the cloud drive: a server that keeps the files of its users (contents once per hash on disk,
  names and reference counts in MySQL) and a command-line client.

  \<^bold>\<open>The program.\<close> Client and server exchange TLV2 packets over TCP. On the server the main thread waits with epoll,
  accepts connections, reads one request packet, checks its session and hands it to a pool of workers; a timer wheel
  closes idle connections. A worker runs the handler of the command: registration and login, the directory commands, or
  an upload or download, which owns its connection until it ends. The handlers use the session table, a pool of database
  connections through the data access functions, and the storage directory. The client has a control connection for
  commands and starts each transfer in the background with a connection of its own.

  \<^bold>\<open>Conventions.\<close> C integers whose width matters are words (\<open>byte\<close>, \<open>u32\<close>, \<open>u64\<close>). A C string is a \<open>string\<close>
  without NUL, a pointer that may be NULL an \<open>option\<close>. An operation that would have undefined behaviour, or block forever,
  returns \<open>None\<close>; a proof that it returns \<open>Some\<close> is a proof that it does not. Handlers are cut at their early
  returns: \<open>Inl\<close> is a state in which the handler has returned, \<open>Inr\<close> what the next step needs. System calls take
  their answers from lists in the state (short, interrupted or failing transfers; calls that succeed or not), so that a
  theorem about all states is one about all answers. \<open>Prelude\<close> has the shared types and lemmas, \<open>Kernel\<close> files and
  descriptors.

  \<^bold>\<open>Data structures.\<close> \<open>Chains\<close> has heaps of linked nodes and the locale \<open>chained_index\<close> for a chained hash
  index. It is interpreted for the two indexes of the session table (\<open>Session\<close>, \<open>Session_Correct\<close>;
  \<open>server/session.c\<close>) and for that of the timer wheel (\<open>Timer_Wheel\<close>, \<open>Timer_Wheel_Correct\<close>;
  \<open>server/timer_wheel.c\<close>). The session operations refine operations on finite maps, never touch a wrong address and
  free everything once; the wheel refines a map of deadlines, expires nobody early and, on a clock that does not run
  backwards, leaves nobody tracked whose deadline was reached. \<open>Thread_Pool\<close> and \<open>Thread_Pool_Correct\<close>
  (\<open>server/thread_pool.c\<close>) have every interleaving of workers, callers and shutdown, with spurious wake-ups, as a step
  relation over critical sections: first in first out, exactly once, no lost wake-up, and a shutdown that drains the
  queue and returns. The linked queue is an interpretation of the locale \<open>fifo_queue\<close>.

  \<^bold>\<open>Packets.\<close> \<open>Protocol\<close> (\<open>common/protocol.c\<close>, \<open>protocol.h\<close>): what is sent is received, and what is accepted
  was a frame. \<open>Payloads\<close> has the structures inside, \<open>Wire\<close> and \<open>Streams\<close> what the callers need to know of a
  connection, \<open>Calm\<close> the calls that are not refused. \<open>Utils\<close>, \<open>Utils_Correct\<close> (\<open>common/utils.c\<close>): path
  normalization, line input, the hash of a file.

  \<^bold>\<open>Database.\<close> \<open>Database_Pool\<close> (\<open>server/database_pool.c\<close>), \<open>Sql\<close> and \<open>Dao\<close> (\<open>server/dao_*.c\<close>) build the
  text of the statements as the code does. MySQL is a parameter: \<open>Tables\<close> states as \<open>mysql_ok\<close> the documented
  behaviour of a server on these statements, which may refuse any of them, and has a reference server that satisfies
  it. \<open>Dao_Correct\<close>, \<open>Dao_Effects\<close>, \<open>Dao_Queries\<close> and \<open>Dao_Properties\<close> derive what each function does to the
  tables, and the invariant that reference counts are the numbers of paths.

  \<^bold>\<open>Handlers.\<close> \<open>Handler_Basic\<close>, \<open>Handler_Basic_Correct\<close>, \<open>Handler_Basic_Properties\<close>
  (\<open>server/handler_basic.c\<close>): every request gets its answer, and an answer of success is given only with the effect it
  reports. \<open>Handler_Transfer\<close>, \<open>Handler_Transfer_Correct\<close> (\<open>server/handler_transfer.c\<close>) and \<open>Storage\<close>: uploads
  keep every row of \<open>files\<close> backed by a file with its hash. \<open>Handler_Event\<close> (\<open>server/handler_event.c\<close> and the
  loop of \<open>server/main.c\<close>) and \<open>Server_Runs\<close>: runs in which events, expiry and tasks interleave; the locale
  \<open>preserved\<close> carries the invariant along them. \<open>Server_Main\<close> starts and stops the server.

  \<^bold>\<open>Client.\<close> \<open>Client_Transfer\<close>, \<open>Client_Transfer_Correct\<close>, \<open>Client_Transfer_Runs\<close> (\<open>client/transfer.c\<close>);
  \<open>Client_Runtime\<close>, \<open>Client_Connection\<close>, \<open>Client_Command\<close>, \<open>Client_Main\<close>, \<open>Config\<close>, \<open>Log\<close> model the
  rest of the client, the configuration and the logger. \<open>Download\<close> and \<open>Upload\<close> put client and server together: the
  output of one is the input of the other.

  \<^bold>\<open>Bounds and assumptions.\<close> No loop has fuel. Loops over packets, files and answers of the system have
  termination proofs. Walks along chains of nodes, the slots of the timer wheel and the dialogues of the client, which
  may run forever, are \<open>partial_function\<close>s, where not returning is \<open>None\<close>; the theorems on the session table
  and the wheel show that their walks return. The theorems that involve the database assume fewer than \<open>2 ^ 31\<close> paths created so far (\<open>room\<close>)
  and, because the code neither escapes what it puts into a statement nor checks that it fits, names without quotes
  whose resolved path has at most 425 characters (\<open>names_ok\<close>). File contents are shorter than \<open>2 ^ 64\<close> bytes.
  SHA-256 and \<open>crypt\<close> are parameters. In \<open>Server_Runs\<close> a task is one step: workers interleave with the main
  thread between tasks, not inside one. The two end-to-end theorems assume that the operating system refuses no call;
  they allow it to cut calls short and, except in the hash of an upload on the server, to interrupt them.

  \<^bold>\<open>Not modelled.\<close> The screen decoration of \<open>tui.c\<close> and the texts that the menus print; signal handlers and the
  server's banner; \<open>server/event_handler.c\<close>, which is not built; the INI parser and the MySQL, OpenSSL and crypt
  libraries, which are parameters; and races between two workers inside their handlers, for example two uploads of the
  same contents that share a partial file. The starting and stopping of the server, the configuration, the logger, and
  the runtime, connections and commands of the client are modelled, but no property of the list is about them; a few
  lemmas there say which descriptors are open after a failed call and that log levels can be read back.
\<close>

end
